(* ===== verification/Prelude.thy ===== *)
theory Prelude
  imports Main "HOL-Library.Char_ord" "HOL-Library.List_Lexorder" "HOL-Library.Product_Lexorder"
    "HOL-Library.Option_ord"
begin

text \<open>
  Shared vocabulary of the development: the gateway's error type (src/src/error.rs), results and
  transactions that may fail, the relational tables the store reads and writes, and the generic
  facts about them that the component theories use.

  Rust's \<^verbatim>\<open>String\<close> is a list of UTF-8 bytes: here \<open>string\<close>, whose characters are
  bytes; \<open>starts_with\<close> and comparison are bytewise in both. Fixed-width integers are
  \<open>int\<close> or \<open>nat\<close> with their bounds written out where the code depends on them. A
  \<^verbatim>\<open>DateTime<Utc>\<close> is the number of nanoseconds since the Unix epoch.
\<close>

section \<open>Collections of facts\<close>

named_theorems tx_simps \<open>unfolding of transactions\<close>
named_theorems tx_inv \<open>inversion of successful results\<close>
named_theorems frame \<open>what an operation leaves unchanged\<close>

section \<open>Application errors\<close>

type_synonym datetime = int

datatype tier_error =
    ColdNotConfigured | TierUnavailable | CidMismatch | LocalCopyIncomplete
  | NodeIdentityMismatch | SameNode | Cancelled

datatype app_error =
    Tier tier_error
  | NoSuchBucket string
  | NoSuchKey string
  | NoSuchVersion string string string
  | InvalidArgument string
  | InvalidLifecycleConfiguration string
  | InvalidCorsConfiguration
  | CorruptCorsConfiguration
  | NoSuchCorsConfiguration
  | InvalidCorsDigest
  | BadCorsDigest
  | NoSuchLifecycleConfiguration
  | DeleteMarkerError string datetime bool
  | BucketAlreadyExists string
  | BucketNotEmpty string
  | NoSuchUpload string
  | InvalidPart string
  | InvalidPartOrder
  | EntityTooSmall
  | InvalidRange
  | InvalidZipParameter string
  | InvalidZipEntry string
  | InvalidPinningRequest string
  | InvalidImportRequest
  | ImportUrlDenied
  | NoSuchImportJob
  | ImportIdempotencyConflict
  | ZipIdempotencyConflict
  | ImportDisabled
  | StaleImportOwnership
  | StaleContentMutation
  | ZipSlip string
  | UnsupportedZipEntry string
  | ZipArchiveRejected string
  | AccessDenied string
  | KuboRpc "nat option" string
  | Database string
  | Crypto string
  | Internal string
  | ManagementBudget

type_synonym 'a app_result = "app_error + 'a"

section \<open>Results\<close>

text \<open>\<open>bindR\<close> is Rust's question mark on \<^verbatim>\<open>Result\<close>: the first error is returned.\<close>

fun bindR :: "'e + 'a \<Rightarrow> ('a \<Rightarrow> 'e + 'b) \<Rightarrow> 'e + 'b" where
  "bindR (Inl e) f = Inl e"
| "bindR (Inr x) f = f x"

definition ok_or :: "'e \<Rightarrow> 'a option \<Rightarrow> 'e + 'a" where
  "ok_or e x = (case x of None \<Rightarrow> Inl e | Some v \<Rightarrow> Inr v)"

text \<open>\<^verbatim>\<open>Option::map(f).transpose()\<close> and collecting an iterator of results.\<close>

fun traverse_option :: "('a \<Rightarrow> 'e + 'b) \<Rightarrow> 'a option \<Rightarrow> 'e + 'b option" where
  "traverse_option f None = Inr None"
| "traverse_option f (Some x) = bindR (f x) (\<lambda>y. Inr (Some y))"

fun traverse_list :: "('a \<Rightarrow> 'e + 'b) \<Rightarrow> 'a list \<Rightarrow> 'e + 'b list" where
  "traverse_list f [] = Inr []"
| "traverse_list f (x # xs) = bindR (f x) (\<lambda>y. bindR (traverse_list f xs) (\<lambda>ys. Inr (y # ys)))"

lemma bindR_eq_Inr [tx_inv]: "bindR m f = Inr y \<longleftrightarrow> (\<exists>x. m = Inr x \<and> f x = Inr y)"
  by (cases m) auto

lemma bindR_eq_Inl: "bindR m f = Inl e \<longleftrightarrow> m = Inl e \<or> (\<exists>x. m = Inr x \<and> f x = Inl e)"
  by (cases m) auto

lemma ok_or_eq_Inr [simp, tx_inv]: "ok_or e x = Inr y \<longleftrightarrow> x = Some y"
  by (cases x) (auto simp: ok_or_def)

lemma ok_or_simps [simp]: "ok_or e None = Inl e" "ok_or e (Some v) = Inr v"
  by (simp_all add: ok_or_def)

lemma traverse_option_eq_Inr [tx_inv]:
  "traverse_option f x = Inr y \<longleftrightarrow>
     (case x of None \<Rightarrow> y = None | Some v \<Rightarrow> \<exists>w. f v = Inr w \<and> y = Some w)"
  by (cases x) (auto simp: bindR_eq_Inr)

lemma traverse_list_eq_Inr:
  "traverse_list f xs = Inr ys \<longleftrightarrow> list_all2 (\<lambda>x y. f x = Inr y) xs ys"
  by (induction xs arbitrary: ys) (auto simp: bindR_eq_Inr list_all2_Cons1)

lemma traverse_list_map_Inr:
  "(\<And>x. x \<in> set xs \<Longrightarrow> f x = Inr (g x)) \<Longrightarrow> traverse_list f xs = Inr (map g xs)"
  by (induction xs) auto

section \<open>Transactions\<close>

text \<open>
  An operation that runs inside a database transaction maps the state to an error, and then the
  transaction is rolled back, or to a value and the new state.
\<close>

type_synonym ('s, 'a) tx = "'s \<Rightarrow> app_error + ('a \<times> 's)"

definition returnT :: "'a \<Rightarrow> ('s, 'a) tx" where
  "returnT x = (\<lambda>s. Inr (x, s))"

definition throwT :: "app_error \<Rightarrow> ('s, 'a) tx" where
  "throwT e = (\<lambda>s. Inl e)"

definition bindT :: "('s, 'a) tx \<Rightarrow> ('a \<Rightarrow> ('s, 'b) tx) \<Rightarrow> ('s, 'b) tx" where
  "bindT m f = (\<lambda>s. case m s of Inl e \<Rightarrow> Inl e | Inr (x, s') \<Rightarrow> f x s')"

definition queryT :: "('s \<Rightarrow> 'a app_result) \<Rightarrow> ('s, 'a) tx" where
  "queryT q = (\<lambda>s. bindR (q s) (\<lambda>x. Inr (x, s)))"

definition getsT :: "('s \<Rightarrow> 'a) \<Rightarrow> ('s, 'a) tx" where
  "getsT f = (\<lambda>s. Inr (f s, s))"

definition modifyT :: "('s \<Rightarrow> 's) \<Rightarrow> ('s, unit) tx" where
  "modifyT f = (\<lambda>s. Inr ((), f s))"

definition guardT :: "app_error \<Rightarrow> bool \<Rightarrow> ('s, unit) tx" where
  "guardT e b = (if b then returnT () else throwT e)"

definition liftT :: "'a app_result \<Rightarrow> ('s, 'a) tx" where
  "liftT r = (\<lambda>s. bindR r (\<lambda>x. Inr (x, s)))"

lemma bindT_eq_Inr [tx_inv]:
  "bindT m f s = Inr (y, s'') \<longleftrightarrow> (\<exists>x s'. m s = Inr (x, s') \<and> f x s' = Inr (y, s''))"
  by (auto simp: bindT_def split: sum.splits prod.splits)

lemma bindT_Inr [simp]: "m s = Inr (x, s') \<Longrightarrow> bindT m f s = f x s'"
  by (simp add: bindT_def)

lemma bindT_Inl [simp]: "m s = Inl e \<Longrightarrow> bindT m f s = Inl e"
  by (simp add: bindT_def)

lemma returnT_apply [simp, tx_simps]: "returnT x s = Inr (x, s)"
  by (simp add: returnT_def)

lemma throwT_apply [simp, tx_simps]: "throwT e s = Inl e"
  by (simp add: throwT_def)

lemma getsT_apply [simp, tx_simps]: "getsT f s = Inr (f s, s)"
  by (simp add: getsT_def)

lemma modifyT_apply [simp, tx_simps]: "modifyT f s = Inr ((), f s)"
  by (simp add: modifyT_def)

lemma queryT_eq_Inr [simp, tx_inv]: "queryT q s = Inr (x, s') \<longleftrightarrow> q s = Inr x \<and> s' = s"
  by (auto simp: queryT_def bindR_eq_Inr)

lemma queryT_Inr [simp]: "q s = Inr x \<Longrightarrow> queryT q s = Inr (x, s)"
  by (simp add: queryT_def)

lemma queryT_Inl [simp]: "queryT q s = Inl e \<longleftrightarrow> q s = Inl e"
  by (cases "q s") (auto simp: queryT_def)

lemma liftT_eq_Inr [simp, tx_inv]: "liftT r s = Inr (x, s') \<longleftrightarrow> r = Inr x \<and> s' = s"
  by (auto simp: liftT_def bindR_eq_Inr)

lemma guardT_eq_Inr [simp, tx_inv]: "guardT e b s = Inr (x, s') \<longleftrightarrow> b \<and> s' = s"
  by (auto simp: guardT_def)

lemma guardT_True [simp]: "guardT e True s = Inr ((), s)"
  by (simp add: guardT_def)

lemma guardT_False [simp]: "guardT e False s = Inl e"
  by (simp add: guardT_def)

section \<open>Tables\<close>

text \<open>
  A table is the list of its rows in insertion order. \<open>one_row\<close> is a query for one row,
  \<open>count_rows\<close> both \<^verbatim>\<open>COUNT\<close> and the number of rows a statement affects,
  \<open>update_rows\<close> and \<open>delete_rows\<close> are \<^verbatim>\<open>UPDATE\<close> and \<^verbatim>\<open>DELETE\<close> with a
  \<^verbatim>\<open>WHERE\<close> clause.
\<close>

definition one_row :: "('r \<Rightarrow> bool) \<Rightarrow> 'r list \<Rightarrow> 'r option" where
  "one_row P t = List.find P t"

definition count_rows :: "('r \<Rightarrow> bool) \<Rightarrow> 'r list \<Rightarrow> nat" where
  "count_rows P t = length (filter P t)"

definition update_rows :: "('r \<Rightarrow> bool) \<Rightarrow> ('r \<Rightarrow> 'r) \<Rightarrow> 'r list \<Rightarrow> 'r list" where
  "update_rows P f t = map (\<lambda>r. if P r then f r else r) t"

definition delete_rows :: "('r \<Rightarrow> bool) \<Rightarrow> 'r list \<Rightarrow> 'r list" where
  "delete_rows P t = filter (\<lambda>r. \<not> P r) t"

lemma one_row_None: "one_row P t = None \<longleftrightarrow> (\<forall>r \<in> set t. \<not> P r)"
  by (auto simp: one_row_def find_None_iff)

lemma one_row_SomeD: "one_row P t = Some r \<Longrightarrow> r \<in> set t \<and> P r"
  by (auto simp: one_row_def find_Some_iff)

lemma one_row_append:
  "one_row P (xs @ ys) = (case one_row P xs of None \<Rightarrow> one_row P ys | Some r \<Rightarrow> Some r)"
  by (induction xs) (auto simp: one_row_def)

lemma one_row_unique:
  assumes "r \<in> set t" "P r" "\<And>s. s \<in> set t \<Longrightarrow> P s \<Longrightarrow> s = r"
  shows "one_row P t = Some r"
proof (cases "one_row P t")
  case None
  with assms(1,2) show ?thesis by (simp add: one_row_None)
next
  case (Some x)
  then have "x \<in> set t" "P x" by (simp_all add: one_row_SomeD)
  then have "x = r" by (rule assms(3))
  with Some show ?thesis by simp
qed

lemma one_row_cong:
  "(\<And>r. r \<in> set t \<Longrightarrow> P r \<longleftrightarrow> Q r) \<Longrightarrow> one_row P t = one_row Q t"
  by (induction t) (auto simp: one_row_def)

lemma one_row_delete_rows:
  "(\<And>r. P r \<Longrightarrow> \<not> Q r) \<Longrightarrow> one_row P (delete_rows Q t) = one_row P t"
  by (induction t) (auto simp: one_row_def delete_rows_def)

lemma one_row_update_rows:
  assumes "\<And>r. P (f r) \<longleftrightarrow> P r"
  shows "one_row P (update_rows Q f t) = map_option (\<lambda>r. if Q r then f r else r) (one_row P t)"
  using assms by (induction t) (auto simp: one_row_def update_rows_def)

lemma count_rows_0: "count_rows P t = 0 \<longleftrightarrow> (\<forall>r \<in> set t. \<not> P r)"
  by (auto simp: count_rows_def filter_empty_conv)

lemma count_rows_map: "count_rows P (map f t) = count_rows (\<lambda>r. P (f r)) t"
  by (simp add: count_rows_def filter_map comp_def)

lemma count_rows_le_1:
  assumes "distinct t" "\<And>r s. r \<in> set t \<Longrightarrow> s \<in> set t \<Longrightarrow> P r \<Longrightarrow> P s \<Longrightarrow> r = s"
  shows "count_rows P t \<le> 1"
  using assms
proof (induction t)
  case (Cons a t)
  show ?case
  proof (cases "P a")
    case True
    have "\<not> P r" if "r \<in> set t" for r
    proof
      assume "P r"
      with that True have "a = r" by (intro Cons.prems(2)) simp_all
      with that Cons.prems(1) show False by simp
    qed
    then show ?thesis by (simp add: count_rows_def filter_empty_conv)
  next
    case False
    have "count_rows P t \<le> 1"
      by (rule Cons.IH) (use Cons.prems in \<open>simp_all\<close>)
    with False show ?thesis by (simp add: count_rows_def)
  qed
qed (simp add: count_rows_def)

lemma count_rows_eq_1:
  assumes "distinct t" "r \<in> set t" "P r" "\<And>s. s \<in> set t \<Longrightarrow> P s \<Longrightarrow> s = r"
  shows "count_rows P t = 1"
proof -
  have "count_rows P t \<le> 1" using assms(1,4) by (blast intro: count_rows_le_1)
  moreover have "count_rows P t \<noteq> 0" using assms(2,3) by (auto simp: count_rows_0)
  ultimately show ?thesis by simp
qed

lemma count_rows_le_1D:
  assumes "count_rows P t \<le> 1" "r \<in> set t" "P r" "s \<in> set t" "P s"
  shows "r = s"
proof -
  have "length (filter P t) \<le> Suc 0" using assms(1) by (simp add: count_rows_def)
  then consider "filter P t = []" | x where "filter P t = [x]"
    by (metis One_nat_def Suc_length_conv le_SucE le_zero_eq length_0_conv)
  then show ?thesis
  proof cases
    case 1
    with assms(2,3) show ?thesis by (simp add: filter_empty_conv)
  next
    case (2 x)
    have "r \<in> set (filter P t)" "s \<in> set (filter P t)" using assms by simp_all
    with 2 show ?thesis by simp
  qed
qed

lemma set_update_rows: "set (update_rows P f t) = (\<lambda>r. if P r then f r else r) ` set t"
  by (simp add: update_rows_def)

lemma update_rows_keep: "r \<in> set t \<Longrightarrow> \<not> P r \<Longrightarrow> r \<in> set (update_rows P f t)"
  by (force simp: update_rows_def)

lemma update_rows_hit: "r \<in> set t \<Longrightarrow> P r \<Longrightarrow> f r \<in> set (update_rows P f t)"
  by (force simp: update_rows_def)

lemma set_delete_rows [simp]: "set (delete_rows P t) = {r \<in> set t. \<not> P r}"
  by (auto simp: delete_rows_def)

lemma map_update_rows:
  "(\<And>r. g (f r) = g r) \<Longrightarrow> map g (update_rows P f t) = map g t"
  by (simp add: update_rows_def)

lemma distinct_map_delete_rows: "distinct (map g t) \<Longrightarrow> distinct (map g (delete_rows P t))"
  by (simp add: delete_rows_def distinct_map_filter)

lemma update_rows_none: "(\<And>r. r \<in> set t \<Longrightarrow> \<not> P r) \<Longrightarrow> update_rows P f t = t"
  by (simp add: update_rows_def map_idI)

lemma delete_rows_none: "(\<And>r. r \<in> set t \<Longrightarrow> \<not> P r) \<Longrightarrow> delete_rows P t = t"
  by (simp add: delete_rows_def filter_id_conv)

lemma delete_rows_absorb:
  "(\<And>r. r \<in> set t \<Longrightarrow> Q r \<Longrightarrow> P r) \<Longrightarrow> delete_rows P (delete_rows Q t) = delete_rows P t"
  by (induction t) (auto simp: delete_rows_def)

lemma count_rows_key:
  "distinct (map f t) \<Longrightarrow> r \<in> set t \<Longrightarrow> count_rows (\<lambda>s. f s = f r) t = 1"
  by (rule count_rows_eq_1 [where r = r]) (auto simp: distinct_map inj_on_def)

lemma count_rows_key_and:
  "distinct (map f t) \<Longrightarrow> r \<in> set t \<Longrightarrow> P r \<Longrightarrow> count_rows (\<lambda>s. f s = f r \<and> P s) t = 1"
  by (rule count_rows_eq_1 [where r = r]) (auto simp: distinct_map inj_on_def)

text \<open>Two columns of a table whose first column is a key.\<close>

lemma keyed_pair_unique:
  "distinct (map f t) \<Longrightarrow> (i, a) \<in> (\<lambda>r. (f r, g r)) ` set t \<Longrightarrow> (i, b) \<in> (\<lambda>r. (f r, g r)) ` set t \<Longrightarrow> a = b"
  by (auto simp: distinct_map inj_on_def)

lemma keyed_pair_delete:
  "distinct (map f t) \<Longrightarrow>
   (i, a) \<in> (\<lambda>r. (f r, g r)) ` set (delete_rows P t) \<longleftrightarrow>
   (i, a) \<in> (\<lambda>r. (f r, g r)) ` set t \<and> \<not> (\<exists>r \<in> set t. P r \<and> f r = i \<and> g r = a)"
  by (auto simp: distinct_map inj_on_def)

text \<open>Sorting the rows of a query and then projecting columns.\<close>

lemma insort_key_map: "insort_key f (g x) (map g xs) = map g (insort_key (\<lambda>x. f (g x)) x xs)"
  by (induction xs) auto

lemma sort_key_map: "sort_key f (map g xs) = map g (sort_key (\<lambda>x. f (g x)) xs)"
  by (induction xs) (auto simp: insort_key_map)

lemma sort_key_ConsD:
  assumes "sort_key f xs = r # rs"
  shows "r \<in> set xs \<and> (\<forall>s \<in> set xs. f r \<le> f s)"
proof -
  have "sorted (map f (r # rs))" using sorted_sort_key [of f xs] assms by simp
  moreover have "set (r # rs) = set xs" using set_sort [of f xs] assms by simp
  ultimately show ?thesis by auto
qed

lemma sort_key_Nil: "sort_key f xs = [] \<longleftrightarrow> xs = []"
  by (metis length_0_conv length_sort)

lemma filter_map_same:
  "(\<And>r. r \<in> set t \<Longrightarrow> P (f r) = P r) \<Longrightarrow> (\<And>r. r \<in> set t \<Longrightarrow> P r \<Longrightarrow> f r = r) \<Longrightarrow>
   filter P (map f t) = filter P t"
  by (induction t) auto

lemma filter_delete_rows_disjoint:
  "(\<And>r. r \<in> set t \<Longrightarrow> P r \<Longrightarrow> \<not> Q r) \<Longrightarrow> filter P (delete_rows Q t) = filter P t"
  by (induction t) (auto simp: delete_rows_def)

lemma one_row_filter: "one_row (\<lambda>r. P r \<and> Q r) t = one_row Q (filter P t)"
  by (induction t) (auto simp: one_row_def)

lemma count_rows_filter: "count_rows (\<lambda>r. P r \<and> Q r) t = count_rows Q (filter P t)"
  by (induction t) (auto simp: count_rows_def)

section \<open>Integers and strings\<close>

definition i64_max :: int where "i64_max = 9223372036854775807"
definition i64_min :: int where "i64_min = -9223372036854775808"
definition i32_max :: int where "i32_max = 2147483647"

definition checked_add_i64 :: "int \<Rightarrow> int \<Rightarrow> int option" where
  "checked_add_i64 a b = (if i64_min \<le> a + b \<and> a + b \<le> i64_max then Some (a + b) else None)"

text \<open>\<^verbatim>\<open>str::starts_with\<close>, \<^verbatim>\<open>str::to_ascii_lowercase\<close>, \<^verbatim>\<open>str::strip_prefix\<close> and \<^verbatim>\<open>str::find\<close> on bytes.\<close>

fun starts_with :: "string \<Rightarrow> string \<Rightarrow> bool" where
  "starts_with s [] = True"
| "starts_with [] (p # ps) = False"
| "starts_with (c # s) (p # ps) = (c = p \<and> starts_with s ps)"

definition to_ascii_lowercase :: "string \<Rightarrow> string" where
  "to_ascii_lowercase s =
     map (\<lambda>c. let n = of_char c :: nat in if 65 \<le> n \<and> n \<le> 90 then char_of (n + 32) else c) s"

definition strip_prefix :: "string \<Rightarrow> string \<Rightarrow> string option" where
  "strip_prefix s p = (if starts_with s p then Some (drop (length p) s) else None)"

fun find_str :: "string \<Rightarrow> string \<Rightarrow> nat option" where
  "find_str [] d = (if d = [] then Some 0 else None)"
| "find_str (c # s) d = (if starts_with (c # s) d then Some 0 else map_option Suc (find_str s d))"

text \<open>\<^verbatim>\<open>str::chars().count()\<close>: the bytes that are not UTF-8 continuation bytes.\<close>

definition chars_count :: "string \<Rightarrow> nat" where
  "chars_count s = length (filter (\<lambda>c. (of_char c :: nat) div 64 \<noteq> 2) s)"

lemma starts_with_iff: "starts_with s p \<longleftrightarrow> (\<exists>r. s = p @ r)"
  by (induction s p rule: starts_with.induct) auto

lemma strip_prefix_eq_Some: "strip_prefix s p = Some r \<longleftrightarrow> s = p @ r"
  by (auto simp: strip_prefix_def starts_with_iff)

lemma find_str_Some:
  "find_str s d = Some n \<Longrightarrow> n + length d \<le> length s \<and> take (length d) (drop n s) = d"
proof (induction s d arbitrary: n rule: find_str.induct)
  case (2 c s d)
  show ?case
  proof (cases "starts_with (c # s) d")
    case True
    then obtain r where "c # s = d @ r" by (auto simp: starts_with_iff)
    moreover from this have "length (c # s) = length d + length r" by simp
    moreover have "n = 0" using "2.prems" True by simp
    ultimately show ?thesis by simp
  next
    case False
    with 2 show ?thesis by auto
  qed
qed (auto split: if_splits)

lemma find_str_first: "find_str s d = Some n \<Longrightarrow> m < n \<Longrightarrow> \<not> starts_with (drop m s) d"
proof (induction s d arbitrary: n m rule: find_str.induct)
  case (2 c s d)
  then show ?case by (cases m) (auto split: if_splits)
qed (auto split: if_splits)

end
