(* ===== verification/Chunk_Framing.thy ===== *)
theory Chunk_Framing
  imports Prelude "HOL-Library.Word"
begin

text \<open>
  Object encryption (src/src/crypto/): cutting a byte stream into frames of a fixed size whatever
  the packets it arrives in, sealing and opening one frame with AES-256-GCM, the encrypting and
  decrypting streams built from the two, and wrapping of object keys under the master key.

  A stream is the list of its items, \<open>Inl\<close> an error and \<open>Inr\<close> a packet of bytes. The
  ciphers, the hex codec and HMAC-SHA256 come from other crates and are parameters: \<open>seal\<close>
  and \<open>unseal\<close> with a detached tag, \<open>aead_seal\<close> and \<open>aead_unseal\<close> with the tag
  appended. Random nonces are the values of a function from the number of the draw. Where an error
  message of the source ends with the text of another crate's error, the model keeps the constant
  part.
\<close>

type_synonym u8 = "8 word"
type_synonym bytes = "u8 list"

section \<open>Framing\<close>

definition CHUNK_SIZE :: nat where "CHUNK_SIZE = 256 * 1024"
definition CHUNK_OVERHEAD :: nat where "CHUNK_OVERHEAD = 12 + 16"
definition CIPHER_CHUNK :: nat where "CIPHER_CHUNK = CHUNK_SIZE + CHUNK_OVERHEAD"

text \<open>
  The inner loop of \<open>frame_stream\<close>: what it yields from one packet, after \<open>out\<close>, and
  the buffer it leaves. With a frame size of 0 the loop of the source does not end, which is
  \<open>None\<close> here.
\<close>

partial_function (option) frame_bytes ::
  "nat \<Rightarrow> 'a list \<Rightarrow> 'a list \<Rightarrow> 'a list list \<Rightarrow> ('a list list \<times> 'a list) option" where
  "frame_bytes n buf bs out =
     (if bs = [] then Some (out, buf)
      else if buf = [] \<and> n \<le> length bs
      then frame_bytes n buf (drop n bs) (out @ [take n bs])
      else (let len = min (n - length buf) (length bs);
                buf' = buf @ take len bs;
                rest = drop len bs
            in if length buf' = n then frame_bytes n [] rest (out @ [buf'])
               else frame_bytes n buf' rest out))"

fun frame_items ::
  "nat \<Rightarrow> 'a list \<Rightarrow> ('e + 'a list) list \<Rightarrow> ('e + 'a list) list option" where
  "frame_items n buf [] = Some (if buf = [] then [] else [Inr buf])"
| "frame_items n buf (Inr bs # items) =
     (case frame_bytes n buf bs [] of
        None \<Rightarrow> None
      | Some (fs, buf') \<Rightarrow> map_option (\<lambda>r. map Inr fs @ r) (frame_items n buf' items))"
| "frame_items n buf (Inl e # items) = map_option (\<lambda>r. Inl e # r) (frame_items n buf items)"

definition frame_stream :: "nat \<Rightarrow> ('e + 'a list) list \<Rightarrow> ('e + 'a list) list option" where
  "frame_stream n items = frame_items n [] items"

definition chunk_stream :: "('e + 'a list) list \<Rightarrow> ('e + 'a list) list option" where
  "chunk_stream items = frame_stream CHUNK_SIZE items"

text \<open>The packets and the errors of a stream, in order.\<close>

fun oks :: "('e + 'a) list \<Rightarrow> 'a list" where
  "oks [] = []"
| "oks (Inr x # xs) = x # oks xs"
| "oks (Inl e # xs) = oks xs"

fun errs :: "('e + 'a) list \<Rightarrow> 'e list" where
  "errs [] = []"
| "errs (Inr x # xs) = errs xs"
| "errs (Inl e # xs) = e # errs xs"

text \<open>Reference: the consecutive pieces of length \<open>n\<close> of a byte string, the last one shorter.\<close>

function chunks :: "nat \<Rightarrow> 'a list \<Rightarrow> 'a list list" where
  "chunks n bs = (if n = 0 \<or> bs = [] then [] else take n bs # chunks n (drop n bs))"
  by pat_completeness auto
termination
  by (relation "measure (\<lambda>(n, bs). length bs)") auto

declare chunks.simps [simp del]

section \<open>Sealing one chunk\<close>

type_synonym seal_fn = "bytes \<Rightarrow> bytes \<Rightarrow> bytes \<Rightarrow> (bytes \<times> bytes) option"
type_synonym unseal_fn = "bytes \<Rightarrow> bytes \<Rightarrow> bytes \<Rightarrow> bytes \<Rightarrow> bytes option"

definition chunk_encrypt :: "seal_fn \<Rightarrow> bytes \<Rightarrow> bytes \<Rightarrow> bytes \<Rightarrow> bytes app_result" where
  "chunk_encrypt seal key nonce plaintext =
     (case seal key nonce plaintext of
        None \<Rightarrow> Inl (Crypto ''aes-gcm encrypt failed'')
      | Some (ciphertext, tag) \<Rightarrow> Inr (nonce @ ciphertext @ tag))"

definition chunk_decrypt :: "unseal_fn \<Rightarrow> bytes \<Rightarrow> bytes \<Rightarrow> bytes app_result" where
  "chunk_decrypt unseal key encrypted =
     (if length encrypted < CHUNK_OVERHEAD then Inl (Crypto ''encrypted chunk too short'')
      else let tag_start = length encrypted - 16
           in ok_or (Crypto (''aes-gcm decrypt failed '' @ [CHR 0xE2, CHR 0x80, CHR 0x94]
                           @ '' wrong key or corrupted data''))
                (unseal key (take 12 encrypted) (take (tag_start - 12) (drop 12 encrypted))
                   (drop tag_start encrypted)))"

section \<open>Error provenance\<close>

text \<open>
  A \<^verbatim>\<open>dyn Error\<close>: whether it is the gateway's own Kubo stream marker, the error inside it
  when it is an I/O error, its source and its text.
\<close>

datatype dyn_error = DynError (is_kubo_stream_error: bool) (io_get_ref: "dyn_error option")
  (error_source: "dyn_error option") (error_text: string)

fun contains_kubo_stream_error :: "nat \<Rightarrow> dyn_error \<Rightarrow> bool" where
  "contains_kubo_stream_error 0 e = False"
| "contains_kubo_stream_error (Suc depth) e =
     (is_kubo_stream_error e \<or>
      (case io_get_ref e of None \<Rightarrow> False | Some s \<Rightarrow> contains_kubo_stream_error depth s) \<or>
      (case error_source e of None \<Rightarrow> False | Some s \<Rightarrow> contains_kubo_stream_error depth s))"

definition has_kubo_stream_provenance :: "dyn_error \<Rightarrow> bool" where
  "has_kubo_stream_provenance e = contains_kubo_stream_error 32 e"

section \<open>The encrypting and the decrypting stream\<close>

text \<open>A failed encryption ends the stream after the error; an error of the source does not.\<close>

fun encrypt_frames ::
  "seal_fn \<Rightarrow> bytes \<Rightarrow> (nat \<Rightarrow> bytes) \<Rightarrow> nat \<Rightarrow> (dyn_error + bytes) list \<Rightarrow>
   bytes app_result list" where
  "encrypt_frames seal key rng i [] = []"
| "encrypt_frames seal key rng i (Inr bs # items) =
     (case chunk_encrypt seal key (rng i) bs of
        Inl err \<Rightarrow> [Inl err]
      | Inr c \<Rightarrow> Inr c # encrypt_frames seal key rng (Suc i) items)"
| "encrypt_frames seal key rng i (Inl e # items) =
     Inl (Internal (error_text e)) # encrypt_frames seal key rng i items"

definition encrypt_chunk_stream ::
  "seal_fn \<Rightarrow> bytes \<Rightarrow> (nat \<Rightarrow> bytes) \<Rightarrow> (dyn_error + bytes) list \<Rightarrow>
   bytes app_result list option" where
  "encrypt_chunk_stream seal key rng items =
     map_option (encrypt_frames seal key rng 0) (chunk_stream items)"

definition decrypt_item :: "unseal_fn \<Rightarrow> bytes \<Rightarrow> dyn_error + bytes \<Rightarrow> bytes app_result" where
  "decrypt_item unseal key item =
     (case item of
        Inr bs \<Rightarrow> chunk_decrypt unseal key bs
      | Inl e \<Rightarrow>
          if has_kubo_stream_provenance e then Inl (KuboRpc None ''Kubo response stream failed'')
          else Inl (Internal (error_text e)))"

definition decrypt_chunk_stream ::
  "unseal_fn \<Rightarrow> bytes \<Rightarrow> (dyn_error + bytes) list \<Rightarrow> bytes app_result list option" where
  "decrypt_chunk_stream unseal key items =
     map_option (map (decrypt_item unseal key)) (frame_stream CIPHER_CHUNK items)"

section \<open>Keys\<close>

datatype encryption_mode = ModeNone | SseS3 | SseC

fun encryption_mode_as_str :: "encryption_mode \<Rightarrow> string" where
  "encryption_mode_as_str ModeNone = ''none''"
| "encryption_mode_as_str SseS3 = ''sse_s3''"
| "encryption_mode_as_str SseC = ''sse_c''"

definition encryption_mode_parse :: "string \<Rightarrow> encryption_mode" where
  "encryption_mode_parse s =
     (if s = ''sse_s3'' then SseS3 else if s = ''sse_c'' then SseC else ModeNone)"

type_synonym aead_seal_fn = "bytes \<Rightarrow> bytes \<Rightarrow> bytes \<Rightarrow> bytes option"
type_synonym aead_unseal_fn = "bytes \<Rightarrow> bytes \<Rightarrow> bytes \<Rightarrow> bytes option"
type_synonym hex_decode_fn = "string \<Rightarrow> bytes option"
type_synonym hex_encode_fn = "bytes \<Rightarrow> string"

definition master_key_from_hex :: "hex_decode_fn \<Rightarrow> string \<Rightarrow> bytes app_result" where
  "master_key_from_hex hex_decode s =
     bindR (ok_or (Crypto ''invalid master key hex'') (hex_decode s)) (\<lambda>bs.
       if length bs \<noteq> 32 then Inl (Crypto ''master key must be 32 bytes'') else Inr bs)"

definition master_key_wrap ::
  "aead_seal_fn \<Rightarrow> hex_encode_fn \<Rightarrow> bytes \<Rightarrow> bytes \<Rightarrow> bytes \<Rightarrow> string app_result" where
  "master_key_wrap aead_seal hex_encode master nonce ok =
     bindR (ok_or (Crypto ''wrap'') (aead_seal master nonce ok)) (\<lambda>ciphertext.
       Inr (hex_encode (nonce @ ciphertext)))"

definition master_key_unwrap ::
  "aead_unseal_fn \<Rightarrow> hex_decode_fn \<Rightarrow> bytes \<Rightarrow> string \<Rightarrow> bytes app_result" where
  "master_key_unwrap aead_unseal hex_decode master wrapped =
     bindR (ok_or (Crypto ''invalid key_wrap hex'') (hex_decode wrapped)) (\<lambda>combined.
       if length combined < 12 + 16 then Inl (Crypto ''wrapped key too short'')
       else bindR (ok_or (AccessDenied ''failed to unwrap object key'')
                    (aead_unseal master (take 12 combined) (drop 12 combined))) (\<lambda>plaintext.
              if length plaintext \<noteq> 32 then Inl (Crypto ''unwrapped key not 32 bytes'')
              else Inr plaintext))"

definition SSE_C_KEY_FINGERPRINT_PREFIX :: string where
  "SSE_C_KEY_FINGERPRINT_PREFIX = ''v1:hmac-sha256:''"

definition SSE_C_KEY_FINGERPRINT_DOMAIN :: bytes where
  "SSE_C_KEY_FINGERPRINT_DOMAIN =
     map of_char ''ipfs-s3-gateway/sse-c-key-fingerprint/v1''"

type_synonym hmac_fn = "bytes \<Rightarrow> bytes \<Rightarrow> bytes"

definition sse_c_key_fingerprint_mac :: "hmac_fn \<Rightarrow> bytes \<Rightarrow> bytes \<Rightarrow> bytes" where
  "sse_c_key_fingerprint_mac hmac master key =
     hmac master (SSE_C_KEY_FINGERPRINT_DOMAIN @ [0] @ key)"

definition sse_c_key_fingerprint ::
  "hmac_fn \<Rightarrow> hex_encode_fn \<Rightarrow> bytes \<Rightarrow> bytes \<Rightarrow> string" where
  "sse_c_key_fingerprint hmac hex_encode master key =
     SSE_C_KEY_FINGERPRINT_PREFIX @ hex_encode (sse_c_key_fingerprint_mac hmac master key)"

definition verify_sse_c_key_fingerprint ::
  "hmac_fn \<Rightarrow> hex_decode_fn \<Rightarrow> bytes \<Rightarrow> string \<Rightarrow> bytes \<Rightarrow> bool app_result" where
  "verify_sse_c_key_fingerprint hmac hex_decode master stored key =
     bindR (ok_or (Crypto ''invalid SSE-C key fingerprint prefix'')
              (strip_prefix stored SSE_C_KEY_FINGERPRINT_PREFIX)) (\<lambda>hex.
     bindR (ok_or (Crypto ''invalid SSE-C key fingerprint encoding'') (hex_decode hex)) (\<lambda>mac.
       if length mac \<noteq> 32
       then Inl (Crypto ''SSE-C key fingerprint must be a 32-byte HMAC-SHA256 value'')
       else Inr (mac = sse_c_key_fingerprint_mac hmac master key)))"

section \<open>Facts about chunks\<close>

lemma chunks_Nil [simp]: "chunks n [] = []"
  by (simp add: chunks.simps)

lemma chunks_step: "0 < n \<Longrightarrow> bs \<noteq> [] \<Longrightarrow> chunks n bs = take n bs # chunks n (drop n bs)"
  by (simp add: chunks.simps)

lemma chunks_short: "0 < n \<Longrightarrow> length bs \<le> n \<Longrightarrow> chunks n bs = (if bs = [] then [] else [bs])"
  by (simp add: chunks.simps)

lemma chunks_full: "0 < n \<Longrightarrow> length b = n \<Longrightarrow> chunks n (b @ bs) = b # chunks n bs"
  by (subst chunks_step) auto

lemma chunks_full_frames:
  "0 < n \<Longrightarrow> \<forall>f \<in> set fs. length f = n \<Longrightarrow> chunks n (concat fs @ bs) = fs @ chunks n bs"
  by (induction fs) (auto simp: chunks_full)

lemma concat_chunks: "0 < n \<Longrightarrow> concat (chunks n bs) = bs"
proof (induction n bs rule: chunks.induct)
  case (1 n bs)
  then show ?case by (cases "bs = []") (auto simp: chunks_step)
qed

lemma chunks_length: "0 < n \<Longrightarrow> c \<in> set (chunks n bs) \<Longrightarrow> 0 < length c \<and> length c \<le> n"
proof (induction n bs rule: chunks.induct)
  case (1 n bs)
  then show ?case by (cases "bs = []") (auto simp: chunks_step)
qed

text \<open>Frames that are full but for the last are the chunks of their concatenation.\<close>

lemma chunks_concat_frames:
  assumes "0 < n" "\<forall>f \<in> set fs. length f = n" "0 < length l" "length l \<le> n"
  shows "chunks n (concat (fs @ [l])) = fs @ [l]"
  using assms chunks_full_frames [of n fs l] by (auto simp: chunks_short)

lemma chunks_butlast_full: "0 < n \<Longrightarrow> \<forall>f \<in> set (butlast (chunks n bs)). length f = n"
proof (induction n bs rule: chunks.induct)
  case (1 n bs)
  show ?case
  proof (cases "length bs \<le> n")
    case True
    with "1.prems" show ?thesis by (simp add: chunks_short)
  next
    case False
    then have "bs \<noteq> []" "drop n bs \<noteq> []" by auto
    with "1.IH" "1.prems" have IH: "\<forall>f \<in> set (butlast (chunks n (drop n bs))). length f = n"
      by simp
    have "chunks n (drop n bs) \<noteq> []"
      using \<open>drop n bs \<noteq> []\<close> "1.prems" chunks_step [of n "drop n bs"] by simp
    with IH False \<open>bs \<noteq> []\<close> "1.prems" show ?thesis by (simp add: chunks_step [of n bs])
  qed
qed

lemma oks_append [simp]: "oks (xs @ ys) = oks xs @ oks ys"
  by (induction xs rule: oks.induct) auto

lemma errs_append [simp]: "errs (xs @ ys) = errs xs @ errs ys"
  by (induction xs rule: errs.induct) auto

lemma oks_map_Inr [simp]: "oks (map Inr xs) = xs"
  by (induction xs) auto

lemma errs_map_Inr [simp]: "errs (map Inr xs) = []"
  by (induction xs) auto

lemma errs_Nil: "errs xs = [] \<Longrightarrow> xs = map Inr (oks xs)"
  by (induction xs rule: oks.induct) auto

section \<open>The framing loop\<close>

text \<open>
  For a positive frame size and a buffer shorter than a frame the loop ends: it yields full frames
  only, keeps a buffer shorter than a frame and loses no byte.
\<close>

lemma frame_bytes_correct:
  assumes "0 < n" "length buf < n"
  shows "\<exists>fs buf'. frame_bytes n buf bs out = Some (out @ fs, buf') \<and> length buf' < n \<and>
           (\<forall>f \<in> set fs. length f = n) \<and> concat fs @ buf' = buf @ bs"
  using assms
proof (induction "length bs" arbitrary: buf bs out rule: less_induct)
  case less
  let ?P = "\<lambda>buf bs fs buf'. length buf' < n \<and> (\<forall>f \<in> set fs. length f = n) \<and> concat fs @ buf' = buf @ bs"
  consider "bs = []" | "bs \<noteq> []" "buf = []" "n \<le> length bs"
    | "bs \<noteq> []" "\<not> (buf = [] \<and> n \<le> length bs)" by blast
  then show ?case
  proof cases
    case 1
    with less.prems show ?thesis by (simp add: frame_bytes.simps)
  next
    case 2
    with less.prems have "length (drop n bs) < length bs" by simp
    from less.hyps [OF this, of "[]" "out @ [take n bs]"] less.prems obtain fs buf' where
      "frame_bytes n [] (drop n bs) (out @ [take n bs]) = Some (out @ [take n bs] @ fs, buf')"
      "?P [] (drop n bs) fs buf'" by auto
    with 2 show ?thesis
      by (intro exI [of _ "take n bs # fs"] exI [of _ buf'])
        (simp add: frame_bytes.simps [of n "[]" bs])
  next
    case 3
    define len where "len = min (n - length buf) (length bs)"
    have shorter: "length (drop len bs) < length bs" and lens: "length (take len bs) = len"
      using 3 less.prems by (auto simp: len_def)
    have step: "frame_bytes n buf bs out =
        (if length (buf @ take len bs) = n
         then frame_bytes n [] (drop len bs) (out @ [buf @ take len bs])
         else frame_bytes n (buf @ take len bs) (drop len bs) out)"
      using 3 by (subst frame_bytes.simps) (simp add: Let_def len_def)
    show ?thesis
    proof (cases "length (buf @ take len bs) = n")
      case True
      from less.hyps [OF shorter, of "[]" "out @ [buf @ take len bs]"] less.prems obtain fs buf'
        where r: "frame_bytes n [] (drop len bs) (out @ [buf @ take len bs]) =
            Some (out @ [buf @ take len bs] @ fs, buf')" "?P [] (drop len bs) fs buf'" by auto
      with True step show ?thesis
        by (intro exI [of _ "(buf @ take len bs) # fs"] exI [of _ buf']) simp
    next
      case False
      with lens less.prems have "length (buf @ take len bs) < n" by (simp add: len_def)
      from less.hyps [OF shorter \<open>0 < n\<close> this, of out] obtain fs buf' where
        "frame_bytes n (buf @ take len bs) (drop len bs) out = Some (out @ fs, buf')"
        "?P (buf @ take len bs) (drop len bs) fs buf'" by blast
      with False step show ?thesis
        by (intro exI [of _ fs] exI [of _ buf']) simp
    qed
  qed
qed

lemma frame_items_correct:
  assumes "0 < n" "length buf < n"
  shows "\<exists>ys. frame_items n buf items = Some ys \<and> errs ys = errs items \<and>
           oks ys = chunks n (buf @ concat (oks items))"
  using assms
proof (induction items arbitrary: buf rule: oks.induct)
  case 1
  then show ?case by (simp add: chunks_short)
next
  case (2 bs items)
  from frame_bytes_correct [OF 2(2,3), of bs "[]"] obtain fs buf' where
    f: "frame_bytes n buf bs [] = Some (fs, buf')" "length buf' < n"
       "\<forall>f \<in> set fs. length f = n" "concat fs @ buf' = buf @ bs" by auto
  from "2.IH" [OF \<open>0 < n\<close> f(2)] obtain ys where
    ys: "frame_items n buf' items = Some ys" "errs ys = errs items"
        "oks ys = chunks n (buf' @ concat (oks items))" by blast
  have "chunks n (buf @ bs @ concat (oks items)) = fs @ oks ys"
    using chunks_full_frames [OF \<open>0 < n\<close> f(3), of "buf' @ concat (oks items)"] f(4) ys(3)
    by (metis append_assoc)
  with f ys show ?case by simp
next
  case (3 e items)
  from "3.IH" [OF "3.prems"] obtain ys where
    "frame_items n buf items = Some ys" "errs ys = errs items"
    "oks ys = chunks n (buf @ concat (oks items))" by blast
  then show ?case by simp
qed

section \<open>The framing interface\<close>

text \<open>
  What the cipher streams rely on: the framer ends, keeps the errors, and its packets are the
  chunks of the bytes it received.
\<close>

locale stream_framer =
  fixes framer :: "nat \<Rightarrow> ('e + 'a list) list \<Rightarrow> ('e + 'a list) list option"
  assumes framer_total: "0 < n \<Longrightarrow> \<exists>ys. framer n xs = Some ys"
    and framer_oks: "0 < n \<Longrightarrow> framer n xs = Some ys \<Longrightarrow> oks ys = chunks n (concat (oks xs))"
    and framer_errs: "0 < n \<Longrightarrow> framer n xs = Some ys \<Longrightarrow> errs ys = errs xs"
begin

lemma framer_packets: "0 < n \<Longrightarrow> framer n (map Inr xs) = Some (map Inr (chunks n (concat xs)))"
proof -
  assume n: "0 < n"
  from framer_total [OF n] obtain ys where ys: "framer n (map Inr xs) = Some ys" by blast
  with framer_errs [OF n ys] have "ys = map Inr (oks ys)" by (simp add: errs_Nil)
  with framer_oks [OF n ys] ys show ?thesis by simp
qed

lemma framer_repacketize:
  "0 < n \<Longrightarrow> concat xs = concat ys \<Longrightarrow> framer n (map Inr xs) = framer n (map Inr ys)"
  by (simp add: framer_packets)

end

lemma frame_stream_correct:
  "0 < n \<Longrightarrow> \<exists>ys. frame_stream n xs = Some ys \<and> errs ys = errs xs \<and>
     oks ys = chunks n (concat (oks xs))"
  using frame_items_correct [of n "[]" xs] by (simp add: frame_stream_def)

interpretation fs: stream_framer "frame_stream :: nat \<Rightarrow> ('e + 'a list) list \<Rightarrow> _"
proof unfold_locales
  fix n :: nat and xs ys :: "('e + 'a list) list"
  assume n: "0 < n"
  then show "\<exists>ys. frame_stream n xs = Some ys" using frame_stream_correct by blast
  assume "frame_stream n xs = Some ys"
  with frame_stream_correct [OF n, of xs]
  show "oks ys = chunks n (concat (oks xs))" and "errs ys = errs xs" by simp_all
qed

section \<open>Correctness of the streams\<close>

text \<open>
  What the code relies on of the authenticated cipher: a sealed plaintext has the same length, a
  16-byte tag, and opens to itself under the same key and nonce.
\<close>

definition detached_aead :: "seal_fn \<Rightarrow> unseal_fn \<Rightarrow> bool" where
  "detached_aead seal unseal \<longleftrightarrow>
     (\<forall>key nonce p c t. seal key nonce p = Some (c, t) \<longrightarrow>
        length c = length p \<and> length t = 16 \<and> unseal key nonce c t = Some p)"

definition combined_aead :: "aead_seal_fn \<Rightarrow> aead_unseal_fn \<Rightarrow> bool" where
  "combined_aead aead_seal aead_unseal \<longleftrightarrow>
     (\<forall>key nonce p c. aead_seal key nonce p = Some c \<longrightarrow>
        length c = length p + 16 \<and> aead_unseal key nonce c = Some p)"

definition hex_codec :: "hex_encode_fn \<Rightarrow> hex_decode_fn \<Rightarrow> bool" where
  "hex_codec hex_encode hex_decode \<longleftrightarrow> (\<forall>bs. hex_decode (hex_encode bs) = Some bs)"

text \<open>C24: framing is total and does not depend on the packets a stream arrives in. For every
  positive frame size the framed stream exists, carries the errors of the source in order, and its
  packets are exactly the consecutive pieces of that size of the received bytes, so only the last
  one can be shorter and no byte is lost, duplicated or moved across a frame boundary.\<close>

theorem frame_stream_chunks:
  assumes "0 < n"
  shows "\<exists>ys. frame_stream n items = Some ys \<and> errs ys = errs items \<and>
           oks ys = chunks n (concat (oks items)) \<and> concat (oks ys) = concat (oks items) \<and>
           (\<forall>f \<in> set (butlast (oks ys)). length f = n) \<and>
           (\<forall>f \<in> set (oks ys). 0 < length f \<and> length f \<le> n)"
proof -
  from assms obtain ys where ys: "frame_stream n items = Some ys"
    using fs.framer_total by blast
  have "errs ys = errs items" "oks ys = chunks n (concat (oks items))"
    using assms ys by (simp_all add: fs.framer_errs fs.framer_oks)
  with assms ys chunks_length [OF assms] show ?thesis
    by (auto simp: concat_chunks chunks_butlast_full)
qed

theorem frame_stream_chunks_witness:
  "(0::nat) < 2 \<and> (\<exists>ys. frame_stream 2 [Inr [1::nat], Inl True, Inr [2, 3]] = Some ys \<and>
     errs ys = [True] \<and> oks ys = chunks 2 [1, 2, 3] \<and> concat (oks ys) = [1, 2, 3])"
  using frame_stream_chunks [of 2 "[Inr [1::nat], Inl True, Inr [2, 3]]"] by auto

lemma chunk_decrypt_encrypt:
  assumes "detached_aead seal unseal" "length nonce = 12" "chunk_encrypt seal key nonce p = Inr c"
  shows "length c = length p + CHUNK_OVERHEAD" and "chunk_decrypt unseal key c = Inr p"
proof -
  from assms(3) obtain ct tag where s: "seal key nonce p = Some (ct, tag)" "c = nonce @ ct @ tag"
    by (auto simp: chunk_encrypt_def split: option.splits prod.splits)
  with assms(1) have l: "length ct = length p" "length tag = 16" "unseal key nonce ct tag = Some p"
    by (auto simp: detached_aead_def)
  from s l assms(2) show "length c = length p + CHUNK_OVERHEAD" by (simp add: CHUNK_OVERHEAD_def)
  from s l assms(2) show "chunk_decrypt unseal key c = Inr p"
    by (simp add: chunk_decrypt_def CHUNK_OVERHEAD_def Let_def)
qed

lemma encrypt_frames_sealed:
  assumes "detached_aead seal unseal" "\<And>i. length (rng i) = 12"
    and "encrypt_frames seal key rng i (map Inr ps) = map Inr cs"
  shows "list_all2 (\<lambda>p c. length c = length p + CHUNK_OVERHEAD \<and> chunk_decrypt unseal key c = Inr p)
           ps cs"
  using assms(3)
proof (induction ps arbitrary: i cs)
  case (Cons p ps)
  then obtain c cs' where c: "chunk_encrypt seal key (rng i) p = Inr c" "cs = c # cs'"
    and r: "encrypt_frames seal key rng (Suc i) (map Inr ps) = map Inr cs'"
    by (auto simp: Cons_eq_map_conv split: sum.splits)
  with chunk_decrypt_encrypt [OF assms(1) assms(2) c(1)] Cons.IH [OF r] show ?case by simp
qed simp

lemma chunks_sealed:
  assumes "ps = chunks CHUNK_SIZE bs"
    and "list_all2 (\<lambda>p c. length c = length p + CHUNK_OVERHEAD \<and> Q p c) ps cs"
  shows "chunks CIPHER_CHUNK (concat cs) = cs"
proof (cases "ps = []")
  case True
  with assms(2) show ?thesis by simp
next
  case False
  have pos: "0 < CHUNK_SIZE" by (simp add: CHUNK_SIZE_def)
  from False assms(2) have ne: "cs \<noteq> []" by auto
  have len: "length cs = length ps" using assms(2) by (simp add: list_all2_lengthD)
  have at: "length (cs ! i) = length (ps ! i) + CHUNK_OVERHEAD" if "i < length ps" for i
    using assms(2) that by (simp add: list_all2_conv_all_nth)
  have "length f = CIPHER_CHUNK" if "f \<in> set (butlast cs)" for f
  proof -
    from that obtain i where i: "i < length cs - 1" "f = cs ! i"
      by (auto simp: in_set_conv_nth nth_butlast)
    with len have "ps ! i \<in> set (butlast ps)"
      by (auto simp: in_set_conv_nth nth_butlast intro!: exI [of _ i])
    then have "length (ps ! i) = CHUNK_SIZE"
      using chunks_butlast_full [OF pos, of bs] assms(1) by blast
    with at [of i] i len show ?thesis by (simp add: CIPHER_CHUNK_def)
  qed
  moreover have "0 < length (last cs)" "length (last cs) \<le> CIPHER_CHUNK"
  proof -
    have "last ps \<in> set (chunks CHUNK_SIZE bs)" using False assms(1) by auto
    then have "length (last ps) \<le> CHUNK_SIZE" using chunks_length [OF pos] by blast
    moreover have "length (last cs) = length (last ps) + CHUNK_OVERHEAD"
      using at [of "length ps - 1"] False ne len by (simp add: last_conv_nth)
    ultimately show "0 < length (last cs)" "length (last cs) \<le> CIPHER_CHUNK"
      by (simp_all add: CHUNK_OVERHEAD_def CIPHER_CHUNK_def)
  qed
  moreover have "0 < CIPHER_CHUNK" by (simp add: CIPHER_CHUNK_def CHUNK_OVERHEAD_def)
  ultimately have "chunks CIPHER_CHUNK (concat (butlast cs @ [last cs])) = butlast cs @ [last cs]"
    by (intro chunks_concat_frames) auto
  with ne show ?thesis by simp
qed

lemma chunk_stream_packets:
  "chunk_stream (map Inr xs) = Some (map Inr (chunks CHUNK_SIZE (concat xs)))"
  by (simp add: chunk_stream_def fs.framer_packets CHUNK_SIZE_def)

text \<open>C25: decrypting an encrypted object gives back its bytes, whatever packets the plaintext came
  in and whatever packets the ciphertext is delivered in. If the cipher opens what it sealed and
  every frame of the upload was sealed, then any stream of packets whose concatenation is the
  stored ciphertext decrypts, without an error, to the plaintext cut into chunks.\<close>

theorem decrypt_encrypt_stream:
  assumes "detached_aead seal unseal" "\<forall>i. length (rng i) = 12"
    and "encrypt_chunk_stream seal key rng (map Inr packets) = Some (map Inr stored)"
    and "concat wire = concat stored"
  shows "decrypt_chunk_stream unseal key (map Inr wire) =
           Some (map Inr (chunks CHUNK_SIZE (concat packets))) \<and>
         concat (chunks CHUNK_SIZE (concat packets)) = concat packets"
proof -
  let ?ps = "chunks CHUNK_SIZE (concat packets)"
  from assms(3) have "encrypt_frames seal key rng 0 (map Inr ?ps) = map Inr stored"
    by (simp add: encrypt_chunk_stream_def chunk_stream_packets)
  from encrypt_frames_sealed [OF assms(1) _ this] assms(2) have sealed:
    "list_all2 (\<lambda>p c. length c = length p + CHUNK_OVERHEAD \<and> chunk_decrypt unseal key c = Inr p)
       ?ps stored" by blast
  have "frame_stream CIPHER_CHUNK (map Inr wire) =
      Some (map Inr stored :: (dyn_error + bytes) list)"
    using fs.framer_packets [of CIPHER_CHUNK wire] chunks_sealed [OF refl sealed] assms(4)
    by (simp add: CIPHER_CHUNK_def CHUNK_OVERHEAD_def)
  moreover from sealed have "map (chunk_decrypt unseal key) stored = map Inr ?ps"
    by (induction rule: list_all2_induct) auto
  ultimately have "decrypt_chunk_stream unseal key (map Inr wire) = Some (map Inr ?ps)"
    by (simp add: decrypt_chunk_stream_def decrypt_item_def comp_def)
  moreover have "concat ?ps = concat packets" by (simp add: concat_chunks CHUNK_SIZE_def)
  ultimately show ?thesis ..
qed

lemma chunk_stream_example:
  "chunk_stream [Inr [0], Inr [7]] = Some [Inr [0, 7 :: u8] :: dyn_error + bytes]"
  using chunk_stream_packets [of "[[0], [7 :: u8]]"] by (simp add: chunks_short CHUNK_SIZE_def)

theorem decrypt_encrypt_stream_witness:
  "decrypt_chunk_stream (\<lambda>k n c t. Some c) [] (map Inr [replicate 13 0 @ [7], replicate 16 0]) =
     Some (map Inr (chunks CHUNK_SIZE (concat [[0::u8], [7]]))) \<and>
   concat (chunks CHUNK_SIZE (concat [[0::u8], [7]])) = concat [[0], [7]]"
proof (rule decrypt_encrypt_stream [where seal = "\<lambda>k n p. Some (p, replicate 16 0)"
      and rng = "\<lambda>i. replicate 12 0" and stored = "[replicate 13 0 @ [7] @ replicate 16 0]"])
  show "detached_aead (\<lambda>k n p. Some (p, replicate 16 0)) (\<lambda>k n c t. Some c)"
    by (simp add: detached_aead_def)
  show "encrypt_chunk_stream (\<lambda>k n p. Some (p, replicate 16 0)) [] (\<lambda>i. replicate 12 0)
      (map Inr [[0], [7]]) = Some (map Inr [replicate 13 0 @ [7] @ replicate 16 0])"
    by (simp add: encrypt_chunk_stream_def chunk_stream_example chunk_encrypt_def numeral_eq_Suc)
qed (simp_all add: numeral_eq_Suc)

text \<open>An object key wrapped under the master key unwraps to itself, and the wrapped form can be
  opened only as the cipher and the hex codec allow: with a cipher that opens what it sealed, a
  12-byte nonce and a 32-byte object key, \<open>master_key_unwrap\<close> returns the key.\<close>

theorem master_key_unwrap_wrap:
  assumes "combined_aead aead_seal aead_unseal" "hex_codec hex_encode hex_decode"
    and "length nonce = 12" "length ok = 32"
    and "master_key_wrap aead_seal hex_encode master nonce ok = Inr wrapped"
  shows "master_key_unwrap aead_unseal hex_decode master wrapped = Inr ok"
proof -
  from assms(5) obtain c where c: "aead_seal master nonce ok = Some c"
    "wrapped = hex_encode (nonce @ c)" by (auto simp: master_key_wrap_def bindR_eq_Inr)
  with assms(1) have "length c = length ok + 16" "aead_unseal master nonce c = Some ok"
    by (auto simp: combined_aead_def)
  with c assms(2-4) show ?thesis by (simp add: master_key_unwrap_def hex_codec_def)
qed

lemma word_of_unat_mod [simp]: "word_of_nat (unat b mod 256) = (b :: u8)"
proof -
  have "unat b < 256" using unsigned_less [of b, where 'a = nat] by simp
  then show ?thesis by simp
qed

theorem master_key_unwrap_wrap_witness:
  "master_key_unwrap (\<lambda>k n c. Some (take (length c - 16) c)) (\<lambda>s. Some (map (\<lambda>c. word_of_nat (of_char c)) s)) []
     (map (\<lambda>b. char_of (unat b)) (replicate 12 0 @ replicate 32 5 @ replicate 16 (0 :: u8))) =
     Inr (replicate 32 5)"
proof (rule master_key_unwrap_wrap [where aead_seal = "\<lambda>k n p. Some (p @ replicate 16 0)"
      and hex_encode = "map (\<lambda>b. char_of (unat b))" and nonce = "replicate 12 0"])
  show "hex_codec (map (\<lambda>b. char_of (unat b))) (\<lambda>s. Some (map (\<lambda>c. word_of_nat (of_char c)) s))"
    by (simp add: hex_codec_def comp_def)
qed (simp_all add: combined_aead_def master_key_wrap_def)

text \<open>The stored fingerprint of an SSE-C key is accepted for the key it was made from, and a
  fingerprint is accepted for a key exactly when it is the hex form of that key's MAC, so a
  different key passes only on a collision of HMAC-SHA256 under the master key.\<close>

theorem verify_fingerprint_iff:
  assumes "hex_codec hex_encode hex_decode" "\<And>m. length (hmac master m) = 32"
  shows "verify_sse_c_key_fingerprint hmac hex_decode master
             (sse_c_key_fingerprint hmac hex_encode master key) key' =
           Inr (sse_c_key_fingerprint_mac hmac master key =
                sse_c_key_fingerprint_mac hmac master key') \<and>
         (verify_sse_c_key_fingerprint hmac hex_decode master stored key' = Inr True \<longleftrightarrow>
           (\<exists>hex. stored = SSE_C_KEY_FINGERPRINT_PREFIX @ hex \<and>
              hex_decode hex = Some (sse_c_key_fingerprint_mac hmac master key')))"
proof
  show "verify_sse_c_key_fingerprint hmac hex_decode master
             (sse_c_key_fingerprint hmac hex_encode master key) key' =
           Inr (sse_c_key_fingerprint_mac hmac master key =
                sse_c_key_fingerprint_mac hmac master key')"
    using assms by (simp add: verify_sse_c_key_fingerprint_def sse_c_key_fingerprint_def
        strip_prefix_def starts_with_iff hex_codec_def sse_c_key_fingerprint_mac_def)
  show "verify_sse_c_key_fingerprint hmac hex_decode master stored key' = Inr True \<longleftrightarrow>
           (\<exists>hex. stored = SSE_C_KEY_FINGERPRINT_PREFIX @ hex \<and>
              hex_decode hex = Some (sse_c_key_fingerprint_mac hmac master key'))"
    using assms(2) by (auto simp: verify_sse_c_key_fingerprint_def bindR_eq_Inr
        strip_prefix_eq_Some sse_c_key_fingerprint_mac_def split: if_splits)
qed

theorem verify_fingerprint_iff_witness:
  "verify_sse_c_key_fingerprint (\<lambda>k m. replicate 32 (last m)) (\<lambda>s. Some (map (\<lambda>c. word_of_nat (of_char c)) s)) []
     (sse_c_key_fingerprint (\<lambda>k m. replicate 32 (last m)) (map (\<lambda>b. char_of (unat b))) [] [1]) [2] =
     Inr (sse_c_key_fingerprint_mac (\<lambda>k m. replicate 32 (last m)) [] [1] =
          sse_c_key_fingerprint_mac (\<lambda>k m. replicate 32 (last m)) [] [2])"
  by (rule verify_fingerprint_iff [THEN conjunct1]) (simp_all add: hex_codec_def comp_def)

end
