(* ===== verification/Store_Schema.thy ===== *)
theory Store_Schema
  imports Prelude
begin

text \<open>
  The relational state of the gateway: the rows of src/src/store/entities/ as records, the database
  as a record of tables, and the \<^verbatim>\<open>INSERT\<close> and \<^verbatim>\<open>DELETE\<close> statements with the
  keys, unique indexes, foreign keys and checks that the schema in
  src/src/store/migrations/baseline/ declares for these tables. A violated constraint is a
  \<open>Database\<close> error that names the constraint; the text a driver reports is not modelled. A
  deletion of version rows cascades to the residency rows they own, as the foreign keys of
  lifecycle.sql say.
\<close>

section \<open>Rows\<close>

record bucket_model =
  bucket_name :: string
  bucket_created_at :: datetime
  bucket_owner :: "string option"
  bucket_versioning_status :: "string option"

record object_model =
  obj_id :: string
  obj_bucket :: string
  obj_key :: string
  obj_cid :: string
  obj_size :: int
  obj_content_type :: "string option"
  obj_etag :: string
  obj_metadata :: "string option"
  obj_encrypted :: bool
  obj_key_wrap :: "string option"
  obj_sse_c_key_fingerprint :: "string option"
  obj_multipart :: bool
  obj_is_latest :: bool
  obj_created_at :: datetime

record object_version_model =
  ov_id :: string
  ov_bucket :: string
  ov_key :: string
  ov_version_id :: "string option"
  ov_kind :: string
  ov_object_id :: "string option"
  ov_sequence :: int
  ov_is_latest :: bool
  ov_lifecycle_age_started_at :: datetime
  ov_became_noncurrent_at :: "datetime option"
  ov_created_at :: datetime
  ov_updated_at :: datetime

record object_tag_model =
  tag_object_id :: string
  tag_key :: string
  tag_value :: string

record physical_residency_model =
  pr_tier :: string
  pr_cid :: string
  pr_node_identity :: "string option"
  pr_verification_state :: string
  pr_verification_receipt :: "string option"
  pr_verified_at :: "datetime option"
  pr_created_at :: datetime
  pr_updated_at :: datetime

record version_residency_model =
  vr_version_row_id :: string
  vr_object_id :: string
  vr_primary_tier :: string
  vr_storage_class :: string
  vr_cid :: string
  vr_revision :: int
  vr_created_at :: datetime
  vr_updated_at :: datetime

record residency_reference_model =
  rr_owner_kind :: string
  rr_owner_id :: string
  rr_reason :: string
  rr_version_row_id :: string
  rr_object_id :: string
  rr_tier :: string
  rr_cid :: string
  rr_created_at :: datetime

record pin_lease_model =
  pl_id :: string
  pl_owner_object_id :: string
  pl_source :: string
  pl_policy_id :: string
  pl_provider_mode :: string
  pl_content_mode :: string
  pl_created_at :: datetime
  pl_last_touched_at :: datetime
  pl_expires_at :: datetime
  pl_generation :: int
  pl_state :: string

record pin_lease_target_model =
  plt_id :: string
  plt_lease_id :: string
  plt_cid :: string
  plt_logical_size :: int
  plt_provider :: string
  plt_state :: string
  plt_created_at :: datetime
  plt_last_touched_at :: datetime

record db =
  buckets :: "bucket_model list"
  objects :: "object_model list"
  object_versions :: "object_version_model list"
  object_tags :: "object_tag_model list"
  physical_residencies :: "physical_residency_model list"
  version_residencies :: "version_residency_model list"
  residency_references :: "residency_reference_model list"
  pin_leases :: "pin_lease_model list"
  pin_lease_targets :: "pin_lease_target_model list"

section \<open>Primary keys\<close>

abbreviation pr_pk :: "physical_residency_model \<Rightarrow> string \<times> string" where
  "pr_pk r \<equiv> (pr_tier r, pr_cid r)"

abbreviation rr_pk :: "residency_reference_model \<Rightarrow> string \<times> string \<times> string \<times> string \<times> string" where
  "rr_pk r \<equiv> (rr_owner_kind r, rr_owner_id r, rr_reason r, rr_tier r, rr_cid r)"

definition find_bucket :: "string \<Rightarrow> bucket_model list \<Rightarrow> bucket_model option" where
  "find_bucket name t = one_row (\<lambda>r. bucket_name r = name) t"

definition find_object :: "string \<Rightarrow> object_model list \<Rightarrow> object_model option" where
  "find_object i t = one_row (\<lambda>r. obj_id r = i) t"

definition find_version :: "string \<Rightarrow> object_version_model list \<Rightarrow> object_version_model option" where
  "find_version i t = one_row (\<lambda>r. ov_id r = i) t"

definition find_physical ::
  "string \<times> string \<Rightarrow> physical_residency_model list \<Rightarrow> physical_residency_model option" where
  "find_physical pk t = one_row (\<lambda>r. pr_pk r = pk) t"

definition find_residency ::
  "string \<Rightarrow> version_residency_model list \<Rightarrow> version_residency_model option" where
  "find_residency i t = one_row (\<lambda>r. vr_version_row_id r = i) t"

section \<open>Statements with constraints\<close>

definition insert_bucket :: "bucket_model \<Rightarrow> (db, unit) tx" where
  "insert_bucket r = (\<lambda>d.
     if bucket_name r \<in> set (map bucket_name (buckets d)) then Inl (Database ''buckets_pkey'')
     else if bucket_versioning_status r \<notin> {None, Some ''Enabled'', Some ''Suspended''}
     then Inl (Database ''buckets_versioning_status_check'')
     else Inr ((), d\<lparr>buckets := buckets d @ [r]\<rparr>))"

definition insert_object :: "object_model \<Rightarrow> (db, unit) tx" where
  "insert_object r = (\<lambda>d.
     if obj_id r \<in> set (map obj_id (objects d)) then Inl (Database ''objects_pkey'')
     else if obj_is_latest r \<and>
       (\<exists>o' \<in> set (objects d). obj_is_latest o' \<and> obj_bucket o' = obj_bucket r \<and> obj_key o' = obj_key r)
     then Inl (Database ''idx_objects_latest'')
     else if obj_bucket r \<notin> set (map bucket_name (buckets d))
     then Inl (Database ''objects_bucket_fkey'')
     else Inr ((), d\<lparr>objects := objects d @ [r]\<rparr>))"

definition same_key :: "object_version_model \<Rightarrow> object_version_model \<Rightarrow> bool" where
  "same_key r s \<longleftrightarrow> ov_bucket r = ov_bucket s \<and> ov_key r = ov_key s"

definition version_checks :: "object_version_model \<Rightarrow> bool" where
  "version_checks r \<longleftrightarrow>
     (ov_kind r = ''object'' \<and> ov_object_id r \<noteq> None) \<or>
     (ov_kind r = ''delete_marker'' \<and> ov_object_id r = None)"

definition insert_object_version :: "object_version_model \<Rightarrow> (db, unit) tx" where
  "insert_object_version r = (\<lambda>d.
     if \<not> version_checks r then Inl (Database ''ck_object_versions_kind_object'')
     else if ov_id r \<in> set (map ov_id (object_versions d))
     then Inl (Database ''object_versions_pkey'')
     else if ov_is_latest r \<and> (\<exists>s \<in> set (object_versions d). same_key s r \<and> ov_is_latest s)
     then Inl (Database ''uq_object_versions_latest'')
     else if (\<exists>s \<in> set (object_versions d). same_key s r \<and> ov_sequence s = ov_sequence r)
     then Inl (Database ''uq_object_versions_sequence'')
     else if (\<exists>s \<in> set (object_versions d). same_key s r \<and> ov_version_id s = ov_version_id r)
     then Inl (Database (if ov_version_id r = None then ''uq_object_versions_null_slot''
                         else ''uq_object_versions_public_id''))
     else if ov_bucket r \<notin> set (map bucket_name (buckets d))
     then Inl (Database ''object_versions_bucket_fkey'')
     else if (\<exists>i. ov_object_id r = Some i \<and> i \<notin> set (map obj_id (objects d)))
     then Inl (Database ''object_versions_object_id_fkey'')
     else Inr ((), d\<lparr>object_versions := object_versions d @ [r]\<rparr>))"

text \<open>Deleting version rows cascades to the residency rows whose owner \<open>(id, object_id)\<close> goes.\<close>

definition owned_by :: "(object_version_model \<Rightarrow> bool) \<Rightarrow> db \<Rightarrow> string \<Rightarrow> string \<Rightarrow> bool" where
  "owned_by P d i oid \<longleftrightarrow>
     (\<exists>r \<in> set (object_versions d). P r \<and> ov_id r = i \<and> ov_object_id r = Some oid)"

definition delete_object_versions :: "(object_version_model \<Rightarrow> bool) \<Rightarrow> db \<Rightarrow> db" where
  "delete_object_versions P d =
     d\<lparr>object_versions := delete_rows P (object_versions d),
       version_residencies :=
         delete_rows (\<lambda>x. owned_by P d (vr_version_row_id x) (vr_object_id x)) (version_residencies d),
       residency_references :=
         delete_rows (\<lambda>x. owned_by P d (rr_version_row_id x) (rr_object_id x)) (residency_references d)\<rparr>"

definition physical_shape :: "physical_residency_model \<Rightarrow> bool" where
  "physical_shape r \<longleftrightarrow>
     (pr_verification_state r = ''verified'' \<and>
        (\<exists>n. pr_node_identity r = Some n \<and> n \<noteq> []) \<and>
        (\<exists>n. pr_verification_receipt r = Some n \<and> n \<noteq> []) \<and> pr_verified_at r \<noteq> None) \<or>
     (pr_verification_state r \<in> {''pending'', ''failed''} \<and> pr_node_identity r = None \<and>
        pr_verification_receipt r = None \<and> pr_verified_at r = None)"

definition physical_checks :: "physical_residency_model \<Rightarrow> bool" where
  "physical_checks r \<longleftrightarrow> pr_tier r \<in> {''hot'', ''cold''} \<and> pr_cid r \<noteq> [] \<and> physical_shape r"

text \<open>The number of inserted rows: 0 when \<^verbatim>\<open>ON CONFLICT DO NOTHING\<close> applies.\<close>

definition insert_physical_do_nothing :: "physical_residency_model \<Rightarrow> (db, nat) tx" where
  "insert_physical_do_nothing r = (\<lambda>d.
     if \<not> physical_checks r then Inl (Database ''ck_physical_residencies'')
     else if pr_pk r \<in> set (map pr_pk (physical_residencies d)) then Inr (0, d)
     else Inr (1, d\<lparr>physical_residencies := physical_residencies d @ [r]\<rparr>))"

definition residency_checks :: "version_residency_model \<Rightarrow> bool" where
  "residency_checks r \<longleftrightarrow> vr_revision r > 0 \<and>
     (vr_primary_tier r, vr_storage_class r) \<in> {(''hot'', ''STANDARD''), (''cold'', ''STANDARD_IA'')}"

definition insert_version_residency :: "version_residency_model \<Rightarrow> (db, unit) tx" where
  "insert_version_residency r = (\<lambda>d.
     if \<not> residency_checks r then Inl (Database ''ck_version_residencies'')
     else if vr_version_row_id r \<in> set (map vr_version_row_id (version_residencies d))
     then Inl (Database ''version_residencies_pkey'')
     else if \<not> owned_by (\<lambda>_. True) d (vr_version_row_id r) (vr_object_id r)
     then Inl (Database ''fk_version_residencies_owner'')
     else if \<not> (\<exists>o' \<in> set (objects d). obj_id o' = vr_object_id r \<and> obj_cid o' = vr_cid r)
     then Inl (Database ''fk_version_residencies_object_content'')
     else if (vr_primary_tier r, vr_cid r) \<notin> set (map pr_pk (physical_residencies d))
     then Inl (Database ''fk_version_residencies_physical'')
     else Inr ((), d\<lparr>version_residencies := version_residencies d @ [r]\<rparr>))"

definition reference_checks :: "residency_reference_model \<Rightarrow> bool" where
  "reference_checks r \<longleftrightarrow>
     (rr_owner_kind r = ''version'' \<and> rr_reason r = ''retained_version'' \<and>
        rr_owner_id r = rr_version_row_id r) \<or>
     (rr_owner_kind r = ''transition'' \<and>
        rr_reason r \<in> {''transition_staging'', ''transition_cleanup_hold''} \<and> rr_owner_id r \<noteq> [])"

definition insert_reference_do_nothing :: "residency_reference_model \<Rightarrow> (db, nat) tx" where
  "insert_reference_do_nothing r = (\<lambda>d.
     if \<not> reference_checks r then Inl (Database ''ck_residency_references'')
     else if rr_pk r \<in> set (map rr_pk (residency_references d)) then Inr (0, d)
     else if \<not> owned_by (\<lambda>_. True) d (rr_version_row_id r) (rr_object_id r)
     then Inl (Database ''fk_residency_references_version'')
     else if \<not> (\<exists>o' \<in> set (objects d). obj_id o' = rr_object_id r \<and> obj_cid o' = rr_cid r)
     then Inl (Database ''fk_residency_references_object_content'')
     else if (rr_tier r, rr_cid r) \<notin> set (map pr_pk (physical_residencies d))
     then Inl (Database ''fk_residency_references_physical'')
     else Inr (1, d\<lparr>residency_references := residency_references d @ [r]\<rparr>))"

section \<open>Tables with a primary key\<close>

text \<open>
  The contract the components rely on when they look a row up by its key: a lookup finds exactly
  the row with the key, and what it finds after an insertion, an update that keeps the key or a
  deletion is determined by what it found before.
\<close>

locale keyed_table =
  fixes row_key :: "'r \<Rightarrow> 'k"
    and find_by :: "'k \<Rightarrow> 'r list \<Rightarrow> 'r option"
  assumes find_by_SomeD: "find_by k t = Some r \<Longrightarrow> r \<in> set t \<and> row_key r = k"
    and find_by_None: "find_by k t = None \<longleftrightarrow> k \<notin> row_key ` set t"
begin

lemma find_by_NoneI: "(\<And>r. r \<in> set t \<Longrightarrow> row_key r \<noteq> k) \<Longrightarrow> find_by k t = None"
  by (auto simp: find_by_None)

lemma find_by_NoneD: "find_by k t = None \<Longrightarrow> r \<in> set t \<Longrightarrow> row_key r \<noteq> k"
  by (auto simp: find_by_None)

lemma find_by_key:
  assumes "distinct (map row_key t)" "r \<in> set t" "row_key r = k"
  shows "find_by k t = Some r"
proof (cases "find_by k t")
  case None
  with assms show ?thesis by (auto simp: find_by_None)
next
  case (Some s)
  then have "s \<in> set t" "row_key s = k" by (auto dest: find_by_SomeD)
  with assms have "s = r" by (metis distinct_map inj_onD)
  with Some show ?thesis by simp
qed

lemma find_by_insert:
  assumes "distinct (map row_key (t @ [r]))"
  shows "find_by k (t @ [r]) = (if row_key r = k then Some r else find_by k t)"
proof (cases "find_by k (t @ [r])")
  case None
  then have "row_key r \<noteq> k" by (auto dest: find_by_NoneD)
  moreover from None have "find_by k t = None"
    by (intro find_by_NoneI) (auto dest: find_by_NoneD)
  ultimately show ?thesis using None by simp
next
  case (Some s)
  then have s: "s \<in> set (t @ [r])" "row_key s = k" using find_by_SomeD [of k "t @ [r]" s] by simp_all
  show ?thesis
  proof (cases "row_key r = k")
    case True
    with assms s Some show ?thesis by (auto simp: image_iff)
  next
    case False
    with s assms Some show ?thesis by (auto simp: find_by_key)
  qed
qed

lemma find_by_update:
  assumes "\<And>r. row_key (f r) = row_key r" "distinct (map row_key t)"
  shows "find_by k (update_rows P f t) = map_option (\<lambda>r. if P r then f r else r) (find_by k t)"
proof (cases "find_by k t")
  case None
  with assms(1) have "find_by k (update_rows P f t) = None"
    by (intro find_by_NoneI) (auto simp: set_update_rows dest: find_by_NoneD split: if_splits)
  with None show ?thesis by simp
next
  case (Some r)
  then have "r \<in> set t" "row_key r = k" by (auto dest: find_by_SomeD)
  then have "(if P r then f r else r) \<in> set (update_rows P f t)"
    "row_key (if P r then f r else r) = k" using assms(1) by (auto simp: set_update_rows)
  moreover have "distinct (map row_key (update_rows P f t))"
    using assms by (simp add: map_update_rows)
  ultimately show ?thesis using Some find_by_key by simp
qed

lemma find_by_delete:
  assumes "distinct (map row_key t)"
  shows "find_by k (delete_rows P t) =
           (case find_by k t of None \<Rightarrow> None | Some r \<Rightarrow> if P r then None else Some r)"
proof (cases "find_by k t")
  case None
  then have "find_by k (delete_rows P t) = None"
    by (intro find_by_NoneI) (auto dest: find_by_NoneD)
  with None show ?thesis by simp
next
  case (Some r)
  then have r: "r \<in> set t" "row_key r = k" by (auto dest: find_by_SomeD)
  show ?thesis
  proof (cases "P r")
    case True
    have "row_key s \<noteq> k" if "s \<in> set (delete_rows P t)" for s
    proof
      assume "row_key s = k"
      with that r assms have "s = r" by (auto simp: distinct_map inj_on_def)
      with that True show False by simp
    qed
    then have "find_by k (delete_rows P t) = None" by (rule find_by_NoneI)
    with Some True show ?thesis by simp
  next
    case False
    with r assms Some show ?thesis by (simp add: find_by_key distinct_map_delete_rows)
  qed
qed

lemma count_key_le_1: "distinct (map row_key t) \<Longrightarrow> count_rows (\<lambda>r. row_key r = k \<and> Q r) t \<le> 1"
  by (rule count_rows_le_1) (auto simp: distinct_map inj_on_def)

end

lemma one_row_keyed_table: "keyed_table key (\<lambda>k. one_row (\<lambda>r. key r = k))"
  by unfold_locales (auto simp: one_row_None dest: one_row_SomeD)

interpretation bkt: keyed_table bucket_name find_bucket
  unfolding find_bucket_def [abs_def] by (rule one_row_keyed_table)

interpretation obj: keyed_table obj_id find_object
  unfolding find_object_def [abs_def] by (rule one_row_keyed_table)

interpretation ver: keyed_table ov_id find_version
  unfolding find_version_def [abs_def] by (rule one_row_keyed_table)

interpretation phys: keyed_table pr_pk find_physical
  unfolding find_physical_def [abs_def] by (rule one_row_keyed_table)

interpretation resid: keyed_table vr_version_row_id find_residency
  unfolding find_residency_def [abs_def] by (rule one_row_keyed_table)

end
