(* ===== verification/Version_Types.thy ===== *)
theory Version_Types
  imports Prelude Store_Schema
begin

text \<open>
  The vocabulary of src/src/store/object_version.rs (versioning states, public version IDs, kinds
  and selectors) and of src/src/residency/model.rs (tiers, storage classes, verification states and
  residency snapshots), with their database encodings.

  Parsing and printing a UUID is code of another crate: the parameter \<open>up\<close> maps a text to the
  canonical text of the UUID it parses to, or to \<open>None\<close>.
\<close>

section \<open>Versioning\<close>

definition NULL_VERSION_ID :: string where "NULL_VERSION_ID = ''null''"

datatype bucket_versioning_state = Unversioned | Enabled | Suspended

definition versioning_from_db_value :: "string option \<Rightarrow> bucket_versioning_state app_result" where
  "versioning_from_db_value v =
     (case v of
        None \<Rightarrow> Inr Unversioned
      | Some s \<Rightarrow>
          if s = ''Enabled'' then Inr Enabled
          else if s = ''Suspended'' then Inr Suspended
          else Inl (Internal ''invalid bucket versioning state in database''))"

fun versioning_as_db_value :: "bucket_versioning_state \<Rightarrow> string option" where
  "versioning_as_db_value Unversioned = None"
| "versioning_as_db_value Enabled = Some ''Enabled''"
| "versioning_as_db_value Suspended = Some ''Suspended''"

datatype public_version_id = NullVersion | Opaque string

type_synonym uuid_parser = "string \<Rightarrow> string option"

definition parse_s3 :: "uuid_parser \<Rightarrow> string \<Rightarrow> public_version_id app_result" where
  "parse_s3 up v =
     (if v = NULL_VERSION_ID then Inr NullVersion
      else bindR (ok_or (InvalidArgument ''version ID must be `null` or a canonical UUID'') (up v))
        (\<lambda>c. if c \<noteq> v
              then Inl (InvalidArgument ''version ID must be `null` or a canonical UUID'')
              else Inr (Opaque v)))"

fun as_s3_str :: "public_version_id \<Rightarrow> string" where
  "as_s3_str NullVersion = NULL_VERSION_ID"
| "as_s3_str (Opaque v) = v"

fun version_id_as_db_value :: "public_version_id \<Rightarrow> string option" where
  "version_id_as_db_value NullVersion = None"
| "version_id_as_db_value (Opaque v) = Some v"

datatype version_kind = ObjectKind | DeleteMarkerKind

datatype version_selector = Current | Exact public_version_id

record resolved_version =
  rv_id :: string
  rv_key :: string
  rv_public_version_id :: string
  rv_kind :: version_kind
  rv_object :: "object_model option"
  rv_is_latest :: bool
  rv_sequence :: int
  rv_lifecycle_age_started_at :: datetime
  rv_became_noncurrent_at :: "datetime option"
  rv_created_at :: datetime

record version_cursor =
  vc_key :: string
  vc_sequence :: int
  vc_public_version_id :: string

record delete_version_result =
  dvr_version_id :: "string option"
  dvr_deleted_delete_marker :: bool
  dvr_created_delete_marker :: bool

datatype exact_current_marker_delete_result =
    Deleted delete_version_result | AlreadySatisfied | Stale

definition invalid_version_index :: app_error where
  "invalid_version_index = Internal ''invalid object version index row''"

definition no_such_key :: "string \<Rightarrow> string \<Rightarrow> app_error" where
  "no_such_key b k = NoSuchKey (b @ ''/'' @ k)"

definition no_such_version :: "string \<Rightarrow> string \<Rightarrow> public_version_id \<Rightarrow> app_error" where
  "no_such_version b k v = NoSuchVersion b k (as_s3_str v)"

definition version_kind_of :: "object_version_model \<Rightarrow> version_kind app_result" where
  "version_kind_of r =
     (if ov_kind r = ''object'' \<and> ov_object_id r \<noteq> None then Inr ObjectKind
      else if ov_kind r = ''delete_marker'' \<and> ov_object_id r = None then Inr DeleteMarkerKind
      else Inl invalid_version_index)"

definition public_version_id_of ::
  "uuid_parser \<Rightarrow> object_version_model \<Rightarrow> public_version_id app_result" where
  "public_version_id_of up r =
     (case ov_version_id r of
        None \<Rightarrow> Inr NullVersion
      | Some v \<Rightarrow> (case parse_s3 up v of Inl _ \<Rightarrow> Inl invalid_version_index | Inr p \<Rightarrow> Inr p))"

fun selector_db_value :: "uuid_parser \<Rightarrow> public_version_id \<Rightarrow> string option app_result" where
  "selector_db_value up NullVersion = Inr None"
| "selector_db_value up (Opaque v) = bindR (parse_s3 up v) (\<lambda>p. Inr (Some (as_s3_str p)))"

definition new_resolved_version ::
  "string \<Rightarrow> string \<Rightarrow> string \<Rightarrow> version_kind \<Rightarrow> object_model option \<Rightarrow> bool \<Rightarrow> int \<Rightarrow> datetime \<Rightarrow>
   datetime option \<Rightarrow> datetime \<Rightarrow> resolved_version app_result" where
  "new_resolved_version i k pv kind obj latest sq age noncurrent created =
     (if (kind = ObjectKind) \<noteq> (obj \<noteq> None) then Inl invalid_version_index
      else Inr \<lparr>rv_id = i, rv_key = k, rv_public_version_id = pv, rv_kind = kind, rv_object = obj,
                rv_is_latest = latest, rv_sequence = sq, rv_lifecycle_age_started_at = age,
                rv_became_noncurrent_at = noncurrent, rv_created_at = created\<rparr>)"

section \<open>Residency\<close>

definition corrupt :: "string \<Rightarrow> app_error" where
  "corrupt msg = Internal (''invalid residency state: '' @ msg)"

datatype kubo_tier = Hot | Cold

fun tier_as_db_str :: "kubo_tier \<Rightarrow> string" where
  "tier_as_db_str Hot = ''hot''"
| "tier_as_db_str Cold = ''cold''"

definition tier_from_db_str :: "string \<Rightarrow> kubo_tier app_result" where
  "tier_from_db_str v =
     (if v = ''hot'' then Inr Hot else if v = ''cold'' then Inr Cold
      else Inl (corrupt ''unknown Kubo tier''))"

datatype storage_class = Standard | StandardIa

fun class_as_db_str :: "storage_class \<Rightarrow> string" where
  "class_as_db_str Standard = ''STANDARD''"
| "class_as_db_str StandardIa = ''STANDARD_IA''"

definition class_from_db_str :: "string \<Rightarrow> storage_class app_result" where
  "class_from_db_str v =
     (if v = ''STANDARD'' then Inr Standard else if v = ''STANDARD_IA'' then Inr StandardIa
      else Inl (corrupt ''unknown storage class''))"

datatype verification_state = Pending | Verified | Failed

definition verification_from_db_str :: "string \<Rightarrow> verification_state app_result" where
  "verification_from_db_str v =
     (if v = ''pending'' then Inr Pending else if v = ''verified'' then Inr Verified
      else if v = ''failed'' then Inr Failed
      else Inl (corrupt ''unknown residency verification state''))"

datatype physical_verification = PvPending | PvVerified (pv_node: string) (pv_receipt: string)

datatype reference_reason = RetainedVersion | TransitionStaging | TransitionCleanupHold

fun reason_as_db_str :: "reference_reason \<Rightarrow> string" where
  "reason_as_db_str RetainedVersion = ''retained_version''"
| "reason_as_db_str TransitionStaging = ''transition_staging''"
| "reason_as_db_str TransitionCleanupHold = ''transition_cleanup_hold''"

record version_residency_identity =
  vri_version_row_id :: string
  vri_object_id :: string
  vri_cid :: string

record residency_location =
  loc_tier :: kubo_tier
  loc_cid :: string

record physical_residency_snapshot =
  prs_location :: residency_location
  prs_verification_state :: verification_state
  prs_node_identity :: "string option"
  prs_verification_receipt :: "string option"
  prs_verified_at :: "datetime option"

record resolved_version_residency =
  rvr_identity :: version_residency_identity
  rvr_primary :: residency_location
  rvr_storage_class :: storage_class
  rvr_revision :: int
  rvr_physical :: physical_residency_snapshot

record reference_summary =
  rs_retained_versions :: nat
  rs_transition_staging_holds :: nat
  rs_transition_cleanup_holds :: nat
  rs_active_lease_targets :: nat
  rs_active_lease_owners :: nat

definition has_known_references :: "reference_summary \<Rightarrow> bool" where
  "has_known_references s \<longleftrightarrow>
     rs_retained_versions s > 0 \<or> rs_transition_staging_holds s > 0 \<or>
     rs_transition_cleanup_holds s > 0 \<or> rs_active_lease_targets s > 0 \<or>
     rs_active_lease_owners s > 0"

section \<open>Encodings round trip\<close>

lemma versioning_roundtrip [simp]: "versioning_from_db_value (versioning_as_db_value s) = Inr s"
  by (cases s) (simp_all add: versioning_from_db_value_def)

lemma versioning_from_db_value_Inr:
  "versioning_from_db_value v = Inr s \<longleftrightarrow> v = versioning_as_db_value s"
  by (cases s) (auto simp: versioning_from_db_value_def split: option.splits if_splits)

lemma tier_roundtrip [simp]: "tier_from_db_str (tier_as_db_str t) = Inr t"
  by (cases t) (simp_all add: tier_from_db_str_def)

lemma tier_from_db_str_Inr: "tier_from_db_str v = Inr t \<longleftrightarrow> v = tier_as_db_str t"
  by (cases t) (auto simp: tier_from_db_str_def)

lemma class_roundtrip [simp]: "class_from_db_str (class_as_db_str c) = Inr c"
  by (cases c) (simp_all add: class_from_db_str_def)

lemma class_from_db_str_Inr: "class_from_db_str v = Inr c \<longleftrightarrow> v = class_as_db_str c"
  by (cases c) (auto simp: class_from_db_str_def)

lemma verification_from_db_str_Inr:
  "verification_from_db_str v = Inr s \<longleftrightarrow>
     v = (case s of Pending \<Rightarrow> ''pending'' | Verified \<Rightarrow> ''verified'' | Failed \<Rightarrow> ''failed'')"
  by (cases s) (auto simp: verification_from_db_str_def)

lemma parse_s3_Inr:
  "parse_s3 up v = Inr p \<longleftrightarrow>
     (v = NULL_VERSION_ID \<and> p = NullVersion) \<or>
     (v \<noteq> NULL_VERSION_ID \<and> up v = Some v \<and> p = Opaque v)"
  by (auto simp: parse_s3_def bindR_eq_Inr)

lemma as_s3_str_parse: "parse_s3 up v = Inr p \<Longrightarrow> as_s3_str p = v"
  by (auto simp: parse_s3_Inr)

lemma selector_db_value_Inr:
  "selector_db_value up p = Inr x \<longleftrightarrow>
     (case p of NullVersion \<Rightarrow> x = None
      | Opaque v \<Rightarrow> x = Some v \<and> (v = NULL_VERSION_ID \<or> up v = Some v))"
proof (cases p)
  case (Opaque v)
  then show ?thesis by (cases "v = NULL_VERSION_ID") (auto simp: bindR_eq_Inr parse_s3_Inr)
qed auto

lemma version_kind_of_checks: "version_checks r \<Longrightarrow>
   version_kind_of r = Inr (if ov_kind r = ''object'' then ObjectKind else DeleteMarkerKind)"
  by (auto simp: version_checks_def version_kind_of_def)

lemma version_kind_of_Inr:
  "version_kind_of r = Inr ObjectKind \<longleftrightarrow> ov_kind r = ''object'' \<and> ov_object_id r \<noteq> None"
  "version_kind_of r = Inr DeleteMarkerKind \<longleftrightarrow> ov_kind r = ''delete_marker'' \<and> ov_object_id r = None"
  by (auto simp: version_kind_of_def)

end
