(* ===== verification/Bucket_Store.thy ===== *)
theory Bucket_Store
  imports Version_Types
begin

text \<open>
  Buckets (src/src/store/bucket.rs) and the bucket row lock that serializes writers of a bucket
  (\<open>lock_bucket_for_ownership\<close> of src/src/store/import/ownership.rs), which changes no row.
\<close>

definition bucket_exists :: "string \<Rightarrow> db \<Rightarrow> bool" where
  "bucket_exists name d \<longleftrightarrow> one_row (\<lambda>r. bucket_name r = name) (buckets d) \<noteq> None"

text \<open>Every failure of the insertion is a constraint violation, which the code maps to
  \<open>BucketAlreadyExists\<close>.\<close>

definition bucket_create :: "string \<Rightarrow> string option \<Rightarrow> datetime \<Rightarrow> (db, unit) tx" where
  "bucket_create name own now = (\<lambda>d.
     if bucket_exists name d then Inl (BucketAlreadyExists name)
     else (case insert_bucket \<lparr>bucket_name = name, bucket_created_at = now, bucket_owner = own,
                 bucket_versioning_status = None\<rparr> d of
             Inl _ \<Rightarrow> Inl (BucketAlreadyExists name)
           | Inr r \<Rightarrow> Inr r))"

definition bucket_list :: "db \<Rightarrow> bucket_model list" where
  "bucket_list d = buckets d"

definition bucket_get :: "string \<Rightarrow> db \<Rightarrow> bucket_model app_result" where
  "bucket_get name d = ok_or (NoSuchBucket name) (find_bucket name (buckets d))"

definition get_versioning_state :: "string \<Rightarrow> db \<Rightarrow> bucket_versioning_state app_result" where
  "get_versioning_state name d =
     bindR (bucket_get name d) (\<lambda>b. versioning_from_db_value (bucket_versioning_status b))"

definition lock_bucket_for_ownership :: "string \<Rightarrow> (db, unit) tx" where
  "lock_bucket_for_ownership name =
     bindT (getsT (\<lambda>d. count_rows (\<lambda>r. bucket_name r = name) (buckets d))) (\<lambda>n.
       guardT (NoSuchBucket name) (n = 1))"

definition lock_versioning_state :: "string \<Rightarrow> (db, bucket_versioning_state) tx" where
  "lock_versioning_state name =
     bindT (lock_bucket_for_ownership name) (\<lambda>_. queryT (get_versioning_state name))"

definition set_versioning_state :: "string \<Rightarrow> bucket_versioning_state \<Rightarrow> (db, unit) tx" where
  "set_versioning_state name st =
     bindT (liftT (ok_or (InvalidArgument ''versioning status must be Enabled or Suspended'')
                    (versioning_as_db_value st))) (\<lambda>status.
     bindT (lock_versioning_state name) (\<lambda>current.
       if current = st then returnT ()
       else bindT (getsT (\<lambda>d. count_rows (\<lambda>r. bucket_name r = name) (buckets d))) (\<lambda>n.
            bindT (modifyT (\<lambda>d. d\<lparr>buckets := update_rows (\<lambda>r. bucket_name r = name)
                      (\<lambda>r. r\<lparr>bucket_versioning_status := Some status\<rparr>) (buckets d)\<rparr>)) (\<lambda>_.
              guardT (NoSuchBucket name) (n = 1)))))"

section \<open>Facts\<close>

lemma bucket_exists_iff: "bucket_exists name d \<longleftrightarrow> name \<in> bucket_name ` set (buckets d)"
  by (auto simp: bucket_exists_def one_row_None)

lemma get_versioning_state_bucket: "get_versioning_state b d = Inr st \<Longrightarrow> b \<in> bucket_name ` set (buckets d)"
  by (auto simp: get_versioning_state_def bucket_get_def bindR_eq_Inr dest: bkt.find_by_SomeD)

lemma get_versioning_state_cong:
  "buckets d = buckets d' \<Longrightarrow> get_versioning_state b d = get_versioning_state b d'"
  by (simp add: get_versioning_state_def bucket_get_def)

lemma lock_bucket_for_ownership_succeeds:
  assumes "distinct (map bucket_name (buckets d))" "b \<in> bucket_name ` set (buckets d)"
  shows "lock_bucket_for_ownership b d = Inr ((), d)"
proof -
  from assms obtain r where "r \<in> set (buckets d)" "bucket_name r = b" by auto
  with assms(1) have "count_rows (\<lambda>r. bucket_name r = b) (buckets d) = 1"
    by (intro count_rows_eq_1) (auto simp: distinct_map inj_on_def)
  then show ?thesis by (simp add: lock_bucket_for_ownership_def)
qed

lemma lock_bucket_for_ownership_Inr:
  "lock_bucket_for_ownership b d = Inr (x, d') \<Longrightarrow> d' = d"
  by (auto simp: lock_bucket_for_ownership_def bindT_eq_Inr)

text \<open>Setting a state and reading it back, on every bucket.\<close>

lemma set_versioning_state_effect:
  assumes "distinct (map bucket_name (buckets d))" "get_versioning_state b d = Inr st0"
    and "st \<noteq> Unversioned"
  shows "\<exists>d'. set_versioning_state b st d = Inr ((), d') \<and> get_versioning_state b d' = Inr st \<and>
           (\<forall>c. c \<noteq> b \<longrightarrow> get_versioning_state c d' = get_versioning_state c d) \<and>
           map bucket_name (buckets d') = map bucket_name (buckets d) \<and>
           (\<exists>bs. d' = d\<lparr>buckets := bs\<rparr>)"
proof -
  obtain status where st: "versioning_as_db_value st = Some status"
    using assms(3) by (cases st) auto
  have in_tab: "b \<in> bucket_name ` set (buckets d)"
    using assms(2) by (rule get_versioning_state_bucket)
  have lock: "lock_versioning_state b d = Inr (st0, d)"
    using lock_bucket_for_ownership_succeeds [OF assms(1) in_tab] assms(2)
    by (simp add: lock_versioning_state_def)
  from in_tab obtain r where r: "r \<in> set (buckets d)" "bucket_name r = b" by auto
  have one: "count_rows (\<lambda>r. bucket_name r = b) (buckets d) = 1"
    using r assms(1) by (intro count_rows_eq_1) (auto simp: distinct_map inj_on_def)
  show ?thesis
  proof (cases "st0 = st")
    case True
    with st lock assms(2) show ?thesis
      by (intro exI [of _ d]) (auto simp: set_versioning_state_def liftT_def intro: exI [of _ "buckets d"])
  next
    case False
    let ?bs = "update_rows (\<lambda>r. bucket_name r = b) (\<lambda>r. r\<lparr>bucket_versioning_status := Some status\<rparr>) (buckets d)"
    let ?d = "d\<lparr>buckets := ?bs\<rparr>"
    have fb: "find_bucket c ?bs = map_option (\<lambda>r. if bucket_name r = b
        then r\<lparr>bucket_versioning_status := Some status\<rparr> else r) (find_bucket c (buckets d))" for c
      using assms(1) by (intro bkt.find_by_update) simp_all
    have "find_bucket b (buckets d) = Some r" using r assms(1) by (intro bkt.find_by_key)
    then have "get_versioning_state b ?d = Inr st"
      using r(2) st by (auto simp: get_versioning_state_def bucket_get_def fb versioning_from_db_value_Inr)
    moreover have "get_versioning_state c ?d = get_versioning_state c d" if "c \<noteq> b" for c
    proof (cases "find_bucket c (buckets d)")
      case None
      then show ?thesis by (simp add: get_versioning_state_def bucket_get_def fb)
    next
      case (Some x)
      then have "bucket_name x \<noteq> b" using that by (auto dest: bkt.find_by_SomeD)
      with Some show ?thesis by (simp add: get_versioning_state_def bucket_get_def fb)
    qed
    moreover have "set_versioning_state b st d = Inr ((), ?d)"
      using False st lock one by (simp add: set_versioning_state_def liftT_def)
    moreover have "map bucket_name ?bs = map bucket_name (buckets d)"
      by (simp add: map_update_rows)
    ultimately show ?thesis by (intro exI [of _ ?d]) auto
  qed
qed

end
