(* ===== verification/Object_Store.thy ===== *)
theory Object_Store
  imports Bucket_Store
begin

text \<open>
  The object rows and the current-object projection \<open>obj_is_latest\<close>
  (src/src/store/object.rs). An insertion that
  runs inside a transaction reports a driver error; \<open>write_latest_in_transaction\<close> reports its own
  as the same \<open>Database\<close> error.
\<close>

record latest_object_row =
  lor_id :: string
  lor_bucket :: string
  lor_key :: string
  lor_cid :: string
  lor_size :: int
  lor_content_type :: "string option"
  lor_etag :: string
  lor_metadata :: "string option"
  lor_encrypted :: bool
  lor_key_wrap :: "string option"
  lor_sse_c_key_fingerprint :: "string option"
  lor_multipart :: bool
  lor_created_at :: datetime

definition object_of_row :: "latest_object_row \<Rightarrow> bool \<Rightarrow> object_model" where
  "object_of_row r latest =
     \<lparr>obj_id = lor_id r, obj_bucket = lor_bucket r, obj_key = lor_key r, obj_cid = lor_cid r,
      obj_size = lor_size r, obj_content_type = lor_content_type r, obj_etag = lor_etag r,
      obj_metadata = lor_metadata r, obj_encrypted = lor_encrypted r, obj_key_wrap = lor_key_wrap r,
      obj_sse_c_key_fingerprint = lor_sse_c_key_fingerprint r, obj_multipart = lor_multipart r,
      obj_is_latest = latest, obj_created_at = lor_created_at r\<rparr>"

definition object_at :: "string \<Rightarrow> string \<Rightarrow> object_model \<Rightarrow> bool" where
  "object_at b k r \<longleftrightarrow> obj_bucket r = b \<and> obj_key r = k"

definition current_at :: "string \<Rightarrow> string \<Rightarrow> object_model \<Rightarrow> bool" where
  "current_at b k r \<longleftrightarrow> object_at b k r \<and> obj_is_latest r"

definition clear_latest :: "string \<Rightarrow> string \<Rightarrow> db \<Rightarrow> db" where
  "clear_latest b k d = d\<lparr>objects := update_rows (current_at b k) (\<lambda>r. r\<lparr>obj_is_latest := False\<rparr>) (objects d)\<rparr>"

definition latest_changed :: app_error where
  "latest_changed = Database ''latest object changed during replacement''"

definition write_latest_in_transaction :: "latest_object_row \<Rightarrow> (db, string option) tx" where
  "write_latest_in_transaction row =
     (let b = lor_bucket row; k = lor_key row in
      bindT (getsT (\<lambda>d. one_row (current_at b k) (objects d))) (\<lambda>previous.
      bindT (getsT (\<lambda>d. count_rows (current_at b k) (objects d))) (\<lambda>updated.
      bindT (modifyT (clear_latest b k)) (\<lambda>_.
      bindT (guardT latest_changed
               (updated = (if previous \<noteq> None then 1 else 0))) (\<lambda>_.
      bindT (insert_object (object_of_row row True)) (\<lambda>_.
      returnT (map_option obj_id previous)))))))"

definition get_by_id :: "string \<Rightarrow> db \<Rightarrow> object_model app_result" where
  "get_by_id i d = ok_or (NoSuchKey i) (find_object i (objects d))"

definition insert_immutable_in_transaction :: "latest_object_row \<Rightarrow> (db, object_model) tx" where
  "insert_immutable_in_transaction row =
     bindT (insert_object (object_of_row row False)) (\<lambda>_. queryT (get_by_id (lor_id row)))"

definition claim_sse_c_key_fingerprint :: "string \<Rightarrow> string \<Rightarrow> (db, object_model) tx" where
  "claim_sse_c_key_fingerprint i candidate =
     bindT (modifyT (\<lambda>d. d\<lparr>objects := update_rows
              (\<lambda>r. obj_id r = i \<and> obj_encrypted r \<and> obj_key_wrap r = None \<and>
                   obj_sse_c_key_fingerprint r = None)
              (\<lambda>r. r\<lparr>obj_sse_c_key_fingerprint := Some candidate\<rparr>) (objects d)\<rparr>)) (\<lambda>_.
     queryT (get_by_id i))"

definition get_latest :: "string \<Rightarrow> string \<Rightarrow> db \<Rightarrow> object_model app_result" where
  "get_latest b k d = ok_or (no_such_key b k) (one_row (current_at b k) (objects d))"

text \<open>The guard that a selected object belongs to the key, then both updates and the recount.\<close>

definition set_only_latest :: "string \<Rightarrow> string \<Rightarrow> string option \<Rightarrow> (db, unit) tx" where
  "set_only_latest b k oid =
     bindT (case oid of
              None \<Rightarrow> returnT ()
            | Some i \<Rightarrow>
                bindT (queryT (get_by_id i)) (\<lambda>sel.
                  guardT (InvalidArgument ''selected object does not belong to the requested bucket/key'')
                    (object_at b k sel))) (\<lambda>_.
     bindT (getsT (\<lambda>d. count_rows (current_at b k) (objects d))) (\<lambda>cleared.
     bindT (modifyT (clear_latest b k)) (\<lambda>_.
     bindT (guardT (Internal ''multiple current object projections for one key'') (cleared \<le> 1)) (\<lambda>_.
     bindT (case oid of
              None \<Rightarrow> returnT 0
            | Some i \<Rightarrow>
                (let P = (\<lambda>r. obj_id r = i \<and> object_at b k r \<and> \<not> obj_is_latest r) in
                 bindT (getsT (\<lambda>d. count_rows P (objects d))) (\<lambda>updated.
                 bindT (modifyT (\<lambda>d. d\<lparr>objects := update_rows P (\<lambda>r. r\<lparr>obj_is_latest := True\<rparr>) (objects d)\<rparr>)) (\<lambda>_.
                 bindT (guardT (Internal ''selected object changed while rebuilding current projection'')
                          (updated = 1)) (\<lambda>_.
                 returnT 1))))) (\<lambda>expected.
     bindT (getsT (\<lambda>d. count_rows (current_at b k) (objects d))) (\<lambda>current.
       guardT (Internal ''current object projection verification failed'') (current = expected)))))))"

definition delete_latest_if_present :: "string \<Rightarrow> string \<Rightarrow> (db, bool) tx" where
  "delete_latest_if_present b k =
     bindT (getsT (\<lambda>d. count_rows (current_at b k) (objects d))) (\<lambda>n.
     bindT (modifyT (clear_latest b k)) (\<lambda>_. returnT (n > 0)))"

definition delete_latest :: "string \<Rightarrow> string \<Rightarrow> (db, unit) tx" where
  "delete_latest b k =
     bindT (delete_latest_if_present b k) (\<lambda>present. guardT (no_such_key b k) present)"

definition count_current :: "string \<Rightarrow> db \<Rightarrow> nat" where
  "count_current b d = count_rows (\<lambda>r. obj_bucket r = b \<and> obj_is_latest r) (objects d)"

text \<open>
  \<open>upsert\<close> runs the replacement as a transaction of its own and repeats it, at most
  \<open>MAX_RETRIES\<close> times, after a constraint violation. What other writers commit before attempt
  \<open>n\<close> is the argument \<open>env n\<close>. Every \<open>Database\<close> error of the replacement but its own is a
  constraint violation, whose text says so.
\<close>

definition MAX_RETRIES :: nat where "MAX_RETRIES = 3"

fun upsert_attempt :: "nat \<Rightarrow> (nat \<Rightarrow> db \<Rightarrow> db) \<Rightarrow> latest_object_row \<Rightarrow> (db, unit) tx" where
  "upsert_attempt 0 env row d =
     bindT (write_latest_in_transaction row) (\<lambda>_. returnT ()) (env MAX_RETRIES d)"
| "upsert_attempt (Suc left) env row d =
     (let d0 = env (MAX_RETRIES - Suc left) d in
      case write_latest_in_transaction row d0 of
        Inr (_, d') \<Rightarrow> Inr ((), d')
      | Inl e \<Rightarrow> if e \<noteq> latest_changed then upsert_attempt left env row d0 else Inl e)"

definition upsert :: "(nat \<Rightarrow> db \<Rightarrow> db) \<Rightarrow> latest_object_row \<Rightarrow> (db, unit) tx" where
  "upsert env row = upsert_attempt MAX_RETRIES env row"

section \<open>The projection contract\<close>

text \<open>
  \<open>objects_ok\<close>: object identifiers are keys and at most one row of a key is current. The current
  object of a key is what \<open>get_latest\<close> returns.
\<close>

definition objects_ok :: "db \<Rightarrow> bool" where
  "objects_ok d \<longleftrightarrow> distinct (map obj_id (objects d)) \<and>
     (\<forall>r \<in> set (objects d). \<forall>s \<in> set (objects d).
        obj_is_latest r \<and> obj_is_latest s \<and> obj_bucket r = obj_bucket s \<and> obj_key r = obj_key s
        \<longrightarrow> r = s)"

lemma object_of_row_sel [simp]:
  "obj_id (object_of_row r l) = lor_id r" "obj_bucket (object_of_row r l) = lor_bucket r"
  "obj_key (object_of_row r l) = lor_key r" "obj_cid (object_of_row r l) = lor_cid r"
  "obj_is_latest (object_of_row r l) = l"
  by (simp_all add: object_of_row_def)

lemma objects_ok_distinct: "objects_ok d \<Longrightarrow> distinct (objects d)"
  by (auto simp: objects_ok_def distinct_map)

lemma current_at_unique:
  "objects_ok d \<Longrightarrow> r \<in> set (objects d) \<Longrightarrow> s \<in> set (objects d) \<Longrightarrow> current_at b k r \<Longrightarrow>
   current_at b k s \<Longrightarrow> r = s"
  by (auto simp: objects_ok_def current_at_def object_at_def)

lemma current_count_le_1: "objects_ok d \<Longrightarrow> count_rows (current_at b k) (objects d) \<le> 1"
  by (rule count_rows_le_1) (auto simp: objects_ok_distinct intro: current_at_unique)

lemma clear_latest_objects [simp]:
  "objects (clear_latest b k d) = update_rows (current_at b k) (\<lambda>r. r\<lparr>obj_is_latest := False\<rparr>) (objects d)"
  by (simp add: clear_latest_def)

lemma clear_latest_frame [simp]:
  "buckets (clear_latest b k d) = buckets d"
  "object_versions (clear_latest b k d) = object_versions d"
  "physical_residencies (clear_latest b k d) = physical_residencies d"
  "version_residencies (clear_latest b k d) = version_residencies d"
  "residency_references (clear_latest b k d) = residency_references d"
  by (simp_all add: clear_latest_def)

text \<open>What \<open>set_only_latest\<close> does to one row.\<close>

definition projected :: "string \<Rightarrow> string \<Rightarrow> string option \<Rightarrow> object_model \<Rightarrow> object_model" where
  "projected b k oid r = (if object_at b k r then r\<lparr>obj_is_latest := (oid = Some (obj_id r))\<rparr> else r)"

lemma projected_sel [simp]:
  "obj_id (projected b k oid r) = obj_id r" "obj_bucket (projected b k oid r) = obj_bucket r"
  "obj_key (projected b k oid r) = obj_key r" "obj_cid (projected b k oid r) = obj_cid r"
  by (simp_all add: projected_def)

lemma object_at_upd [simp]: "object_at b k (r\<lparr>obj_is_latest := x\<rparr>) = object_at b k r"
  by (simp add: object_at_def)

lemma update_rows_comp_projected:
  "update_rows (\<lambda>r. obj_id r = i \<and> object_at b k r \<and> \<not> obj_is_latest r) (\<lambda>r. r\<lparr>obj_is_latest := True\<rparr>)
     (update_rows (current_at b k) (\<lambda>r. r\<lparr>obj_is_latest := False\<rparr>) t) = map (projected b k (Some i)) t"
  by (auto simp: update_rows_def projected_def current_at_def object_at_def)

lemma update_rows_projected_None:
  "update_rows (current_at b k) (\<lambda>r. r\<lparr>obj_is_latest := False\<rparr>) t = map (projected b k None) t"
  by (auto simp: update_rows_def projected_def current_at_def object_at_def)

lemma current_at_projected:
  "current_at b k (projected b k oid r) \<longleftrightarrow> object_at b k r \<and> oid = Some (obj_id r)"
  by (simp add: current_at_def projected_def)

lemma count_current_map_None: "count_rows (current_at b k) (map (projected b k None) t) = 0"
  by (simp add: count_rows_0 current_at_projected)

lemma count_owned_id:
  assumes "distinct (map obj_id t)" "r \<in> set t" "obj_id r = i" "object_at b k r"
  shows "count_rows (\<lambda>r. obj_id r = i \<and> object_at b k r) t = 1"
  using assms by (intro count_rows_eq_1 [where r = r]) (auto simp: distinct_map inj_on_def)

lemma count_current_map_Some:
  assumes "distinct (map obj_id t)" "r \<in> set t" "obj_id r = i" "object_at b k r"
  shows "count_rows (current_at b k) (map (projected b k (Some i)) t) = 1"
  using count_owned_id [OF assms] by (simp add: count_rows_map current_at_projected conj_commute eq_commute [of i])

lemma set_only_latest_None:
  assumes "objects_ok d"
  shows "set_only_latest b k None d = Inr ((), d\<lparr>objects := map (projected b k None) (objects d)\<rparr>)"
proof -
  have le: "count_rows (current_at b k) (objects d) \<le> Suc 0"
    using current_count_le_1 [OF assms] by simp
  have z: "count_rows (current_at b k) (update_rows (current_at b k) (\<lambda>r. r\<lparr>obj_is_latest := False\<rparr>) (objects d)) = 0"
    by (simp only: update_rows_projected_None count_current_map_None)
  show ?thesis
    using le by (simp add: set_only_latest_def z) (simp add: clear_latest_def update_rows_projected_None)
qed

lemma set_only_latest_Some:
  assumes "objects_ok d" "r \<in> set (objects d)" "obj_id r = i" "object_at b k r"
  shows "set_only_latest b k (Some i) d =
           Inr ((), d\<lparr>objects := map (projected b k (Some i)) (objects d)\<rparr>)"
proof -
  let ?P = "\<lambda>r. obj_id r = i \<and> object_at b k r \<and> \<not> obj_is_latest r"
  let ?t = "update_rows (current_at b k) (\<lambda>r. r\<lparr>obj_is_latest := False\<rparr>) (objects d)"
  have dist: "distinct (map obj_id (objects d))" using assms(1) by (simp add: objects_ok_def)
  have get: "get_by_id i d = Inr r"
    using obj.find_by_key [OF dist assms(2,3)] by (simp add: get_by_id_def)
  have le: "count_rows (current_at b k) (objects d) \<le> Suc 0"
    using current_count_le_1 [OF assms(1)] by simp
  have "?P (projected b k None r) \<longleftrightarrow> obj_id r = i \<and> object_at b k r" for r
    by (simp add: projected_def)
  then have "count_rows ?P ?t = 1"
    unfolding update_rows_projected_None count_rows_map by (simp add: count_owned_id [OF dist assms(2-4)])
  moreover have "count_rows (current_at b k) (update_rows ?P (\<lambda>r. r\<lparr>obj_is_latest := True\<rparr>) ?t) = 1"
    unfolding update_rows_comp_projected by (rule count_current_map_Some [OF dist assms(2-4)])
  ultimately show ?thesis
    using get le assms(4)
    by (simp add: set_only_latest_def Let_def update_rows_comp_projected) (simp add: clear_latest_def update_rows_comp_projected)
qed

lemma objects_ok_projected:
  assumes "objects_ok d"
  shows "objects_ok (d\<lparr>objects := map (projected b k oid) (objects d)\<rparr>)"
proof -
  have "map obj_id (map (projected b k oid) (objects d)) = map obj_id (objects d)" by simp
  moreover have "projected b k oid r = projected b k oid s"
    if "r \<in> set (objects d)" "s \<in> set (objects d)" "obj_is_latest (projected b k oid r)"
      "obj_is_latest (projected b k oid s)" "obj_bucket r = obj_bucket s" "obj_key r = obj_key s"
    for r s
  proof (cases "object_at b k r")
    case True
    with that have "object_at b k s" by (simp add: object_at_def)
    with that True have "obj_id r = obj_id s" by (simp add: projected_def)
    with that assms have "r = s" by (auto simp: objects_ok_def distinct_map inj_on_def)
    then show ?thesis by simp
  next
    case False
    with that have "\<not> object_at b k s" by (simp add: object_at_def)
    with that False assms show ?thesis by (auto simp: objects_ok_def projected_def)
  qed
  ultimately show ?thesis using assms unfolding objects_ok_def by (auto simp del: map_map)
qed

text \<open>\<open>write_latest_in_transaction\<close> on a consistent database.\<close>

lemma write_latest_effect:
  assumes "objects_ok d" "lor_id row \<notin> obj_id ` set (objects d)"
    and "lor_bucket row \<in> bucket_name ` set (buckets d)"
  defines "b \<equiv> lor_bucket row" and "k \<equiv> lor_key row"
  shows "write_latest_in_transaction row d =
           Inr (map_option obj_id (one_row (current_at b k) (objects d)),
                d\<lparr>objects := map (projected b k None) (objects d) @ [object_of_row row True]\<rparr>)"
proof -
  have le: "count_rows (current_at b k) (objects d) \<le> 1" by (rule current_count_le_1 [OF assms(1)])
  have cnt: "count_rows (current_at b k) (objects d) =
      (if one_row (current_at b k) (objects d) \<noteq> None then 1 else 0)"
  proof (cases "one_row (current_at b k) (objects d)")
    case None
    then show ?thesis by (simp add: one_row_None count_rows_0)
  next
    case (Some r)
    then have "count_rows (current_at b k) (objects d) \<noteq> 0"
      using one_row_SomeD [OF Some] by (auto simp: count_rows_0)
    with le Some show ?thesis by simp
  qed
  have free: "\<not> (\<exists>o' \<in> projected b k None ` set (objects d).
      obj_is_latest o' \<and> obj_bucket o' = lor_bucket row \<and> obj_key o' = lor_key row)"
    by (auto simp: projected_def object_at_def b_def k_def)
  have ins: "insert_object (object_of_row row True) (clear_latest b k d) =
      Inr ((), d\<lparr>objects := map (projected b k None) (objects d) @ [object_of_row row True]\<rparr>)"
    using assms(2) free assms(3) unfolding insert_object_def object_of_row_def
    by (simp add: update_rows_projected_None) (simp add: clear_latest_def)
  show ?thesis
    unfolding write_latest_in_transaction_def Let_def b_def [symmetric] k_def [symmetric]
    by (simp add: cnt ins del: One_nat_def)
qed

end
