(* ===== verification/Residency_Store.thy ===== *)
theory Residency_Store
  imports Object_Store
begin

text \<open>
  Residency ownership (src/src/store/residency/references.rs): the physical copies of a CID on a
  tier, the primary residency of each content version, and the references that keep a physical copy
  alive; and the read router over tier clients (src/src/residency/router.rs). Reading the database
  clock is an argument \<open>now\<close>. Row locks and the locking reads of \<open>lock_residency_frontier\<close> do
  not change state.

  The Kubo RPC that returns a node identity, decoding a stored receipt and parsing a CID are code of
  other systems and are the arguments \<open>rpc_id\<close>, \<open>receipt_from_str\<close> and \<open>cid_parse\<close>.
\<close>

section \<open>Physical copies\<close>

definition physical_snapshot :: "physical_residency_model \<Rightarrow> physical_residency_snapshot app_result" where
  "physical_snapshot r =
     bindR (tier_from_db_str (pr_tier r)) (\<lambda>t.
     bindR (verification_from_db_str (pr_verification_state r)) (\<lambda>vs.
     let nonempty = (\<lambda>x. case x of None \<Rightarrow> False | Some v \<Rightarrow> v \<noteq> []);
         valid_shape =
           (case vs of
              Verified \<Rightarrow> nonempty (pr_node_identity r) \<and> nonempty (pr_verification_receipt r) \<and>
                pr_verified_at r \<noteq> None
            | _ \<Rightarrow> pr_node_identity r = None \<and> pr_verification_receipt r = None \<and> pr_verified_at r = None)
     in if \<not> valid_shape then Inl (corrupt ''invalid physical verification shape'')
        else Inr \<lparr>prs_location = \<lparr>loc_tier = t, loc_cid = pr_cid r\<rparr>, prs_verification_state = vs,
                  prs_node_identity = pr_node_identity r,
                  prs_verification_receipt = pr_verification_receipt r,
                  prs_verified_at = pr_verified_at r\<rparr>))"

text \<open>The rows \<open>mark_physical_verified\<close> may update, and the update.\<close>

definition unverified_hot :: "string \<Rightarrow> physical_residency_model \<Rightarrow> bool" where
  "unverified_hot cid r \<longleftrightarrow> pr_tier r = tier_as_db_str Hot \<and> pr_cid r = cid \<and>
     (pr_verification_state r = ''pending'' \<or> pr_verification_state r = ''failed'')"

definition set_verified ::
  "string \<Rightarrow> string \<Rightarrow> datetime \<Rightarrow> physical_residency_model \<Rightarrow> physical_residency_model" where
  "set_verified node receipt now r =
     r\<lparr>pr_verification_state := ''verified'', pr_node_identity := Some node,
       pr_verification_receipt := Some receipt, pr_verified_at := Some now, pr_updated_at := now\<rparr>"

definition update_unverified_hot ::
  "string \<Rightarrow> string \<Rightarrow> string \<Rightarrow> datetime \<Rightarrow> (db, nat) tx" where
  "update_unverified_hot cid node receipt now =
     bindT (getsT (\<lambda>d. count_rows (unverified_hot cid) (physical_residencies d))) (\<lambda>n.
     bindT (modifyT (\<lambda>d. d\<lparr>physical_residencies :=
              update_rows (unverified_hot cid) (set_verified node receipt now) (physical_residencies d)\<rparr>))
       (\<lambda>_. returnT n))"

definition mark_physical_verified :: "string \<Rightarrow> string \<Rightarrow> string \<Rightarrow> datetime \<Rightarrow> (db, unit) tx" where
  "mark_physical_verified cid node receipt now =
     bindT (update_unverified_hot cid node receipt now) (\<lambda>updated.
       guardT (corrupt ''hot physical verification compare-and-set failed'') (updated = 1))"

abbreviation find_hot :: "string \<Rightarrow> db \<Rightarrow> physical_residency_model option" where
  "find_hot cid d \<equiv> find_physical (tier_as_db_str Hot, cid) (physical_residencies d)"

fun new_hot_row :: "string \<Rightarrow> physical_verification \<Rightarrow> datetime \<Rightarrow> physical_residency_model" where
  "new_hot_row cid PvPending now =
     \<lparr>pr_tier = tier_as_db_str Hot, pr_cid = cid, pr_node_identity = None,
      pr_verification_state = ''pending'', pr_verification_receipt = None, pr_verified_at = None,
      pr_created_at = now, pr_updated_at = now\<rparr>"
| "new_hot_row cid (PvVerified node receipt) now =
     \<lparr>pr_tier = tier_as_db_str Hot, pr_cid = cid, pr_node_identity = Some node,
      pr_verification_state = ''verified'', pr_verification_receipt = Some receipt,
      pr_verified_at = Some now, pr_created_at = now, pr_updated_at = now\<rparr>"

definition attach_physical_hot ::
  "string \<Rightarrow> physical_verification \<Rightarrow> datetime \<Rightarrow> (db, unit) tx" where
  "attach_physical_hot cid verification now =
     bindT (guardT (InvalidArgument ''verified residency requires node identity and receipt'')
        (case verification of PvPending \<Rightarrow> True | PvVerified n r \<Rightarrow> n \<noteq> [] \<and> r \<noteq> [])) (\<lambda>_.
     bindT (insert_physical_do_nothing (new_hot_row cid verification now)) (\<lambda>_.
     bindT (queryT (\<lambda>d. ok_or (corrupt ''hot physical residency attach failed'') (find_hot cid d)))
       (\<lambda>existing.
     case verification of
       PvPending \<Rightarrow> bindT (liftT (physical_snapshot existing)) (\<lambda>_. returnT ())
     | PvVerified node receipt \<Rightarrow>
         if pr_verification_state existing = ''verified'' \<and> pr_node_identity existing = Some node \<and>
            pr_verification_receipt existing = Some receipt
         then bindT (liftT (physical_snapshot existing)) (\<lambda>_. returnT ())
         else if pr_verification_state existing = ''pending''
         then mark_physical_verified cid node receipt now
         else throwT (corrupt ''conflicting hot physical verification receipt''))))"

fun attach_all_hot :: "string list \<Rightarrow> datetime \<Rightarrow> (db, unit) tx" where
  "attach_all_hot [] now = returnT ()"
| "attach_all_hot (cid # cids) now =
     bindT (attach_physical_hot cid PvPending now) (\<lambda>_. attach_all_hot cids now)"

definition prepare_hot_publication_frontier :: "string list \<Rightarrow> datetime \<Rightarrow> (db, unit) tx" where
  "prepare_hot_publication_frontier cids now = attach_all_hot (remdups_adj (sort cids)) now"

definition apply_hot_publication_verification ::
  "string \<Rightarrow> physical_verification \<Rightarrow> datetime \<Rightarrow> (db, unit) tx" where
  "apply_hot_publication_verification cid verification now =
     (case verification of
        PvPending \<Rightarrow> throwT (InvalidArgument ''hot publication requires verified residency'')
      | PvVerified node receipt \<Rightarrow>
          if node = [] \<or> receipt = []
          then throwT (InvalidArgument ''verified residency requires node identity and receipt'')
          else
            bindT (queryT (\<lambda>d. ok_or (corrupt ''hot publication frontier is missing'') (find_hot cid d)))
              (\<lambda>existing.
            bindT (liftT (physical_snapshot existing)) (\<lambda>snapshot.
            if prs_verification_state snapshot \<noteq> Verified
            then mark_physical_verified cid node receipt now
            else if prs_node_identity snapshot = Some node \<and>
                    prs_verification_receipt snapshot = Some receipt
            then returnT ()
            else throwT (corrupt ''conflicting hot physical verification receipt''))))"

section \<open>Version residency\<close>

definition validate_identity :: "version_residency_identity \<Rightarrow> unit app_result" where
  "validate_identity i =
     (if vri_version_row_id i = [] \<or> vri_object_id i = [] \<or> vri_cid i = []
      then Inl (InvalidArgument ''residency identity fields must not be empty'') else Inr ())"

definition validate_existing_version_residency ::
  "version_residency_model \<Rightarrow> version_residency_identity \<Rightarrow> unit app_result" where
  "validate_existing_version_residency e i =
     (if vr_object_id e = vri_object_id i \<and> vr_cid e = vri_cid i \<and>
         vr_primary_tier e = tier_as_db_str Hot \<and>
         vr_storage_class e = class_as_db_str Standard \<and> vr_revision e > 0
      then Inr () else Inl (corrupt ''conflicting version residency attach''))"

definition lock_and_validate_version ::
  "version_residency_identity \<Rightarrow> db \<Rightarrow> (object_version_model \<times> object_model) app_result" where
  "lock_and_validate_version i d =
     bindR (ok_or (corrupt ''residency owner version is missing'')
              (find_version (vri_version_row_id i) (object_versions d))) (\<lambda>v.
     if ov_kind v \<noteq> ''object'' \<or> ov_object_id v \<noteq> Some (vri_object_id i)
     then Inl (corrupt ''delete marker or mismatched version cannot own residency'')
     else
       bindR (ok_or (corrupt ''residency object is missing'')
                (find_object (vri_object_id i) (objects d))) (\<lambda>ob.
       if obj_cid ob \<noteq> vri_cid i \<or> obj_bucket ob \<noteq> ov_bucket v \<or> obj_key ob \<noteq> ov_key v
       then Inl (corrupt ''residency identity does not match immutable object metadata'')
       else Inr (v, ob)))"

definition resolve_version_residency :: "string \<Rightarrow> db \<Rightarrow> resolved_version_residency app_result" where
  "resolve_version_residency vid d =
     (if vid = [] then Inl (corrupt ''empty version identity'')
      else
     bindR (ok_or (corrupt ''content version has no residency'')
              (find_residency vid (version_residencies d))) (\<lambda>res.
     bindR (ok_or (corrupt ''residency owner version is missing'')
              (find_version vid (object_versions d))) (\<lambda>v.
     if ov_kind v \<noteq> ''object'' \<or> ov_object_id v \<noteq> Some (vr_object_id res)
     then Inl (corrupt ''residency owner is not the exact content version'')
     else
     bindR (ok_or (corrupt ''residency object is missing'')
              (find_object (vr_object_id res) (objects d))) (\<lambda>ob.
     if obj_cid ob \<noteq> vr_cid res \<or> obj_bucket ob \<noteq> ov_bucket v \<or> obj_key ob \<noteq> ov_key v
     then Inl (corrupt ''residency identity does not match immutable object metadata'')
     else
     bindR (tier_from_db_str (vr_primary_tier res)) (\<lambda>t.
     bindR (class_from_db_str (vr_storage_class res)) (\<lambda>c.
     if (t, c) \<notin> {(Hot, Standard), (Cold, StandardIa)} \<or> vr_revision res \<le> 0
     then Inl (corrupt ''invalid primary residency'')
     else
     bindR (ok_or (corrupt ''primary physical residency is missing'')
              (find_physical (vr_primary_tier res, vr_cid res) (physical_residencies d))) (\<lambda>ph.
     bindR (physical_snapshot ph) (\<lambda>snap.
       Inr \<lparr>rvr_identity = \<lparr>vri_version_row_id = vr_version_row_id res, vri_object_id = vr_object_id res,
                            vri_cid = vr_cid res\<rparr>,
            rvr_primary = \<lparr>loc_tier = t, loc_cid = loc_cid (prs_location snap)\<rparr>,
            rvr_storage_class = c, rvr_revision = vr_revision res, rvr_physical = snap\<rparr>))))))))"

definition retained_reference ::
  "object_version_model \<Rightarrow> object_model \<Rightarrow> datetime \<Rightarrow> residency_reference_model" where
  "retained_reference v ob now =
     \<lparr>rr_owner_kind = ''version'', rr_owner_id = ov_id v, rr_reason = reason_as_db_str RetainedVersion,
      rr_version_row_id = ov_id v, rr_object_id = obj_id ob, rr_tier = tier_as_db_str Hot,
      rr_cid = obj_cid ob, rr_created_at = now\<rparr>"

definition hot_residency ::
  "object_version_model \<Rightarrow> object_model \<Rightarrow> datetime \<Rightarrow> version_residency_model" where
  "hot_residency v ob now =
     \<lparr>vr_version_row_id = ov_id v, vr_object_id = obj_id ob, vr_primary_tier = tier_as_db_str Hot,
      vr_storage_class = class_as_db_str Standard, vr_cid = obj_cid ob, vr_revision = 1,
      vr_created_at = now, vr_updated_at = now\<rparr>"

definition attach_hot_in_transaction ::
  "version_residency_identity \<Rightarrow> physical_verification \<Rightarrow> datetime \<Rightarrow> (db, resolved_version_residency) tx" where
  "attach_hot_in_transaction i verification now =
     bindT (liftT (validate_identity i)) (\<lambda>_.
     bindT (queryT (lock_and_validate_version i)) (\<lambda>(v, ob).
     bindT (attach_physical_hot (vri_cid i) verification now) (\<lambda>_.
     bindT (getsT (\<lambda>d. find_residency (vri_version_row_id i) (version_residencies d))) (\<lambda>residency.
     bindT (case residency of
              Some e \<Rightarrow> liftT (validate_existing_version_residency e i)
            | None \<Rightarrow> insert_version_residency (hot_residency v ob now)) (\<lambda>_.
     bindT (insert_reference_do_nothing (retained_reference v ob now)) (\<lambda>_.
     queryT (resolve_version_residency (vri_version_row_id i))))))))"

definition mark_hot_verified_in_transaction ::
  "version_residency_identity \<Rightarrow> string \<Rightarrow> string \<Rightarrow> datetime \<Rightarrow> (db, bool) tx" where
  "mark_hot_verified_in_transaction i node receipt now =
     bindT (guardT (InvalidArgument ''verified residency requires node identity and receipt'')
              (node \<noteq> [] \<and> receipt \<noteq> [])) (\<lambda>_.
     bindT (queryT (lock_and_validate_version i)) (\<lambda>_.
     bindT (queryT (\<lambda>d. ok_or (corrupt ''verification owner has no residency'')
              (find_residency (vri_version_row_id i) (version_residencies d)))) (\<lambda>residency.
     bindT (liftT (validate_existing_version_residency residency i)) (\<lambda>_.
     bindT (update_unverified_hot (vri_cid i) node receipt now) (\<lambda>updated.
     if updated = 1 then returnT True
     else
       bindT (queryT (\<lambda>d. ok_or (corrupt ''verification physical residency is missing'')
                (find_hot (vri_cid i) d))) (\<lambda>existing.
       if pr_verification_state existing = ''verified'' \<and> pr_node_identity existing = Some node \<and>
          pr_verification_receipt existing = Some receipt
       then returnT False
       else throwT (corrupt ''conflicting physical verification receipt'')))))))"

section \<open>References\<close>

definition is_retained_of :: "version_residency_model \<Rightarrow> string \<Rightarrow> residency_reference_model \<Rightarrow> bool" where
  "is_retained_of res vid r \<longleftrightarrow>
     rr_owner_kind r = ''version'' \<and> rr_owner_id r = vid \<and>
     rr_reason r = reason_as_db_str RetainedVersion \<and> rr_version_row_id r = vid \<and>
     rr_object_id r = vr_object_id res \<and> rr_tier r = vr_primary_tier res \<and> rr_cid r = vr_cid res"

definition release_version_reference_in_transaction :: "string \<Rightarrow> (db, bool) tx" where
  "release_version_reference_in_transaction vid =
     bindT (queryT (\<lambda>d. ok_or (corrupt ''cannot release a version with no residency'')
              (find_residency vid (version_residencies d)))) (\<lambda>res.
     bindT (getsT (\<lambda>d. count_rows (is_retained_of res vid) (residency_references d))) (\<lambda>deleted.
     bindT (modifyT (\<lambda>d. d\<lparr>residency_references :=
              delete_rows (is_retained_of res vid) (residency_references d)\<rparr>)) (\<lambda>_.
     returnT (deleted = 1))))"

definition attach_transition_hold_in_transaction ::
  "string \<Rightarrow> reference_reason \<Rightarrow> version_residency_identity \<Rightarrow> residency_location \<Rightarrow> datetime \<Rightarrow> (db, bool) tx" where
  "attach_transition_hold_in_transaction tid reason i loc now =
     bindT (guardT (InvalidArgument ''invalid transition residency hold'')
              (tid \<noteq> [] \<and> (reason = TransitionStaging \<or> reason = TransitionCleanupHold))) (\<lambda>_.
     bindT (liftT (validate_identity i)) (\<lambda>_.
     bindT (queryT (lock_and_validate_version i)) (\<lambda>_.
     bindT (getsT (\<lambda>d. find_physical (tier_as_db_str (loc_tier loc), loc_cid loc) (physical_residencies d)))
       (\<lambda>ph.
     bindT (guardT (corrupt ''transition hold physical residency is missing'') (ph \<noteq> None)) (\<lambda>_.
     bindT (insert_reference_do_nothing
        \<lparr>rr_owner_kind = ''transition'', rr_owner_id = tid, rr_reason = reason_as_db_str reason,
         rr_version_row_id = vri_version_row_id i, rr_object_id = vri_object_id i,
         rr_tier = tier_as_db_str (loc_tier loc), rr_cid = loc_cid loc, rr_created_at = now\<rparr>) (\<lambda>inserted.
     returnT (inserted = 1)))))))"

definition is_hold ::
  "string \<Rightarrow> reference_reason \<Rightarrow> residency_location \<Rightarrow> residency_reference_model \<Rightarrow> bool" where
  "is_hold tid reason loc r \<longleftrightarrow>
     rr_owner_kind r = ''transition'' \<and> rr_owner_id r = tid \<and> rr_reason r = reason_as_db_str reason \<and>
     rr_tier r = tier_as_db_str (loc_tier loc) \<and> rr_cid r = loc_cid loc"

definition release_transition_hold_in_transaction ::
  "string \<Rightarrow> reference_reason \<Rightarrow> residency_location \<Rightarrow> (db, bool) tx" where
  "release_transition_hold_in_transaction tid reason loc =
     bindT (guardT (InvalidArgument ''invalid transition residency hold'')
              (tid \<noteq> [] \<and> (reason = TransitionStaging \<or> reason = TransitionCleanupHold))) (\<lambda>_.
     bindT (getsT (\<lambda>d. count_rows (is_hold tid reason loc) (residency_references d))) (\<lambda>deleted.
     bindT (modifyT (\<lambda>d. d\<lparr>residency_references :=
              delete_rows (is_hold tid reason loc) (residency_references d)\<rparr>)) (\<lambda>_.
     returnT (deleted = 1))))"

definition ACTIVE_TARGET_STATES :: "string list" where
  "ACTIVE_TARGET_STATES =
     [''waiting'', ''submitted'', ''pinned'', ''degraded'', ''quota_waiting'', ''quota_blocked'']"

definition count_reason :: "residency_location \<Rightarrow> reference_reason \<Rightarrow> db \<Rightarrow> nat" where
  "count_reason loc reason d =
     count_rows (\<lambda>r. rr_tier r = tier_as_db_str (loc_tier loc) \<and> rr_cid r = loc_cid loc \<and>
                     rr_reason r = reason_as_db_str reason) (residency_references d)"

text \<open>The two lease counts are joins: a target with its lease, a lease with its owner object.\<close>

definition reference_summary_in_transaction :: "residency_location \<Rightarrow> db \<Rightarrow> reference_summary" where
  "reference_summary_in_transaction loc d =
     (let hot = (loc_tier loc = Hot) in
      \<lparr>rs_retained_versions = count_reason loc RetainedVersion d,
       rs_transition_staging_holds = count_reason loc TransitionStaging d,
       rs_transition_cleanup_holds = count_reason loc TransitionCleanupHold d,
       rs_active_lease_targets =
         (if hot then length [t. t \<leftarrow> pin_lease_targets d, l \<leftarrow> pin_leases d,
                                 plt_lease_id t = pl_id l \<and> plt_cid t = loc_cid loc \<and>
                                 plt_state t \<in> set ACTIVE_TARGET_STATES \<and> pl_state l = ''active'']
          else 0),
       rs_active_lease_owners =
         (if hot then length [l. l \<leftarrow> pin_leases d, ob \<leftarrow> objects d,
                                 pl_owner_object_id l = obj_id ob \<and> obj_cid ob = loc_cid loc \<and>
                                 pl_state l = ''active'']
          else 0)\<rparr>)"

section \<open>The read router\<close>

record kubo_client =
  kc_base_url :: string
  kc_local_reads_only :: bool

definition with_local_reads_only :: "kubo_client \<Rightarrow> kubo_client" where
  "with_local_reads_only c = c\<lparr>kc_local_reads_only := True\<rparr>"

text \<open>\<^verbatim>\<open>u8::is_ascii_alphanumeric\<close>, and the node identity a Kubo RPC reports at a base URL.\<close>

definition is_ascii_alphanumeric :: "char \<Rightarrow> bool" where
  "is_ascii_alphanumeric c \<longleftrightarrow>
     (let n = (of_char c :: nat) in (48 \<le> n \<and> n \<le> 57) \<or> (65 \<le> n \<and> n \<le> 90) \<or> (97 \<le> n \<and> n \<le> 122))"

definition local_node_identity ::
  "(string \<Rightarrow> string app_result) \<Rightarrow> kubo_client \<Rightarrow> string app_result" where
  "local_node_identity rpc_id c =
     bindR (rpc_id (kc_base_url c)) (\<lambda>i.
     if i = [] \<or> length i > 256 \<or> \<not> list_all is_ascii_alphanumeric i
     then Inl (KuboRpc None ''invalid Kubo node identity response'') else Inr i)"

record tier_clients =
  tc_hot :: kubo_client
  tc_cold :: "kubo_client option"

definition client_for_tier :: "tier_clients \<Rightarrow> kubo_tier \<Rightarrow> kubo_client app_result" where
  "client_for_tier tc t =
     (case t of Hot \<Rightarrow> Inr (tc_hot tc) | Cold \<Rightarrow> ok_or (Tier ColdNotConfigured) (tc_cold tc))"

record local_residency_verification_receipt =
  lrv_node_identity :: string
  lrv_cid :: string

definition validate_cold_receipt ::
  "(string \<Rightarrow> local_residency_verification_receipt option) \<Rightarrow> (string \<Rightarrow> 'cid option) \<Rightarrow>
   string \<Rightarrow> string option \<Rightarrow> string option \<Rightarrow> unit app_result" where
  "validate_cold_receipt receipt_from_str cid_parse cid node receipt =
     bindR (ok_or (Tier LocalCopyIncomplete) (Option.bind receipt receipt_from_str)) (\<lambda>r.
     bindR (ok_or (Tier CidMismatch) (cid_parse cid)) (\<lambda>c.
     if cid_parse (lrv_cid r) \<noteq> Some c then Inl (Tier CidMismatch)
     else if Some (lrv_node_identity r) \<noteq> node then Inl (Tier NodeIdentityMismatch)
     else Inr ()))"

definition resolve_read_source ::
  "(string \<Rightarrow> local_residency_verification_receipt option) \<Rightarrow> (string \<Rightarrow> 'cid option) \<Rightarrow>
   (string \<Rightarrow> string app_result) \<Rightarrow> tier_clients \<Rightarrow> resolved_version_residency \<Rightarrow> kubo_client app_result" where
  "resolve_read_source receipt_from_str cid_parse rpc_id tc r =
     bindR (client_for_tier tc (loc_tier (rvr_primary r))) (\<lambda>client.
     if prs_location (rvr_physical r) \<noteq> rvr_primary r \<or>
        vri_cid (rvr_identity r) \<noteq> loc_cid (rvr_primary r)
     then Inl (Tier CidMismatch)
     else
     bindR (if loc_tier (rvr_primary r) = Cold then
              (if prs_verification_state (rvr_physical r) \<noteq> Verified then Inl (Tier LocalCopyIncomplete)
               else validate_cold_receipt receipt_from_str cid_parse (vri_cid (rvr_identity r))
                      (prs_node_identity (rvr_physical r)) (prs_verification_receipt (rvr_physical r)))
            else Inr ()) (\<lambda>_.
     bindR (if prs_verification_state (rvr_physical r) = Verified then
              (case local_node_identity rpc_id client of
                 Inl _ \<Rightarrow> Inl (Tier TierUnavailable)
               | Inr node \<Rightarrow>
                   if Some node \<noteq> prs_node_identity (rvr_physical r)
                   then Inl (Tier NodeIdentityMismatch) else Inr ())
            else Inr ()) (\<lambda>_.
     Inr (case loc_tier (rvr_primary r) of Cold \<Rightarrow> with_local_reads_only client | Hot \<Rightarrow> client))))"

section \<open>Physical rows\<close>

lemma physical_snapshot_checks:
  assumes "physical_checks r"
  obtains t v where "pr_tier r = tier_as_db_str t"
    "physical_snapshot r = Inr \<lparr>prs_location = \<lparr>loc_tier = t, loc_cid = pr_cid r\<rparr>, prs_verification_state = v,
       prs_node_identity = pr_node_identity r, prs_verification_receipt = pr_verification_receipt r,
       prs_verified_at = pr_verified_at r\<rparr>"
    "pr_verification_state r = (case v of Pending \<Rightarrow> ''pending'' | Verified \<Rightarrow> ''verified'' | Failed \<Rightarrow> ''failed'')"
proof -
  obtain t where t: "pr_tier r = tier_as_db_str t"
    using assms unfolding physical_checks_def by (metis empty_iff insert_iff tier_as_db_str.simps)
  obtain v where v: "verification_from_db_str (pr_verification_state r) = Inr v"
    using assms by (auto simp: physical_checks_def physical_shape_def verification_from_db_str_def)
  have "physical_shape r" using assms by (simp add: physical_checks_def)
  with v have "physical_snapshot r = Inr \<lparr>prs_location = \<lparr>loc_tier = t, loc_cid = pr_cid r\<rparr>, prs_verification_state = v,
       prs_node_identity = pr_node_identity r, prs_verification_receipt = pr_verification_receipt r,
       prs_verified_at = pr_verified_at r\<rparr>"
    by (cases v) (auto simp: physical_snapshot_def t Let_def physical_shape_def verification_from_db_str_def split: if_splits)
  with t v that show ?thesis by (simp add: verification_from_db_str_Inr)
qed

lemma physical_snapshot_Inr:
  assumes "physical_snapshot r = Inr s"
  shows "pr_tier r = tier_as_db_str (loc_tier (prs_location s))" "loc_cid (prs_location s) = pr_cid r"
    "pr_verification_state r =
       (case prs_verification_state s of Pending \<Rightarrow> ''pending'' | Verified \<Rightarrow> ''verified'' | Failed \<Rightarrow> ''failed'')"
    "prs_node_identity s = pr_node_identity r" "prs_verification_receipt s = pr_verification_receipt r"
  using assms
  by (auto simp: physical_snapshot_def bindR_eq_Inr tier_from_db_str_Inr verification_from_db_str_Inr Let_def
      split: if_splits)

lemma new_hot_row_checks: "cid \<noteq> [] \<Longrightarrow> physical_checks (new_hot_row cid PvPending now)"
  by (simp add: physical_checks_def physical_shape_def)

lemma new_hot_row_pk [simp]: "pr_tier (new_hot_row cid v now) = ''hot''" "pr_cid (new_hot_row cid v now) = cid"
  by (cases v; simp)+

declare new_hot_row.simps [simp del]

definition with_hot ::
  "string \<Rightarrow> datetime \<Rightarrow> physical_residency_model list \<Rightarrow> physical_residency_model list" where
  "with_hot cid now t =
     (if (''hot'', cid) \<in> pr_pk ` set t then t else t @ [new_hot_row cid PvPending now])"

definition physical_ok :: "physical_residency_model list \<Rightarrow> bool" where
  "physical_ok t \<longleftrightarrow> distinct (map pr_pk t) \<and> (\<forall>r \<in> set t. physical_checks r)"

lemma with_hot_ok: "physical_ok t \<Longrightarrow> cid \<noteq> [] \<Longrightarrow> physical_ok (with_hot cid now t)"
  by (auto simp: physical_ok_def with_hot_def new_hot_row_checks image_iff)

lemma set_with_hot: "set t \<subseteq> set (with_hot cid now t)" "(''hot'', cid) \<in> pr_pk ` set (with_hot cid now t)"
  by (auto simp: with_hot_def image_iff)

lemma attach_physical_hot_pending:
  assumes "physical_ok (physical_residencies d)" "cid \<noteq> []"
  shows "attach_physical_hot cid PvPending now d =
           Inr ((), d\<lparr>physical_residencies := with_hot cid now (physical_residencies d)\<rparr>)"
proof -
  let ?d = "d\<lparr>physical_residencies := with_hot cid now (physical_residencies d)\<rparr>"
  have ins: "insert_physical_do_nothing (new_hot_row cid PvPending now) d =
      Inr (if (''hot'', cid) \<in> pr_pk ` set (physical_residencies d) then 0 else 1, ?d)"
    using new_hot_row_checks [OF assms(2), of now] by (simp add: insert_physical_do_nothing_def with_hot_def)
  obtain p where p: "p \<in> set (with_hot cid now (physical_residencies d))" "pr_pk p = (''hot'', cid)"
    using set_with_hot(2) by (metis (no_types, lifting) imageE)
  have ok: "physical_ok (with_hot cid now (physical_residencies d))" using assms by (rule with_hot_ok)
  then have "find_hot cid ?d = Some p"
    using p by (simp add: physical_ok_def phys.find_by_key)
  moreover obtain s where "physical_snapshot p = Inr s"
    using ok p(1) physical_snapshot_checks [of p] by (auto simp: physical_ok_def)
  ultimately show ?thesis by (simp add: attach_physical_hot_def ins)
qed

section \<open>Verification never rebinds\<close>

lemma set_verified_sel [simp]:
  "pr_tier (set_verified n rc now r) = pr_tier r" "pr_cid (set_verified n rc now r) = pr_cid r"
  "pr_verification_state (set_verified n rc now r) = ''verified''"
  "pr_node_identity (set_verified n rc now r) = Some n"
  "pr_verification_receipt (set_verified n rc now r) = Some rc"
  "pr_verified_at (set_verified n rc now r) = Some now"
  by (simp_all add: set_verified_def)

lemma mark_physical_verified_Inr:
  "mark_physical_verified cid n rc now d = Inr (u, d') \<longleftrightarrow>
     count_rows (unverified_hot cid) (physical_residencies d) = 1 \<and>
     d' = d\<lparr>physical_residencies :=
       update_rows (unverified_hot cid) (set_verified n rc now) (physical_residencies d)\<rparr>"
  by (auto simp: mark_physical_verified_def update_unverified_hot_def bindT_eq_Inr)

lemma verified_kept:
  assumes "q \<in> set t" "pr_verification_state q = ''verified''"
  shows "q \<in> set (update_rows (unverified_hot cid) (set_verified n rc now) t)"
  using assms by (intro update_rows_keep) (simp_all add: unverified_hot_def)

text \<open>Applying a verified receipt at publication binds the hot row of the CID to exactly the given
  node and receipt, and no row that was verified before is changed, whichever CID it is for: a
  conflicting receipt is an error.\<close>

theorem apply_hot_verification_never_rebinds:
  assumes "physical_ok (physical_residencies d)"
    and "apply_hot_publication_verification cid (PvVerified n rc) now d = Inr (u, d')"
  shows "(\<exists>p. find_hot cid d' = Some p \<and> pr_verification_state p = ''verified'' \<and>
            pr_node_identity p = Some n \<and> pr_verification_receipt p = Some rc) \<and>
         (\<forall>q \<in> set (physical_residencies d). pr_verification_state q = ''verified'' \<longrightarrow>
            q \<in> set (physical_residencies d'))"
proof -
  have ne: "n \<noteq> []" "rc \<noteq> []"
    using assms(2) by (simp_all add: apply_hot_publication_verification_def split: if_splits)
  obtain p where p1: "find_hot cid d = Some p"
    using assms(2) ne by (cases "find_hot cid d") (simp_all add: apply_hot_publication_verification_def)
  obtain s where p2: "physical_snapshot p = Inr s"
    using assms(2) ne p1
    by (cases "physical_snapshot p") (simp_all add: apply_hot_publication_verification_def liftT_def)
  note p = p1 p2
  have rest: "(if prs_verification_state s \<noteq> Verified then mark_physical_verified cid n rc now
         else if prs_node_identity s = Some n \<and> prs_verification_receipt s = Some rc then returnT ()
         else throwT (corrupt ''conflicting hot physical verification receipt'')) d = Inr (u, d')"
    using assms(2) ne p by (simp add: apply_hot_publication_verification_def)
  note snap = physical_snapshot_Inr [OF p(2)]
  show ?thesis
  proof (cases "prs_verification_state s = Verified")
    case True
    with rest have "d' = d" "pr_node_identity p = Some n" "pr_verification_receipt p = Some rc"
      using snap by (auto split: if_splits)
    with True p snap show ?thesis by auto
  next
    case False
    with rest have d': "d' = d\<lparr>physical_residencies :=
       update_rows (unverified_hot cid) (set_verified n rc now) (physical_residencies d)\<rparr>"
      by (simp add: mark_physical_verified_Inr)
    have "pr_pk p = (''hot'', cid)" using p(1) by (auto dest: phys.find_by_SomeD)
    with False snap(3) have "unverified_hot cid p"
      by (cases "prs_verification_state s") (auto simp: unverified_hot_def)
    moreover have "find_hot cid d' = map_option (\<lambda>r. if unverified_hot cid r then set_verified n rc now r else r)
        (find_hot cid d)"
      using assms(1) unfolding d' by (simp add: physical_ok_def phys.find_by_update)
    ultimately have "find_hot cid d' = Some (set_verified n rc now p)" using p(1) by simp
    with d' show ?thesis by (auto intro: verified_kept)
  qed
qed

section \<open>The residency invariant\<close>

text \<open>
  \<open>residencies_ok\<close>: every content version has a residency row; a residency row is well formed,
  owned by an existing content version, names the content of its object, has a physical copy on its
  tier and a retained reference to it; every reference has an owner version and a physical copy.
\<close>

definition owners :: "db \<Rightarrow> (string \<times> string option) set" where
  "owners d = (\<lambda>r. (ov_id r, ov_object_id r)) ` set (object_versions d)"

definition contents :: "db \<Rightarrow> (string \<times> string) set" where
  "contents d = (\<lambda>r. (obj_id r, obj_cid r)) ` set (objects d)"

definition residency_row_ok ::
  "(string \<times> string option) set \<Rightarrow> (string \<times> string) set \<Rightarrow> physical_residency_model list \<Rightarrow>
   residency_reference_model list \<Rightarrow> version_residency_model \<Rightarrow> bool" where
  "residency_row_ok ow ct ps rs x \<longleftrightarrow>
     residency_checks x \<and> (vr_version_row_id x, Some (vr_object_id x)) \<in> ow \<and>
     (vr_object_id x, vr_cid x) \<in> ct \<and> (vr_primary_tier x, vr_cid x) \<in> pr_pk ` set ps \<and>
     (\<exists>y \<in> set rs. is_retained_of x (vr_version_row_id x) y)"

definition reference_row_ok ::
  "(string \<times> string option) set \<Rightarrow> physical_residency_model list \<Rightarrow> residency_reference_model \<Rightarrow> bool" where
  "reference_row_ok ow ps y \<longleftrightarrow>
     reference_checks y \<and> (rr_version_row_id y, Some (rr_object_id y)) \<in> ow \<and>
     (rr_tier y, rr_cid y) \<in> pr_pk ` set ps"

definition residencies_ok :: "db \<Rightarrow> bool" where
  "residencies_ok d \<longleftrightarrow>
     physical_ok (physical_residencies d) \<and>
     distinct (map vr_version_row_id (version_residencies d)) \<and>
     distinct (map rr_pk (residency_references d)) \<and>
     (\<forall>x \<in> set (version_residencies d).
        residency_row_ok (owners d) (contents d) (physical_residencies d) (residency_references d) x) \<and>
     (\<forall>y \<in> set (residency_references d). reference_row_ok (owners d) (physical_residencies d) y) \<and>
     (\<forall>(i, oid) \<in> owners d. oid \<noteq> None \<longrightarrow> i \<in> vr_version_row_id ` set (version_residencies d))"

lemma residencies_ok_cong:
  assumes "owners d' = owners d" "contents d' = contents d"
    and "physical_residencies d' = physical_residencies d"
    and "version_residencies d' = version_residencies d"
    and "residency_references d' = residency_references d"
  shows "residencies_ok d' = residencies_ok d"
  unfolding residencies_ok_def assms ..

lemma owned_by_True: "owned_by (\<lambda>_. True) d i oid \<longleftrightarrow> (i, Some oid) \<in> owners d"
  by (simp add: owned_by_def owners_def image_iff eq_commute)

lemma owners_functional:
  "distinct (map ov_id (object_versions d)) \<Longrightarrow> (i, a) \<in> owners d \<Longrightarrow> (i, b) \<in> owners d \<Longrightarrow> a = b"
  unfolding owners_def by (rule keyed_pair_unique)

text \<open>The owner pairs that a deletion keeps are those the cascade does not reach.\<close>

lemma owners_delete:
  "distinct (map ov_id (object_versions d)) \<Longrightarrow>
   (i, Some oid) \<in> owners (delete_object_versions P d) \<longleftrightarrow> (i, Some oid) \<in> owners d \<and> \<not> owned_by P d i oid"
  unfolding owners_def owned_by_def delete_object_versions_def
  by (simp add: keyed_pair_delete del: set_delete_rows)

lemma residencies_ok_delete:
  assumes ok: "residencies_ok d" and dist: "distinct (map ov_id (object_versions d))"
  shows "residencies_ok (delete_object_versions P d)"
proof -
  let ?d = "delete_object_versions P d"
  note own = owners_delete [OF dist, of _ _ P]
  have tabs: "physical_residencies ?d = physical_residencies d" "contents ?d = contents d"
    by (simp_all add: delete_object_versions_def contents_def)
  have vr: "set (version_residencies ?d) =
      {x \<in> set (version_residencies d). \<not> owned_by P d (vr_version_row_id x) (vr_object_id x)}"
    and rr: "set (residency_references ?d) =
      {y \<in> set (residency_references d). \<not> owned_by P d (rr_version_row_id y) (rr_object_id y)}"
    by (simp_all add: delete_object_versions_def)
  have res: "residency_row_ok (owners ?d) (contents ?d) (physical_residencies ?d) (residency_references ?d) x"
    if "x \<in> set (version_residencies ?d)" for x
  proof -
    from that have x: "x \<in> set (version_residencies d)"
      and free: "\<not> owned_by P d (vr_version_row_id x) (vr_object_id x)" using vr by simp_all
    with ok have row: "residency_row_ok (owners d) (contents d) (physical_residencies d) (residency_references d) x"
      by (simp add: residencies_ok_def)
    then obtain y where y: "y \<in> set (residency_references d)" "is_retained_of x (vr_version_row_id x) y"
      unfolding residency_row_ok_def by metis
    then have "y \<in> set (residency_references ?d)" using free by (simp add: rr is_retained_of_def)
    with row y free show ?thesis unfolding residency_row_ok_def tabs own by metis
  qed
  have ref: "reference_row_ok (owners ?d) (physical_residencies ?d) y"
    if "y \<in> set (residency_references ?d)" for y
    using that ok rr unfolding residencies_ok_def reference_row_ok_def tabs own by auto
  have cov: "i \<in> vr_version_row_id ` set (version_residencies ?d)" if "(i, Some oid) \<in> owners ?d" for i oid
  proof -
    have o: "(i, Some oid) \<in> owners d" "\<not> owned_by P d i oid" using that by (simp_all add: own)
    with ok have "i \<in> vr_version_row_id ` set (version_residencies d)" by (auto simp: residencies_ok_def)
    then obtain x where x: "x \<in> set (version_residencies d)" "vr_version_row_id x = i"
      by (metis (no_types, lifting) imageE)
    with ok have "(i, Some (vr_object_id x)) \<in> owners d" by (auto simp: residencies_ok_def residency_row_ok_def)
    with o(1) have "vr_object_id x = oid" using owners_functional [OF dist] by blast
    with x o(2) have "x \<in> set (version_residencies ?d)" by (simp add: vr)
    with x(2) show ?thesis by blast
  qed
  have "distinct (map vr_version_row_id (version_residencies ?d))" "distinct (map rr_pk (residency_references ?d))"
    using ok by (simp_all add: residencies_ok_def delete_object_versions_def distinct_map_delete_rows)
  with ok res ref cov tabs show ?thesis unfolding residencies_ok_def by auto
qed

text \<open>Appending a content version and attaching its hot residency.\<close>

definition attached ::
  "object_version_model \<Rightarrow> object_model \<Rightarrow> datetime \<Rightarrow> db \<Rightarrow> db" where
  "attached v ob now d =
     d\<lparr>physical_residencies := with_hot (obj_cid ob) now (physical_residencies d),
       version_residencies := version_residencies d @ [hot_residency v ob now],
       residency_references := residency_references d @ [retained_reference v ob now]\<rparr>"

lemma attached_tables [simp]:
  "buckets (attached v ob now d) = buckets d" "objects (attached v ob now d) = objects d"
  "object_versions (attached v ob now d) = object_versions d"
  "object_tags (attached v ob now d) = object_tags d"
  "physical_residencies (attached v ob now d) = with_hot (obj_cid ob) now (physical_residencies d)"
  "version_residencies (attached v ob now d) = version_residencies d @ [hot_residency v ob now]"
  "residency_references (attached v ob now d) = residency_references d @ [retained_reference v ob now]"
  by (simp_all add: attached_def)

lemma hot_residency_sel [simp]:
  "vr_version_row_id (hot_residency v ob now) = ov_id v" "vr_object_id (hot_residency v ob now) = obj_id ob"
  "vr_primary_tier (hot_residency v ob now) = ''hot''" "vr_cid (hot_residency v ob now) = obj_cid ob"
  "residency_checks (hot_residency v ob now)"
  by (simp_all add: hot_residency_def residency_checks_def)

lemma retained_reference_sel [simp]:
  "rr_version_row_id (retained_reference v ob now) = ov_id v" "rr_object_id (retained_reference v ob now) = obj_id ob"
  "rr_tier (retained_reference v ob now) = ''hot''" "rr_cid (retained_reference v ob now) = obj_cid ob"
  "rr_owner_kind (retained_reference v ob now) = ''version''" "rr_owner_id (retained_reference v ob now) = ov_id v"
  "rr_reason (retained_reference v ob now) = ''retained_version''"
  "reference_checks (retained_reference v ob now)"
  "is_retained_of (hot_residency v ob now) (ov_id v) (retained_reference v ob now)"
  by (simp_all add: retained_reference_def reference_checks_def is_retained_of_def)

lemma reference_fresh:
  assumes "residencies_ok d" "v \<notin> fst ` owners d" "y \<in> set (residency_references d)"
  shows "rr_pk y \<noteq> (''version'', v, ''retained_version'', ''hot'', c)"
proof -
  have "reference_checks y" "(rr_version_row_id y, Some (rr_object_id y)) \<in> owners d"
    using assms(1,3) by (auto simp: residencies_ok_def reference_row_ok_def)
  with assms(2) show ?thesis by (auto simp: reference_checks_def image_iff)
qed

lemma residency_fresh:
  assumes "residencies_ok d" "v \<notin> fst ` owners d"
  shows "v \<notin> vr_version_row_id ` set (version_residencies d)"
proof
  assume "v \<in> vr_version_row_id ` set (version_residencies d)"
  then obtain x where "x \<in> set (version_residencies d)" "vr_version_row_id x = v"
    by (metis (no_types, lifting) imageE)
  with assms(1) have "(v, Some (vr_object_id x)) \<in> owners d"
    by (auto simp: residencies_ok_def residency_row_ok_def)
  with assms(2) show False by (metis fst_conv imageI)
qed

lemma residencies_ok_attached:
  assumes ok: "residencies_ok d0" and fresh: "ov_id v \<notin> fst ` owners d0"
    and d: "owners d = insert (ov_id v, Some (obj_id ob)) (owners d0)" "contents d = contents d0"
      "physical_residencies d = physical_residencies d0" "version_residencies d = version_residencies d0"
      "residency_references d = residency_references d0"
    and ob: "(obj_id ob, obj_cid ob) \<in> contents d0" "obj_cid ob \<noteq> []"
  shows "residencies_ok (attached v ob now d)"
proof -
  let ?d = "attached v ob now d"
  have same: "owners ?d = insert (ov_id v, Some (obj_id ob)) (owners d0)" "contents ?d = contents d0"
    using d(1,2) by (simp_all add: owners_def contents_def)
  have phys: "physical_ok (physical_residencies d0)" using ok by (simp add: residencies_ok_def)
  let ?ps = "with_hot (obj_cid ob) now (physical_residencies d0)"
  have sub: "pr_pk ` set (physical_residencies d0) \<subseteq> pr_pk ` set ?ps"
    using set_with_hot(1) by (rule image_mono)
  have old: "residency_row_ok (owners ?d) (contents ?d) ?ps (residency_references ?d) x"
    if "x \<in> set (version_residencies d0)" for x
  proof -
    have "residency_row_ok (owners d0) (contents d0) (physical_residencies d0) (residency_references d0) x"
      using ok that by (simp add: residencies_ok_def)
    with sub same d(5) show ?thesis unfolding residency_row_ok_def by auto
  qed
  have new: "residency_row_ok (owners ?d) (contents ?d) ?ps (residency_references ?d) (hot_residency v ob now)"
    using ob(1) same set_with_hot(2) by (simp add: residency_row_ok_def)
  have refs: "reference_row_ok (owners ?d) ?ps y" if "y \<in> set (residency_references ?d)" for y
    using that ok same sub set_with_hot(2) d(5)
    by (auto simp: residencies_ok_def reference_row_ok_def)
  note notin = residency_fresh [OF ok fresh]
  have "(''version'', ov_id v, ''retained_version'', ''hot'', obj_cid ob) \<notin> rr_pk ` set (residency_references d0)"
    by (rule notI, erule imageE, drule sym, erule (1) notE [OF reference_fresh [OF ok fresh]])
  with ok notin d(4,5) have "distinct (map vr_version_row_id (version_residencies ?d))"
    "distinct (map rr_pk (residency_references ?d))"
    by (simp_all add: residencies_ok_def)
  moreover have "\<forall>(i, oid) \<in> owners ?d. oid \<noteq> None \<longrightarrow> i \<in> vr_version_row_id ` set (version_residencies ?d)"
    using ok same d(4) by (auto simp: residencies_ok_def)
  ultimately show ?thesis
    using old new refs with_hot_ok [OF phys ob(2)] d(3,4) unfolding residencies_ok_def by auto
qed

section \<open>Resolving and attaching\<close>

text \<open>A content version and its object, as the version index links them.\<close>

definition content_link :: "db \<Rightarrow> object_version_model \<Rightarrow> object_model \<Rightarrow> bool" where
  "content_link d v ob \<longleftrightarrow>
     v \<in> set (object_versions d) \<and> ob \<in> set (objects d) \<and> ov_kind v = ''object'' \<and>
     ov_object_id v = Some (obj_id ob) \<and> object_at (ov_bucket v) (ov_key v) ob \<and> ov_id v \<noteq> []"

lemma find_linked:
  assumes "content_link d v ob" "distinct (map ov_id (object_versions d))" "distinct (map obj_id (objects d))"
  shows "find_version (ov_id v) (object_versions d) = Some v" "find_object (obj_id ob) (objects d) = Some ob"
  using assms by (simp_all add: content_link_def ver.find_by_key obj.find_by_key)

lemma residency_of_version:
  assumes ok: "residencies_ok d" and dist: "distinct (map ov_id (object_versions d))"
    and owner: "(i, Some oid) \<in> owners d"
  obtains x where "find_residency i (version_residencies d) = Some x" "vr_version_row_id x = i"
    "vr_object_id x = oid"
    "residency_row_ok (owners d) (contents d) (physical_residencies d) (residency_references d) x"
proof -
  have "i \<in> vr_version_row_id ` set (version_residencies d)"
    using ok owner by (auto simp: residencies_ok_def)
  then obtain x where x: "x \<in> set (version_residencies d)" "vr_version_row_id x = i"
    by (metis (no_types, lifting) imageE)
  have row: "residency_row_ok (owners d) (contents d) (physical_residencies d) (residency_references d) x"
    using ok x by (simp add: residencies_ok_def)
  then have "(i, Some (vr_object_id x)) \<in> owners d" using x by (simp add: residency_row_ok_def)
  with owner have "vr_object_id x = oid" using owners_functional [OF dist] by blast
  moreover have "find_residency i (version_residencies d) = Some x"
    using ok x by (simp add: residencies_ok_def resid.find_by_key)
  ultimately show ?thesis using that x row by blast
qed

lemma contents_object:
  assumes "distinct (map obj_id (objects d))" "ob \<in> set (objects d)" "(obj_id ob, c) \<in> contents d"
  shows "c = obj_cid ob"
proof -
  have "(obj_id ob, obj_cid ob) \<in> contents d" using assms(2) by (simp add: contents_def)
  with assms(3) show ?thesis unfolding contents_def by (rule keyed_pair_unique [OF assms(1)])
qed

lemma owners_link: "content_link d v ob \<Longrightarrow> (ov_id v, Some (obj_id ob)) \<in> owners d"
  unfolding owners_def by (rule image_eqI [of _ _ v]) (simp_all add: content_link_def)

lemma resolve_version_residency_total:
  assumes ok: "residencies_ok d" and link: "content_link d v ob"
    and dist: "distinct (map ov_id (object_versions d))" "distinct (map obj_id (objects d))"
  obtains r where "resolve_version_residency (ov_id v) d = Inr r"
    "rvr_identity r = \<lparr>vri_version_row_id = ov_id v, vri_object_id = obj_id ob, vri_cid = obj_cid ob\<rparr>"
    "loc_cid (rvr_primary r) = obj_cid ob" "prs_location (rvr_physical r) = rvr_primary r"
    "(loc_tier (rvr_primary r), rvr_storage_class r) \<in> {(Hot, Standard), (Cold, StandardIa)}"
proof -
  obtain x where x: "find_residency (ov_id v) (version_residencies d) = Some x" "vr_version_row_id x = ov_id v"
    "vr_object_id x = obj_id ob"
    "residency_row_ok (owners d) (contents d) (physical_residencies d) (residency_references d) x"
    using residency_of_version [OF ok dist(1) owners_link [OF link]] by metis
  have ob: "ob \<in> set (objects d)" using link by (simp add: content_link_def)
  have cid: "vr_cid x = obj_cid ob"
    using contents_object [OF dist(2) ob, of "vr_cid x"] x(3,4) by (simp add: residency_row_ok_def)
  obtain t c where tc: "vr_primary_tier x = tier_as_db_str t" "vr_storage_class x = class_as_db_str c"
    "(t, c) \<in> {(Hot, Standard), (Cold, StandardIa)}" "vr_revision x > 0"
    using x(4) unfolding residency_row_ok_def residency_checks_def
    by (metis class_as_db_str.simps insert_iff prod.inject singletonD tier_as_db_str.simps)
  obtain p where p: "find_physical (vr_primary_tier x, vr_cid x) (physical_residencies d) = Some p"
    using x(4) phys.find_by_None unfolding residency_row_ok_def by (metis (no_types, lifting) not_Some_eq)
  then have p': "p \<in> set (physical_residencies d)" "pr_pk p = (vr_primary_tier x, vr_cid x)"
    using phys.find_by_SomeD by blast+
  then have "physical_checks p" using ok by (simp add: residencies_ok_def physical_ok_def)
  then obtain s where s: "physical_snapshot p = Inr s" by (rule physical_snapshot_checks)
  note snap = physical_snapshot_Inr(1,2) [OF s]
  have "loc_tier (prs_location s) = t"
    using snap(1) p'(2) tc(1) by (cases t; cases "loc_tier (prs_location s)") simp_all
  then have loc: "prs_location s = \<lparr>loc_tier = t, loc_cid = obj_cid ob\<rparr>"
    using snap(2) p'(2) cid by simp
  have "resolve_version_residency (ov_id v) d =
      Inr \<lparr>rvr_identity = \<lparr>vri_version_row_id = ov_id v, vri_object_id = obj_id ob, vri_cid = obj_cid ob\<rparr>,
        rvr_primary = \<lparr>loc_tier = t, loc_cid = loc_cid (prs_location s)\<rparr>, rvr_storage_class = c,
        rvr_revision = vr_revision x, rvr_physical = s\<rparr>"
    using link x tc p s find_linked [OF link dist] cid
    by (auto simp: resolve_version_residency_def content_link_def object_at_def)
  with that tc(3) loc show ?thesis by simp
qed

lemma attach_hot_pending:
  assumes ok: "residencies_ok d0" and fresh: "ov_id v \<notin> fst ` owners d0"
    and d: "owners d = insert (ov_id v, Some (obj_id ob)) (owners d0)" "contents d = contents d0"
      "physical_residencies d = physical_residencies d0" "version_residencies d = version_residencies d0"
      "residency_references d = residency_references d0"
    and link: "content_link d v ob" and ne: "obj_id ob \<noteq> []" "obj_cid ob \<noteq> []"
    and dist: "distinct (map ov_id (object_versions d))" "distinct (map obj_id (objects d))"
  obtains r where "attach_hot_in_transaction
      \<lparr>vri_version_row_id = ov_id v, vri_object_id = obj_id ob, vri_cid = obj_cid ob\<rparr> PvPending now d =
      Inr (r, attached v ob now d)"
proof -
  let ?i = "\<lparr>vri_version_row_id = ov_id v, vri_object_id = obj_id ob, vri_cid = obj_cid ob\<rparr>"
  let ?d1 = "d\<lparr>physical_residencies := with_hot (obj_cid ob) now (physical_residencies d)\<rparr>"
  let ?d2 = "?d1\<lparr>version_residencies := version_residencies d @ [hot_residency v ob now]\<rparr>"
  have val: "validate_identity ?i = Inr ()" "lock_and_validate_version ?i d = Inr (v, ob)"
    using link ne find_linked [OF link dist]
    by (auto simp: validate_identity_def lock_and_validate_version_def content_link_def object_at_def)
  have phys: "physical_ok (physical_residencies d)" using ok d(3) by (simp add: residencies_ok_def)
  have ct: "(obj_id ob, obj_cid ob) \<in> contents d" using link by (simp add: content_link_def contents_def)
  have notin: "ov_id v \<notin> vr_version_row_id ` set (version_residencies d)"
    unfolding d(4) by (rule residency_fresh [OF ok fresh])
  then have nores: "find_residency (ov_id v) (version_residencies ?d1) = None"
    by (simp add: resid.find_by_None)
  have own: "owned_by (\<lambda>_. True) ?d1 (ov_id v) (obj_id ob)" "owned_by (\<lambda>_. True) ?d2 (ov_id v) (obj_id ob)"
    using d(1) by (simp_all add: owned_by_True owners_def)
  have ctx: "\<exists>o' \<in> set (objects d). obj_id o' = obj_id ob \<and> obj_cid o' = obj_cid ob"
    using link by (auto simp: content_link_def)
  have ins1: "insert_version_residency (hot_residency v ob now) ?d1 = Inr ((), ?d2)"
    using notin own(1) ctx set_with_hot(2) [of "obj_cid ob" now "physical_residencies d"]
    by (simp add: insert_version_residency_def)
  have "(''version'', ov_id v, ''retained_version'', ''hot'', obj_cid ob)
      \<notin> rr_pk ` set (residency_references d)"
    unfolding d(5) by (rule notI, erule imageE, drule sym, erule (1) notE [OF reference_fresh [OF ok fresh]])
  then have ins2: "insert_reference_do_nothing (retained_reference v ob now) ?d2 = Inr (1, attached v ob now d)"
    using own(2) ctx set_with_hot(2) [of "obj_cid ob" now "physical_residencies d"]
    by (simp add: insert_reference_do_nothing_def attached_def)
  have "residencies_ok (attached v ob now d)"
    using residencies_ok_attached [OF ok fresh d] ct d(2) ne(2) by simp
  moreover have "content_link (attached v ob now d) v ob" using link by (simp add: content_link_def)
  ultimately obtain r where "resolve_version_residency (ov_id v) (attached v ob now d) = Inr r"
    using dist by (metis attached_tables(2,3) resolve_version_residency_total)
  then show ?thesis
    using that val nores ins1 ins2 attach_physical_hot_pending [OF phys ne(2), of now]
    by (simp add: attach_hot_in_transaction_def)
qed

section \<open>A database with one content version\<close>

definition sample_object :: object_model where
  "sample_object = object_of_row \<lparr>lor_id = ''o1'', lor_bucket = ''b'', lor_key = ''k'', lor_cid = ''c1'',
     lor_size = 1, lor_content_type = None, lor_etag = ''e'', lor_metadata = None, lor_encrypted = False,
     lor_key_wrap = None, lor_sse_c_key_fingerprint = None, lor_multipart = False, lor_created_at = 0\<rparr> True"

definition sample_version :: object_version_model where
  "sample_version = \<lparr>ov_id = ''v1'', ov_bucket = ''b'', ov_key = ''k'', ov_version_id = None,
     ov_kind = ''object'', ov_object_id = Some ''o1'', ov_sequence = 1, ov_is_latest = True,
     ov_lifecycle_age_started_at = 0, ov_became_noncurrent_at = None, ov_created_at = 0,
     ov_updated_at = 0\<rparr>"

definition sample_db :: db where
  "sample_db = attached sample_version sample_object 0
     \<lparr>buckets = [\<lparr>bucket_name = ''b'', bucket_created_at = 0, bucket_owner = None,
         bucket_versioning_status = Some ''Enabled''\<rparr>],
      objects = [sample_object], object_versions = [sample_version], object_tags = [],
      physical_residencies = [], version_residencies = [], residency_references = [],
      pin_leases = [], pin_lease_targets = []\<rparr>"

lemma sample_db_tables [simp]:
  "buckets sample_db = [\<lparr>bucket_name = ''b'', bucket_created_at = 0, bucket_owner = None,
         bucket_versioning_status = Some ''Enabled''\<rparr>]"
  "objects sample_db = [sample_object]" "object_versions sample_db = [sample_version]"
  "physical_residencies sample_db = [new_hot_row ''c1'' PvPending 0]"
  "version_residencies sample_db = [hot_residency sample_version sample_object 0]"
  "residency_references sample_db = [retained_reference sample_version sample_object 0]"
  by (simp_all add: sample_db_def with_hot_def sample_object_def object_of_row_def)

lemma sample_sel [simp]:
  "ov_id sample_version = ''v1''" "ov_bucket sample_version = ''b''" "ov_key sample_version = ''k''"
  "ov_kind sample_version = ''object''" "ov_object_id sample_version = Some ''o1''"
  "ov_sequence sample_version = 1" "ov_is_latest sample_version" "ov_version_id sample_version = None"
  "ov_became_noncurrent_at sample_version = None"
  "obj_id sample_object = ''o1''" "obj_bucket sample_object = ''b''" "obj_key sample_object = ''k''"
  "obj_cid sample_object = ''c1''" "obj_is_latest sample_object"
  by (simp_all add: sample_version_def sample_object_def object_of_row_def)

lemma sample_physical_ok: "physical_ok [new_hot_row ''c1'' PvPending 0]"
  by (simp add: physical_ok_def new_hot_row_checks)

lemma sample_residencies_ok: "residencies_ok sample_db"
  by (simp add: residencies_ok_def sample_physical_ok owners_def contents_def residency_row_ok_def
      reference_row_ok_def is_retained_of_def)

section \<open>Properties of the residency store\<close>

theorem apply_hot_verification_never_rebinds_witness:
  "\<exists>d'. apply_hot_publication_verification ''c1'' (PvVerified ''n'' ''r'') 5 sample_db = Inr ((), d') \<and>
     (\<exists>p. find_hot ''c1'' d' = Some p \<and> pr_verification_state p = ''verified'' \<and>
        pr_node_identity p = Some ''n'' \<and> pr_verification_receipt p = Some ''r'')"
proof -
  have row: "find_hot ''c1'' sample_db = Some (new_hot_row ''c1'' PvPending 0)"
    "physical_snapshot (new_hot_row ''c1'' PvPending 0) = Inr \<lparr>prs_location = \<lparr>loc_tier = Hot, loc_cid = ''c1''\<rparr>,
       prs_verification_state = Pending, prs_node_identity = None, prs_verification_receipt = None,
       prs_verified_at = None\<rparr>"
    "count_rows (unverified_hot ''c1'') (physical_residencies sample_db) = 1"
    by (simp_all add: find_physical_def one_row_def physical_snapshot_def new_hot_row.simps tier_from_db_str_def
        verification_from_db_str_def count_rows_def unverified_hot_def Let_def)
  obtain d' where d': "mark_physical_verified ''c1'' ''n'' ''r'' 5 sample_db = Inr ((), d')"
    using row(3) mark_physical_verified_Inr by metis
  then have "apply_hot_publication_verification ''c1'' (PvVerified ''n'' ''r'') 5 sample_db = Inr ((), d')"
    using row by (simp add: apply_hot_publication_verification_def)
  moreover from this have "\<exists>p. find_hot ''c1'' d' = Some p \<and> pr_verification_state p = ''verified'' \<and>
      pr_node_identity p = Some ''n'' \<and> pr_verification_receipt p = Some ''r''"
    using apply_hot_verification_never_rebinds [of sample_db] sample_physical_ok by simp
  ultimately show ?thesis by blast
qed

text \<open>A transition hold that was newly attached is released by the matching release, which returns
  the references to exactly what they were.\<close>

theorem release_after_attach_hold:
  assumes "attach_transition_hold_in_transaction tid reason i loc now d = Inr (True, d')"
  shows "release_transition_hold_in_transaction tid reason loc d' = Inr (True, d)"
proof -
  let ?y = "\<lparr>rr_owner_kind = ''transition'', rr_owner_id = tid, rr_reason = reason_as_db_str reason,
     rr_version_row_id = vri_version_row_id i, rr_object_id = vri_object_id i,
     rr_tier = tier_as_db_str (loc_tier loc), rr_cid = loc_cid loc, rr_created_at = now\<rparr>"
  have guard: "tid \<noteq> [] \<and> (reason = TransitionStaging \<or> reason = TransitionCleanupHold)"
    and ins: "\<exists>n. insert_reference_do_nothing ?y d = Inr (n, d') \<and> n = 1"
    using assms by (simp_all add: attach_transition_hold_in_transaction_def bindT_eq_Inr)
  from ins have fresh: "rr_pk ?y \<notin> rr_pk ` set (residency_references d)"
    and d': "d' = d\<lparr>residency_references := residency_references d @ [?y]\<rparr>"
    by (simp_all add: insert_reference_do_nothing_def split: if_splits)
  have none: "\<not> is_hold tid reason loc r" if "r \<in> set (residency_references d)" for r
  proof
    assume "is_hold tid reason loc r"
    then have "rr_pk r = rr_pk ?y" by (simp add: is_hold_def)
    with that fresh show False by (metis (no_types, lifting) imageI)
  qed
  have "is_hold tid reason loc ?y" by (simp add: is_hold_def)
  with none have "delete_rows (is_hold tid reason loc) (residency_references d @ [?y]) = residency_references d"
    "count_rows (is_hold tid reason loc) (residency_references d @ [?y]) = 1"
    by (simp_all add: delete_rows_def count_rows_def filter_id_conv filter_empty_conv)
  with guard d' show ?thesis by (simp add: release_transition_hold_in_transaction_def)
qed

theorem release_after_attach_hold_witness:
  "\<exists>d'. attach_transition_hold_in_transaction ''t1'' TransitionStaging
       \<lparr>vri_version_row_id = ''v1'', vri_object_id = ''o1'', vri_cid = ''c1''\<rparr> \<lparr>loc_tier = Hot, loc_cid = ''c1''\<rparr> 7 sample_db =
       Inr (True, d') \<and>
     release_transition_hold_in_transaction ''t1'' TransitionStaging \<lparr>loc_tier = Hot, loc_cid = ''c1''\<rparr> d' =
       Inr (True, sample_db)"
proof -
  let ?i = "\<lparr>vri_version_row_id = ''v1'', vri_object_id = ''o1'', vri_cid = ''c1''\<rparr>"
  have "lock_and_validate_version ?i sample_db = Inr (sample_version, sample_object)"
    by (simp add: lock_and_validate_version_def find_version_def find_object_def one_row_def)
  then obtain d' where "attach_transition_hold_in_transaction ''t1'' TransitionStaging ?i
      \<lparr>loc_tier = Hot, loc_cid = ''c1''\<rparr> 7 sample_db = Inr (True, d')"
    by (simp add: attach_transition_hold_in_transaction_def validate_identity_def find_physical_def
        one_row_def insert_reference_do_nothing_def reference_checks_def owned_by_def)
  with release_after_attach_hold show ?thesis by blast
qed

lemma retained_unique:
  assumes "residencies_ok d" "y \<in> set (residency_references d)" "z \<in> set (residency_references d)"
    "is_retained_of x v y" "is_retained_of x v z"
  shows "z = y"
proof -
  have "rr_pk z = rr_pk y" using assms(4,5) by (simp add: is_retained_of_def)
  with assms(1-3) show ?thesis unfolding residencies_ok_def distinct_map by (blast dest: inj_onD)
qed

text \<open>Releasing the reference of a content version always finds it, removes exactly that one
  reference, and leaves every transition hold in place.\<close>

theorem release_version_reference_exact:
  assumes ok: "residencies_ok d" and dist: "distinct (map ov_id (object_versions d))"
    and v: "v \<in> set (object_versions d)" "ov_object_id v = Some oid"
  shows "\<exists>d' y. release_version_reference_in_transaction (ov_id v) d = Inr (True, d') \<and>
           y \<in> set (residency_references d) \<and> rr_owner_kind y = ''version'' \<and> rr_owner_id y = ov_id v \<and>
           residency_references d' = filter (\<lambda>z. z \<noteq> y) (residency_references d) \<and>
           version_residencies d' = version_residencies d"
proof -
  have "(ov_id v, Some oid) \<in> owners d" unfolding owners_def using v by (intro image_eqI [of _ _ v]) simp_all
  then obtain x where x: "find_residency (ov_id v) (version_residencies d) = Some x" "vr_version_row_id x = ov_id v"
    "residency_row_ok (owners d) (contents d) (physical_residencies d) (residency_references d) x"
    using residency_of_version [OF ok dist] by metis
  then obtain y where y: "y \<in> set (residency_references d)" "is_retained_of x (ov_id v) y"
    unfolding residency_row_ok_def by metis
  have uniq: "z = y" if "z \<in> set (residency_references d)" "is_retained_of x (ov_id v) z" for z
    using retained_unique [OF ok y(1) that(1) y(2) that(2)] .
  have "distinct (residency_references d)" using ok by (simp add: residencies_ok_def distinct_map)
  then have one: "count_rows (is_retained_of x (ov_id v)) (residency_references d) = 1"
    using y uniq by (rule count_rows_eq_1)
  have del: "delete_rows (is_retained_of x (ov_id v)) (residency_references d) =
      filter (\<lambda>z. z \<noteq> y) (residency_references d)"
    unfolding delete_rows_def using uniq y(2) by (intro filter_cong refl) metis
  have "release_version_reference_in_transaction (ov_id v) d =
      Inr (True, d\<lparr>residency_references := filter (\<lambda>z. z \<noteq> y) (residency_references d)\<rparr>)"
    using x(1) one del by (simp add: release_version_reference_in_transaction_def)
  with y show ?thesis
    by (intro exI [of _ "d\<lparr>residency_references := filter (\<lambda>z. z \<noteq> y) (residency_references d)\<rparr>"] exI [of _ y])
      (simp add: is_retained_of_def)
qed

theorem release_version_reference_exact_witness:
  "\<exists>d' y. release_version_reference_in_transaction (ov_id sample_version) sample_db = Inr (True, d') \<and>
     y \<in> set (residency_references sample_db) \<and> rr_owner_kind y = ''version'' \<and>
     rr_owner_id y = ov_id sample_version \<and>
     residency_references d' = filter (\<lambda>z. z \<noteq> y) (residency_references sample_db) \<and>
     version_residencies d' = version_residencies sample_db"
  by (rule release_version_reference_exact [where oid = "''o1''"]) (simp_all add: sample_residencies_ok)

text \<open>The location a content version is served from always has a known reference, so an observer
  of the summary never sees a primary copy as unreferenced.\<close>

theorem primary_location_is_referenced:
  assumes ok: "residencies_ok d" and x: "x \<in> set (version_residencies d)"
    and loc: "vr_primary_tier x = tier_as_db_str (loc_tier loc)" "vr_cid x = loc_cid loc"
  shows "has_known_references (reference_summary_in_transaction loc d)"
proof -
  obtain y where y: "y \<in> set (residency_references d)" "is_retained_of x (vr_version_row_id x) y"
    using ok x unfolding residencies_ok_def residency_row_ok_def by metis
  with loc have "count_reason loc RetainedVersion d \<noteq> 0"
    unfolding count_reason_def count_rows_0 is_retained_of_def by metis
  then show ?thesis
    by (simp add: has_known_references_def reference_summary_in_transaction_def Let_def)
qed

theorem primary_location_is_referenced_witness:
  "has_known_references (reference_summary_in_transaction \<lparr>loc_tier = Hot, loc_cid = ''c1''\<rparr> sample_db)"
  by (rule primary_location_is_referenced [OF sample_residencies_ok,
        of "hot_residency sample_version sample_object 0"]) simp_all

text \<open>C18: A read source is the client of the version's own tier: a cold version is served only by the
  configured cold node, restricted to local reads, with a verified receipt that names the exact
  CID and the node the client reports when it is asked; a verified copy of either tier is served only
  by the node recorded with it; a cold read never falls back to hot.\<close>

theorem resolve_read_source_sound:
  assumes "resolve_read_source receipt_from_str cid_parse rpc_id tc r = Inr c"
  shows "prs_location (rvr_physical r) = rvr_primary r \<and> vri_cid (rvr_identity r) = loc_cid (rvr_primary r) \<and>
    (loc_tier (rvr_primary r) = Hot \<longrightarrow> c = tc_hot tc) \<and>
    (loc_tier (rvr_primary r) = Cold \<longrightarrow>
       map_option with_local_reads_only (tc_cold tc) = Some c \<and> kc_local_reads_only c \<and>
       prs_verification_state (rvr_physical r) = Verified \<and>
       (\<exists>text rc. prs_verification_receipt (rvr_physical r) = Some text \<and> receipt_from_str text = Some rc \<and>
          cid_parse (lrv_cid rc) = cid_parse (vri_cid (rvr_identity r)) \<and>
          cid_parse (vri_cid (rvr_identity r)) \<noteq> None \<and> rpc_id (kc_base_url c) = Inr (lrv_node_identity rc))) \<and>
    (prs_verification_state (rvr_physical r) = Verified \<longrightarrow>
       (\<exists>node. rpc_id (kc_base_url c) = Inr node \<and> prs_node_identity (rvr_physical r) = Some node))"
proof -
  obtain client where cl: "client_for_tier tc (loc_tier (rvr_primary r)) = Inr client"
    using assms by (cases "client_for_tier tc (loc_tier (rvr_primary r))") (simp_all add: resolve_read_source_def)
  have loc: "prs_location (rvr_physical r) = rvr_primary r" "vri_cid (rvr_identity r) = loc_cid (rvr_primary r)"
    using assms cl by (simp_all add: resolve_read_source_def split: if_splits)
  have node: "\<exists>node. rpc_id (kc_base_url client) = Inr node \<and> prs_node_identity (rvr_physical r) = Some node"
    if "prs_verification_state (rvr_physical r) = Verified"
    using assms cl loc that
    by (simp add: resolve_read_source_def bindR_eq_Inr local_node_identity_def split: sum.splits if_splits)
  show ?thesis
  proof (cases "loc_tier (rvr_primary r)")
    case Hot
    then have "c = client" using assms cl loc by (simp add: resolve_read_source_def bindR_eq_Inr)
    with Hot cl loc node show ?thesis by (simp add: client_for_tier_def)
  next
    case Cold
    then have c: "c = with_local_reads_only client"
      and v: "prs_verification_state (rvr_physical r) = Verified"
      and rec: "validate_cold_receipt receipt_from_str cid_parse (vri_cid (rvr_identity r))
                  (prs_node_identity (rvr_physical r)) (prs_verification_receipt (rvr_physical r)) = Inr ()"
      using assms cl loc by (simp_all add: resolve_read_source_def bindR_eq_Inr split: if_splits)
    from rec have "\<exists>text rc. prs_verification_receipt (rvr_physical r) = Some text \<and> receipt_from_str text = Some rc \<and>
          cid_parse (lrv_cid rc) = cid_parse (vri_cid (rvr_identity r)) \<and> cid_parse (vri_cid (rvr_identity r)) \<noteq> None \<and>
          prs_node_identity (rvr_physical r) = Some (lrv_node_identity rc)"
      by (simp add: validate_cold_receipt_def bindR_eq_Inr bind_eq_Some_conv split: if_splits) metis
    then have "\<exists>text rc. prs_verification_receipt (rvr_physical r) = Some text \<and> receipt_from_str text = Some rc \<and>
          cid_parse (lrv_cid rc) = cid_parse (vri_cid (rvr_identity r)) \<and> cid_parse (vri_cid (rvr_identity r)) \<noteq> None \<and>
          rpc_id (kc_base_url client) = Inr (lrv_node_identity rc)"
      using node [OF v] by fastforce
    with Cold c v cl loc node show ?thesis
      by (simp add: client_for_tier_def with_local_reads_only_def)
  qed
qed

theorem resolve_read_source_sound_witness:
  "resolve_read_source (\<lambda>_. Some \<lparr>lrv_node_identity = ''n'', lrv_cid = ''c''\<rparr>) Some (\<lambda>_. Inr ''n'')
     \<lparr>tc_hot = \<lparr>kc_base_url = ''h'', kc_local_reads_only = False\<rparr>,
      tc_cold = Some \<lparr>kc_base_url = ''f'', kc_local_reads_only = False\<rparr>\<rparr>
     \<lparr>rvr_identity = \<lparr>vri_version_row_id = ''v'', vri_object_id = ''o'', vri_cid = ''c''\<rparr>,
      rvr_primary = \<lparr>loc_tier = Cold, loc_cid = ''c''\<rparr>, rvr_storage_class = StandardIa, rvr_revision = 2,
      rvr_physical = \<lparr>prs_location = \<lparr>loc_tier = Cold, loc_cid = ''c''\<rparr>, prs_verification_state = Verified,
        prs_node_identity = Some ''n'', prs_verification_receipt = Some ''r'', prs_verified_at = Some 0\<rparr>\<rparr> =
     Inr \<lparr>kc_base_url = ''f'', kc_local_reads_only = True\<rparr> \<and>
   kc_local_reads_only \<lparr>kc_base_url = ''f'', kc_local_reads_only = True\<rparr>"
proof -
  let ?r = "\<lparr>rvr_identity = \<lparr>vri_version_row_id = ''v'', vri_object_id = ''o'', vri_cid = ''c''\<rparr>,
      rvr_primary = \<lparr>loc_tier = Cold, loc_cid = ''c''\<rparr>, rvr_storage_class = StandardIa, rvr_revision = 2,
      rvr_physical = \<lparr>prs_location = \<lparr>loc_tier = Cold, loc_cid = ''c''\<rparr>, prs_verification_state = Verified,
        prs_node_identity = Some ''n'', prs_verification_receipt = Some ''r'', prs_verified_at = Some 0\<rparr>\<rparr>"
  have "resolve_read_source (\<lambda>_. Some \<lparr>lrv_node_identity = ''n'', lrv_cid = ''c''\<rparr>) Some (\<lambda>_. Inr ''n'')
     \<lparr>tc_hot = \<lparr>kc_base_url = ''h'', kc_local_reads_only = False\<rparr>,
      tc_cold = Some \<lparr>kc_base_url = ''f'', kc_local_reads_only = False\<rparr>\<rparr> ?r =
     Inr \<lparr>kc_base_url = ''f'', kc_local_reads_only = True\<rparr>"
    by (simp add: resolve_read_source_def client_for_tier_def validate_cold_receipt_def
        local_node_identity_def is_ascii_alphanumeric_def with_local_reads_only_def)
  from resolve_read_source_sound [OF this] this show ?thesis by simp
qed

end
