(* ===== verification/Object_Tags.thy ===== *)
theory Object_Tags
  imports Object_Store
begin

text \<open>
  Object tags: the tag set rules, the \<^verbatim>\<open>x-amz-tagging\<close> header codec and the reserved pin
  controls (src/src/pinning/tags.rs, \<open>LeaseDuration::parse\<close> of src/src/pinning/config.rs), and the
  stored tag sets (src/src/store/pinning/tags.rs). An \<^verbatim>\<open>anyhow\<close> error is its message.

  Percent encoding, percent decoding, the UTF-8 check and the RFC 3339 parser belong to other
  crates: they are the arguments \<open>pct_encode\<close>, \<open>pct_decode\<close>, \<open>utf8_valid\<close> and
  \<open>parse_rfc3339\<close>. The documented behaviour of the first two is \<open>percent_codec\<close>.
\<close>

section \<open>Tag sets\<close>

record object_tag =
  t_key :: string
  t_value :: string

definition new_tag :: "string \<Rightarrow> string \<Rightarrow> object_tag" where
  "new_tag k v = \<lparr>t_key = k, t_value = v\<rparr>"

definition RESERVED_KEYS :: "string list" where
  "RESERVED_KEYS = [''ipfs-s3:pin'', ''ipfs-s3:duration'', ''ipfs-s3:content'',
     ''ipfs-s3:retain-until'', ''ipfs-s3:zip-root'']"

datatype tag_error_kind = Generic | ReservedControl | ZipControl

definition kind_for_key :: "string \<Rightarrow> tag_error_kind" where
  "kind_for_key k =
     (if starts_with k ''ipfs-s3:zip-'' then ZipControl
      else if starts_with k ''ipfs-s3:'' then ReservedControl else Generic)"

type_synonym tag_error = "tag_error_kind \<times> string"

definition parse_zip_root_value :: "string \<Rightarrow> string + bool" where
  "parse_zip_root_value v =
     (if v = ''true'' then Inr True else if v = ''false'' then Inr False
      else Inl ''ipfs-s3:zip-root must be exactly true or false'')"

text \<open>The loop of \<open>validate_tag_set_classified\<close>; \<open>keys\<close> are the keys seen so far.\<close>

fun validate_tags :: "string list \<Rightarrow> object_tag list \<Rightarrow> tag_error + unit" where
  "validate_tags keys [] = Inr ()"
| "validate_tags keys (t # ts) =
     (let kind = kind_for_key (t_key t) in
      if t_key t = [] then Inl (Generic, ''tag key must not be empty'')
      else if chars_count (t_key t) > 128
      then Inl (kind, ''tag key exceeds the maximum of 128 characters'')
      else if chars_count (t_value t) > 256
      then Inl (kind, ''tag value exceeds the maximum of 256 characters'')
      else if t_key t \<in> set keys then Inl (kind, ''duplicate tag key'')
      else if starts_with (t_key t) ''ipfs-s3:'' \<and> t_key t \<notin> set RESERVED_KEYS
      then Inl (kind, ''unknown ipfs-s3 reserved tag key'')
      else
        bindR (if t_key t = ''ipfs-s3:zip-root'' then
                 (case parse_zip_root_value (t_value t) of Inl e \<Rightarrow> Inl (kind, e) | Inr _ \<Rightarrow> Inr ())
               else Inr ()) (\<lambda>_.
        validate_tags (t_key t # keys) ts))"

definition validate_tag_set_classified :: "object_tag list \<Rightarrow> tag_error + unit" where
  "validate_tag_set_classified tags =
     (if length tags > 10 then Inl (Generic, ''tag set exceeds the maximum of 10 tags'')
      else validate_tags [] tags)"

definition validate_tag_set :: "object_tag list \<Rightarrow> string + unit" where
  "validate_tag_set tags =
     (case validate_tag_set_classified tags of Inl (_, e) \<Rightarrow> Inl e | Inr u \<Rightarrow> Inr u)"

section \<open>The tagging header\<close>

text \<open>\<^verbatim>\<open>str::split\<close> and \<^verbatim>\<open>str::split_once\<close> at a character.\<close>

fun split_char :: "char \<Rightarrow> string \<Rightarrow> string list" where
  "split_char c [] = [[]]"
| "split_char c (x # xs) =
     (if x = c then [] # split_char c xs
      else (case split_char c xs of [] \<Rightarrow> [[x]] | y # ys \<Rightarrow> (x # y) # ys))"

fun split_once :: "char \<Rightarrow> string \<Rightarrow> (string \<times> string) option" where
  "split_once c [] = None"
| "split_once c (x # xs) =
     (if x = c then Some ([], xs) else map_option (\<lambda>(a, b). (x # a, b)) (split_once c xs))"

definition is_ascii_hexdigit :: "char \<Rightarrow> bool" where
  "is_ascii_hexdigit c \<longleftrightarrow>
     (let n = (of_char c :: nat) in (48 \<le> n \<and> n \<le> 57) \<or> (65 \<le> n \<and> n \<le> 70) \<or> (97 \<le> n \<and> n \<le> 102))"

fun percent_ok :: "string \<Rightarrow> bool" where
  "percent_ok [] = True"
| "percent_ok (c # s) =
     ((c = CHR ''%'' \<longrightarrow>
        length s \<ge> 2 \<and> is_ascii_hexdigit (s ! 0) \<and> is_ascii_hexdigit (s ! 1)) \<and> percent_ok s)"

type_synonym pct_encode_fn = "(char \<Rightarrow> bool) \<Rightarrow> string \<Rightarrow> string"

definition decode_form_component ::
  "(string \<Rightarrow> string) \<Rightarrow> (string \<Rightarrow> bool) \<Rightarrow> string \<Rightarrow> string + string" where
  "decode_form_component pct_decode utf8_valid s =
     (if \<not> percent_ok s then Inl ''invalid percent encoding in tagging header''
      else
        (let decoded = pct_decode (map (\<lambda>c. if c = CHR ''+'' then CHR '' '' else c) s) in
         if utf8_valid decoded then Inr decoded else Inl ''invalid UTF-8 in tagging header''))"

definition decode_pair ::
  "(string \<Rightarrow> string) \<Rightarrow> (string \<Rightarrow> bool) \<Rightarrow> string \<Rightarrow> tag_error + object_tag" where
  "decode_pair pct_decode utf8_valid pair =
     (case split_once (CHR ''='') pair of
        None \<Rightarrow>
          Inl ((case decode_form_component pct_decode utf8_valid pair of
                  Inl _ \<Rightarrow> Generic | Inr k \<Rightarrow> kind_for_key k), ''invalid tagging header pair'')
      | Some (raw_key, raw_value) \<Rightarrow>
          (case decode_form_component pct_decode utf8_valid raw_key of
             Inl e \<Rightarrow> Inl (Generic, e)
           | Inr k \<Rightarrow>
               (case decode_form_component pct_decode utf8_valid raw_value of
                  Inl e \<Rightarrow> Inl (kind_for_key k, e)
                | Inr v \<Rightarrow> Inr (new_tag k v))))"

definition decode_tagging_header ::
  "(string \<Rightarrow> string) \<Rightarrow> (string \<Rightarrow> bool) \<Rightarrow> string \<Rightarrow> tag_error + object_tag list" where
  "decode_tagging_header pct_decode utf8_valid header =
     (if header = [] then Inr []
      else traverse_list (decode_pair pct_decode utf8_valid) (split_char (CHR ''&'') header))"

definition parse_tagging_header ::
  "(string \<Rightarrow> string) \<Rightarrow> (string \<Rightarrow> bool) \<Rightarrow> string \<Rightarrow> string + object_tag list" where
  "parse_tagging_header pct_decode utf8_valid header =
     (case decode_tagging_header pct_decode utf8_valid header of
        Inl (_, e) \<Rightarrow> Inl e
      | Inr tags \<Rightarrow> bindR (validate_tag_set tags) (\<lambda>_. Inr tags))"

definition TAGGING_ENCODE_SET :: "char \<Rightarrow> bool" where
  "TAGGING_ENCODE_SET c \<longleftrightarrow>
     (of_char c :: nat) < 32 \<or> (of_char c :: nat) = 127 \<or>
     (of_char c :: nat) \<in> {32, 33, 34, 35, 36, 37, 38, 39, 40, 41, 42, 43, 44, 47, 58, 59, 60, 61, 62,
        63, 64, 91, 92, 93, 94, 96, 123, 124, 125}"

fun join_with :: "char \<Rightarrow> string list \<Rightarrow> string" where
  "join_with c [] = []"
| "join_with c [x] = x"
| "join_with c (x # y # ys) = x @ c # join_with c (y # ys)"

definition encode_pair :: "pct_encode_fn \<Rightarrow> object_tag \<Rightarrow> string" where
  "encode_pair pct_encode t =
     pct_encode TAGGING_ENCODE_SET (t_key t) @ ''='' @ pct_encode TAGGING_ENCODE_SET (t_value t)"

definition encode_tagging_header :: "pct_encode_fn \<Rightarrow> object_tag list \<Rightarrow> string" where
  "encode_tagging_header pct_encode tags = join_with (CHR ''&'') (map (encode_pair pct_encode) tags)"

section \<open>Reserved controls\<close>

definition reserved_value :: "object_tag list \<Rightarrow> string \<Rightarrow> string option" where
  "reserved_value tags k = map_option t_value (List.find (\<lambda>t. t_key t = k) tags)"

datatype zip_root_capture = Configured bool | Tagged bool

fun zip_root_enabled :: "zip_root_capture \<Rightarrow> bool" where
  "zip_root_enabled (Configured b) = b"
| "zip_root_enabled (Tagged b) = b"

definition resolve_zip_root_option :: "object_tag list \<Rightarrow> bool \<Rightarrow> string + zip_root_capture" where
  "resolve_zip_root_option tags dflt =
     bindR (validate_tag_set tags) (\<lambda>_.
       case reserved_value tags ''ipfs-s3:zip-root'' of
         Some v \<Rightarrow> bindR (parse_zip_root_value v) (\<lambda>b. Inr (Tagged b))
       | None \<Rightarrow> Inr (Configured dflt))"

definition is_ascii_digit :: "char \<Rightarrow> bool" where
  "is_ascii_digit c \<longleftrightarrow> (let n = (of_char c :: nat) in 48 \<le> n \<and> n \<le> 57)"

definition digits_value :: "string \<Rightarrow> nat" where
  "digits_value s = foldl (\<lambda>n c. 10 * n + (of_char c - 48)) 0 s"

text \<open>A multi-byte last character is no unit and leaves a number that is not all digits or ends
  as an unknown unit: every failure is the same error.\<close>

definition lease_duration_parse :: "string \<Rightarrow> string + nat" where
  "lease_duration_parse raw =
     (let err = Inl ''invalid lease duration'' in
      if raw = [] then err
      else
        (let number = butlast raw; unit = last raw; value = digits_value number in
         if number = [] \<or> \<not> list_all is_ascii_digit number then err
         else if value \<ge> 2 ^ 64 then err
         else if value = 0 then err
         else
           (case (if unit = CHR ''s'' then Some 1 else if unit = CHR ''m'' then Some 60
                  else if unit = CHR ''h'' then Some (60 * 60)
                  else if unit = CHR ''d'' then Some (60 * 60 * 24) else None) of
              None \<Rightarrow> err
            | Some multiplier \<Rightarrow>
                (let seconds = value * multiplier in
                 if seconds \<ge> 2 ^ 64 \<or> seconds > nat i64_max then err else Inr seconds))))"

datatype content_mode = ObjectContent | DecompressedContent

datatype pin_control =
    Absent | Cancel | Request "nat option" content_mode | Renew datetime

definition pin_control_from_tags ::
  "(string \<Rightarrow> datetime option) \<Rightarrow> object_tag list \<Rightarrow> string + pin_control" where
  "pin_control_from_tags parse_rfc3339 tags =
     bindR (validate_tag_set tags) (\<lambda>_.
     let pin = reserved_value tags ''ipfs-s3:pin'';
         duration = reserved_value tags ''ipfs-s3:duration'';
         content = reserved_value tags ''ipfs-s3:content'';
         retain_until = reserved_value tags ''ipfs-s3:retain-until'';
         params = (duration \<noteq> None \<or> content \<noteq> None \<or> retain_until \<noteq> None)
     in case pin of
          None \<Rightarrow> if params then Inl ''pin control parameters require ipfs-s3:pin'' else Inr Absent
        | Some p \<Rightarrow>
            if p = ''false'' then
              (if params then Inl ''ipfs-s3:pin=false cannot be combined with pin parameters''
               else Inr Cancel)
            else if p = ''true'' then
              (case retain_until of
                 Some r \<Rightarrow>
                   if duration \<noteq> None \<or> content \<noteq> None
                   then Inl ''ipfs-s3:retain-until cannot be combined with request parameters''
                   else bindR (ok_or ''invalid ipfs-s3:retain-until'' (parse_rfc3339 r)) (\<lambda>t. Inr (Renew t))
               | None \<Rightarrow>
                   bindR (traverse_option lease_duration_parse duration) (\<lambda>dur.
                   bindR (case content of
                            None \<Rightarrow> Inr ObjectContent
                          | Some c \<Rightarrow> if c = ''object'' then Inr ObjectContent
                                     else if c = ''decompressed'' then Inr DecompressedContent
                                     else Inl ''invalid ipfs-s3:content'') (\<lambda>mode.
                   Inr (Request dur mode))))
            else Inl ''ipfs-s3:pin must be exactly true or false'')"

section \<open>Stored tag sets\<close>

definition insert_tag :: "object_tag_model \<Rightarrow> (db, unit) tx" where
  "insert_tag r = (\<lambda>d.
     if (\<exists>s \<in> set (object_tags d). tag_object_id s = tag_object_id r \<and> tag_key s = tag_key r)
     then Inl (Database ''pk_object_tags'')
     else if tag_object_id r \<notin> set (map obj_id (objects d)) then Inl (Database ''object_tags_fkey'')
     else Inr ((), d\<lparr>object_tags := object_tags d @ [r]\<rparr>))"

definition tag_row :: "string \<Rightarrow> object_tag \<Rightarrow> object_tag_model" where
  "tag_row oid t = \<lparr>tag_object_id = oid, tag_key = t_key t, tag_value = t_value t\<rparr>"

fun insert_tags :: "string \<Rightarrow> object_tag list \<Rightarrow> (db, unit) tx" where
  "insert_tags oid [] = returnT ()"
| "insert_tags oid (t # ts) = bindT (insert_tag (tag_row oid t)) (\<lambda>_. insert_tags oid ts)"

definition lock_parent_object :: "string \<Rightarrow> (db, unit) tx" where
  "lock_parent_object oid =
     bindT (getsT (\<lambda>d. find_object oid (objects d))) (\<lambda>p. guardT (Database ''object not found'') (p \<noteq> None))"

definition replace_object_tags :: "string \<Rightarrow> object_tag list \<Rightarrow> (db, unit) tx" where
  "replace_object_tags oid tags =
     bindT (liftT (case validate_tag_set tags of
                     Inl _ \<Rightarrow> Inl (Database ''invalid object tag set'') | Inr u \<Rightarrow> Inr u)) (\<lambda>_.
     bindT (lock_parent_object oid) (\<lambda>_.
     bindT (modifyT (\<lambda>d. d\<lparr>object_tags := delete_rows (\<lambda>r. tag_object_id r = oid) (object_tags d)\<rparr>)) (\<lambda>_.
     insert_tags oid tags)))"

definition list_object_tags :: "string \<Rightarrow> db \<Rightarrow> object_tag list" where
  "list_object_tags oid d =
     map (\<lambda>r. new_tag (tag_key r) (tag_value r))
       (sort_key tag_key (filter (\<lambda>r. tag_object_id r = oid) (object_tags d)))"

section \<open>The header codec round trips\<close>

definition hex_upper :: "nat \<Rightarrow> char" where
  "hex_upper n = char_of (if n < 10 then 48 + n else 55 + n)"

definition pct_byte :: "char \<Rightarrow> string" where
  "pct_byte c = [CHR ''%'', hex_upper (of_char c div 16), hex_upper (of_char c mod 16)]"

text \<open>
  What the percent-encoding crate documents: encoding replaces the bytes of the set and every
  non-ASCII byte by a percent sign and two upper case digits and keeps the others; decoding reads
  such a triplet as its byte and keeps a byte that is no percent sign.
\<close>

definition percent_codec :: "pct_encode_fn \<Rightarrow> (string \<Rightarrow> string) \<Rightarrow> bool" where
  "percent_codec pct_encode pct_decode \<longleftrightarrow>
     (\<forall>S. pct_encode S [] = []) \<and>
     (\<forall>S c s. pct_encode S (c # s) =
        (if S c \<or> (of_char c :: nat) \<ge> 128 then pct_byte c else [c]) @ pct_encode S s) \<and>
     pct_decode [] = [] \<and> (\<forall>c s. c \<noteq> CHR ''%'' \<longrightarrow> pct_decode (c # s) = c # pct_decode s) \<and>
     (\<forall>c s. pct_decode (pct_byte c @ s) = c # pct_decode s)"

lemma of_char_less_256: "(of_char c :: nat) < 256"
  using of_char_mod_256 [of c, where 'a = nat] by (metis mod_less_divisor zero_less_numeral)

lemma of_char_hex_upper: "n < 16 \<Longrightarrow> (of_char (hex_upper n) :: nat) = (if n < 10 then 48 + n else 55 + n)"
  by (simp add: hex_upper_def)

lemma hex_upper_hexdigit: "n < 16 \<Longrightarrow> is_ascii_hexdigit (hex_upper n)"
  by (auto simp: is_ascii_hexdigit_def of_char_hex_upper Let_def)

lemma hex_upper_neq: "n < 16 \<Longrightarrow> (of_char c :: nat) < 48 \<or> (of_char c :: nat) = 61 \<Longrightarrow> hex_upper n \<noteq> c"
  using of_char_hex_upper [of n] by (auto split: if_splits)

lemma char_div_16: "(of_char c :: nat) div 16 < 16" "(of_char c :: nat) mod 16 < 16"
  using of_char_less_256 [of c] by (simp_all add: less_mult_imp_div_less)

lemma pct_encode_Cons:
  "percent_codec pct_encode pct_decode \<Longrightarrow> pct_encode S (c # s) =
     (if S c \<or> (of_char c :: nat) \<ge> 128 then pct_byte c else [c]) @ pct_encode S s"
  by (simp add: percent_codec_def)

lemma pct_encode_Nil: "percent_codec pct_encode pct_decode \<Longrightarrow> pct_encode S [] = []"
  by (simp add: percent_codec_def)

lemma pct_encode_chars:
  assumes "percent_codec pct_encode pct_decode"
    and "S c" "(of_char c :: nat) < 48 \<or> (of_char c :: nat) = 61" "c \<noteq> CHR ''%''"
  shows "c \<notin> set (pct_encode S s)"
proof (induction s)
  case (Cons x s)
  have "c \<notin> set (pct_byte x)"
    using hex_upper_neq [OF char_div_16(1) assms(3), of x] hex_upper_neq [OF char_div_16(2) assms(3), of x]
      assms(4) by (auto simp: pct_byte_def)
  with Cons assms(2) show ?case by (auto simp: pct_encode_Cons [OF assms(1)])
qed (simp add: pct_encode_Nil [OF assms(1)])

lemma pct_encode_percent_ok:
  assumes "percent_codec pct_encode pct_decode" "S (CHR ''%'')"
  shows "percent_ok (pct_encode S s)"
proof (induction s)
  case (Cons c s)
  have "hex_upper n \<noteq> CHR ''%''" if "n < 16" for n using that by (intro hex_upper_neq) simp_all
  then show ?case
    using Cons assms char_div_16
    by (auto simp: pct_encode_Cons [OF assms(1)] pct_byte_def hex_upper_hexdigit)
qed (simp add: pct_encode_Nil [OF assms(1)])

lemma pct_decode_encode:
  assumes "percent_codec pct_encode pct_decode" "S (CHR ''%'')"
  shows "pct_decode (pct_encode S s) = s"
proof (induction s)
  case (Cons c s)
  have "pct_decode (pct_byte c @ t) = c # pct_decode t" for t
    using assms(1) by (simp add: percent_codec_def)
  moreover have "pct_decode (c # t) = c # pct_decode t" if "\<not> S c" for t
    using assms that by (cases "c = CHR ''%''") (simp_all add: percent_codec_def)
  ultimately show ?case using Cons by (simp add: pct_encode_Cons [OF assms(1)])
qed (use assms in \<open>simp add: percent_codec_def\<close>)

lemma decode_form_component_encode:
  assumes "percent_codec pct_encode pct_decode" "S (CHR ''%'')" "S (CHR ''+'')" "utf8_valid s"
  shows "decode_form_component pct_decode utf8_valid (pct_encode S s) = Inr s"
proof -
  have "CHR ''+'' \<notin> set (pct_encode S s)" using assms by (intro pct_encode_chars) simp_all
  then have "map (\<lambda>c. if c = CHR ''+'' then CHR '' '' else c) (pct_encode S s) = pct_encode S s"
    by (auto intro!: map_idI)
  with assms show ?thesis
    by (simp add: decode_form_component_def pct_encode_percent_ok pct_decode_encode)
qed

lemma split_once_append: "c \<notin> set a \<Longrightarrow> split_once c (a @ c # b) = Some (a, b)"
  by (induction a) auto

lemma split_char_not_Nil: "split_char c s \<noteq> []"
  by (induction s) (auto split: list.splits)

lemma split_char_append:
  "c \<notin> set a \<Longrightarrow> split_char c (a @ c # b) = a # split_char c b"
  by (induction a) auto

lemma split_char_single: "c \<notin> set a \<Longrightarrow> split_char c a = [a]"
  by (induction a) auto

lemma split_char_join:
  "xs \<noteq> [] \<Longrightarrow> (\<And>x. x \<in> set xs \<Longrightarrow> c \<notin> set x) \<Longrightarrow> split_char c (join_with c xs) = xs"
  by (induction c xs rule: join_with.induct) (auto simp: split_char_append split_char_single)

lemma encode_set_members [simp]:
  "TAGGING_ENCODE_SET (CHR ''%'')" "TAGGING_ENCODE_SET (CHR ''+'')" "TAGGING_ENCODE_SET (CHR ''&'')"
  "TAGGING_ENCODE_SET (CHR ''='')"
  by (simp_all add: TAGGING_ENCODE_SET_def)

lemma decode_pair_encode:
  assumes "percent_codec pct_encode pct_decode" "utf8_valid (t_key t)" "utf8_valid (t_value t)"
  shows "decode_pair pct_decode utf8_valid (encode_pair pct_encode t) = Inr t"
proof -
  have "CHR ''='' \<notin> set (pct_encode TAGGING_ENCODE_SET (t_key t))"
    by (rule pct_encode_chars [OF assms(1)]) simp_all
  with assms show ?thesis
    by (simp add: decode_pair_def encode_pair_def split_once_append decode_form_component_encode new_tag_def)
qed

lemma join_with_not_Nil: "xs \<noteq> [] \<Longrightarrow> hd xs \<noteq> [] \<Longrightarrow> join_with c xs \<noteq> []"
  by (induction c xs rule: join_with.induct) auto

lemma decode_tagging_header_encode:
  assumes "percent_codec pct_encode pct_decode"
    and "\<And>t. t \<in> set tags \<Longrightarrow> utf8_valid (t_key t) \<and> utf8_valid (t_value t)"
  shows "decode_tagging_header pct_decode utf8_valid (encode_tagging_header pct_encode tags) = Inr tags"
proof (cases "tags = []")
  case False
  have amp: "CHR ''&'' \<notin> set (encode_pair pct_encode t)" for t
    using pct_encode_chars [OF assms(1), of TAGGING_ENCODE_SET "CHR ''&''"] by (simp add: encode_pair_def)
  have "split_char (CHR ''&'') (encode_tagging_header pct_encode tags) = map (encode_pair pct_encode) tags"
    unfolding encode_tagging_header_def using False amp by (intro split_char_join) auto
  moreover have "encode_tagging_header pct_encode tags \<noteq> []"
    unfolding encode_tagging_header_def using False
    by (intro join_with_not_Nil) (simp_all add: encode_pair_def hd_map)
  moreover have "traverse_list (decode_pair pct_decode utf8_valid) (map (encode_pair pct_encode) tags) = Inr tags"
    using assms by (auto simp: traverse_list_eq_Inr list_all2_map1 decode_pair_encode intro!: list.rel_refl_strong)
  ultimately show ?thesis by (simp add: decode_tagging_header_def)
qed (simp add: decode_tagging_header_def encode_tagging_header_def)

text \<open>Parsing the header that encodes a valid tag set returns the tag set.\<close>

theorem parse_encode_tagging_header:
  assumes "percent_codec pct_encode pct_decode" "validate_tag_set tags = Inr ()"
    and "\<And>t. t \<in> set tags \<Longrightarrow> utf8_valid (t_key t) \<and> utf8_valid (t_value t)"
  shows "parse_tagging_header pct_decode utf8_valid (encode_tagging_header pct_encode tags) = Inr tags"
  using decode_tagging_header_encode [where utf8_valid = utf8_valid, OF assms(1,3)] assms(2)
  by (simp add: parse_tagging_header_def)

text \<open>An instance of the codec, to apply the round trip at a concrete tag set.\<close>

definition pct_encode_bytes :: pct_encode_fn where
  "pct_encode_bytes S s = concat (map (\<lambda>c. if S c \<or> (of_char c :: nat) \<ge> 128 then pct_byte c else [c]) s)"

definition hex_digit_value :: "char \<Rightarrow> nat" where
  "hex_digit_value c = (let n = of_char c in if n < 58 then n - 48 else if n < 71 then n - 55 else n - 87)"

fun pct_decode_bytes :: "string \<Rightarrow> string" where
  "pct_decode_bytes (c # a # b # s) =
     (if c = CHR ''%'' then char_of (16 * hex_digit_value a + hex_digit_value b) # pct_decode_bytes s
      else c # pct_decode_bytes (a # b # s))"
| "pct_decode_bytes (c # s) = c # pct_decode_bytes s"
| "pct_decode_bytes [] = []"

lemma hex_digit_value_upper: "n < 16 \<Longrightarrow> hex_digit_value (hex_upper n) = n"
  by (auto simp: hex_digit_value_def of_char_hex_upper Let_def)

lemma percent_codec_bytes: "percent_codec pct_encode_bytes pct_decode_bytes"
proof -
  have "pct_decode_bytes (c # s) = c # pct_decode_bytes s" if "c \<noteq> CHR ''%''" for c s
    using that by (cases "c # s" rule: pct_decode_bytes.cases) auto
  moreover have "pct_decode_bytes (pct_byte c @ s) = c # pct_decode_bytes s" for c s
    by (simp add: pct_byte_def hex_digit_value_upper char_div_16)
  ultimately show ?thesis by (simp add: percent_codec_def pct_encode_bytes_def)
qed

theorem parse_encode_tagging_header_witness:
  "parse_tagging_header pct_decode_bytes (\<lambda>_. True)
     (encode_tagging_header pct_encode_bytes [new_tag ''a&b'' ''1+ %'', new_tag ''ipfs-s3:pin'' ''true'']) =
   Inr [new_tag ''a&b'' ''1+ %'', new_tag ''ipfs-s3:pin'' ''true'']"
  by (rule parse_encode_tagging_header [OF percent_codec_bytes])
    (simp_all add: validate_tag_set_def validate_tag_set_classified_def new_tag_def chars_count_def
      RESERVED_KEYS_def)

section \<open>Stored tag sets are replaced as a whole\<close>

lemma validate_tags_distinct:
  "validate_tags keys tags = Inr () \<Longrightarrow> distinct (map t_key tags) \<and> set (map t_key tags) \<inter> set keys = {}"
proof (induction keys tags rule: validate_tags.induct)
  case (2 keys t ts)
  then have "t_key t \<notin> set keys" "validate_tags (t_key t # keys) ts = Inr ()"
    by (auto simp: bindR_eq_Inr Let_def split: if_splits)
  with 2 show ?case by (auto simp: bindR_eq_Inr Let_def split: if_splits)
qed simp

lemma validate_tag_set_Inr:
  assumes "validate_tag_set tags = Inr ()"
  shows "distinct (map t_key tags)" "length tags \<le> 10"
  using assms validate_tags_distinct [of "[]" tags]
  by (auto simp: validate_tag_set_def validate_tag_set_classified_def split: if_splits sum.splits)

lemma insert_tags_effect:
  assumes "oid \<in> obj_id ` set (objects d)" "distinct (map t_key tags)"
    and "\<And>r. r \<in> set (object_tags d) \<Longrightarrow> tag_object_id r = oid \<Longrightarrow> tag_key r \<notin> t_key ` set tags"
  shows "insert_tags oid tags d = Inr ((), d\<lparr>object_tags := object_tags d @ map (tag_row oid) tags\<rparr>)"
  using assms
proof (induction tags arbitrary: d)
  case (Cons t ts)
  let ?d = "d\<lparr>object_tags := object_tags d @ [tag_row oid t]\<rparr>"
  have ins: "insert_tag (tag_row oid t) d = Inr ((), ?d)"
    using Cons.prems by (auto simp: insert_tag_def tag_row_def)
  have "insert_tags oid ts ?d = Inr ((), ?d\<lparr>object_tags := object_tags ?d @ map (tag_row oid) ts\<rparr>)"
    by (rule Cons.IH) (use Cons.prems in \<open>auto simp: tag_row_def\<close>)
  with ins show ?case by simp
qed simp

lemma replace_object_tags_effect:
  assumes "validate_tag_set tags = Inr ()" "oid \<in> obj_id ` set (objects d)"
  shows "replace_object_tags oid tags d = Inr ((), d\<lparr>object_tags :=
           delete_rows (\<lambda>r. tag_object_id r = oid) (object_tags d) @ map (tag_row oid) tags\<rparr>)"
proof -
  let ?d = "d\<lparr>object_tags := delete_rows (\<lambda>r. tag_object_id r = oid) (object_tags d)\<rparr>"
  have "find_object oid (objects d) \<noteq> None" using assms(2) by (auto simp: obj.find_by_None)
  then have "lock_parent_object oid d = Inr ((), d)" by (simp add: lock_parent_object_def)
  moreover have "insert_tags oid tags ?d = Inr ((), ?d\<lparr>object_tags := object_tags ?d @ map (tag_row oid) tags\<rparr>)"
    using assms validate_tag_set_Inr [OF assms(1)] by (intro insert_tags_effect) auto
  ultimately show ?thesis using assms(1) by (simp add: replace_object_tags_def)
qed

text \<open>C26: Replacing the tags of an existing object by a valid tag set succeeds; afterwards the
  object's tags are exactly that set in key order, and every other object's tags are unchanged.\<close>

theorem list_after_replace_object_tags:
  assumes "validate_tag_set tags = Inr ()" "oid \<in> obj_id ` set (objects d)"
  shows "\<exists>d'. replace_object_tags oid tags d = Inr ((), d') \<and>
           list_object_tags oid d' = sort_key t_key tags \<and>
           (\<forall>i. i \<noteq> oid \<longrightarrow> list_object_tags i d' = list_object_tags i d)"
proof -
  let ?d = "d\<lparr>object_tags := delete_rows (\<lambda>r. tag_object_id r = oid) (object_tags d) @ map (tag_row oid) tags\<rparr>"
  have unrow: "map (\<lambda>r. new_tag (tag_key r) (tag_value r)) (sort_key tag_key (map (tag_row oid) tags)) =
      sort_key t_key tags"
    by (simp add: sort_key_map comp_def new_tag_def tag_row_def map_idI)
  have "list_object_tags oid ?d = sort_key t_key tags"
    using unrow by (simp add: list_object_tags_def delete_rows_def filter_map comp_def tag_row_def)
  moreover have "list_object_tags i ?d = list_object_tags i d" if "i \<noteq> oid" for i
  proof -
    have eq: "filter (\<lambda>r. tag_object_id r \<noteq> oid \<and> tag_object_id r = i) (object_tags d) =
        filter (\<lambda>r. tag_object_id r = i) (object_tags d)"
      using that by (intro filter_cong) auto
    show ?thesis
      using that by (simp add: list_object_tags_def delete_rows_def filter_map comp_def tag_row_def eq)
  qed
  ultimately show ?thesis using replace_object_tags_effect [OF assms] by auto
qed

definition tagged_db :: db where
  "tagged_db = \<lparr>buckets = [],
     objects = [object_of_row \<lparr>lor_id = ''o1'', lor_bucket = ''b'', lor_key = ''k'', lor_cid = ''c'',
       lor_size = 1, lor_content_type = None, lor_etag = ''e'', lor_metadata = None,
       lor_encrypted = False, lor_key_wrap = None, lor_sse_c_key_fingerprint = None,
       lor_multipart = False, lor_created_at = 0\<rparr> True],
     object_versions = [], object_tags = [tag_row ''o1'' (new_tag ''old'' ''x''), tag_row ''o2'' (new_tag ''a'' ''b'')],
     physical_residencies = [], version_residencies = [], residency_references = [], pin_leases = [],
     pin_lease_targets = []\<rparr>"

theorem list_after_replace_object_tags_witness:
  "\<exists>d'. replace_object_tags ''o1'' [new_tag ''team'' ''x'', new_tag ''cost'' ''9''] tagged_db = Inr ((), d') \<and>
     list_object_tags ''o1'' d' = sort_key t_key [new_tag ''team'' ''x'', new_tag ''cost'' ''9''] \<and>
     (\<forall>i. i \<noteq> ''o1'' \<longrightarrow> list_object_tags i d' = list_object_tags i tagged_db)"
  by (rule list_after_replace_object_tags)
    (simp_all add: tagged_db_def object_of_row_def validate_tag_set_def validate_tag_set_classified_def
      new_tag_def chars_count_def RESERVED_KEYS_def)

end
