(* ===== verification/Version_Store.thy ===== *)
theory Version_Store
  imports Residency_Store Object_Tags
begin

text \<open>
  The object version index (src/src/store/object_version.rs): resolving a version, allocating
  sequences, installing content versions and delete markers, removing a version and promoting the
  next one, and the version scan of listings. The UUIDs the code draws, the caller's time and the
  database clock are arguments. Row locks change no state.
\<close>

section \<open>Resolving\<close>

definition at_key :: "string \<Rightarrow> string \<Rightarrow> object_version_model \<Rightarrow> bool" where
  "at_key b k r \<longleftrightarrow> ov_bucket r = b \<and> ov_key r = k"

definition latest_at :: "string \<Rightarrow> string \<Rightarrow> object_version_model \<Rightarrow> bool" where
  "latest_at b k r \<longleftrightarrow> at_key b k r \<and> ov_is_latest r"

definition null_at :: "string \<Rightarrow> string \<Rightarrow> object_version_model \<Rightarrow> bool" where
  "null_at b k r \<longleftrightarrow> at_key b k r \<and> ov_version_id r = None"

fun one_version ::
  "uuid_parser \<Rightarrow> string \<Rightarrow> string \<Rightarrow> version_selector \<Rightarrow> db \<Rightarrow> object_version_model option app_result" where
  "one_version up b k Current d = Inr (one_row (latest_at b k) (object_versions d))"
| "one_version up b k (Exact p) d =
     bindR (selector_db_value up p) (\<lambda>v.
       Inr (one_row (\<lambda>r. at_key b k r \<and> ov_version_id r = v) (object_versions d)))"

definition resolved_from_row ::
  "uuid_parser \<Rightarrow> object_version_model \<Rightarrow> bool \<Rightarrow> db \<Rightarrow> resolved_version app_result" where
  "resolved_from_row up r validate_current d =
     bindR (version_kind_of r) (\<lambda>kind.
     bindR (public_version_id_of up r) (\<lambda>pv.
     case kind of
       ObjectKind \<Rightarrow>
         bindR (ok_or invalid_version_index (ov_object_id r)) (\<lambda>oid.
         bindR (case get_by_id oid d of Inl _ \<Rightarrow> Inl invalid_version_index | Inr ob \<Rightarrow> Inr ob) (\<lambda>ob.
         if \<not> object_at (ov_bucket r) (ov_key r) ob then Inl invalid_version_index
         else if validate_current \<and> (\<not> ov_is_latest r \<or> \<not> obj_is_latest ob) then Inl invalid_version_index
         else new_resolved_version (ov_id r) (ov_key r) (as_s3_str pv) kind (Some ob) (ov_is_latest r)
                (ov_sequence r) (ov_lifecycle_age_started_at r) (ov_became_noncurrent_at r) (ov_created_at r)))
     | DeleteMarkerKind \<Rightarrow>
         if validate_current \<and>
            (\<not> ov_is_latest r \<or> count_rows (current_at (ov_bucket r) (ov_key r)) (objects d) \<noteq> 0)
         then Inl invalid_version_index
         else new_resolved_version (ov_id r) (ov_key r) (as_s3_str pv) kind None (ov_is_latest r)
                (ov_sequence r) (ov_lifecycle_age_started_at r) (ov_became_noncurrent_at r) (ov_created_at r)))"

definition resolve_with_lock ::
  "uuid_parser \<Rightarrow> string \<Rightarrow> string \<Rightarrow> version_selector \<Rightarrow> bool \<Rightarrow> bool \<Rightarrow> (db, resolved_version) tx" where
  "resolve_with_lock up b k sel locked lock_state =
     bindT (if locked \<and> lock_state then lock_versioning_state b else queryT (get_versioning_state b)) (\<lambda>state.
     if state = Unversioned then
       (case sel of
          Current \<Rightarrow>
            bindT (queryT (one_version up b k sel)) (\<lambda>row.
            bindT (liftT (ok_or (no_such_key b k) row)) (\<lambda>r. queryT (resolved_from_row up r True)))
        | Exact _ \<Rightarrow> throwT (InvalidArgument ''version IDs are unavailable for an unversioned bucket''))
     else
       bindT (queryT (one_version up b k sel)) (\<lambda>row.
       case (sel, row) of
         (_, Some r) \<Rightarrow> queryT (resolved_from_row up r (sel = Current))
       | (Current, None) \<Rightarrow> throwT (no_such_key b k)
       | (Exact v, None) \<Rightarrow> throwT (no_such_version b k v)))"

definition resolve_version ::
  "uuid_parser \<Rightarrow> string \<Rightarrow> string \<Rightarrow> version_selector \<Rightarrow> (db, resolved_version) tx" where
  "resolve_version up b k sel = resolve_with_lock up b k sel False False"

definition lock_resolved_version ::
  "uuid_parser \<Rightarrow> string \<Rightarrow> string \<Rightarrow> version_selector \<Rightarrow> (db, resolved_version) tx" where
  "lock_resolved_version up b k sel = resolve_with_lock up b k sel True False"

record object_read_snapshot =
  ors_version :: resolved_version
  ors_versioning_state :: bucket_versioning_state
  ors_residency :: "resolved_version_residency option"
  ors_tags :: "object_tag list"

definition read_snapshot ::
  "uuid_parser \<Rightarrow> string \<Rightarrow> string \<Rightarrow> version_selector \<Rightarrow> (db, object_read_snapshot) tx" where
  "read_snapshot up b k sel =
     bindT (resolve_version up b k sel) (\<lambda>v.
     bindT (if rv_kind v = ObjectKind
            then bindT (queryT (resolve_version_residency (rv_id v))) (\<lambda>r. returnT (Some r))
            else returnT None) (\<lambda>residency.
     bindT (queryT (get_versioning_state b)) (\<lambda>state.
     bindT (case rv_object v of
              Some ob \<Rightarrow> getsT (list_object_tags (obj_id ob)) | None \<Rightarrow> returnT []) (\<lambda>tags.
     returnT \<lparr>ors_version = v, ors_versioning_state = state, ors_residency = residency,
              ors_tags = tags\<rparr>))))"

definition lock_current_row :: "uuid_parser \<Rightarrow> string \<Rightarrow> string \<Rightarrow> (db, object_version_model option) tx" where
  "lock_current_row up b k = queryT (one_version up b k Current)"

definition lock_indexed_version ::
  "uuid_parser \<Rightarrow> string \<Rightarrow> string \<Rightarrow> public_version_id \<Rightarrow>
   (db, (object_version_model \<times> resolved_version) option) tx" where
  "lock_indexed_version up b k v =
     bindT (queryT (one_version up b k (Exact v))) (\<lambda>row.
     case row of
       None \<Rightarrow> returnT None
     | Some r \<Rightarrow> bindT (queryT (resolved_from_row up r False)) (\<lambda>res. returnT (Some (r, res))))"

section \<open>Installing\<close>

definition allocate_next_sequence :: "string \<Rightarrow> string \<Rightarrow> db \<Rightarrow> int app_result" where
  "allocate_next_sequence b k d =
     (let current_max =
        (case sort_key (\<lambda>r. - ov_sequence r) (filter (at_key b k) (object_versions d)) of
           [] \<Rightarrow> 0 | r # _ \<Rightarrow> ov_sequence r)
      in ok_or (Internal ''object version sequence overflow'') (checked_add_i64 current_max 1))"

definition set_noncurrent :: "datetime \<Rightarrow> object_version_model \<Rightarrow> object_version_model" where
  "set_noncurrent now r =
     r\<lparr>ov_is_latest := False, ov_became_noncurrent_at := Some now, ov_updated_at := now\<rparr>"

definition demote_current_version :: "string \<Rightarrow> string \<Rightarrow> datetime \<Rightarrow> (db, unit) tx" where
  "demote_current_version b k now =
     bindT (getsT (\<lambda>d. count_rows (latest_at b k) (object_versions d))) (\<lambda>n.
     bindT (modifyT (\<lambda>d. d\<lparr>object_versions :=
              update_rows (latest_at b k) (set_noncurrent now) (object_versions d)\<rparr>)) (\<lambda>_.
       guardT invalid_version_index (n \<le> 1)))"

definition remove_null_slot :: "uuid_parser \<Rightarrow> string \<Rightarrow> string \<Rightarrow> (db, unit) tx" where
  "remove_null_slot up b k =
     bindT (queryT (one_version up b k (Exact NullVersion))) (\<lambda>row.
     bindT (case row of
              None \<Rightarrow> returnT ()
            | Some r \<Rightarrow>
                bindT (liftT (version_kind_of r)) (\<lambda>kind.
                  if kind = ObjectKind
                  then bindT (release_version_reference_in_transaction (ov_id r)) (\<lambda>_. returnT ())
                  else returnT ())) (\<lambda>_.
     bindT (getsT (\<lambda>d. count_rows (null_at b k) (object_versions d))) (\<lambda>n.
     bindT (modifyT (delete_object_versions (null_at b k))) (\<lambda>_.
       guardT invalid_version_index (n \<le> 1)))))"

definition new_version_row ::
  "string \<Rightarrow> string \<Rightarrow> string \<Rightarrow> public_version_id \<Rightarrow> version_kind \<Rightarrow> string option \<Rightarrow> int \<Rightarrow> datetime \<Rightarrow>
   object_version_model" where
  "new_version_row rid b k v kind oid sq now =
     \<lparr>ov_id = rid, ov_bucket = b, ov_key = k, ov_version_id = version_id_as_db_value v,
      ov_kind = (case kind of ObjectKind \<Rightarrow> ''object'' | DeleteMarkerKind \<Rightarrow> ''delete_marker''),
      ov_object_id = oid, ov_sequence = sq, ov_is_latest = True, ov_lifecycle_age_started_at = now,
      ov_became_noncurrent_at = None, ov_created_at = now, ov_updated_at = now\<rparr>"

text \<open>\<open>rid\<close> is the drawn row UUID, \<open>clock\<close> the database clock read by the residency attach.\<close>

definition insert_version_row ::
  "string \<Rightarrow> datetime \<Rightarrow> string \<Rightarrow> string \<Rightarrow> public_version_id \<Rightarrow> version_kind \<Rightarrow> string option \<Rightarrow> int \<Rightarrow>
   datetime \<Rightarrow> (db, unit) tx" where
  "insert_version_row rid clock b k v kind oid sq now =
     (if (kind = ObjectKind) \<noteq> (oid \<noteq> None) then throwT invalid_version_index
      else
        bindT (insert_object_version (new_version_row rid b k v kind oid sq now)) (\<lambda>_.
        case oid of
          None \<Rightarrow> returnT ()
        | Some i \<Rightarrow>
            bindT (queryT (\<lambda>d. ok_or invalid_version_index (find_object i (objects d)))) (\<lambda>ob.
            bindT (attach_hot_in_transaction
                     \<lparr>vri_version_row_id = rid, vri_object_id = i, vri_cid = obj_cid ob\<rparr> PvPending clock) (\<lambda>_.
            returnT ()))))"

definition prepare_install ::
  "uuid_parser \<Rightarrow> string \<Rightarrow> bucket_versioning_state \<Rightarrow> string \<Rightarrow> string \<Rightarrow> datetime \<Rightarrow>
   (db, int \<times> public_version_id) tx" where
  "prepare_install up uuid state b k now =
     bindT (lock_current_row up b k) (\<lambda>_.
     bindT (queryT (allocate_next_sequence b k)) (\<lambda>sq.
     case state of
       Enabled \<Rightarrow>
         bindT (demote_current_version b k now) (\<lambda>_. returnT (sq, Opaque uuid))
     | _ \<Rightarrow>
         bindT (demote_current_version b k now) (\<lambda>_.
         bindT (remove_null_slot up b k) (\<lambda>_. returnT (sq, NullVersion)))))"

definition install_content_version ::
  "uuid_parser \<Rightarrow> string \<Rightarrow> string \<Rightarrow> datetime \<Rightarrow> bucket_versioning_state \<Rightarrow> object_model \<Rightarrow> datetime \<Rightarrow>
   (db, string) tx" where
  "install_content_version up uuid rid clock state ob now =
     bindT (prepare_install up uuid state (obj_bucket ob) (obj_key ob) now) (\<lambda>(sq, v).
     bindT (insert_version_row rid clock (obj_bucket ob) (obj_key ob) v ObjectKind (Some (obj_id ob)) sq now) (\<lambda>_.
     bindT (set_only_latest (obj_bucket ob) (obj_key ob) (Some (obj_id ob))) (\<lambda>_.
     returnT (as_s3_str v))))"

definition install_delete_marker ::
  "uuid_parser \<Rightarrow> string \<Rightarrow> string \<Rightarrow> datetime \<Rightarrow> bucket_versioning_state \<Rightarrow> string \<Rightarrow> string \<Rightarrow> datetime \<Rightarrow>
   (db, string) tx" where
  "install_delete_marker up uuid rid clock state b k now =
     bindT (prepare_install up uuid state b k now) (\<lambda>(sq, v).
     bindT (insert_version_row rid clock b k v DeleteMarkerKind None sq now) (\<lambda>_.
     bindT (set_only_latest b k None) (\<lambda>_.
     returnT (as_s3_str v))))"

section \<open>Removing\<close>

definition lock_version_by_id :: "string \<Rightarrow> db \<Rightarrow> object_version_model option" where
  "lock_version_by_id i d = find_version i (object_versions d)"

definition public_or_null :: "object_version_model \<Rightarrow> string" where
  "public_or_null r = (case ov_version_id r of None \<Rightarrow> NULL_VERSION_ID | Some v \<Rightarrow> v)"

definition exact_marker :: "object_version_model \<Rightarrow> object_version_model \<Rightarrow> bool" where
  "exact_marker sel r \<longleftrightarrow> ov_id r = ov_id sel \<and> at_key (ov_bucket sel) (ov_key sel) r \<and>
     ov_kind r = ''delete_marker'' \<and> ov_object_id r = None \<and> ov_sequence r = ov_sequence sel \<and>
     ov_is_latest r \<and> ov_version_id r = ov_version_id sel"

definition delete_current_sole_marker ::
  "object_version_model \<Rightarrow> (db, exact_current_marker_delete_result) tx" where
  "delete_current_sole_marker sel =
     (if \<not> ov_is_latest sel then returnT Stale
      else
     bindT (liftT (version_kind_of sel)) (\<lambda>kind.
     if kind \<noteq> DeleteMarkerKind then returnT Stale
     else
     bindT (getsT (\<lambda>d. count_rows (at_key (ov_bucket sel) (ov_key sel)) (object_versions d))) (\<lambda>count.
     if count \<noteq> 1 then returnT Stale
     else
     bindT (getsT (\<lambda>d. count_rows (exact_marker sel) (object_versions d))) (\<lambda>deleted.
     bindT (modifyT (delete_object_versions (exact_marker sel))) (\<lambda>_.
     if deleted = 1
     then returnT (Deleted \<lparr>dvr_version_id = Some (public_or_null sel),
                            dvr_deleted_delete_marker = True, dvr_created_delete_marker = False\<rparr>)
     else
     bindT (getsT (\<lambda>d. count_rows (at_key (ov_bucket sel) (ov_key sel)) (object_versions d))) (\<lambda>remaining.
     returnT (if remaining = 0 then AlreadySatisfied else Stale)))))))"

definition newest_first :: "string \<Rightarrow> string \<Rightarrow> db \<Rightarrow> object_version_model list" where
  "newest_first b k d =
     sort_key (\<lambda>r. (- ov_sequence r, ov_version_id r)) (filter (at_key b k) (object_versions d))"

definition set_current :: "datetime \<Rightarrow> object_version_model \<Rightarrow> object_version_model" where
  "set_current now r = r\<lparr>ov_is_latest := True, ov_became_noncurrent_at := None, ov_updated_at := now\<rparr>"

definition version_gone :: "object_version_model \<Rightarrow> app_error" where
  "version_gone r = NoSuchVersion (ov_bucket r) (ov_key r) (public_or_null r)"

text \<open>\<open>promote\<close> is the part of \<open>remove_and_promote\<close> that runs after a current version is gone.\<close>

definition promote ::
  "uuid_parser \<Rightarrow> datetime \<Rightarrow> string \<Rightarrow> string \<Rightarrow> (db, resolved_version option) tx" where
  "promote up now b k =
     bindT (getsT (newest_first b k)) (\<lambda>rows.
     case rows of
       [] \<Rightarrow> bindT (set_only_latest b k None) (\<lambda>_. returnT None)
     | p # _ \<Rightarrow>
         bindT (getsT (\<lambda>d. count_rows (latest_at b k) (object_versions d))) (\<lambda>cleared.
         bindT (modifyT (\<lambda>d. d\<lparr>object_versions :=
                  update_rows (latest_at b k) (set_noncurrent now) (object_versions d)\<rparr>)) (\<lambda>_.
         bindT (guardT invalid_version_index (cleared \<le> 1)) (\<lambda>_.
         bindT (getsT (\<lambda>d. count_rows (\<lambda>r. ov_id r = ov_id p \<and> \<not> ov_is_latest r) (object_versions d))) (\<lambda>made.
         bindT (modifyT (\<lambda>d. d\<lparr>object_versions :=
                  update_rows (\<lambda>r. ov_id r = ov_id p \<and> \<not> ov_is_latest r) (set_current now)
                    (object_versions d)\<rparr>)) (\<lambda>_.
         bindT (guardT invalid_version_index (made = 1)) (\<lambda>_.
         let p' = set_current now p in
         bindT (liftT (version_kind_of p')) (\<lambda>kind.
         bindT (case kind of
                  ObjectKind \<Rightarrow>
                    bindT (liftT (ok_or invalid_version_index (ov_object_id p'))) (\<lambda>oid.
                      set_only_latest b k (Some oid))
                | DeleteMarkerKind \<Rightarrow> set_only_latest b k None) (\<lambda>_.
         bindT (queryT (resolved_from_row up p' True)) (\<lambda>v. returnT (Some v)))))))))))"

definition remove_and_promote ::
  "uuid_parser \<Rightarrow> datetime \<Rightarrow> object_version_model \<Rightarrow> (db, resolved_version option) tx" where
  "remove_and_promote up now sel0 =
     bindT (queryT (\<lambda>d. ok_or (version_gone sel0) (lock_version_by_id (ov_id sel0) d))) (\<lambda>sel.
     bindT (liftT (version_kind_of sel)) (\<lambda>kind.
     bindT (if kind = ObjectKind
            then bindT (release_version_reference_in_transaction (ov_id sel)) (\<lambda>_. returnT ())
            else returnT ()) (\<lambda>_.
     bindT (getsT (\<lambda>d. count_rows (\<lambda>r. ov_id r = ov_id sel) (object_versions d))) (\<lambda>deleted.
     bindT (modifyT (delete_object_versions (\<lambda>r. ov_id r = ov_id sel))) (\<lambda>_.
     bindT (guardT (version_gone sel) (deleted = 1)) (\<lambda>_.
     if \<not> ov_is_latest sel then returnT None
     else promote up now (ov_bucket sel) (ov_key sel)))))))"

end
