(* ===== verification/Version_Invariants.thy ===== *)
theory Version_Invariants
  imports Version_Store
begin

text \<open>
  The invariant of the object version store and its preservation by the operations of
  \<open>Version_Store\<close>. \<open>store_ok\<close> has four parts: every index row is well formed (\<open>row_ok\<close>); the
  versions of each key are a history with distinct sequences and version IDs whose newest row, and
  only it, is current (\<open>history_ok\<close>); the current-object projection agrees with the index
  (\<open>links_ok\<close>); and residency ownership is complete (\<open>residencies_ok\<close>).
\<close>

section \<open>The invariant\<close>

definition row_ok :: "uuid_parser \<Rightarrow> string list \<Rightarrow> object_version_model \<Rightarrow> bool" where
  "row_ok up bs r \<longleftrightarrow>
     version_checks r \<and> ov_id r \<noteq> [] \<and> 1 \<le> ov_sequence r \<and> ov_sequence r \<le> i64_max \<and>
     (ov_is_latest r \<longleftrightarrow> ov_became_noncurrent_at r = None) \<and> ov_bucket r \<in> set bs \<and>
     (case ov_version_id r of None \<Rightarrow> True | Some v \<Rightarrow> v \<noteq> NULL_VERSION_ID \<and> up v = Some v)"

definition history :: "string \<Rightarrow> string \<Rightarrow> db \<Rightarrow> object_version_model list" where
  "history b k d = filter (at_key b k) (object_versions d)"

definition history_ok :: "object_version_model list \<Rightarrow> bool" where
  "history_ok h \<longleftrightarrow>
     (\<forall>r \<in> set h. \<forall>s \<in> set h.
        (ov_sequence r = ov_sequence s \<longrightarrow> r = s) \<and> (ov_version_id r = ov_version_id s \<longrightarrow> r = s) \<and>
        (ov_is_latest r \<longrightarrow> ov_sequence s \<le> ov_sequence r)) \<and>
     (h \<noteq> [] \<longrightarrow> (\<exists>r \<in> set h. ov_is_latest r))"

definition index_ok :: "db \<Rightarrow> bool" where
  "index_ok d \<longleftrightarrow> distinct (map ov_id (object_versions d)) \<and>
     (\<forall>r \<in> set (object_versions d). history_ok (history (ov_bucket r) (ov_key r) d))"

definition places :: "db \<Rightarrow> (string \<times> string \<times> string) set" where
  "places d = (\<lambda>ob. (obj_id ob, obj_bucket ob, obj_key ob)) ` set (objects d)"

definition heads :: "object_version_model list \<Rightarrow> string option set" where
  "heads vs = ov_object_id ` set (filter ov_is_latest vs)"

definition links_ok :: "db \<Rightarrow> bool" where
  "links_ok d \<longleftrightarrow> objects_ok d \<and>
     (\<forall>r \<in> set (object_versions d).
        case ov_object_id r of None \<Rightarrow> True | Some i \<Rightarrow> (i, ov_bucket r, ov_key r) \<in> places d) \<and>
     (\<forall>ob \<in> set (objects d). obj_is_latest ob \<longleftrightarrow> Some (obj_id ob) \<in> heads (object_versions d))"

definition store_ok :: "uuid_parser \<Rightarrow> db \<Rightarrow> bool" where
  "store_ok up d \<longleftrightarrow>
     distinct (map bucket_name (buckets d)) \<and>
     (\<forall>r \<in> set (object_versions d). row_ok up (map bucket_name (buckets d)) r) \<and>
     index_ok d \<and> links_ok d \<and> residencies_ok d"

lemma store_okD:
  assumes "store_ok up d"
  shows "distinct (map bucket_name (buckets d))" "index_ok d" "links_ok d" "residencies_ok d" "objects_ok d"
    "distinct (map ov_id (object_versions d))" "distinct (map obj_id (objects d))"
    "\<And>r. r \<in> set (object_versions d) \<Longrightarrow> row_ok up (map bucket_name (buckets d)) r"
  using assms by (simp_all add: store_ok_def index_ok_def links_ok_def objects_ok_def)

section \<open>Histories\<close>

lemma at_key_refl [simp]: "at_key (ov_bucket r) (ov_key r) r"
  by (simp add: at_key_def)

lemma index_ok_iff:
  "index_ok d \<longleftrightarrow> distinct (map ov_id (object_versions d)) \<and> (\<forall>b k. history_ok (history b k d))"
proof -
  have "history_ok (history b k d)" if a: "\<And>r. r \<in> set (object_versions d) \<Longrightarrow>
      history_ok (history (ov_bucket r) (ov_key r) d)" for b k
  proof (cases "history b k d")
    case Nil
    then show ?thesis by (simp add: history_ok_def)
  next
    case (Cons r rs)
    then have "r \<in> set (history b k d)" by simp
    then have "r \<in> set (object_versions d)" "ov_bucket r = b" "ov_key r = k"
      by (simp_all add: history_def at_key_def)
    with a show ?thesis by blast
  qed
  then show ?thesis unfolding index_ok_def by blast
qed

lemma historyD: "r \<in> set (history b k d) \<longleftrightarrow> r \<in> set (object_versions d) \<and> at_key b k r"
  by (simp add: history_def)

lemma history_okD:
  assumes "history_ok h" "r \<in> set h" "s \<in> set h"
  shows "ov_sequence r = ov_sequence s \<Longrightarrow> r = s" "ov_version_id r = ov_version_id s \<Longrightarrow> r = s"
    "ov_is_latest r \<Longrightarrow> ov_sequence s \<le> ov_sequence r"
  using assms by (simp_all add: history_ok_def)

lemma history_latest_unique:
  assumes "history_ok h" "r \<in> set h" "s \<in> set h" "ov_is_latest r" "ov_is_latest s"
  shows "r = s"
  using history_okD [OF assms(1-3)] history_okD(3) [OF assms(1,3,2)] assms(4,5) by simp

lemma latest_count:
  assumes "index_ok d"
  shows "count_rows (latest_at b k) (object_versions d) \<le> 1"
proof -
  have "history_ok (history b k d)" "distinct (object_versions d)"
    using assms unfolding index_ok_iff by (simp_all add: distinct_map)
  then show ?thesis
    by (intro count_rows_le_1 [where P = "latest_at b k"])
      (simp_all add: latest_at_def history_latest_unique historyD)
qed

lemma null_count:
  assumes "index_ok d"
  shows "count_rows (null_at b k) (object_versions d) \<le> 1"
proof -
  have "history_ok (history b k d)" "distinct (object_versions d)"
    using assms unfolding index_ok_iff by (simp_all add: distinct_map)
  then show ?thesis
    by (intro count_rows_le_1 [where P = "null_at b k"])
      (auto simp: null_at_def historyD intro: history_okD(2))
qed

text \<open>Replacing the rows of one key.\<close>

definition other_keys_same :: "string \<Rightarrow> string \<Rightarrow> db \<Rightarrow> db \<Rightarrow> bool" where
  "other_keys_same b k d d' \<longleftrightarrow> (\<forall>b' k'. (b', k') \<noteq> (b, k) \<longrightarrow> history b' k' d' = history b' k' d)"

lemma index_ok_step:
  assumes "index_ok d" "other_keys_same b k d d'" "distinct (map ov_id (object_versions d'))"
    "history_ok (history b k d')"
  shows "index_ok d'"
proof -
  have "history_ok (history b' k' d')" for b' k'
  proof (cases "(b', k') = (b, k)")
    case False
    with assms(2) have "history b' k' d' = history b' k' d" unfolding other_keys_same_def by blast
    with assms(1) show ?thesis by (simp add: index_ok_iff)
  qed (use assms(4) in simp)
  with assms(3) show ?thesis by (simp add: index_ok_iff)
qed

lemma other_row:
  assumes "other_keys_same b k d d'" "\<not> at_key b k r"
  shows "r \<in> set (object_versions d') \<longleftrightarrow> r \<in> set (object_versions d)"
proof -
  have "(ov_bucket r, ov_key r) \<noteq> (b, k)" using assms(2) by (simp add: at_key_def)
  with assms(1) have "history (ov_bucket r) (ov_key r) d' = history (ov_bucket r) (ov_key r) d"
    unfolding other_keys_same_def by metis
  then show ?thesis using historyD [of r "ov_bucket r" "ov_key r"] at_key_refl by metis
qed

section \<open>Links\<close>

lemma places_projected [simp]: "places (d\<lparr>objects := map (projected b k oid) t\<rparr>) = places (d\<lparr>objects := t\<rparr>)"
  by (simp add: places_def image_image)

lemma contents_projected: "contents (d\<lparr>objects := map (projected b k oid) (objects d)\<rparr>) = contents d"
  by (simp add: contents_def image_image)

lemma linked_place:
  assumes "links_ok d" "r \<in> set (object_versions d)" "ov_object_id r = Some i"
  shows "(i, ov_bucket r, ov_key r) \<in> places d"
  using assms by (auto simp: links_ok_def split: option.splits)

lemma place_unique:
  assumes "objects_ok d" "ob \<in> set (objects d)" "(obj_id ob, b, k) \<in> places d"
  shows "object_at b k ob"
proof -
  have "(obj_id ob, obj_bucket ob, obj_key ob) \<in> places d" using assms(2) by (simp add: places_def)
  moreover have "distinct (map obj_id (objects d))" using assms(1) by (simp add: objects_ok_def)
  ultimately have "(b, k) = (obj_bucket ob, obj_key ob)"
    using keyed_pair_unique [of obj_id "objects d" "obj_id ob" "(b, k)" "\<lambda>ob. (obj_bucket ob, obj_key ob)"]
      assms(3) by (simp add: places_def)
  then show ?thesis by (simp add: object_at_def)
qed

lemma place_object:
  assumes "(i, b, k) \<in> places d"
  obtains ob where "ob \<in> set (objects d)" "obj_id ob = i" "object_at b k ob"
  using assms unfolding places_def object_at_def by (metis (no_types, lifting) imageE prod.inject)

lemma heads_iff: "x \<in> heads vs \<longleftrightarrow> (\<exists>r \<in> set vs. ov_is_latest r \<and> ov_object_id r = x)"
  by (simp add: heads_def image_iff) metis

lemma links_ok_step:
  assumes ok: "links_ok d" and objs: "objects d' = map (projected b k oid) (objects d)"
    and other: "other_keys_same b k d d'"
    and linked: "\<And>r i. r \<in> set (history b k d') \<Longrightarrow> ov_object_id r = Some i \<Longrightarrow> (i, b, k) \<in> places d"
    and head: "\<And>r. r \<in> set (history b k d') \<Longrightarrow> ov_is_latest r \<Longrightarrow> ov_object_id r = oid"
      "oid \<noteq> None \<Longrightarrow> \<exists>r \<in> set (history b k d'). ov_is_latest r"
  shows "links_ok d'"
proof -
  have objok: "objects_ok d" using ok by (simp add: links_ok_def)
  have "objects_ok (d\<lparr>objects := map (projected b k oid) (objects d)\<rparr>)" by (rule objects_ok_projected [OF objok])
  then have oo: "objects_ok d'" unfolding objects_ok_def by (simp add: objs)
  have pl: "places d' = places d" by (simp add: places_def objs image_image)
  have own: "(i, ov_bucket r, ov_key r) \<in> places d" if "r \<in> set (object_versions d')" "ov_object_id r = Some i" for r i
  proof (cases "at_key b k r")
    case True
    with that linked [of r i] show ?thesis by (simp add: historyD at_key_def)
  next
    case False
    with that other_row [OF other False] show ?thesis by (simp add: linked_place [OF ok])
  qed
  have flag: "obj_is_latest (projected b k oid ob) \<longleftrightarrow> Some (obj_id ob) \<in> heads (object_versions d')"
    if ob: "ob \<in> set (objects d)" for ob
  proof (cases "object_at b k ob")
    case True
    have "oid = Some (obj_id ob)" if hd: "Some (obj_id ob) \<in> heads (object_versions d')"
    proof -
      obtain r where r: "r \<in> set (object_versions d')" "ov_is_latest r" "ov_object_id r = Some (obj_id ob)"
        using hd unfolding heads_iff by metis
      have "object_at (ov_bucket r) (ov_key r) ob" using place_unique [OF objok ob own [OF r(1,3)]] .
      with True have "at_key b k r" by (simp add: object_at_def at_key_def)
      with r head(1) [of r] show ?thesis by (simp add: historyD)
    qed
    moreover have "Some (obj_id ob) \<in> heads (object_versions d')" if eq: "oid = Some (obj_id ob)"
    proof -
      obtain r where r: "r \<in> set (history b k d')" "ov_is_latest r" using head(2) eq by blast
      with head(1) eq show ?thesis unfolding heads_iff by (intro bexI [of _ r]) (simp_all add: historyD)
    qed
    ultimately show ?thesis using True by (auto simp: projected_def)
  next
    case False
    have "Some (obj_id ob) \<in> heads (object_versions d') \<longleftrightarrow> Some (obj_id ob) \<in> heads (object_versions d)"
    proof -
      have "\<not> at_key b k r" if "ov_object_id r = Some (obj_id ob)"
        "r \<in> set (object_versions d) \<or> r \<in> set (object_versions d')" for r
      proof -
        have "(obj_id ob, ov_bucket r, ov_key r) \<in> places d" using that own linked_place [OF ok] by metis
        then have "object_at (ov_bucket r) (ov_key r) ob" by (rule place_unique [OF objok ob])
        with False show ?thesis by (auto simp: object_at_def at_key_def)
      qed
      then show ?thesis using other_row [OF other] unfolding heads_iff by metis
    qed
    with False ok ob show ?thesis by (simp add: projected_def links_ok_def)
  qed
  have "case ov_object_id r of None \<Rightarrow> True | Some i \<Rightarrow> (i, ov_bucket r, ov_key r) \<in> places d'"
    if "r \<in> set (object_versions d')" for r
    using own that pl by (auto split: option.splits)
  with oo flag show ?thesis unfolding links_ok_def objs by simp
qed

lemma store_ok_step:
  assumes ok: "store_ok up d" and bs: "buckets d' = buckets d"
    and objs: "objects d' = map (projected b k oid) (objects d)" and other: "other_keys_same b k d d'"
    and ids: "distinct (map ov_id (object_versions d'))" and hist: "history_ok (history b k d')"
    and rows: "\<And>r. r \<in> set (history b k d') \<Longrightarrow> row_ok up (map bucket_name (buckets d)) r"
    and linked: "\<And>r i. r \<in> set (history b k d') \<Longrightarrow> ov_object_id r = Some i \<Longrightarrow> (i, b, k) \<in> places d"
    and head: "\<And>r. r \<in> set (history b k d') \<Longrightarrow> ov_is_latest r \<Longrightarrow> ov_object_id r = oid"
      "oid \<noteq> None \<Longrightarrow> \<exists>r \<in> set (history b k d'). ov_is_latest r"
    and res: "residencies_ok d'"
  shows "store_ok up d'"
proof -
  have "row_ok up (map bucket_name (buckets d)) r" if "r \<in> set (object_versions d')" for r
    using that rows [of r] other_row [OF other, of r] store_okD(8) [OF ok, of r]
    by (cases "at_key b k r") (simp_all add: historyD)
  moreover have "index_ok d'" using store_okD(2) [OF ok] other ids hist by (rule index_ok_step)
  moreover have "links_ok d'" using store_okD(3) [OF ok] objs other linked head by (rule links_ok_step)
  ultimately show ?thesis using store_okD(1) [OF ok] res bs unfolding store_ok_def by simp
qed

section \<open>Clearing the way for a new version\<close>

definition demoted :: "string \<Rightarrow> string \<Rightarrow> datetime \<Rightarrow> object_version_model \<Rightarrow> object_version_model" where
  "demoted b k now r = (if latest_at b k r then set_noncurrent now r else r)"

lemma set_noncurrent_sel [simp]:
  "ov_id (set_noncurrent now r) = ov_id r" "ov_bucket (set_noncurrent now r) = ov_bucket r"
  "ov_key (set_noncurrent now r) = ov_key r" "ov_version_id (set_noncurrent now r) = ov_version_id r"
  "ov_kind (set_noncurrent now r) = ov_kind r" "ov_object_id (set_noncurrent now r) = ov_object_id r"
  "ov_sequence (set_noncurrent now r) = ov_sequence r" "\<not> ov_is_latest (set_noncurrent now r)"
  "ov_became_noncurrent_at (set_noncurrent now r) = Some now"
  by (simp_all add: set_noncurrent_def)

lemma demoted_sel [simp]:
  "ov_id (demoted b k now r) = ov_id r" "ov_bucket (demoted b k now r) = ov_bucket r"
  "ov_key (demoted b k now r) = ov_key r" "ov_version_id (demoted b k now r) = ov_version_id r"
  "ov_kind (demoted b k now r) = ov_kind r" "ov_object_id (demoted b k now r) = ov_object_id r"
  "ov_sequence (demoted b k now r) = ov_sequence r"
  "ov_is_latest (demoted b k now r) \<longleftrightarrow> ov_is_latest r \<and> \<not> at_key b k r"
  by (auto simp: demoted_def latest_at_def)

lemma demoted_at_key [simp]: "at_key b' k' (demoted b k now r) = at_key b' k' r"
  by (simp add: at_key_def)

lemma demoted_row_ok: "row_ok up bs r \<Longrightarrow> row_ok up bs (demoted b k now r)"
  by (cases "latest_at b k r") (simp_all add: demoted_def row_ok_def version_checks_def)

lemma demoted_other: "\<not> at_key b k r \<Longrightarrow> demoted b k now r = r"
  by (simp add: demoted_def latest_at_def)

lemma update_rows_demoted: "update_rows (latest_at b k) (set_noncurrent now) t = map (demoted b k now) t"
  by (simp add: update_rows_def demoted_def)

definition demote_db :: "string \<Rightarrow> string \<Rightarrow> datetime \<Rightarrow> db \<Rightarrow> db" where
  "demote_db b k now d = d\<lparr>object_versions := map (demoted b k now) (object_versions d)\<rparr>"

definition cleared :: "bucket_versioning_state \<Rightarrow> string \<Rightarrow> string \<Rightarrow> datetime \<Rightarrow> db \<Rightarrow> db" where
  "cleared state b k now d =
     (if state = Enabled then demote_db b k now d
      else delete_object_versions (null_at b k) (demote_db b k now d))"

lemma demote_db_tables [simp]:
  "buckets (demote_db b k now d) = buckets d" "objects (demote_db b k now d) = objects d"
  "object_versions (demote_db b k now d) = map (demoted b k now) (object_versions d)"
  "physical_residencies (demote_db b k now d) = physical_residencies d"
  "version_residencies (demote_db b k now d) = version_residencies d"
  "residency_references (demote_db b k now d) = residency_references d"
  by (simp_all add: demote_db_def)

lemma delete_object_versions_tables [simp]:
  "buckets (delete_object_versions P d) = buckets d" "objects (delete_object_versions P d) = objects d"
  "object_versions (delete_object_versions P d) = delete_rows P (object_versions d)"
  "physical_residencies (delete_object_versions P d) = physical_residencies d"
  by (simp_all add: delete_object_versions_def)

lemma cleared_tables [simp]:
  "buckets (cleared state b k now d) = buckets d" "objects (cleared state b k now d) = objects d"
  "physical_residencies (cleared state b k now d) = physical_residencies d"
  by (simp_all add: cleared_def)

lemma demote_current_version_effect:
  "index_ok d \<Longrightarrow> demote_current_version b k now d = Inr ((), demote_db b k now d)"
  using latest_count [of d b k]
  by (simp add: demote_current_version_def update_rows_demoted demote_db_def)

lemma residencies_ok_demote: "residencies_ok (demote_db b k now d) = residencies_ok d"
  by (rule residencies_ok_cong) (simp_all add: owners_def contents_def image_image)

lemma history_map_demoted: "history b k (demote_db b k now d) = map (demoted b k now) (history b k d)"
  by (simp add: history_def filter_map comp_def)

lemma cleared_row:
  assumes "r \<in> set (object_versions (cleared state b k now d))"
  obtains r0 where "r0 \<in> set (object_versions d)" "r = demoted b k now r0"
    "state \<noteq> Enabled \<Longrightarrow> \<not> null_at b k r0"
proof -
  have "r \<in> demoted b k now ` set (object_versions d)" and n: "state \<noteq> Enabled \<Longrightarrow> \<not> null_at b k r"
    using assms by (simp_all add: cleared_def split: if_splits)
  then obtain r0 where r0: "r0 \<in> set (object_versions d)" "r = demoted b k now r0" by blast
  moreover have "null_at b k r = null_at b k r0" unfolding r0(2) by (simp add: null_at_def)
  ultimately show ?thesis using that n by metis
qed

lemma cleared_ids:
  assumes "distinct (map ov_id (object_versions d))"
  shows "distinct (map ov_id (object_versions (cleared state b k now d)))"
    "ov_id ` set (object_versions (cleared state b k now d)) \<subseteq> ov_id ` set (object_versions d)"
proof -
  have "map ov_id (map (demoted b k now) (object_versions d)) = map ov_id (object_versions d)" by simp
  with assms have "distinct (map ov_id (map (demoted b k now) (object_versions d)))" by (simp only:)
  then show "distinct (map ov_id (object_versions (cleared state b k now d)))"
    by (simp add: cleared_def distinct_map_delete_rows del: map_map)
  show "ov_id ` set (object_versions (cleared state b k now d)) \<subseteq> ov_id ` set (object_versions d)"
    by (rule subsetI, erule imageE, erule cleared_row) simp
qed

lemma residencies_ok_cleared:
  assumes "store_ok up d"
  shows "residencies_ok (cleared state b k now d)"
proof -
  have "residencies_ok (demote_db b k now d)" using store_okD(4) [OF assms] by (simp add: residencies_ok_demote)
  moreover have "map ov_id (object_versions (demote_db b k now d)) = map ov_id (object_versions d)" by simp
  then have "distinct (map ov_id (object_versions (demote_db b k now d)))"
    using store_okD(6) [OF assms] by (simp only:)
  ultimately show ?thesis by (simp add: cleared_def residencies_ok_delete del: demote_db_tables)
qed

lemma other_keys_cleared: "other_keys_same b k d (cleared state b k now d)"
proof -
  have "history b' k' (demote_db b k now d) = history b' k' d" if "(b', k') \<noteq> (b, k)" for b' k'
    unfolding history_def demote_db_tables
    using that by (intro filter_map_same) (auto simp: at_key_def intro!: demoted_other)
  moreover have "history b' k' (delete_object_versions (null_at b k) e) = history b' k' e" if "(b', k') \<noteq> (b, k)" for b' k' e
    unfolding history_def delete_object_versions_tables
    using that by (intro filter_delete_rows_disjoint) (auto simp: at_key_def null_at_def)
  ultimately show ?thesis unfolding other_keys_same_def cleared_def by simp
qed

lemma release_before_delete:
  assumes ok: "residencies_ok d" and dist: "distinct (map ov_id (object_versions d))"
    and r: "r \<in> set (object_versions d)" "P r" "ov_object_id r = Some oid"
  obtains d1 where "release_version_reference_in_transaction (ov_id r) d = Inr (True, d1)"
    "delete_object_versions P d1 = delete_object_versions P d" "object_versions d1 = object_versions d"
proof -
  have "(ov_id r, Some oid) \<in> owners d" unfolding owners_def using r by (intro image_eqI [of _ _ r]) simp_all
  then obtain x where x: "find_residency (ov_id r) (version_residencies d) = Some x" "vr_version_row_id x = ov_id r"
    "vr_object_id x = oid"
    "residency_row_ok (owners d) (contents d) (physical_residencies d) (residency_references d) x"
    using residency_of_version [OF ok dist] by metis
  let ?Q = "is_retained_of x (ov_id r)"
  let ?d = "d\<lparr>residency_references := delete_rows ?Q (residency_references d)\<rparr>"
  obtain y where y: "y \<in> set (residency_references d)" "?Q y"
    using x(2,4) unfolding residency_row_ok_def by metis
  have "distinct (residency_references d)" using ok by (simp add: residencies_ok_def distinct_map)
  then have "count_rows ?Q (residency_references d) = 1"
    using y retained_unique [OF ok y(1) _ y(2)] by (rule count_rows_eq_1)
  then have rel: "release_version_reference_in_transaction (ov_id r) d = Inr (True, ?d)"
    using x(1) by (simp add: release_version_reference_in_transaction_def)
  have own: "owned_by P ?d i a = owned_by P d i a" for i a by (simp add: owned_by_def)
  have "owned_by P d (ov_id r) oid" unfolding owned_by_def using r by (intro bexI [of _ r]) simp_all
  then have "delete_rows (\<lambda>z. owned_by P d (rr_version_row_id z) (rr_object_id z))
      (delete_rows ?Q (residency_references d)) =
      delete_rows (\<lambda>z. owned_by P d (rr_version_row_id z) (rr_object_id z)) (residency_references d)"
    using x(3) by (intro delete_rows_absorb) (simp add: is_retained_of_def)
  then have "delete_object_versions P ?d = delete_object_versions P d"
    by (simp add: delete_object_versions_def own)
  with rel that show ?thesis by simp
qed

lemma remove_null_slot_effect:
  assumes ok: "residencies_ok d" and dist: "distinct (map ov_id (object_versions d))"
    and one: "count_rows (null_at b k) (object_versions d) \<le> 1"
    and checks: "\<And>r. r \<in> set (object_versions d) \<Longrightarrow> version_checks r"
  shows "remove_null_slot up b k d = Inr ((), delete_object_versions (null_at b k) d)"
proof -
  have q: "one_version up b k (Exact NullVersion) d = Inr (one_row (null_at b k) (object_versions d))"
    by (simp add: null_at_def [abs_def])
  show ?thesis
  proof (cases "one_row (null_at b k) (object_versions d)")
    case None
    with one show ?thesis by (simp add: remove_null_slot_def q del: one_version.simps)
  next
    case (Some r)
    then have r: "r \<in> set (object_versions d)" "null_at b k r" by (simp_all add: one_row_SomeD)
    show ?thesis
    proof (cases "ov_object_id r")
      case None
      with checks [OF r(1)] have "version_kind_of r = Inr DeleteMarkerKind"
        by (auto simp: version_checks_def version_kind_of_def)
      with one Some show ?thesis by (simp add: remove_null_slot_def q del: one_version.simps)
    next
      case (Some oid)
      with checks [OF r(1)] have kind: "version_kind_of r = Inr ObjectKind"
        by (auto simp: version_checks_def version_kind_of_def)
      obtain d1 where d1: "release_version_reference_in_transaction (ov_id r) d = Inr (True, d1)"
        "delete_object_versions (null_at b k) d1 = delete_object_versions (null_at b k) d"
        "object_versions d1 = object_versions d"
        using release_before_delete [where P = "null_at b k", OF ok dist r Some] by metis
      with kind one \<open>one_row (null_at b k) (object_versions d) = Some r\<close> show ?thesis
        by (simp add: remove_null_slot_def q del: one_version.simps)
    qed
  qed
qed

lemma allocate_next_sequence_ok:
  assumes "\<And>r. r \<in> set (history b k d) \<Longrightarrow> 1 \<le> ov_sequence r \<and> ov_sequence r < i64_max"
  obtains n where "allocate_next_sequence b k d = Inr n" "1 \<le> n" "n \<le> i64_max"
    "\<forall>r \<in> set (history b k d). ov_sequence r < n"
proof (cases "sort_key (\<lambda>r. - ov_sequence r) (history b k d)")
  case Nil
  then have h: "history b k d = []" by (simp add: sort_key_Nil)
  then have "allocate_next_sequence b k d = Inr 1"
    by (simp add: allocate_next_sequence_def history_def checked_add_i64_def i64_min_def i64_max_def)
  then show ?thesis by (rule that) (simp_all add: h i64_max_def)
next
  case (Cons r rs)
  note top = sort_key_ConsD [OF Cons]
  then have "1 \<le> ov_sequence r" "ov_sequence r < i64_max" using assms [of r] by simp_all
  moreover from this Cons have "allocate_next_sequence b k d = Inr (ov_sequence r + 1)"
    by (simp add: allocate_next_sequence_def history_def checked_add_i64_def i64_min_def)
  moreover have "ov_sequence s < ov_sequence r + 1" if "s \<in> set (history b k d)" for s
    using top that by simp
  ultimately show ?thesis by (intro that [of "ov_sequence r + 1"]) simp_all
qed

definition installed_id :: "bucket_versioning_state \<Rightarrow> string \<Rightarrow> public_version_id" where
  "installed_id state uuid = (if state = Enabled then Opaque uuid else NullVersion)"

lemma prepare_install_effect:
  assumes ok: "store_ok up d"
    and bound: "\<And>r. r \<in> set (history b k d) \<Longrightarrow> ov_sequence r < i64_max"
  obtains sq where
    "prepare_install up uuid state b k now d = Inr ((sq, installed_id state uuid), cleared state b k now d)"
    "1 \<le> sq" "sq \<le> i64_max" "\<forall>r \<in> set (history b k d). ov_sequence r < sq"
proof -
  have rows: "row_ok up (map bucket_name (buckets d)) r" if "r \<in> set (object_versions d)" for r
    using store_okD(8) [OF ok that] .
  have "1 \<le> ov_sequence r \<and> ov_sequence r < i64_max" if "r \<in> set (history b k d)" for r
    using bound [OF that] rows [of r] that by (simp add: historyD row_ok_def)
  then obtain sq where sq: "allocate_next_sequence b k d = Inr sq" "1 \<le> sq" "sq \<le> i64_max"
    "\<forall>r \<in> set (history b k d). ov_sequence r < sq"
    using allocate_next_sequence_ok [of b k d] by metis
  have dem: "demote_current_version b k now d = Inr ((), demote_db b k now d)"
    by (rule demote_current_version_effect [OF store_okD(2) [OF ok]])
  have "null_at b k (demoted b k now r) = null_at b k r" for r by (simp add: null_at_def)
  then have "count_rows (null_at b k) (object_versions (demote_db b k now d)) \<le> 1"
    using null_count [OF store_okD(2) [OF ok], of b k] by (simp add: count_rows_map)
  moreover have "map ov_id (object_versions (demote_db b k now d)) = map ov_id (object_versions d)" by simp
  then have "distinct (map ov_id (object_versions (demote_db b k now d)))"
    using store_okD(6) [OF ok] by (simp only:)
  moreover have "version_checks r" if r: "r \<in> set (object_versions (demote_db b k now d))" for r
  proof -
    have "r \<in> demoted b k now ` set (object_versions d)" using r by simp
    then obtain r0 where r0: "r = demoted b k now r0" "r0 \<in> set (object_versions d)" by (rule imageE)
    have "row_ok up (map bucket_name (buckets d)) r" unfolding r0(1) by (rule demoted_row_ok [OF rows [OF r0(2)]])
    then show ?thesis by (simp add: row_ok_def)
  qed
  ultimately have rem: "remove_null_slot up b k (demote_db b k now d) =
      Inr ((), delete_object_versions (null_at b k) (demote_db b k now d))"
    using store_okD(4) [OF ok] by (intro remove_null_slot_effect) (simp_all add: residencies_ok_demote)
  have "prepare_install up uuid state b k now d = Inr ((sq, installed_id state uuid), cleared state b k now d)"
    using sq(1) dem rem by (cases state)
      (simp_all add: prepare_install_def lock_current_row_def installed_id_def cleared_def)
  then show ?thesis using sq(2-4) by (rule that)
qed

section \<open>Installing a version\<close>

text \<open>
  What an installation needs besides the invariant: the bucket, a fresh row ID, a fresh canonical
  version UUID when versioning is enabled, and room in the key's sequence.
\<close>

definition installable ::
  "uuid_parser \<Rightarrow> bucket_versioning_state \<Rightarrow> string \<Rightarrow> string \<Rightarrow> string \<Rightarrow> string \<Rightarrow> db \<Rightarrow> bool" where
  "installable up state uuid rid b k d \<longleftrightarrow>
     b \<in> set (map bucket_name (buckets d)) \<and> rid \<noteq> [] \<and> rid \<notin> ov_id ` set (object_versions d) \<and>
     (state = Enabled \<longrightarrow> uuid \<noteq> NULL_VERSION_ID \<and> up uuid = Some uuid \<and>
        Some uuid \<notin> ov_version_id ` set (history b k d)) \<and>
     (\<forall>r \<in> set (history b k d). ov_sequence r < i64_max)"

lemma new_version_row_sel [simp]:
  "ov_id (new_version_row rid b k v kind oid sq now) = rid"
  "ov_bucket (new_version_row rid b k v kind oid sq now) = b"
  "ov_key (new_version_row rid b k v kind oid sq now) = k"
  "ov_version_id (new_version_row rid b k v kind oid sq now) = version_id_as_db_value v"
  "ov_object_id (new_version_row rid b k v kind oid sq now) = oid"
  "ov_sequence (new_version_row rid b k v kind oid sq now) = sq"
  "ov_is_latest (new_version_row rid b k v kind oid sq now)"
  "at_key b' k' (new_version_row rid b k v kind oid sq now) \<longleftrightarrow> b' = b \<and> k' = k"
  by (auto simp: new_version_row_def at_key_def)

lemma cleared_history_row:
  assumes "r \<in> set (history b k (cleared state b k now d))"
  obtains r0 where "r0 \<in> set (history b k d)" "r = demoted b k now r0" "state \<noteq> Enabled \<Longrightarrow> ov_version_id r0 \<noteq> None"
proof -
  have r: "r \<in> set (object_versions (cleared state b k now d))" "at_key b k r" using assms by (simp_all add: historyD)
  obtain r0 where "r0 \<in> set (object_versions d)" "r = demoted b k now r0" "state \<noteq> Enabled \<Longrightarrow> \<not> null_at b k r0"
    using cleared_row [OF r(1)] by metis
  with r(2) that [of r0] show ?thesis by (simp add: historyD null_at_def)
qed

lemma cleared_key_row:
  assumes ok: "store_ok up d" and fresh: "installable up state uuid rid b k d"
    and sq: "\<forall>r \<in> set (history b k d). ov_sequence r < sq"
    and r: "r \<in> set (history b k (cleared state b k now d))"
  shows "\<not> ov_is_latest r" "ov_sequence r < sq"
    "ov_version_id r \<noteq> version_id_as_db_value (installed_id state uuid)"
    "row_ok up (map bucket_name (buckets d)) r" "ov_object_id r = Some i \<Longrightarrow> (i, b, k) \<in> places d"
proof -
  obtain r0 where r0: "r0 \<in> set (history b k d)" "r = demoted b k now r0"
    "state \<noteq> Enabled \<Longrightarrow> ov_version_id r0 \<noteq> None"
    using cleared_history_row [OF r] by metis
  have d0: "r0 \<in> set (object_versions d)" "at_key b k r0" using r0(1) by (simp_all add: historyD)
  show "\<not> ov_is_latest r" "ov_sequence r < sq" using sq r0 d0 by simp_all
  have "Some uuid \<noteq> ov_version_id r0" if "state = Enabled"
    using fresh r0(1) that by (metis (no_types, lifting) imageI installable_def)
  then show "ov_version_id r \<noteq> version_id_as_db_value (installed_id state uuid)"
    using r0(2,3) by (cases "state = Enabled") (simp_all add: installed_id_def eq_commute)
  show "row_ok up (map bucket_name (buckets d)) r"
    unfolding r0(2) by (rule demoted_row_ok [OF store_okD(8) [OF ok d0(1)]])
  show "(i, b, k) \<in> places d" if "ov_object_id r = Some i"
    using linked_place [OF store_okD(3) [OF ok] d0(1), of i] d0(2) that r0(2) by (simp add: at_key_def)
qed

lemma history_ok_install:
  assumes ok: "store_ok up d" and fresh: "installable up state uuid rid b k d"
    and sq: "\<forall>r \<in> set (history b k d). ov_sequence r < sq"
    and new: "ov_sequence new = sq" "ov_is_latest new"
      "ov_version_id new = version_id_as_db_value (installed_id state uuid)"
  shows "history_ok (history b k (cleared state b k now d) @ [new])"
proof -
  note key = cleared_key_row [OF ok fresh sq]
  have hist: "history_ok (history b k d)" using store_okD(2) [OF ok] by (simp add: index_ok_iff)
  have old: "(ov_sequence r = ov_sequence s \<longrightarrow> r = s) \<and> (ov_version_id r = ov_version_id s \<longrightarrow> r = s)"
    if rin: "r \<in> set (history b k (cleared state b k now d))"
      and sin: "s \<in> set (history b k (cleared state b k now d))" for r s
  proof -
    obtain r0 where r0: "r0 \<in> set (history b k d)" "r = demoted b k now r0"
      using cleared_history_row [OF rin] by metis
    obtain s0 where s0: "s0 \<in> set (history b k d)" "s = demoted b k now s0"
      using cleared_history_row [OF sin] by metis
    show ?thesis using history_okD(1,2) [OF hist r0(1) s0(1)] r0(2) s0(2) by auto
  qed
  have pairs: "(ov_sequence r = ov_sequence s \<longrightarrow> r = s) \<and> (ov_version_id r = ov_version_id s \<longrightarrow> r = s) \<and>
      (ov_is_latest r \<longrightarrow> ov_sequence s \<le> ov_sequence r)"
    if r: "r \<in> set (history b k (cleared state b k now d) @ [new])"
      and s: "s \<in> set (history b k (cleared state b k now d) @ [new])" for r s
  proof (cases "r = new"; cases "s = new")
    assume "r = new" "s \<noteq> new"
    with s key [of s] new show ?thesis by fastforce
  next
    assume "r \<noteq> new" "s = new"
    with r key [of r] new show ?thesis by fastforce
  next
    assume "r \<noteq> new" "s \<noteq> new"
    with r s old key(1) [of r] show ?thesis by simp
  qed simp
  show ?thesis
    unfolding history_ok_def by (intro conjI ballI pairs) (simp_all add: new(2))
qed

lemma insert_version_cleared:
  fixes now :: datetime
  assumes ok: "store_ok up d" and fresh: "installable up state uuid rid b k d"
    and sq: "\<forall>r \<in> set (history b k d). ov_sequence r < sq"
    and kind: "(kind = ObjectKind) = (oid \<noteq> None)" and oid: "\<And>i. oid = Some i \<Longrightarrow> i \<in> obj_id ` set (objects d)"
  defines "new \<equiv> new_version_row rid b k (installed_id state uuid) kind oid sq now"
  defines "d2 \<equiv> cleared state b k now d"
  shows "insert_object_version new d2 = Inr ((), d2\<lparr>object_versions := object_versions d2 @ [new]\<rparr>)"
proof -
  note key = cleared_key_row [OF ok fresh sq, where now = now]
  have same: "same_key s new \<longleftrightarrow> at_key b k s" for s by (simp add: new_def same_key_def at_key_def)
  have none: "\<not> (\<exists>s \<in> set (object_versions d2). same_key s new \<and> Q s)"
    if a: "\<And>s. s \<in> set (history b k d2) \<Longrightarrow> \<not> Q s" for Q
  proof
    assume "\<exists>s \<in> set (object_versions d2). same_key s new \<and> Q s"
    then obtain s where s: "s \<in> set (object_versions d2)" "same_key s new" "Q s" by (elim bexE conjE)
    then have "s \<in> set (history b k d2)" by (simp add: historyD same)
    then have "\<not> Q s" by (rule a)
    with s(3) show False by contradiction
  qed
  have f1: "version_checks new"
    using kind by (cases kind; cases oid) (simp_all add: new_def new_version_row_def version_checks_def)
  have f2: "ov_id new \<notin> ov_id ` set (object_versions d2)"
    using fresh cleared_ids(2) [OF store_okD(6) [OF ok], of state b k now]
    unfolding new_def d2_def installable_def new_version_row_sel by blast
  have f3: "\<not> (\<exists>s \<in> set (object_versions d2). same_key s new \<and> ov_is_latest s)"
    by (rule none) (simp add: d2_def key(1))
  have f4: "\<not> (\<exists>s \<in> set (object_versions d2). same_key s new \<and> ov_sequence s = ov_sequence new)"
  proof (rule none)
    fix s assume "s \<in> set (history b k d2)"
    then have "ov_sequence s < sq" unfolding d2_def by (rule key(2))
    then show "ov_sequence s \<noteq> ov_sequence new" by (simp add: new_def)
  qed
  have f5: "\<not> (\<exists>s \<in> set (object_versions d2). same_key s new \<and> ov_version_id s = ov_version_id new)"
    by (rule none) (simp add: d2_def new_def key(3))
  have f6: "ov_bucket new \<in> bucket_name ` set (buckets d2)"
    using fresh by (simp add: new_def d2_def installable_def)
  have f7: "\<not> (\<exists>i. ov_object_id new = Some i \<and> i \<notin> obj_id ` set (objects d2))"
    using oid by (simp add: new_def d2_def)
  show ?thesis unfolding insert_object_version_def set_map by (simp only: f1 f2 f3 f4 f5 f6 f7 simp_thms if_True if_False)
qed

text \<open>The database after an installation, and that it satisfies the invariant.\<close>

definition with_version :: "object_version_model \<Rightarrow> db \<Rightarrow> db" where
  "with_version new d = d\<lparr>object_versions := object_versions d @ [new]\<rparr>"

lemma with_version_tables [simp]:
  "buckets (with_version new d) = buckets d" "objects (with_version new d) = objects d"
  "object_versions (with_version new d) = object_versions d @ [new]"
  "physical_residencies (with_version new d) = physical_residencies d"
  "version_residencies (with_version new d) = version_residencies d"
  "residency_references (with_version new d) = residency_references d"
  by (simp_all add: with_version_def)

lemma store_ok_install:
  assumes ok: "store_ok up d" and fresh: "installable up state uuid rid b k d"
    and sq: "1 \<le> sq" "sq \<le> i64_max" "\<forall>r \<in> set (history b k d). ov_sequence r < sq"
    and kind: "(kind = ObjectKind) = (oid \<noteq> None)" and oid: "\<And>i. oid = Some i \<Longrightarrow> (i, b, k) \<in> places d"
    and new: "new = new_version_row rid b k (installed_id state uuid) kind oid sq now"
    and d': "buckets d' = buckets d" "objects d' = map (projected b k oid) (objects d)"
      "object_versions d' = object_versions (cleared state b k now d) @ [new]"
    and res: "residencies_ok d'"
  shows "store_ok up d'"
proof -
  let ?d2 = "cleared state b k now d"
  note key = cleared_key_row [OF ok fresh sq(3), where now = now]
  have hist: "history b k d' = history b k ?d2 @ [new]" by (simp add: history_def d' new)
  have other: "other_keys_same b k d d'"
    using other_keys_cleared [of b k d state now] unfolding other_keys_same_def history_def
    by (simp add: d'(3) new)
  have "distinct (map ov_id (object_versions d'))"
    using cleared_ids [OF store_okD(6) [OF ok], of state b k now] fresh
    by (auto simp: d'(3) new installable_def)
  moreover have "history_ok (history b k d')"
    unfolding hist by (rule history_ok_install [OF ok fresh sq(3)]) (simp_all add: new)
  moreover have newrow: "row_ok up (map bucket_name (buckets d)) new"
    using fresh sq(1,2) kind by (cases kind; cases oid; cases "state = Enabled")
      (simp_all add: new row_ok_def new_version_row_def version_checks_def installable_def installed_id_def)
  then have "row_ok up (map bucket_name (buckets d)) r" if "r \<in> set (history b k d')" for r
    using that key(4) [of r] unfolding hist by auto
  moreover have "(i, b, k) \<in> places d" if "r \<in> set (history b k d')" "ov_object_id r = Some i" for r i
    using that key(5) [of r i] oid [of i] unfolding hist by (auto simp: new)
  moreover have "ov_object_id r = oid" if "r \<in> set (history b k d')" "ov_is_latest r" for r
    using that key(1) [of r] unfolding hist by (auto simp: new)
  moreover have "\<exists>r \<in> set (history b k d'). ov_is_latest r" unfolding hist by (simp add: new)
  ultimately show ?thesis using store_ok_step [OF ok d'(1,2) other] res by blast
qed

lemma objects_ok_cong: "objects d' = objects d \<Longrightarrow> objects_ok d' = objects_ok d"
  by (simp add: objects_ok_def)

lemma owners_with_version: "owners (with_version new d) = insert (ov_id new, ov_object_id new) (owners d)"
  by (simp add: owners_def)

lemma install_delete_marker_effect:
  assumes ok: "store_ok up d" and fresh: "installable up state uuid rid b k d"
  obtains sq d' where
    "install_delete_marker up uuid rid clock state b k now d = Inr (as_s3_str (installed_id state uuid), d')"
    "store_ok up d'" "\<forall>r \<in> set (history b k d). ov_sequence r < sq"
    "d' = (with_version (new_version_row rid b k (installed_id state uuid) DeleteMarkerKind None sq now)
             (cleared state b k now d))\<lparr>objects := map (projected b k None) (objects d)\<rparr>"
proof -
  have bound: "ov_sequence r < i64_max" if "r \<in> set (history b k d)" for r
    using fresh that by (simp add: installable_def)
  obtain sq where sq:
    "prepare_install up uuid state b k now d = Inr ((sq, installed_id state uuid), cleared state b k now d)"
    "1 \<le> sq" "sq \<le> i64_max" "\<forall>r \<in> set (history b k d). ov_sequence r < sq"
    using prepare_install_effect [OF ok bound] by metis
  let ?new = "new_version_row rid b k (installed_id state uuid) DeleteMarkerKind None sq now"
  let ?d3 = "with_version ?new (cleared state b k now d)"
  let ?d' = "?d3\<lparr>objects := map (projected b k None) (objects d)\<rparr>"
  have "insert_object_version ?new (cleared state b k now d) = Inr ((), ?d3)"
    using insert_version_cleared [OF ok fresh sq(4), of DeleteMarkerKind None now] by (simp add: with_version_def)
  then have ins: "insert_version_row rid clock b k (installed_id state uuid) DeleteMarkerKind None sq now
      (cleared state b k now d) = Inr ((), ?d3)"
    by (simp add: insert_version_row_def)
  have "objects_ok ?d3" using store_okD(5) [OF ok] objects_ok_cong [of ?d3 d] by simp
  then have proj: "set_only_latest b k None ?d3 = Inr ((), ?d')" by (simp add: set_only_latest_None)
  have eff: "install_delete_marker up uuid rid clock state b k now d = Inr (as_s3_str (installed_id state uuid), ?d')"
    using sq(1) ins proj by (simp add: install_delete_marker_def)
  have "residencies_ok ?d' = residencies_ok ?d3"
    by (rule residencies_ok_cong) (simp_all add: contents_def owners_def image_image)
  moreover have "residencies_ok ?d3"
    using residencies_ok_cleared [OF ok, of state b k now]
    unfolding residencies_ok_def owners_with_version with_version_tables
    by (simp add: contents_def residency_row_ok_def reference_row_ok_def)
  ultimately have "store_ok up ?d'"
    by (intro store_ok_install [OF ok fresh sq(2-4), of DeleteMarkerKind None ?new now]) simp_all
  with eff sq(4) that show ?thesis by blast
qed

lemma install_content_version_effect:
  assumes ok: "store_ok up d" and ob: "ob \<in> set (objects d)" "obj_id ob \<noteq> []" "obj_cid ob \<noteq> []"
    and fresh: "installable up state uuid rid (obj_bucket ob) (obj_key ob) d"
  obtains sq d' where
    "install_content_version up uuid rid clock state ob now d = Inr (as_s3_str (installed_id state uuid), d')"
    "store_ok up d'" "\<forall>r \<in> set (history (obj_bucket ob) (obj_key ob) d). ov_sequence r < sq"
    "d' = (let new = new_version_row rid (obj_bucket ob) (obj_key ob) (installed_id state uuid) ObjectKind
                       (Some (obj_id ob)) sq now
           in (attached new ob clock (with_version new (cleared state (obj_bucket ob) (obj_key ob) now d)))
                \<lparr>objects := map (projected (obj_bucket ob) (obj_key ob) (Some (obj_id ob))) (objects d)\<rparr>)"
proof -
  define b k where "b = obj_bucket ob" and "k = obj_key ob"
  note fr = fresh [folded b_def k_def]
  have bound: "ov_sequence r < i64_max" if "r \<in> set (history b k d)" for r
    using fr that by (simp add: installable_def)
  obtain sq where sq:
    "prepare_install up uuid state b k now d = Inr ((sq, installed_id state uuid), cleared state b k now d)"
    "1 \<le> sq" "sq \<le> i64_max" "\<forall>r \<in> set (history b k d). ov_sequence r < sq"
    using prepare_install_effect [OF ok bound] by metis
  define new where "new = new_version_row rid b k (installed_id state uuid) ObjectKind (Some (obj_id ob)) sq now"
  let ?d2 = "cleared state b k now d"
  let ?d3 = "with_version new ?d2"
  let ?d4 = "attached new ob clock ?d3"
  let ?d' = "?d4\<lparr>objects := map (projected b k (Some (obj_id ob))) (objects d)\<rparr>"
  have at: "object_at b k ob" by (simp add: object_at_def b_def k_def)
  have linked: "(i, b, k) \<in> places d" if "Some (obj_id ob) = Some i" for i
    using ob(1) that unfolding places_def b_def k_def by (simp add: image_eqI [of _ _ ob])
  have ins: "insert_object_version new ?d2 = Inr ((), ?d3)"
    unfolding new_def with_version_def
    by (rule insert_version_cleared [OF ok fr sq(4)]) (use ob(1) in simp_all)
  have objs: "distinct (map obj_id (objects d))" using store_okD(7) [OF ok] .
  have ids: "distinct (map ov_id (object_versions ?d3))"
    using cleared_ids [OF store_okD(6) [OF ok], of state b k now] fr
    by (auto simp: new_def installable_def)
  have link: "content_link ?d3 new ob"
    using ob(1) at fr by (simp add: content_link_def new_def installable_def) (simp add: new_version_row_def)
  have notin: "ov_id new \<notin> fst ` owners ?d2"
    using cleared_ids(2) [OF store_okD(6) [OF ok], of state b k now] fr
    by (auto simp: owners_def new_def installable_def image_image)
  have own: "owners ?d3 = insert (ov_id new, Some (obj_id ob)) (owners ?d2)"
    by (simp add: owners_with_version new_def)
  obtain r where att: "attach_hot_in_transaction
      \<lparr>vri_version_row_id = ov_id new, vri_object_id = obj_id ob, vri_cid = obj_cid ob\<rparr> PvPending clock ?d3 =
      Inr (r, ?d4)"
    by (rule attach_hot_pending [OF residencies_ok_cleared [OF ok] notin own _ _ _ _ link ob(2,3) ids])
      (simp_all add: contents_def objs)
  have "find_object (obj_id ob) (objects d) = Some ob" using objs ob(1) by (simp add: obj.find_by_key)
  then have row: "insert_version_row rid clock b k (installed_id state uuid) ObjectKind (Some (obj_id ob)) sq now ?d2 =
      Inr ((), ?d4)"
    using ins att unfolding insert_version_row_def new_def [symmetric] by (simp add: new_def)
  have "objects_ok ?d4" using store_okD(5) [OF ok] objects_ok_cong [of ?d4 d] by simp
  then have proj: "set_only_latest b k (Some (obj_id ob)) ?d4 = Inr ((), ?d')"
    using set_only_latest_Some [of ?d4 ob "obj_id ob" b k] ob(1) at by simp
  have eff: "install_content_version up uuid rid clock state ob now d =
      Inr (as_s3_str (installed_id state uuid), ?d')"
    using sq(1) row proj by (simp add: install_content_version_def b_def [symmetric] k_def [symmetric])
  have "residencies_ok ?d4"
    by (rule residencies_ok_attached [OF residencies_ok_cleared [OF ok] notin own])
      (use ob in \<open>simp_all add: contents_def\<close>)
  moreover have "residencies_ok ?d' = residencies_ok ?d4"
    by (rule residencies_ok_cong) (simp_all add: contents_def owners_def image_image)
  ultimately have "store_ok up ?d'"
    by (intro store_ok_install [where new = new and now = now and oid = "Some (obj_id ob)" and kind = ObjectKind,
          OF ok fr sq(2-4) _ linked]) (simp_all add: new_def)
  then show ?thesis
    by (rule that [OF eff]) (use sq(4) in \<open>simp_all add: Let_def new_def b_def k_def\<close>)
qed

end
