(* ===== verification/Version_Removal.thy ===== *)
theory Version_Removal
  imports Version_Invariants
begin

text \<open>
  Resolving versions under the invariant, and removing a version with the promotion of the next one
  (\<open>remove_and_promote\<close>, \<open>delete_current_sole_marker\<close>).
\<close>

section \<open>Resolving under the invariant\<close>

definition resolved_as :: "db \<Rightarrow> object_version_model \<Rightarrow> resolved_version" where
  "resolved_as d r =
     \<lparr>rv_id = ov_id r, rv_key = ov_key r, rv_public_version_id = public_or_null r,
      rv_kind = (if ov_object_id r = None then DeleteMarkerKind else ObjectKind),
      rv_object = Option.bind (ov_object_id r) (\<lambda>i. find_object i (objects d)),
      rv_is_latest = ov_is_latest r, rv_sequence = ov_sequence r,
      rv_lifecycle_age_started_at = ov_lifecycle_age_started_at r,
      rv_became_noncurrent_at = ov_became_noncurrent_at r, rv_created_at = ov_created_at r\<rparr>"

lemma public_version_id_ok:
  assumes "row_ok up bs r"
  shows "\<exists>p. public_version_id_of up r = Inr p \<and> as_s3_str p = public_or_null r"
  using assms
  by (cases "ov_version_id r") (auto simp: public_version_id_of_def public_or_null_def row_ok_def parse_s3_def)

lemma version_kind_of_ok:
  "version_checks r \<Longrightarrow> version_kind_of r = Inr (if ov_object_id r = None then DeleteMarkerKind else ObjectKind)"
  by (auto simp: version_checks_def version_kind_of_def)

lemma linked_object:
  assumes ok: "store_ok up d" and r: "r \<in> set (object_versions d)" "ov_object_id r = Some i"
  obtains ob where "find_object i (objects d) = Some ob" "object_at (ov_bucket r) (ov_key r) ob" "obj_id ob = i"
    "ob \<in> set (objects d)"
proof -
  obtain ob where ob: "ob \<in> set (objects d)" "obj_id ob = i" "object_at (ov_bucket r) (ov_key r) ob"
    using place_object [OF linked_place [OF store_okD(3) [OF ok] r]] by metis
  then have "find_object i (objects d) = Some ob" using store_okD(7) [OF ok] by (simp add: obj.find_by_key)
  then show ?thesis using ob by (intro that)
qed

lemma marker_hides_objects:
  assumes ok: "store_ok up d" and r: "r \<in> set (object_versions d)" "ov_is_latest r" "ov_object_id r = None"
  shows "count_rows (current_at (ov_bucket r) (ov_key r)) (objects d) = 0"
  unfolding count_rows_0
proof (rule ballI, rule notI)
  fix ob assume ob: "ob \<in> set (objects d)" "current_at (ov_bucket r) (ov_key r) ob"
  then have "Some (obj_id ob) \<in> heads (object_versions d)"
    using store_okD(3) [OF ok] by (simp add: links_ok_def current_at_def)
  then obtain s where s: "s \<in> set (object_versions d)" "ov_is_latest s" "ov_object_id s = Some (obj_id ob)"
    unfolding heads_iff by metis
  have "object_at (ov_bucket s) (ov_key s) ob"
    by (rule place_unique [OF store_okD(5) [OF ok] ob(1) linked_place [OF store_okD(3) [OF ok] s(1,3)]])
  then have "at_key (ov_bucket r) (ov_key r) s" using ob(2) by (simp add: current_at_def object_at_def at_key_def)
  then have "s \<in> set (history (ov_bucket r) (ov_key r) d)" "r \<in> set (history (ov_bucket r) (ov_key r) d)"
    using s(1) r(1) by (simp_all add: historyD)
  moreover have "history_ok (history (ov_bucket r) (ov_key r) d)"
    using store_okD(2) [OF ok] by (simp add: index_ok_iff)
  ultimately have "s = r" using s(2) r(2) history_latest_unique by metis
  with s(3) r(3) show False by simp
qed

lemma head_object_latest:
  assumes ok: "store_ok up d" and r: "r \<in> set (object_versions d)" "ov_is_latest r" "ov_object_id r = Some (obj_id ob)"
    and ob: "ob \<in> set (objects d)"
  shows "obj_is_latest ob"
proof -
  have "Some (obj_id ob) \<in> heads (object_versions d)"
    unfolding heads_iff using r by (intro bexI [of _ r]) simp_all
  then show ?thesis using store_okD(3) [OF ok] ob by (simp add: links_ok_def)
qed

lemma resolved_from_row_ok:
  assumes ok: "store_ok up d" and r: "r \<in> set (object_versions d)" "val \<Longrightarrow> ov_is_latest r"
  shows "resolved_from_row up r val d = Inr (resolved_as d r)"
proof -
  have row: "row_ok up (map bucket_name (buckets d)) r" using store_okD(8) [OF ok r(1)] .
  obtain p where p: "public_version_id_of up r = Inr p" "as_s3_str p = public_or_null r"
    using public_version_id_ok [OF row] by metis
  have kind: "version_kind_of r = Inr (if ov_object_id r = None then DeleteMarkerKind else ObjectKind)"
    using row by (simp add: row_ok_def version_kind_of_ok)
  show ?thesis
  proof (cases "ov_object_id r")
    case None
    with marker_hides_objects [OF ok r(1)] r(2) kind p show ?thesis
      by (auto simp: resolved_from_row_def new_resolved_version_def resolved_as_def)
  next
    case (Some i)
    obtain ob where ob: "find_object i (objects d) = Some ob" "object_at (ov_bucket r) (ov_key r) ob"
      "obj_id ob = i" "ob \<in> set (objects d)" using linked_object [OF ok r(1) Some] by metis
    have "obj_is_latest ob" if val using head_object_latest [OF ok r(1) r(2) [OF that] _ ob(4)] Some ob(3) by simp
    with Some ob kind p r(2) show ?thesis
      by (auto simp: resolved_from_row_def new_resolved_version_def resolved_as_def get_by_id_def)
  qed
qed

lemma one_row_latest:
  assumes "index_ok d" "r \<in> set (history b k d)" "ov_is_latest r"
  shows "one_row (latest_at b k) (object_versions d) = Some r"
proof (rule one_row_unique)
  show "r \<in> set (object_versions d)" "latest_at b k r" using assms by (simp_all add: historyD latest_at_def)
  show "s = r" if "s \<in> set (object_versions d)" "latest_at b k s" for s
    using history_latest_unique [of "history b k d" s r] assms that
    by (simp add: index_ok_iff historyD latest_at_def)
qed

lemma one_row_exact:
  assumes "index_ok d" "r \<in> set (history b k d)"
  shows "one_row (\<lambda>s. at_key b k s \<and> ov_version_id s = ov_version_id r) (object_versions d) = Some r"
proof (rule one_row_unique)
  show "r \<in> set (object_versions d)" "at_key b k r \<and> ov_version_id r = ov_version_id r"
    using assms by (simp_all add: historyD)
  show "s = r" if "s \<in> set (object_versions d)" "at_key b k s \<and> ov_version_id s = ov_version_id r" for s
    using history_okD(2) [of "history b k d" s r] assms that by (simp add: index_ok_iff historyD)
qed

lemma resolve_current:
  assumes ok: "store_ok up d" and r: "r \<in> set (history b k d)" "ov_is_latest r"
    and st: "get_versioning_state b d = Inr st"
  shows "resolve_version up b k Current d = Inr (resolved_as d r, d)"
proof -
  have "one_version up b k Current d = Inr (Some r)" using one_row_latest [OF store_okD(2) [OF ok] r] by simp
  moreover have "resolved_from_row up r True d = Inr (resolved_as d r)"
    using r by (intro resolved_from_row_ok [OF ok]) (simp_all add: historyD)
  ultimately show ?thesis using st
    by (simp add: resolve_version_def resolve_with_lock_def del: one_version.simps)
qed

lemma resolve_exact:
  assumes ok: "store_ok up d" and r: "r \<in> set (history b k d)"
    and st: "get_versioning_state b d = Inr st" "st \<noteq> Unversioned"
    and p: "public_version_id_of up r = Inr p"
  shows "resolve_version up b k (Exact p) d = Inr (resolved_as d r, d)"
proof -
  have "row_ok up (map bucket_name (buckets d)) r" using r store_okD(8) [OF ok] by (simp add: historyD)
  with p have "selector_db_value up p = Inr (ov_version_id r)"
    by (cases "ov_version_id r") (auto simp: public_version_id_of_def row_ok_def parse_s3_def)
  then have "one_version up b k (Exact p) d = Inr (Some r)"
    using one_row_exact [OF store_okD(2) [OF ok] r] by simp
  moreover have "resolved_from_row up r False d = Inr (resolved_as d r)"
    using r by (intro resolved_from_row_ok [OF ok]) (simp_all add: historyD)
  ultimately show ?thesis using st
    by (simp add: resolve_version_def resolve_with_lock_def del: one_version.simps)
qed

lemma resolve_current_empty:
  assumes "history b k d = []" "get_versioning_state b d = Inr st"
  shows "resolve_version up b k Current d = Inl (no_such_key b k)"
proof -
  have "r \<notin> set (history b k d)" for r using assms(1) by simp
  then have "one_row (latest_at b k) (object_versions d) = None"
    unfolding one_row_None historyD latest_at_def by blast
  then show ?thesis using assms(2)
    by (simp add: resolve_version_def resolve_with_lock_def liftT_def)
qed

section \<open>Removing a row\<close>

definition without :: "string \<Rightarrow> db \<Rightarrow> db" where
  "without i d = delete_object_versions (\<lambda>r. ov_id r = i) d"

lemma without_tables [simp]:
  "buckets (without i d) = buckets d" "objects (without i d) = objects d"
  "object_versions (without i d) = delete_rows (\<lambda>r. ov_id r = i) (object_versions d)"
  by (simp_all add: without_def)

lemma history_without: "history b k (without i d) = filter (\<lambda>r. ov_id r \<noteq> i) (history b k d)"
  by (simp add: history_def delete_rows_def conj_commute)

lemma other_keys_without:
  assumes "distinct (map ov_id (object_versions d))" "r \<in> set (history b k d)"
  shows "other_keys_same b k d (without (ov_id r) d)"
proof -
  have "history b' k' (without (ov_id r) d) = history b' k' d" if "(b', k') \<noteq> (b, k)" for b' k'
    unfolding history_def without_tables
  proof (rule filter_delete_rows_disjoint)
    fix s assume s: "s \<in> set (object_versions d)" "at_key b' k' s"
    show "ov_id s \<noteq> ov_id r"
    proof
      assume "ov_id s = ov_id r"
      with assms s(1) have "s = r" by (metis distinct_map historyD inj_onD)
      with assms(2) s(2) that show False by (simp add: historyD at_key_def)
    qed
  qed
  then show ?thesis by (simp add: other_keys_same_def)
qed

lemma residencies_ok_without: "store_ok up d \<Longrightarrow> residencies_ok (without i d)"
  unfolding without_def by (rule residencies_ok_delete [OF store_okD(4) store_okD(6)])

lemma without_rows:
  assumes ok: "store_ok up d" and s: "s \<in> set (history b k (without i d))"
  shows "s \<in> set (history b k d)" "ov_id s \<noteq> i" "row_ok up (map bucket_name (buckets d)) s"
    "ov_object_id s = Some oid \<Longrightarrow> (oid, b, k) \<in> places d"
proof -
  show h: "s \<in> set (history b k d)" and "ov_id s \<noteq> i" using s by (simp_all add: history_without)
  then have d: "s \<in> set (object_versions d)" "at_key b k s" by (simp_all add: historyD)
  show "row_ok up (map bucket_name (buckets d)) s" using store_okD(8) [OF ok d(1)] .
  show "(oid, b, k) \<in> places d" if "ov_object_id s = Some oid"
    using linked_place [OF store_okD(3) [OF ok] d(1) that] d(2) by (simp add: at_key_def)
qed

lemma history_ok_subset:
  assumes "history_ok h" "set h' \<subseteq> set h" "h' \<noteq> [] \<Longrightarrow> \<exists>r \<in> set h'. ov_is_latest r"
  shows "history_ok h'"
  using assms unfolding history_ok_def by (metis subsetD)

lemma projected_same_head:
  assumes ok: "store_ok up d" and r: "r \<in> set (history b k d)" "ov_is_latest r" and ob: "ob \<in> set (objects d)"
  shows "projected b k (ov_object_id r) ob = ob"
proof (cases "object_at b k ob")
  case True
  have rd: "r \<in> set (object_versions d)" "at_key b k r" using r by (simp_all add: historyD)
  have "ov_object_id r = Some (obj_id ob) \<longleftrightarrow> obj_is_latest ob"
  proof
    assume "ov_object_id r = Some (obj_id ob)"
    then show "obj_is_latest ob" by (rule head_object_latest [OF ok rd(1) r(2) _ ob])
  next
    assume l: "obj_is_latest ob"
    then have "Some (obj_id ob) \<in> heads (object_versions d)"
      using store_okD(3) [OF ok] ob by (simp add: links_ok_def)
    then obtain s where s: "s \<in> set (object_versions d)" "ov_is_latest s" "ov_object_id s = Some (obj_id ob)"
      unfolding heads_iff by metis
    have "object_at (ov_bucket s) (ov_key s) ob"
      by (rule place_unique [OF store_okD(5) [OF ok] ob linked_place [OF store_okD(3) [OF ok] s(1,3)]])
    with True s(1) have "s \<in> set (history b k d)" by (simp add: historyD object_at_def at_key_def)
    then have "s = r" using history_latest_unique s(2) r store_okD(2) [OF ok] unfolding index_ok_iff by metis
    with s(3) show "ov_object_id r = Some (obj_id ob)" by simp
  qed
  then show ?thesis using True by (simp add: projected_def)
qed (simp add: projected_def)

lemma store_ok_without_noncurrent:
  assumes ok: "store_ok up d" and r: "r \<in> set (history b k d)" "\<not> ov_is_latest r"
  shows "store_ok up (without (ov_id r) d)"
proof -
  have hist: "history_ok (history b k d)" using store_okD(2) [OF ok] by (simp add: index_ok_iff)
  have "history b k d \<noteq> []" using r(1) by auto
  then obtain t where t: "t \<in> set (history b k d)" "ov_is_latest t" using hist unfolding history_ok_def by metis
  have "ov_id t \<noteq> ov_id r"
  proof
    assume "ov_id t = ov_id r"
    then have "t = r" using store_okD(6) [OF ok] t(1) r(1) by (metis distinct_map historyD inj_onD)
    with t(2) r(2) show False by simp
  qed
  then have t': "t \<in> set (history b k (without (ov_id r) d))" using t(1) by (simp add: history_without)
  have objs: "objects (without (ov_id r) d) = map (projected b k (ov_object_id t)) (objects d)"
    by (simp add: map_idI projected_same_head [OF ok t])
  have sub: "set (history b k (without (ov_id r) d)) \<subseteq> set (history b k d)" by (auto simp: history_without)
  have hok: "history_ok (history b k (without (ov_id r) d))"
    by (rule history_ok_subset [OF hist sub]) (use t t' in blast)
  have cur: "\<exists>s \<in> set (history b k (without (ov_id r) d)). ov_is_latest s" using t' t(2) by blast
  have head: "ov_object_id s = ov_object_id t" if "s \<in> set (history b k (without (ov_id r) d))" "ov_is_latest s" for s
    using history_latest_unique [OF hist _ t(1) that(2) t(2)] that(1) sub by blast
  show ?thesis
    by (rule store_ok_step [OF ok _ objs other_keys_without [OF store_okD(6) [OF ok] r(1)] _ hok
          without_rows(3) [OF ok] without_rows(4) [OF ok] head cur residencies_ok_without [OF ok]])
      (simp_all add: distinct_map_delete_rows store_okD(6) [OF ok])
qed

section \<open>Promoting the next version\<close>

definition promoted :: "string \<Rightarrow> datetime \<Rightarrow> object_version_model \<Rightarrow> object_version_model" where
  "promoted i now r = (if ov_id r = i \<and> \<not> ov_is_latest r then set_current now r else r)"

lemma set_current_sel [simp]:
  "ov_id (set_current now r) = ov_id r" "ov_bucket (set_current now r) = ov_bucket r"
  "ov_key (set_current now r) = ov_key r" "ov_version_id (set_current now r) = ov_version_id r"
  "ov_kind (set_current now r) = ov_kind r" "ov_object_id (set_current now r) = ov_object_id r"
  "ov_sequence (set_current now r) = ov_sequence r" "ov_is_latest (set_current now r)"
  "ov_became_noncurrent_at (set_current now r) = None" "at_key b k (set_current now r) = at_key b k r"
  "version_checks (set_current now r) = version_checks r"
  "ov_lifecycle_age_started_at (set_current now r) = ov_lifecycle_age_started_at r"
  "ov_created_at (set_current now r) = ov_created_at r" "public_or_null (set_current now r) = public_or_null r"
  by (simp_all add: set_current_def at_key_def version_checks_def public_or_null_def)

lemma promoted_sel [simp]:
  "ov_id (promoted i now r) = ov_id r" "ov_bucket (promoted i now r) = ov_bucket r"
  "ov_key (promoted i now r) = ov_key r" "ov_version_id (promoted i now r) = ov_version_id r"
  "ov_object_id (promoted i now r) = ov_object_id r" "ov_sequence (promoted i now r) = ov_sequence r"
  "at_key b k (promoted i now r) = at_key b k r"
  "ov_is_latest (promoted i now r) \<longleftrightarrow> ov_is_latest r \<or> ov_id r = i"
  by (auto simp: promoted_def)

lemma promoted_row_ok: "row_ok up bs r \<Longrightarrow> row_ok up bs (promoted i now r)"
  by (auto simp: promoted_def row_ok_def)

lemma update_rows_promoted:
  "update_rows (\<lambda>r. ov_id r = i \<and> \<not> ov_is_latest r) (set_current now) t = map (promoted i now) t"
  by (simp add: update_rows_def promoted_def)

lemma newest_first_Cons:
  assumes "newest_first b k d = p # ps"
  shows "p \<in> set (history b k d)" "\<forall>s \<in> set (history b k d). ov_sequence s \<le> ov_sequence p"
  using sort_key_ConsD [OF assms [unfolded newest_first_def]]
  by (auto simp: history_def less_eq_prod_def)

lemma newest_first_Nil: "newest_first b k d = [] \<longleftrightarrow> history b k d = []"
  by (simp add: newest_first_def history_def sort_key_Nil)

text \<open>The database after the promotion of row \<open>p\<close>.\<close>

definition promote_db :: "string \<Rightarrow> string \<Rightarrow> object_version_model \<Rightarrow> datetime \<Rightarrow> db \<Rightarrow> db" where
  "promote_db b k p now d =
     d\<lparr>object_versions := map (promoted (ov_id p) now) (object_versions d),
       objects := map (projected b k (ov_object_id p)) (objects d)\<rparr>"

lemma promote_db_tables [simp]:
  "buckets (promote_db b k p now d) = buckets d"
  "objects (promote_db b k p now d) = map (projected b k (ov_object_id p)) (objects d)"
  "object_versions (promote_db b k p now d) = map (promoted (ov_id p) now) (object_versions d)"
  by (simp_all add: promote_db_def)

lemma history_promote: "history b' k' (promote_db b k p now d) = map (promoted (ov_id p) now) (history b' k' d)"
  by (simp add: history_def filter_map comp_def)

lemma residencies_ok_promote: "residencies_ok (promote_db b k p now d) = residencies_ok d"
  by (rule residencies_ok_cong) (simp_all add: owners_def contents_def image_image promote_db_def)

text \<open>A database whose current version of the key was just removed.\<close>

lemma removed_current:
  assumes ok: "store_ok up d" and r: "r \<in> set (history b k d)" "ov_is_latest r"
    and s: "s \<in> set (history b k (without (ov_id r) d))"
  shows "\<not> ov_is_latest s"
proof
  assume "ov_is_latest s"
  then have "s = r"
    using history_latest_unique [of "history b k d" s r] without_rows(1) [OF ok s] r store_okD(2) [OF ok]
    by (simp add: index_ok_iff)
  with without_rows(2) [OF ok s] show False by simp
qed

lemma store_ok_without_last:
  assumes ok: "store_ok up d" and r: "r \<in> set (history b k d)"
    and last: "history b k (without (ov_id r) d) = []"
  shows "store_ok up ((without (ov_id r) d)\<lparr>objects := map (projected b k None) (objects d)\<rparr>)" (is "store_ok up ?d")
proof -
  have h: "history b' k' ?d = history b' k' (without (ov_id r) d)" for b' k' by (simp add: history_def)
  have "other_keys_same b k d ?d"
    using other_keys_without [OF store_okD(6) [OF ok] r] by (simp add: other_keys_same_def h)
  moreover have "residencies_ok ?d = residencies_ok (without (ov_id r) d)"
    by (rule residencies_ok_cong) (simp_all add: owners_def contents_def image_image)
  ultimately show ?thesis
    using residencies_ok_without [OF ok]
    by (intro store_ok_step [where b = b and k = k and oid = None, OF ok])
      (simp_all add: h last distinct_map_delete_rows store_okD(6) [OF ok] history_ok_def)
qed

lemma store_ok_promote:
  assumes ok: "store_ok up d" and r: "r \<in> set (history b k d)" "ov_is_latest r"
    and p: "newest_first b k (without (ov_id r) d) = p # ps"
  shows "store_ok up (promote_db b k p now (without (ov_id r) d))" (is "store_ok up ?d")
proof -
  let ?d1 = "without (ov_id r) d"
  note top = newest_first_Cons [OF p]
  note rows = without_rows [OF ok]
  have hist: "history_ok (history b k d)" using store_okD(2) [OF ok] by (simp add: index_ok_iff)
  have p_d: "p \<in> set (object_versions d)" "at_key b k p" using rows(1) [OF top(1)] by (simp_all add: historyD)
  have id_p: "s = p" if "s \<in> set (object_versions d)" "ov_id s = ov_id p" for s
    using store_okD(6) [OF ok] that p_d(1) by (metis distinct_map inj_onD)
  have same: "promoted (ov_id p) now s = s" if "s \<in> set (object_versions d)" "\<not> at_key b k s" for s
    using id_p [OF that(1)] that(2) p_d(2) by (auto simp: promoted_def)
  have other: "other_keys_same b k d ?d"
  proof -
    have "map (promoted (ov_id p) now) (history b' k' ?d1) = history b' k' d" if "(b', k') \<noteq> (b, k)" for b' k'
    proof -
      have eq: "history b' k' ?d1 = history b' k' d"
        using other_keys_without [OF store_okD(6) [OF ok] r(1)] that by (simp add: other_keys_same_def)
      have "promoted (ov_id p) now s = s" if "s \<in> set (history b' k' d)" for s
        using that \<open>(b', k') \<noteq> (b, k)\<close> by (intro same) (auto simp: historyD at_key_def)
      then show ?thesis unfolding eq by (simp add: map_idI)
    qed
    then show ?thesis by (simp add: other_keys_same_def history_promote)
  qed
  have "map ov_id (object_versions ?d) = map ov_id (object_versions ?d1)" by simp
  then have ids: "distinct (map ov_id (object_versions ?d))"
    using distinct_map_delete_rows [OF store_okD(6) [OF ok]] by (simp add: comp_def)
  have row: "\<exists>s0 \<in> set (history b k ?d1). s = promoted (ov_id p) now s0" if "s \<in> set (history b k ?d)" for s
    using that by (simp add: history_promote image_iff)
  have flag: "ov_is_latest (promoted (ov_id p) now s) \<longleftrightarrow> s = p" if "s \<in> set (history b k ?d1)" for s
    using removed_current [OF ok r that] id_p [of s] rows(1) [OF that] by (auto simp: historyD)
  have hok: "history_ok (history b k ?d)"
    unfolding history_ok_def history_promote set_map ball_simps
  proof (intro conjI ballI impI)
    fix s t assume st: "s \<in> set (history b k ?d1)" "t \<in> set (history b k ?d1)"
    note eq = history_okD(1,2) [OF hist rows(1) [OF st(1)] rows(1) [OF st(2)]]
    show "promoted (ov_id p) now s = promoted (ov_id p) now t"
      if "ov_sequence (promoted (ov_id p) now s) = ov_sequence (promoted (ov_id p) now t)" using that eq(1) by simp
    show "promoted (ov_id p) now s = promoted (ov_id p) now t"
      if "ov_version_id (promoted (ov_id p) now s) = ov_version_id (promoted (ov_id p) now t)" using that eq(2) by simp
    show "ov_sequence (promoted (ov_id p) now t) \<le> ov_sequence (promoted (ov_id p) now s)"
      if "ov_is_latest (promoted (ov_id p) now s)" using that flag [OF st(1)] top(2) st(2) by simp
  qed (use flag [OF top(1)] top(1) in blast)
  have head: "ov_object_id s = ov_object_id p" if s: "s \<in> set (history b k ?d)" "ov_is_latest s" for s
  proof -
    obtain s0 where s0: "s0 \<in> set (history b k ?d1)" "s = promoted (ov_id p) now s0" using row [OF s(1)] by (elim bexE)
    with s(2) flag [OF s0(1)] show ?thesis by simp
  qed
  have cur: "\<exists>s \<in> set (history b k ?d). ov_is_latest s"
    using top(1) flag [OF top(1)] unfolding history_promote by (simp add: bexI [of _ p])
  have rok: "row_ok up (map bucket_name (buckets d)) s" if s: "s \<in> set (history b k ?d)" for s
  proof -
    obtain s0 where s0: "s0 \<in> set (history b k ?d1)" "s = promoted (ov_id p) now s0" using row [OF s] by (elim bexE)
    show ?thesis unfolding s0(2) by (rule promoted_row_ok [OF rows(3) [OF s0(1)]])
  qed
  have lnk: "(i, b, k) \<in> places d" if s: "s \<in> set (history b k ?d)" "ov_object_id s = Some i" for s i
  proof -
    obtain s0 where s0: "s0 \<in> set (history b k ?d1)" "s = promoted (ov_id p) now s0" using row [OF s(1)] by (elim bexE)
    show ?thesis using rows(4) [OF s0(1), of i] s(2) s0(2) by simp
  qed
  have res: "residencies_ok ?d" using residencies_ok_without [OF ok] by (simp add: residencies_ok_promote)
  show ?thesis
    by (rule store_ok_step [OF ok _ _ other ids hok rok lnk head cur res]) simp_all
qed

lemma promote_effect:
  assumes ok: "store_ok up d" and r: "r \<in> set (history b k d)" "ov_is_latest r"
  shows "promote up now b k (without (ov_id r) d) =
    (case newest_first b k (without (ov_id r) d) of
       [] \<Rightarrow> Inr (None, (without (ov_id r) d)\<lparr>objects := map (projected b k None) (objects d)\<rparr>)
     | p # _ \<Rightarrow> let d' = promote_db b k p now (without (ov_id r) d)
                in Inr (Some (resolved_as d' (set_current now p)), d'))"
proof (cases "newest_first b k (without (ov_id r) d)")
  case Nil
  have "objects_ok (without (ov_id r) d)" using store_okD(5) [OF ok] by (simp add: objects_ok_def)
  then show ?thesis using Nil by (simp add: promote_def set_only_latest_None)
next
  case (Cons p ps)
  let ?d1 = "without (ov_id r) d"
  let ?d2 = "?d1\<lparr>object_versions := map (promoted (ov_id p) now) (object_versions ?d1)\<rparr>"
  let ?d' = "promote_db b k p now ?d1"
  note top = newest_first_Cons [OF Cons]
  have ok': "store_ok up ?d'" by (rule store_ok_promote [OF ok r Cons])
  have not_latest: "\<not> latest_at b k s" if "s \<in> set (object_versions ?d1)" for s
    using removed_current [OF ok r, of s] that unfolding historyD latest_at_def by blast
  then have clear: "count_rows (latest_at b k) (object_versions ?d1) = 0"
    "update_rows (latest_at b k) (set_noncurrent now) (object_versions ?d1) = object_versions ?d1"
    by (simp_all add: count_rows_0 update_rows_none del: without_tables)
  have p1: "p \<in> set (object_versions ?d1)" "at_key b k p" "\<not> ov_is_latest p"
    using top(1) removed_current [OF ok r top(1)] by (simp_all add: historyD)
  have dist: "distinct (map ov_id (object_versions ?d1))"
    using store_okD(6) [OF ok] by (simp add: distinct_map_delete_rows)
  have made: "count_rows (\<lambda>s. ov_id s = ov_id p \<and> \<not> ov_is_latest s) (object_versions ?d1) = 1"
    using count_rows_key_and [where P = "\<lambda>s. \<not> ov_is_latest s", OF dist p1(1,3)] .
  have p_d: "p \<in> set (object_versions d)" using p1(1) by simp
  have row: "row_ok up (map bucket_name (buckets d)) p" using store_okD(8) [OF ok p_d] .
  have kind: "version_kind_of (set_current now p) = Inr (if ov_object_id p = None then DeleteMarkerKind else ObjectKind)"
    using row by (simp add: row_ok_def version_kind_of_ok)
  have oo: "objects_ok ?d2" using store_okD(5) [OF ok] by (simp add: objects_ok_def)
  have proj: "set_only_latest b k (ov_object_id p) ?d2 = Inr ((), ?d')"
  proof (cases "ov_object_id p")
    case None
    with oo show ?thesis by (simp add: set_only_latest_None promote_db_def)
  next
    case (Some i)
    obtain ob where "object_at (ov_bucket p) (ov_key p) ob" "obj_id ob = i" "ob \<in> set (objects d)"
      using linked_object [OF ok p_d Some] by metis
    with oo Some p1(2) show ?thesis
      using set_only_latest_Some [of ?d2 ob i b k] by (simp add: promote_db_def at_key_def)
  qed
  have "promoted (ov_id p) now p = set_current now p" using p1(3) by (simp add: promoted_def)
  with p1(1) have "set_current now p \<in> set (object_versions ?d')"
    unfolding promote_db_tables set_map by (metis imageI)
  then have final: "resolved_from_row up (set_current now p) True ?d' = Inr (resolved_as ?d' (set_current now p))"
    by (rule resolved_from_row_ok [OF ok']) simp
  have upd: "?d1\<lparr>object_versions := object_versions ?d1\<rparr> = ?d1" by simp
  show ?thesis
    using Cons clear made kind proj final unfolding promote_def update_rows_promoted
    by (cases "ov_object_id p") (simp_all add: Let_def liftT_def del: without_tables promote_db_tables)
qed

lemma remove_and_promote_effect:
  assumes ok: "store_ok up d" and r: "r \<in> set (history b k d)" and sel: "ov_id sel = ov_id r"
  shows "remove_and_promote up now sel d =
    (if ov_is_latest r then promote up now b k (without (ov_id r) d) else Inr (None, without (ov_id r) d))"
proof -
  have r_d: "r \<in> set (object_versions d)" "ov_bucket r = b" "ov_key r = k"
    using r by (simp_all add: historyD at_key_def)
  have dist: "distinct (map ov_id (object_versions d))" by (rule store_okD(6) [OF ok])
  have find: "lock_version_by_id (ov_id r) d = Some r"
    using dist r_d(1) by (simp add: lock_version_by_id_def ver.find_by_key)
  have kind: "version_kind_of r = Inr (if ov_object_id r = None then DeleteMarkerKind else ObjectKind)"
    using store_okD(8) [OF ok r_d(1)] by (simp add: row_ok_def version_kind_of_ok)
  have one: "count_rows (\<lambda>s. ov_id s = ov_id r) (object_versions d) = 1"
    by (rule count_rows_key [OF dist r_d(1)])
  show ?thesis
  proof (cases "ov_object_id r")
    case None
    with find kind one r_d(2,3) sel show ?thesis
      by (simp add: remove_and_promote_def without_def)
  next
    case (Some i)
    obtain d1 where d1: "release_version_reference_in_transaction (ov_id r) d = Inr (True, d1)"
      "delete_object_versions (\<lambda>s. ov_id s = ov_id r) d1 = delete_object_versions (\<lambda>s. ov_id s = ov_id r) d"
      "object_versions d1 = object_versions d"
      using release_before_delete [where P = "\<lambda>s. ov_id s = ov_id r", OF store_okD(4) [OF ok] dist r_d(1) refl Some]
      by metis
    with find kind one r_d(2,3) Some sel show ?thesis
      by (simp add: remove_and_promote_def without_def)
  qed
qed

end
