(* ===== verification/Version_Properties.thy ===== *)
theory Version_Properties
  imports Version_Removal
begin

text \<open>
  What the version store promises its callers: installing and removing versions keeps the invariant
  and always succeeds on a consistent store, reads see the newest version, enabled versioning never
  loses an older version, suspended versioning replaces only the null version, and no operation on
  one key is visible through another.
\<close>

section \<open>After an installation\<close>

lemma history_installed:
  "object_versions d' = object_versions (cleared state b k now d) @ [new_version_row rid b k v kind oid sq now] \<Longrightarrow>
   history b k d' = history b k (cleared state b k now d) @ [new_version_row rid b k v kind oid sq now]"
  by (simp add: history_def)

lemma find_object_projected:
  "distinct (map obj_id t) \<Longrightarrow>
   find_object i (map (projected b k oid) t) = map_option (projected b k oid) (find_object i t)"
  using obj.find_by_update [of "projected b k oid" t i "\<lambda>_. True"] by (simp add: update_rows_def)

lemma get_latest_projected:
  assumes "distinct (map obj_id (objects d))" "ob \<in> set (objects d)" "object_at b k ob"
    "objects d' = map (projected b k (Some (obj_id ob))) (objects d)"
  shows "get_latest b k d' = Inr (ob\<lparr>obj_is_latest := True\<rparr>)"
proof -
  have "one_row (current_at b k) (objects d') = Some (projected b k (Some (obj_id ob)) ob)"
    unfolding assms(4)
  proof (rule one_row_unique)
    show "projected b k (Some (obj_id ob)) ob \<in> set (map (projected b k (Some (obj_id ob))) (objects d))"
      using assms(2) by simp
    show "current_at b k (projected b k (Some (obj_id ob)) ob)" using assms(3) by (simp add: current_at_projected)
    fix s assume s: "s \<in> set (map (projected b k (Some (obj_id ob))) (objects d))" "current_at b k s"
    from s(1) obtain s0 where s0: "s = projected b k (Some (obj_id ob)) s0" "s0 \<in> set (objects d)"
      unfolding set_map by (rule imageE)
    with s(2) have "obj_id s0 = obj_id ob" by (simp add: current_at_projected)
    then have "s0 = ob" using assms(1,2) s0(2) by (metis distinct_map inj_onD)
    with s0(1) show "s = projected b k (Some (obj_id ob)) ob" by simp
  qed
  then show ?thesis using assms(3) by (simp add: get_latest_def projected_def)
qed

lemma sample_store_ok: "store_ok Some sample_db"
  by (simp add: store_ok_def index_ok_def history_def history_ok_def row_ok_def version_checks_def
      i64_max_def links_ok_def objects_ok_def places_def heads_def sample_residencies_ok)

text \<open>The sample store with a second object of the same key, written but not yet installed.\<close>

definition second_object :: object_model where
  "second_object = sample_object\<lparr>obj_id := ''o2'', obj_cid := ''c2'', obj_is_latest := False\<rparr>"

definition second_db :: db where
  "second_db = sample_db\<lparr>objects := [sample_object, second_object]\<rparr>"

lemma second_tables [simp]:
  "buckets second_db = buckets sample_db" "objects second_db = [sample_object, second_object]"
  "object_versions second_db = [sample_version]"
  "physical_residencies second_db = physical_residencies sample_db"
  "version_residencies second_db = version_residencies sample_db"
  "residency_references second_db = residency_references sample_db"
  "obj_id second_object = ''o2''" "obj_cid second_object = ''c2''" "obj_bucket second_object = ''b''"
  "obj_key second_object = ''k''" "\<not> obj_is_latest second_object"
  by (simp_all add: second_db_def second_object_def)

lemma second_store_ok: "store_ok Some second_db"
  by (simp add: store_ok_def index_ok_def history_def history_ok_def row_ok_def version_checks_def
      i64_max_def links_ok_def objects_ok_def places_def heads_def residencies_ok_def sample_physical_ok
      owners_def contents_def residency_row_ok_def reference_row_ok_def is_retained_of_def)

lemma second_installable: "installable Some st ''u2'' ''v2'' ''b'' ''k'' second_db"
  by (simp add: installable_def history_def i64_max_def NULL_VERSION_ID_def)

section \<open>Installing content\<close>

text \<open>C16: On a consistent store, installing an existing object as the new version of its key always
  succeeds in every versioning state and leaves the store consistent.\<close>

theorem install_content_keeps_store:
  assumes "store_ok up d" "ob \<in> set (objects d)" "obj_id ob \<noteq> []" "obj_cid ob \<noteq> []"
    and "installable up state uuid rid (obj_bucket ob) (obj_key ob) d"
  shows "\<exists>v d'. install_content_version up uuid rid clock state ob now d = Inr (v, d') \<and> store_ok up d'"
  using install_content_version_effect [OF assms, of clock now] by metis

theorem install_content_keeps_store_witness:
  "\<exists>v d'. install_content_version Some ''u2'' ''v2'' 9 Suspended second_object 9 second_db = Inr (v, d') \<and> store_ok Some d'"
  by (rule install_content_keeps_store [OF second_store_ok]) (simp_all add: second_installable)

lemma install_content_inv:
  assumes "store_ok up d" "ob \<in> set (objects d)" "obj_id ob \<noteq> []" "obj_cid ob \<noteq> []"
    and "installable up state uuid rid (obj_bucket ob) (obj_key ob) d"
    and "install_content_version up uuid rid clock state ob now d = Inr (v, d')"
  obtains sq where "v = as_s3_str (installed_id state uuid)" "store_ok up d'" "buckets d' = buckets d"
    "objects d' = map (projected (obj_bucket ob) (obj_key ob) (Some (obj_id ob))) (objects d)"
    "object_versions d' = object_versions (cleared state (obj_bucket ob) (obj_key ob) now d) @
       [new_version_row rid (obj_bucket ob) (obj_key ob) (installed_id state uuid) ObjectKind (Some (obj_id ob)) sq now]"
    "\<forall>r \<in> set (history (obj_bucket ob) (obj_key ob) d). ov_sequence r < sq"
proof -
  obtain sq d1 where e: "install_content_version up uuid rid clock state ob now d =
      Inr (as_s3_str (installed_id state uuid), d1)" "store_ok up d1"
    "\<forall>r \<in> set (history (obj_bucket ob) (obj_key ob) d). ov_sequence r < sq"
    "d1 = (let new = new_version_row rid (obj_bucket ob) (obj_key ob) (installed_id state uuid) ObjectKind
                       (Some (obj_id ob)) sq now
           in (attached new ob clock (with_version new (cleared state (obj_bucket ob) (obj_key ob) now d)))
                \<lparr>objects := map (projected (obj_bucket ob) (obj_key ob) (Some (obj_id ob))) (objects d)\<rparr>)"
    using install_content_version_effect [OF assms(1-5), of clock now] by metis
  then have eq: "v = as_s3_str (installed_id state uuid)" "d' = d1" using assms(6) by simp_all
  show ?thesis
  proof (rule that)
    show "v = as_s3_str (installed_id state uuid)" "store_ok up d'" using eq e(2) by simp_all
    show "\<forall>r \<in> set (history (obj_bucket ob) (obj_key ob) d). ov_sequence r < sq" by (rule e(3))
  qed (simp_all add: eq(2) e(4) Let_def)
qed

lemma installed_public_id:
  "public_or_null (new_version_row rid b k (installed_id state uuid) kind oid sq now) =
     as_s3_str (installed_id state uuid)"
  by (simp add: public_or_null_def installed_id_def)

text \<open>C7: After an installation the key's current version is exactly the installed object under the
  returned version ID, both in the version index and in the current-object projection.\<close>

theorem install_content_then_read:
  assumes "store_ok up d" "ob \<in> set (objects d)" "obj_id ob \<noteq> []" "obj_cid ob \<noteq> []"
    and "installable up state uuid rid (obj_bucket ob) (obj_key ob) d"
    and "get_versioning_state (obj_bucket ob) d = Inr st"
    and "install_content_version up uuid rid clock state ob now d = Inr (v, d')"
  shows "(\<exists>rv. resolve_version up (obj_bucket ob) (obj_key ob) Current d' = Inr (rv, d') \<and>
            rv_object rv = Some (ob\<lparr>obj_is_latest := True\<rparr>) \<and> rv_public_version_id rv = v \<and>
            rv_is_latest rv \<and> rv_id rv = rid) \<and>
         get_latest (obj_bucket ob) (obj_key ob) d' = Inr (ob\<lparr>obj_is_latest := True\<rparr>)"
proof -
  define b k where "b = obj_bucket ob" and "k = obj_key ob"
  obtain sq where e: "v = as_s3_str (installed_id state uuid)" "store_ok up d'" "buckets d' = buckets d"
    "objects d' = map (projected b k (Some (obj_id ob))) (objects d)"
    "object_versions d' = object_versions (cleared state b k now d) @
       [new_version_row rid b k (installed_id state uuid) ObjectKind (Some (obj_id ob)) sq now]"
    using install_content_inv [OF assms(1-5,7)] unfolding b_def k_def by metis
  let ?new = "new_version_row rid b k (installed_id state uuid) ObjectKind (Some (obj_id ob)) sq now"
  have new: "?new \<in> set (history b k d')" using history_installed [OF e(5)] by simp
  have at: "object_at b k ob" by (simp add: b_def k_def object_at_def)
  have "get_versioning_state b d' = Inr st" using assms(6) get_versioning_state_cong [OF e(3)] by (simp add: b_def)
  then have res: "resolve_version up b k Current d' = Inr (resolved_as d' ?new, d')"
    by (rule resolve_current [OF e(2) new new_version_row_sel(7)])
  have dist: "distinct (map obj_id (objects d))" by (rule store_okD(7) [OF assms(1)])
  have "find_object (obj_id ob) (objects d') = Some (ob\<lparr>obj_is_latest := True\<rparr>)"
    using dist assms(2) at by (simp add: e(4) find_object_projected obj.find_by_key projected_def)
  then have "rv_object (resolved_as d' ?new) = Some (ob\<lparr>obj_is_latest := True\<rparr>)"
    "rv_public_version_id (resolved_as d' ?new) = v" "rv_is_latest (resolved_as d' ?new)"
    "rv_id (resolved_as d' ?new) = rid"
    by (simp_all add: resolved_as_def installed_public_id e(1))
  with res get_latest_projected [OF dist assms(2) at e(4)] show ?thesis
    unfolding b_def [symmetric] k_def [symmetric] by blast
qed

lemma second_versioning: "get_versioning_state ''b'' second_db = Inr Enabled"
  by (simp add: get_versioning_state_def bucket_get_def find_bucket_def one_row_def versioning_from_db_value_def)

theorem install_content_then_read_witness:
  "\<exists>v d'. install_content_version Some ''u2'' ''v2'' 9 Enabled second_object 9 second_db = Inr (v, d') \<and>
     get_latest ''b'' ''k'' d' = Inr (second_object\<lparr>obj_is_latest := True\<rparr>)"
proof -
  obtain v d' where i: "install_content_version Some ''u2'' ''v2'' 9 Enabled second_object 9 second_db = Inr (v, d')"
    using install_content_version_effect [OF second_store_ok, of second_object Enabled "''u2''" "''v2''" 9 9]
      second_installable by (metis list.distinct(1) list.set_intros second_tables(2,7-10))
  then show ?thesis
    using install_content_then_read [OF second_store_ok, of second_object Enabled "''u2''" "''v2''" Enabled 9 9 v d']
      second_installable second_versioning by simp
qed

section \<open>What an installation leaves alone\<close>

lemma demoted_resolved:
  "rv_id (resolved_as d (demoted b k now r)) = ov_id r"
  "rv_is_latest (resolved_as d (demoted b k now r)) \<longleftrightarrow> ov_is_latest r \<and> \<not> at_key b k r"
  "rv_object (resolved_as d (demoted b k now r)) = rv_object (resolved_as d r)"
  by (simp_all add: resolved_as_def)

lemma resolved_cid_projected:
  assumes "distinct (map obj_id (objects d))" "objects d' = map (projected b k oid) (objects d)"
  shows "map_option obj_cid (rv_object (resolved_as d' r)) = map_option obj_cid (rv_object (resolved_as d r))"
  using assms by (cases "ov_object_id r")
    (simp_all add: resolved_as_def find_object_projected option.map_comp comp_def)

lemma public_version_id_of_demoted [simp]:
  "public_version_id_of up (demoted b k now r) = public_version_id_of up r"
  by (simp add: public_version_id_of_def)

text \<open>C13: While versioning is enabled, installing a new version loses no older one: each is still read
  under its own version ID with the same row and content, as a noncurrent version.\<close>

theorem enabled_install_keeps_versions:
  assumes "store_ok up d" "ob \<in> set (objects d)" "obj_id ob \<noteq> []" "obj_cid ob \<noteq> []"
    and "installable up Enabled uuid rid (obj_bucket ob) (obj_key ob) d"
    and "get_versioning_state (obj_bucket ob) d = Inr Enabled"
    and "install_content_version up uuid rid clock Enabled ob now d = Inr (v, d')"
    and "r \<in> set (history (obj_bucket ob) (obj_key ob) d)" "public_version_id_of up r = Inr p"
  shows "\<exists>rv. resolve_version up (obj_bucket ob) (obj_key ob) (Exact p) d' = Inr (rv, d') \<and> rv_id rv = ov_id r \<and>
           \<not> rv_is_latest rv \<and>
           map_option obj_cid (rv_object rv) =
             map_option obj_cid (Option.bind (ov_object_id r) (\<lambda>i. find_object i (objects d)))"
proof -
  define b k where "b = obj_bucket ob" and "k = obj_key ob"
  obtain sq where e: "store_ok up d'" "buckets d' = buckets d"
    "objects d' = map (projected b k (Some (obj_id ob))) (objects d)"
    "object_versions d' = object_versions (cleared Enabled b k now d) @
       [new_version_row rid b k (installed_id Enabled uuid) ObjectKind (Some (obj_id ob)) sq now]"
    using install_content_inv [OF assms(1-5,7)] unfolding b_def k_def by metis
  have r: "r \<in> set (history b k d)" "at_key b k r" using assms(8) by (simp_all add: b_def k_def historyD)
  have "demoted b k now r \<in> set (history b k d')"
    unfolding history_installed [OF e(4)] using r by (simp add: cleared_def history_map_demoted)
  moreover have "get_versioning_state b d' = Inr Enabled"
    using assms(6) get_versioning_state_cong [OF e(2)] by (simp add: b_def)
  ultimately have res: "resolve_version up b k (Exact p) d' = Inr (resolved_as d' (demoted b k now r), d')"
    using assms(9) by (intro resolve_exact [where st = Enabled, OF e(1)]) simp_all
  have "map_option obj_cid (rv_object (resolved_as d' (demoted b k now r))) =
      map_option obj_cid (rv_object (resolved_as d r))"
    using resolved_cid_projected [OF store_okD(7) [OF assms(1)] e(3)] by (simp add: demoted_resolved)
  with res r(2) show ?thesis
    unfolding b_def [symmetric] k_def [symmetric]
    by (intro exI [of _ "resolved_as d' (demoted b k now r)"]) (simp add: demoted_resolved, simp add: resolved_as_def)
qed

theorem enabled_install_keeps_versions_witness:
  "\<exists>v d' rv. install_content_version Some ''u2'' ''v2'' 9 Enabled second_object 9 second_db = Inr (v, d') \<and>
     resolve_version Some ''b'' ''k'' (Exact NullVersion) d' = Inr (rv, d') \<and> rv_id rv = ''v1'' \<and>
     map_option obj_cid (rv_object rv) = Some ''c1''"
proof -
  obtain v d' where i: "install_content_version Some ''u2'' ''v2'' 9 Enabled second_object 9 second_db = Inr (v, d')"
    using install_content_version_effect [OF second_store_ok, of second_object Enabled "''u2''" "''v2''" 9 9]
      second_installable by (metis list.distinct(1) list.set_intros second_tables(2,7-10))
  have "\<exists>rv. resolve_version Some ''b'' ''k'' (Exact NullVersion) d' = Inr (rv, d') \<and> rv_id rv = ''v1'' \<and>
      map_option obj_cid (rv_object rv) = Some ''c1''"
    using enabled_install_keeps_versions [OF second_store_ok, of second_object "''u2''" "''v2''" 9 9 v d' sample_version
        NullVersion] i second_installable second_versioning
    by (auto simp: history_def at_key_def public_version_id_of_def find_object_def one_row_def)
  with i show ?thesis by blast
qed

lemma history_cleared_null:
  assumes "state \<noteq> Enabled"
  shows "map (\<lambda>r. (ov_id r, ov_version_id r)) (history b k (cleared state b k now d)) =
    map (\<lambda>r. (ov_id r, ov_version_id r)) (filter (\<lambda>r. ov_version_id r \<noteq> None) (history b k d))"
proof -
  have "history b k (cleared state b k now d) =
      filter (\<lambda>r. ov_version_id r \<noteq> None) (map (demoted b k now) (history b k d))"
    using assms by (simp add: cleared_def history_def delete_rows_def null_at_def filter_map comp_def)
      (auto intro!: arg_cong [where f = "map (demoted b k now)"] filter_cong)
  then show ?thesis by (simp add: filter_map comp_def)
qed

text \<open>C14: When versioning is suspended or was never enabled, an installation replaces exactly the null
  version of the key: every version with an ID of its own stays, in order, and the new row is last.\<close>

theorem suspended_install_replaces_null:
  assumes "store_ok up d" "ob \<in> set (objects d)" "obj_id ob \<noteq> []" "obj_cid ob \<noteq> []"
    and "state \<noteq> Enabled" "installable up state uuid rid (obj_bucket ob) (obj_key ob) d"
    and "install_content_version up uuid rid clock state ob now d = Inr (v, d')"
  shows "v = NULL_VERSION_ID \<and>
    map (\<lambda>r. (ov_id r, ov_version_id r)) (history (obj_bucket ob) (obj_key ob) d') =
    map (\<lambda>r. (ov_id r, ov_version_id r))
      (filter (\<lambda>r. ov_version_id r \<noteq> None) (history (obj_bucket ob) (obj_key ob) d)) @ [(rid, None)]"
proof -
  define b k where "b = obj_bucket ob" and "k = obj_key ob"
  obtain sq where e: "v = as_s3_str (installed_id state uuid)"
    "object_versions d' = object_versions (cleared state b k now d) @
       [new_version_row rid b k (installed_id state uuid) ObjectKind (Some (obj_id ob)) sq now]"
    using install_content_inv [OF assms(1-4,6,7)] unfolding b_def k_def by metis
  from history_installed [OF e(2)] e(1) assms(5) history_cleared_null [OF assms(5), of b k now d] show ?thesis
    unfolding b_def [symmetric] k_def [symmetric] by (simp add: installed_id_def)
qed

theorem suspended_install_replaces_null_witness:
  "\<exists>v d'. install_content_version Some ''u2'' ''v2'' 9 Suspended second_object 9 second_db = Inr (v, d') \<and>
     map (\<lambda>r. (ov_id r, ov_version_id r)) (history ''b'' ''k'' d') = [(''v2'', None)]"
proof -
  obtain v d' where i: "install_content_version Some ''u2'' ''v2'' 9 Suspended second_object 9 second_db = Inr (v, d')"
    using install_content_version_effect [OF second_store_ok, of second_object Suspended "''u2''" "''v2''" 9 9]
      second_installable by (metis list.distinct(1) list.set_intros second_tables(2,7-10))
  then show ?thesis
    using suspended_install_replaces_null [OF second_store_ok, of second_object Suspended "''u2''" "''v2''" 9 9 v d']
      second_installable by (simp add: history_def at_key_def)
qed

section \<open>Reads as a function of the key's history\<close>

text \<open>What a caller sees of \<open>resolve_version\<close>: its value or error.\<close>

definition read_of :: "uuid_parser \<Rightarrow> string \<Rightarrow> string \<Rightarrow> version_selector \<Rightarrow> db \<Rightarrow> resolved_version app_result" where
  "read_of up b k sel d = map_sum id fst (resolve_version up b k sel d)"

text \<open>The abstract lookup: in a versioned bucket, the unique current row of the history, or the unique
  row with the version ID.\<close>

definition lookup_spec ::
  "uuid_parser \<Rightarrow> string \<Rightarrow> string \<Rightarrow> version_selector \<Rightarrow> db \<Rightarrow> object_version_model app_result" where
  "lookup_spec up b k sel d =
     bindR (get_versioning_state b d) (\<lambda>st.
     case sel of
       Current \<Rightarrow> ok_or (no_such_key b k) (one_row ov_is_latest (history b k d))
     | Exact p \<Rightarrow>
         if st = Unversioned then Inl (InvalidArgument ''version IDs are unavailable for an unversioned bucket'')
         else bindR (selector_db_value up p) (\<lambda>v.
           ok_or (no_such_version b k p) (one_row (\<lambda>r. ov_version_id r = v) (history b k d))))"

lemma one_version_history:
  "one_version up b k Current d = Inr (one_row ov_is_latest (history b k d))"
  "one_version up b k (Exact p) d =
     bindR (selector_db_value up p) (\<lambda>v. Inr (one_row (\<lambda>r. ov_version_id r = v) (history b k d)))"
  by (simp_all add: history_def one_row_filter latest_at_def [abs_def])

lemma lookup_row_ok:
  assumes "store_ok up d" "one_row P (history b k d) = Some r" "val \<Longrightarrow> ov_is_latest r"
  shows "resolved_from_row up r val d = Inr (resolved_as d r)"
proof (rule resolved_from_row_ok [OF assms(1)])
  have "r \<in> set (history b k d)" using one_row_SomeD [OF assms(2)] by simp
  then show "r \<in> set (object_versions d)" by (simp add: historyD)
qed (rule assms(3))

lemma read_of_lookup:
  assumes ok: "store_ok up d"
  shows "read_of up b k sel d = bindR (lookup_spec up b k sel d) (\<lambda>r. Inr (resolved_as d r))"
proof (cases "get_versioning_state b d")
  case (Inl e)
  then have "queryT (get_versioning_state b) d = Inl e" by simp
  with Inl show ?thesis by (simp add: read_of_def lookup_spec_def resolve_version_def resolve_with_lock_def)
next
  case (Inr st)
  then have st: "queryT (get_versioning_state b) d = Inr (st, d)" by simp
  show ?thesis
  proof (cases sel)
    case Current
    show ?thesis
    proof (cases "one_row ov_is_latest (history b k d)")
      case None
      with Current Inr st show ?thesis
        by (simp add: read_of_def lookup_spec_def resolve_version_def resolve_with_lock_def
            one_version_history liftT_def queryT_def del: one_version.simps)
    next
      case (Some r)
      then have "resolved_from_row up r True d = Inr (resolved_as d r)"
        by (intro lookup_row_ok [OF ok]) (auto dest: one_row_SomeD)
      with Some Current Inr st show ?thesis
        by (simp add: read_of_def lookup_spec_def resolve_version_def resolve_with_lock_def
            one_version_history liftT_def queryT_def del: one_version.simps)
    qed
  next
    case (Exact p)
    show ?thesis
    proof (cases "selector_db_value up p")
      case (Inl e)
      then have "queryT (one_version up b k (Exact p)) d = Inl e" by (simp add: one_version_history del: one_version.simps)
      with Inl Exact Inr st show ?thesis
        by (simp add: read_of_def lookup_spec_def resolve_version_def resolve_with_lock_def del: one_version.simps)
    next
      case (Inr v)
      then have q: "queryT (one_version up b k (Exact p)) d = Inr (one_row (\<lambda>r. ov_version_id r = v) (history b k d), d)"
        by (simp add: one_version_history del: one_version.simps)
      show ?thesis
      proof (cases "one_row (\<lambda>r. ov_version_id r = v) (history b k d)")
        case None
        with q Inr Exact \<open>get_versioning_state b d = Inr st\<close> st show ?thesis
          by (simp add: read_of_def lookup_spec_def resolve_version_def resolve_with_lock_def del: one_version.simps)
      next
        case (Some r)
        then have "resolved_from_row up r False d = Inr (resolved_as d r)" by (rule lookup_row_ok [OF ok]) simp
        then have "queryT (resolved_from_row up r False) d = Inr (resolved_as d r, d)" by simp
        with q Some Inr Exact \<open>get_versioning_state b d = Inr st\<close> st show ?thesis
          by (simp add: read_of_def lookup_spec_def resolve_version_def resolve_with_lock_def del: one_version.simps)
      qed
    qed
  qed
qed

text \<open>C4: On a consistent store, resolving a version returns exactly what the abstract lookup of the
  key's history selects, with its object; every error of the lookup is the error of the code.\<close>

theorem resolve_version_refines_lookup:
  assumes ok: "store_ok up d"
  shows "read_of up b k sel d = bindR (lookup_spec up b k sel d) (\<lambda>r. Inr (resolved_as d r))"
  using assms by (rule read_of_lookup)

theorem resolve_version_refines_lookup_witness:
  "read_of Some ''b'' ''k'' Current sample_db = Inr (resolved_as sample_db sample_version)"
  using resolve_version_refines_lookup [OF sample_store_ok, of "''b''" "''k''" Current]
  by (simp add: lookup_spec_def get_versioning_state_def bucket_get_def find_bucket_def one_row_def
      versioning_from_db_value_def history_def at_key_def)

text \<open>Reads of another key are not affected.\<close>

lemma lookup_spec_cong:
  assumes "buckets d' = buckets d" "history b k d' = history b k d"
  shows "lookup_spec up b k sel d' = lookup_spec up b k sel d"
  unfolding lookup_spec_def get_versioning_state_cong [OF assms(1)] assms(2) ..

lemma lookup_spec_row: "lookup_spec up b k sel d = Inr r \<Longrightarrow> r \<in> set (history b k d)"
  by (cases sel) (auto simp: lookup_spec_def bindR_eq_Inr split: if_splits dest: one_row_SomeD)

lemma read_frame:
  assumes ok: "store_ok up d" "store_ok up d'" and bs: "buckets d' = buckets d"
    and other: "other_keys_same b k d d'" and objs: "objects d' = map (projected b k oid) (objects d)"
    and key: "(b', k') \<noteq> (b, k)"
  shows "read_of up b' k' sel d' = read_of up b' k' sel d"
proof -
  have h: "history b' k' d' = history b' k' d" using other key by (simp add: other_keys_same_def)
  have look: "lookup_spec up b' k' sel d' = lookup_spec up b' k' sel d" by (rule lookup_spec_cong [OF bs h])
  have "resolved_as d' r = resolved_as d r" if r: "r \<in> set (history b' k' d)" for r
  proof (cases "ov_object_id r")
    case (Some i)
    have r_d: "r \<in> set (object_versions d)" "ov_bucket r = b'" "ov_key r = k'"
      using r by (simp_all add: historyD at_key_def)
    obtain ob where ob: "find_object i (objects d) = Some ob" "object_at b' k' ob"
      using linked_object [OF ok(1) r_d(1) Some] r_d(2,3) by metis
    then have "projected b k oid ob = ob" using key by (auto simp: projected_def object_at_def)
    with ob(1) Some store_okD(7) [OF ok(1)] show ?thesis
      by (simp add: resolved_as_def objs find_object_projected)
  qed (simp add: resolved_as_def)
  then show ?thesis
    unfolding read_of_lookup [OF ok(1)] read_of_lookup [OF ok(2)] look
    by (cases "lookup_spec up b' k' sel d") (auto dest: lookup_spec_row)
qed

section \<open>Steps of the store\<close>

lemma store_ok_insert_object:
  assumes ok: "store_ok up d" and ob: "obj_id ob \<notin> obj_id ` set (objects d)" "\<not> obj_is_latest ob"
  shows "store_ok up (d\<lparr>objects := objects d @ [ob]\<rparr>)" (is "store_ok up ?d")
proof -
  have "Some (obj_id ob) \<notin> heads (object_versions d)"
  proof
    assume "Some (obj_id ob) \<in> heads (object_versions d)"
    then obtain r where r: "r \<in> set (object_versions d)" "ov_object_id r = Some (obj_id ob)"
      unfolding heads_iff by metis
    then obtain x where "x \<in> set (objects d)" "obj_id x = obj_id ob" using linked_object [OF ok r] by metis
    with ob(1) show False by (metis imageI)
  qed
  moreover have "objects_ok ?d"
    using store_okD(5) [OF ok] ob unfolding objects_ok_def by simp
  moreover have "places d \<subseteq> places ?d" by (auto simp: places_def)
  ultimately have "links_ok ?d"
    using store_okD(3) [OF ok] ob(2) unfolding links_ok_def by (auto split: option.splits)
  moreover have "contents d \<subseteq> contents ?d" by (auto simp: contents_def)
  then have "residencies_ok ?d"
    using store_okD(4) [OF ok] unfolding residencies_ok_def by (auto simp: owners_def residency_row_ok_def)
  moreover have "index_ok ?d" using store_okD(2) [OF ok] by (simp add: index_ok_def history_def)
  ultimately show ?thesis using ok by (simp add: store_ok_def)
qed

lemma insert_immutable_Inr:
  assumes "insert_immutable_in_transaction row d = Inr (ob, d')"
  shows "lor_id row \<notin> obj_id ` set (objects d)" "d' = d\<lparr>objects := objects d @ [object_of_row row False]\<rparr>"
  using assms
  by (simp_all add: insert_immutable_in_transaction_def bindT_eq_Inr insert_object_def split: if_splits)

lemma store_ok_buckets:
  assumes "store_ok up d" "map bucket_name bs = map bucket_name (buckets d)"
  shows "store_ok up (d\<lparr>buckets := bs\<rparr>)"
proof -
  let ?d = "d\<lparr>buckets := bs\<rparr>"
  have pl: "places ?d = places d" by (simp add: places_def)
  have "links_ok ?d = links_ok d" unfolding links_ok_def pl objects_ok_def by simp
  moreover have "index_ok ?d = index_ok d" by (simp add: index_ok_def history_def)
  moreover have "residencies_ok ?d = residencies_ok d"
    by (rule residencies_ok_cong) (simp_all add: owners_def contents_def)
  ultimately show ?thesis using assms by (simp add: store_ok_def)
qed

lemma install_marker_inv:
  assumes "store_ok up d" "installable up state uuid rid b k d"
    and "install_delete_marker up uuid rid clock state b k now d = Inr (v, d')"
  obtains sq where "v = as_s3_str (installed_id state uuid)" "store_ok up d'" "buckets d' = buckets d"
    "objects d' = map (projected b k None) (objects d)"
    "object_versions d' = object_versions (cleared state b k now d) @
       [new_version_row rid b k (installed_id state uuid) DeleteMarkerKind None sq now]"
    "\<forall>r \<in> set (history b k d). ov_sequence r < sq"
proof -
  obtain sq d1 where e: "install_delete_marker up uuid rid clock state b k now d =
      Inr (as_s3_str (installed_id state uuid), d1)" "store_ok up d1" "\<forall>r \<in> set (history b k d). ov_sequence r < sq"
    "d1 = (with_version (new_version_row rid b k (installed_id state uuid) DeleteMarkerKind None sq now)
             (cleared state b k now d))\<lparr>objects := map (projected b k None) (objects d)\<rparr>"
    using install_delete_marker_effect [OF assms(1,2), of clock now] by metis
  then have eq: "v = as_s3_str (installed_id state uuid)" "d' = d1" using assms(3) by simp_all
  show ?thesis
  proof (rule that)
    show "v = as_s3_str (installed_id state uuid)" "store_ok up d'" using eq e(2) by simp_all
    show "\<forall>r \<in> set (history b k d). ov_sequence r < sq" by (rule e(3))
  qed (simp_all add: eq(2) e(4))
qed

lemma other_keys_installed:
  assumes "object_versions d' = object_versions (cleared state b k now d) @ [new_version_row rid b k v kind oid sq now]"
  shows "other_keys_same b k d d'"
  using other_keys_cleared [of b k d state now] unfolding other_keys_same_def history_def by (simp add: assms)

text \<open>Removing the row \<open>r\<close>: the outcomes.\<close>

lemma remove_inv:
  assumes ok: "store_ok up d" and r: "r \<in> set (history b k d)" and sel: "ov_id sel = ov_id r"
  obtains res oid d' where "remove_and_promote up now sel d = Inr (res, d')" "store_ok up d'"
    "buckets d' = buckets d" "objects d' = map (projected b k oid) (objects d)" "other_keys_same b k d d'"
    "map ov_id (history b k d') = filter (\<lambda>i. i \<noteq> ov_id r) (map ov_id (history b k d))"
    "case res of
       None \<Rightarrow> \<not> ov_is_latest r \<or> history b k d' = []
     | Some v \<Rightarrow> ov_is_latest r \<and> (\<exists>p \<in> set (history b k d'). ov_is_latest p \<and> v = resolved_as d' p)"
proof -
  let ?d1 = "without (ov_id r) d"
  have ids: "map ov_id (history b k ?d1) = filter (\<lambda>i. i \<noteq> ov_id r) (map ov_id (history b k d))"
    by (simp add: history_without filter_map comp_def)
  have other: "other_keys_same b k d ?d1" by (rule other_keys_without [OF store_okD(6) [OF ok] r])
  show ?thesis
  proof (cases "ov_is_latest r")
    case False
    have hist: "history_ok (history b k d)" using store_okD(2) [OF ok] by (simp add: index_ok_iff)
    have "history b k d \<noteq> []" using r by auto
    then obtain t where t: "t \<in> set (history b k d)" "ov_is_latest t" using hist unfolding history_ok_def by metis
    have "objects ?d1 = map (projected b k (ov_object_id t)) (objects d)"
      by (simp add: map_idI projected_same_head [OF ok t])
    moreover have "remove_and_promote up now sel d = Inr (None, ?d1)"
      using remove_and_promote_effect [OF ok r sel, of now] False by simp
    ultimately show ?thesis
      using store_ok_without_noncurrent [OF ok r False] other ids False that [of None ?d1 "ov_object_id t"] by simp
  next
    case True
    note eff = remove_and_promote_effect [OF ok r sel, of now] promote_effect [OF ok r True, of now]
    show ?thesis
    proof (cases "newest_first b k ?d1")
      case Nil
      let ?d' = "?d1\<lparr>objects := map (projected b k None) (objects d)\<rparr>"
      have h: "history b' k' ?d' = history b' k' ?d1" for b' k' by (simp add: history_def)
      have e: "history b k ?d1 = []" using Nil by (simp add: newest_first_Nil)
      have "store_ok up ?d'" by (rule store_ok_without_last [OF ok r e])
      moreover have "remove_and_promote up now sel d = Inr (None, ?d')" using eff Nil True by simp
      ultimately show ?thesis
        using other ids e that [of None ?d' None] by (simp add: h other_keys_same_def)
    next
      case (Cons p ps)
      let ?d' = "promote_db b k p now ?d1"
      note top = newest_first_Cons [OF Cons]
      have p: "\<not> ov_is_latest p" by (rule removed_current [OF ok r True top(1)])
      have res: "remove_and_promote up now sel d = Inr (Some (resolved_as ?d' (set_current now p)), ?d')"
        using eff Cons True by (simp add: Let_def)
      have ok': "store_ok up ?d'" by (rule store_ok_promote [OF ok r True Cons])
      have "promoted (ov_id p) now p = set_current now p" using p by (simp add: promoted_def)
      then have mem: "set_current now p \<in> set (history b k ?d')"
        unfolding history_promote set_map using top(1) by (metis imageI)
      have ids': "map ov_id (history b k ?d') = map ov_id (history b k ?d1)" by (simp add: history_promote comp_def)
      have other': "other_keys_same b k d ?d'"
        unfolding other_keys_same_def
      proof (intro allI impI)
        fix b' k' assume ne: "(b', k') \<noteq> (b, k)"
        have p_k: "at_key b k p" "p \<in> set (object_versions d)" using top(1) by (simp_all add: historyD)
        have "promoted (ov_id p) now s = s" if s: "s \<in> set (history b' k' d)" for s
        proof -
          have "ov_id s \<noteq> ov_id p"
          proof
            assume "ov_id s = ov_id p"
            then have "s = p" using store_okD(6) [OF ok] s p_k(2) by (metis distinct_map historyD inj_onD)
            with s p_k(1) ne show False by (simp add: historyD at_key_def)
          qed
          then show ?thesis by (simp add: promoted_def)
        qed
        moreover have "history b' k' ?d1 = history b' k' d" using other ne by (simp add: other_keys_same_def)
        ultimately show "history b' k' ?d' = history b' k' d" by (simp add: history_promote map_idI)
      qed
      have "\<exists>q \<in> set (history b k ?d'). ov_is_latest q \<and>
          resolved_as ?d' (set_current now p) = resolved_as ?d' q"
        by (rule bexI [OF _ mem]) simp
      then show ?thesis
        using res ok' other' ids' ids True
          that [of "Some (resolved_as ?d' (set_current now p))" ?d' "ov_object_id p"] by simp
    qed
  qed
qed

lemma delete_object_versions_cong:
  assumes "\<And>r. r \<in> set (object_versions d) \<Longrightarrow> P r = Q r"
  shows "delete_object_versions P d = delete_object_versions Q d"
proof -
  have "delete_rows P (object_versions d) = delete_rows Q (object_versions d)"
    unfolding delete_rows_def using assms by (intro filter_cong) simp_all
  moreover have "owned_by P d i a = owned_by Q d i a" for i a
    unfolding owned_by_def by (rule bex_cong [OF refl]) (simp add: assms)
  ultimately show ?thesis by (simp add: delete_object_versions_def)
qed

lemma sole_marker_inv:
  assumes ok: "store_ok up d" and del: "delete_current_sole_marker sel d = Inr (res, d')"
  defines "b \<equiv> ov_bucket sel" and "k \<equiv> ov_key sel"
  shows "(d' = d \<and> (\<forall>x. res \<noteq> Deleted x)) \<or>
    ((\<exists>r. history b k d = [r] \<and> ov_id r = ov_id sel \<and> ov_is_latest r \<and> ov_object_id r = None \<and>
        d' = without (ov_id r) d) \<and> history b k d' = [] \<and> store_ok up d' \<and> (\<exists>x. res = Deleted x))"
proof (cases "count_rows (exact_marker sel) (object_versions d) = 1")
  case False
  have "count_rows (exact_marker sel) (object_versions d) \<le> 1"
    unfolding exact_marker_def by (rule ver.count_key_le_1 [OF store_okD(6) [OF ok]])
  with False have "\<forall>r \<in> set (object_versions d). \<not> exact_marker sel r"
    using count_rows_0 [of "exact_marker sel" "object_versions d"] by simp
  then have "delete_object_versions (exact_marker sel) d = delete_object_versions (\<lambda>_. False) d"
    by (intro delete_object_versions_cong) simp
  then have "delete_object_versions (exact_marker sel) d = d"
    by (simp add: delete_object_versions_def owned_by_def delete_rows_def)
  then show ?thesis using del False
    by (auto simp: delete_current_sole_marker_def bindT_eq_Inr split: if_splits)
next
  case True
  then have "count_rows (exact_marker sel) (object_versions d) \<noteq> 0" by simp
  then obtain r where r: "r \<in> set (object_versions d)" "exact_marker sel r" unfolding count_rows_0 by blast
  have r_f: "r \<in> set (history b k d)" "ov_is_latest r" "ov_object_id r = None" "ov_id r = ov_id sel"
    using r by (simp_all add: exact_marker_def historyD b_def k_def)
  show ?thesis
  proof (cases "count_rows (at_key b k) (object_versions d) = 1 \<and> ov_is_latest sel \<and> version_kind_of sel = Inr DeleteMarkerKind")
    case False
    then show ?thesis using del True
      by (auto simp: delete_current_sole_marker_def bindT_eq_Inr b_def k_def split: if_splits)
  next
    case sole: True
    then have "length (history b k d) = 1" by (simp add: history_def count_rows_def)
    then have hist: "history b k d = [r]" using r_f(1) by (auto simp: length_Suc_conv)
    have "exact_marker sel s = (ov_id s = ov_id r)" if "s \<in> set (object_versions d)" for s
    proof
      assume "ov_id s = ov_id r"
      then have "s = r" using store_okD(6) [OF ok] that r(1) by (metis distinct_map inj_onD)
      with r(2) show "exact_marker sel s" by simp
    qed (simp add: exact_marker_def r_f(4))
    then have "delete_object_versions (exact_marker sel) d = without (ov_id r) d"
      unfolding without_def by (rule delete_object_versions_cong)
    with del sole True have d': "d' = without (ov_id r) d" "\<exists>x. res = Deleted x"
      by (auto simp: delete_current_sole_marker_def b_def k_def)
    have empty: "history b k (without (ov_id r) d) = []" using hist by (simp add: history_without)
    have same: "map (projected b k None) (objects d) = objects d"
      using projected_same_head [OF ok r_f(1,2)] r_f(3) by (simp add: map_idI)
    have id: "(without (ov_id r) d)\<lparr>objects := objects d\<rparr> = without (ov_id r) d"
      by (simp add: without_def delete_object_versions_def)
    have "store_ok up (without (ov_id r) d)"
      using store_ok_without_last [OF ok r_f(1) empty] unfolding same id .
    with d' hist empty r_f show ?thesis by blast
  qed
qed

text \<open>
  The steps of the store. Each version step is one operation of \<open>Version_Store\<close> on one key, as the
  publication and deletion transactions compose them: the content row is written first, and is
  installed under the bucket's versioning state with a fresh row ID and version UUID.
\<close>

inductive version_step :: "uuid_parser \<Rightarrow> string \<times> string \<Rightarrow> db \<Rightarrow> db \<Rightarrow> bool" for up where
  content: "insert_immutable_in_transaction row d = Inr (ob, d') \<Longrightarrow>
    version_step up (lor_bucket row, lor_key row) d d'"
| install: "ob \<in> set (objects d) \<Longrightarrow> obj_id ob \<noteq> [] \<Longrightarrow> obj_cid ob \<noteq> [] \<Longrightarrow>
    get_versioning_state (obj_bucket ob) d = Inr state \<Longrightarrow>
    installable up state uuid rid (obj_bucket ob) (obj_key ob) d \<Longrightarrow>
    install_content_version up uuid rid clock state ob now d = Inr (v, d') \<Longrightarrow>
    version_step up (obj_bucket ob, obj_key ob) d d'"
| mark: "get_versioning_state b d = Inr state \<Longrightarrow> installable up state uuid rid b k d \<Longrightarrow>
    install_delete_marker up uuid rid clock state b k now d = Inr (v, d') \<Longrightarrow>
    version_step up (b, k) d d'"
| remove: "sel \<in> set (object_versions d) \<Longrightarrow> remove_and_promote up now sel d = Inr (res, d') \<Longrightarrow>
    version_step up (ov_bucket sel, ov_key sel) d d'"
| unmark: "delete_current_sole_marker sel d = Inr (out, d') \<Longrightarrow>
    version_step up (ov_bucket sel, ov_key sel) d d'"

inductive store_step :: "uuid_parser \<Rightarrow> db \<Rightarrow> db \<Rightarrow> bool" for up where
  key_step: "version_step up bk d d' \<Longrightarrow> store_step up d d'"
| create: "bucket_create name own now d = Inr (u, d') \<Longrightarrow> store_step up d d'"
| versioning: "set_versioning_state name st d = Inr (u, d') \<Longrightarrow> store_step up d d'"

definition empty_db :: db where
  "empty_db = \<lparr>buckets = [], objects = [], object_versions = [], object_tags = [], physical_residencies = [],
     version_residencies = [], residency_references = [], pin_leases = [], pin_lease_targets = []\<rparr>"

lemma store_ok_empty: "store_ok up empty_db"
  by (simp add: store_ok_def empty_db_def index_ok_def links_ok_def objects_ok_def residencies_ok_def
      physical_ok_def owners_def)

text \<open>One step keeps the invariant and is invisible through every other key.\<close>

lemma read_frame_write:
  assumes ok: "store_ok up d" and ins: "insert_immutable_in_transaction row d = Inr (ob, d')"
  shows "store_ok up d' \<and> read_of up b' k' sel d' = read_of up b' k' sel d"
proof -
  note i = insert_immutable_Inr [OF ins]
  have ok': "store_ok up d'" unfolding i(2) by (rule store_ok_insert_object [OF ok]) (simp_all add: i(1))
  have look: "lookup_spec up b' k' sel d' = lookup_spec up b' k' sel d"
    by (rule lookup_spec_cong) (simp_all add: i(2) history_def)
  have "resolved_as d' r = resolved_as d r" if r: "r \<in> set (history b' k' d)" for r
  proof (cases "ov_object_id r")
    case (Some x)
    have "r \<in> set (object_versions d)" using r by (simp add: historyD)
    then obtain o' where "find_object x (objects d) = Some o'" using linked_object [OF ok _ Some] by metis
    then have "find_object x (objects d') = find_object x (objects d)"
      by (simp add: i(2) find_object_def one_row_append)
    then show ?thesis by (simp add: resolved_as_def Some)
  qed (simp add: resolved_as_def)
  then have "read_of up b' k' sel d' = read_of up b' k' sel d"
    unfolding read_of_lookup [OF ok] read_of_lookup [OF ok'] look
    by (cases "lookup_spec up b' k' sel d") (auto dest: lookup_spec_row)
  with ok' show ?thesis by simp
qed

lemma version_step_ok:
  assumes "version_step up bk d d'" "store_ok up d"
  shows "store_ok up d' \<and> ((b', k') \<noteq> bk \<longrightarrow> read_of up b' k' sel d' = read_of up b' k' sel d)"
  using assms
proof (cases rule: version_step.cases)
  case (content row ob)
  then show ?thesis using read_frame_write [OF assms(2)] by simp
next
  case (install ob state uuid rid clock now v)
  obtain sq where e: "store_ok up d'" "buckets d' = buckets d"
    "objects d' = map (projected (obj_bucket ob) (obj_key ob) (Some (obj_id ob))) (objects d)"
    "object_versions d' = object_versions (cleared state (obj_bucket ob) (obj_key ob) now d) @
       [new_version_row rid (obj_bucket ob) (obj_key ob) (installed_id state uuid) ObjectKind (Some (obj_id ob)) sq now]"
    using install_content_inv [OF assms(2) install(2-4,6,7)] by metis
  then show ?thesis
    using read_frame [OF assms(2) e(1,2) other_keys_installed [OF e(4)] e(3)] install(1) by blast
next
  case (mark b state uuid rid k clock now v)
  obtain sq where e: "store_ok up d'" "buckets d' = buckets d" "objects d' = map (projected b k None) (objects d)"
    "object_versions d' = object_versions (cleared state b k now d) @
       [new_version_row rid b k (installed_id state uuid) DeleteMarkerKind None sq now]"
    using install_marker_inv [OF assms(2) mark(3,4)] by metis
  then show ?thesis
    using read_frame [OF assms(2) e(1,2) other_keys_installed [OF e(4)] e(3)] mark(1) by blast
next
  case (remove r now res)
  have r: "r \<in> set (history (ov_bucket r) (ov_key r) d)" using remove(2) by (simp add: historyD)
  obtain oid where e: "store_ok up d'" "buckets d' = buckets d"
    "objects d' = map (projected (ov_bucket r) (ov_key r) oid) (objects d)"
    "other_keys_same (ov_bucket r) (ov_key r) d d'"
    using remove_inv [OF assms(2) r refl, of now] remove(3) by (metis Inr_inject prod.inject)
  then show ?thesis using read_frame [OF assms(2) e(1,2,4,3)] remove(1) by blast
next
  case (unmark r out)
  let ?b = "ov_bucket r" and ?k = "ov_key r"
  consider "d' = d" | s where "history ?b ?k d = [s]" "ov_is_latest s" "ov_object_id s = None"
    "d' = without (ov_id s) d" "store_ok up d'"
    using sole_marker_inv [OF assms(2) unmark(2)] by metis
  then show ?thesis
  proof cases
    case 1
    with assms(2) show ?thesis by simp
  next
    case 2
    have s: "s \<in> set (history ?b ?k d)" using 2(1) by simp
    have "objects d' = map (projected ?b ?k None) (objects d)"
      using projected_same_head [OF assms(2) s 2(2)] 2(3,4) by (simp add: map_idI)
    moreover have "other_keys_same ?b ?k d d'"
      unfolding 2(4) by (rule other_keys_without [OF store_okD(6) [OF assms(2)] s])
    moreover have "buckets d' = buckets d" by (simp add: 2(4))
    ultimately show ?thesis using read_frame [OF assms(2) 2(5)] 2(5) unmark(1) by blast
  qed
qed

lemma store_step_ok:
  assumes "store_step up d d'" "store_ok up d"
  shows "store_ok up d'"
  using assms
proof (cases rule: store_step.cases)
  case (key_step bk)
  then show ?thesis using version_step_ok assms(2) by blast
next
  case (create name own now u)
  let ?r = "\<lparr>bucket_name = name, bucket_created_at = now, bucket_owner = own, bucket_versioning_status = None\<rparr>"
  have d': "d' = d\<lparr>buckets := buckets d @ [?r]\<rparr>" and fresh: "name \<notin> bucket_name ` set (buckets d)"
    using create by (auto simp: bucket_create_def bucket_exists_iff insert_bucket_def split: if_splits)
  have pl: "places d' = places d" by (simp add: places_def d')
  have "links_ok d' = links_ok d" unfolding links_ok_def pl objects_ok_def by (simp add: d')
  moreover have "index_ok d' = index_ok d" by (simp add: index_ok_def history_def d')
  moreover have "residencies_ok d' = residencies_ok d"
    by (rule residencies_ok_cong) (simp_all add: owners_def contents_def d')
  ultimately show ?thesis using assms(2) fresh by (auto simp: store_ok_def d' row_ok_def)
next
  case (versioning name st u)
  then have st: "st \<noteq> Unversioned" by (auto simp: set_versioning_state_def liftT_def)
  obtain st0 where st0: "get_versioning_state name d = Inr st0"
    using versioning st by (auto simp: set_versioning_state_def lock_versioning_state_def bindT_eq_Inr
        dest: lock_bucket_for_ownership_Inr)
  obtain d1 bs where d1: "set_versioning_state name st d = Inr ((), d1)" "d1 = d\<lparr>buckets := bs\<rparr>"
    "map bucket_name (buckets d1) = map bucket_name (buckets d)"
    using set_versioning_state_effect [OF store_okD(1) [OF assms(2)] st0 st] by metis
  then have "d' = d1" using versioning by simp
  with d1(2,3) assms(2) show ?thesis by (simp add: store_ok_buckets)
qed

text \<open>C1: Whatever sequence of bucket creations, versioning changes, content writes, installations,
  delete markers and version removals runs from an empty database, the store stays consistent.\<close>

theorem reachable_store_ok:
  assumes "(store_step up)\<^sup>*\<^sup>* empty_db d"
  shows "store_ok up d"
  using assms by (induction rule: rtranclp_induct) (auto intro: store_ok_empty store_step_ok)

theorem reachable_store_ok_witness:
  "store_ok Some (empty_db\<lparr>buckets := [\<lparr>bucket_name = ''b'', bucket_created_at = 3, bucket_owner = None,
     bucket_versioning_status = None\<rparr>]\<rparr>)"
  by (rule reachable_store_ok, rule r_into_rtranclp, rule store_step.create [of "''b''" None 3 _ "()"])
    (simp add: bucket_create_def bucket_exists_iff insert_bucket_def empty_db_def)

text \<open>C17: No operation on one key changes what any read of another key returns.\<close>

theorem version_step_frame:
  assumes "store_ok up d" "version_step up bk d d'" "(b, k) \<noteq> bk"
  shows "read_of up b k sel d' = read_of up b k sel d"
  using version_step_ok [OF assms(2,1)] assms(3) by blast

lemma second_install:
  obtains v d' where "install_content_version Some ''u2'' ''v2'' 9 st second_object 9 second_db = Inr (v, d')"
  using install_content_version_effect [OF second_store_ok, of second_object st "''u2''" "''v2''" 9 9]
    second_installable by (metis list.distinct(1) list.set_intros second_tables(2,7-10))

theorem version_step_frame_witness:
  "\<exists>v d'. install_content_version Some ''u2'' ''v2'' 9 Enabled second_object 9 second_db = Inr (v, d') \<and>
     read_of Some ''b'' ''other'' Current d' = read_of Some ''b'' ''other'' Current second_db"
proof -
  obtain v d' where i: "install_content_version Some ''u2'' ''v2'' 9 Enabled second_object 9 second_db = Inr (v, d')"
    by (rule second_install)
  have "version_step Some (obj_bucket second_object, obj_key second_object) second_db d'"
    by (rule version_step.install [OF _ _ _ _ _ i]) (simp_all add: second_installable second_versioning)
  then have "read_of Some ''b'' ''other'' Current d' = read_of Some ''b'' ''other'' Current second_db"
    by (rule version_step_frame [OF second_store_ok]) simp
  with i show ?thesis by blast
qed

section \<open>Delete markers\<close>

lemma get_latest_cleared:
  assumes "objects d' = map (projected b k None) (objects d)"
  shows "get_latest b k d' = Inl (no_such_key b k)"
proof -
  have "one_row (current_at b k) (objects d') = None"
    using count_current_map_None [of b k "objects d"] unfolding count_rows_0 one_row_None assms .
  then show ?thesis by (simp add: get_latest_def)
qed

text \<open>C15: Installing a delete marker always succeeds on a consistent store; afterwards the current
  version is the marker and the ordinary object lookup finds no key. With versioning enabled every
  earlier version is still in the history, in order and before the marker; when versioning is
  suspended or was never enabled, the marker replaces exactly the null version and every version with
  an ID of its own stays.\<close>

theorem delete_marker_hides_key:
  assumes "store_ok up d" "installable up state uuid rid b k d" "get_versioning_state b d = Inr st"
  shows "\<exists>v d' rv. install_delete_marker up uuid rid clock state b k now d = Inr (v, d') \<and> store_ok up d' \<and>
    resolve_version up b k Current d' = Inr (rv, d') \<and> rv_kind rv = DeleteMarkerKind \<and>
    rv_public_version_id rv = v \<and> rv_object rv = None \<and> get_latest b k d' = Inl (no_such_key b k) \<and>
    map (\<lambda>r. (ov_id r, ov_version_id r)) (history b k d') =
      map (\<lambda>r. (ov_id r, ov_version_id r))
        (if state = Enabled then history b k d else filter (\<lambda>r. ov_version_id r \<noteq> None) (history b k d)) @
      [(rid, if state = Enabled then Some uuid else None)]"
proof -
  obtain v d' where i: "install_delete_marker up uuid rid clock state b k now d = Inr (v, d')"
    using install_delete_marker_effect [OF assms(1,2), of clock now] by metis
  obtain sq where e: "v = as_s3_str (installed_id state uuid)" "store_ok up d'" "buckets d' = buckets d"
    "objects d' = map (projected b k None) (objects d)"
    "object_versions d' = object_versions (cleared state b k now d) @
       [new_version_row rid b k (installed_id state uuid) DeleteMarkerKind None sq now]"
    using install_marker_inv [OF assms(1,2) i] by metis
  let ?new = "new_version_row rid b k (installed_id state uuid) DeleteMarkerKind None sq now"
  let ?ids = "\<lambda>r. (ov_id r, ov_version_id r)"
  note h = history_installed [OF e(5)]
  have "get_versioning_state b d' = Inr st" using assms(3) get_versioning_state_cong [OF e(3)] by simp
  then have res: "resolve_version up b k Current d' = Inr (resolved_as d' ?new, d')"
    by (intro resolve_current [OF e(2)]) (simp_all add: h)
  have "map ?ids (history b k (cleared state b k now d)) =
      map ?ids (if state = Enabled then history b k d else filter (\<lambda>r. ov_version_id r \<noteq> None) (history b k d))"
    using history_cleared_null [of state b k now d] by (simp add: cleared_def history_map_demoted comp_def)
  then have "map ?ids (history b k d') =
      map ?ids (if state = Enabled then history b k d else filter (\<lambda>r. ov_version_id r \<noteq> None) (history b k d)) @
      [(rid, if state = Enabled then Some uuid else None)]"
    by (simp add: h installed_id_def)
  moreover have "rv_kind (resolved_as d' ?new) = DeleteMarkerKind" "rv_public_version_id (resolved_as d' ?new) = v"
    "rv_object (resolved_as d' ?new) = None"
    by (simp_all add: resolved_as_def installed_public_id e(1))
  ultimately show ?thesis using i e(2) res get_latest_cleared [OF e(4)] by blast
qed

theorem delete_marker_hides_key_witness:
  "\<exists>v d' rv. install_delete_marker Some ''u2'' ''v2'' 4 Enabled ''b'' ''k'' 4 second_db = Inr (v, d') \<and>
    rv_kind rv = DeleteMarkerKind \<and> resolve_version Some ''b'' ''k'' Current d' = Inr (rv, d') \<and>
    map ov_id (history ''b'' ''k'' d') = map ov_id (history ''b'' ''k'' second_db) @ [''v2'']"
proof -
  obtain v d' rv where e: "install_delete_marker Some ''u2'' ''v2'' 4 Enabled ''b'' ''k'' 4 second_db = Inr (v, d')"
    "rv_kind rv = DeleteMarkerKind" "resolve_version Some ''b'' ''k'' Current d' = Inr (rv, d')"
    "map (\<lambda>r. (ov_id r, ov_version_id r)) (history ''b'' ''k'' d') =
     map (\<lambda>r. (ov_id r, ov_version_id r)) (history ''b'' ''k'' second_db) @ [(''v2'', Some ''u2'')]"
    using delete_marker_hides_key [OF second_store_ok second_installable second_versioning, where state = Enabled and clock = 4 and now = 4]
    by auto
  from arg_cong [OF e(4), of "map fst"] have "map ov_id (history ''b'' ''k'' d') = map ov_id (history ''b'' ''k'' second_db) @ [''v2'']"
    by (simp add: comp_def)
  with e show ?thesis by blast
qed

section \<open>Removing versions\<close>

text \<open>C8: Removing a version of a consistent store always succeeds, keeps the store consistent and
  removes exactly that row; when the current version goes, the newest remaining version becomes
  current and is what is returned, or the key is left without versions.\<close>

theorem remove_and_promote_spec:
  assumes "store_ok up d" "r \<in> set (history b k d)" "get_versioning_state b d = Inr st"
  shows "\<exists>res d'. remove_and_promote up now r d = Inr (res, d') \<and> store_ok up d' \<and>
    map ov_id (history b k d') = filter (\<lambda>i. i \<noteq> ov_id r) (map ov_id (history b k d)) \<and>
    (case res of
       None \<Rightarrow> \<not> ov_is_latest r \<or> history b k d' = []
     | Some v \<Rightarrow> ov_is_latest r \<and> resolve_version up b k Current d' = Inr (v, d') \<and>
                 (\<forall>s \<in> set (history b k d'). ov_sequence s \<le> rv_sequence v))"
proof -
  obtain res oid d' where e: "remove_and_promote up now r d = Inr (res, d')" "store_ok up d'"
    "buckets d' = buckets d" "objects d' = map (projected b k oid) (objects d)" "other_keys_same b k d d'"
    "map ov_id (history b k d') = filter (\<lambda>i. i \<noteq> ov_id r) (map ov_id (history b k d))"
    "case res of None \<Rightarrow> \<not> ov_is_latest r \<or> history b k d' = []
     | Some v \<Rightarrow> ov_is_latest r \<and> (\<exists>p \<in> set (history b k d'). ov_is_latest p \<and> v = resolved_as d' p)"
    by (rule remove_inv [OF assms(1,2) refl])
  have st: "get_versioning_state b d' = Inr st" using assms(3) get_versioning_state_cong [OF e(3)] by simp
  have "case res of None \<Rightarrow> \<not> ov_is_latest r \<or> history b k d' = []
     | Some v \<Rightarrow> ov_is_latest r \<and> resolve_version up b k Current d' = Inr (v, d') \<and>
                 (\<forall>s \<in> set (history b k d'). ov_sequence s \<le> rv_sequence v)"
  proof (cases res)
    case None
    with e(7) show ?thesis by simp
  next
    case (Some v)
    with e(7) obtain p where p: "ov_is_latest r" "p \<in> set (history b k d')" "ov_is_latest p" "v = resolved_as d' p"
      unfolding Some option.case by (elim conjE bexE)
    have "history_ok (history b k d')" using store_okD(2) [OF e(2)] by (simp add: index_ok_iff)
    then have "\<forall>s \<in> set (history b k d'). ov_sequence s \<le> ov_sequence p" using p(2,3) unfolding history_ok_def by blast
    with p Some resolve_current [OF e(2) p(2,3) st] show ?thesis by (simp add: resolved_as_def)
  qed
  with e show ?thesis by blast
qed

theorem remove_and_promote_spec_witness:
  "\<exists>res d'. remove_and_promote Some 8 sample_version sample_db = Inr (res, d') \<and> store_ok Some d' \<and>
    map ov_id (history ''b'' ''k'' d') = []"
proof -
  have st: "get_versioning_state ''b'' sample_db = Inr Enabled"
    by (simp add: get_versioning_state_def bucket_get_def find_bucket_def one_row_def versioning_from_db_value_def)
  have "sample_version \<in> set (history ''b'' ''k'' sample_db)" by (simp add: history_def at_key_def)
  from remove_and_promote_spec [OF sample_store_ok this st, of 8] show ?thesis
    by (simp add: history_def at_key_def) metis
qed

end
