(* ===== verification/Listing_Groups.thy ===== *)
theory Listing_Groups
  imports Object_Tags
begin

text \<open>
  What the two listings of the gateway share: the request limits and field encoding of
  src/src/s3/ops/object.rs, the common prefix of a key, and the abstract result of a listing. A
  listing folds consecutive rows with the same common prefix into one group; \<open>groups\<close> is that
  reference result, \<open>contiguous\<close> says that rows with the same prefix are neighbours, and rows in
  key order are contiguous.
\<close>

section \<open>Limits and encoding\<close>

definition normalized_max_keys :: "int option \<Rightarrow> nat" where
  "normalized_max_keys v = nat (max 1 (min 1000 (case v of None \<Rightarrow> 1000 | Some n \<Rightarrow> n)))"

definition url_unreserved :: "char \<Rightarrow> bool" where
  "url_unreserved c \<longleftrightarrow>
     (let n = of_char c :: nat in 48 \<le> n \<and> n \<le> 57 \<or> 65 \<le> n \<and> n \<le> 90 \<or> 97 \<le> n \<and> n \<le> 122) \<or>
     c \<in> {CHR ''-'', CHR ''.'', CHR ''_'', CHR ''~''}"

primrec rfc3986_url_encode :: "string \<Rightarrow> string" where
  "rfc3986_url_encode [] = []"
| "rfc3986_url_encode (c # s) =
     (if url_unreserved c then [c]
      else [CHR ''%'', ''0123456789ABCDEF'' ! (of_char c div 16), ''0123456789ABCDEF'' ! (of_char c mod 16)])
     @ rfc3986_url_encode s"

definition url_encoding_requested :: "string option \<Rightarrow> bool" where
  "url_encoding_requested e \<longleftrightarrow> e = Some ''url''"

definition project_listing_field :: "string \<Rightarrow> bool \<Rightarrow> string" where
  "project_listing_field v url_encode = (if url_encode then rfc3986_url_encode v else v)"

definition project_optional_listing_field :: "string option \<Rightarrow> bool \<Rightarrow> string option" where
  "project_optional_listing_field v url_encode = map_option (\<lambda>v. project_listing_field v url_encode) v"

section \<open>Common prefixes\<close>

definition common_prefix_for_key :: "string \<Rightarrow> string \<Rightarrow> string option \<Rightarrow> string option" where
  "common_prefix_for_key key pfx delimiter =
     (case delimiter of
        None \<Rightarrow> None
      | Some dl \<Rightarrow>
          if dl = [] then None
          else case strip_prefix key pfx of
            None \<Rightarrow> None
          | Some rest \<Rightarrow> (case find_str rest dl of
              None \<Rightarrow> None
            | Some i \<Rightarrow> Some (pfx @ take (i + length dl) rest)))"

lemma common_prefix_starts: "common_prefix_for_key k pfx dl = Some p \<Longrightarrow> starts_with k p"
  by (auto simp: common_prefix_for_key_def strip_prefix_eq_Some starts_with_iff
      split: option.splits if_splits) (metis append_take_drop_id)

lemma find_str_empty [simp]: "find_str s [] = Some 0"
  by (cases s) simp_all

lemma find_str_append:
  "find_str s d = Some n \<Longrightarrow> find_str (take (n + length d) s @ t) d = Some n"
proof (induction s d arbitrary: n rule: find_str.induct)
  case (2 c s d)
  show ?case
  proof (cases "starts_with (c # s) d")
    case True
    then have "n = 0" "take (length d) (c # s) = d"
      using "2.prems" by (auto simp: starts_with_iff)
    moreover have "starts_with (d @ t) d" by (auto simp: starts_with_iff)
    ultimately show ?thesis by (cases "d @ t") auto
  next
    case False
    then obtain m where m: "find_str s d = Some m" "n = Suc m" using "2.prems" by auto
    have "\<not> starts_with (c # take (m + length d) s @ t) d"
    proof
      assume "starts_with (c # take (m + length d) s @ t) d"
      then have "take (length d) (c # take (m + length d) s @ t) = d"
        by (metis append_eq_conv_conj starts_with_iff)
      moreover have "length d \<le> length (c # take (m + length d) s)"
        using find_str_Some [OF m(1)] by simp
      ultimately have "take (length d) (c # take (m + length d) s) = d"
        using take_append [of "length d" "c # take (m + length d) s" t] by (simp del: take_append)
      then have "take (length d) (c # s) = d" by (cases d) simp_all
      with False show False by (metis append_take_drop_id starts_with_iff)
    qed
    with 2 False m show ?thesis by simp
  qed
qed (auto split: if_splits)

lemma common_prefix_shared:
  assumes "common_prefix_for_key k pfx dl = Some p" "starts_with k' p"
  shows "common_prefix_for_key k' pfx dl = Some p"
proof -
  obtain d rest i where d: "dl = Some d" "d \<noteq> []" "k = pfx @ rest" "find_str rest d = Some i"
    "p = pfx @ take (i + length d) rest"
    using assms(1) by (auto simp: common_prefix_for_key_def strip_prefix_eq_Some split: option.splits if_splits)
  obtain t where t: "k' = pfx @ take (i + length d) rest @ t" using assms(2) d by (auto simp: starts_with_iff)
  have "i + length d \<le> length rest" using find_str_Some [OF d(4)] by simp
  then have "take (i + length d) (take (i + length d) rest @ t) = take (i + length d) rest" by simp
  then show ?thesis
    using d t find_str_append [OF d(4), of t]
    by (simp add: common_prefix_for_key_def strip_prefix_def starts_with_iff)
qed

lemma starts_with_between: "a \<le> b \<Longrightarrow> b \<le> c \<Longrightarrow> starts_with a p \<Longrightarrow> starts_with c p \<Longrightarrow> starts_with b (p :: string)"
proof (induction p arbitrary: a b c)
  case (Cons x p)
  then obtain a' c' where a: "a = x # a'" "starts_with a' p" and c: "c = x # c'" "starts_with c' p"
    by (cases a; cases c) auto
  with Cons.prems obtain y b' where b: "b = y # b'" by (cases b) auto
  with a c Cons.prems have "y = x" "a' \<le> b'" "b' \<le> c'" by auto
  with Cons.IH [OF _ _ a(2) c(2)] b show ?case by simp
qed simp

section \<open>Groups\<close>

datatype 'r listing_group = One 'r | Folded string "'r list"

definition add_row :: "('r \<Rightarrow> string option) \<Rightarrow> 'r listing_group list \<Rightarrow> 'r \<Rightarrow> 'r listing_group list" where
  "add_row cp gs r =
     (case cp r of
        None \<Rightarrow> gs @ [One r]
      | Some p \<Rightarrow>
          (case rev gs of
             Folded q xs # hs \<Rightarrow> if q = p then rev hs @ [Folded p (xs @ [r])] else gs @ [Folded p [r]]
           | _ \<Rightarrow> gs @ [Folded p [r]]))"

definition groups :: "('r \<Rightarrow> string option) \<Rightarrow> 'r list \<Rightarrow> 'r listing_group list" where
  "groups cp rows = foldl (add_row cp) [] rows"

fun group_rows :: "'r listing_group \<Rightarrow> 'r list" where
  "group_rows (One r) = [r]"
| "group_rows (Folded p xs) = xs"

fun group_prefix :: "'r listing_group \<Rightarrow> string option" where
  "group_prefix (One r) = None"
| "group_prefix (Folded p xs) = Some p"

definition contiguous :: "('r \<Rightarrow> string option) \<Rightarrow> 'r list \<Rightarrow> bool" where
  "contiguous cp rows \<longleftrightarrow>
     (\<forall>xs a ys b zs y. rows = xs @ a # ys @ b # zs \<and> cp a = cp b \<and> cp a \<noteq> None \<and> y \<in> set ys \<longrightarrow> cp y = cp a)"

lemma groups_Nil [simp]: "groups cp [] = []"
  by (simp add: groups_def)

lemma groups_snoc: "groups cp (xs @ [r]) = add_row cp (groups cp xs) r"
  by (simp add: groups_def)

text \<open>Whether a row joins the last group of a page, or opens a new one.\<close>

definition joins :: "('r \<Rightarrow> string option) \<Rightarrow> 'r list \<Rightarrow> 'r \<Rightarrow> bool" where
  "joins cp xs r \<longleftrightarrow> xs \<noteq> [] \<and> cp r \<noteq> None \<and> cp (last xs) = cp r"

lemma last_group:
  "xs \<noteq> [] \<Longrightarrow> \<exists>hs g. groups cp xs = hs @ [g] \<and> group_prefix g = cp (last xs) \<and>
     group_rows g \<noteq> [] \<and> last (group_rows g) = last xs"
proof (induction xs rule: rev_induct)
  case (snoc r xs)
  then show ?case
    by (cases "xs = []")
      (auto simp: groups_snoc groups_def [of _ "[_]"] add_row_def split: option.split listing_group.split)
qed simp

lemma groups_snoc_join:
  assumes "joins cp xs r"
  obtains hs p ys where "groups cp xs = hs @ [Folded p ys]" "cp r = Some p" "ys \<noteq> []" "last ys = last xs"
    "groups cp (xs @ [r]) = hs @ [Folded p (ys @ [r])]"
proof -
  from assms obtain p where p: "xs \<noteq> []" "cp r = Some p" "cp (last xs) = Some p" by (auto simp: joins_def)
  from last_group [OF p(1), of cp] obtain hs g where g: "groups cp xs = hs @ [g]"
    "group_prefix g = Some p" "group_rows g \<noteq> []" "last (group_rows g) = last xs" using p by auto
  then obtain ys where "g = Folded p ys" by (cases g) auto
  with g p that show thesis by (auto simp: groups_snoc add_row_def)
qed

lemma groups_snoc_new:
  assumes "\<not> joins cp xs r"
  shows "groups cp (xs @ [r]) =
           groups cp xs @ [case cp r of None \<Rightarrow> One r | Some p \<Rightarrow> Folded p [r]]"
proof (cases "xs = []")
  case False
  from last_group [OF False, of cp] obtain hs g where g: "groups cp xs = hs @ [g]"
    "group_prefix g = cp (last xs)" by auto
  with assms False show ?thesis
    by (cases g) (auto simp: groups_snoc add_row_def joins_def split: option.split)
qed (auto simp: groups_def add_row_def split: option.split)

lemma groups_append_new:
  assumes "\<not> joins cp xs r"
  shows "groups cp (xs @ r # ys) = groups cp xs @ groups cp (r # ys)"
proof (induction ys rule: rev_induct)
  case Nil
  have "\<not> joins cp [] r" by (simp add: joins_def)
  from groups_snoc_new [OF this] groups_snoc_new [OF assms] show ?case by simp
next
  case (snoc y ys)
  have joins: "joins cp (xs @ r # ys) y \<longleftrightarrow> joins cp (r # ys) y" by (simp add: joins_def)
  have eq: "groups cp (xs @ r # ys @ [y]) = groups cp ((xs @ r # ys) @ [y])"
    "groups cp (r # ys @ [y]) = groups cp ((r # ys) @ [y])" by simp_all
  show ?case
  proof (cases "joins cp (r # ys) y")
    case True
    from groups_snoc_join [OF this] obtain hs p zs where a: "groups cp (r # ys) = hs @ [Folded p zs]"
      "cp y = Some p" "groups cp ((r # ys) @ [y]) = hs @ [Folded p (zs @ [y])]" by metis
    show ?thesis unfolding eq groups_snoc [of cp "xs @ r # ys"] snoc.IH
      using a by (simp add: add_row_def)
  next
    case False
    with joins have "\<not> joins cp (xs @ r # ys) y" by simp
    from groups_snoc_new [OF this] groups_snoc_new [OF False] snoc.IH show ?thesis
      unfolding eq by simp
  qed
qed

lemma group_rows_groups: "concat (map group_rows (groups cp xs)) = xs"
proof (induction xs rule: rev_induct)
  case (snoc r xs)
  show ?case
  proof (cases "joins cp xs r")
    case True
    from groups_snoc_join [OF this] obtain hs p ys where "groups cp xs = hs @ [Folded p ys]"
      "groups cp (xs @ [r]) = hs @ [Folded p (ys @ [r])]" by metis
    with snoc show ?thesis by simp
  next
    case False
    then show ?thesis using snoc by (simp add: groups_snoc_new split: option.split)
  qed
qed simp

lemma groups_ne: "xs \<noteq> [] \<Longrightarrow> groups cp xs \<noteq> []"
  using group_rows_groups [of cp xs] by auto

lemma contiguousD:
  "contiguous cp (xs @ a # ys @ b # zs) \<Longrightarrow> cp a = cp b \<Longrightarrow> cp a \<noteq> None \<Longrightarrow> y \<in> set ys \<Longrightarrow> cp y = cp a"
  unfolding contiguous_def by blast

lemma contiguous_append:
  assumes "contiguous cp (xs @ ys)"
  shows "contiguous cp xs" "contiguous cp ys"
  unfolding contiguous_def
proof (intro allI impI, elim conjE, goal_cases)
  case (1 us a vs b ws y)
  then show ?case using contiguousD [of cp us a vs b "ws @ ys" y] assms by simp
next
  case 2
  show ?case
  proof (intro allI impI, elim conjE)
    fix us a vs b ws y
    assume "ys = us @ a # vs @ b # ws" "cp a = cp b" "cp a \<noteq> None" "y \<in> set vs"
    then show "cp y = cp a" using contiguousD [of cp "xs @ us" a vs b ws y] assms by simp
  qed
qed

lemma contiguous_new:
  assumes "contiguous cp (xs @ [r])" "\<not> joins cp xs r" "cp r \<noteq> None" "x \<in> set xs"
  shows "cp x \<noteq> cp r"
proof
  assume eq: "cp x = cp r"
  obtain us vs where xs: "xs = us @ x # vs" using split_list [OF assms(4)] by blast
  show False
  proof (cases "vs = []")
    case True
    with xs eq assms(2,3) show False by (auto simp: joins_def)
  next
    case False
    then have "last vs \<in> set vs" by simp
    with assms(1,3) xs eq have "cp (last vs) = cp x"
      using contiguousD [of cp us x vs r "[]" "last vs"] by simp
    with xs False eq assms(2,3) show False by (auto simp: joins_def)
  qed
qed

lemma groups_prefix_member: "g \<in> set (groups cp xs) \<Longrightarrow> group_prefix g = Some p \<Longrightarrow> \<exists>x \<in> set xs. cp x = Some p"
proof (induction xs arbitrary: g rule: rev_induct)
  case (snoc r xs)
  show ?case
  proof (cases "joins cp xs r")
    case True
    from groups_snoc_join [OF this] obtain hs q ys where a: "groups cp xs = hs @ [Folded q ys]" "cp r = Some q"
      "groups cp (xs @ [r]) = hs @ [Folded q (ys @ [r])]" by metis
    from snoc.prems a consider "g \<in> set hs" | "p = q" by auto
    then show ?thesis
    proof cases
      case 1
      with snoc.IH [of g] snoc.prems a show ?thesis by auto
    qed (use a in auto)
  next
    case False
    with snoc show ?thesis by (auto simp: groups_snoc_new split: option.splits)
  qed
qed simp

text \<open>A group stands for a single row without a common prefix or for all its rows with one.\<close>

definition group_ok :: "('r \<Rightarrow> string option) \<Rightarrow> 'r listing_group \<Rightarrow> bool" where
  "group_ok cp g \<longleftrightarrow> group_rows g \<noteq> [] \<and> (\<forall>r \<in> set (group_rows g). cp r = group_prefix g)"

lemma groups_ok: "g \<in> set (groups cp xs) \<Longrightarrow> group_ok cp g"
proof (induction xs arbitrary: g rule: rev_induct)
  case (snoc r xs)
  show ?case
  proof (cases "joins cp xs r")
    case True
    from groups_snoc_join [OF this] obtain hs p ys where a: "groups cp xs = hs @ [Folded p ys]" "cp r = Some p"
      "groups cp (xs @ [r]) = hs @ [Folded p (ys @ [r])]" by metis
    from snoc.IH [of "Folded p ys"] a snoc.prems snoc.IH [of g] show ?thesis by (auto simp: group_ok_def)
  next
    case False
    with snoc show ?thesis by (auto simp: groups_snoc_new group_ok_def split: option.splits)
  qed
qed simp

lemma groups_distinct_prefixes:
  "contiguous cp xs \<Longrightarrow> distinct (List.map_filter group_prefix (groups cp xs))"
proof (induction xs rule: rev_induct)
  case (snoc r xs)
  have IH: "distinct (List.map_filter group_prefix (groups cp xs))"
    using snoc contiguous_append(1) [of cp xs "[r]"] by simp
  show ?case
  proof (cases "joins cp xs r")
    case True
    from groups_snoc_join [OF this] obtain hs p ys where a: "groups cp xs = hs @ [Folded p ys]"
      "groups cp (xs @ [r]) = hs @ [Folded p (ys @ [r])]" by metis
    with IH show ?thesis by (simp add: map_filter_def)
  next
    case False
    have "p \<notin> set (List.map_filter group_prefix (groups cp xs))" if "cp r = Some p" for p
    proof
      assume "p \<in> set (List.map_filter group_prefix (groups cp xs))"
      then obtain g where g: "g \<in> set (groups cp xs)" "group_prefix g = Some p" by (auto simp: map_filter_def)
      from groups_prefix_member [OF g] obtain x where "x \<in> set xs" "cp x = Some p" by blast
      with contiguous_new [OF snoc.prems False, of x] that show False by simp
    qed
    with IH show ?thesis by (auto simp: groups_snoc_new [OF False] map_filter_def split: option.splits)
  qed
qed (simp add: map_filter_def)

lemma sorted_contiguous:
  assumes "sorted (map key rows)"
  shows "contiguous (\<lambda>r. common_prefix_for_key (key r) pfx dl) rows"
  unfolding contiguous_def
proof (intro allI impI, elim conjE)
  fix xs a ys b zs y
  let ?cp = "\<lambda>r. common_prefix_for_key (key r) pfx dl"
  assume rows: "rows = xs @ a # ys @ b # zs" and eq: "?cp a = ?cp b" and some: "?cp a \<noteq> None" and y: "y \<in> set ys"
  from some obtain p where p: "?cp a = Some p" by auto
  have "key a \<le> key y" "key y \<le> key b" using assms rows y by (auto simp: sorted_append)
  then have "starts_with (key y) p"
    using common_prefix_starts [OF p] common_prefix_starts [of "key b" pfx dl p] eq p
    by (intro starts_with_between [of "key a" "key y" "key b"]) auto
  with common_prefix_shared [OF p] p show "?cp y = ?cp a" by simp
qed

section \<open>Encoded fields\<close>

lemma hex_table_all: "\<forall>n \<in> set [0..<16]. ''0123456789ABCDEF'' ! n = hex_upper n"
  by code_simp

lemma hex_table: "n < 16 \<Longrightarrow> ''0123456789ABCDEF'' ! n = hex_upper n"
  using hex_table_all by (metis atLeastLessThan_iff set_upt zero_le)

lemma pct_decode_bytes_Cons: "c \<noteq> CHR ''%'' \<Longrightarrow> pct_decode_bytes (c # s) = c # pct_decode_bytes s"
  using percent_codec_bytes by (simp add: percent_codec_def)

lemma url_encode_Cons:
  "rfc3986_url_encode (c # s) = (if url_unreserved c then [c] else pct_byte c) @ rfc3986_url_encode s"
  by (simp add: pct_byte_def hex_table char_div_16)

text \<open>A field encoded for an \<^verbatim>\<open>encoding-type=url\<close> listing contains only unreserved
  characters, upper case hexadecimal digits and percent signs, and percent-decoding it gives back the field.\<close>

theorem url_encode_roundtrip:
  "pct_decode_bytes (rfc3986_url_encode s) = s \<and>
   set (rfc3986_url_encode s) \<subseteq> {c. url_unreserved c \<or> c = CHR ''%''}"
proof (induction s)
  case (Cons c s)
  have hex: "url_unreserved (hex_upper n)" if "n < 16" for n
    using that by (auto simp: url_unreserved_def of_char_hex_upper Let_def)
  have "pct_decode_bytes (pct_byte c @ t) = c # pct_decode_bytes t" for t
    using percent_codec_bytes by (simp add: percent_codec_def)
  moreover have "url_unreserved c \<Longrightarrow> c \<noteq> CHR ''%''" by (auto simp: url_unreserved_def)
  moreover have "set (pct_byte c) \<subseteq> {c. url_unreserved c \<or> c = CHR ''%''}"
    using hex char_div_16 by (auto simp: pct_byte_def)
  ultimately show ?case using Cons by (auto simp: url_encode_Cons pct_decode_bytes_Cons simp del: rfc3986_url_encode.simps)
qed simp

end
