(* ===== verification/Storage_Class.thy ===== *)
theory Storage_Class
  imports Residency_Store Chunk_Framing "HOL-Library.AList"
begin

text \<open>
  Storage classes of listed objects (src/src/s3/ops/storage_class.rs): the write-header check and
  the batched lookup of the class of each object in one read snapshot. A \<^verbatim>\<open>HashMap\<close> that the
  code only looks up is a map; one that it iterates over is an association list, and the order of
  the iteration, which the standard library leaves open, is the argument \<open>hash_order\<close>.
\<close>

record object_identity =
  oi_id :: string
  oi_bucket :: string
  oi_key :: string
  oi_cid :: string

definition LOOKUP_CHUNK_SIZE :: nat where "LOOKUP_CHUNK_SIZE = 250"

text \<open>The S3 error \<^verbatim>\<open>InvalidRequest\<close> of a rejected header, raised without an \<open>app_error\<close>.\<close>

datatype s3_request_error = InvalidRequest string

definition non_standard_write :: s3_request_error where
  "non_standard_write = InvalidRequest ''direct writes only support STANDARD storage class''"

definition require_standard_write :: "string option \<Rightarrow> s3_request_error + unit" where
  "require_standard_write c =
     (case c of Some v \<Rightarrow> if v \<noteq> ''STANDARD'' then Inl non_standard_write else Inr () | None \<Rightarrow> Inr ())"

text \<open>A header value that is not visible ASCII has no string form: \<open>None\<close>.\<close>

fun require_standard_write_headers :: "string option list \<Rightarrow> s3_request_error + unit" where
  "require_standard_write_headers [] = Inr ()"
| "require_standard_write_headers (None # vs) = Inl non_standard_write"
| "require_standard_write_headers (Some v # vs) =
     bindR (require_standard_write (Some v)) (\<lambda>_. require_standard_write_headers vs)"

section \<open>The batched lookup\<close>

fun select_objects ::
  "object_identity list \<Rightarrow> (string \<rightharpoonup> object_identity) \<Rightarrow> (string \<rightharpoonup> object_identity) app_result" where
  "select_objects [] m = Inr m"
| "select_objects (ob # obs) m =
     (if (case m (oi_id ob) of Some existing \<Rightarrow> existing \<noteq> ob | None \<Rightarrow> False)
      then Inl (corrupt ''conflicting selected immutable objects'')
      else select_objects obs (m(oi_id ob \<mapsto> ob)))"

type_synonym version_index = "(string \<rightharpoonup> object_version_model) \<times> (string \<times> string) list"

fun index_version_rows ::
  "(string \<rightharpoonup> object_identity) \<Rightarrow> object_version_model list \<Rightarrow> version_index \<Rightarrow> version_index app_result" where
  "index_version_rows selected [] ix = Inr ix"
| "index_version_rows selected (v # vs) (vbo, obv) =
     bindR (ok_or (corrupt ''content version has no immutable object'') (ov_object_id v)) (\<lambda>oid.
     bindR (ok_or (corrupt ''version owner is not a selected immutable object'') (selected oid)) (\<lambda>ob.
     if ov_kind v \<noteq> ''object'' \<or> ov_bucket v \<noteq> oi_bucket ob \<or> ov_key v \<noteq> oi_key ob
     then Inl (corrupt ''version owner does not match immutable object metadata'')
     else if vbo oid \<noteq> None then Inl (corrupt ''immutable object has multiple content versions'')
     else index_version_rows selected vs (vbo(oid \<mapsto> v), AList.update (ov_id v) oid obv)))"

fun index_version_chunks ::
  "(string \<rightharpoonup> object_identity) \<Rightarrow> string list list \<Rightarrow> db \<Rightarrow> version_index \<Rightarrow> version_index app_result" where
  "index_version_chunks selected [] d ix = Inr ix"
| "index_version_chunks selected (chunk # cs) d ix =
     bindR (index_version_rows selected
              (filter (\<lambda>v. case ov_object_id v of Some i \<Rightarrow> i \<in> set chunk | None \<Rightarrow> False) (object_versions d)) ix)
       (index_version_chunks selected cs d)"

type_synonym residency_map = "(string \<times> version_residency_model) list"

fun merge_residencies :: "residency_map \<Rightarrow> version_residency_model list \<Rightarrow> residency_map app_result" where
  "merge_residencies t [] = Inr t"
| "merge_residencies t (x # xs) =
     (if (case map_of t (vr_version_row_id x) of Some existing \<Rightarrow> existing \<noteq> x | None \<Rightarrow> False)
      then Inl (corrupt ''residency changed during immutable lookup'')
      else merge_residencies (AList.update (vr_version_row_id x) x t) xs)"

fun merge_residency_chunks ::
  "(version_residency_model \<Rightarrow> string) \<Rightarrow> string list list \<Rightarrow> db \<Rightarrow> residency_map \<Rightarrow> residency_map app_result" where
  "merge_residency_chunks column [] d t = Inr t"
| "merge_residency_chunks column (chunk # cs) d t =
     bindR (merge_residencies t (filter (\<lambda>x. column x \<in> set chunk) (version_residencies d)))
       (merge_residency_chunks column cs d)"

fun index_residencies ::
  "(string \<rightharpoonup> object_identity) \<Rightarrow> (string \<times> string) list \<Rightarrow> version_residency_model list \<Rightarrow>
   residency_map \<Rightarrow> residency_map app_result" where
  "index_residencies selected obv [] rbo = Inr rbo"
| "index_residencies selected obv (x # xs) rbo =
     bindR (ok_or (corrupt ''residency owner version is missing'') (map_of obv (vr_version_row_id x))) (\<lambda>oid.
     if oid \<noteq> vr_object_id x \<or> selected (vr_object_id x) = None
     then Inl (corrupt ''residency owner is not the exact content version'')
     else if map_of rbo (vr_object_id x) \<noteq> None
     then Inl (corrupt ''immutable object has multiple residencies'')
     else index_residencies selected obv xs (AList.update (vr_object_id x) x rbo))"

type_synonym physical_map = "string \<times> string \<rightharpoonup> physical_residency_model"

fun index_physical_rows :: "physical_residency_model list \<Rightarrow> physical_map \<Rightarrow> physical_map app_result" where
  "index_physical_rows [] m = Inr m"
| "index_physical_rows (p # ps) m =
     (if m (pr_pk p) \<noteq> None then Inl (corrupt ''duplicate physical residency'')
      else index_physical_rows ps (m(pr_pk p \<mapsto> p)))"

fun index_physical_chunks :: "string list list \<Rightarrow> db \<Rightarrow> physical_map \<Rightarrow> physical_map app_result" where
  "index_physical_chunks [] d m = Inr m"
| "index_physical_chunks (chunk # cs) d m =
     bindR (index_physical_rows (filter (\<lambda>p. pr_cid p \<in> set chunk) (physical_residencies d)) m)
       (index_physical_chunks cs d)"

definition nonempty :: "string option \<Rightarrow> bool" where
  "nonempty v \<longleftrightarrow> (case v of Some s \<Rightarrow> s \<noteq> [] | None \<Rightarrow> False)"

definition validate_physical ::
  "(string \<Rightarrow> local_residency_verification_receipt option) \<Rightarrow> (string \<Rightarrow> 'cid option) \<Rightarrow>
   physical_residency_model \<Rightarrow> kubo_tier \<Rightarrow> unit app_result" where
  "validate_physical receipt_from_str cid_parse p tier =
     bindR (tier_from_db_str (pr_tier p)) (\<lambda>t.
     if t \<noteq> tier then Inl (corrupt ''physical residency tier mismatch'')
     else
     bindR (verification_from_db_str (pr_verification_state p)) (\<lambda>verification.
     if \<not> (case verification of
            Verified \<Rightarrow> nonempty (pr_node_identity p) \<and> nonempty (pr_verification_receipt p) \<and>
                        pr_verified_at p \<noteq> None
          | _ \<Rightarrow> pr_node_identity p = None \<and> pr_verification_receipt p = None \<and> pr_verified_at p = None)
     then Inl (corrupt ''invalid physical verification shape'')
     else if tier = Cold \<and> verification \<noteq> Verified
     then Inl (corrupt ''cold physical residency is not verified'')
     else if tier = Cold
     then validate_cold_receipt receipt_from_str cid_parse (pr_cid p) (pr_node_identity p)
            (pr_verification_receipt p)
     else Inr ()))"

text \<open>Indexing \<^verbatim>\<open>selected\<close> panics on a missing key; here it is an internal error.\<close>

definition class_of_object ::
  "(string \<Rightarrow> local_residency_verification_receipt option) \<Rightarrow> (string \<Rightarrow> 'cid option) \<Rightarrow>
   (string \<rightharpoonup> object_identity) \<Rightarrow> (string \<rightharpoonup> object_version_model) \<Rightarrow> residency_map \<Rightarrow> physical_map \<Rightarrow>
   string \<Rightarrow> storage_class app_result" where
  "class_of_object receipt_from_str cid_parse selected vbo rbo pbl oid =
     (case vbo oid of
        None \<Rightarrow> Inr Standard
      | Some v \<Rightarrow>
     (case map_of rbo oid of
        None \<Rightarrow> Inr Standard
      | Some x \<Rightarrow>
     bindR (ok_or (Internal ''selected'') (selected oid)) (\<lambda>ob.
     if vr_version_row_id x \<noteq> ov_id v \<or> vr_object_id x \<noteq> oi_id ob \<or> ov_object_id v \<noteq> Some (oi_id ob) \<or>
        vr_cid x \<noteq> oi_cid ob \<or> ov_bucket v \<noteq> oi_bucket ob \<or> ov_key v \<noteq> oi_key ob
     then Inl (corrupt ''residency identity does not match immutable object metadata'')
     else
     bindR (tier_from_db_str (vr_primary_tier x)) (\<lambda>tier.
     bindR (class_from_db_str (vr_storage_class x)) (\<lambda>class.
     if vr_revision x \<le> 0 \<or> (tier, class) \<notin> {(Hot, Standard), (Cold, StandardIa)}
     then Inl (corrupt ''invalid primary residency'')
     else
     bindR (ok_or (corrupt ''primary physical residency is missing'') (pbl (vr_primary_tier x, vr_cid x))) (\<lambda>p.
     bindR (validate_physical receipt_from_str cid_parse p tier) (\<lambda>_.
     Inr class)))))))"

fun collect_classes ::
  "(string \<Rightarrow> storage_class app_result) \<Rightarrow> string list \<Rightarrow> (string \<rightharpoonup> storage_class) \<Rightarrow>
   (string \<rightharpoonup> storage_class) app_result" where
  "collect_classes f [] m = Inr m"
| "collect_classes f (i # is) m = bindR (f i) (\<lambda>c. collect_classes f is (m(i \<mapsto> c)))"

definition classes_in_snapshot ::
  "(string \<Rightarrow> local_residency_verification_receipt option) \<Rightarrow> (string \<Rightarrow> 'cid option) \<Rightarrow>
   (version_residency_model list \<Rightarrow> version_residency_model list) \<Rightarrow> object_identity list \<Rightarrow> db \<Rightarrow>
   (string \<rightharpoonup> storage_class) app_result" where
  "classes_in_snapshot receipt_from_str cid_parse hash_order objs d =
     bindR (select_objects objs Map.empty) (\<lambda>selected.
     let object_ids = sort (remdups (map oi_id objs)) in
     bindR (index_version_chunks selected (chunks LOOKUP_CHUNK_SIZE object_ids) d (Map.empty, [])) (\<lambda>(vbo, obv).
     bindR (merge_residency_chunks vr_object_id (chunks LOOKUP_CHUNK_SIZE object_ids) d []) (\<lambda>rbv1.
     bindR (merge_residency_chunks vr_version_row_id
              (chunks LOOKUP_CHUNK_SIZE (sort (map fst obv))) d rbv1) (\<lambda>rbv.
     bindR (index_residencies selected obv (hash_order (map snd rbv)) []) (\<lambda>rbo.
     bindR (index_physical_chunks
              (chunks LOOKUP_CHUNK_SIZE (sort (remdups (map (vr_cid \<circ> snd) rbo)))) d Map.empty) (\<lambda>pbl.
     collect_classes (class_of_object receipt_from_str cid_parse selected vbo rbo pbl) object_ids Map.empty))))))"

definition identity_of :: "object_model \<Rightarrow> object_identity" where
  "identity_of ob = \<lparr>oi_id = obj_id ob, oi_bucket = obj_bucket ob, oi_key = obj_key ob, oi_cid = obj_cid ob\<rparr>"

definition classes_for_objects ::
  "(string \<Rightarrow> local_residency_verification_receipt option) \<Rightarrow> (string \<Rightarrow> 'cid option) \<Rightarrow>
   (version_residency_model list \<Rightarrow> version_residency_model list) \<Rightarrow> object_model list \<Rightarrow> db \<Rightarrow>
   (string \<rightharpoonup> storage_class) app_result" where
  "classes_for_objects receipt_from_str cid_parse hash_order obs d =
     (if obs = [] then Inr Map.empty
      else classes_in_snapshot receipt_from_str cid_parse hash_order (map identity_of obs) d)"

section \<open>The lookup is sound\<close>

lemma select_objects_Inr:
  "select_objects obs m = Inr m' \<Longrightarrow>
     (\<forall>i v. m i = Some v \<longrightarrow> m' i = Some v) \<and> (\<forall>ob \<in> set obs. m' (oi_id ob) = Some ob)"
proof (induction obs arbitrary: m)
  case (Cons ob obs)
  from Cons.prems have step: "select_objects obs (m(oi_id ob \<mapsto> ob)) = Inr m'"
    and old: "\<And>e. m (oi_id ob) = Some e \<Longrightarrow> e = ob"
    by (auto split: if_splits option.splits)
  from Cons.IH [OF step] have IH: "\<And>i v. (m(oi_id ob \<mapsto> ob)) i = Some v \<Longrightarrow> m' i = Some v"
    "\<forall>ob \<in> set obs. m' (oi_id ob) = Some ob" by blast+
  have "m' i = Some v" if "m i = Some v" for i v
    using IH(1) [of i v] old that by (cases "i = oi_id ob") auto
  with IH(1) [of "oi_id ob" ob] IH(2) show ?case by simp
qed simp

text \<open>What every merging loop keeps: \<open>t'\<close> extends \<open>t\<close> by exactly the rows of the set \<open>R\<close>.\<close>

definition extends_by ::
  "('x \<Rightarrow> string) \<Rightarrow> (string \<times> 'x) list \<Rightarrow> 'x set \<Rightarrow> (string \<times> 'x) list \<Rightarrow> bool" where
  "extends_by key t R t' \<longleftrightarrow>
     (\<forall>x \<in> R. map_of t' (key x) = Some x) \<and> (\<forall>k v. map_of t k = Some v \<longrightarrow> map_of t' k = Some v) \<and>
     snd ` set t' \<subseteq> R \<union> snd ` set t"

lemma extends_byD:
  assumes "extends_by key t R t'"
  shows "\<And>x. x \<in> R \<Longrightarrow> map_of t' (key x) = Some x" "\<And>k v. map_of t k = Some v \<Longrightarrow> map_of t' k = Some v"
    "snd ` set t' \<subseteq> R \<union> snd ` set t"
  using assms by (simp_all add: extends_by_def)

lemma extends_by_refl: "extends_by key t {} t"
  by (simp add: extends_by_def)

lemma snd_update: "snd ` set (AList.update k v t) \<subseteq> insert v (snd ` set t)"
  by (induction t) auto

lemma extends_by_update:
  assumes "\<And>e. map_of t (key x) = Some e \<Longrightarrow> e = x" "extends_by key (AList.update (key x) x t) R t'"
  shows "extends_by key t (insert x R) t'"
proof -
  have u: "map_of (AList.update (key x) x t) = (map_of t)(key x \<mapsto> x)" by (rule update_conv')
  have inv: "\<And>k v. ((map_of t)(key x \<mapsto> x)) k = Some v \<Longrightarrow> map_of t' k = Some v"
    and R: "\<forall>y \<in> R. map_of t' (key y) = Some y"
    and sub: "snd ` set t' \<subseteq> R \<union> snd ` set (AList.update (key x) x t)"
    using assms(2) unfolding extends_by_def u by blast+
  have t': "map_of t' (key x) = Some x" by (rule inv) simp
  have old: "map_of t' k = Some v" if "map_of t k = Some v" for k v
    using assms(1) that t' inv [of k v] by (cases "k = key x") auto
  have "snd ` set t' \<subseteq> insert x R \<union> snd ` set t" using sub snd_update [of "key x" x t] by blast
  with R t' old show ?thesis unfolding extends_by_def by blast
qed

lemma extends_by_trans:
  assumes "extends_by key t R t'" "extends_by key t' S t''"
  shows "extends_by key t (R \<union> S) t''"
  using assms unfolding extends_by_def by blast

lemma merge_residencies_Inr:
  "merge_residencies t xs = Inr t' \<Longrightarrow> extends_by vr_version_row_id t (set xs) t'"
proof (induction t xs rule: merge_residencies.induct)
  case (2 t x xs)
  from "2.prems" have old: "\<And>e. map_of t (vr_version_row_id x) = Some e \<Longrightarrow> e = x"
    and step: "merge_residencies (AList.update (vr_version_row_id x) x t) xs = Inr t'"
    by (auto split: if_splits option.splits)
  from "2.prems" have "extends_by vr_version_row_id (AList.update (vr_version_row_id x) x t) (set xs) t'"
    by (intro "2.IH" step) (auto split: if_splits)
  from extends_by_update [OF old this] show ?case by simp
qed (simp add: extends_by_refl)

lemma merge_residency_chunks_Inr:
  "merge_residency_chunks column cs d t = Inr t' \<Longrightarrow>
     extends_by vr_version_row_id t {x \<in> set (version_residencies d). column x \<in> set (concat cs)} t'"
proof (induction column cs d t rule: merge_residency_chunks.induct)
  case (2 column chunk cs d t)
  then obtain u where u: "merge_residencies t (filter (\<lambda>x. column x \<in> set chunk) (version_residencies d)) = Inr u"
    "merge_residency_chunks column cs d u = Inr t'" by (auto simp: bindR_eq_Inr)
  have "{x \<in> set (version_residencies d). column x \<in> set (concat (chunk # cs))} =
      set (filter (\<lambda>x. column x \<in> set chunk) (version_residencies d)) \<union>
      {x \<in> set (version_residencies d). column x \<in> set (concat cs)}" by fastforce
  with extends_by_trans [OF merge_residencies_Inr [OF u(1)] "2.IH" [OF u(2)]] show ?case by simp
qed (simp add: extends_by_refl)

lemma index_residencies_Inr:
  "index_residencies selected obv xs rbo = Inr rbo' \<Longrightarrow> extends_by vr_object_id rbo (set xs) rbo'"
proof (induction selected obv xs rbo rule: index_residencies.induct)
  case (2 selected obv x xs rbo)
  from "2.prems" obtain oid where oid: "map_of obv (vr_version_row_id x) = Some oid"
    "map_of rbo (vr_object_id x) = None"
    "\<not> (oid \<noteq> vr_object_id x \<or> selected (vr_object_id x) = None)"
    "index_residencies selected obv xs (AList.update (vr_object_id x) x rbo) = Inr rbo'"
    by (auto simp: bindR_eq_Inr split: if_splits)
  have "extends_by vr_object_id (AList.update (vr_object_id x) x rbo) (set xs) rbo'"
    using oid by (intro "2.IH") auto
  from extends_by_update [OF _ this] oid(2) show ?case by simp
qed (simp add: extends_by_refl)

lemma index_physical_rows_Inr:
  "index_physical_rows ps m = Inr m' \<Longrightarrow> m' k = Some p \<Longrightarrow> m k = Some p \<or> p \<in> set ps \<and> pr_pk p = k"
proof (induction ps arbitrary: m)
  case (Cons q ps)
  from Cons.prems have step: "index_physical_rows ps (m(pr_pk q \<mapsto> q)) = Inr m'" by (simp split: if_splits)
  from Cons.IH [OF step Cons.prems(2)] show ?case by (cases "k = pr_pk q") auto
qed simp

lemma index_physical_chunks_Inr:
  "index_physical_chunks cs d m = Inr m' \<Longrightarrow> m' k = Some p \<Longrightarrow>
     m k = Some p \<or> p \<in> set (physical_residencies d) \<and> pr_pk p = k"
proof (induction cs d m rule: index_physical_chunks.induct)
  case (2 chunk cs d m)
  then obtain u where u: "index_physical_rows (filter (\<lambda>p. pr_cid p \<in> set chunk) (physical_residencies d)) m = Inr u"
    "index_physical_chunks cs d u = Inr m'" by (auto simp: bindR_eq_Inr)
  from "2.IH" [OF u(2) "2.prems"(2)] index_physical_rows_Inr [OF u(1), of k p] show ?case by auto
qed simp

lemma collect_classes_Inr:
  "collect_classes f is m = Inr m' \<Longrightarrow>
     m' = (\<lambda>i. if i \<in> set is then (case f i of Inr c \<Rightarrow> Some c | Inl _ \<Rightarrow> None) else m i) \<and>
     (\<forall>i \<in> set is. \<exists>c. f i = Inr c)"
  by (induction f "is" m rule: collect_classes.induct) (auto simp: bindR_eq_Inr fun_eq_iff)

lemma index_residencies_owner:
  "index_residencies selected obv xs rbo = Inr rbo' \<Longrightarrow> x \<in> set xs \<Longrightarrow>
     map_of obv (vr_version_row_id x) = Some (vr_object_id x)"
  by (induction xs arbitrary: rbo) (auto simp: bindR_eq_Inr split: if_splits)

lemma index_version_rows_Inr:
  "index_version_rows selected vs ix = Inr ix' \<Longrightarrow>
     (\<forall>i oid. map_of (snd ix) i = Some oid \<longrightarrow> fst ix oid \<noteq> None) \<Longrightarrow>
     (\<forall>i oid. map_of (snd ix') i = Some oid \<longrightarrow> fst ix' oid \<noteq> None)"
proof (induction vs arbitrary: ix)
  case (Cons v vs)
  obtain vbo obv where ix: "ix = (vbo, obv)" by (cases ix)
  from Cons.prems(1) obtain oid where oid: "ov_object_id v = Some oid"
    and step: "index_version_rows selected vs (vbo(oid \<mapsto> v), AList.update (ov_id v) oid obv) = Inr ix'"
    by (auto simp: ix bindR_eq_Inr split: if_splits)
  from Cons.IH [OF step] Cons.prems(2) show ?case by (simp add: ix update_conv')
qed simp

lemma index_version_chunks_Inr:
  "index_version_chunks selected cs d ix = Inr ix' \<Longrightarrow>
     (\<forall>i oid. map_of (snd ix) i = Some oid \<longrightarrow> fst ix oid \<noteq> None) \<Longrightarrow>
     (\<forall>i oid. map_of (snd ix') i = Some oid \<longrightarrow> fst ix' oid \<noteq> None)"
proof (induction cs arbitrary: ix)
  case (Cons chunk cs)
  let ?rows = "filter (\<lambda>v. case ov_object_id v of Some i \<Rightarrow> i \<in> set chunk | None \<Rightarrow> False) (object_versions d)"
  from Cons.prems(1) obtain u where u: "index_version_rows selected ?rows ix = Inr u"
    "index_version_chunks selected cs d u = Inr ix'" by (auto simp: bindR_eq_Inr)
  from Cons.IH [OF u(2) index_version_rows_Inr [OF u(1) Cons.prems(2)]] show ?case .
qed simp

lemma validate_physical_cold:
  assumes "validate_physical receipt_from_str cid_parse p Cold = Inr ()"
  shows "pr_verification_state p = ''verified'' \<and>
    validate_cold_receipt receipt_from_str cid_parse (pr_cid p) (pr_node_identity p) (pr_verification_receipt p) = Inr ()"
  using assms by (auto simp: validate_physical_def bindR_eq_Inr tier_from_db_str_def verification_from_db_str_def
      split: if_splits)

text \<open>The decision for one object, when the object has a version.\<close>

lemma class_of_object_Inr:
  assumes "class_of_object receipt_from_str cid_parse selected vbo rbo pbl (oi_id ob) = Inr c"
    and "selected (oi_id ob) = Some ob" "vbo (oi_id ob) = Some v" "map_of rbo (oi_id ob) = Some x"
    and pbl: "\<And>k p. pbl k = Some p \<Longrightarrow> pr_pk p = k"
  shows "vr_storage_class x = class_as_db_str c \<and> vr_cid x = oi_cid ob \<and> vr_object_id x = oi_id ob \<and>
    (c = StandardIa \<longrightarrow> vr_primary_tier x = ''cold'' \<and>
       (\<exists>p. pbl (''cold'', oi_cid ob) = Some p \<and> pr_verification_state p = ''verified'' \<and>
          validate_cold_receipt receipt_from_str cid_parse (oi_cid ob) (pr_node_identity p)
            (pr_verification_receipt p) = Inr ()))"
proof -
  from assms obtain tier p where t: "tier_from_db_str (vr_primary_tier x) = Inr tier"
    "class_from_db_str (vr_storage_class x) = Inr c" "vr_cid x = oi_cid ob" "vr_object_id x = oi_id ob"
    "(tier, c) \<in> {(Hot, Standard), (Cold, StandardIa)}"
    "pbl (vr_primary_tier x, vr_cid x) = Some p" "validate_physical receipt_from_str cid_parse p tier = Inr ()"
    by (auto simp: class_of_object_def bindR_eq_Inr split: if_splits)
  have cid: "pr_cid p = oi_cid ob" using pbl [OF t(6)] t(3) by simp
  from t(2) have "vr_storage_class x = class_as_db_str c"
    by (auto simp: class_from_db_str_def split: if_splits)
  moreover have "vr_primary_tier x = ''cold''" if "tier = Cold"
    using t(1) that by (auto simp: tier_from_db_str_def split: if_splits)
  ultimately show ?thesis using t cid validate_physical_cold [of receipt_from_str cid_parse p] by auto
qed

text \<open>C22: The storage class a listing reports for an object is the class of every residency row of the
  object, and STANDARD when it has none; an object is reported as STANDARD_IA only when it has a cold
  primary residency of its CID whose physical copy is verified and carries a receipt for that CID and node.\<close>

theorem classes_in_snapshot_sound:
  assumes "classes_in_snapshot receipt_from_str cid_parse hash_order objs d = Inr classes"
    and hash_order: "\<And>xs. set (hash_order xs) = set xs"
    and ob: "ob \<in> set objs"
  shows "\<exists>c. classes (oi_id ob) = Some c \<and>
    (\<forall>x \<in> set (version_residencies d). vr_object_id x = oi_id ob \<longrightarrow> vr_storage_class x = class_as_db_str c) \<and>
    ((\<forall>x \<in> set (version_residencies d). vr_object_id x \<noteq> oi_id ob) \<longrightarrow> c = Standard) \<and>
    (c = StandardIa \<longrightarrow> (\<exists>x \<in> set (version_residencies d). \<exists>p \<in> set (physical_residencies d).
       vr_object_id x = oi_id ob \<and> vr_cid x = oi_cid ob \<and> vr_primary_tier x = ''cold'' \<and>
       pr_pk p = (''cold'', oi_cid ob) \<and> pr_verification_state p = ''verified'' \<and>
       validate_cold_receipt receipt_from_str cid_parse (oi_cid ob) (pr_node_identity p)
         (pr_verification_receipt p) = Inr ()))"
proof -
  let ?ids = "sort (remdups (map oi_id objs))"
  let ?chunks = "chunks LOOKUP_CHUNK_SIZE"
  from assms(1) obtain selected vbo obv rbv1 rbv rbo pbl where
    sel: "select_objects objs Map.empty = Inr selected" and
    ix: "index_version_chunks selected (?chunks ?ids) d (Map.empty, []) = Inr (vbo, obv)" and
    m1: "merge_residency_chunks vr_object_id (?chunks ?ids) d [] = Inr rbv1" and
    m2: "merge_residency_chunks vr_version_row_id (?chunks (sort (map fst obv))) d rbv1 = Inr rbv" and
    ir: "index_residencies selected obv (hash_order (map snd rbv)) [] = Inr rbo" and
    ip: "index_physical_chunks (?chunks (sort (remdups (map (vr_cid \<circ> snd) rbo)))) d Map.empty = Inr pbl" and
    cc: "collect_classes (class_of_object receipt_from_str cid_parse selected vbo rbo pbl) ?ids Map.empty = Inr classes"
    by (auto simp: classes_in_snapshot_def bindR_eq_Inr Let_def)
  have pos: "0 < LOOKUP_CHUNK_SIZE" by (simp add: LOOKUP_CHUNK_SIZE_def)
  note e1 = merge_residency_chunks_Inr [OF m1, unfolded concat_chunks [OF pos]]
    and e2 = merge_residency_chunks_Inr [OF m2, unfolded concat_chunks [OF pos]]
    and e3 = index_residencies_Inr [OF ir]
  have i: "oi_id ob \<in> set ?ids" using ob by simp
  have so: "selected (oi_id ob) = Some ob" using select_objects_Inr [OF sel] ob by blast
  obtain c where c: "class_of_object receipt_from_str cid_parse selected vbo rbo pbl (oi_id ob) = Inr c"
    "classes (oi_id ob) = Some c"
    using collect_classes_Inr [OF cc] i by auto
  have pbl: "p \<in> set (physical_residencies d) \<and> pr_pk p = k" if "pbl k = Some p" for k p
    using index_physical_chunks_Inr [OF ip that] by simp
  have rbv: "set (hash_order (map snd rbv)) \<subseteq> set (version_residencies d)"
  proof -
    have "snd ` set rbv \<subseteq> set (version_residencies d)" 
      using extends_byD(3) [OF e1] extends_byD(3) [OF e2] by (auto dest!: subsetD)
    then show ?thesis by (simp add: hash_order)
  qed
  have rbo: "x \<in> set (version_residencies d)" if "map_of rbo k = Some x" for k x
  proof -
    from map_of_SomeD [OF that] have "x \<in> snd ` set rbo" by (rule image_eqI [rotated]) simp
    with extends_byD(3) [OF e3] rbv show ?thesis by auto
  qed
  have known: "map_of rbo (oi_id ob) = Some x \<and> vbo (oi_id ob) \<noteq> None"
    if x: "x \<in> set (version_residencies d)" "vr_object_id x = oi_id ob" for x
  proof -
    have "map_of rbv1 (vr_version_row_id x) = Some x" using extends_byD(1) [OF e1] x i by simp
    then have "map_of rbv (vr_version_row_id x) = Some x" by (rule extends_byD(2) [OF e2])
    from map_of_SomeD [OF this] have m: "x \<in> set (hash_order (map snd rbv))"
      unfolding hash_order set_map by (rule image_eqI [rotated]) simp
    have "map_of obv (vr_version_row_id x) = Some (oi_id ob)" using index_residencies_owner [OF ir m] x by simp
    then have "vbo (oi_id ob) \<noteq> None" using index_version_chunks_Inr [OF ix] by auto
    with extends_byD(1) [OF e3 m] x show ?thesis by simp
  qed
  note decide = class_of_object_Inr [OF c(1) so _ _ pbl [THEN conjunct2]]
  show ?thesis
  proof (cases "vbo (oi_id ob) = None \<or> map_of rbo (oi_id ob) = None")
    case True
    then have "c = Standard" using c(1) by (auto simp: class_of_object_def split: option.splits)
    moreover have "vr_object_id x \<noteq> oi_id ob" if "x \<in> set (version_residencies d)" for x
      using known [OF that] True by auto
    ultimately show ?thesis by (intro exI [of _ c] conjI ballI impI) (simp_all add: c(2))
  next
    case False
    then obtain v x where v: "vbo (oi_id ob) = Some v" "map_of rbo (oi_id ob) = Some x" by auto
    note x = decide [OF v] rbo [OF v(2)]
    show ?thesis
    proof (intro exI [of _ c] conjI ballI impI)
      show "vr_storage_class y = class_as_db_str c"
        if "y \<in> set (version_residencies d)" "vr_object_id y = oi_id ob" for y
        using known [OF that] v x by simp
      show "c = Standard" if "\<forall>x \<in> set (version_residencies d). vr_object_id x \<noteq> oi_id ob"
        using that x by simp
      assume "c = StandardIa"
      with x obtain p where p: "pbl (''cold'', oi_cid ob) = Some p" "pr_verification_state p = ''verified''"
        "validate_cold_receipt receipt_from_str cid_parse (oi_cid ob) (pr_node_identity p)
            (pr_verification_receipt p) = Inr ()" "vr_primary_tier x = ''cold''" by auto
      with x pbl [OF p(1)] show "\<exists>x \<in> set (version_residencies d). \<exists>p \<in> set (physical_residencies d).
         vr_object_id x = oi_id ob \<and> vr_cid x = oi_cid ob \<and> vr_primary_tier x = ''cold'' \<and>
         pr_pk p = (''cold'', oi_cid ob) \<and> pr_verification_state p = ''verified'' \<and>
         validate_cold_receipt receipt_from_str cid_parse (oi_cid ob) (pr_node_identity p)
           (pr_verification_receipt p) = Inr ()"
        by (intro bexI [of _ x] bexI [of _ p]) simp_all
    qed (rule c(2))
  qed
qed

text \<open>The sample object after its only version moved to the cold tier.\<close>

definition cold_db :: db where
  "cold_db = sample_db\<lparr>
     version_residencies := [\<lparr>vr_version_row_id = ''v1'', vr_object_id = ''o1'', vr_primary_tier = ''cold'',
       vr_storage_class = ''STANDARD_IA'', vr_cid = ''c1'', vr_revision = 2, vr_created_at = 0, vr_updated_at = 1\<rparr>],
     physical_residencies := [\<lparr>pr_tier = ''cold'', pr_cid = ''c1'', pr_node_identity = Some ''n'',
       pr_verification_state = ''verified'', pr_verification_receipt = Some ''r'', pr_verified_at = Some 1,
       pr_created_at = 0, pr_updated_at = 1\<rparr>]\<rparr>"

theorem classes_in_snapshot_sound_witness:
  "\<exists>p \<in> set (physical_residencies cold_db). pr_pk p = (''cold'', ''c1'') \<and> pr_verification_state p = ''verified''"
proof -
  let ?ob = "\<lparr>oi_id = ''o1'', oi_bucket = ''b'', oi_key = ''k'', oi_cid = ''c1''\<rparr>"
  let ?rec = "\<lambda>_. Some \<lparr>lrv_node_identity = ''n'', lrv_cid = ''c1''\<rparr>"
  have one: "chunks LOOKUP_CHUNK_SIZE [x] = [[x]]" for x :: string
    by (simp add: chunks_short LOOKUP_CHUNK_SIZE_def)
  have "classes_in_snapshot ?rec Some rev [?ob] cold_db = Inr [''o1'' \<mapsto> StandardIa]"
    by (simp add: classes_in_snapshot_def one cold_db_def class_of_object_def validate_physical_def
        validate_cold_receipt_def nonempty_def tier_from_db_str_def class_from_db_str_def
        verification_from_db_str_def)
  from classes_in_snapshot_sound [OF this, of ?ob] show ?thesis by auto
qed

end
