(* ===== verification/Object_Listing.thy ===== *)
theory Object_Listing
  imports Listing_Groups Storage_Class
begin

text \<open>
  Listing the current objects of a bucket: the query of src/src/store/object.rs and the paging of
  src/src/s3/ops/object.rs. The prefix condition of the query is sea-orm's \<^verbatim>\<open>starts_with\<close>, a
  \<^verbatim>\<open>LIKE\<close> pattern the database interprets; it is the argument \<open>like\<close>, of which the theorems
  need nothing. Keys are compared bytewise.
\<close>

section \<open>The query\<close>

record listing_object =
  lo_id :: string
  lo_bucket :: string
  lo_key :: string
  lo_cid :: string
  lo_size :: int
  lo_etag :: string
  lo_created_at :: datetime

definition listing_object_of :: "object_model \<Rightarrow> listing_object" where
  "listing_object_of ob =
     \<lparr>lo_id = obj_id ob, lo_bucket = obj_bucket ob, lo_key = obj_key ob, lo_cid = obj_cid ob,
      lo_size = obj_size ob, lo_etag = obj_etag ob, lo_created_at = obj_created_at ob\<rparr>"

definition object_list ::
  "(string \<Rightarrow> string \<Rightarrow> bool) \<Rightarrow> string \<Rightarrow> string option \<Rightarrow> string option \<Rightarrow> nat \<Rightarrow> db \<Rightarrow> listing_object list" where
  "object_list like b pfx token max_keys d =
     take max_keys (map listing_object_of (sort_key obj_key (filter (\<lambda>ob.
       obj_bucket ob = b \<and> obj_is_latest ob \<and>
       (case pfx of Some p \<Rightarrow> like p (obj_key ob) | None \<Rightarrow> True) \<and>
       (case token of Some t \<Rightarrow> t \<noteq> [] \<longrightarrow> obj_key ob > t | None \<Rightarrow> True)) (objects d))))"

section \<open>The page builder\<close>

datatype listing_entry =
    ObjectEntry listing_object
  | CommonPrefix string string

record listing_page =
  lp_entries :: "listing_entry list"
  lp_is_truncated :: bool
  lp_next_cursor :: "string option"

datatype push_list_entry_result = Continue | PageComplete

record listing_page_builder =
  pb_prefix :: string
  pb_delimiter :: "string option"
  pb_max_keys :: nat
  pb_entries :: "listing_entry list"
  pb_common_prefix_positions :: "string \<rightharpoonup> nat"
  pb_last_consumed_key :: "string option"
  pb_is_truncated :: bool

definition new_builder :: "string \<Rightarrow> string option \<Rightarrow> nat \<Rightarrow> listing_page_builder" where
  "new_builder pfx delimiter max_keys =
     \<lparr>pb_prefix = pfx, pb_delimiter = delimiter, pb_max_keys = max_keys, pb_entries = [],
      pb_common_prefix_positions = Map.empty, pb_last_consumed_key = None, pb_is_truncated = False\<rparr>"

fun set_continuation_key :: "string \<Rightarrow> listing_entry \<Rightarrow> listing_entry" where
  "set_continuation_key key (CommonPrefix p _) = CommonPrefix p key"
| "set_continuation_key key (ObjectEntry r) = ObjectEntry r"

definition push_row ::
  "listing_page_builder \<Rightarrow> listing_object \<Rightarrow> listing_page_builder \<times> push_list_entry_result" where
  "push_row b row =
     (let key = lo_key row in
      case common_prefix_for_key key (pb_prefix b) (pb_delimiter b) of
        Some p \<Rightarrow>
          (case pb_common_prefix_positions b p of
             Some position \<Rightarrow>
               (b\<lparr>pb_entries := (pb_entries b)[position := set_continuation_key key (pb_entries b ! position)],
                  pb_last_consumed_key := Some key\<rparr>, Continue)
           | None \<Rightarrow>
               if length (pb_entries b) \<ge> pb_max_keys b then (b\<lparr>pb_is_truncated := True\<rparr>, PageComplete)
               else (b\<lparr>pb_entries := pb_entries b @ [CommonPrefix p key],
                       pb_common_prefix_positions := (pb_common_prefix_positions b)(p \<mapsto> length (pb_entries b)),
                       pb_last_consumed_key := Some key\<rparr>, Continue))
      | None \<Rightarrow>
          if length (pb_entries b) \<ge> pb_max_keys b then (b\<lparr>pb_is_truncated := True\<rparr>, PageComplete)
          else (b\<lparr>pb_entries := pb_entries b @ [ObjectEntry row], pb_last_consumed_key := Some key\<rparr>, Continue))"

definition finish_page :: "listing_page_builder \<Rightarrow> listing_page" where
  "finish_page b =
     \<lparr>lp_entries = pb_entries b, lp_is_truncated = pb_is_truncated b,
      lp_next_cursor = (if pb_is_truncated b then pb_last_consumed_key b else None)\<rparr>"

section \<open>Paging\<close>

record listing_request =
  lr_bucket :: string
  lr_prefix :: string
  lr_delimiter :: "string option"
  lr_cursor :: "string option"
  lr_max_keys :: nat

definition non_empty :: "string option \<Rightarrow> string option" where
  "non_empty v = (if v = Some [] then None else v)"

text \<open>The inner loop over one batch: the builder, the cursor and whether the page is complete.\<close>

fun push_rows ::
  "listing_page_builder \<Rightarrow> string option \<Rightarrow> listing_object list \<Rightarrow> listing_page_builder \<times> string option \<times> bool" where
  "push_rows b cursor [] = (b, cursor, False)"
| "push_rows b cursor (row # rows) =
     (case push_row b row of
        (b', PageComplete) \<Rightarrow> (b', cursor, True)
      | (b', Continue) \<Rightarrow> push_rows b' (Some (lo_key row)) rows)"

text \<open>The outer loop reads a batch after the cursor until the page is complete or a batch is short.\<close>

partial_function (option) paging ::
  "(string option \<Rightarrow> nat \<Rightarrow> listing_object list) \<Rightarrow> nat \<Rightarrow> listing_page_builder \<Rightarrow> string option \<Rightarrow>
   listing_page_builder option" where
  "paging query batch_limit b cursor =
     (let rows = query cursor batch_limit in
      case push_rows b cursor rows of
        (b', cursor', complete) \<Rightarrow>
          if complete \<or> length rows < batch_limit then Some b'
          else paging query batch_limit b' cursor')"

definition batch_limit_for :: "string option \<Rightarrow> nat \<Rightarrow> nat" where
  "batch_limit_for delimiter max_keys =
     (if delimiter \<noteq> None then max (max_keys + 1) 1000 else max_keys + 1)"

definition prefix_filter_for :: "string \<Rightarrow> string option" where
  "prefix_filter_for pfx = (if pfx = [] then None else Some pfx)"

definition build_listing_page ::
  "(string \<Rightarrow> string \<Rightarrow> bool) \<Rightarrow> listing_request \<Rightarrow> db \<Rightarrow> listing_page app_result option" where
  "build_listing_page like req d =
     (if \<not> bucket_exists (lr_bucket req) d then Some (Inl (NoSuchBucket (lr_bucket req)))
      else
        let cursor = non_empty (lr_cursor req);
            prefix_filter = prefix_filter_for (lr_prefix req);
            delimiter = non_empty (lr_delimiter req);
            batch_limit = batch_limit_for delimiter (lr_max_keys req);
            builder = new_builder (lr_prefix req) delimiter (lr_max_keys req)
        in map_option (\<lambda>b. Inr (finish_page b))
             (paging (\<lambda>cursor limit. object_list like (lr_bucket req) prefix_filter cursor limit d)
                batch_limit builder cursor))"

section \<open>Responses\<close>

record listed_object =
  lob_key :: string
  lob_size :: int
  lob_etag :: string
  lob_last_modified :: datetime
  lob_storage_class :: string

fun entry_identity :: "listing_entry \<Rightarrow> object_identity option" where
  "entry_identity (ObjectEntry r) =
     Some \<lparr>oi_id = lo_id r, oi_bucket = lo_bucket r, oi_key = lo_key r, oi_cid = lo_cid r\<rparr>"
| "entry_identity (CommonPrefix p k) = None"

text \<open>\<^verbatim>\<open>classes[&model.id]\<close> panics on a missing class; here it is an internal error.\<close>

fun listing_contents ::
  "(string \<rightharpoonup> storage_class) \<Rightarrow> bool \<Rightarrow> listing_entry list \<Rightarrow> (listed_object list \<times> string list) app_result" where
  "listing_contents classes url_encode [] = Inr ([], [])"
| "listing_contents classes url_encode (ObjectEntry r # es) =
     bindR (ok_or (Internal ''storage class of a listed object'') (classes (lo_id r))) (\<lambda>c.
     bindR (listing_contents classes url_encode es) (\<lambda>(contents, prefixes).
       Inr (\<lparr>lob_key = project_listing_field (lo_key r) url_encode, lob_size = lo_size r,
             lob_etag = lo_etag r, lob_last_modified = lo_created_at r,
             lob_storage_class = class_as_db_str c\<rparr> # contents, prefixes)))"
| "listing_contents classes url_encode (CommonPrefix p k # es) =
     bindR (listing_contents classes url_encode es) (\<lambda>(contents, prefixes).
       Inr (contents, project_listing_field p url_encode # prefixes))"

definition listing_dtos ::
  "(string \<Rightarrow> local_residency_verification_receipt option) \<Rightarrow> (string \<Rightarrow> 'cid option) \<Rightarrow>
   (version_residency_model list \<Rightarrow> version_residency_model list) \<Rightarrow> listing_entry list \<Rightarrow> bool \<Rightarrow> db \<Rightarrow>
   (listed_object list \<times> string list) app_result" where
  "listing_dtos receipt_from_str cid_parse hash_order es url_encode d =
     bindR (classes_in_snapshot receipt_from_str cid_parse hash_order (List.map_filter entry_identity es) d)
       (\<lambda>classes. listing_contents classes url_encode es)"

definition listing_page_in_snapshot ::
  "(string \<Rightarrow> string \<Rightarrow> bool) \<Rightarrow> (string \<Rightarrow> local_residency_verification_receipt option) \<Rightarrow>
   (string \<Rightarrow> 'cid option) \<Rightarrow> (version_residency_model list \<Rightarrow> version_residency_model list) \<Rightarrow>
   listing_request \<Rightarrow> bool \<Rightarrow> db \<Rightarrow> (listing_page \<times> listed_object list \<times> string list) app_result option" where
  "listing_page_in_snapshot like receipt_from_str cid_parse hash_order req url_encode d =
     map_option (\<lambda>res. bindR res (\<lambda>page.
        bindR (listing_dtos receipt_from_str cid_parse hash_order (lp_entries page) url_encode d)
          (\<lambda>(contents, prefixes). Inr (page, contents, prefixes))))
       (build_listing_page like req d)"

record list_objects_input =
  li_bucket :: string
  li_prefix :: "string option"
  li_delimiter :: "string option"
  li_marker :: "string option"
  li_encoding_type :: "string option"
  li_max_keys :: "int option"

record list_objects_output =
  lout_name :: string
  lout_prefix :: string
  lout_marker :: "string option"
  lout_max_keys :: nat
  lout_is_truncated :: bool
  lout_contents :: "listed_object list"
  lout_common_prefixes :: "string list option"
  lout_delimiter :: "string option"
  lout_next_marker :: "string option"
  lout_encoding_type :: "string option"

definition some_unless_empty :: "'a list \<Rightarrow> 'a list option" where
  "some_unless_empty xs = (if xs = [] then None else Some xs)"

definition unwrap_or_default :: "string option \<Rightarrow> string" where
  "unwrap_or_default v = (case v of None \<Rightarrow> [] | Some s \<Rightarrow> s)"

definition list_objects ::
  "(string \<Rightarrow> string \<Rightarrow> bool) \<Rightarrow> (string \<Rightarrow> local_residency_verification_receipt option) \<Rightarrow>
   (string \<Rightarrow> 'cid option) \<Rightarrow> (version_residency_model list \<Rightarrow> version_residency_model list) \<Rightarrow>
   list_objects_input \<Rightarrow> db \<Rightarrow> list_objects_output app_result option" where
  "list_objects like receipt_from_str cid_parse hash_order inp d =
     (let url_encode = url_encoding_requested (li_encoding_type inp);
          max_keys = normalized_max_keys (li_max_keys inp);
          req = \<lparr>lr_bucket = li_bucket inp, lr_prefix = unwrap_or_default (li_prefix inp),
                 lr_delimiter = li_delimiter inp, lr_cursor = li_marker inp, lr_max_keys = max_keys\<rparr>
      in map_option (\<lambda>res. bindR res (\<lambda>(page, contents, common_prefixes).
           let next_marker = (if lp_is_truncated page then lp_next_cursor page else None) in
           Inr \<lparr>lout_name = li_bucket inp,
                lout_prefix = project_listing_field (unwrap_or_default (li_prefix inp)) url_encode,
                lout_marker = project_optional_listing_field (li_marker inp) url_encode,
                lout_max_keys = max_keys, lout_is_truncated = lp_is_truncated page,
                lout_contents = contents, lout_common_prefixes = some_unless_empty common_prefixes,
                lout_delimiter = project_optional_listing_field (li_delimiter inp) url_encode,
                lout_next_marker = project_optional_listing_field next_marker url_encode,
                lout_encoding_type = li_encoding_type inp\<rparr>))
         (listing_page_in_snapshot like receipt_from_str cid_parse hash_order req url_encode d))"

record list_objects_v2_input = list_objects_input +
  l2i_start_after :: "string option"
  l2i_continuation_token :: "string option"

record list_objects_v2_output =
  l2o_contents :: "listed_object list"
  l2o_common_prefixes :: "string list option"
  l2o_is_truncated :: bool
  l2o_continuation_token :: "string option"
  l2o_next_continuation_token :: "string option"
  l2o_key_count :: nat
  l2o_max_keys :: nat
  l2o_name :: string
  l2o_prefix :: string
  l2o_delimiter :: "string option"
  l2o_encoding_type :: "string option"
  l2o_start_after :: "string option"

definition list_objects_v2 ::
  "(string \<Rightarrow> string \<Rightarrow> bool) \<Rightarrow> (string \<Rightarrow> local_residency_verification_receipt option) \<Rightarrow>
   (string \<Rightarrow> 'cid option) \<Rightarrow> (version_residency_model list \<Rightarrow> version_residency_model list) \<Rightarrow>
   list_objects_v2_input \<Rightarrow> db \<Rightarrow> list_objects_v2_output app_result option" where
  "list_objects_v2 like receipt_from_str cid_parse hash_order inp d =
     (let url_encode = url_encoding_requested (li_encoding_type inp);
          max_keys = normalized_max_keys (li_max_keys inp);
          cursor = (case non_empty (l2i_continuation_token inp) of
                      Some t \<Rightarrow> Some t | None \<Rightarrow> non_empty (l2i_start_after inp));
          req = \<lparr>lr_bucket = li_bucket inp, lr_prefix = unwrap_or_default (li_prefix inp),
                 lr_delimiter = li_delimiter inp, lr_cursor = cursor, lr_max_keys = max_keys\<rparr>
      in map_option (\<lambda>res. bindR res (\<lambda>(page, contents, common_prefixes).
           Inr \<lparr>l2o_contents = contents, l2o_common_prefixes = some_unless_empty common_prefixes,
                l2o_is_truncated = lp_is_truncated page,
                l2o_continuation_token = l2i_continuation_token inp,
                l2o_next_continuation_token = lp_next_cursor page,
                l2o_key_count = length (lp_entries page), l2o_max_keys = max_keys,
                l2o_name = li_bucket inp,
                l2o_prefix = project_listing_field (unwrap_or_default (li_prefix inp)) url_encode,
                l2o_delimiter = project_optional_listing_field (li_delimiter inp) url_encode,
                l2o_encoding_type = li_encoding_type inp,
                l2o_start_after = project_optional_listing_field (l2i_start_after inp) url_encode\<rparr>))
         (listing_page_in_snapshot like receipt_from_str cid_parse hash_order req url_encode d))"

section \<open>One page\<close>

text \<open>
  The rows of a listing in key order, those after a cursor, and the entry a group of rows becomes:
  a common prefix remembers the last key folded into it.
\<close>

definition visible_rows :: "(string \<Rightarrow> string \<Rightarrow> bool) \<Rightarrow> string \<Rightarrow> string option \<Rightarrow> db \<Rightarrow> listing_object list" where
  "visible_rows like b pfx d =
     map listing_object_of (sort_key obj_key (filter (\<lambda>ob. obj_bucket ob = b \<and> obj_is_latest ob \<and>
       (case pfx of Some p \<Rightarrow> like p (obj_key ob) | None \<Rightarrow> True)) (objects d)))"

definition rows_after :: "string option \<Rightarrow> listing_object list \<Rightarrow> listing_object list" where
  "rows_after cursor rows = filter (\<lambda>r. case cursor of Some t \<Rightarrow> t \<noteq> [] \<longrightarrow> lo_key r > t | None \<Rightarrow> True) rows"

definition row_prefix :: "string \<Rightarrow> string option \<Rightarrow> listing_object \<Rightarrow> string option" where
  "row_prefix pfx dl r = common_prefix_for_key (lo_key r) pfx dl"

fun entry_of :: "listing_object listing_group \<Rightarrow> listing_entry" where
  "entry_of (One r) = ObjectEntry r"
| "entry_of (Folded p rows) = CommonPrefix p (lo_key (last rows))"

lemma listing_object_of_key [simp]: "lo_key (listing_object_of ob) = obj_key ob"
  by (simp add: listing_object_of_def)

lemma object_list_visible:
  "object_list like b pfx token n d = take n (rows_after token (visible_rows like b pfx d))"
  by (cases token)
    (simp_all add: object_list_def rows_after_def visible_rows_def filter_map comp_def filter_sort
      conj_commute conj_left_commute)

lemma visible_rows_sorted:
  assumes "objects_ok d"
  shows "sorted_wrt (<) (map lo_key (visible_rows like b pfx d))"
proof -
  let ?xs = "filter (\<lambda>ob. obj_bucket ob = b \<and> obj_is_latest ob \<and>
       (case pfx of Some p \<Rightarrow> like p (obj_key ob) | None \<Rightarrow> True)) (objects d)"
  have "inj_on obj_key (set ?xs)" using assms by (auto simp: objects_ok_def inj_on_def)
  moreover have "distinct ?xs" using objects_ok_distinct [OF assms] by simp
  ultimately have "distinct (map obj_key (sort_key obj_key ?xs))" by (simp add: distinct_map)
  moreover have "map lo_key (visible_rows like b pfx d) = map obj_key (sort_key obj_key ?xs)"
    by (simp add: visible_rows_def)
  ultimately show ?thesis by (simp add: strict_sorted_iff)
qed

lemma rows_after_split:
  assumes "sorted_wrt (<) (map lo_key (xs @ ys))" "xs \<noteq> []" "lo_key (last xs) \<noteq> []"
  shows "rows_after (Some (lo_key (last xs))) (xs @ ys) = ys"
proof -
  obtain us x where xs: "xs = us @ [x]" using assms(2) by (metis append_butlast_last_id)
  have "rows_after (Some (lo_key x)) us = []" "rows_after (Some (lo_key x)) ys = ys"
    using assms by (auto simp: xs rows_after_def sorted_wrt_append filter_empty_conv filter_id_conv)
  moreover have "rows_after (Some (lo_key x)) (us @ [x] @ ys) =
      rows_after (Some (lo_key x)) us @ rows_after (Some (lo_key x)) [x] @ rows_after (Some (lo_key x)) ys"
    by (simp add: rows_after_def)
  moreover have "rows_after (Some (lo_key x)) [x] = []" using assms xs by (simp add: rows_after_def)
  ultimately show ?thesis by (simp add: xs)
qed

lemma rows_after_sorted:
  "sorted_wrt (<) (map lo_key rows) \<Longrightarrow> sorted_wrt (<) (map lo_key (rows_after c rows))"
  by (simp add: rows_after_def sorted_wrt_map sorted_wrt_filter)

lemma rows_after_append:
  assumes "sorted_wrt (<) (map lo_key rows)" "rows_after c rows = xs @ ys" "xs \<noteq> []" "lo_key (last xs) \<noteq> []"
  shows "rows_after (Some (lo_key (last xs))) rows = ys"
proof -
  have sub: "rows_after c (rows_after (Some t) rows) = rows_after (Some t) (rows_after c rows)" for t
    by (simp add: rows_after_def conj_commute)
  have "last xs \<in> set (rows_after c rows)" using assms by simp
  then have "rows_after c (rows_after (Some (lo_key (last xs))) rows) = rows_after (Some (lo_key (last xs))) rows"
    using assms(4) by (cases c) (auto simp: rows_after_def intro!: filter_cong dest: less_trans)
  then show ?thesis
    using sub rows_after_split [of xs ys] rows_after_sorted [OF assms(1), of c] assms by simp
qed

lemma sorted_row_prefix:
  "sorted_wrt (<) (map lo_key rows) \<Longrightarrow> contiguous (row_prefix pfx dl) rows"
  unfolding row_prefix_def [abs_def]
  by (rule sorted_contiguous) (simp add: strict_sorted_imp_sorted)

text \<open>What the builder holds after it consumed the rows \<open>xs\<close>.\<close>

definition builder_ok ::
  "string \<Rightarrow> string option \<Rightarrow> nat \<Rightarrow> listing_object list \<Rightarrow> listing_page_builder \<Rightarrow> bool" where
  "builder_ok pfx dl mk xs b \<longleftrightarrow>
     (let gs = groups (row_prefix pfx dl) xs in
      pb_prefix b = pfx \<and> pb_delimiter b = dl \<and> pb_max_keys b = mk \<and> pb_entries b = map entry_of gs \<and>
      (\<forall>p i. pb_common_prefix_positions b p = Some i \<longleftrightarrow> i < length gs \<and> group_prefix (gs ! i) = Some p) \<and>
      pb_last_consumed_key b = (if xs = [] then None else Some (lo_key (last xs))) \<and> \<not> pb_is_truncated b)"

lemma builder_okD:
  assumes "builder_ok pfx dl mk xs b"
  shows "pb_prefix b = pfx" "pb_delimiter b = dl" "pb_max_keys b = mk"
    "pb_entries b = map entry_of (groups (row_prefix pfx dl) xs)"
    "pb_common_prefix_positions b p = Some i \<longleftrightarrow>
       i < length (groups (row_prefix pfx dl) xs) \<and> group_prefix (groups (row_prefix pfx dl) xs ! i) = Some p"
    "pb_last_consumed_key b = (if xs = [] then None else Some (lo_key (last xs)))" "\<not> pb_is_truncated b"
  using assms by (simp_all add: builder_ok_def Let_def)

lemma push_row_join:
  assumes ok: "builder_ok pfx dl mk xs b" and j: "joins (row_prefix pfx dl) xs r"
  shows "\<exists>b'. push_row b r = (b', Continue) \<and> builder_ok pfx dl mk (xs @ [r]) b'"
proof -
  from groups_snoc_join [OF j] obtain hs p ys where g: "groups (row_prefix pfx dl) xs = hs @ [Folded p ys]"
    "row_prefix pfx dl r = Some p" "groups (row_prefix pfx dl) (xs @ [r]) = hs @ [Folded p (ys @ [r])]" by metis
  have "pb_common_prefix_positions b p = Some (length hs)" using builder_okD(5) [OF ok] by (simp add: g(1))
  with builder_okD(1,2) [OF ok] g(2) have "push_row b r =
      (b\<lparr>pb_entries := (pb_entries b)[length hs := set_continuation_key (lo_key r) (pb_entries b ! length hs)],
         pb_last_consumed_key := Some (lo_key r)\<rparr>, Continue)"
    by (simp add: push_row_def row_prefix_def Let_def)
  moreover have "i < length (hs @ [Folded p (ys @ [r])]) \<and> group_prefix ((hs @ [Folded p (ys @ [r])]) ! i) = Some q \<longleftrightarrow>
      i < length (hs @ [Folded p ys]) \<and> group_prefix ((hs @ [Folded p ys]) ! i) = Some q" for i q
    by (auto simp: nth_append)
  moreover have "(map entry_of hs @ [e])[length hs := f ((map entry_of hs @ [e]) ! length hs)] =
      map entry_of hs @ [f e]" for e f
    using list_update_length [of "map entry_of hs"] nth_append_length [of "map entry_of hs"] by simp
  ultimately show ?thesis using ok by (simp add: builder_ok_def g(1,3) Let_def)
qed

lemma push_row_new:
  assumes ok: "builder_ok pfx dl mk xs b" and j: "\<not> joins (row_prefix pfx dl) xs r"
    and cont: "contiguous (row_prefix pfx dl) (xs @ [r])"
  shows "if length (groups (row_prefix pfx dl) xs) < mk
         then \<exists>b'. push_row b r = (b', Continue) \<and> builder_ok pfx dl mk (xs @ [r]) b'
         else push_row b r = (b\<lparr>pb_is_truncated := True\<rparr>, PageComplete)"
proof -
  let ?gs = "groups (row_prefix pfx dl) xs"
  have pos: "pb_common_prefix_positions b p = Some i \<longleftrightarrow> i < length ?gs \<and> group_prefix (?gs ! i) = Some p" for p i
    by (rule builder_okD(5) [OF ok])
  have none: "pb_common_prefix_positions b p = None" if p: "row_prefix pfx dl r = Some p" for p
  proof (rule ccontr)
    assume "pb_common_prefix_positions b p \<noteq> None"
    then obtain i where "i < length ?gs" "group_prefix (?gs ! i) = Some p" using pos by auto
    with groups_prefix_member [of "?gs ! i"] obtain x where "x \<in> set xs" "row_prefix pfx dl x = Some p"
      by (meson nth_mem)
    with contiguous_new [OF cont j] p show False by fastforce
  qed
  have idx: "i < Suc (length ?gs) \<and> group_prefix ((?gs @ [g]) ! i) = Some q \<longleftrightarrow>
      (if i = length ?gs then group_prefix g = Some q else pb_common_prefix_positions b q = Some i)" for g i q
    using pos [of q i] by (auto simp: nth_append less_Suc_eq)
  show ?thesis
  proof (cases "row_prefix pfx dl r")
    case None
    have push: "push_row b r = (if length (pb_entries b) \<ge> pb_max_keys b then (b\<lparr>pb_is_truncated := True\<rparr>, PageComplete)
        else (b\<lparr>pb_entries := pb_entries b @ [ObjectEntry r], pb_last_consumed_key := Some (lo_key r)\<rparr>, Continue))"
      using None builder_okD(1,2) [OF ok] by (simp add: push_row_def row_prefix_def Let_def)
    have pos': "pb_common_prefix_positions b q \<noteq> Some (length ?gs)" for q using pos by simp
    show ?thesis unfolding push using ok pos'
      by (auto simp: builder_ok_def Let_def groups_snoc_new [OF j] None idx)
  next
    case (Some p)
    have push: "push_row b r = (if length (pb_entries b) \<ge> pb_max_keys b then (b\<lparr>pb_is_truncated := True\<rparr>, PageComplete)
        else (b\<lparr>pb_entries := pb_entries b @ [CommonPrefix p (lo_key r)],
                pb_common_prefix_positions := (pb_common_prefix_positions b)(p \<mapsto> length (pb_entries b)),
                pb_last_consumed_key := Some (lo_key r)\<rparr>, Continue))"
      using Some builder_okD(1,2) [OF ok] none [OF Some] by (simp add: push_row_def row_prefix_def Let_def)
    have pos': "pb_common_prefix_positions b q \<noteq> Some (length ?gs)" for q using pos by simp
    show ?thesis unfolding push using ok pos' none [OF Some]
      by (auto simp: builder_ok_def Let_def groups_snoc_new [OF j] Some idx)
  qed
qed

lemma push_rows_ok:
  assumes "builder_ok pfx dl mk xs b" "contiguous (row_prefix pfx dl) (xs @ ys)"
    and "length (groups (row_prefix pfx dl) xs) \<le> mk"
  shows "(\<exists>b'. push_rows b cur ys = (b', (if ys = [] then cur else Some (lo_key (last ys))), False) \<and>
            builder_ok pfx dl mk (xs @ ys) b' \<and> length (groups (row_prefix pfx dl) (xs @ ys)) \<le> mk) \<or>
         (\<exists>zs r us b' cur'. ys = zs @ r # us \<and> push_rows b cur ys = (b'\<lparr>pb_is_truncated := True\<rparr>, cur', True) \<and>
            builder_ok pfx dl mk (xs @ zs) b' \<and> length (groups (row_prefix pfx dl) (xs @ zs)) = mk \<and>
            \<not> joins (row_prefix pfx dl) (xs @ zs) r)"
  using assms
proof (induction ys arbitrary: xs b cur)
  case Nil
  then show ?case by simp
next
  case (Cons r ys)
  let ?cp = "row_prefix pfx dl"
  have c: "contiguous ?cp (xs @ [r])" using contiguous_append(1) [of ?cp "xs @ [r]" ys] Cons.prems by simp
  show ?case
  proof (cases "\<not> joins ?cp xs r \<and> length (groups ?cp xs) = mk")
    case True
    with push_row_new [OF Cons.prems(1) _ c] have "push_row b r = (b\<lparr>pb_is_truncated := True\<rparr>, PageComplete)" by simp
    then have "r # ys = [] @ r # ys \<and> push_rows b cur (r # ys) = (b\<lparr>pb_is_truncated := True\<rparr>, cur, True) \<and>
       builder_ok pfx dl mk (xs @ []) b \<and> length (groups ?cp (xs @ [])) = mk \<and> \<not> joins ?cp (xs @ []) r"
      using True Cons.prems by simp
    then show ?thesis by blast
  next
    case False
    have "\<exists>b'. push_row b r = (b', Continue) \<and> builder_ok pfx dl mk (xs @ [r]) b'"
      using False push_row_join [OF Cons.prems(1)] push_row_new [OF Cons.prems(1) _ c] Cons.prems(3)
      by (cases "joins ?cp xs r") (auto simp: le_less)
    then obtain b' where b': "push_row b r = (b', Continue)" "builder_ok pfx dl mk (xs @ [r]) b'" by blast
    have len: "length (groups ?cp (xs @ [r])) \<le> mk"
    proof (cases "joins ?cp xs r")
      case True
      from groups_snoc_join [OF True] obtain hs p zs where "groups ?cp xs = hs @ [Folded p zs]"
        "groups ?cp (xs @ [r]) = hs @ [Folded p (zs @ [r])]" by metis
      with Cons.prems(3) show ?thesis by simp
    qed (use False Cons.prems(3) in \<open>simp add: groups_snoc_new\<close>)
    have c': "contiguous ?cp ((xs @ [r]) @ ys)" using Cons.prems(2) by simp
    have push: "push_rows b cur (r # ys) = push_rows b' (Some (lo_key r)) ys" using b'(1) by simp
    from Cons.IH [OF b'(2) c' len, of "Some (lo_key r)"] show ?thesis
    proof (elim disjE exE conjE, goal_cases)
      case (1 b'')
      then have "push_rows b cur (r # ys) =
          (b'', (if r # ys = [] then cur else Some (lo_key (last (r # ys)))), False) \<and>
          builder_ok pfx dl mk (xs @ r # ys) b'' \<and> length (groups ?cp (xs @ r # ys)) \<le> mk"
        unfolding push by (cases "ys = []") simp_all
      then show ?thesis by blast
    next
      case (2 zs r' us b'' cur')
      then have "r # ys = (r # zs) @ r' # us \<and> push_rows b cur (r # ys) = (b''\<lparr>pb_is_truncated := True\<rparr>, cur', True) \<and>
         builder_ok pfx dl mk (xs @ r # zs) b'' \<and> length (groups ?cp (xs @ r # zs)) = mk \<and>
         \<not> joins ?cp (xs @ r # zs) r'" unfolding push by simp
      then show ?thesis by blast
    qed
  qed
qed

text \<open>
  The paging loop over a source that returns at most \<open>n\<close> of the rows after a cursor: it ends, and it
  consumed either all rows or as many as a full page takes.
\<close>

definition page_of ::
  "string \<Rightarrow> string option \<Rightarrow> nat \<Rightarrow> listing_object list \<Rightarrow> listing_page_builder \<Rightarrow> bool" where
  "page_of pfx dl mk rows b \<longleftrightarrow>
     builder_ok pfx dl mk rows b \<and> length (groups (row_prefix pfx dl) rows) \<le> mk \<or>
     (\<exists>zs r us b'. rows = zs @ r # us \<and> b = b'\<lparr>pb_is_truncated := True\<rparr> \<and> builder_ok pfx dl mk zs b' \<and>
        length (groups (row_prefix pfx dl) zs) = mk \<and> \<not> joins (row_prefix pfx dl) zs r)"

lemma last_key_nonempty:
  "sorted_wrt (<) (map lo_key rows) \<Longrightarrow> 1 < length rows \<Longrightarrow> lo_key (last rows) \<noteq> []"
proof -
  assume s: "sorted_wrt (<) (map lo_key rows)" and l: "1 < length rows"
  then obtain us x where r: "rows = us @ [x]" "us \<noteq> []" by (cases rows rule: rev_cases) auto
  then obtain y where "y \<in> set us" by (cases us) auto
  with s r have "lo_key y < lo_key x" by (auto simp: sorted_wrt_append)
  with r show ?thesis by auto
qed

lemma paging_ok:
  assumes src: "\<And>c k. query c k = take k (rows_after c all)" and srt: "sorted_wrt (<) (map lo_key all)"
    and n: "1 < n" and rows: "rows_after c0 all = xs @ ys" and cur: "rows_after cur all = ys"
    and ok: "builder_ok pfx dl mk xs b" "length (groups (row_prefix pfx dl) xs) \<le> mk"
  shows "\<exists>b'. paging query n b cur = Some b' \<and> page_of pfx dl mk (xs @ ys) b'"
  using rows cur ok
proof (induction "length ys" arbitrary: xs ys b cur rule: less_induct)
  case less
  let ?cp = "row_prefix pfx dl"
  let ?batch = "take n ys"
  have q: "query cur n = ?batch" using src less.prems(2) by simp
  have cont: "contiguous ?cp (xs @ ys)"
    using sorted_row_prefix [OF rows_after_sorted [OF srt, of c0]] less.prems(1) by simp
  then have c: "contiguous ?cp (xs @ ?batch)"
    using contiguous_append(1) [of ?cp "xs @ ?batch" "drop n ys"] by simp
  from push_rows_ok [OF less.prems(3) c less.prems(4), of cur] show ?case
  proof (elim disjE exE conjE, goal_cases)
    case (1 b')
    show ?case
    proof (cases "length ys < n")
      case True
      with 1 q have "paging query n b cur = Some b'" by (subst paging.simps) simp
      moreover have "?batch = ys" using True by simp
      ultimately show ?thesis using 1 by (simp add: page_of_def)
    next
      case False
      let ?cur = "Some (lo_key (last ?batch))"
      have full: "length ?batch = n" using False by simp
      then have ne: "?batch \<noteq> []" "xs @ ?batch \<noteq> []" using n by auto
      have step: "paging query n b cur = paging query n b' ?cur"
        using 1 q False ne(1) by (subst paging.simps) simp
      have split: "rows_after c0 all = (xs @ ?batch) @ drop n ys" using less.prems(1) by simp
      have "sorted_wrt (<) (map lo_key ?batch)"
        using rows_after_sorted [OF srt, of cur] less.prems(2) by (simp add: sorted_wrt_take flip: take_map)
      then have "lo_key (last ?batch) \<noteq> []" using last_key_nonempty [of ?batch] full n by simp
      then have after: "rows_after ?cur all = drop n ys"
        using rows_after_append [OF srt split] ne by simp
      have "length (drop n ys) < length ys" using n ne(1) by auto
      from less.hyps [OF this split after, of b'] 1 obtain b'' where
        "paging query n b' ?cur = Some b''" "page_of pfx dl mk ((xs @ ?batch) @ drop n ys) b''" by auto
      then show ?thesis by (simp add: step)
    qed
  next
    case (2 zs r us b' cur')
    then have "paging query n b cur = Some (b'\<lparr>pb_is_truncated := True\<rparr>)" using q by (subst paging.simps) simp
    moreover have "xs @ ys = (xs @ zs) @ r # (us @ drop n ys)"
      using append_take_drop_id [of n ys] 2(1) by (simp del: append_take_drop_id)
    ultimately show ?case using 2 unfolding page_of_def by blast
  qed
qed

lemma new_builder_ok: "builder_ok pfx dl mk [] (new_builder pfx dl mk)"
  by (simp add: builder_ok_def new_builder_def)

lemma page_of_finish:
  assumes "page_of pfx dl mk rows b" "0 < mk"
  shows "lp_entries (finish_page b) = map entry_of (take mk (groups (row_prefix pfx dl) rows))"
    "lp_is_truncated (finish_page b) \<longleftrightarrow> mk < length (groups (row_prefix pfx dl) rows)"
    "if lp_is_truncated (finish_page b)
     then \<exists>zs us. rows = zs @ us \<and> zs \<noteq> [] \<and> lp_next_cursor (finish_page b) = Some (lo_key (last zs)) \<and>
            groups (row_prefix pfx dl) us = drop mk (groups (row_prefix pfx dl) rows)
     else lp_next_cursor (finish_page b) = None"
proof -
  let ?cp = "row_prefix pfx dl"
  have "lp_entries (finish_page b) = map entry_of (take mk (groups ?cp rows)) \<and>
    (lp_is_truncated (finish_page b) \<longleftrightarrow> mk < length (groups ?cp rows)) \<and>
    (if lp_is_truncated (finish_page b)
     then \<exists>zs us. rows = zs @ us \<and> zs \<noteq> [] \<and> lp_next_cursor (finish_page b) = Some (lo_key (last zs)) \<and>
            groups ?cp us = drop mk (groups ?cp rows)
     else lp_next_cursor (finish_page b) = None)"
    using assms(1) unfolding page_of_def
  proof (elim disjE exE conjE, goal_cases)
    case 1
    then show ?case using builder_okD(4,7) [OF 1(1)] by (simp add: finish_page_def)
  next
    case (2 zs r us b')
    then have gs: "groups ?cp rows = groups ?cp zs @ groups ?cp (r # us)" by (simp add: groups_append_new)
    have zs: "zs \<noteq> []" using 2(4) assms(2) by auto
    have "groups ?cp (r # us) \<noteq> []" by (rule groups_ne) simp
    with 2 gs zs builder_okD(4,6) [OF 2(3)] show ?case by (auto simp: finish_page_def)
  qed
  then show "lp_entries (finish_page b) = map entry_of (take mk (groups ?cp rows))"
    "lp_is_truncated (finish_page b) \<longleftrightarrow> mk < length (groups ?cp rows)"
    "if lp_is_truncated (finish_page b)
     then \<exists>zs us. rows = zs @ us \<and> zs \<noteq> [] \<and> lp_next_cursor (finish_page b) = Some (lo_key (last zs)) \<and>
            groups ?cp us = drop mk (groups ?cp rows)
     else lp_next_cursor (finish_page b) = None" by blast+
qed

section \<open>Properties of listings\<close>

lemma non_empty_prefix [simp]: "row_prefix pfx (non_empty dl) = row_prefix pfx dl"
  by (auto simp: row_prefix_def fun_eq_iff non_empty_def common_prefix_for_key_def)

lemma non_empty_cursor [simp]: "rows_after (non_empty c) rows = rows_after c rows"
  by (auto simp: non_empty_def rows_after_def)

text \<open>The rows a request is about, and the groups its pages present.\<close>

definition requested_rows :: "(string \<Rightarrow> string \<Rightarrow> bool) \<Rightarrow> listing_request \<Rightarrow> db \<Rightarrow> listing_object list" where
  "requested_rows like req d =
     rows_after (lr_cursor req) (visible_rows like (lr_bucket req) (prefix_filter_for (lr_prefix req)) d)"

definition requested_groups ::
  "(string \<Rightarrow> string \<Rightarrow> bool) \<Rightarrow> listing_request \<Rightarrow> db \<Rightarrow> listing_object listing_group list" where
  "requested_groups like req d =
     groups (row_prefix (lr_prefix req) (lr_delimiter req)) (requested_rows like req d)"

lemma build_listing_page_page_of:
  assumes "objects_ok d" "bucket_exists (lr_bucket req) d" "0 < lr_max_keys req"
  shows "\<exists>b. build_listing_page like req d = Some (Inr (finish_page b)) \<and>
    page_of (lr_prefix req) (non_empty (lr_delimiter req)) (lr_max_keys req) (requested_rows like req d) b"
proof -
  let ?pf = "prefix_filter_for (lr_prefix req)"
  let ?q = "\<lambda>cursor limit. object_list like (lr_bucket req) ?pf cursor limit d"
  let ?all = "visible_rows like (lr_bucket req) ?pf d"
  let ?dl = "non_empty (lr_delimiter req)"
  have "1 < batch_limit_for ?dl (lr_max_keys req)" using assms(3) by (auto simp: batch_limit_for_def)
  from paging_ok [of ?q ?all, OF object_list_visible visible_rows_sorted [OF assms(1)] this, of
      "lr_cursor req" "[]" "requested_rows like req d" "non_empty (lr_cursor req)" "lr_prefix req" ?dl "lr_max_keys req"
      "new_builder (lr_prefix req) ?dl (lr_max_keys req)"]
  obtain b where "paging ?q (batch_limit_for ?dl (lr_max_keys req))
      (new_builder (lr_prefix req) ?dl (lr_max_keys req)) (non_empty (lr_cursor req)) = Some b"
    "page_of (lr_prefix req) ?dl (lr_max_keys req) (requested_rows like req d) b"
    by (auto simp: requested_rows_def new_builder_ok)
  with assms(2) show ?thesis by (auto simp: build_listing_page_def Let_def)
qed

text \<open>C21: Building a listing page of an existing bucket always ends, however many batches it reads,
  and gives the first \<^verbatim>\<open>max-keys\<close> entries of the requested rows folded by common prefix; the page
  is marked truncated exactly when there are more, and only then has a next cursor.\<close>

theorem build_listing_page_spec:
  assumes "objects_ok d" "bucket_exists (lr_bucket req) d" "0 < lr_max_keys req"
  shows "\<exists>page. build_listing_page like req d = Some (Inr page) \<and>
    lp_entries page = map entry_of (take (lr_max_keys req) (requested_groups like req d)) \<and>
    (lp_is_truncated page \<longleftrightarrow> lr_max_keys req < length (requested_groups like req d)) \<and>
    (lp_is_truncated page \<longleftrightarrow> lp_next_cursor page \<noteq> None)"
proof -
  from build_listing_page_page_of [OF assms] obtain b where
    b: "build_listing_page like req d = Some (Inr (finish_page b))"
    and p: "page_of (lr_prefix req) (non_empty (lr_delimiter req)) (lr_max_keys req) (requested_rows like req d) b"
    by blast
  from page_of_finish(3) [OF p assms(3)]
  have "lp_is_truncated (finish_page b) \<longleftrightarrow> lp_next_cursor (finish_page b) \<noteq> None" by (auto split: if_splits)
  with b page_of_finish(1,2) [OF p assms(3)] show ?thesis by (auto simp: requested_groups_def)
qed

text \<open>A client that follows the next cursor until a page is not truncated.\<close>

fun follow_pages ::
  "nat \<Rightarrow> (string option \<Rightarrow> listing_page app_result option) \<Rightarrow> string option \<Rightarrow> listing_entry list option" where
  "follow_pages 0 build cursor = None"
| "follow_pages (Suc n) build cursor =
     (case build cursor of
        Some (Inr page) \<Rightarrow>
          if lp_is_truncated page
          then map_option (\<lambda>es. lp_entries page @ es) (follow_pages n build (lp_next_cursor page))
          else Some (lp_entries page)
      | _ \<Rightarrow> None)"

lemma follow_pages_groups:
  assumes "objects_ok d" "bucket_exists (lr_bucket req) d" "0 < lr_max_keys req"
    and keys: "\<And>ob. ob \<in> set (objects d) \<Longrightarrow> obj_key ob \<noteq> []"
    and "length (requested_groups like (req\<lparr>lr_cursor := c\<rparr>) d) \<le> n"
  shows "follow_pages (Suc n) (\<lambda>c. build_listing_page like (req\<lparr>lr_cursor := c\<rparr>) d) c =
    Some (map entry_of (requested_groups like (req\<lparr>lr_cursor := c\<rparr>) d))"
  using assms(5)
proof (induction n arbitrary: c rule: less_induct)
  case (less n)
  let ?req = "req\<lparr>lr_cursor := c\<rparr>"
  let ?gs = "requested_groups like ?req d"
  let ?mk = "lr_max_keys req"
  from build_listing_page_page_of [of d ?req like] assms obtain b where
    b: "build_listing_page like ?req d = Some (Inr (finish_page b))"
    and p: "page_of (lr_prefix req) (non_empty (lr_delimiter req)) ?mk (requested_rows like ?req d) b"
    by auto
  note page = page_of_finish [OF p assms(3), unfolded non_empty_prefix]
  have gs: "?gs = groups (row_prefix (lr_prefix req) (lr_delimiter req)) (requested_rows like ?req d)"
    by (simp add: requested_groups_def)
  show ?case
  proof (cases "lp_is_truncated (finish_page b)")
    case False
    with page(1,2) b show ?thesis by (simp add: gs)
  next
    case True
    with page(3) obtain zs us where z: "requested_rows like ?req d = zs @ us" "zs \<noteq> []"
      "lp_next_cursor (finish_page b) = Some (lo_key (last zs))"
      "groups (row_prefix (lr_prefix req) (lr_delimiter req)) us = drop ?mk ?gs" by (auto simp: gs)
    let ?next = "req\<lparr>lr_cursor := Some (lo_key (last zs))\<rparr>"
    have "last zs \<in> set (requested_rows like ?req d)" using z by simp
    then have "lo_key (last zs) \<noteq> []"
      using keys by (auto simp: requested_rows_def rows_after_def visible_rows_def)
    then have "requested_rows like ?next d = us"
      using rows_after_append [OF visible_rows_sorted [OF assms(1)] _ z(2)] z(1) by (simp add: requested_rows_def)
    then have gs': "requested_groups like ?next d = drop ?mk ?gs" using z(4) by (simp add: requested_groups_def)
    have more: "?mk < length ?gs" using True page(2) by (simp add: gs)
    then have "n \<noteq> 0" using less.prems by auto
    then obtain m where m: "n = Suc m" by (cases n) auto
    have "length (requested_groups like ?next d) \<le> m" using gs' more less.prems assms(3) m by auto
    from less.IH [OF _ this] m have "follow_pages n (\<lambda>c. build_listing_page like (req\<lparr>lr_cursor := c\<rparr>) d)
        (Some (lo_key (last zs))) = Some (map entry_of (drop ?mk ?gs))" by (simp add: gs')
    with b True z(3) page(1) show ?thesis
      by (simp add: gs flip: map_append)
  qed
qed

text \<open>C20: A client that follows the next cursor of a listing reaches the end, and the pages together
  present every requested row exactly once and in key order: a row without a common prefix as an
  object entry, the rows of each common prefix as one entry, and no common prefix twice.\<close>

theorem listing_pages_complete:
  assumes "objects_ok d" "bucket_exists (lr_bucket req) d" "0 < lr_max_keys req"
    and "\<And>ob. ob \<in> set (objects d) \<Longrightarrow> obj_key ob \<noteq> []"
  shows "\<exists>n gs. follow_pages n (\<lambda>c. build_listing_page like (req\<lparr>lr_cursor := c\<rparr>) d) (lr_cursor req) =
      Some (map entry_of gs) \<and>
    concat (map group_rows gs) = requested_rows like req d \<and>
    list_all (group_ok (row_prefix (lr_prefix req) (lr_delimiter req))) gs \<and>
    distinct (List.map_filter group_prefix gs)"
proof (intro exI conjI)
  let ?gs = "requested_groups like req d"
  show "follow_pages (Suc (length ?gs)) (\<lambda>c. build_listing_page like (req\<lparr>lr_cursor := c\<rparr>) d) (lr_cursor req) =
      Some (map entry_of ?gs)"
    using follow_pages_groups [OF assms, where c = "lr_cursor req" and n = "length ?gs"] by simp
  show "concat (map group_rows ?gs) = requested_rows like req d"
    by (simp add: requested_groups_def group_rows_groups)
  show "list_all (group_ok (row_prefix (lr_prefix req) (lr_delimiter req))) ?gs"
    by (simp add: requested_groups_def list_all_iff groups_ok)
  show "distinct (List.map_filter group_prefix ?gs)"
    unfolding requested_groups_def requested_rows_def
    by (intro groups_distinct_prefixes sorted_row_prefix rows_after_sorted visible_rows_sorted assms)
qed

section \<open>A small listing\<close>

definition listing_db :: db where
  "listing_db = sample_db\<lparr>objects := map (\<lambda>(i, k). sample_object\<lparr>obj_id := i, obj_key := k\<rparr>)
     [(''o3'', ''b''), (''o1'', ''a/2''), (''o2'', ''a/1'')]\<rparr>"

definition listing_req :: listing_request where
  "listing_req = \<lparr>lr_bucket = ''b'', lr_prefix = [], lr_delimiter = Some ''/'', lr_cursor = None, lr_max_keys = 1\<rparr>"

lemma listing_db_ok: "objects_ok listing_db" "bucket_exists ''b'' listing_db"
  "ob \<in> set (objects listing_db) \<Longrightarrow> obj_key ob \<noteq> []"
  by (auto simp: listing_db_def objects_ok_def bucket_exists_def one_row_def)

lemma listing_req_groups:
  "map entry_of (requested_groups (\<lambda>p k. starts_with k p) listing_req listing_db) =
     [CommonPrefix ''a/'' ''a/2'', ObjectEntry (listing_object_of (sample_object\<lparr>obj_id := ''o3'', obj_key := ''b''\<rparr>))]"
  by code_simp

theorem build_listing_page_spec_witness:
  "\<exists>page. build_listing_page (\<lambda>p k. starts_with k p) listing_req listing_db = Some (Inr page) \<and>
     lp_entries page = [CommonPrefix ''a/'' ''a/2''] \<and> lp_is_truncated page"
proof -
  have len: "length (requested_groups (\<lambda>p k. starts_with k p) listing_req listing_db) = 2"
    using arg_cong [OF listing_req_groups, of length] by simp
  have "bucket_exists (lr_bucket listing_req) listing_db" "0 < lr_max_keys listing_req"
    using listing_db_ok by (simp_all add: listing_req_def)
  from build_listing_page_spec [OF listing_db_ok(1) this, of "\<lambda>p k. starts_with k p"] len show ?thesis
    by (auto simp: listing_req_groups simp flip: take_map) (simp_all add: listing_req_def)
qed

theorem listing_pages_complete_witness:
  "\<exists>n gs. follow_pages n (\<lambda>c. build_listing_page (\<lambda>p k. starts_with k p) (listing_req\<lparr>lr_cursor := c\<rparr>) listing_db) None =
     Some (map entry_of gs) \<and>
     concat (map group_rows gs) = requested_rows (\<lambda>p k. starts_with k p) listing_req listing_db"
proof -
  have "bucket_exists (lr_bucket listing_req) listing_db" "0 < lr_max_keys listing_req" "lr_cursor listing_req = None"
    using listing_db_ok by (simp_all add: listing_req_def)
  with listing_pages_complete [of listing_db listing_req "\<lambda>p k. starts_with k p"] listing_db_ok show ?thesis
    by metis
qed

end
