(* ===== verification/Version_Listing.thy ===== *)
theory Version_Listing
  imports Object_Listing Version_Removal
begin

text \<open>
  Listing object versions: cursors and the paged scan of src/src/store/object_version.rs, and the
  page builder and handlers of src/src/s3/ops/versioning.rs. A page cursor names the first row that
  is not on the page, so a scan that starts at a cursor includes the cursor's row; the scans inside
  one page restart at the last row they saw and skip it. As in \<open>Object_Listing\<close>, \<open>like\<close> is the
  prefix condition the database evaluates.
\<close>

section \<open>Cursors and scans\<close>

definition KEY_BOUNDARY_SEQUENCE :: int where "KEY_BOUNDARY_SEQUENCE = i64_min"

definition key_boundary_cursor :: "string \<Rightarrow> version_cursor" where
  "key_boundary_cursor key =
     \<lparr>vc_key = key, vc_sequence = KEY_BOUNDARY_SEQUENCE, vc_public_version_id = []\<rparr>"

definition is_key_boundary :: "version_cursor \<Rightarrow> bool" where
  "is_key_boundary c \<longleftrightarrow> vc_sequence c = KEY_BOUNDARY_SEQUENCE \<and> vc_public_version_id c = []"

definition validate_version_cursor ::
  "uuid_parser \<Rightarrow> string \<Rightarrow> string \<Rightarrow> string option \<Rightarrow> string option \<Rightarrow> db \<Rightarrow> version_cursor option app_result" where
  "validate_version_cursor up b pfx key_marker version_id_marker d =
     bindR (get_versioning_state b d) (\<lambda>state.
     case (key_marker, version_id_marker) of
       (None, None) \<Rightarrow> Inr None
     | (None, Some _) \<Rightarrow> Inl (InvalidArgument ''version-id-marker requires key-marker'')
     | (Some key, None) \<Rightarrow> Inr (Some (key_boundary_cursor key))
     | (Some key, Some marker) \<Rightarrow>
         if state = Unversioned
         then Inl (InvalidArgument ''version cursor cannot address hidden unversioned rows'')
         else if \<not> starts_with key pfx
         then Inl (InvalidArgument ''version cursor is outside the requested prefix'')
         else
         bindR (parse_s3 up marker) (\<lambda>v.
         bindR (one_version up b key (Exact v) d) (\<lambda>row.
         bindR (ok_or (InvalidArgument ''version cursor does not resolve to a visible version'') row) (\<lambda>r.
         bindR (case public_version_id_of up r of
                  Inl _ \<Rightarrow> Inl (InvalidArgument ''version cursor is not a visible version'')
                | Inr p \<Rightarrow> Inr p) (\<lambda>parsed.
         Inr (Some \<lparr>vc_key = ov_key r, vc_sequence = ov_sequence r,
                    vc_public_version_id = as_s3_str parsed\<rparr>))))))"

text \<open>The filter the cursor adds to the query, and the query's order.\<close>

definition from_cursor :: "uuid_parser \<Rightarrow> version_cursor option \<Rightarrow> (object_version_model \<Rightarrow> bool) app_result" where
  "from_cursor up cursor =
     (case cursor of
        None \<Rightarrow> Inr (\<lambda>_. True)
      | Some c \<Rightarrow>
          if is_key_boundary c then Inr (\<lambda>r. ov_key r > vc_key c)
          else
            bindR (if vc_public_version_id c = NULL_VERSION_ID
                   then Inr (\<lambda>r. ov_sequence r < vc_sequence c \<or>
                                  ov_sequence r = vc_sequence c \<and> ov_version_id r = None)
                   else bindR (parse_s3 up (vc_public_version_id c)) (\<lambda>v.
                     Inr (\<lambda>r. ov_sequence r < vc_sequence c \<or>
                               ov_sequence r = vc_sequence c \<and>
                               (case ov_version_id r of Some i \<Rightarrow> i \<ge> as_s3_str v | None \<Rightarrow> False)))) (\<lambda>same_key_after.
            Inr (\<lambda>r. ov_key r > vc_key c \<or> ov_key r = vc_key c \<and> same_key_after r)))"

definition version_order :: "object_version_model \<Rightarrow> string \<times> int \<times> string option" where
  "version_order r = (ov_key r, - ov_sequence r, ov_version_id r)"

definition scan_versions ::
  "uuid_parser \<Rightarrow> (string \<Rightarrow> string \<Rightarrow> bool) \<Rightarrow> string \<Rightarrow> string \<Rightarrow> version_cursor option \<Rightarrow> nat \<Rightarrow> db \<Rightarrow>
   resolved_version list app_result" where
  "scan_versions up like b pfx cursor limit d =
     bindR (get_versioning_state b d) (\<lambda>state.
     if state = Unversioned \<or> limit = 0 then Inr []
     else
     bindR (from_cursor up cursor) (\<lambda>after.
     traverse_list (\<lambda>r. resolved_from_row up r False d)
       (take limit (sort_key version_order
          (filter (\<lambda>r. ov_bucket r = b \<and> like pfx (ov_key r) \<and> after r) (object_versions d))))))"

section \<open>The page builder\<close>

definition VERSION_SCAN_BATCH_SIZE :: nat where "VERSION_SCAN_BATCH_SIZE = 1001"

definition version_cursor_of :: "resolved_version \<Rightarrow> version_cursor" where
  "version_cursor_of v =
     \<lparr>vc_key = rv_key v, vc_sequence = rv_sequence v, vc_public_version_id = rv_public_version_id v\<rparr>"

definition cursor_matches :: "resolved_version \<Rightarrow> version_cursor \<Rightarrow> bool" where
  "cursor_matches v c \<longleftrightarrow> rv_key v = vc_key c \<and> rv_sequence v = vc_sequence c \<and>
     rv_public_version_id v = vc_public_version_id c"

record object_version_dto =
  ovd_e_tag :: string
  ovd_is_latest :: bool
  ovd_key :: string
  ovd_last_modified :: datetime
  ovd_size :: int
  ovd_storage_class :: string
  ovd_version_id :: string

record delete_marker_entry =
  dme_is_latest :: bool
  dme_key :: string
  dme_last_modified :: datetime
  dme_version_id :: string

definition missing_object :: app_error where
  "missing_object = Internal ''content version is missing its immutable object''"

definition content_dto ::
  "resolved_version \<Rightarrow> storage_class \<Rightarrow> bool \<Rightarrow> object_version_dto app_result" where
  "content_dto v class url_encode =
     bindR (ok_or missing_object (rv_object v)) (\<lambda>ob.
     Inr \<lparr>ovd_e_tag = obj_cid ob, ovd_is_latest = rv_is_latest v,
          ovd_key = project_listing_field (rv_key v) url_encode, ovd_last_modified = rv_created_at v,
          ovd_size = obj_size ob, ovd_storage_class = class_as_db_str class,
          ovd_version_id = rv_public_version_id v\<rparr>)"

definition delete_marker_dto :: "resolved_version \<Rightarrow> bool \<Rightarrow> delete_marker_entry" where
  "delete_marker_dto v url_encode =
     \<lparr>dme_is_latest = rv_is_latest v, dme_key = project_listing_field (rv_key v) url_encode,
      dme_last_modified = rv_created_at v, dme_version_id = rv_public_version_id v\<rparr>"

record version_listing_page =
  vp_versions :: "object_version_dto list"
  vp_delete_markers :: "delete_marker_entry list"
  vp_common_prefixes :: "string list"
  vp_next_cursor :: "version_cursor option"

text \<open>The variables of the loop; the three output vectors are a page without a next cursor.\<close>

record version_listing_state =
  vs_page :: version_listing_page
  vs_output_count :: nat
  vs_active_common_prefix :: "string option"
  vs_skip_internal_cursor :: bool
  vs_last_scanned :: "version_cursor option"

definition empty_version_page :: version_listing_page where
  "empty_version_page =
     \<lparr>vp_versions = [], vp_delete_markers = [], vp_common_prefixes = [], vp_next_cursor = None\<rparr>"

text \<open>One row: an early return of a full page is \<open>Inl\<close>, going on with the next row is \<open>Inr\<close>.\<close>

definition version_row ::
  "(string \<rightharpoonup> storage_class) \<Rightarrow> string \<Rightarrow> string option \<Rightarrow> nat \<Rightarrow> bool \<Rightarrow> version_cursor option \<Rightarrow>
   version_listing_state \<Rightarrow> resolved_version \<Rightarrow> (version_listing_page + version_listing_state) app_result" where
  "version_row classes pfx delimiter max_keys url_encode scan_cursor st v =
     (let st = st\<lparr>vs_last_scanned := Some (version_cursor_of v)\<rparr>;
          full = Inl ((vs_page st)\<lparr>vp_next_cursor := Some (version_cursor_of v)\<rparr>) in
      if vs_skip_internal_cursor st \<and> (case scan_cursor of Some c \<Rightarrow> cursor_matches v c | None \<Rightarrow> False)
      then Inr (Inr (st\<lparr>vs_skip_internal_cursor := False\<rparr>))
      else
        let st = st\<lparr>vs_skip_internal_cursor := False\<rparr> in
        case common_prefix_for_key (rv_key v) pfx delimiter of
          Some p \<Rightarrow>
            if vs_active_common_prefix st = Some p then Inr (Inr st)
            else if vs_output_count st = max_keys then Inr full
            else Inr (Inr (st\<lparr>vs_output_count := vs_output_count st + 1,
                              vs_page := (vs_page st)\<lparr>vp_common_prefixes :=
                                vp_common_prefixes (vs_page st) @ [project_listing_field p url_encode]\<rparr>,
                              vs_active_common_prefix := Some p\<rparr>))
        | None \<Rightarrow>
            let st = st\<lparr>vs_active_common_prefix := None\<rparr> in
            if vs_output_count st = max_keys then Inr full
            else
              let st = st\<lparr>vs_output_count := vs_output_count st + 1\<rparr> in
              case rv_kind v of
                ObjectKind \<Rightarrow>
                  bindR (ok_or missing_object (rv_object v)) (\<lambda>ob.
                  bindR (ok_or (Internal ''storage class of a listed object'') (classes (obj_id ob))) (\<lambda>class.
                  bindR (content_dto v class url_encode) (\<lambda>dto.
                  Inr (Inr (st\<lparr>vs_page := (vs_page st)\<lparr>vp_versions := vp_versions (vs_page st) @ [dto]\<rparr>\<rparr>)))))
              | DeleteMarkerKind \<Rightarrow>
                  Inr (Inr (st\<lparr>vs_page := (vs_page st)\<lparr>vp_delete_markers :=
                    vp_delete_markers (vs_page st) @ [delete_marker_dto v url_encode]\<rparr>\<rparr>)))"

fun version_rows ::
  "(version_listing_state \<Rightarrow> resolved_version \<Rightarrow> (version_listing_page + version_listing_state) app_result) \<Rightarrow>
   version_listing_state \<Rightarrow> resolved_version list \<Rightarrow> (version_listing_page + version_listing_state) app_result" where
  "version_rows step st [] = Inr (Inr st)"
| "version_rows step st (v # vs) =
     bindR (step st v) (\<lambda>res. case res of Inl page \<Rightarrow> Inr (Inl page) | Inr st' \<Rightarrow> version_rows step st' vs)"

partial_function (option) version_paging ::
  "(version_cursor option \<Rightarrow> resolved_version list app_result) \<Rightarrow>
   (object_model list \<Rightarrow> (string \<rightharpoonup> storage_class) app_result) \<Rightarrow>
   ((string \<rightharpoonup> storage_class) \<Rightarrow> version_cursor option \<Rightarrow> version_listing_state \<Rightarrow> resolved_version \<Rightarrow>
      (version_listing_page + version_listing_state) app_result) \<Rightarrow>
   nat \<Rightarrow> version_listing_state \<Rightarrow> version_cursor option \<Rightarrow> version_listing_page app_result option" where
  "version_paging scan classes_of step batch st scan_cursor =
     (case bindR (scan scan_cursor) (\<lambda>rows.
           bindR (classes_of (List.map_filter rv_object rows)) (\<lambda>classes.
           bindR (version_rows (step classes scan_cursor) (st\<lparr>vs_last_scanned := None\<rparr>) rows) (\<lambda>res.
           Inr (length rows < batch, res)))) of
        Inl e \<Rightarrow> Some (Inl e)
      | Inr (exhausted, Inl page) \<Rightarrow> Some (Inr page)
      | Inr (exhausted, Inr st') \<Rightarrow>
          if exhausted then Some (Inr (vs_page st'))
          else (case vs_last_scanned st' of
                  None \<Rightarrow> Some (Inl (Internal ''version listing scan did not advance''))
                | Some next \<Rightarrow>
                    if scan_cursor = Some next
                    then Some (Inl (Internal ''version listing scan cursor did not advance''))
                    else version_paging scan classes_of step batch
                           (st'\<lparr>vs_skip_internal_cursor := True\<rparr>) (Some next)))"

definition build_version_listing_page ::
  "uuid_parser \<Rightarrow> (string \<Rightarrow> string \<Rightarrow> bool) \<Rightarrow> (object_model list \<Rightarrow> db \<Rightarrow> (string \<rightharpoonup> storage_class) app_result) \<Rightarrow>
   string \<Rightarrow> string \<Rightarrow> string option \<Rightarrow> version_cursor option \<Rightarrow> nat \<Rightarrow> bool \<Rightarrow> db \<Rightarrow>
   version_listing_page app_result option" where
  "build_version_listing_page up like classes_of b pfx delimiter cursor max_keys url_encode d =
     version_paging (\<lambda>c. scan_versions up like b pfx c VERSION_SCAN_BATCH_SIZE d) (\<lambda>obs. classes_of obs d)
       (\<lambda>classes. version_row classes pfx delimiter max_keys url_encode) VERSION_SCAN_BATCH_SIZE
       \<lparr>vs_page = empty_version_page, vs_output_count = 0, vs_active_common_prefix = None,
        vs_skip_internal_cursor = False, vs_last_scanned = None\<rparr> cursor"

section \<open>Handlers\<close>

record list_object_versions_input = list_objects_input +
  lvi_key_marker :: "string option"
  lvi_version_id_marker :: "string option"

record list_object_versions_output =
  lvo_versions :: "object_version_dto list option"
  lvo_delete_markers :: "delete_marker_entry list option"
  lvo_common_prefixes :: "string list option"
  lvo_is_truncated :: bool
  lvo_next_key_marker :: "string option"
  lvo_next_version_id_marker :: "string option"
  lvo_max_keys :: nat
  lvo_name :: string
  lvo_prefix :: string
  lvo_delimiter :: "string option"
  lvo_key_marker :: "string option"
  lvo_version_id_marker :: "string option"
  lvo_encoding_type :: "string option"

definition list_object_versions ::
  "uuid_parser \<Rightarrow> (string \<Rightarrow> string \<Rightarrow> bool) \<Rightarrow> (object_model list \<Rightarrow> db \<Rightarrow> (string \<rightharpoonup> storage_class) app_result) \<Rightarrow>
   list_object_versions_input \<Rightarrow> db \<Rightarrow> list_object_versions_output app_result option" where
  "list_object_versions up like classes_of inp d =
     (let b = li_bucket inp; pfx = unwrap_or_default (li_prefix inp); delimiter = li_delimiter inp;
          max_keys = normalized_max_keys (li_max_keys inp);
          url_encode = url_encoding_requested (li_encoding_type inp) in
      case bindR (get_versioning_state b d) (\<lambda>state.
           bindR (validate_version_cursor up b pfx (lvi_key_marker inp) (lvi_version_id_marker inp) d) (\<lambda>cursor.
           Inr (state, cursor))) of
        Inl e \<Rightarrow> Some (Inl e)
      | Inr (state, cursor) \<Rightarrow>
          map_option (\<lambda>res. bindR res (\<lambda>page.
            Inr \<lparr>lvo_versions = some_unless_empty (vp_versions page),
                 lvo_delete_markers = some_unless_empty (vp_delete_markers page),
                 lvo_common_prefixes = some_unless_empty (vp_common_prefixes page),
                 lvo_is_truncated = (vp_next_cursor page \<noteq> None),
                 lvo_next_key_marker =
                   map_option (\<lambda>c. project_listing_field (vc_key c) url_encode) (vp_next_cursor page),
                 lvo_next_version_id_marker = map_option vc_public_version_id (vp_next_cursor page),
                 lvo_max_keys = max_keys, lvo_name = b, lvo_prefix = project_listing_field pfx url_encode,
                 lvo_delimiter = project_optional_listing_field delimiter url_encode,
                 lvo_key_marker = project_optional_listing_field (lvi_key_marker inp) url_encode,
                 lvo_version_id_marker = lvi_version_id_marker inp,
                 lvo_encoding_type = li_encoding_type inp\<rparr>))
            (if state = Unversioned then Some (Inr empty_version_page)
             else build_version_listing_page up like classes_of b pfx delimiter cursor max_keys url_encode d))"

definition get_bucket_versioning :: "string \<Rightarrow> db \<Rightarrow> string option app_result" where
  "get_bucket_versioning b d =
     bindR (get_versioning_state b d) (\<lambda>state.
     Inr (case state of Unversioned \<Rightarrow> None | Enabled \<Rightarrow> Some ''Enabled'' | Suspended \<Rightarrow> Some ''Suspended''))"

record put_bucket_versioning_input =
  pbv_bucket :: string
  pbv_mfa :: "string option"
  pbv_mfa_delete :: "string option"
  pbv_status :: "string option"

definition put_bucket_versioning :: "put_bucket_versioning_input \<Rightarrow> (db, unit) tx" where
  "put_bucket_versioning inp =
     bindT (queryT (bucket_get (pbv_bucket inp))) (\<lambda>_.
     if pbv_mfa inp \<noteq> None then throwT (InvalidArgument ''MFA delete is not supported'')
     else if pbv_mfa_delete inp \<noteq> None then throwT (InvalidArgument ''MFA delete is not supported'')
     else
     bindT (liftT (ok_or (InvalidArgument ''versioning status is required'') (pbv_status inp))) (\<lambda>status.
     bindT (if status = ''Enabled'' then returnT Enabled
            else if status = ''Suspended'' then returnT Suspended
            else throwT (InvalidArgument ''versioning status must be Enabled or Suspended'')) (\<lambda>state.
     set_versioning_state (pbv_bucket inp) state)))"

section \<open>One page\<close>

text \<open>
  What a page presents for a list of groups: a content version or delete marker for a single row, a
  common prefix for a folded group. Storage classes are left out: they come from the lookup of
  \<open>Storage_Class\<close>.
\<close>

definition resolved_prefix :: "string \<Rightarrow> string option \<Rightarrow> resolved_version \<Rightarrow> string option" where
  "resolved_prefix pfx dl v = common_prefix_for_key (rv_key v) pfx dl"

definition without_class :: "object_version_dto \<Rightarrow> object_version_dto" where
  "without_class dto = dto\<lparr>ovd_storage_class := []\<rparr>"

fun version_entry :: "bool \<Rightarrow> resolved_version listing_group \<Rightarrow> object_version_dto option" where
  "version_entry url_encode (One v) =
     (case rv_object v of
        Some ob \<Rightarrow> Some \<lparr>ovd_e_tag = obj_cid ob, ovd_is_latest = rv_is_latest v,
          ovd_key = project_listing_field (rv_key v) url_encode, ovd_last_modified = rv_created_at v,
          ovd_size = obj_size ob, ovd_storage_class = [], ovd_version_id = rv_public_version_id v\<rparr>
      | None \<Rightarrow> None)"
| "version_entry url_encode (Folded p vs) = None"

fun marker_entry :: "bool \<Rightarrow> resolved_version listing_group \<Rightarrow> delete_marker_entry option" where
  "marker_entry url_encode (One v) =
     (if rv_object v = None then Some (delete_marker_dto v url_encode) else None)"
| "marker_entry url_encode (Folded p vs) = None"

definition presents :: "bool \<Rightarrow> resolved_version listing_group list \<Rightarrow> version_listing_page \<Rightarrow> bool" where
  "presents url_encode gs page \<longleftrightarrow>
     map without_class (vp_versions page) = List.map_filter (version_entry url_encode) gs \<and>
     vp_delete_markers page = List.map_filter (marker_entry url_encode) gs \<and>
     vp_common_prefixes page =
       map (\<lambda>p. project_listing_field p url_encode) (List.map_filter group_prefix gs)"

lemma map_filter_snoc: "List.map_filter f (xs @ [x]) = List.map_filter f xs @ (case f x of None \<Rightarrow> [] | Some y \<Rightarrow> [y])"
  by (simp add: map_filter_def split: option.split)

definition version_state_ok ::
  "string \<Rightarrow> string option \<Rightarrow> bool \<Rightarrow> resolved_version list \<Rightarrow> version_listing_state \<Rightarrow> bool" where
  "version_state_ok pfx dl ue xs st \<longleftrightarrow>
     presents ue (groups (resolved_prefix pfx dl) xs) (vs_page st) \<and> vp_next_cursor (vs_page st) = None \<and>
     vs_output_count st = length (groups (resolved_prefix pfx dl) xs) \<and>
     vs_active_common_prefix st = (if xs = [] then None else resolved_prefix pfx dl (last xs)) \<and>
     \<not> vs_skip_internal_cursor st"

text \<open>Rows of the store: the kind says whether there is an object, whose class is known.\<close>

definition listable :: "(string \<rightharpoonup> storage_class) \<Rightarrow> resolved_version \<Rightarrow> bool" where
  "listable classes v \<longleftrightarrow>
     (case rv_object v of None \<Rightarrow> rv_kind v = DeleteMarkerKind
      | Some ob \<Rightarrow> rv_kind v = ObjectKind \<and> classes (obj_id ob) \<noteq> None)"

lemma version_state_okD:
  assumes "version_state_ok pfx dl ue xs st"
  shows "presents ue (groups (resolved_prefix pfx dl) xs) (vs_page st)" "vp_next_cursor (vs_page st) = None"
    "vs_output_count st = length (groups (resolved_prefix pfx dl) xs)"
    "vs_active_common_prefix st = (if xs = [] then None else resolved_prefix pfx dl (last xs))"
    "\<not> vs_skip_internal_cursor st"
  using assms by (simp_all add: version_state_ok_def)

lemma version_row_full:
  assumes ok: "version_state_ok pfx dl ue xs st" and j: "\<not> joins (resolved_prefix pfx dl) xs v"
    and "length (groups (resolved_prefix pfx dl) xs) = mk"
  shows "version_row classes pfx dl mk ue sc st v =
    Inr (Inl ((vs_page st)\<lparr>vp_next_cursor := Some (version_cursor_of v)\<rparr>))"
proof -
  have "vs_active_common_prefix st \<noteq> Some p" if "resolved_prefix pfx dl v = Some p" for p
    using version_state_okD(4) [OF ok] j that by (auto simp: joins_def)
  with version_state_okD(3,5) [OF ok] assms(3) show ?thesis
    by (cases "resolved_prefix pfx dl v") (simp_all add: version_row_def Let_def resolved_prefix_def)
qed

lemma version_row_join:
  assumes ok: "version_state_ok pfx dl ue xs st" and j: "joins (resolved_prefix pfx dl) xs v"
  shows "\<exists>st'. version_row classes pfx dl mk ue sc st v = Inr (Inr st') \<and>
    version_state_ok pfx dl ue (xs @ [v]) st' \<and> vs_last_scanned st' = Some (version_cursor_of v)"
proof -
  from groups_snoc_join [OF j] obtain hs p ys where g: "groups (resolved_prefix pfx dl) xs = hs @ [Folded p ys]"
    "resolved_prefix pfx dl v = Some p" "groups (resolved_prefix pfx dl) (xs @ [v]) = hs @ [Folded p (ys @ [v])]" by metis
  have active: "vs_active_common_prefix st = Some p"
    using version_state_okD(4) [OF ok] j g(2) by (auto simp: joins_def)
  have cp: "common_prefix_for_key (rv_key v) pfx dl = Some p" using g(2) by (simp add: resolved_prefix_def)
  let ?st = "st\<lparr>vs_last_scanned := Some (version_cursor_of v), vs_skip_internal_cursor := False\<rparr>"
  have "version_row classes pfx dl mk ue sc st v = Inr (Inr ?st)"
    using version_state_okD(5) [OF ok] by (simp add: version_row_def Let_def active cp)
  moreover have "presents ue (hs @ [Folded p (ys @ [v])]) (vs_page st)"
    using version_state_okD(1) [OF ok] by (simp add: g(1) presents_def map_filter_snoc)
  then have "version_state_ok pfx dl ue (xs @ [v]) ?st"
    using version_state_okD(2,3) [OF ok] by (simp add: version_state_ok_def g active)
  ultimately show ?thesis by simp
qed

lemma version_row_new:
  assumes ok: "version_state_ok pfx dl ue xs st" and j: "\<not> joins (resolved_prefix pfx dl) xs v"
    and len: "length (groups (resolved_prefix pfx dl) xs) < mk" and l: "listable classes v"
  shows "\<exists>st'. version_row classes pfx dl mk ue sc st v = Inr (Inr st') \<and>
    version_state_ok pfx dl ue (xs @ [v]) st' \<and> vs_last_scanned st' = Some (version_cursor_of v)"
proof -
  note st = version_state_okD [OF ok]
  have count: "vs_output_count st \<noteq> mk" using st(3) len by simp
  have pres: "presents ue (groups (resolved_prefix pfx dl) xs @ [g]) page"
    if "map without_class (vp_versions page) = map without_class (vp_versions (vs_page st)) @
          (case version_entry ue g of None \<Rightarrow> [] | Some e \<Rightarrow> [e])"
      "vp_delete_markers page = vp_delete_markers (vs_page st) @ (case marker_entry ue g of None \<Rightarrow> [] | Some e \<Rightarrow> [e])"
      "vp_common_prefixes page = vp_common_prefixes (vs_page st) @
          (case group_prefix g of None \<Rightarrow> [] | Some p \<Rightarrow> [project_listing_field p ue])" for g page
    using st(1) that by (auto simp: presents_def map_filter_snoc split: option.split)
  show ?thesis
  proof (cases "resolved_prefix pfx dl v")
    case (Some p)
    have "vs_active_common_prefix st \<noteq> Some p" using st(4) j Some by (auto simp: joins_def)
    moreover have cp: "common_prefix_for_key (rv_key v) pfx dl = Some p" using Some by (simp add: resolved_prefix_def)
    ultimately show ?thesis using st(2,3,5) count
      by (simp add: version_row_def Let_def version_state_ok_def groups_snoc_new [OF j] Some pres)
  next
    case None
    then have cp: "common_prefix_for_key (rv_key v) pfx dl = None" by (simp add: resolved_prefix_def)
    show ?thesis
    proof (cases "rv_object v")
      case none: None
      then have "rv_kind v = DeleteMarkerKind" using l by (simp add: listable_def)
      with none cp st(2,3,5) count show ?thesis
        by (simp add: version_row_def Let_def version_state_ok_def groups_snoc_new [OF j] None pres)
    next
      case (Some ob)
      then obtain c where "rv_kind v = ObjectKind" "classes (obj_id ob) = Some c" using l by (auto simp: listable_def)
      with Some cp st(2,3,5) count show ?thesis
        by (simp add: version_row_def Let_def version_state_ok_def groups_snoc_new [OF j] None pres
            content_dto_def without_class_def)
    qed
  qed
qed

lemma version_rows_ok:
  assumes "version_state_ok pfx dl ue xs st" "length (groups (resolved_prefix pfx dl) xs) \<le> mk"
    and "list_all (listable classes) ys"
  shows "(\<exists>st'. version_rows (version_row classes pfx dl mk ue sc) st ys = Inr (Inr st') \<and>
            version_state_ok pfx dl ue (xs @ ys) st' \<and> length (groups (resolved_prefix pfx dl) (xs @ ys)) \<le> mk \<and>
            vs_last_scanned st' = (if ys = [] then vs_last_scanned st else Some (version_cursor_of (last ys)))) \<or>
         (\<exists>zs v us page. ys = zs @ v # us \<and>
            version_rows (version_row classes pfx dl mk ue sc) st ys =
              Inr (Inl (page\<lparr>vp_next_cursor := Some (version_cursor_of v)\<rparr>)) \<and>
            presents ue (groups (resolved_prefix pfx dl) (xs @ zs)) page \<and>
            length (groups (resolved_prefix pfx dl) (xs @ zs)) = mk \<and> \<not> joins (resolved_prefix pfx dl) (xs @ zs) v)"
  using assms
proof (induction ys arbitrary: xs st)
  case Nil
  then show ?case by simp
next
  case (Cons v ys)
  let ?cp = "resolved_prefix pfx dl"
  let ?step = "version_row classes pfx dl mk ue sc"
  show ?case
  proof (cases "\<not> joins ?cp xs v \<and> length (groups ?cp xs) = mk")
    case True
    with version_row_full [OF Cons.prems(1)]
    have "version_rows ?step st (v # ys) = Inr (Inl ((vs_page st)\<lparr>vp_next_cursor := Some (version_cursor_of v)\<rparr>))"
      by simp
    moreover have "presents ue (groups ?cp (xs @ [])) (vs_page st)"
      using version_state_okD(1) [OF Cons.prems(1)] by simp
    ultimately show ?thesis using True by (intro disjI2 exI [of _ "[]"]) auto
  next
    case False
    have "\<exists>st'. ?step st v = Inr (Inr st') \<and> version_state_ok pfx dl ue (xs @ [v]) st' \<and>
        vs_last_scanned st' = Some (version_cursor_of v)"
      using False version_row_join [OF Cons.prems(1)] version_row_new [OF Cons.prems(1)] Cons.prems(2,3)
      by (cases "joins ?cp xs v") (auto simp: le_less)
    then obtain st' where st': "?step st v = Inr (Inr st')" "version_state_ok pfx dl ue (xs @ [v]) st'"
      "vs_last_scanned st' = Some (version_cursor_of v)" by blast
    have len: "length (groups ?cp (xs @ [v])) \<le> mk"
    proof (cases "joins ?cp xs v")
      case True
      from groups_snoc_join [OF True] obtain hs p zs where "groups ?cp xs = hs @ [Folded p zs]"
        "groups ?cp (xs @ [v]) = hs @ [Folded p (zs @ [v])]" by metis
      with Cons.prems(2) show ?thesis by simp
    qed (use False Cons.prems(2) in \<open>simp add: groups_snoc_new\<close>)
    have push: "version_rows ?step st (v # ys) = version_rows ?step st' ys" using st'(1) by simp
    have "list_all (listable classes) ys" using Cons.prems(3) by simp
    from Cons.IH [OF st'(2) len this] show ?thesis
    proof (elim disjE exE conjE, goal_cases)
      case (1 st'')
      then show ?thesis unfolding push using st'(3)
        by (intro disjI1 exI [of _ st'']) (cases "ys = []"; simp)
    next
      case (2 zs v' us page)
      then show ?thesis unfolding push
        by (intro disjI2 exI [of _ "v # zs"] exI [of _ v'] exI [of _ us] exI [of _ page]) simp
    qed
  qed
qed

text \<open>A skipped first row, which is the row the previous scan of the page ended with.\<close>

lemma version_rows_skip:
  assumes "version_state_ok pfx dl ue xs (st\<lparr>vs_skip_internal_cursor := False\<rparr>)" "vs_skip_internal_cursor st"
  shows "version_rows (version_row classes pfx dl mk ue (Some (version_cursor_of v))) st (v # ys) =
    version_rows (version_row classes pfx dl mk ue (Some (version_cursor_of v)))
      (st\<lparr>vs_last_scanned := Some (version_cursor_of v), vs_skip_internal_cursor := False\<rparr>) ys"
  using assms by (simp add: version_row_def cursor_matches_def version_cursor_of_def)

definition version_page_of ::
  "string \<Rightarrow> string option \<Rightarrow> nat \<Rightarrow> bool \<Rightarrow> resolved_version list \<Rightarrow> version_listing_page \<Rightarrow> bool" where
  "version_page_of pfx dl mk ue rows page \<longleftrightarrow>
     presents ue (groups (resolved_prefix pfx dl) rows) page \<and> vp_next_cursor page = None \<and>
       length (groups (resolved_prefix pfx dl) rows) \<le> mk \<or>
     (\<exists>zs v us. rows = zs @ v # us \<and> presents ue (groups (resolved_prefix pfx dl) zs) page \<and>
        vp_next_cursor page = Some (version_cursor_of v) \<and>
        length (groups (resolved_prefix pfx dl) zs) = mk \<and> \<not> joins (resolved_prefix pfx dl) zs v)"

lemma presents_next_cursor [simp]: "presents ue gs (page\<lparr>vp_next_cursor := c\<rparr>) = presents ue gs page"
  by (simp add: presents_def)

lemma version_page_of_full:
  assumes "rows = zs @ v # us" "presents ue (groups (resolved_prefix pfx dl) zs) page"
    "length (groups (resolved_prefix pfx dl) zs) = mk" "\<not> joins (resolved_prefix pfx dl) zs v"
  shows "version_page_of pfx dl mk ue rows (page\<lparr>vp_next_cursor := Some (version_cursor_of v)\<rparr>)"
  unfolding version_page_of_def
  by (rule disjI2, intro exI [of _ zs] exI [of _ v] exI [of _ us]) (use assms in simp)

text \<open>One turn of the paging loop once its batch is known.\<close>

lemma version_paging_turn:
  assumes "scan c = Inr batch" "classes_of (List.map_filter rv_object batch) = Inr classes"
    and "version_rows (step classes c) (st\<lparr>vs_last_scanned := None\<rparr>) batch = Inr res"
  shows "version_paging scan classes_of step n st c =
    (case res of
       Inl page \<Rightarrow> Some (Inr page)
     | Inr st' \<Rightarrow>
         if length batch < n then Some (Inr (vs_page st'))
         else (case vs_last_scanned st' of
                  None \<Rightarrow> Some (Inl (Internal ''version listing scan did not advance''))
                | Some next \<Rightarrow>
                    if c = Some next
                    then Some (Inl (Internal ''version listing scan cursor did not advance''))
                    else version_paging scan classes_of step n (st'\<lparr>vs_skip_internal_cursor := True\<rparr>) (Some next)))"
  using assms by (subst version_paging.simps) (simp split: sum.split)

lemma version_state_ok_last_scanned [simp]:
  "version_state_ok pfx dl ue xs (st\<lparr>vs_last_scanned := c\<rparr>) = version_state_ok pfx dl ue xs st"
  "version_state_ok pfx dl ue xs (st\<lparr>vs_last_scanned := c, vs_skip_internal_cursor := s\<rparr>) =
   version_state_ok pfx dl ue xs (st\<lparr>vs_skip_internal_cursor := s\<rparr>)"
  by (simp_all add: version_state_ok_def)

lemma version_state_ok_skip:
  "version_state_ok pfx dl ue xs st \<Longrightarrow> version_state_ok pfx dl ue xs (st\<lparr>vs_skip_internal_cursor := False\<rparr>)"
  by (simp add: version_state_ok_def)

text \<open>
  What the paging loop needs of its source: scans that start at a row of the listing return the rows
  from there on, the first scan returns the listing from its start, and every row can be presented.
\<close>

definition version_source ::
  "(version_cursor option \<Rightarrow> resolved_version list app_result) \<Rightarrow>
   (object_model list \<Rightarrow> (string \<rightharpoonup> storage_class) app_result) \<Rightarrow> nat \<Rightarrow> version_cursor option \<Rightarrow>
   resolved_version list \<Rightarrow> bool" where
  "version_source scan classes_of n c0 rows \<longleftrightarrow>
     scan c0 = Inr (take n rows) \<and>
     (\<forall>xs v ys. rows = xs @ v # ys \<longrightarrow> scan (Some (version_cursor_of v)) = Inr (take n (v # ys))) \<and>
     distinct (map version_cursor_of rows) \<and>
     (\<forall>xs v ys. rows = xs @ v # ys \<and> c0 = Some (version_cursor_of v) \<longrightarrow> xs = []) \<and>
     (\<forall>vs. set vs \<subseteq> set rows \<longrightarrow>
        (\<exists>classes. classes_of (List.map_filter rv_object vs) = Inr classes \<and> list_all (listable classes) vs))"

lemma version_paging_rest:
  assumes src: "version_source scan classes_of n c0 rows" and n: "1 < n"
    and "rows = (xs @ [x]) @ ys" "version_state_ok pfx dl ue (xs @ [x]) (st\<lparr>vs_skip_internal_cursor := False\<rparr>)"
    and "vs_skip_internal_cursor st" "length (groups (resolved_prefix pfx dl) (xs @ [x])) \<le> mk"
  shows "\<exists>page. version_paging scan classes_of (\<lambda>classes. version_row classes pfx dl mk ue) n st
      (Some (version_cursor_of x)) = Some (Inr page) \<and> version_page_of pfx dl mk ue rows page"
  using assms(3-)
proof (induction "length ys" arbitrary: xs x ys st rule: less_induct)
  case less
  let ?cp = "resolved_prefix pfx dl"
  let ?c = "Some (version_cursor_of x)"
  let ?B = "take (n - 1) ys"
  have scan: "scan ?c = Inr (x # ?B)" using src less.prems(1) n by (cases n) (auto simp: version_source_def)
  have sub: "set (x # ?B) \<subseteq> set rows" using less.prems(1) set_take_subset [of "n - 1" ys] by auto
  then obtain classes where cl: "classes_of (List.map_filter rv_object (x # ?B)) = Inr classes"
    "list_all (listable classes) (x # ?B)" using src unfolding version_source_def by meson
  let ?step = "version_row classes pfx dl mk ue ?c"
  let ?st = "st\<lparr>vs_last_scanned := ?c, vs_skip_internal_cursor := False\<rparr>"
  have skip: "version_rows ?step (st\<lparr>vs_last_scanned := None\<rparr>) (x # ?B) = version_rows ?step ?st ?B"
    using version_rows_skip [of pfx dl ue "xs @ [x]" "st\<lparr>vs_last_scanned := None\<rparr>"] less.prems(2,3) by simp
  have ok: "version_state_ok pfx dl ue (xs @ [x]) ?st" using less.prems(2) by simp
  have lst: "list_all (listable classes) ?B" using cl(2) by simp
  note turn = version_paging_turn [where scan = scan and c = ?c and classes_of = classes_of and n = n and st = st
      and step = "\<lambda>classes. version_row classes pfx dl mk ue", OF scan cl(1)]
  from version_rows_ok [OF ok less.prems(4) lst, of ?c] show ?case
  proof (elim disjE exE conjE, goal_cases)
    case (1 st')
    note turn = turn [OF skip [unfolded 1(1)]]
    show ?case
    proof (cases "length ys < n - 1")
      case True
      then have "?B = ys" "length (x # ?B) < n" by auto
      with turn 1 less.prems(1) version_state_okD(1,2) [OF 1(2)] show ?thesis by (simp add: version_page_of_def)
    next
      case False
      then have ne: "?B \<noteq> []" and full: "\<not> length (x # ?B) < n" using n by auto
      obtain bs y where B: "?B = bs @ [y]" using ne by (metis append_butlast_last_id)
      have "rows = xs @ x # bs @ y # drop (n - 1) ys"
        using less.prems(1) append_take_drop_id [of "n - 1" ys] B by (metis append.assoc append_Cons append_Nil)
      moreover from this src have "version_cursor_of x \<noteq> version_cursor_of y" by (auto simp: version_source_def)
      ultimately have step: "version_paging scan classes_of (\<lambda>classes. version_row classes pfx dl mk ue) n st ?c =
          version_paging scan classes_of (\<lambda>classes. version_row classes pfx dl mk ue) n
            (st'\<lparr>vs_skip_internal_cursor := True\<rparr>) (Some (version_cursor_of y))"
        and rows: "rows = ((xs @ x # bs) @ [y]) @ drop (n - 1) ys"
        using turn full 1(4) B by auto
      have "0 < length ys" "0 < n - 1" using ne n by auto
      then have "length (drop (n - 1) ys) < length ys" by (simp only: length_drop)
      from less.hyps [OF this rows, of "st'\<lparr>vs_skip_internal_cursor := True\<rparr>"] 1(2,3) B version_state_ok_skip
      show ?thesis by (simp add: step)
    qed
  next
    case (2 zs v us page)
    have res: "version_rows ?step (st\<lparr>vs_last_scanned := None\<rparr>) (x # ?B) =
        Inr (Inl (page\<lparr>vp_next_cursor := Some (version_cursor_of v)\<rparr>))" unfolding skip by (rule 2(2))
    have rows: "rows = ((xs @ [x]) @ zs) @ v # (us @ drop (n - 1) ys)"
      using less.prems(1) append_take_drop_id [of "n - 1" ys] 2(1) by (metis append.assoc append_Cons)
    from turn [OF res] version_page_of_full [OF rows 2(3-5)] show ?case by simp
  qed
qed

lemma version_paging_ok:
  assumes src: "version_source scan classes_of n c0 rows" and n: "1 < n"
    and ok: "version_state_ok pfx dl ue [] st"
  shows "\<exists>page. version_paging scan classes_of (\<lambda>classes. version_row classes pfx dl mk ue) n st c0 = Some (Inr page) \<and>
    version_page_of pfx dl mk ue rows page"
proof -
  let ?B = "take n rows"
  have scan: "scan c0 = Inr ?B" using src by (simp add: version_source_def)
  obtain classes where cl: "classes_of (List.map_filter rv_object ?B) = Inr classes" "list_all (listable classes) ?B"
    using src set_take_subset [of n rows] unfolding version_source_def by meson
  note turn = version_paging_turn [where scan = scan and c = c0 and classes_of = classes_of and n = n and st = st
      and step = "\<lambda>classes. version_row classes pfx dl mk ue", OF scan cl(1)]
  have ok': "version_state_ok pfx dl ue [] (st\<lparr>vs_last_scanned := None\<rparr>)" using ok by simp
  from version_rows_ok [OF ok' _ cl(2), of mk c0, simplified] show ?thesis
  proof (elim disjE exE conjE, goal_cases)
    case (1 st')
    note turn = turn [OF 1(1)]
    show ?thesis
    proof (cases "length rows < n")
      case True
      with turn 1 version_state_okD(1,2) [OF 1(2)] show ?thesis by (simp add: version_page_of_def)
    next
      case False
      then have full: "length ?B = n" by simp
      obtain bs y where B: "?B = bs @ [y]" using full n by (metis append_butlast_last_id list.size(3) not_one_less_zero)
      have rows: "rows = (bs @ [y]) @ drop n rows" using B by (metis append_take_drop_id)
      have "bs \<noteq> []" using full n B by auto
      moreover have "rows = bs @ y # drop n rows" using rows by simp
      ultimately have "c0 \<noteq> Some (version_cursor_of y)" using src unfolding version_source_def by blast
      then have step: "version_paging scan classes_of (\<lambda>classes. version_row classes pfx dl mk ue) n st c0 =
          version_paging scan classes_of (\<lambda>classes. version_row classes pfx dl mk ue) n
            (st'\<lparr>vs_skip_internal_cursor := True\<rparr>) (Some (version_cursor_of y))"
        using turn full n 1(4) B by auto
      from version_paging_rest [OF src n rows, of pfx dl ue "st'\<lparr>vs_skip_internal_cursor := True\<rparr>" mk]
        1(2,3) B version_state_ok_skip
      show ?thesis by (simp add: step)
    qed
  next
    case (2 zs v us page)
    have rows: "rows = zs @ v # (us @ drop n rows)"
      using append_take_drop_id [of n rows] 2(1) by (metis append.assoc append_Cons)
    from turn [OF 2(2)] version_page_of_full [OF rows 2(3-5)] show ?thesis by simp
  qed
qed

end
