(* ===== verification/Class_Lookup.thy ===== *)
theory Class_Lookup
  imports Storage_Class Version_Properties
begin

text \<open>
  The storage class lookup of \<open>Storage_Class\<close> never fails on a consistent store: each of its loops
  succeeds when the rows it reads satisfy the store's invariant, every object has at most one
  content version (\<open>sole_owners\<close>) and cold copies carry valid receipts (\<open>cold_verified\<close>).
\<close>

definition sole_owners :: "db \<Rightarrow> bool" where
  "sole_owners d \<longleftrightarrow>
     (\<forall>r \<in> set (object_versions d). \<forall>s \<in> set (object_versions d).
        ov_object_id r \<noteq> None \<and> ov_object_id r = ov_object_id s \<longrightarrow> r = s)"

definition cold_verified ::
  "(string \<Rightarrow> local_residency_verification_receipt option) \<Rightarrow> (string \<Rightarrow> 'cid option) \<Rightarrow> db \<Rightarrow> bool" where
  "cold_verified receipt_from_str cid_parse d \<longleftrightarrow>
     (\<forall>p \<in> set (physical_residencies d). pr_tier p = ''cold'' \<longrightarrow>
        pr_verification_state p = ''verified'' \<and>
        validate_cold_receipt receipt_from_str cid_parse (pr_cid p) (pr_node_identity p)
          (pr_verification_receipt p) = Inr ())"

lemma identity_of_sel [simp]:
  "oi_id (identity_of ob) = obj_id ob" "oi_bucket (identity_of ob) = obj_bucket ob"
  "oi_key (identity_of ob) = obj_key ob" "oi_cid (identity_of ob) = obj_cid ob"
  by (simp_all add: identity_of_def)

section \<open>Each loop succeeds\<close>

lemma select_objects_total:
  assumes "\<forall>ob \<in> set obs. f (oi_id ob) = ob" "\<forall>i v. m i = Some v \<longrightarrow> v = f i"
  shows "\<exists>m'. select_objects obs m = Inr m' \<and> (\<forall>i. m' i = (if i \<in> oi_id ` set obs then Some (f i) else m i))"
  using assms
proof (induction obs arbitrary: m)
  case (Cons ob obs)
  let ?m = "m(oi_id ob \<mapsto> ob)"
  have ok: "\<not> (case m (oi_id ob) of Some existing \<Rightarrow> existing \<noteq> ob | None \<Rightarrow> False)"
    using Cons.prems by (auto split: option.split)
  have inv: "\<forall>i v. ?m i = Some v \<longrightarrow> v = f i" using Cons.prems by auto
  have all: "\<forall>ob \<in> set obs. f (oi_id ob) = ob" using Cons.prems(1) by simp
  from Cons.IH [OF all inv] obtain m' where m': "select_objects obs ?m = Inr m'"
    "\<And>i. m' i = (if i \<in> oi_id ` set obs then Some (f i) else ?m i)" by blast
  have "m' i = (if i \<in> oi_id ` set (ob # obs) then Some (f i) else m i)" for i
    using m'(2) [of i] Cons.prems(1) by (cases "i = oi_id ob") auto
  with m'(1) ok show ?case by simp
qed simp

lemma index_version_rows_append:
  "index_version_rows sel (xs @ ys) ix = bindR (index_version_rows sel xs ix) (index_version_rows sel ys)"
proof (induction xs arbitrary: ix)
  case (Cons v xs)
  obtain vbo obv where "ix = (vbo, obv)" by (cases ix)
  with Cons show ?case by (cases "ov_object_id v"; cases "sel (the (ov_object_id v))") simp_all
qed simp

definition version_owned_in :: "string list \<Rightarrow> object_version_model \<Rightarrow> bool" where
  "version_owned_in chunk v \<longleftrightarrow> (case ov_object_id v of Some i \<Rightarrow> i \<in> set chunk | None \<Rightarrow> False)"

lemma index_version_chunks_concat:
  "index_version_chunks sel cs d ix =
     index_version_rows sel (concat (map (\<lambda>c. filter (version_owned_in c) (object_versions d)) cs)) ix"
  by (induction cs arbitrary: ix)
    (simp_all add: index_version_rows_append version_owned_in_def [abs_def], metis)

text \<open>The rows selected chunk by chunk are those of the whole list, each once.\<close>

lemma distinct_selected:
  assumes "distinct (map f rows)" "distinct (concat cs)"
    and "\<And>r c. r \<in> set rows \<Longrightarrow> P c r \<longleftrightarrow> g r \<in> Some ` set c"
  shows "distinct (map f (concat (map (\<lambda>c. filter (P c) rows) cs)))"
  using assms(2)
proof (induction cs)
  case (Cons c cs)
  have "f r \<noteq> f s" if "r \<in> set (filter (P c) rows)" "s \<in> set (concat (map (\<lambda>c. filter (P c) rows) cs))" for r s
  proof
    assume "f r = f s"
    with that assms(1) have "r = s" by (auto simp: distinct_map inj_on_def)
    moreover from that(1) assms(3) have "g r \<in> Some ` set c" by auto
    moreover from that(2) obtain c' where "c' \<in> set cs" "s \<in> set rows" "P c' s" by auto
    then have "g s \<in> Some ` set c'" "c' \<in> set cs" using assms(3) by auto
    ultimately show False using Cons.prems by auto
  qed
  moreover have "distinct (map f (filter (P c) rows))" using assms(1) by (rule distinct_map_filter)
  ultimately show ?case using Cons by (auto simp del: set_concat set_filter)
qed simp

lemma index_version_rows_total:
  assumes "\<forall>v \<in> set vs. \<exists>oid ob. ov_object_id v = Some oid \<and> sel oid = Some ob \<and> ov_kind v = ''object'' \<and>
      ov_bucket v = oi_bucket ob \<and> ov_key v = oi_key ob"
    and "distinct (map ov_object_id vs)" "distinct (map ov_id vs)"
    and "\<forall>v \<in> set vs. \<forall>oid. ov_object_id v = Some oid \<longrightarrow> vbo oid = None"
  shows "\<exists>vbo' obv'. index_version_rows sel vs (vbo, obv) = Inr (vbo', obv') \<and>
    (\<forall>v \<in> set vs. vbo' (the (ov_object_id v)) = Some v \<and> map_of obv' (ov_id v) = ov_object_id v) \<and>
    (\<forall>i. i \<notin> ov_id ` set vs \<longrightarrow> map_of obv' i = map_of obv i) \<and>
    (\<forall>i. Some i \<notin> ov_object_id ` set vs \<longrightarrow> vbo' i = vbo i)"
  using assms
proof (induction vs arbitrary: vbo obv)
  case (Cons v vs)
  obtain oid ob where v: "ov_object_id v = Some oid" "sel oid = Some ob" "ov_kind v = ''object''"
    "ov_bucket v = oi_bucket ob" "ov_key v = oi_key ob" using Cons.prems(1) by auto
  let ?vbo = "vbo(oid \<mapsto> v)" and ?obv = "AList.update (ov_id v) oid obv"
  have free: "vbo oid = None" using Cons.prems(4) v(1) by simp
  have fresh: "\<forall>w \<in> set vs. \<forall>j. ov_object_id w = Some j \<longrightarrow> ?vbo j = None"
    using Cons.prems(2,4) v(1) by (auto simp: image_iff)
  have rest: "\<forall>v \<in> set vs. \<exists>oid ob. ov_object_id v = Some oid \<and> sel oid = Some ob \<and> ov_kind v = ''object'' \<and>
      ov_bucket v = oi_bucket ob \<and> ov_key v = oi_key ob" "distinct (map ov_object_id vs)" "distinct (map ov_id vs)"
    using Cons.prems(1-3) by simp_all
  from Cons.IH [OF rest fresh, of ?obv] obtain vbo' obv' where
    IH: "index_version_rows sel vs (?vbo, ?obv) = Inr (vbo', obv')"
    "\<forall>w \<in> set vs. vbo' (the (ov_object_id w)) = Some w \<and> map_of obv' (ov_id w) = ov_object_id w"
    "\<forall>i. i \<notin> ov_id ` set vs \<longrightarrow> map_of obv' i = map_of ?obv i"
    "\<forall>i. Some i \<notin> ov_object_id ` set vs \<longrightarrow> vbo' i = ?vbo i" by blast
  have "index_version_rows sel (v # vs) (vbo, obv) = Inr (vbo', obv')" using v free IH(1) by simp
  moreover have "vbo' oid = Some v" using IH(4) Cons.prems(2) v(1) by (auto simp: image_iff)
  moreover have "map_of obv' (ov_id v) = Some oid"
    using IH(3) Cons.prems(3) by (auto simp: update_conv')
  ultimately show ?case using IH(2-4) v(1) by (auto simp: update_conv')
qed simp
definition keyed_by_row :: "version_residency_model set \<Rightarrow> residency_map \<Rightarrow> bool" where
  "keyed_by_row S t \<longleftrightarrow> distinct (map fst t) \<and> (\<forall>(k, x) \<in> set t. x \<in> S \<and> k = vr_version_row_id x)"

lemma keyed_by_row_update:
  "keyed_by_row S t \<Longrightarrow> x \<in> S \<Longrightarrow> keyed_by_row S (AList.update (vr_version_row_id x) x t)"
proof -
  assume t: "keyed_by_row S t" and x: "x \<in> S"
  have "set (AList.update k v t) \<subseteq> insert (k, v) (set t)" for k and v :: version_residency_model
    by (induction t) auto
  from this [of "vr_version_row_id x" x] t x show ?thesis
    unfolding keyed_by_row_def by (auto intro!: distinct_update)
qed

lemma merge_residencies_total:
  assumes "inj_on vr_version_row_id S" "set xs \<subseteq> S" "keyed_by_row S t"
  shows "\<exists>t'. merge_residencies t xs = Inr t' \<and> keyed_by_row S t'"
  using assms(2,3)
proof (induction xs arbitrary: t)
  case (Cons x xs)
  have "\<not> (case map_of t (vr_version_row_id x) of Some existing \<Rightarrow> existing \<noteq> x | None \<Rightarrow> False)"
  proof (cases "map_of t (vr_version_row_id x)")
    case (Some y)
    from map_of_SomeD [OF this] Cons.prems have "y \<in> S" "vr_version_row_id y = vr_version_row_id x" "x \<in> S"
      by (auto simp: keyed_by_row_def)
    with assms(1) have "y = x" by (simp add: inj_on_def)
    with Some show ?thesis by simp
  qed simp
  moreover have "keyed_by_row S (AList.update (vr_version_row_id x) x t)"
    using Cons.prems by (simp add: keyed_by_row_update)
  ultimately show ?case using Cons by simp
qed simp

lemma merge_residency_chunks_total:
  assumes "inj_on vr_version_row_id (set (version_residencies d))" "keyed_by_row (set (version_residencies d)) t"
  shows "\<exists>t'. merge_residency_chunks column cs d t = Inr t' \<and> keyed_by_row (set (version_residencies d)) t'"
  using assms(2)
proof (induction cs arbitrary: t)
  case (Cons c cs)
  have "set (filter (\<lambda>x. column x \<in> set c) (version_residencies d)) \<subseteq> set (version_residencies d)" by simp
  from merge_residencies_total [OF assms(1) this Cons.prems] obtain u where
    "merge_residencies t (filter (\<lambda>x. column x \<in> set c) (version_residencies d)) = Inr u"
    "keyed_by_row (set (version_residencies d)) u" by blast
  with Cons.IH [of u] show ?case by simp
qed simp

lemma index_residencies_total:
  assumes "\<forall>x \<in> set xs. map_of obv (vr_version_row_id x) = Some (vr_object_id x) \<and> sel (vr_object_id x) \<noteq> None"
    and "distinct (map vr_object_id xs)" "\<forall>x \<in> set xs. map_of rbo (vr_object_id x) = None"
  shows "\<exists>rbo'. index_residencies sel obv xs rbo = Inr rbo'"
  using assms
proof (induction xs arbitrary: rbo)
  case (Cons x xs)
  have free: "\<forall>y \<in> set xs. map_of (AList.update (vr_object_id x) x rbo) (vr_object_id y) = None"
    using Cons.prems(2,3) by (auto simp: update_conv' image_iff)
  have rest: "\<forall>y \<in> set xs. map_of obv (vr_version_row_id y) = Some (vr_object_id y) \<and> sel (vr_object_id y) \<noteq> None"
    "distinct (map vr_object_id xs)" using Cons.prems(1,2) by simp_all
  from Cons.IH [OF rest free] Cons.prems show ?case by auto
qed simp

lemma index_physical_rows_append:
  "index_physical_rows (xs @ ys) m = bindR (index_physical_rows xs m) (index_physical_rows ys)"
  by (induction xs arbitrary: m) auto

lemma index_physical_chunks_concat:
  "index_physical_chunks cs d m =
     index_physical_rows (concat (map (\<lambda>c. filter (\<lambda>p. pr_cid p \<in> set c) (physical_residencies d)) cs)) m"
proof (induction cs arbitrary: m)
  case (Cons c cs)
  then have "index_physical_chunks cs d =
      index_physical_rows (concat (map (\<lambda>c. filter (\<lambda>p. pr_cid p \<in> set c) (physical_residencies d)) cs))" by blast
  then show ?case by (simp add: index_physical_rows_append)
qed simp

lemma index_physical_rows_total:
  assumes "distinct (map pr_pk ps)" "\<forall>p \<in> set ps. m (pr_pk p) = None"
  shows "\<exists>m'. index_physical_rows ps m = Inr m' \<and> (\<forall>p \<in> set ps. m' (pr_pk p) = Some p) \<and>
    (\<forall>k. k \<notin> pr_pk ` set ps \<longrightarrow> m' k = m k)"
  using assms
proof (induction ps arbitrary: m)
  case (Cons p ps)
  let ?m = "m(pr_pk p \<mapsto> p)"
  have free: "\<forall>q \<in> set ps. ?m (pr_pk q) = None" using Cons.prems by (auto simp: image_iff)
  have "distinct (map pr_pk ps)" using Cons.prems(1) by simp
  from Cons.IH [OF this free] obtain m' where m': "index_physical_rows ps ?m = Inr m'"
    "\<forall>q \<in> set ps. m' (pr_pk q) = Some q" "\<forall>k. k \<notin> pr_pk ` set ps \<longrightarrow> m' k = ?m k" by blast
  have "pr_pk p \<notin> pr_pk ` set ps" using Cons.prems(1) by simp
  then have "m' (pr_pk p) = Some p" using m'(3) by simp
  moreover have "m' k = m k" if "k \<notin> pr_pk ` set (p # ps)" for k
    using m'(3) [rule_format, of k] that by auto
  moreover have "index_physical_rows (p # ps) m = Inr m'" using Cons.prems(2) m'(1) by simp
  ultimately show ?case using m'(2) by simp
qed simp

lemma index_residencies_keys:
  "index_residencies sel obv xs rbo = Inr rbo' \<Longrightarrow> (\<forall>i x. map_of rbo i = Some x \<longrightarrow> vr_object_id x = i) \<Longrightarrow>
     map_of rbo' i = Some x \<Longrightarrow> vr_object_id x = i"
proof (induction xs arbitrary: rbo)
  case (Cons y ys)
  from Cons.prems(1) have step: "index_residencies sel obv ys (AList.update (vr_object_id y) y rbo) = Inr rbo'"
    by (auto simp: bindR_eq_Inr split: if_splits)
  have "\<forall>i x. map_of (AList.update (vr_object_id y) y rbo) i = Some x \<longrightarrow> vr_object_id x = i"
    using Cons.prems(2) by (simp add: update_conv')
  from Cons.IH [OF step this Cons.prems(3)] show ?case .
qed simp

section \<open>The lookup succeeds\<close>

lemma validate_physical_total:
  assumes "physical_checks p" "pr_tier p = tier_as_db_str t"
    and "t = Cold \<Longrightarrow> pr_verification_state p = ''verified'' \<and>
      validate_cold_receipt receipt_from_str cid_parse (pr_cid p) (pr_node_identity p) (pr_verification_receipt p) = Inr ()"
  shows "validate_physical receipt_from_str cid_parse p t = Inr ()"
proof -
  have t: "tier_from_db_str (pr_tier p) = Inr t" using assms(2) by (cases t) (simp_all add: tier_from_db_str_def)
  show ?thesis
  proof (cases "pr_verification_state p = ''verified''")
    case True
    with assms t show ?thesis
      by (auto simp: validate_physical_def verification_from_db_str_def nonempty_def physical_checks_def physical_shape_def)
  next
    case False
    with assms t show ?thesis
      by (auto simp: validate_physical_def verification_from_db_str_def physical_checks_def physical_shape_def)
  qed
qed

lemma residency_owner:
  assumes "residencies_ok d" "x \<in> set (version_residencies d)"
  obtains v where "v \<in> set (object_versions d)" "ov_id v = vr_version_row_id x" "ov_object_id v = Some (vr_object_id x)"
proof -
  have "(vr_version_row_id x, Some (vr_object_id x)) \<in> owners d"
    using assms by (simp add: residencies_ok_def residency_row_ok_def)
  then show thesis unfolding owners_def by (elim imageE) (simp add: that)
qed

lemma class_of_object_total:
  assumes ok: "store_ok up d" and sole: "sole_owners d" and cold: "cold_verified receipt_from_str cid_parse d"
    and ob: "ob \<in> set (objects d)" "sel (obj_id ob) = Some (identity_of ob)"
    and v: "\<And>v. vbo (obj_id ob) = Some v \<Longrightarrow> v \<in> set (object_versions d) \<and> ov_object_id v = Some (obj_id ob)"
    and x: "\<And>x. map_of rbo (obj_id ob) = Some x \<Longrightarrow> x \<in> set (version_residencies d) \<and> vr_object_id x = obj_id ob"
    and p: "\<And>x p. map_of rbo (obj_id ob) = Some x \<Longrightarrow> p \<in> set (physical_residencies d) \<Longrightarrow> pr_cid p = vr_cid x \<Longrightarrow>
        pbl (pr_pk p) = Some p"
  shows "\<exists>c. class_of_object receipt_from_str cid_parse sel vbo rbo pbl (obj_id ob) = Inr c"
proof (cases "vbo (obj_id ob)")
  case (Some w)
  note w = v [OF Some]
  show ?thesis
  proof (cases "map_of rbo (obj_id ob)")
    case (Some y)
    note y = x [OF Some]
    have res: "residencies_ok d" by (rule store_okD(4) [OF ok])
    obtain u where "u \<in> set (object_versions d)" "ov_id u = vr_version_row_id y" "ov_object_id u = Some (vr_object_id y)"
      using residency_owner [OF res conjunct1 [OF y]] by metis
    with w y sole have own: "ov_id w = vr_version_row_id y" by (auto simp: sole_owners_def)
    have row: "residency_row_ok (owners d) (contents d) (physical_residencies d) (residency_references d) y"
      using res y by (simp add: residencies_ok_def)
    from row y have "(obj_id ob, vr_cid y) \<in> contents d" by (simp add: residency_row_ok_def)
    then obtain ob' where "ob' \<in> set (objects d)" "obj_id ob' = obj_id ob" "obj_cid ob' = vr_cid y"
      unfolding contents_def by (elim imageE) simp
    with ob(1) store_okD(7) [OF ok] have cid: "vr_cid y = obj_cid ob" by (auto simp: distinct_map inj_on_def)
    obtain ob2 where "find_object (obj_id ob) (objects d) = Some ob2" "object_at (ov_bucket w) (ov_key w) ob2"
      using linked_object [OF ok _ conjunct2 [OF w]] w by metis
    with ob(1) store_okD(7) [OF ok] have at: "ov_bucket w = obj_bucket ob" "ov_key w = obj_key ob"
      by (auto simp: object_at_def obj.find_by_key)
    obtain t c where t: "vr_primary_tier y = tier_as_db_str t" "tier_from_db_str (vr_primary_tier y) = Inr t"
      "class_from_db_str (vr_storage_class y) = Inr c" "(t, c) \<in> {(Hot, Standard), (Cold, StandardIa)}" "0 < vr_revision y"
    proof -
      from row have "0 < vr_revision y"
        "(vr_primary_tier y, vr_storage_class y) \<in> {(''hot'', ''STANDARD''), (''cold'', ''STANDARD_IA'')}"
        by (simp_all add: residency_row_ok_def residency_checks_def)
      then show thesis
        using that [of Hot Standard] that [of Cold StandardIa]
        by (auto simp: tier_from_db_str_def class_from_db_str_def)
    qed
    from row have "(vr_primary_tier y, vr_cid y) \<in> pr_pk ` set (physical_residencies d)" by (simp add: residency_row_ok_def)
    then obtain q where q: "q \<in> set (physical_residencies d)" "pr_pk q = (vr_primary_tier y, vr_cid y)"
      by (elim imageE) simp
    have "physical_checks q" using res q(1) by (simp add: residencies_ok_def physical_ok_def)
    moreover have "pr_tier q = tier_as_db_str t" using q(2) t(1) by simp
    ultimately have val: "validate_physical receipt_from_str cid_parse q t = Inr ()"
      using cold q(1) by (intro validate_physical_total) (auto simp: cold_verified_def)
    have "pbl (vr_primary_tier y, vr_cid y) = Some q" using p [OF Some q(1)] q(2) by simp
    then show ?thesis using \<open>vbo (obj_id ob) = Some w\<close> Some ob(2) own y w cid at t val
      by (auto simp: class_of_object_def identity_of_def)
  qed (simp add: class_of_object_def Some)
qed (simp add: class_of_object_def)

lemma collect_classes_total:
  "\<forall>i \<in> set is. \<exists>c. f i = Inr c \<Longrightarrow> \<exists>m'. collect_classes f is m = Inr m'"
  by (induction "is" arbitrary: m) auto

text \<open>Version rows of the selected objects, in the order of the chunked queries.\<close>

definition chunk_versions :: "string list \<Rightarrow> db \<Rightarrow> object_version_model list" where
  "chunk_versions ids d =
     concat (map (\<lambda>c. filter (version_owned_in c) (object_versions d)) (chunks LOOKUP_CHUNK_SIZE ids))"

lemma lookup_chunk_pos: "0 < LOOKUP_CHUNK_SIZE"
  by (simp add: LOOKUP_CHUNK_SIZE_def)

lemma version_owned_in_iff: "version_owned_in c v \<longleftrightarrow> ov_object_id v \<in> Some ` set c"
  by (cases "ov_object_id v") (auto simp: version_owned_in_def)

lemma set_chunk_versions:
  "v \<in> set (chunk_versions ids d) \<longleftrightarrow> v \<in> set (object_versions d) \<and> ov_object_id v \<in> Some ` set ids"
proof -
  have "v \<in> set (chunk_versions ids d) \<longleftrightarrow>
      v \<in> set (object_versions d) \<and> ov_object_id v \<in> Some ` set (concat (chunks LOOKUP_CHUNK_SIZE ids))"
    by (auto simp: chunk_versions_def version_owned_in_iff)
  then show ?thesis by (simp add: concat_chunks lookup_chunk_pos)
qed

lemma distinct_chunk_versions:
  "distinct (map ov_id (object_versions d)) \<Longrightarrow> distinct ids \<Longrightarrow> distinct (map ov_id (chunk_versions ids d))"
  unfolding chunk_versions_def
  by (rule distinct_selected [where g = ov_object_id])
    (simp_all add: version_owned_in_iff concat_chunks lookup_chunk_pos)

lemma index_versions_total:
  assumes ok: "store_ok up d" and sole: "sole_owners d" and ids: "distinct ids" "set ids \<subseteq> obj_id ` set (objects d)"
    and sel: "\<And>ob. ob \<in> set (objects d) \<Longrightarrow> obj_id ob \<in> set ids \<Longrightarrow> sel (obj_id ob) = Some (identity_of ob)"
  obtains vbo obv where
    "index_version_chunks sel (chunks LOOKUP_CHUNK_SIZE ids) d (Map.empty, []) = Inr (vbo, obv)"
    "\<And>v. v \<in> set (chunk_versions ids d) \<Longrightarrow> map_of obv (ov_id v) = ov_object_id v"
    "\<And>i. i \<notin> ov_id ` set (chunk_versions ids d) \<Longrightarrow> map_of obv i = None"
    "\<And>i v. vbo i = Some v \<Longrightarrow> v \<in> set (object_versions d) \<and> ov_object_id v = Some i"
proof -
  let ?vs = "chunk_versions ids d"
  have rows: "\<forall>v \<in> set ?vs. \<exists>oid ob. ov_object_id v = Some oid \<and> sel oid = Some ob \<and> ov_kind v = ''object'' \<and>
      ov_bucket v = oi_bucket ob \<and> ov_key v = oi_key ob"
  proof
    fix v assume "v \<in> set ?vs"
    then obtain i where v: "v \<in> set (object_versions d)" "ov_object_id v = Some i" "i \<in> set ids"
      by (auto simp: set_chunk_versions)
    obtain ob where ob: "object_at (ov_bucket v) (ov_key v) ob" "obj_id ob = i" "ob \<in> set (objects d)"
      using linked_object [OF ok v(1,2)] by metis
    have "ov_kind v = ''object''" using store_okD(8) [OF ok v(1)] v(2) by (simp add: row_ok_def version_checks_def)
    with v ob sel [OF ob(3)] show "\<exists>oid ob. ov_object_id v = Some oid \<and> sel oid = Some ob \<and> ov_kind v = ''object'' \<and>
      ov_bucket v = oi_bucket ob \<and> ov_key v = oi_key ob" by (auto simp: identity_of_def object_at_def)
  qed
  have dist: "distinct (map ov_id ?vs)" by (rule distinct_chunk_versions [OF store_okD(6) [OF ok] ids(1)])
  have "inj_on ov_object_id (set ?vs)"
    using sole by (intro inj_onI) (auto simp: set_chunk_versions sole_owners_def)
  with dist have objs: "distinct (map ov_object_id ?vs)" by (simp add: distinct_map)
  from index_version_rows_total [where vbo = Map.empty and obv = "[]", OF rows objs dist] obtain vbo obv where
    ix: "index_version_rows sel ?vs (Map.empty, []) = Inr (vbo, obv)"
    "\<And>v. v \<in> set ?vs \<Longrightarrow> vbo (the (ov_object_id v)) = Some v \<and> map_of obv (ov_id v) = ov_object_id v"
    "\<And>i. i \<notin> ov_id ` set ?vs \<Longrightarrow> map_of obv i = None"
    "\<And>i. Some i \<notin> ov_object_id ` set ?vs \<Longrightarrow> vbo i = None" by auto
  show thesis
  proof (rule that [OF _ conjunct2 [OF ix(2)] ix(3)])
    show "index_version_chunks sel (chunks LOOKUP_CHUNK_SIZE ids) d (Map.empty, []) = Inr (vbo, obv)"
      using ix(1) by (simp add: index_version_chunks_concat chunk_versions_def)
    fix i v assume vbo: "vbo i = Some v"
    then have "Some i \<in> ov_object_id ` set ?vs" using ix(4) by (metis option.distinct(1))
    then obtain w where "w \<in> set ?vs" "ov_object_id w = Some i" by (elim imageE) simp
    with ix(2) [of w] vbo show "v \<in> set (object_versions d) \<and> ov_object_id v = Some i"
      by (simp add: set_chunk_versions)
  qed
qed

text \<open>The residency rows the two queries find belong to selected objects and their versions.\<close>

lemma lookup_residencies_total:
  assumes ok: "store_ok up d" and sole: "sole_owners d"
    and hash_order: "\<And>xs. set (hash_order xs) = set xs" "\<And>xs. distinct xs \<Longrightarrow> distinct (hash_order xs)"
    and sel: "\<And>i. i \<in> set ids \<Longrightarrow> sel i \<noteq> None"
    and obv: "\<And>v. v \<in> set (chunk_versions ids d) \<Longrightarrow> map_of obv (ov_id v) = ov_object_id v"
      "\<And>i. i \<notin> ov_id ` set (chunk_versions ids d) \<Longrightarrow> map_of obv i = None"
  obtains rbv1 rbv rbo where
    "merge_residency_chunks vr_object_id (chunks LOOKUP_CHUNK_SIZE ids) d [] = Inr rbv1"
    "merge_residency_chunks vr_version_row_id (chunks LOOKUP_CHUNK_SIZE (sort (map fst obv))) d rbv1 = Inr rbv"
    "index_residencies sel obv (hash_order (map snd rbv)) [] = Inr rbo"
    "\<And>i x. map_of rbo i = Some x \<Longrightarrow> x \<in> set (version_residencies d) \<and> vr_object_id x = i"
proof -
  let ?S = "set (version_residencies d)"
  have res: "residencies_ok d" by (rule store_okD(4) [OF ok])
  then have inj: "inj_on vr_version_row_id ?S" by (simp add: residencies_ok_def distinct_map)
  have empty: "keyed_by_row ?S []" by (simp add: keyed_by_row_def)
  from merge_residency_chunks_total [OF inj empty, of vr_object_id "chunks LOOKUP_CHUNK_SIZE ids"] obtain rbv1 where
    m1: "merge_residency_chunks vr_object_id (chunks LOOKUP_CHUNK_SIZE ids) d [] = Inr rbv1" "keyed_by_row ?S rbv1"
    by blast
  from merge_residency_chunks_total [OF inj m1(2), of vr_version_row_id "chunks LOOKUP_CHUNK_SIZE (sort (map fst obv))"]
  obtain rbv where m2:
    "merge_residency_chunks vr_version_row_id (chunks LOOKUP_CHUNK_SIZE (sort (map fst obv))) d rbv1 = Inr rbv"
    "keyed_by_row ?S rbv" by blast
  let ?ys = "hash_order (map snd rbv)"
  note e1 = merge_residency_chunks_Inr [OF m1(1), unfolded concat_chunks [OF lookup_chunk_pos]]
    and e2 = merge_residency_chunks_Inr [OF m2(1), unfolded concat_chunks [OF lookup_chunk_pos]]
  have vals: "x \<in> ?S \<and> (vr_object_id x \<in> set ids \<or> vr_version_row_id x \<in> fst ` set obv)" if "x \<in> set ?ys" for x
  proof -
    have "x \<in> snd ` set rbv" using that hash_order(1) by simp
    from subsetD [OF extends_byD(3) [OF e2] this] show ?thesis
    proof (rule UnE)
      assume "x \<in> snd ` set rbv1"
      from subsetD [OF extends_byD(3) [OF e1] this] show ?thesis by simp
    qed simp
  qed
  have owner: "map_of obv (vr_version_row_id x) = Some (vr_object_id x) \<and> sel (vr_object_id x) \<noteq> None"
    if x: "x \<in> set ?ys" for x
  proof -
    obtain v where v: "v \<in> set (object_versions d)" "ov_id v = vr_version_row_id x" "ov_object_id v = Some (vr_object_id x)"
      using residency_owner [OF res conjunct1 [OF vals [OF x]]] by metis
    have "v \<in> set (chunk_versions ids d)"
    proof (cases "vr_object_id x \<in> set ids")
      case True
      with v show ?thesis by (simp add: set_chunk_versions)
    next
      case False
      with vals [OF x] have "map_of obv (vr_version_row_id x) \<noteq> None" by (simp add: map_of_eq_None_iff)
      then have "vr_version_row_id x \<in> ov_id ` set (chunk_versions ids d)" using obv(2) by metis
      then obtain w where w: "w \<in> set (chunk_versions ids d)" "ov_id w = ov_id v" using v(2) by (elim imageE) simp
      then have "w = v" using v(1) store_okD(6) [OF ok] by (auto simp: set_chunk_versions distinct_map inj_on_def)
      with w show ?thesis by simp
    qed
    with v obv(1) [of v] sel show ?thesis by (auto simp: set_chunk_versions)
  qed
  have "map fst rbv = map vr_version_row_id (map snd rbv)"
    using m2(2) unfolding keyed_by_row_def by (auto simp: case_prod_beta)
  then have "distinct (map snd rbv)" using m2(2) unfolding keyed_by_row_def by (metis distinct_map)
  then have "distinct ?ys" by (rule hash_order(2))
  moreover have "x = y" if xy: "x \<in> set ?ys" "y \<in> set ?ys" "vr_object_id x = vr_object_id y" for x y
  proof -
    obtain v where v: "v \<in> set (object_versions d)" "ov_id v = vr_version_row_id x" "ov_object_id v = Some (vr_object_id x)"
      using residency_owner [OF res conjunct1 [OF vals [OF xy(1)]]] by metis
    obtain w where w: "w \<in> set (object_versions d)" "ov_id w = vr_version_row_id y" "ov_object_id w = Some (vr_object_id y)"
      using residency_owner [OF res conjunct1 [OF vals [OF xy(2)]]] by metis
    have "v = w" using sole v w xy(3) by (simp add: sole_owners_def)
    then show ?thesis using inj v w vals [OF xy(1)] vals [OF xy(2)] by (simp add: inj_on_def)
  qed
  ultimately have dist: "distinct (map vr_object_id ?ys)" by (simp add: distinct_map inj_on_def)
  from index_residencies_total [OF _ dist, of obv sel "[]"] owner obtain rbo where
    rbo: "index_residencies sel obv ?ys [] = Inr rbo" by auto
  show thesis
  proof (rule that [OF m1(1) m2(1) rbo])
    fix i x assume x: "map_of rbo i = Some x"
    from map_of_SomeD [OF x] have "x \<in> snd ` set rbo" by (rule image_eqI [rotated]) simp
    from subsetD [OF extends_byD(3) [OF index_residencies_Inr [OF rbo]] this] have "x \<in> set ?ys" by simp
    with vals [of x] index_residencies_keys [OF rbo _ x] show "x \<in> ?S \<and> vr_object_id x = i" by simp
  qed
qed

lemma classes_lookup_total:
  assumes ok: "store_ok up d" and sole: "sole_owners d" and cold: "cold_verified receipt_from_str cid_parse d"
    and hash_order: "\<And>xs. set (hash_order xs) = set xs" "\<And>xs. distinct xs \<Longrightarrow> distinct (hash_order xs)"
    and obs: "set obs \<subseteq> set (objects d)"
  shows "\<exists>classes. classes_for_objects receipt_from_str cid_parse hash_order obs d = Inr classes \<and>
           (\<forall>ob \<in> set obs. classes (obj_id ob) \<noteq> None)"
proof (cases "obs = []")
  case False
  let ?ids = "sort (remdups (map oi_id (map identity_of obs)))"
  have ids: "distinct ?ids" "set ?ids = obj_id ` set obs"
    by (simp_all add: identity_of_def image_image)
  let ?f = "\<lambda>i. identity_of (the (find_object i (objects d)))"
  have find: "?f (obj_id ob) = identity_of ob" if "ob \<in> set (objects d)" for ob
    using store_okD(7) [OF ok] that by (simp add: obj.find_by_key)
  have "\<forall>i \<in> set (map identity_of obs). ?f (oi_id i) = i" using find obs by (auto simp: identity_of_def)
  from select_objects_total [OF this, of Map.empty] obtain sel where
    sel: "select_objects (map identity_of obs) Map.empty = Inr sel"
    "\<And>i. sel i = (if i \<in> oi_id ` set (map identity_of obs) then Some (?f i) else None)" by auto
  have ids_sel: "oi_id ` set (map identity_of obs) = set ?ids" using ids(2) by (simp add: identity_of_def image_image)
  have sel_ob: "sel (obj_id ob) = Some (identity_of ob)" if "ob \<in> set (objects d)" "obj_id ob \<in> set ?ids" for ob
    using sel(2) [of "obj_id ob"] find [OF that(1)] that(2) unfolding ids_sel by simp
  have sub: "set ?ids \<subseteq> obj_id ` set (objects d)" using obs ids(2) by auto
  obtain vbo obv where
    ix: "index_version_chunks sel (chunks LOOKUP_CHUNK_SIZE ?ids) d (Map.empty, []) = Inr (vbo, obv)"
    and obv: "\<And>v. v \<in> set (chunk_versions ?ids d) \<Longrightarrow> map_of obv (ov_id v) = ov_object_id v"
      "\<And>i. i \<notin> ov_id ` set (chunk_versions ?ids d) \<Longrightarrow> map_of obv i = None"
    and vbo: "\<And>i v. vbo i = Some v \<Longrightarrow> v \<in> set (object_versions d) \<and> ov_object_id v = Some i"
  proof (rule index_versions_total [OF ok sole ids(1) sub])
    show "sel (obj_id ob) = Some (identity_of ob)" if "ob \<in> set (objects d)" "obj_id ob \<in> set ?ids" for ob
      by (rule sel_ob [OF that])
  qed (rule that)
  have sel_ids: "sel i \<noteq> None" if "i \<in> set ?ids" for i using sel(2) [of i] that unfolding ids_sel by simp
  obtain rbv1 rbv rbo where
    m1: "merge_residency_chunks vr_object_id (chunks LOOKUP_CHUNK_SIZE ?ids) d [] = Inr rbv1" and
    m2: "merge_residency_chunks vr_version_row_id (chunks LOOKUP_CHUNK_SIZE (sort (map fst obv))) d rbv1 = Inr rbv" and
    ir: "index_residencies sel obv (hash_order (map snd rbv)) [] = Inr rbo" and
    rbo: "\<And>i x. map_of rbo i = Some x \<Longrightarrow> x \<in> set (version_residencies d) \<and> vr_object_id x = i"
  proof (rule lookup_residencies_total [OF ok sole hash_order(1)])
    show "distinct (hash_order xs)" if "distinct xs" for xs by (rule hash_order(2) [OF that])
    show "sel i \<noteq> None" if "i \<in> set ?ids" for i by (rule sel_ids [OF that])
    show "map_of obv (ov_id v) = ov_object_id v" if "v \<in> set (chunk_versions ?ids d)" for v by (rule obv(1) [OF that])
    show "map_of obv i = None" if "i \<notin> ov_id ` set (chunk_versions ?ids d)" for i by (rule obv(2) [OF that])
  qed (rule that)
  let ?cids = "sort (remdups (map (vr_cid \<circ> snd) rbo))"
  let ?ps = "concat (map (\<lambda>c. filter (\<lambda>p. pr_cid p \<in> set c) (physical_residencies d)) (chunks LOOKUP_CHUNK_SIZE ?cids))"
  have "distinct (map pr_pk (physical_residencies d))"
    using store_okD(4) [OF ok] by (simp add: residencies_ok_def physical_ok_def)
  then have dist: "distinct (map pr_pk ?ps)"
    by (rule distinct_selected [where g = "\<lambda>p. Some (pr_cid p)"])
      (auto simp: concat_chunks lookup_chunk_pos)
  from index_physical_rows_total [OF dist, of Map.empty] obtain pbl where
    pbl: "index_physical_chunks (chunks LOOKUP_CHUNK_SIZE ?cids) d Map.empty = Inr pbl"
    "\<And>p. p \<in> set ?ps \<Longrightarrow> pbl (pr_pk p) = Some p" by (auto simp: index_physical_chunks_concat)
  have ps: "p \<in> set ?ps" if "map_of rbo i = Some x" "p \<in> set (physical_residencies d)" "pr_cid p = vr_cid x" for i x p
  proof -
    from map_of_SomeD [OF that(1)] have "vr_cid x \<in> set ?cids" by force
    then have "pr_cid p \<in> set (concat (chunks LOOKUP_CHUNK_SIZE ?cids))"
      using that(3) by (simp only: concat_chunks [OF lookup_chunk_pos])
    with that(2) show ?thesis by auto
  qed
  have "\<exists>c. class_of_object receipt_from_str cid_parse sel vbo rbo pbl i = Inr c" if "i \<in> set ?ids" for i
  proof -
    from subsetD [OF sub that] obtain ob where ob: "ob \<in> set (objects d)" "i = obj_id ob" by (elim imageE)
    show ?thesis unfolding ob(2)
    proof (rule class_of_object_total [OF ok sole cold ob(1)])
      show "sel (obj_id ob) = Some (identity_of ob)" by (rule sel_ob [OF ob(1)]) (use that ob(2) in simp)
      show "pbl (pr_pk p) = Some p"
        if "map_of rbo (obj_id ob) = Some x" "p \<in> set (physical_residencies d)" "pr_cid p = vr_cid x" for x p
        by (rule pbl(2) [OF ps [OF that]])
    qed (fact vbo, fact rbo)
  qed
  then obtain classes where
    cc: "collect_classes (class_of_object receipt_from_str cid_parse sel vbo rbo pbl) ?ids Map.empty = Inr classes"
    using collect_classes_total [of ?ids] by blast
  have "classes (obj_id ob) \<noteq> None" if "ob \<in> set obs" for ob
    using collect_classes_Inr [OF cc] that ids(2) by auto
  with False sel(1) ix m1 m2 ir pbl(1) cc show ?thesis
    by (simp add: classes_for_objects_def classes_in_snapshot_def Let_def)
qed (simp add: classes_for_objects_def)

text \<open>C23: On a consistent store in which every object has at most one content version and cold copies
  carry valid receipts, looking up the storage classes of stored objects never fails, whatever the
  number of objects and the iteration order of the hash map, and gives each object a class.\<close>

theorem classes_for_objects_total:
  assumes "store_ok up d" "sole_owners d" "cold_verified receipt_from_str cid_parse d"
    and "\<And>xs. set (hash_order xs) = set xs" "\<And>xs. distinct xs \<Longrightarrow> distinct (hash_order xs)"
    and "set obs \<subseteq> set (objects d)"
  shows "\<exists>classes. classes_for_objects receipt_from_str cid_parse hash_order obs d = Inr classes \<and>
           (\<forall>ob \<in> set obs. classes (obj_id ob) \<noteq> None)"
  by (rule classes_lookup_total [OF assms(1-4) _ assms(6)]) (rule assms(5))

theorem classes_for_objects_total_witness:
  "\<exists>classes. classes_for_objects (\<lambda>_. None) Some rev [sample_object, sample_object] sample_db = Inr classes \<and>
     classes ''o1'' \<noteq> None"
proof -
  have "sole_owners sample_db" "cold_verified (\<lambda>_. None) Some sample_db"
    by (simp_all add: sole_owners_def cold_verified_def new_hot_row.simps)
  from classes_for_objects_total [OF sample_store_ok this, of rev "[sample_object, sample_object]"]
  show ?thesis by simp
qed

end
