(* ===== verification/Version_Pages.thy ===== *)
theory Version_Pages
  imports Version_Listing Class_Lookup
begin

text \<open>
  Listing versions of a consistent store: the scans of \<open>Version_Listing\<close> return the rows from a
  cursor on, so a page presents the first groups of the requested versions and its next markers lead
  exactly to the rest.
\<close>

section \<open>The rows of a listing\<close>

definition listing_rows :: "(string \<Rightarrow> string \<Rightarrow> bool) \<Rightarrow> string \<Rightarrow> string \<Rightarrow> db \<Rightarrow> object_version_model list" where
  "listing_rows like b pfx d =
     sort_key version_order (filter (\<lambda>r. ov_bucket r = b \<and> like pfx (ov_key r)) (object_versions d))"

text \<open>The prefix condition of the query is a pattern. A prefix is taken literally in a bucket when the
  pattern selects there the keys that start with it and no others: \<^verbatim>\<open>%\<close> and \<^verbatim>\<open>_\<close> in the prefix
  are not escaped, and some databases compare letters without regard to case.\<close>

definition prefix_literal :: "(string \<Rightarrow> string \<Rightarrow> bool) \<Rightarrow> string \<Rightarrow> string \<Rightarrow> db \<Rightarrow> bool" where
  "prefix_literal like b pfx d \<longleftrightarrow>
     list_all (\<lambda>r. ov_bucket r = b \<longrightarrow> like pfx (ov_key r) = starts_with (ov_key r) pfx) (object_versions d)"

lemma listing_rows_literal:
  "prefix_literal like b pfx d \<Longrightarrow> listing_rows like b pfx d = listing_rows (\<lambda>p k. starts_with k p) b pfx d"
  unfolding listing_rows_def by (rule arg_cong [where f = "sort_key version_order"], rule filter_cong)
    (auto simp: prefix_literal_def list_all_iff)

abbreviation place :: "object_version_model \<Rightarrow> string \<times> int" where
  "place r \<equiv> (ov_key r, - ov_sequence r)"

lemma place_inj:
  assumes "index_ok d" "r \<in> set (object_versions d)" "s \<in> set (object_versions d)"
    and "ov_bucket r = ov_bucket s" "place r = place s"
  shows "r = s"
proof -
  have "history_ok (history (ov_bucket s) (ov_key s) d)" using assms(1) by (simp add: index_ok_iff)
  moreover have "r \<in> set (history (ov_bucket s) (ov_key s) d)" "s \<in> set (history (ov_bucket s) (ov_key s) d)"
    using assms by (auto simp: historyD at_key_def)
  ultimately show ?thesis using assms(5) by (auto simp: history_ok_def)
qed

lemma sorted_key_less:
  assumes "sorted (map f xs)" "distinct xs" "\<And>x y. x \<in> set xs \<Longrightarrow> y \<in> set xs \<Longrightarrow> g x = g y \<Longrightarrow> x = y"
    and "\<And>x y. x \<in> set xs \<Longrightarrow> y \<in> set xs \<Longrightarrow> f x \<le> f y \<Longrightarrow> g x \<le> (g y :: 'b :: linorder)"
  shows "sorted_wrt (<) (map g xs)"
proof -
  have "sorted (map g xs)"
    using assms(1,4) unfolding sorted_map by (rule sorted_wrt_mono_rel [rotated]) auto
  moreover have "distinct (map g xs)" using assms(2,3) by (auto simp: distinct_map inj_on_def)
  ultimately show ?thesis by (simp add: strict_sorted_iff)
qed

lemma listing_rows_sorted:
  assumes "index_ok d"
  shows "sorted_wrt (<) (map place (listing_rows like b pfx d))"
proof (rule sorted_key_less)
  show "sorted (map version_order (listing_rows like b pfx d))" by (simp add: listing_rows_def)
  have "distinct (object_versions d)" using assms by (simp add: index_ok_def distinct_map)
  then show "distinct (listing_rows like b pfx d)" by (simp add: listing_rows_def)
  show "r = s" if "r \<in> set (listing_rows like b pfx d)" "s \<in> set (listing_rows like b pfx d)" "place r = place s" for r s
    using place_inj [OF assms, of r s] that by (simp add: listing_rows_def)
  show "place r \<le> place s" if "version_order r \<le> version_order s" for r s
    using that by (auto simp: version_order_def)
qed

text \<open>The cursor of a stored row admits exactly the rows from its place on.\<close>

definition row_cursor :: "object_version_model \<Rightarrow> version_cursor" where
  "row_cursor r = \<lparr>vc_key = ov_key r, vc_sequence = ov_sequence r, vc_public_version_id = public_or_null r\<rparr>"

lemma version_cursor_of_row [simp]: "version_cursor_of (resolved_as d r) = row_cursor r"
  by (simp add: version_cursor_of_def resolved_as_def row_cursor_def)

lemma from_cursor_row:
  assumes ok: "store_ok up d" and r: "r \<in> set (object_versions d)"
  obtains after where "from_cursor up (Some (row_cursor r)) = Inr after"
    "\<And>s. s \<in> set (object_versions d) \<Longrightarrow> ov_bucket s = ov_bucket r \<Longrightarrow> after s \<longleftrightarrow> place r \<le> place s"
proof -
  have row: "row_ok up (map bucket_name (buckets d)) r" by (rule store_okD(8) [OF ok r])
  then have "ov_sequence r \<noteq> KEY_BOUNDARY_SEQUENCE"
    by (simp add: row_ok_def KEY_BOUNDARY_SEQUENCE_def i64_min_def)
  then have nb: "\<not> is_key_boundary (row_cursor r)" by (simp add: is_key_boundary_def row_cursor_def)
  have same: "s = r" if "s \<in> set (object_versions d)" "ov_bucket s = ov_bucket r" "ov_key s = ov_key r"
    "ov_sequence s = ov_sequence r" for s
    using place_inj [OF store_okD(2) [OF ok] that(1) r] that by simp
  show thesis
  proof (cases "ov_version_id r")
    case None
    let ?after = "\<lambda>s. ov_key s > ov_key r \<or> ov_key s = ov_key r \<and>
        (ov_sequence s < ov_sequence r \<or> ov_sequence s = ov_sequence r \<and> ov_version_id s = None)"
    have "from_cursor up (Some (row_cursor r)) = Inr ?after"
      using nb None by (simp add: from_cursor_def row_cursor_def public_or_null_def)
    then show thesis
    proof (rule that)
      fix s assume "s \<in> set (object_versions d)" "ov_bucket s = ov_bucket r"
      with same [of s] None show "?after s \<longleftrightarrow> place r \<le> place s" by auto
    qed
  next
    case (Some v)
    let ?after = "\<lambda>s. ov_key s > ov_key r \<or> ov_key s = ov_key r \<and>
        (ov_sequence s < ov_sequence r \<or> ov_sequence s = ov_sequence r \<and>
          (case ov_version_id s of Some i \<Rightarrow> i \<ge> as_s3_str (Opaque v) | None \<Rightarrow> False))"
    have "from_cursor up (Some (row_cursor r)) = Inr ?after"
      using nb Some row by (simp add: from_cursor_def row_cursor_def public_or_null_def row_ok_def parse_s3_def)
    then show thesis
    proof (rule that)
      fix s assume "s \<in> set (object_versions d)" "ov_bucket s = ov_bucket r"
      with same [of s] Some show "?after s \<longleftrightarrow> place r \<le> place s" by auto
    qed
  qed
qed

lemma from_cursor_row_iff:
  assumes ok: "store_ok up d" and r: "r \<in> set (object_versions d)"
    and a: "from_cursor up (Some (row_cursor r)) = Inr after"
    and s: "s \<in> set (object_versions d)" "ov_bucket s = ov_bucket r"
  shows "after s \<longleftrightarrow> place r \<le> place s"
proof (rule from_cursor_row [OF ok r])
  fix after'
  assume "from_cursor up (Some (row_cursor r)) = Inr after'"
    and iff: "\<And>s. s \<in> set (object_versions d) \<Longrightarrow> ov_bucket s = ov_bucket r \<Longrightarrow> after' s \<longleftrightarrow> place r \<le> place s"
  with a have "after' = after" by simp
  with iff [OF s] show ?thesis by simp
qed

lemma from_cursor_row_ex:
  assumes "store_ok up d" "r \<in> set (object_versions d)"
  shows "\<exists>after. from_cursor up (Some (row_cursor r)) = Inr after"
  by (rule from_cursor_row [OF assms]) simp

text \<open>A cursor that a request can carry: none, a key to continue after, or a stored version.\<close>

definition request_cursor :: "string \<Rightarrow> db \<Rightarrow> version_cursor option \<Rightarrow> bool" where
  "request_cursor b d c \<longleftrightarrow>
     c = None \<or> (\<exists>k. c = Some (key_boundary_cursor k)) \<or>
     (\<exists>r \<in> set (object_versions d). ov_bucket r = b \<and> c = Some (row_cursor r))"

lemma map_err_eq_Inr: "(case s of Inl _ \<Rightarrow> Inl e | Inr p \<Rightarrow> Inr p) = Inr q \<longleftrightarrow> s = Inr q"
  by (cases s) auto

lemma validate_request_cursor:
  assumes ok: "store_ok up d" and v: "validate_version_cursor up b pfx km vm d = Inr c"
  shows "request_cursor b d c"
proof (cases "km = None \<or> vm = None")
  case True
  then show ?thesis using v
    by (cases km; cases vm) (auto simp: validate_version_cursor_def bindR_eq_Inr request_cursor_def)
next
  case False
  then obtain k m where "km = Some k" "vm = Some m" by auto
  with v obtain p r q where r: "one_version up b k (Exact p) d = Inr (Some r)" "public_version_id_of up r = Inr q"
    "c = Some \<lparr>vc_key = ov_key r, vc_sequence = ov_sequence r, vc_public_version_id = as_s3_str q\<rparr>"
    by (auto simp: validate_version_cursor_def bindR_eq_Inr map_err_eq_Inr simp del: one_version.simps split: if_splits)
  from r(1) have m: "r \<in> set (object_versions d)" "ov_bucket r = b"
    by (auto simp: bindR_eq_Inr at_key_def dest!: one_row_SomeD)
  have "as_s3_str q = public_or_null r"
    using public_version_id_ok [OF store_okD(8) [OF ok m(1)]] r(2) by auto
  with r(3) m show ?thesis unfolding request_cursor_def row_cursor_def by blast
qed

lemma request_cursor_after:
  assumes "store_ok up d" "request_cursor b d c"
  shows "\<exists>after. from_cursor up c = Inr after"
  using assms(2) unfolding request_cursor_def
proof (elim disjE exE bexE conjE)
  fix q assume "q \<in> set (object_versions d)" "c = Some (row_cursor q)"
  then show ?thesis using from_cursor_row_ex [OF assms(1), of q] by simp
qed (simp_all add: from_cursor_def key_boundary_cursor_def is_key_boundary_def)

text \<open>The filter of such a cursor is closed under later places, and starts at the cursor's row.\<close>

lemma request_cursor_closed:
  assumes ok: "store_ok up d" and c: "request_cursor b d c" and a: "from_cursor up c = Inr after"
    and r: "r \<in> set (object_versions d)" "ov_bucket r = b" and s: "s \<in> set (object_versions d)" "ov_bucket s = b"
    and le: "after r" "place r \<le> place s"
  shows "after s"
  using c unfolding request_cursor_def
proof (elim disjE exE bexE conjE)
  assume "c = None"
  with a show ?thesis by (auto simp: from_cursor_def)
next
  fix k assume k: "c = Some (key_boundary_cursor k)"
  have "after = (\<lambda>r. ov_key r > k)"
    using a by (simp add: k from_cursor_def key_boundary_cursor_def is_key_boundary_def)
  with le show ?thesis by auto
next
  fix q assume q: "q \<in> set (object_versions d)" "ov_bucket q = b" "c = Some (row_cursor q)"
  then have "from_cursor up (Some (row_cursor q)) = Inr after" using a by simp
  from from_cursor_row_iff [OF ok q(1) this] r s q(2) le order_trans [of "place q" "place r" "place s"]
  show ?thesis by simp
qed

lemma request_cursor_first:
  assumes ok: "store_ok up d" and a: "from_cursor up (Some (row_cursor r)) = Inr after"
    and "r \<in> set (object_versions d)" "s \<in> set (object_versions d)" "ov_bucket r = b" "ov_bucket s = b" "after s"
  shows "place r \<le> place s"
  using from_cursor_row_iff [OF ok assms(3) a assms(4)] assms by simp

text \<open>The requested versions: the rows of the listing that the cursor admits, resolved.\<close>

definition requested_versions ::
  "uuid_parser \<Rightarrow> (string \<Rightarrow> string \<Rightarrow> bool) \<Rightarrow> string \<Rightarrow> string \<Rightarrow> version_cursor option \<Rightarrow> db \<Rightarrow> resolved_version list" where
  "requested_versions up like b pfx c d =
     (case from_cursor up c of
        Inl _ \<Rightarrow> [] | Inr after \<Rightarrow> map (resolved_as d) (filter after (listing_rows like b pfx d)))"

lemma scan_versions_ok:
  assumes ok: "store_ok up d" and st: "get_versioning_state b d = Inr state" "state \<noteq> Unversioned"
    and "from_cursor up c = Inr after" "0 < n"
  shows "scan_versions up like b pfx c n d = Inr (take n (requested_versions up like b pfx c d))"
proof -
  let ?rows = "filter after (listing_rows like b pfx d)"
  have rows: "sort_key version_order (filter (\<lambda>r. ov_bucket r = b \<and> like pfx (ov_key r) \<and> after r) (object_versions d)) = ?rows"
    by (simp add: listing_rows_def filter_sort conj_commute conj_left_commute)
  have "resolved_from_row up r False d = Inr (resolved_as d r)" if "r \<in> set (take n ?rows)" for r
    by (rule resolved_from_row_ok [OF ok]) (use set_take_subset [of n ?rows] that in \<open>auto simp: listing_rows_def\<close>)
  then have "traverse_list (\<lambda>r. resolved_from_row up r False d) (take n ?rows) = Inr (map (resolved_as d) (take n ?rows))"
    by (rule traverse_list_map_Inr)
  then show ?thesis using assms unfolding scan_versions_def requested_versions_def
    by (simp add: rows take_map)
qed

lemma filter_from_place:
  assumes "sorted_wrt (<) (map f (xs @ x # ys))"
  shows "filter (\<lambda>y. f x \<le> (f y :: 'b :: linorder)) (xs @ x # ys) = x # ys"
proof -
  have "filter (\<lambda>y. f x \<le> f y) xs = []" "filter (\<lambda>y. f x \<le> f y) ys = ys"
    using assms by (auto simp: sorted_wrt_append filter_empty_conv filter_id_conv)
  then show ?thesis by simp
qed

lemma rows_from_cursor:
  assumes ok: "store_ok up d" and c: "request_cursor b d c" and a: "from_cursor up c = Inr after"
    and rows: "filter after (listing_rows like b pfx d) = xs @ r # ys"
  shows "r \<in> set (object_versions d)" "ov_bucket r = b"
    "requested_versions up like b pfx (Some (row_cursor r)) d = map (resolved_as d) (r # ys)"
proof -
  let ?L = "listing_rows like b pfx d"
  have "r \<in> set (filter after ?L)" using rows by simp
  then show r: "r \<in> set (object_versions d)" "ov_bucket r = b" by (simp_all add: listing_rows_def)
  obtain from_r where f: "from_cursor up (Some (row_cursor r)) = Inr from_r"
    using from_cursor_row_ex [OF ok r(1)] by blast
  from \<open>r \<in> set (filter after ?L)\<close> have "after r" by simp
  then have up: "after s" if "s \<in> set ?L" "place r \<le> place s" for s
    using request_cursor_closed [OF ok c a r, of s] that by (simp add: listing_rows_def)
  have "filter from_r ?L = filter (\<lambda>s. place r \<le> place s) ?L"
    by (rule filter_cong) (use from_cursor_row_iff [OF ok r(1) f] r in \<open>simp_all add: listing_rows_def\<close>)
  also have "\<dots> = filter (\<lambda>s. place r \<le> place s) (filter after ?L)"
    using up by (auto intro!: filter_cong)
  also have "\<dots> = r # ys"
    unfolding rows
  proof (rule filter_from_place)
    have "sorted_wrt (<) (map place ?L)" by (rule listing_rows_sorted [OF store_okD(2) [OF ok]])
    then have "sorted_wrt (<) (map place (filter after ?L))" by (simp add: sorted_wrt_map sorted_wrt_filter)
    then show "sorted_wrt (<) (map place (xs @ r # ys))" by (simp add: rows)
  qed
  finally show "requested_versions up like b pfx (Some (row_cursor r)) d = map (resolved_as d) (r # ys)"
    by (simp add: requested_versions_def f)
qed

definition classes_total :: "(object_model list \<Rightarrow> db \<Rightarrow> (string \<rightharpoonup> storage_class) app_result) \<Rightarrow> db \<Rightarrow> bool" where
  "classes_total classes_of d \<longleftrightarrow>
     (\<forall>obs. set obs \<subseteq> set (objects d) \<longrightarrow>
        (\<exists>classes. classes_of obs d = Inr classes \<and> (\<forall>ob \<in> set obs. classes (obj_id ob) \<noteq> None)))"

lemma resolved_object:
  assumes ok: "store_ok up d" and r: "r \<in> set (object_versions d)"
  shows "case rv_object (resolved_as d r) of
           None \<Rightarrow> rv_kind (resolved_as d r) = DeleteMarkerKind
         | Some ob \<Rightarrow> rv_kind (resolved_as d r) = ObjectKind \<and> ob \<in> set (objects d)"
proof (cases "ov_object_id r")
  case (Some i)
  then obtain ob where "find_object i (objects d) = Some ob" "ob \<in> set (objects d)"
    using linked_object [OF ok r] by metis
  with Some show ?thesis by (simp add: resolved_as_def)
qed (simp add: resolved_as_def)

lemma rows_listable:
  assumes ok: "store_ok up d" and cls: "classes_total classes_of d"
    and rows: "\<And>v. v \<in> set vs \<Longrightarrow> \<exists>r \<in> set (object_versions d). v = resolved_as d r"
  shows "\<exists>classes. classes_of (List.map_filter rv_object vs) d = Inr classes \<and> list_all (listable classes) vs"
proof -
  have obj: "case rv_object v of None \<Rightarrow> rv_kind v = DeleteMarkerKind
      | Some ob \<Rightarrow> rv_kind v = ObjectKind \<and> ob \<in> set (objects d)" if "v \<in> set vs" for v
    using rows [OF that] resolved_object [OF ok] by auto
  then have "set (List.map_filter rv_object vs) \<subseteq> set (objects d)"
    by (fastforce simp: map_filter_def split: option.splits)
  with cls obtain classes where c: "classes_of (List.map_filter rv_object vs) d = Inr classes"
    "\<forall>ob \<in> set (List.map_filter rv_object vs). classes (obj_id ob) \<noteq> None"
    unfolding classes_total_def by blast
  have "listable classes v" if v: "v \<in> set vs" for v
  proof (cases "rv_object v")
    case (Some ob)
    then have "ob \<in> set (List.map_filter rv_object vs)" using v by (force simp: map_filter_def)
    with c(2) obj [OF v] Some show ?thesis by (simp add: listable_def)
  qed (use obj [OF v] in \<open>simp add: listable_def\<close>)
  with c(1) show ?thesis by (auto simp: list_all_iff)
qed

lemma version_source_store:
  assumes ok: "store_ok up d" and st: "get_versioning_state b d = Inr state" "state \<noteq> Unversioned"
    and c: "request_cursor b d c" and cls: "classes_total classes_of d" and n: "0 < n"
  shows "version_source (\<lambda>c. scan_versions up like b pfx c n d) (\<lambda>obs. classes_of obs d) n c
           (requested_versions up like b pfx c d)"
proof -
  obtain after where a: "from_cursor up c = Inr after" using request_cursor_after [OF ok c] by blast
  let ?R = "filter after (listing_rows like b pfx d)"
  have rows: "requested_versions up like b pfx c d = map (resolved_as d) ?R" by (simp add: requested_versions_def a)
  have R: "r \<in> set (object_versions d) \<and> ov_bucket r = b \<and> after r" if "r \<in> set ?R" for r
    using that by (simp add: listing_rows_def)
  have srt: "sorted_wrt (<) (map place ?R)"
    using listing_rows_sorted [OF store_okD(2) [OF ok], of like b pfx] by (simp add: sorted_wrt_map sorted_wrt_filter)
  have split: "\<exists>xs' r ys'. ?R = xs' @ r # ys' \<and> v = resolved_as d r \<and> ys = map (resolved_as d) ys' \<and>
      xs = map (resolved_as d) xs'" if "map (resolved_as d) ?R = xs @ v # ys" for xs v ys
    using that by (auto simp: map_eq_append_conv map_eq_Cons_conv)
  show ?thesis
    unfolding version_source_def rows
  proof (intro conjI allI impI)
    show "scan_versions up like b pfx c n d = Inr (take n (map (resolved_as d) ?R))"
      using scan_versions_ok [OF ok st a n, of like pfx] rows by simp
  next
    fix xs v ys assume "map (resolved_as d) ?R = xs @ v # ys"
    from split [OF this] obtain xs' r ys' where s: "?R = xs' @ r # ys'" "v = resolved_as d r" "ys = map (resolved_as d) ys'"
      by blast
    note r = rows_from_cursor [OF ok c a s(1)]
    obtain from_r where "from_cursor up (Some (row_cursor r)) = Inr from_r" using from_cursor_row_ex [OF ok r(1)] by blast
    from scan_versions_ok [OF ok st this n, of like pfx] r(3) s
    show "scan_versions up like b pfx (Some (version_cursor_of v)) n d = Inr (take n (v # ys))" by simp
  next
    have "distinct (map place ?R)" using srt by (simp add: strict_sorted_iff)
    then have "distinct (map row_cursor ?R)"
      by (auto simp: distinct_map inj_on_def row_cursor_def)
    then show "distinct (map version_cursor_of (map (resolved_as d) ?R))" by (simp add: comp_def)
  next
    fix xs v ys assume "map (resolved_as d) ?R = xs @ v # ys \<and> c = Some (version_cursor_of v)"
    with split [of xs v ys] obtain xs' r ys' where s: "?R = xs' @ r # ys'" "v = resolved_as d r" "xs = map (resolved_as d) xs'"
      "c = Some (row_cursor r)" by auto
    have False if "q \<in> set xs'" for q
    proof -
      have "q \<in> set ?R" "r \<in> set ?R" using s(1) that by simp_all
      with R [of q] R [of r] request_cursor_first [OF ok, of r after q b] a s(4) have "place r \<le> place q" by simp
      moreover have "place q < place r" using srt s(1) that by (simp add: sorted_wrt_append)
      ultimately show False by auto
    qed
    with s(3) show "xs = []" by (cases xs') auto
  next
    fix vs :: "resolved_version list" assume sub: "set vs \<subseteq> set (map (resolved_as d) ?R)"
    have "\<exists>r \<in> set (object_versions d). v = resolved_as d r" if "v \<in> set vs" for v
    proof -
      have "v \<in> resolved_as d ` set ?R" using subsetD [OF sub that] by (simp only: set_map)
      then obtain r where r: "r \<in> set ?R" "v = resolved_as d r" by (elim imageE)
      from R [OF r(1)] r(2) show ?thesis by (intro bexI [of _ r]) simp_all
    qed
    from rows_listable [OF ok cls this]
    show "\<exists>classes. classes_of (List.map_filter rv_object vs) d = Inr classes \<and> list_all (listable classes) vs" by blast
  qed
qed

section \<open>Pages of a consistent store\<close>

lemma classes_for_objects_classes_total:
  assumes "store_ok up d" "sole_owners d" "cold_verified receipt_from_str cid_parse d"
    and "\<And>xs. set (hash_order xs) = set xs" "\<And>xs. distinct xs \<Longrightarrow> distinct (hash_order xs)"
  shows "classes_total (classes_for_objects receipt_from_str cid_parse hash_order) d"
  unfolding classes_total_def using classes_lookup_total [OF assms(1-4) _] assms(5) by blast

definition version_groups ::
  "uuid_parser \<Rightarrow> (string \<Rightarrow> string \<Rightarrow> bool) \<Rightarrow> string \<Rightarrow> string \<Rightarrow> string option \<Rightarrow> version_cursor option \<Rightarrow> db \<Rightarrow>
   resolved_version listing_group list" where
  "version_groups up like b pfx dl c d = groups (resolved_prefix pfx dl) (requested_versions up like b pfx c d)"

lemma hd_groups: "hd (group_rows (hd (groups cp (v # vs)))) = v"
proof -
  obtain g gs where g: "groups cp (v # vs) = g # gs" using groups_ne [of "v # vs" cp] by (cases "groups cp (v # vs)") auto
  then have "group_rows g \<noteq> []" using groups_ok [of g cp "v # vs"] by (simp add: group_ok_def)
  with g group_rows_groups [of cp "v # vs"] show ?thesis by (cases "group_rows g") auto
qed

lemma version_page_of_spec:
  assumes "version_page_of pfx dl mk ue rows page"
  shows "presents ue (take mk (groups (resolved_prefix pfx dl) rows)) page \<and>
    (case vp_next_cursor page of
       None \<Rightarrow> length (groups (resolved_prefix pfx dl) rows) \<le> mk
     | Some c \<Rightarrow> \<exists>zs v us. rows = zs @ v # us \<and> c = version_cursor_of v \<and>
         length (groups (resolved_prefix pfx dl) zs) = mk \<and>
         groups (resolved_prefix pfx dl) (v # us) = drop mk (groups (resolved_prefix pfx dl) rows))"
  using assms unfolding version_page_of_def
proof (elim disjE exE conjE)
  fix zs v us
  assume "rows = zs @ v # us" "presents ue (groups (resolved_prefix pfx dl) zs) page"
    "vp_next_cursor page = Some (version_cursor_of v)" "length (groups (resolved_prefix pfx dl) zs) = mk"
    "\<not> joins (resolved_prefix pfx dl) zs v"
  moreover from this have "groups (resolved_prefix pfx dl) rows =
      groups (resolved_prefix pfx dl) zs @ groups (resolved_prefix pfx dl) (v # us)" by (simp add: groups_append_new)
  ultimately show ?thesis by auto
qed simp

lemma build_version_page_ok:
  assumes ok: "store_ok up d" and st: "get_versioning_state b d = Inr state" "state \<noteq> Unversioned"
    and c: "request_cursor b d c" and cls: "classes_total classes_of d"
  shows "\<exists>page. build_version_listing_page up like classes_of b pfx dl c mk ue d = Some (Inr page) \<and>
    version_page_of pfx dl mk ue (requested_versions up like b pfx c d) page"
proof -
  have n: "0 < VERSION_SCAN_BATCH_SIZE" "1 < VERSION_SCAN_BATCH_SIZE" by (simp_all add: VERSION_SCAN_BATCH_SIZE_def)
  have "version_state_ok pfx dl ue [] \<lparr>vs_page = empty_version_page, vs_output_count = 0,
      vs_active_common_prefix = None, vs_skip_internal_cursor = False, vs_last_scanned = None\<rparr>"
    by (simp add: version_state_ok_def presents_def empty_version_page_def map_filter_def)
  from version_paging_ok [OF version_source_store [OF ok st c cls n(1), of like pfx] n(2) this, of mk] show ?thesis
    by (simp add: build_version_listing_page_def)
qed

text \<open>On a consistent store, listing versions of a versioned bucket with valid markers never fails
  and always ends, however many scans it takes. The page presents the first \<^verbatim>\<open>max-keys\<close> groups of
  the requested versions, newest first within a key, and its next cursor, present exactly when there
  are more, is the first version that is not on the page.\<close>

theorem build_version_listing_page_spec:
  assumes "store_ok up d" "sole_owners d" "cold_verified receipt_from_str cid_parse d"
    and "\<And>xs. set (hash_order xs) = set xs" "\<And>xs. distinct xs \<Longrightarrow> distinct (hash_order xs)"
    and "get_versioning_state b d = Inr state" "state \<noteq> Unversioned"
    and "validate_version_cursor up b pfx km vm d = Inr c"
  shows "\<exists>page. build_version_listing_page up like (classes_for_objects receipt_from_str cid_parse hash_order)
      b pfx dl c mk ue d = Some (Inr page) \<and>
    presents ue (take mk (version_groups up like b pfx dl c d)) page \<and>
    vp_next_cursor page =
      (if mk < length (version_groups up like b pfx dl c d)
       then Some (version_cursor_of (hd (group_rows (version_groups up like b pfx dl c d ! mk)))) else None)"
proof -
  have cls: "classes_total (classes_for_objects receipt_from_str cid_parse hash_order) d"
    by (rule classes_for_objects_classes_total [OF assms(1-4)]) (rule assms(5))
  from build_version_page_ok [OF assms(1,6,7) validate_request_cursor [OF assms(1,8)] cls, of like pfx dl mk ue]
  obtain page where page: "build_version_listing_page up like (classes_for_objects receipt_from_str cid_parse hash_order)
      b pfx dl c mk ue d = Some (Inr page)"
    "version_page_of pfx dl mk ue (requested_versions up like b pfx c d) page" by blast
  have "vp_next_cursor page = (if mk < length (version_groups up like b pfx dl c d)
       then Some (version_cursor_of (hd (group_rows (version_groups up like b pfx dl c d ! mk)))) else None)"
  proof (cases "vp_next_cursor page")
    case (Some cur)
    with version_page_of_spec [OF page(2)] obtain zs v us where z:
      "requested_versions up like b pfx c d = zs @ v # us" "cur = version_cursor_of v"
      "groups (resolved_prefix pfx dl) (v # us) = drop mk (version_groups up like b pfx dl c d)"
      by (auto simp: version_groups_def)
    have more: "mk < length (version_groups up like b pfx dl c d)"
      using groups_ne [of "v # us" "resolved_prefix pfx dl"] z(3) by simp
    then have "version_groups up like b pfx dl c d ! mk = hd (groups (resolved_prefix pfx dl) (v # us))"
      by (simp add: z(3) hd_drop_conv_nth)
    with Some z(2) more hd_groups [of "resolved_prefix pfx dl" v us] show ?thesis by simp
  qed (use version_page_of_spec [OF page(2)] in \<open>simp add: version_groups_def\<close>)
  with page version_page_of_spec [OF page(2)] show ?thesis by (auto simp: version_groups_def)
qed

section \<open>Following the markers\<close>

lemma validate_row_markers:
  assumes ok: "store_ok up d" and st: "get_versioning_state b d = Inr state" "state \<noteq> Unversioned"
    and r: "r \<in> set (object_versions d)" "ov_bucket r = b" and pfx: "starts_with (ov_key r) pfx"
  shows "validate_version_cursor up b pfx (Some (ov_key r)) (Some (public_or_null r)) d = Inr (Some (row_cursor r))"
proof -
  have row: "row_ok up (map bucket_name (buckets d)) r" by (rule store_okD(8) [OF ok r(1)])
  obtain p where p: "public_version_id_of up r = Inr p" "as_s3_str p = public_or_null r"
    using public_version_id_ok [OF row] by blast
  then have parse: "parse_s3 up (public_or_null r) = Inr p"
    using row by (cases "ov_version_id r") (auto simp: public_version_id_of_def public_or_null_def row_ok_def parse_s3_def)
  have "selector_db_value up p = Inr (ov_version_id r)"
    using p(1) row by (cases "ov_version_id r") (auto simp: public_version_id_of_def row_ok_def parse_s3_def)
  moreover have "r \<in> set (history b (ov_key r) d)" using r by (simp add: historyD at_key_def)
  ultimately have "one_version up b (ov_key r) (Exact p) d = Inr (Some r)"
    using one_row_exact [OF store_okD(2) [OF ok]] by simp
  then show ?thesis using st pfx parse p
    by (simp add: validate_version_cursor_def row_cursor_def del: one_version.simps)
qed

text \<open>A client that sends the next markers of each truncated response.\<close>

fun follow_versions ::
  "nat \<Rightarrow> (list_object_versions_input \<Rightarrow> list_object_versions_output app_result option) \<Rightarrow>
   list_object_versions_input \<Rightarrow> list_object_versions_output list option" where
  "follow_versions 0 request inp = None"
| "follow_versions (Suc n) request inp =
     (case request inp of
        Some (Inr out) \<Rightarrow>
          if lvo_is_truncated out
          then map_option (\<lambda>outs. out # outs)
                 (follow_versions n request (inp\<lparr>lvi_key_marker := lvo_next_key_marker out,
                    lvi_version_id_marker := lvo_next_version_id_marker out\<rparr>))
          else Some [out]
      | _ \<Rightarrow> None)"

definition all_of :: "('o \<Rightarrow> 'a list option) \<Rightarrow> 'o list \<Rightarrow> 'a list" where
  "all_of f outs = concat (map (\<lambda>out. case f out of None \<Rightarrow> [] | Some xs \<Rightarrow> xs) outs)"

definition outputs_present :: "resolved_version listing_group list \<Rightarrow> list_object_versions_output list \<Rightarrow> bool" where
  "outputs_present gs outs \<longleftrightarrow>
     map without_class (all_of lvo_versions outs) = List.map_filter (version_entry False) gs \<and>
     all_of lvo_delete_markers outs = List.map_filter (marker_entry False) gs \<and>
     all_of lvo_common_prefixes outs = List.map_filter group_prefix gs"

lemma map_filter_append: "List.map_filter f (xs @ ys) = List.map_filter f xs @ List.map_filter f ys"
  by (simp add: map_filter_def)

lemma some_unless_empty_elems: "(case some_unless_empty xs of None \<Rightarrow> [] | Some ys \<Rightarrow> ys) = xs"
  by (simp add: some_unless_empty_def)

definition version_output_of ::
  "list_object_versions_input \<Rightarrow> version_listing_page \<Rightarrow> list_object_versions_output \<Rightarrow> bool" where
  "version_output_of inp page out \<longleftrightarrow>
     lvo_versions out = some_unless_empty (vp_versions page) \<and>
     lvo_delete_markers out = some_unless_empty (vp_delete_markers page) \<and>
     lvo_common_prefixes out = some_unless_empty (vp_common_prefixes page) \<and>
     (lvo_is_truncated out \<longleftrightarrow> vp_next_cursor page \<noteq> None) \<and>
     lvo_next_key_marker out = map_option vc_key (vp_next_cursor page) \<and>
     lvo_next_version_id_marker out = map_option vc_public_version_id (vp_next_cursor page)"

lemma outputs_present_Cons:
  assumes "version_output_of inp page out" "presents False gs page" "outputs_present hs outs"
  shows "outputs_present (gs @ hs) (out # outs)"
  using assms
  by (simp add: outputs_present_def version_output_of_def presents_def all_of_def some_unless_empty_elems
      map_filter_append project_listing_field_def)

lemma outputs_present_one:
  "version_output_of inp page out \<Longrightarrow> presents False gs page \<Longrightarrow> outputs_present gs [out]"
  using outputs_present_Cons [of inp page out gs "[]" "[]"] by (simp add: outputs_present_def all_of_def map_filter_def)

lemma list_object_versions_page:
  assumes ok: "store_ok up d" and cls: "classes_total classes_of d"
    and st: "get_versioning_state (li_bucket inp) d = Inr state" "state \<noteq> Unversioned"
    and enc: "li_encoding_type inp = None"
    and c: "validate_version_cursor up (li_bucket inp) (unwrap_or_default (li_prefix inp)) (lvi_key_marker inp)
      (lvi_version_id_marker inp) d = Inr c"
  shows "\<exists>page out. list_object_versions up like classes_of inp d = Some (Inr out) \<and> version_output_of inp page out \<and>
    version_page_of (unwrap_or_default (li_prefix inp)) (li_delimiter inp) (normalized_max_keys (li_max_keys inp)) False
      (requested_versions up like (li_bucket inp) (unwrap_or_default (li_prefix inp)) c d) page"
proof -
  from build_version_page_ok [OF ok st validate_request_cursor [OF ok c] cls, of like "unwrap_or_default (li_prefix inp)"
      "li_delimiter inp" "normalized_max_keys (li_max_keys inp)" False]
  obtain page where "build_version_listing_page up like classes_of (li_bucket inp) (unwrap_or_default (li_prefix inp))
      (li_delimiter inp) c (normalized_max_keys (li_max_keys inp)) False d = Some (Inr page)"
    "version_page_of (unwrap_or_default (li_prefix inp)) (li_delimiter inp) (normalized_max_keys (li_max_keys inp)) False
      (requested_versions up like (li_bucket inp) (unwrap_or_default (li_prefix inp)) c d) page" by blast
  with st c enc show ?thesis
    by (auto simp: list_object_versions_def Let_def url_encoding_requested_def version_output_of_def
        project_listing_field_def comp_def)
qed

lemma max_keys_pos: "0 < normalized_max_keys v"
  by (simp add: normalized_max_keys_def)

text \<open>The row behind a next cursor, and what a request from it is about.\<close>

lemma next_cursor_rows:
  assumes ok: "store_ok up d" and c: "request_cursor b d c"
    and rows: "requested_versions up like b pfx c d = zs @ v # us"
  obtains r where "r \<in> set (object_versions d)" "ov_bucket r = b" "like pfx (ov_key r)" "version_cursor_of v = row_cursor r"
    "requested_versions up like b pfx (Some (row_cursor r)) d = v # us"
proof -
  obtain after where a: "from_cursor up c = Inr after" using request_cursor_after [OF ok c] by blast
  have "map (resolved_as d) (filter after (listing_rows like b pfx d)) = zs @ v # us"
    using rows by (simp add: requested_versions_def a)
  then obtain xs r ys where R: "filter after (listing_rows like b pfx d) = xs @ r # ys" "v = resolved_as d r"
    "us = map (resolved_as d) ys" by (auto simp: map_eq_append_conv map_eq_Cons_conv)
  note r = rows_from_cursor [OF ok c a R(1)]
  have "r \<in> set (filter after (listing_rows like b pfx d))" using R(1) by simp
  then have "like pfx (ov_key r)" by (simp add: listing_rows_def)
  then show thesis using r R by (intro that [of r]) simp_all
qed

lemma follow_versions_groups:
  assumes ok: "store_ok up d" and cls: "classes_total classes_of d"
    and like: "prefix_literal like (li_bucket inp) (unwrap_or_default (li_prefix inp)) d"
    and st: "get_versioning_state (li_bucket inp) d = Inr state" "state \<noteq> Unversioned"
    and enc: "li_encoding_type inp = None"
    and c: "validate_version_cursor up (li_bucket inp) (unwrap_or_default (li_prefix inp)) km vm d = Inr c"
    and n: "length (version_groups up like (li_bucket inp) (unwrap_or_default (li_prefix inp)) (li_delimiter inp) c d) \<le> n"
  shows "\<exists>outs. follow_versions (Suc n) (\<lambda>i. list_object_versions up like classes_of i d)
      (inp\<lparr>lvi_key_marker := km, lvi_version_id_marker := vm\<rparr>) = Some outs \<and>
    outputs_present (version_groups up like (li_bucket inp) (unwrap_or_default (li_prefix inp)) (li_delimiter inp) c d) outs"
  using c n
proof (induction n arbitrary: km vm c)
  case 0
  let ?inp = "inp\<lparr>lvi_key_marker := km, lvi_version_id_marker := vm\<rparr>"
  from list_object_versions_page [of up d classes_of ?inp state c like] ok cls st enc "0.prems"(1) obtain page out where
    p: "list_object_versions up like classes_of ?inp d = Some (Inr out)" "version_output_of ?inp page out"
    "version_page_of (unwrap_or_default (li_prefix inp)) (li_delimiter inp) (normalized_max_keys (li_max_keys inp)) False
      (requested_versions up like (li_bucket inp) (unwrap_or_default (li_prefix inp)) c d) page" by auto
  note spec = version_page_of_spec [OF p(3)]
  have "vp_next_cursor page = None"
    using spec "0.prems"(2) groups_ne by (auto simp: version_groups_def split: option.splits)
  with spec p(1,2) show ?case
    using outputs_present_one [OF p(2)] by (auto simp: version_groups_def version_output_of_def)
next
  case (Suc n)
  let ?inp = "inp\<lparr>lvi_key_marker := km, lvi_version_id_marker := vm\<rparr>"
  let ?b = "li_bucket inp" and ?pfx = "unwrap_or_default (li_prefix inp)" and ?mk = "normalized_max_keys (li_max_keys inp)"
  let ?gs = "version_groups up like ?b ?pfx (li_delimiter inp) c d"
  from list_object_versions_page [of up d classes_of ?inp state c like] ok cls st enc Suc.prems(1) obtain page out where
    p: "list_object_versions up like classes_of ?inp d = Some (Inr out)" "version_output_of ?inp page out"
    "version_page_of ?pfx (li_delimiter inp) ?mk False (requested_versions up like ?b ?pfx c d) page" by auto
  note spec = version_page_of_spec [OF p(3)]
  show ?case
  proof (cases "vp_next_cursor page")
    case None
    with spec p(1,2) show ?thesis
      using outputs_present_one [OF p(2)] by (auto simp: version_groups_def version_output_of_def)
  next
    case (Some cur)
    with spec obtain zs v us where z: "requested_versions up like ?b ?pfx c d = zs @ v # us" "cur = version_cursor_of v"
      "groups (resolved_prefix ?pfx (li_delimiter inp)) (v # us) = drop ?mk ?gs" by (auto simp: version_groups_def)
    obtain r where r: "r \<in> set (object_versions d)" "ov_bucket r = ?b" "like ?pfx (ov_key r)" "version_cursor_of v = row_cursor r"
      "requested_versions up like ?b ?pfx (Some (row_cursor r)) d = v # us"
      by (rule next_cursor_rows [OF ok validate_request_cursor [OF ok Suc.prems(1)] z(1)])
    have val: "validate_version_cursor up ?b ?pfx (Some (ov_key r)) (Some (public_or_null r)) d = Inr (Some (row_cursor r))"
      using like r(1-3) by (intro validate_row_markers [OF ok st r(1,2)]) (auto simp: prefix_literal_def list_all_iff)
    have gs: "version_groups up like ?b ?pfx (li_delimiter inp) (Some (row_cursor r)) d = drop ?mk ?gs"
      using r(5) z(3) by (simp add: version_groups_def)
    have "length (drop ?mk ?gs) \<le> n" using Suc.prems(2) max_keys_pos [of "li_max_keys inp"] by auto
    with Suc.IH [OF val] gs obtain outs where o: "follow_versions (Suc n) (\<lambda>i. list_object_versions up like classes_of i d)
        (inp\<lparr>lvi_key_marker := Some (ov_key r), lvi_version_id_marker := Some (public_or_null r)\<rparr>) = Some outs"
      "outputs_present (drop ?mk ?gs) outs" by auto
    have next_markers: "lvo_is_truncated out" "lvo_next_key_marker out = Some (ov_key r)"
      "lvo_next_version_id_marker out = Some (public_or_null r)"
      using p(2) Some z(2) r(4) by (simp_all add: version_output_of_def row_cursor_def)
    have "follow_versions (Suc (Suc n)) (\<lambda>i. list_object_versions up like classes_of i d) ?inp = Some (out # outs)"
      by (subst follow_versions.simps) (simp add: p(1) next_markers o(1) del: follow_versions.simps)
    moreover have "outputs_present (take ?mk ?gs @ drop ?mk ?gs) (out # outs)"
      unfolding version_groups_def
      by (rule outputs_present_Cons [OF p(2) conjunct1 [OF spec] o(2) [unfolded version_groups_def]])
    ultimately show ?thesis by (simp del: follow_versions.simps)
  qed
qed

text \<open>C19: Take a consistent store in which every object belongs to at most one content version and every
  cold copy carries a valid receipt, a versioned bucket, and a prefix that the query takes literally in
  that bucket. A client that lists the versions from the start, without an encoding type, and sends
  back the next markers of each truncated response reaches the end without an error. The responses
  together present every version of the bucket whose key starts with the prefix exactly once: keys in
  order, newest version first, versions under a common prefix as one entry, and no common prefix twice.\<close>

theorem version_pages_complete:
  assumes "store_ok up d" "sole_owners d" "cold_verified receipt_from_str cid_parse d"
    and "\<And>xs. set (hash_order xs) = set xs" "\<And>xs. distinct xs \<Longrightarrow> distinct (hash_order xs)"
    and "prefix_literal like (li_bucket inp) (unwrap_or_default (li_prefix inp)) d"
    and "get_versioning_state (li_bucket inp) d = Inr state" "state \<noteq> Unversioned"
    and "li_encoding_type inp = None" "lvi_key_marker inp = None" "lvi_version_id_marker inp = None"
  shows "\<exists>n outs gs. follow_versions n
      (\<lambda>i. list_object_versions up like (classes_for_objects receipt_from_str cid_parse hash_order) i d) inp = Some outs \<and>
    outputs_present gs outs \<and>
    concat (map group_rows gs) = map (resolved_as d) (listing_rows (\<lambda>p k. starts_with k p) (li_bucket inp)
      (unwrap_or_default (li_prefix inp)) d) \<and>
    list_all (group_ok (resolved_prefix (unwrap_or_default (li_prefix inp)) (li_delimiter inp))) gs \<and>
    distinct (List.map_filter group_prefix gs)"
proof -
  let ?b = "li_bucket inp" and ?pfx = "unwrap_or_default (li_prefix inp)"
  let ?gs = "version_groups up like ?b ?pfx (li_delimiter inp) None d"
  have cls: "classes_total (classes_for_objects receipt_from_str cid_parse hash_order) d"
    by (rule classes_for_objects_classes_total [OF assms(1-4)]) (rule assms(5))
  have v: "validate_version_cursor up ?b ?pfx None None d = Inr None"
    using assms(7) by (simp add: validate_version_cursor_def)
  have rows: "requested_versions up like ?b ?pfx None d = map (resolved_as d) (listing_rows like ?b ?pfx d)"
    by (simp add: requested_versions_def from_cursor_def)
  have inp: "inp\<lparr>lvi_key_marker := None, lvi_version_id_marker := None\<rparr> = inp" using assms(10,11) by simp
  from follow_versions_groups [OF assms(1) cls assms(6-9) v le_refl] obtain outs where
    "follow_versions (Suc (length ?gs))
      (\<lambda>i. list_object_versions up like (classes_for_objects receipt_from_str cid_parse hash_order) i d) inp = Some outs"
    "outputs_present ?gs outs" unfolding inp by blast
  moreover have "concat (map group_rows ?gs) = map (resolved_as d) (listing_rows like ?b ?pfx d)"
    by (simp add: version_groups_def group_rows_groups rows)
  moreover have "list_all (group_ok (resolved_prefix ?pfx (li_delimiter inp))) ?gs"
    by (simp add: version_groups_def list_all_iff groups_ok)
  moreover have "sorted (map rv_key (map (resolved_as d) (listing_rows like ?b ?pfx d)))"
  proof -
    have "sorted_wrt (<) (map place (listing_rows like ?b ?pfx d))"
      by (rule listing_rows_sorted [OF store_okD(2) [OF assms(1)]])
    then have "sorted_wrt (\<lambda>r s. ov_key r \<le> ov_key s) (listing_rows like ?b ?pfx d)"
      unfolding sorted_wrt_map by (rule sorted_wrt_mono_rel [rotated]) auto
    then show ?thesis by (simp add: sorted_map sorted_wrt_map resolved_as_def comp_def)
  qed
  then have "distinct (List.map_filter group_prefix ?gs)"
    unfolding version_groups_def rows resolved_prefix_def [abs_def]
    by (intro groups_distinct_prefixes sorted_contiguous)
  ultimately show ?thesis unfolding listing_rows_literal [OF assms(6), symmetric] by blast
qed

section \<open>The sample store\<close>

lemma sample_listable:
  "sole_owners sample_db" "cold_verified (\<lambda>_. None) Some sample_db" "get_versioning_state ''b'' sample_db = Inr Enabled"
  by (simp_all add: sole_owners_def cold_verified_def new_hot_row.simps get_versioning_state_def bucket_get_def
      find_bucket_def one_row_def versioning_from_db_value_def)

theorem build_version_listing_page_spec_witness:
  "\<exists>page. build_version_listing_page Some (\<lambda>p k. starts_with k p) (classes_for_objects (\<lambda>_. None) Some rev)
     ''b'' [] None (Some (row_cursor sample_version)) 1 False sample_db = Some (Inr page) \<and> vp_next_cursor page = None \<and>
     map ovd_version_id (vp_versions page) = [''null'']"
proof -
  let ?like = "\<lambda>p k. starts_with k p"
  have c: "validate_version_cursor Some ''b'' [] (Some ''k'') (Some ''null'') sample_db = Inr (Some (row_cursor sample_version))"
    using validate_row_markers [OF sample_store_ok sample_listable(3), of sample_version "[]"]
    by (simp add: public_or_null_def NULL_VERSION_ID_def)
  have gs: "version_groups Some ?like ''b'' [] None (Some (row_cursor sample_version)) sample_db =
      [One (resolved_as sample_db sample_version)]"
    by (simp add: version_groups_def requested_versions_def from_cursor_def is_key_boundary_def row_cursor_def
        KEY_BOUNDARY_SEQUENCE_def i64_min_def public_or_null_def listing_rows_def groups_def add_row_def
        resolved_prefix_def common_prefix_for_key_def)
  have "resolved_as sample_db sample_version = (resolved_as sample_db sample_version)\<lparr>rv_object := Some sample_object\<rparr>"
    by (simp add: resolved_as_def find_object_def one_row_def)
  then have ob: "rv_object (resolved_as sample_db sample_version) = Some sample_object"
    by (metis resolved_version.select_convs(5) resolved_version.surjective resolved_version.update_convs(5))
  from build_version_listing_page_spec [OF sample_store_ok sample_listable(1,2) _ _ sample_listable(3) _ c,
      of rev ?like None 1 False]
  obtain page where page: "build_version_listing_page Some ?like (classes_for_objects (\<lambda>_. None) Some rev)
     ''b'' [] None (Some (row_cursor sample_version)) 1 False sample_db = Some (Inr page)" "vp_next_cursor page = None"
    "presents False [One (resolved_as sample_db sample_version)] page" by (auto simp: gs)
  from page(3) have "map ovd_version_id (map without_class (vp_versions page)) = [''null'']"
    unfolding presents_def by (simp add: map_filter_def ob) (simp add: resolved_as_def public_or_null_def NULL_VERSION_ID_def)
  then have "map ovd_version_id (vp_versions page) = [''null'']" by (simp add: without_class_def comp_def)
  with page(1,2) show ?thesis by (intro exI [of _ page] conjI)
qed

text \<open>A pattern in the manner of SQLite for one-byte characters: \<^verbatim>\<open>%\<close> stands for any characters,
  \<^verbatim>\<open>_\<close> for one, and letters are compared without regard to case.\<close>

fun like_match :: "string \<Rightarrow> string \<Rightarrow> bool" where
  "like_match [] k = (k = [])"
| "like_match (p # ps) [] = (p = CHR ''%'' \<and> like_match ps [])"
| "like_match (p # ps) (c # k) =
     (if p = CHR ''%'' then like_match ps (c # k) \<or> like_match (p # ps) k
      else (p = CHR ''_'' \<or> to_ascii_lowercase [p] = to_ascii_lowercase [c]) \<and> like_match ps k)"

definition versions_inp :: list_object_versions_input where
  "versions_inp = \<lparr>li_bucket = ''b'', li_prefix = Some ''k'', li_delimiter = Some ''/'', li_marker = None,
     li_encoding_type = None, li_max_keys = Some 1, lvi_key_marker = None, lvi_version_id_marker = None\<rparr>"

theorem version_pages_complete_witness:
  "\<exists>n outs gs. follow_versions n (\<lambda>i. list_object_versions Some (\<lambda>p. like_match (p @ ''%''))
       (classes_for_objects (\<lambda>_. None) Some rev) i sample_db) versions_inp = Some outs \<and>
     outputs_present gs outs \<and> concat (map group_rows gs) = [resolved_as sample_db sample_version]"
proof -
  have "listing_rows (\<lambda>p k. starts_with k p) ''b'' ''k'' sample_db = [sample_version]"
    by (simp add: listing_rows_def)
  moreover have "prefix_literal (\<lambda>p. like_match (p @ ''%'')) ''b'' ''k'' sample_db"
    by (simp add: prefix_literal_def)
  ultimately show ?thesis
    using version_pages_complete [OF sample_store_ok sample_listable(1,2), of rev "\<lambda>p. like_match (p @ ''%'')" versions_inp Enabled]
      sample_listable(3)
    by (simp add: versions_inp_def unwrap_or_default_def) blast
qed

end
