(* ===== verification/Lifecycle_Config.thy ===== *)
theory Lifecycle_Config
  imports Object_Tags
begin

text \<open>
  Lifecycle configurations (src/src/lifecycle/model.rs, filter.rs, config.rs): the canonical rules the
  store keeps, their validation, canonicalization of the S3 request, projection back to S3 and the
  match of a rule's selector. The S3 data types of the s3s crate are the records \<open>s3_*\<close> with the
  fields the code uses. An S3 timestamp is opaque: \<open>ts_parse\<close> renders it as RFC 3339 and parses the
  instant, and \<open>ts_of\<close> makes the timestamp of an instant. Serializing a configuration to JSON and
  back is serde's, with the arguments \<open>to_json\<close> and \<open>of_json\<close>.
\<close>

section \<open>Canonical rules\<close>

datatype canonical_tag = CanonicalTag (ct_key: string) (ct_value: string)

text \<open>The derived order of tags: by key, then by value.\<close>

instantiation canonical_tag :: linorder
begin

definition less_eq_canonical_tag :: "canonical_tag \<Rightarrow> canonical_tag \<Rightarrow> bool" where
  "less_eq_canonical_tag a b \<longleftrightarrow> (ct_key a, ct_value a) \<le> (ct_key b, ct_value b)"

definition less_canonical_tag :: "canonical_tag \<Rightarrow> canonical_tag \<Rightarrow> bool" where
  "less_canonical_tag a b \<longleftrightarrow> (ct_key a, ct_value a) < (ct_key b, ct_value b)"

instance
proof
  fix a b c :: canonical_tag
  show "a < b \<longleftrightarrow> a \<le> b \<and> \<not> b \<le> a"
    unfolding less_eq_canonical_tag_def less_canonical_tag_def by (simp only: less_le_not_le)
  show "a \<le> a"
    unfolding less_eq_canonical_tag_def by simp
  show "a \<le> c" if "a \<le> b" "b \<le> c"
    using that unfolding less_eq_canonical_tag_def by (rule order_trans)
  show "a = b" if "a \<le> b" "b \<le> a"
    using order_antisym [OF that [unfolded less_eq_canonical_tag_def]] by (simp add: canonical_tag.expand)
  show "a \<le> b \<or> b \<le> a"
    unfolding less_eq_canonical_tag_def by (rule linear)
qed

end

datatype lifecycle_rule_status = RuleEnabled | RuleDisabled

datatype canonical_filter =
    FAll
  | FPrefix string
  | FTag canonical_tag
  | FObjectSizeGreaterThan int
  | FObjectSizeLessThan int
  | FAnd "string option" "canonical_tag list" "int option" "int option"

datatype canonical_rule_selector = LegacyPrefix string | Modern canonical_filter

datatype current_expiration = ExpirationDate datetime | ExpirationDays nat | ExpiredObjectDeleteMarker

record noncurrent_expiration =
  ne_noncurrent_days :: nat
  ne_newer_noncurrent_versions :: "nat option"

datatype current_transition = TransitionDate datetime | TransitionDays nat

record noncurrent_transition =
  nt_noncurrent_days :: nat
  nt_newer_noncurrent_versions :: "nat option"

record abort_incomplete_multipart_upload_action =
  ab_days_after_initiation :: nat

record canonical_lifecycle_rule =
  clr_id :: "string option"
  clr_status :: lifecycle_rule_status
  clr_selector :: canonical_rule_selector
  clr_expiration :: "current_expiration option"
  clr_noncurrent_version_expiration :: "noncurrent_expiration option"
  clr_transition :: "current_transition option"
  clr_noncurrent_version_transition :: "noncurrent_transition option"
  clr_abort :: "abort_incomplete_multipart_upload_action option"

record canonical_lifecycle_configuration =
  clc_schema_version :: nat
  clc_rules :: "canonical_lifecycle_rule list"

section \<open>Matching\<close>

definition tag_matches :: "canonical_tag \<Rightarrow> object_tag list \<Rightarrow> bool" where
  "tag_matches expected tags \<longleftrightarrow> list_ex (\<lambda>t. t_key t = ct_key expected \<and> t_value t = ct_value expected) tags"

definition bounds_match :: "int \<Rightarrow> int option \<Rightarrow> int option \<Rightarrow> bool" where
  "bounds_match bytes gt lt \<longleftrightarrow>
     (case gt of None \<Rightarrow> True | Some b \<Rightarrow> bytes > b) \<and> (case lt of None \<Rightarrow> True | Some b \<Rightarrow> bytes < b)"

fun matches_modern_filter :: "canonical_filter \<Rightarrow> string \<Rightarrow> int \<Rightarrow> object_tag list \<Rightarrow> bool" where
  "matches_modern_filter FAll key bytes tags = True"
| "matches_modern_filter (FPrefix p) key bytes tags = starts_with key p"
| "matches_modern_filter (FTag t) key bytes tags = tag_matches t tags"
| "matches_modern_filter (FObjectSizeGreaterThan n) key bytes tags = (bytes > n)"
| "matches_modern_filter (FObjectSizeLessThan n) key bytes tags = (bytes < n)"
| "matches_modern_filter (FAnd p ts gt lt) key bytes tags =
     ((case p of None \<Rightarrow> True | Some q \<Rightarrow> starts_with key q) \<and> list_all (\<lambda>t. tag_matches t tags) ts \<and>
      bounds_match bytes gt lt)"

fun matches_filter :: "canonical_rule_selector \<Rightarrow> string \<Rightarrow> int \<Rightarrow> object_tag list \<Rightarrow> bool" where
  "matches_filter (LegacyPrefix p) key bytes tags = starts_with key p"
| "matches_filter (Modern f) key bytes tags = matches_modern_filter f key bytes tags"

section \<open>Validation\<close>

definition SCHEMA_VERSION :: nat where "SCHEMA_VERSION = 1"

definition invalid :: "string \<Rightarrow> app_error" where
  "invalid msg = InvalidLifecycleConfiguration msg"

definition check :: "string \<Rightarrow> bool \<Rightarrow> unit app_result" where
  "check msg ok = (if ok then Inr () else Inl (invalid msg))"

definition day_ns :: int where "day_ns = 86400000000000"

definition utc_midnight :: "datetime \<Rightarrow> bool" where
  "utc_midnight t \<longleftrightarrow> t mod day_ns = 0"

fun selector_has_tag_filter :: "canonical_rule_selector \<Rightarrow> bool" where
  "selector_has_tag_filter (Modern (FTag t)) = True"
| "selector_has_tag_filter (Modern (FAnd p ts gt lt)) = (ts \<noteq> [])"
| "selector_has_tag_filter _ = False"

fun is_modern :: "canonical_rule_selector \<Rightarrow> bool" where
  "is_modern (Modern f) = True"
| "is_modern (LegacyPrefix p) = False"

definition nonnegative_size :: "int \<Rightarrow> int app_result" where
  "nonnegative_size bytes =
     (if bytes < 0 then Inl (invalid ''lifecycle object size must be nonnegative'') else Inr bytes)"

definition sizes_ordered :: "int option \<Rightarrow> int option \<Rightarrow> bool" where
  "sizes_ordered lower upper \<longleftrightarrow> (case (lower, upper) of (Some l, Some u) \<Rightarrow> l < u | _ \<Rightarrow> True)"

text \<open>The slice method \<^verbatim>\<open>windows(2)\<close>: every pair of neighbours.\<close>

definition windows2 :: "'a list \<Rightarrow> ('a \<times> 'a) list" where
  "windows2 xs = zip xs (tl xs)"

fun validate_filter :: "canonical_filter \<Rightarrow> unit app_result" where
  "validate_filter (FObjectSizeGreaterThan n) = bindR (nonnegative_size n) (\<lambda>_. Inr ())"
| "validate_filter (FObjectSizeLessThan n) = bindR (nonnegative_size n) (\<lambda>_. Inr ())"
| "validate_filter (FAnd p ts gt lt) =
     bindR (traverse_option nonnegative_size gt) (\<lambda>_.
     bindR (traverse_option nonnegative_size lt) (\<lambda>_.
     bindR (check ''lifecycle And size bounds must be ordered'' (sizes_ordered gt lt)) (\<lambda>_.
     bindR (check ''lifecycle And tags must be sorted'' (\<not> list_ex (\<lambda>(a, b). a > b) (windows2 ts))) (\<lambda>_.
     check ''lifecycle And tag keys must be distinct'' (distinct (map ct_key ts))))))"
| "validate_filter _ = Inr ()"

fun validate_canonical_selector :: "canonical_rule_selector \<Rightarrow> unit app_result" where
  "validate_canonical_selector (LegacyPrefix p) = Inr ()"
| "validate_canonical_selector (Modern f) = validate_filter f"

definition validate_noncurrent_thresholds ::
  "nat \<Rightarrow> nat option \<Rightarrow> canonical_rule_selector \<Rightarrow> string \<Rightarrow> unit app_result" where
  "validate_noncurrent_thresholds days newer selector days_message =
     (if days = 0 then Inl (invalid days_message)
      else if int days > i32_max then Inl (invalid ''noncurrent lifecycle days are out of range'')
      else case newer of
        None \<Rightarrow> Inr ()
      | Some n \<Rightarrow>
          if \<not> (1 \<le> n \<and> n \<le> 100) then Inl (invalid ''newer noncurrent versions must be between 1 and 100'')
          else check ''newer noncurrent versions requires an explicit modern Filter'' (is_modern selector))"

fun validate_expiration :: "canonical_rule_selector \<Rightarrow> current_expiration option \<Rightarrow> unit app_result" where
  "validate_expiration sel (Some (ExpirationDate t)) =
     check ''expiration date must be UTC midnight'' (utc_midnight t)"
| "validate_expiration sel (Some (ExpirationDays days)) =
     check ''lifecycle expiration days must be positive'' (days \<noteq> 0)"
| "validate_expiration sel (Some ExpiredObjectDeleteMarker) =
     check ''expired object delete marker action cannot use a tag filter'' (\<not> selector_has_tag_filter sel)"
| "validate_expiration sel None = Inr ()"

fun validate_transition :: "current_transition option \<Rightarrow> unit app_result" where
  "validate_transition (Some (TransitionDate t)) =
     check ''transition date must be UTC midnight'' (utc_midnight t)"
| "validate_transition (Some (TransitionDays days)) =
     bindR (check ''lifecycle transition days must be positive'' (days \<noteq> 0)) (\<lambda>_.
     check ''lifecycle transition days are out of range'' (int days \<le> i32_max))"
| "validate_transition None = Inr ()"

fun all_or_prefix :: "canonical_rule_selector \<Rightarrow> bool" where
  "all_or_prefix (LegacyPrefix p) = True"
| "all_or_prefix (Modern FAll) = True"
| "all_or_prefix (Modern (FPrefix p)) = True"
| "all_or_prefix _ = False"

definition validate_abort ::
  "canonical_rule_selector \<Rightarrow> abort_incomplete_multipart_upload_action option \<Rightarrow> unit app_result" where
  "validate_abort sel abort =
     (case abort of
        None \<Rightarrow> Inr ()
      | Some a \<Rightarrow>
          bindR (check ''abort days after initiation must be positive'' (ab_days_after_initiation a \<noteq> 0)) (\<lambda>_.
          bindR (check ''abort days after initiation are out of range''
                   (int (ab_days_after_initiation a) \<le> i32_max)) (\<lambda>_.
          check ''abort incomplete multipart upload requires an all or prefix selector'' (all_or_prefix sel))))"

definition validate_canonical_rule :: "canonical_lifecycle_rule \<Rightarrow> unit app_result" where
  "validate_canonical_rule rule =
     bindR (validate_canonical_selector (clr_selector rule)) (\<lambda>_.
     bindR (validate_expiration (clr_selector rule) (clr_expiration rule)) (\<lambda>_.
     bindR (case clr_noncurrent_version_expiration rule of
              None \<Rightarrow> Inr ()
            | Some n \<Rightarrow> validate_noncurrent_thresholds (ne_noncurrent_days n) (ne_newer_noncurrent_versions n)
                (clr_selector rule) ''noncurrent expiration days must be positive'') (\<lambda>_.
     bindR (validate_transition (clr_transition rule)) (\<lambda>_.
     bindR (case clr_noncurrent_version_transition rule of
              None \<Rightarrow> Inr ()
            | Some n \<Rightarrow> validate_noncurrent_thresholds (nt_noncurrent_days n) (nt_newer_noncurrent_versions n)
                (clr_selector rule) ''noncurrent transition days must be positive'') (\<lambda>_.
     bindR (validate_abort (clr_selector rule) (clr_abort rule)) (\<lambda>_.
     check ''lifecycle rule requires a supported action''
       (\<not> (clr_expiration rule = None \<and> clr_noncurrent_version_expiration rule = None \<and>
          clr_transition rule = None \<and> clr_noncurrent_version_transition rule = None \<and>
          clr_abort rule = None))))))))"

fun validate_rules :: "string set \<Rightarrow> canonical_lifecycle_rule list \<Rightarrow> unit app_result" where
  "validate_rules ids [] = Inr ()"
| "validate_rules ids (rule # rules) =
     bindR (case clr_id rule of
              None \<Rightarrow> Inr ids
            | Some i \<Rightarrow>
                if chars_count i > 255 then Inl (invalid ''lifecycle rule ID must be at most 255 characters'')
                else if i \<in> ids then Inl (invalid ''lifecycle rule IDs must be unique'')
                else Inr (insert i ids)) (\<lambda>ids'.
     bindR (validate_canonical_rule rule) (\<lambda>_. validate_rules ids' rules))"

definition validate_canonical_configuration :: "canonical_lifecycle_configuration \<Rightarrow> unit app_result" where
  "validate_canonical_configuration config =
     (if clc_schema_version config \<noteq> SCHEMA_VERSION
      then Inl (invalid ''unsupported lifecycle configuration schema version'')
      else if \<not> (1 \<le> length (clc_rules config) \<and> length (clc_rules config) \<le> 1000)
      then Inl (invalid ''lifecycle configuration must contain 1 to 1000 rules'')
      else validate_rules {} (clc_rules config))"

definition canonical_json ::
  "(canonical_lifecycle_configuration \<Rightarrow> string option) \<Rightarrow> canonical_lifecycle_configuration \<Rightarrow> string app_result" where
  "canonical_json to_json config =
     bindR (validate_canonical_configuration config) (\<lambda>_.
     ok_or (invalid ''lifecycle configuration cannot be serialized'') (to_json config))"

definition from_canonical_json ::
  "(string \<Rightarrow> canonical_lifecycle_configuration option) \<Rightarrow> string \<Rightarrow> canonical_lifecycle_configuration app_result" where
  "from_canonical_json of_json json =
     bindR (ok_or (invalid ''stored lifecycle configuration is invalid'') (of_json json)) (\<lambda>config.
     bindR (validate_canonical_configuration config) (\<lambda>_. Inr config))"

section \<open>The S3 representation\<close>

record s3_tag =
  st_key :: "string option"
  st_value :: "string option"

record s3_and_operator =
  sa_object_size_greater_than :: "int option"
  sa_object_size_less_than :: "int option"
  sa_prefix :: "string option"
  sa_tags :: "s3_tag list option"

record s3_filter =
  sf_and :: "s3_and_operator option"
  sf_object_size_greater_than :: "int option"
  sf_object_size_less_than :: "int option"
  sf_prefix :: "string option"
  sf_tag :: "s3_tag option"

record 'ts s3_expiration =
  se_date :: "'ts option"
  se_days :: "int option"
  se_expired_object_delete_marker :: "bool option"

record s3_noncurrent_expiration =
  sn_newer_noncurrent_versions :: "int option"
  sn_noncurrent_days :: "int option"

record 'ts s3_transition =
  sx_date :: "'ts option"
  sx_days :: "int option"
  sx_storage_class :: "string option"

record s3_noncurrent_transition =
  sy_newer_noncurrent_versions :: "int option"
  sy_noncurrent_days :: "int option"
  sy_storage_class :: "string option"

record s3_abort =
  sb_days_after_initiation :: "int option"

record 'ts s3_rule =
  sr_abort :: "s3_abort option"
  sr_expiration :: "'ts s3_expiration option"
  sr_filter :: "s3_filter option"
  sr_id :: "string option"
  sr_noncurrent_version_expiration :: "s3_noncurrent_expiration option"
  sr_noncurrent_version_transitions :: "s3_noncurrent_transition list option"
  sr_prefix :: "string option"
  sr_status :: string
  sr_transitions :: "'ts s3_transition list option"

section \<open>Canonicalization\<close>

definition canonicalize_tag :: "s3_tag \<Rightarrow> canonical_tag app_result" where
  "canonicalize_tag tag =
     bindR (ok_or (invalid ''lifecycle tag key is required'') (st_key tag)) (\<lambda>key.
     Inr (CanonicalTag key (case st_value tag of None \<Rightarrow> [] | Some v \<Rightarrow> v)))"

definition canonicalize_and :: "s3_and_operator \<Rightarrow> canonical_filter app_result" where
  "canonicalize_and op =
     bindR (traverse_option nonnegative_size (sa_object_size_greater_than op)) (\<lambda>gt.
     bindR (traverse_option nonnegative_size (sa_object_size_less_than op)) (\<lambda>lt.
     bindR (check ''lifecycle And size bounds must be ordered'' (sizes_ordered gt lt)) (\<lambda>_.
     bindR (traverse_list canonicalize_tag (case sa_tags op of None \<Rightarrow> [] | Some ts \<Rightarrow> ts)) (\<lambda>unsorted.
     let tags = sort unsorted in
     bindR (check ''lifecycle And tag keys must be distinct''
              (\<not> list_ex (\<lambda>(a, b). ct_key a = ct_key b) (windows2 tags))) (\<lambda>_.
     Inr (FAnd (sa_prefix op) tags gt lt))))))"

definition is_some_count :: "'a option \<Rightarrow> nat" where
  "is_some_count x = (case x of None \<Rightarrow> 0 | Some _ \<Rightarrow> 1)"

definition canonicalize_filter :: "s3_filter \<Rightarrow> canonical_filter app_result" where
  "canonicalize_filter f =
     (if is_some_count (sf_and f) + is_some_count (sf_object_size_greater_than f) +
         is_some_count (sf_object_size_less_than f) + is_some_count (sf_prefix f) + is_some_count (sf_tag f) > 1
      then Inl (invalid ''lifecycle Filter must contain at most one selector'')
      else case (sf_and f, sf_prefix f, sf_tag f, sf_object_size_greater_than f, sf_object_size_less_than f) of
        (None, None, None, None, None) \<Rightarrow> Inr FAll
      | (Some op, None, None, None, None) \<Rightarrow> canonicalize_and op
      | (None, Some prefix, None, None, None) \<Rightarrow> Inr (FPrefix prefix)
      | (None, None, Some tag, None, None) \<Rightarrow> bindR (canonicalize_tag tag) (\<lambda>t. Inr (FTag t))
      | (None, None, None, Some bytes, None) \<Rightarrow>
          bindR (nonnegative_size bytes) (\<lambda>n. Inr (FObjectSizeGreaterThan n))
      | (None, None, None, None, Some bytes) \<Rightarrow>
          bindR (nonnegative_size bytes) (\<lambda>n. Inr (FObjectSizeLessThan n))
      | _ \<Rightarrow> Inl (invalid ''lifecycle Filter must contain at most one selector''))"

fun canonicalize_selector :: "string option \<Rightarrow> s3_filter option \<Rightarrow> canonical_rule_selector app_result" where
  "canonicalize_selector (Some p) (Some f) = Inl (invalid ''lifecycle rule cannot contain both Prefix and Filter'')"
| "canonicalize_selector (Some p) None = Inr (LegacyPrefix p)"
| "canonicalize_selector None (Some f) = bindR (canonicalize_filter f) (\<lambda>cf. Inr (Modern cf))"
| "canonicalize_selector None None = Inl (invalid ''lifecycle rule requires Prefix or Filter'')"

definition positive_days :: "int \<Rightarrow> string \<Rightarrow> nat app_result" where
  "positive_days value msg = (if value \<le> 0 then Inl (invalid msg) else Inr (nat value))"

definition timestamp_to_utc_with_messages ::
  "('ts \<Rightarrow> datetime option) \<Rightarrow> (datetime \<Rightarrow> 'ts) \<Rightarrow> 'ts \<Rightarrow> string \<Rightarrow> string \<Rightarrow> string \<Rightarrow> datetime app_result" where
  "timestamp_to_utc_with_messages ts_parse ts_of value invalid_message utc_message midnight_message =
     bindR (ok_or (invalid invalid_message) (ts_parse value)) (\<lambda>parsed.
     bindR (check utc_message (ts_of parsed = value)) (\<lambda>_.
     bindR (check midnight_message (utc_midnight parsed)) (\<lambda>_. Inr parsed)))"

definition timestamp_to_utc :: "('ts \<Rightarrow> datetime option) \<Rightarrow> (datetime \<Rightarrow> 'ts) \<Rightarrow> 'ts \<Rightarrow> datetime app_result" where
  "timestamp_to_utc ts_parse ts_of value =
     timestamp_to_utc_with_messages ts_parse ts_of value ''expiration date is invalid''
       ''expiration date must use UTC'' ''expiration date must be UTC midnight''"

definition transition_timestamp_to_utc ::
  "('ts \<Rightarrow> datetime option) \<Rightarrow> (datetime \<Rightarrow> 'ts) \<Rightarrow> 'ts \<Rightarrow> datetime app_result" where
  "transition_timestamp_to_utc ts_parse ts_of value =
     timestamp_to_utc_with_messages ts_parse ts_of value ''transition date is invalid''
       ''transition date must use UTC'' ''transition date must be UTC midnight''"

definition canonicalize_expiration ::
  "('ts \<Rightarrow> datetime option) \<Rightarrow> (datetime \<Rightarrow> 'ts) \<Rightarrow> 'ts s3_expiration \<Rightarrow> current_expiration app_result" where
  "canonicalize_expiration ts_parse ts_of e =
     (if is_some_count (se_date e) + is_some_count (se_days e) +
         is_some_count (se_expired_object_delete_marker e) \<noteq> 1
      then Inl (invalid ''lifecycle Expiration must contain exactly one action'')
      else case (se_date e, se_days e, se_expired_object_delete_marker e) of
        (Some date, None, None) \<Rightarrow> bindR (timestamp_to_utc ts_parse ts_of date) (\<lambda>t. Inr (ExpirationDate t))
      | (None, Some days, None) \<Rightarrow>
          bindR (positive_days days ''lifecycle expiration days must be positive'') (\<lambda>n. Inr (ExpirationDays n))
      | (None, None, Some True) \<Rightarrow> Inr ExpiredObjectDeleteMarker
      | (None, None, Some False) \<Rightarrow> Inl (invalid ''expired object delete marker must be true when present'')
      | _ \<Rightarrow> Inl (invalid ''lifecycle Expiration must contain exactly one action''))"

text \<open>
  \<^verbatim>\<open>canonicalize_noncurrent_expiration\<close> repeats the match of
  \<open>canonicalize_newer_noncurrent_versions\<close> inline, before the check of the days.
\<close>

definition canonicalize_newer_noncurrent_versions ::
  "int option \<Rightarrow> canonical_rule_selector \<Rightarrow> nat option app_result" where
  "canonicalize_newer_noncurrent_versions newer selector =
     (case newer of
        None \<Rightarrow> Inr None
      | Some v \<Rightarrow>
          if 1 \<le> v \<and> v \<le> 100 then
            (if \<not> is_modern selector then Inl (invalid ''newer noncurrent versions requires an explicit modern Filter'')
             else Inr (Some (nat v)))
          else Inl (invalid ''newer noncurrent versions must be between 1 and 100''))"

definition canonicalize_noncurrent_expiration ::
  "s3_noncurrent_expiration \<Rightarrow> canonical_rule_selector \<Rightarrow> noncurrent_expiration app_result" where
  "canonicalize_noncurrent_expiration e selector =
     bindR (ok_or (invalid ''noncurrent expiration days are required'') (sn_noncurrent_days e)) (\<lambda>days.
     bindR (canonicalize_newer_noncurrent_versions (sn_newer_noncurrent_versions e) selector) (\<lambda>newer.
     bindR (positive_days days ''noncurrent expiration days must be positive'') (\<lambda>n.
     Inr \<lparr>ne_noncurrent_days = n, ne_newer_noncurrent_versions = newer\<rparr>)))"

definition STANDARD_IA :: string where "STANDARD_IA = ''STANDARD_IA''"

definition require_standard_ia :: "string option \<Rightarrow> unit app_result" where
  "require_standard_ia storage_class =
     bindR (ok_or (invalid ''lifecycle transition storage class is required'') storage_class) (\<lambda>c.
     check ''lifecycle transition storage class must be STANDARD_IA'' (c = STANDARD_IA))"

definition canonicalize_current_transition ::
  "('ts \<Rightarrow> datetime option) \<Rightarrow> (datetime \<Rightarrow> 'ts) \<Rightarrow> 'ts s3_transition \<Rightarrow> current_transition app_result" where
  "canonicalize_current_transition ts_parse ts_of t =
     bindR (require_standard_ia (sx_storage_class t)) (\<lambda>_.
     case (sx_date t, sx_days t) of
       (Some date, None) \<Rightarrow>
         bindR (transition_timestamp_to_utc ts_parse ts_of date) (\<lambda>d. Inr (TransitionDate d))
     | (None, Some days) \<Rightarrow>
         bindR (positive_days days ''lifecycle transition days must be positive'') (\<lambda>n. Inr (TransitionDays n))
     | _ \<Rightarrow> Inl (invalid ''lifecycle Transition must contain exactly one of Date or Days''))"

fun canonicalize_current_transition_list ::
  "('ts \<Rightarrow> datetime option) \<Rightarrow> (datetime \<Rightarrow> 'ts) \<Rightarrow> 'ts s3_transition list option \<Rightarrow>
   current_transition option app_result" where
  "canonicalize_current_transition_list ts_parse ts_of None = Inr None"
| "canonicalize_current_transition_list ts_parse ts_of (Some [t]) =
     bindR (canonicalize_current_transition ts_parse ts_of t) (\<lambda>c. Inr (Some c))"
| "canonicalize_current_transition_list ts_parse ts_of (Some _) =
     Inl (invalid ''lifecycle Transition must contain exactly one step'')"

definition canonicalize_noncurrent_transition ::
  "s3_noncurrent_transition \<Rightarrow> canonical_rule_selector \<Rightarrow> noncurrent_transition app_result" where
  "canonicalize_noncurrent_transition t selector =
     bindR (require_standard_ia (sy_storage_class t)) (\<lambda>_.
     bindR (ok_or (invalid ''noncurrent transition days are required'') (sy_noncurrent_days t)) (\<lambda>days.
     bindR (positive_days days ''noncurrent transition days must be positive'') (\<lambda>n.
     bindR (canonicalize_newer_noncurrent_versions (sy_newer_noncurrent_versions t) selector) (\<lambda>newer.
     Inr \<lparr>nt_noncurrent_days = n, nt_newer_noncurrent_versions = newer\<rparr>))))"

fun canonicalize_noncurrent_transition_list ::
  "s3_noncurrent_transition list option \<Rightarrow> canonical_rule_selector \<Rightarrow> noncurrent_transition option app_result" where
  "canonicalize_noncurrent_transition_list None selector = Inr None"
| "canonicalize_noncurrent_transition_list (Some [t]) selector =
     bindR (canonicalize_noncurrent_transition t selector) (\<lambda>c. Inr (Some c))"
| "canonicalize_noncurrent_transition_list (Some _) selector =
     Inl (invalid ''NoncurrentVersionTransition must contain exactly one step'')"

text \<open>The conversion \<^verbatim>\<open>u32::try_from\<close> of a positive \<^verbatim>\<open>i32\<close> never fails.\<close>

definition canonicalize_abort :: "s3_abort \<Rightarrow> abort_incomplete_multipart_upload_action app_result" where
  "canonicalize_abort a =
     bindR (ok_or (invalid ''abort days after initiation are required'') (sb_days_after_initiation a)) (\<lambda>days.
     if days \<le> 0 then Inl (invalid ''abort days after initiation must be positive'')
     else Inr \<lparr>ab_days_after_initiation = nat days\<rparr>)"

definition rule_status :: "string \<Rightarrow> lifecycle_rule_status app_result" where
  "rule_status s =
     (if s = ''Enabled'' then Inr RuleEnabled
      else if s = ''Disabled'' then Inr RuleDisabled
      else Inl (invalid ''lifecycle rule status must be Enabled or Disabled''))"

definition canonicalize_rule ::
  "('ts \<Rightarrow> datetime option) \<Rightarrow> (datetime \<Rightarrow> 'ts) \<Rightarrow> 'ts s3_rule \<Rightarrow> canonical_lifecycle_rule app_result" where
  "canonicalize_rule ts_parse ts_of rule =
     bindR (rule_status (sr_status rule)) (\<lambda>status.
     bindR (canonicalize_selector (sr_prefix rule) (sr_filter rule)) (\<lambda>selector.
     bindR (traverse_option (canonicalize_expiration ts_parse ts_of) (sr_expiration rule)) (\<lambda>expiration.
     bindR (traverse_option (\<lambda>e. canonicalize_noncurrent_expiration e selector)
              (sr_noncurrent_version_expiration rule)) (\<lambda>nce.
     bindR (canonicalize_current_transition_list ts_parse ts_of (sr_transitions rule)) (\<lambda>transition.
     bindR (canonicalize_noncurrent_transition_list (sr_noncurrent_version_transitions rule) selector) (\<lambda>nct.
     bindR (traverse_option canonicalize_abort (sr_abort rule)) (\<lambda>abort.
     bindR (check ''expired object delete marker action cannot use a tag filter''
              (\<not> (expiration = Some ExpiredObjectDeleteMarker \<and> selector_has_tag_filter selector))) (\<lambda>_.
     Inr \<lparr>clr_id = sr_id rule, clr_status = status, clr_selector = selector, clr_expiration = expiration,
          clr_noncurrent_version_expiration = nce, clr_transition = transition,
          clr_noncurrent_version_transition = nct, clr_abort = abort\<rparr>))))))))"

definition validate_and_canonicalize ::
  "('ts \<Rightarrow> datetime option) \<Rightarrow> (datetime \<Rightarrow> 'ts) \<Rightarrow> 'ts s3_rule list \<Rightarrow> canonical_lifecycle_configuration app_result" where
  "validate_and_canonicalize ts_parse ts_of input_rules =
     bindR (traverse_list (canonicalize_rule ts_parse ts_of) input_rules) (\<lambda>rules.
     let config = \<lparr>clc_schema_version = SCHEMA_VERSION, clc_rules = rules\<rparr> in
     bindR (validate_canonical_configuration config) (\<lambda>_. Inr config))"

section \<open>Projection to S3\<close>

definition i32_try_from :: "nat \<Rightarrow> string \<Rightarrow> int app_result" where
  "i32_try_from n msg = (if int n \<le> i32_max then Inr (int n) else Inl (invalid msg))"

text \<open>The cast \<^verbatim>\<open>as i32\<close> of a \<^verbatim>\<open>u32\<close> keeps the bits: it wraps above \<open>i32::MAX\<close>.\<close>

definition as_i32 :: "nat \<Rightarrow> int" where
  "as_i32 n = (if int n \<le> i32_max then int n else int n - 2 ^ 32)"

definition project_tag :: "canonical_tag \<Rightarrow> s3_tag" where
  "project_tag tag = \<lparr>st_key = Some (ct_key tag), st_value = Some (ct_value tag)\<rparr>"

definition empty_filter :: s3_filter where
  "empty_filter = \<lparr>sf_and = None, sf_object_size_greater_than = None, sf_object_size_less_than = None,
     sf_prefix = None, sf_tag = None\<rparr>"

fun project_filter :: "canonical_filter \<Rightarrow> s3_filter" where
  "project_filter FAll = empty_filter"
| "project_filter (FPrefix p) = empty_filter\<lparr>sf_prefix := Some p\<rparr>"
| "project_filter (FTag t) = empty_filter\<lparr>sf_tag := Some (project_tag t)\<rparr>"
| "project_filter (FObjectSizeGreaterThan n) = empty_filter\<lparr>sf_object_size_greater_than := Some n\<rparr>"
| "project_filter (FObjectSizeLessThan n) = empty_filter\<lparr>sf_object_size_less_than := Some n\<rparr>"
| "project_filter (FAnd p ts gt lt) =
     empty_filter\<lparr>sf_and := Some \<lparr>sa_object_size_greater_than = gt, sa_object_size_less_than = lt,
       sa_prefix = p, sa_tags = (if ts = [] then None else Some (map project_tag ts))\<rparr>\<rparr>"

definition empty_expiration :: "'ts s3_expiration" where
  "empty_expiration = \<lparr>se_date = None, se_days = None, se_expired_object_delete_marker = None\<rparr>"

fun project_expiration :: "(datetime \<Rightarrow> 'ts) \<Rightarrow> current_expiration \<Rightarrow> 'ts s3_expiration app_result" where
  "project_expiration ts_of (ExpirationDate t) = Inr (empty_expiration\<lparr>se_date := Some (ts_of t)\<rparr>)"
| "project_expiration ts_of (ExpirationDays days) =
     bindR (i32_try_from days ''lifecycle expiration days are out of range'') (\<lambda>n.
     Inr (empty_expiration\<lparr>se_days := Some n\<rparr>))"
| "project_expiration ts_of ExpiredObjectDeleteMarker =
     Inr (empty_expiration\<lparr>se_expired_object_delete_marker := Some True\<rparr>)"

definition project_noncurrent_expiration :: "noncurrent_expiration \<Rightarrow> s3_noncurrent_expiration" where
  "project_noncurrent_expiration e =
     \<lparr>sn_newer_noncurrent_versions = map_option int (ne_newer_noncurrent_versions e),
      sn_noncurrent_days = Some (as_i32 (ne_noncurrent_days e))\<rparr>"

definition empty_transition :: "'ts s3_transition" where
  "empty_transition = \<lparr>sx_date = None, sx_days = None, sx_storage_class = Some STANDARD_IA\<rparr>"

fun project_transition :: "(datetime \<Rightarrow> 'ts) \<Rightarrow> current_transition \<Rightarrow> 'ts s3_transition app_result" where
  "project_transition ts_of (TransitionDate t) = Inr (empty_transition\<lparr>sx_date := Some (ts_of t)\<rparr>)"
| "project_transition ts_of (TransitionDays days) =
     bindR (i32_try_from days ''lifecycle transition days are out of range'') (\<lambda>n.
     Inr (empty_transition\<lparr>sx_days := Some n\<rparr>))"

definition project_noncurrent_transition :: "noncurrent_transition \<Rightarrow> s3_noncurrent_transition" where
  "project_noncurrent_transition t =
     \<lparr>sy_newer_noncurrent_versions = map_option int (nt_newer_noncurrent_versions t),
      sy_noncurrent_days = Some (as_i32 (nt_noncurrent_days t)), sy_storage_class = Some STANDARD_IA\<rparr>"

definition project_abort :: "abort_incomplete_multipart_upload_action \<Rightarrow> s3_abort app_result" where
  "project_abort a =
     bindR (i32_try_from (ab_days_after_initiation a) ''abort days after initiation are out of range'') (\<lambda>n.
     Inr \<lparr>sb_days_after_initiation = Some n\<rparr>)"

definition project_rule :: "(datetime \<Rightarrow> 'ts) \<Rightarrow> canonical_lifecycle_rule \<Rightarrow> 'ts s3_rule app_result" where
  "project_rule ts_of rule =
     bindR (traverse_option project_abort (clr_abort rule)) (\<lambda>abort.
     bindR (traverse_option (project_expiration ts_of) (clr_expiration rule)) (\<lambda>expiration.
     bindR (traverse_option (project_transition ts_of) (clr_transition rule)) (\<lambda>transition.
     Inr \<lparr>sr_abort = abort, sr_expiration = expiration,
          sr_filter = (case clr_selector rule of LegacyPrefix p \<Rightarrow> None | Modern f \<Rightarrow> Some (project_filter f)),
          sr_id = clr_id rule,
          sr_noncurrent_version_expiration =
            map_option project_noncurrent_expiration (clr_noncurrent_version_expiration rule),
          sr_noncurrent_version_transitions =
            map_option (\<lambda>t. [project_noncurrent_transition t]) (clr_noncurrent_version_transition rule),
          sr_prefix = (case clr_selector rule of LegacyPrefix p \<Rightarrow> Some p | Modern f \<Rightarrow> None),
          sr_status = (case clr_status rule of RuleEnabled \<Rightarrow> ''Enabled'' | RuleDisabled \<Rightarrow> ''Disabled''),
          sr_transitions = map_option (\<lambda>t. [t]) transition\<rparr>)))"

definition to_s3_rules ::
  "(datetime \<Rightarrow> 'ts) \<Rightarrow> canonical_lifecycle_configuration \<Rightarrow> 'ts s3_rule list app_result" where
  "to_s3_rules ts_of config =
     bindR (validate_canonical_configuration config) (\<lambda>_. traverse_list (project_rule ts_of) (clc_rules config))"

end
