(* ===== verification/Lifecycle_Evaluator.thy ===== *)
theory Lifecycle_Evaluator
  imports Lifecycle_Config Storage_Class
begin

text \<open>
  The lifecycle evaluator (src/src/lifecycle/evaluator.rs) and its types (src/src/lifecycle/model.rs):
  for one candidate, an object version or a multipart upload, it collects what each enabled and
  matching rule proposes and returns the proposal that wins. The last date the calendar library can
  represent is the argument \<open>max_day\<close>, counted in days since the epoch.
\<close>

section \<open>Types\<close>

datatype rule_identity = RuleId string | RuleOrdinal nat

datatype lifecycle_action_kind =
    ExpireCurrent
  | ExpireNoncurrent
  | TransitionCurrent
  | TransitionNoncurrent
  | DeleteExpiredMarker
  | AbortIncompleteMultipartUpload

record version_target_identity =
  vt_bucket :: string
  vt_key :: string
  vt_version_row_id :: string
  vt_public_version_id :: public_version_id
  vt_kind :: version_kind
  vt_object_id :: "string option"
  vt_sequence :: int

record multipart_upload_target_identity =
  mt_bucket :: string
  mt_key :: string
  mt_upload_id :: string
  mt_initiated_at :: datetime

record version_lifecycle_candidate =
  vc_target :: version_target_identity
  vc_is_latest :: bool
  vc_bucket_versioning_state :: bucket_versioning_state
  vc_primary_storage_class :: "storage_class option"
  vc_hot_residency_verified :: bool
  vc_size :: int
  vc_lifecycle_age_started_at :: datetime
  vc_became_noncurrent_at :: "datetime option"

datatype lifecycle_candidate =
    VersionCandidate version_lifecycle_candidate
  | MultipartCandidate multipart_upload_target_identity

datatype lifecycle_target_identity =
    VersionTarget version_target_identity
  | MultipartTarget multipart_upload_target_identity

record new_lifecycle_action =
  la_idempotency_key :: string
  la_bucket :: string
  la_config_revision :: int
  la_rule_identity :: rule_identity
  la_action_kind :: lifecycle_action_kind
  la_target :: lifecycle_target_identity
  la_due_at :: datetime

record lifecycle_evaluation_context =
  ec_candidate :: lifecycle_candidate
  ec_tags :: "object_tag list"
  ec_public_version_count :: nat
  ec_newer_noncurrent_count :: nat
  ec_config_revision :: int
  ec_configuration :: canonical_lifecycle_configuration
  ec_database_now :: datetime

record lifecycle_proposal =
  lp_action :: new_lifecycle_action
  lp_stable_rule_identity :: string
  lp_effect_priority :: nat

section \<open>Due times and identities\<close>

definition range_error :: app_error where
  "range_error = InvalidArgument ''lifecycle due time is outside the UTC timestamp range''"

text \<open>Midnight of a date is always a valid time of day: the last error of the function cannot occur.\<close>

definition next_utc_midnight_after_full_days :: "int \<Rightarrow> datetime \<Rightarrow> nat \<Rightarrow> datetime app_result" where
  "next_utc_midnight_after_full_days max_day start days =
     (let aged = start + int days * day_ns; aged_date = aged div day_ns in
      if aged_date > max_day then Inl range_error
      else if aged_date + 1 > max_day then Inl range_error
      else Inr ((aged_date + 1) * day_ns))"

text \<open>Decimal digits, as Rust prints an unsigned integer, and the format \<^verbatim>\<open>{:05}\<close>.\<close>

fun decimal :: "nat \<Rightarrow> string" where
  "decimal n = (if n < 10 then [char_of (48 + n)] else decimal (n div 10) @ [char_of (48 + n mod 10)])"

declare decimal.simps [simp del]

definition zero_padded :: "nat \<Rightarrow> nat \<Rightarrow> string" where
  "zero_padded width n = replicate (width - length (decimal n)) (CHR ''0'') @ decimal n"

definition rule_identity_for :: "string option \<Rightarrow> nat \<Rightarrow> (rule_identity \<times> string) app_result" where
  "rule_identity_for rid ordinal =
     (case rid of
        Some i \<Rightarrow> Inr (RuleId i, ''id:'' @ i)
      | None \<Rightarrow>
          if ordinal > 65535 then Inl (InvalidArgument ''lifecycle rule ordinal is out of range'')
          else Inr (RuleOrdinal ordinal, ''ordinal:'' @ zero_padded 5 ordinal))"

section \<open>Proposals\<close>

definition effect_priority :: "version_lifecycle_candidate \<Rightarrow> lifecycle_action_kind \<Rightarrow> nat" where
  "effect_priority c kind =
     (case kind of
        ExpireCurrent \<Rightarrow>
          (case vc_bucket_versioning_state c of
             Unversioned \<Rightarrow> 0
           | Suspended \<Rightarrow> if vt_public_version_id (vc_target c) = NullVersion then 0 else 2
           | Enabled \<Rightarrow> 2)
      | TransitionCurrent \<Rightarrow> 1
      | TransitionNoncurrent \<Rightarrow> 1
      | ExpireNoncurrent \<Rightarrow> 0
      | DeleteExpiredMarker \<Rightarrow> 0
      | AbortIncompleteMultipartUpload \<Rightarrow> 0)"

definition proposal ::
  "version_lifecycle_candidate \<Rightarrow> lifecycle_evaluation_context \<Rightarrow> rule_identity \<Rightarrow> string \<Rightarrow>
   lifecycle_action_kind \<Rightarrow> datetime \<Rightarrow> lifecycle_proposal" where
  "proposal c facts rid sid kind due =
     \<lparr>lp_action = \<lparr>la_idempotency_key = [], la_bucket = vt_bucket (vc_target c),
        la_config_revision = ec_config_revision facts, la_rule_identity = rid, la_action_kind = kind,
        la_target = VersionTarget (vc_target c), la_due_at = due\<rparr>,
      lp_stable_rule_identity = sid, lp_effect_priority = effect_priority c kind\<rparr>"

fun current_due_at ::
  "int \<Rightarrow> current_expiration \<Rightarrow> version_lifecycle_candidate \<Rightarrow> datetime option app_result" where
  "current_due_at max_day (ExpirationDate t) c = Inr (Some t)"
| "current_due_at max_day (ExpirationDays days) c =
     bindR (next_utc_midnight_after_full_days max_day (vc_lifecycle_age_started_at c) days) (\<lambda>t. Inr (Some t))"
| "current_due_at max_day ExpiredObjectDeleteMarker c = Inr None"

text \<open>Pushing a proposal that is due.\<close>

definition push_due ::
  "lifecycle_proposal list \<Rightarrow> version_lifecycle_candidate \<Rightarrow> lifecycle_evaluation_context \<Rightarrow> rule_identity \<Rightarrow>
   string \<Rightarrow> lifecycle_action_kind \<Rightarrow> datetime \<Rightarrow> lifecycle_proposal list" where
  "push_due ps c facts rid sid kind due =
     (if ec_database_now facts \<ge> due then ps @ [proposal c facts rid sid kind due] else ps)"

definition collect_current_proposal ::
  "int \<Rightarrow> lifecycle_proposal list \<Rightarrow> version_lifecycle_candidate \<Rightarrow> lifecycle_evaluation_context \<Rightarrow>
   current_expiration option \<Rightarrow> rule_identity \<Rightarrow> string \<Rightarrow> lifecycle_proposal list app_result" where
  "collect_current_proposal max_day ps c facts expiration rid sid =
     (case expiration of
        None \<Rightarrow> Inr ps
      | Some e \<Rightarrow>
          (case vt_kind (vc_target c) of
             ObjectKind \<Rightarrow>
               bindR (current_due_at max_day e c) (\<lambda>due.
               case due of
                 None \<Rightarrow> Inr ps
               | Some t \<Rightarrow> Inr (push_due ps c facts rid sid ExpireCurrent t))
           | DeleteMarkerKind \<Rightarrow>
               if ec_public_version_count facts = 1 then
                 (case e of
                    ExpiredObjectDeleteMarker \<Rightarrow>
                      Inr (ps @ [proposal c facts rid sid DeleteExpiredMarker (vc_lifecycle_age_started_at c)])
                  | _ \<Rightarrow>
                      bindR (current_due_at max_day e c) (\<lambda>due.
                      case due of
                        None \<Rightarrow> Inr ps
                      | Some t \<Rightarrow> Inr (push_due ps c facts rid sid DeleteExpiredMarker t)))
               else Inr ps))"

definition collect_transition_proposal ::
  "int \<Rightarrow> lifecycle_proposal list \<Rightarrow> version_lifecycle_candidate \<Rightarrow> lifecycle_evaluation_context \<Rightarrow>
   canonical_lifecycle_rule \<Rightarrow> rule_identity \<Rightarrow> string \<Rightarrow> lifecycle_proposal list app_result" where
  "collect_transition_proposal max_day ps c facts rule rid sid =
     (if vt_kind (vc_target c) \<noteq> ObjectKind \<or> vc_primary_storage_class c \<noteq> Some Standard then Inr ps
      else if vc_is_latest c then
        (case clr_transition rule of
           None \<Rightarrow> Inr ps
         | Some (TransitionDate t) \<Rightarrow> Inr (push_due ps c facts rid sid TransitionCurrent t)
         | Some (TransitionDays days) \<Rightarrow>
             (case next_utc_midnight_after_full_days max_day (vc_lifecycle_age_started_at c) days of
                Inl _ \<Rightarrow> Inr ps
              | Inr due \<Rightarrow> Inr (push_due ps c facts rid sid TransitionCurrent due)))
      else
        (case (clr_noncurrent_version_transition rule, vc_became_noncurrent_at c) of
           (Some t, Some start) \<Rightarrow>
             if (case nt_newer_noncurrent_versions t of
                   None \<Rightarrow> False | Some required \<Rightarrow> ec_newer_noncurrent_count facts \<le> required)
             then Inr ps
             else
               (case next_utc_midnight_after_full_days max_day start (nt_noncurrent_days t) of
                  Inl _ \<Rightarrow> Inr ps
                | Inr due \<Rightarrow> Inr (push_due ps c facts rid sid TransitionNoncurrent due))
         | _ \<Rightarrow> Inr ps))"

definition collect_noncurrent_proposal ::
  "int \<Rightarrow> lifecycle_proposal list \<Rightarrow> version_lifecycle_candidate \<Rightarrow> lifecycle_evaluation_context \<Rightarrow>
   noncurrent_expiration option \<Rightarrow> rule_identity \<Rightarrow> string \<Rightarrow> lifecycle_proposal list app_result" where
  "collect_noncurrent_proposal max_day ps c facts expiration rid sid =
     (case (expiration, vc_became_noncurrent_at c) of
        (Some e, Some start) \<Rightarrow>
          bindR (next_utc_midnight_after_full_days max_day start (ne_noncurrent_days e)) (\<lambda>due.
          if (case ne_newer_noncurrent_versions e of
                None \<Rightarrow> True | Some required \<Rightarrow> ec_newer_noncurrent_count facts > required)
          then Inr (push_due ps c facts rid sid ExpireNoncurrent due)
          else Inr ps)
      | _ \<Rightarrow> Inr ps)"

section \<open>Evaluation\<close>

definition proposal_sort_key :: "lifecycle_proposal \<Rightarrow> nat \<times> datetime \<times> string" where
  "proposal_sort_key p = (lp_effect_priority p, la_due_at (lp_action p), lp_stable_rule_identity p)"

definition first_of :: "'a list \<Rightarrow> 'a option" where
  "first_of xs = (case xs of [] \<Rightarrow> None | x # _ \<Rightarrow> Some x)"

definition select_winner :: "lifecycle_proposal list \<Rightarrow> lifecycle_proposal option" where
  "select_winner ps = first_of (sort_key proposal_sort_key ps)"

definition evaluate_rule ::
  "int \<Rightarrow> lifecycle_proposal list \<Rightarrow> version_lifecycle_candidate \<Rightarrow> lifecycle_evaluation_context \<Rightarrow>
   nat \<Rightarrow> canonical_lifecycle_rule \<Rightarrow> lifecycle_proposal list app_result" where
  "evaluate_rule max_day ps c facts ordinal rule =
     (if clr_status rule \<noteq> RuleEnabled \<or>
         \<not> matches_filter (clr_selector rule) (vt_key (vc_target c)) (vc_size c) (ec_tags facts)
      then Inr ps
      else
        bindR (rule_identity_for (clr_id rule) ordinal) (\<lambda>(rid, sid).
        bindR (collect_transition_proposal max_day ps c facts rule rid sid) (\<lambda>ps'.
        if vc_is_latest c
        then collect_current_proposal max_day ps' c facts (clr_expiration rule) rid sid
        else collect_noncurrent_proposal max_day ps' c facts (clr_noncurrent_version_expiration rule) rid sid)))"

fun evaluate_rules ::
  "int \<Rightarrow> lifecycle_proposal list \<Rightarrow> version_lifecycle_candidate \<Rightarrow> lifecycle_evaluation_context \<Rightarrow>
   nat \<Rightarrow> canonical_lifecycle_rule list \<Rightarrow> lifecycle_proposal list app_result" where
  "evaluate_rules max_day ps c facts ordinal [] = Inr ps"
| "evaluate_rules max_day ps c facts ordinal (rule # rules) =
     bindR (evaluate_rule max_day ps c facts ordinal rule) (\<lambda>ps'.
     evaluate_rules max_day ps' c facts (Suc ordinal) rules)"

fun multipart_matches :: "canonical_rule_selector \<Rightarrow> string \<Rightarrow> bool app_result" where
  "multipart_matches (Modern FAll) key = Inr True"
| "multipart_matches (LegacyPrefix p) key = Inr (starts_with key p)"
| "multipart_matches (Modern (FPrefix p)) key = Inr (starts_with key p)"
| "multipart_matches _ key = Inl (InvalidArgument ''invalid multipart lifecycle selector'')"

definition multipart_proposal ::
  "lifecycle_evaluation_context \<Rightarrow> multipart_upload_target_identity \<Rightarrow> rule_identity \<Rightarrow> string \<Rightarrow> datetime \<Rightarrow>
   lifecycle_proposal" where
  "multipart_proposal facts target rid sid due =
     \<lparr>lp_action = \<lparr>la_idempotency_key = [], la_bucket = mt_bucket target,
        la_config_revision = ec_config_revision facts, la_rule_identity = rid,
        la_action_kind = AbortIncompleteMultipartUpload, la_target = MultipartTarget target, la_due_at = due\<rparr>,
      lp_stable_rule_identity = sid, lp_effect_priority = 0\<rparr>"

definition multipart_rule ::
  "int \<Rightarrow> lifecycle_proposal list \<Rightarrow> lifecycle_evaluation_context \<Rightarrow> multipart_upload_target_identity \<Rightarrow>
   nat \<Rightarrow> canonical_lifecycle_rule \<Rightarrow> lifecycle_proposal list app_result" where
  "multipart_rule max_day ps facts target ordinal rule =
     (if clr_status rule \<noteq> RuleEnabled then Inr ps
      else case clr_abort rule of
        None \<Rightarrow> Inr ps
      | Some a \<Rightarrow>
          bindR (multipart_matches (clr_selector rule) (mt_key target)) (\<lambda>matched.
          if \<not> matched then Inr ps
          else case next_utc_midnight_after_full_days max_day (mt_initiated_at target) (ab_days_after_initiation a) of
            Inl _ \<Rightarrow> Inr ps
          | Inr due \<Rightarrow>
              if ec_database_now facts < due then Inr ps
              else bindR (rule_identity_for (clr_id rule) ordinal) (\<lambda>(rid, sid).
                Inr (ps @ [multipart_proposal facts target rid sid due]))))"

fun multipart_rules ::
  "int \<Rightarrow> lifecycle_proposal list \<Rightarrow> lifecycle_evaluation_context \<Rightarrow> multipart_upload_target_identity \<Rightarrow>
   nat \<Rightarrow> canonical_lifecycle_rule list \<Rightarrow> lifecycle_proposal list app_result" where
  "multipart_rules max_day ps facts target ordinal [] = Inr ps"
| "multipart_rules max_day ps facts target ordinal (rule # rules) =
     bindR (multipart_rule max_day ps facts target ordinal rule) (\<lambda>ps'.
     multipart_rules max_day ps' facts target (Suc ordinal) rules)"

definition evaluate_multipart ::
  "int \<Rightarrow> lifecycle_evaluation_context \<Rightarrow> multipart_upload_target_identity \<Rightarrow> new_lifecycle_action option app_result" where
  "evaluate_multipart max_day facts target =
     bindR (multipart_rules max_day [] facts target 0 (clc_rules (ec_configuration facts))) (\<lambda>ps.
     Inr (map_option lp_action
       (first_of (sort_key (\<lambda>p. (la_due_at (lp_action p), lp_stable_rule_identity p)) ps))))"

definition evaluate_candidate ::
  "int \<Rightarrow> lifecycle_evaluation_context \<Rightarrow> new_lifecycle_action option app_result" where
  "evaluate_candidate max_day facts =
     (if ec_config_revision facts \<le> 0
      then Inl (InvalidArgument ''lifecycle configuration revision must be positive'')
      else case ec_candidate facts of
        MultipartCandidate target \<Rightarrow> evaluate_multipart max_day facts target
      | VersionCandidate c \<Rightarrow>
          bindR (evaluate_rules max_day [] c facts 0 (clc_rules (ec_configuration facts))) (\<lambda>ps.
          Inr (map_option lp_action (select_winner ps))))"

end
