(* ===== verification/Lifecycle_Roundtrip.thy ===== *)
theory Lifecycle_Roundtrip
  imports Lifecycle_Config
begin

text \<open>
  What a bucket's lifecycle configuration promises its owner: a request that is accepted
  (\<open>validate_and_canonicalize\<close>) can be read back (\<open>to_s3_rules\<close>), and putting back what was read
  stores the same configuration. The converse direction, from a stored configuration, needs the
  days of an expiration to fit the S3 type, which validation does not check.
\<close>

section \<open>Checks\<close>

lemma check_eq_Inr [simp]: "check msg ok = Inr u \<longleftrightarrow> ok"
  by (simp add: check_def)

lemma check_True [simp]: "check msg True = Inr ()"
  by (simp add: check_def)

lemma bindR_unit: "bindR m (\<lambda>_. k) = Inr y \<longleftrightarrow> (\<exists>x. m = Inr x) \<and> k = Inr y"
  by (cases m) simp_all

lemma ex_Inr_unit: "(\<exists>x. m = Inr x) \<longleftrightarrow> m = Inr ()"
  by simp

lemma nonnegative_size_eq_Inr [simp]: "nonnegative_size n = Inr m \<longleftrightarrow> 0 \<le> n \<and> m = n"
  by (auto simp: nonnegative_size_def)

lemma traverse_nonnegative_size [simp]:
  "traverse_option nonnegative_size x = Inr y \<longleftrightarrow> (\<forall>n. x = Some n \<longrightarrow> 0 \<le> n) \<and> y = x"
  by (cases x) (auto simp: bindR_eq_Inr)

section \<open>Neighbours\<close>

lemma windows2_Nil [simp]: "windows2 [] = []"
  by (simp add: windows2_def)

lemma windows2_single [simp]: "windows2 [x] = []"
  by (simp add: windows2_def)

lemma windows2_Cons [simp]: "windows2 (x # y # xs) = (x, y) # windows2 (y # xs)"
  by (simp add: windows2_def)

lemma windows2_sorted: "\<not> list_ex (\<lambda>(a, b). b < a) (windows2 xs) \<longleftrightarrow> sorted (xs :: 'a :: linorder list)"
  by (induction xs rule: induct_list012) (auto simp: not_less dest: order_trans)

lemma sorted_keys: "sorted ts \<Longrightarrow> sorted (map ct_key ts)"
  by (induction ts) (auto simp: less_eq_canonical_tag_def)

lemma windows2_distinct:
  assumes "sorted (map f xs)"
  shows "list_ex (\<lambda>(a, b). f a = f b) (windows2 xs) \<longleftrightarrow> \<not> distinct (map f xs)"
  using assms
proof (induction xs rule: induct_list012)
  case (3 x y zs)
  then show ?case
    by (auto simp: dest: order_antisym)
qed simp_all

section \<open>Projection, then canonicalization\<close>

lemma canonicalize_project_tag [simp]: "canonicalize_tag (project_tag t) = Inr t"
  by (simp add: project_tag_def canonicalize_tag_def)

lemma traverse_project_tags [simp]: "traverse_list canonicalize_tag (map project_tag ts) = Inr ts"
  by (induction ts) simp_all

lemma canonicalize_project_and:
  assumes "validate_filter (FAnd p ts gt lt) = Inr ()"
  shows "canonicalize_filter (project_filter (FAnd p ts gt lt)) = Inr (FAnd p ts gt lt)"
proof -
  have bounds: "\<forall>n. gt = Some n \<longrightarrow> 0 \<le> n" "\<forall>n. lt = Some n \<longrightarrow> 0 \<le> n" "sizes_ordered gt lt"
    and tags: "sorted ts" "distinct (map ct_key ts)"
    using assms by (simp_all add: bindR_eq_Inr windows2_sorted)
  have "traverse_list canonicalize_tag
      (case (if ts = [] then None else Some (map project_tag ts)) of None \<Rightarrow> [] | Some ts \<Rightarrow> ts) = Inr ts"
    by (cases "ts = []") simp_all
  with bounds tags show ?thesis
    by (simp add: canonicalize_filter_def empty_filter_def is_some_count_def canonicalize_and_def bindR_eq_Inr
        sorted_sort_id windows2_distinct sorted_keys)
qed

lemma canonicalize_project_filter:
  assumes "validate_filter f = Inr ()"
  shows "canonicalize_filter (project_filter f) = Inr f"
proof (cases f)
  case (FAnd p ts gt lt)
  with assms canonicalize_project_and show ?thesis
    by simp
qed (use assms in \<open>simp_all add: canonicalize_filter_def empty_filter_def is_some_count_def bindR_eq_Inr\<close>)

lemma canonicalize_project_selector:
  assumes "validate_canonical_selector sel = Inr ()"
  shows "canonicalize_selector (case sel of LegacyPrefix p \<Rightarrow> Some p | Modern f \<Rightarrow> None)
     (case sel of LegacyPrefix p \<Rightarrow> None | Modern f \<Rightarrow> Some (project_filter f)) = Inr sel"
  using assms by (cases sel) (simp_all add: canonicalize_project_filter)

text \<open>A date that survives the trip through an S3 timestamp.\<close>

definition date_ok :: "('ts \<Rightarrow> datetime option) \<Rightarrow> (datetime \<Rightarrow> 'ts) \<Rightarrow> datetime \<Rightarrow> bool" where
  "date_ok ts_parse ts_of t \<longleftrightarrow> ts_parse (ts_of t) = Some t"

fun expiration_ok :: "('ts \<Rightarrow> datetime option) \<Rightarrow> (datetime \<Rightarrow> 'ts) \<Rightarrow> current_expiration \<Rightarrow> bool" where
  "expiration_ok ts_parse ts_of (ExpirationDate t) = date_ok ts_parse ts_of t"
| "expiration_ok ts_parse ts_of (ExpirationDays n) = (int n \<le> i32_max)"
| "expiration_ok ts_parse ts_of ExpiredObjectDeleteMarker = True"

fun transition_ok :: "('ts \<Rightarrow> datetime option) \<Rightarrow> (datetime \<Rightarrow> 'ts) \<Rightarrow> current_transition \<Rightarrow> bool" where
  "transition_ok ts_parse ts_of (TransitionDate t) = date_ok ts_parse ts_of t"
| "transition_ok ts_parse ts_of (TransitionDays n) = True"

definition rule_ok :: "('ts \<Rightarrow> datetime option) \<Rightarrow> (datetime \<Rightarrow> 'ts) \<Rightarrow> canonical_lifecycle_rule \<Rightarrow> bool" where
  "rule_ok ts_parse ts_of rule \<longleftrightarrow>
     pred_option (expiration_ok ts_parse ts_of) (clr_expiration rule) \<and>
     pred_option (transition_ok ts_parse ts_of) (clr_transition rule)"

lemma timestamp_project:
  assumes "date_ok ts_parse ts_of t" "utc_midnight t"
  shows "timestamp_to_utc_with_messages ts_parse ts_of (ts_of t) a b c = Inr t"
  using assms by (simp add: timestamp_to_utc_with_messages_def date_ok_def)

lemma expiration_project:
  assumes "expiration_ok ts_parse ts_of e" "validate_expiration sel (Some e) = Inr ()"
  shows "\<exists>s. project_expiration ts_of e = Inr s \<and> canonicalize_expiration ts_parse ts_of s = Inr e"
  using assms by (cases e)
    (simp_all add: i32_try_from_def empty_expiration_def canonicalize_expiration_def is_some_count_def
      timestamp_to_utc_def timestamp_project positive_days_def)

lemma transition_project:
  assumes "transition_ok ts_parse ts_of t" "validate_transition (Some t) = Inr ()"
  shows "\<exists>s. project_transition ts_of t = Inr s \<and> canonicalize_current_transition ts_parse ts_of s = Inr t"
  using assms by (cases t)
    (simp_all add: i32_try_from_def empty_transition_def canonicalize_current_transition_def
      require_standard_ia_def transition_timestamp_to_utc_def timestamp_project positive_days_def bindR_eq_Inr)

lemma newer_project:
  assumes "validate_noncurrent_thresholds days newer sel msg = Inr ()"
  shows "canonicalize_newer_noncurrent_versions (map_option int newer) sel = Inr newer"
    and "positive_days (as_i32 days) m = Inr days"
  using assms by (auto simp: validate_noncurrent_thresholds_def canonicalize_newer_noncurrent_versions_def
      positive_days_def as_i32_def split: if_splits option.splits)

lemma noncurrent_expiration_project:
  assumes "validate_noncurrent_thresholds (ne_noncurrent_days n) (ne_newer_noncurrent_versions n) sel msg = Inr ()"
  shows "canonicalize_noncurrent_expiration (project_noncurrent_expiration n) sel = Inr n"
  using newer_project [OF assms]
  by (simp add: canonicalize_noncurrent_expiration_def project_noncurrent_expiration_def)

lemma noncurrent_transition_project:
  assumes "validate_noncurrent_thresholds (nt_noncurrent_days n) (nt_newer_noncurrent_versions n) sel msg = Inr ()"
  shows "canonicalize_noncurrent_transition (project_noncurrent_transition n) sel = Inr n"
  using newer_project [OF assms]
  by (simp add: canonicalize_noncurrent_transition_def project_noncurrent_transition_def require_standard_ia_def)

lemma abort_project:
  assumes "validate_abort sel (Some a) = Inr ()"
  shows "\<exists>s. project_abort a = Inr s \<and> canonicalize_abort s = Inr a"
  using assms by (simp add: validate_abort_def bindR_eq_Inr project_abort_def i32_try_from_def canonicalize_abort_def)

lemma traverse_option_project:
  assumes "\<And>x. o' = Some x \<Longrightarrow> \<exists>y. f x = Inr y \<and> g y = Inr x"
  shows "\<exists>p. traverse_option f o' = Inr p \<and> traverse_option g p = Inr o'"
proof (cases o')
  case (Some x)
  with assms obtain y where "f x = Inr y" "g y = Inr x"
    by blast
  with Some show ?thesis
    by (intro exI [of _ "Some y"]) simp
qed simp

lemma validate_ruleD:
  assumes "validate_canonical_rule rule = Inr ()"
  shows "validate_canonical_selector (clr_selector rule) = Inr ()"
    and "validate_expiration (clr_selector rule) (clr_expiration rule) = Inr ()"
    and "clr_noncurrent_version_expiration rule = Some n \<Longrightarrow>
      validate_noncurrent_thresholds (ne_noncurrent_days n) (ne_newer_noncurrent_versions n)
        (clr_selector rule) ''noncurrent expiration days must be positive'' = Inr ()"
    and "validate_transition (clr_transition rule) = Inr ()"
    and "clr_noncurrent_version_transition rule = Some t \<Longrightarrow>
      validate_noncurrent_thresholds (nt_noncurrent_days t) (nt_newer_noncurrent_versions t)
        (clr_selector rule) ''noncurrent transition days must be positive'' = Inr ()"
    and "validate_abort (clr_selector rule) (clr_abort rule) = Inr ()"
  using assms by (simp_all add: validate_canonical_rule_def bindR_eq_Inr)

lemma rule_status_project [simp]:
  "rule_status (case s of RuleEnabled \<Rightarrow> ''Enabled'' | RuleDisabled \<Rightarrow> ''Disabled'') = Inr s"
  by (cases s) (simp_all add: rule_status_def)

lemma transition_list_project:
  assumes "traverse_option (canonicalize_current_transition ts_parse ts_of) x = Inr y"
  shows "canonicalize_current_transition_list ts_parse ts_of (map_option (\<lambda>t. [t]) x) = Inr y"
  using assms by (cases x) (simp_all add: bindR_eq_Inr)

lemma project_rule_roundtrip:
  assumes valid: "validate_canonical_rule rule = Inr ()" and ok: "rule_ok ts_parse ts_of rule"
  shows "\<exists>r. project_rule ts_of rule = Inr r \<and> canonicalize_rule ts_parse ts_of r = Inr rule"
proof -
  note v = validate_ruleD [OF valid]
  obtain a where a: "traverse_option project_abort (clr_abort rule) = Inr a"
    "traverse_option canonicalize_abort a = Inr (clr_abort rule)"
    using traverse_option_project [of "clr_abort rule" project_abort canonicalize_abort] v(6) abort_project
    by metis
  obtain e where e: "traverse_option (project_expiration ts_of) (clr_expiration rule) = Inr e"
    "traverse_option (canonicalize_expiration ts_parse ts_of) e = Inr (clr_expiration rule)"
    using traverse_option_project [of "clr_expiration rule" "project_expiration ts_of" "canonicalize_expiration ts_parse ts_of"]
      v(2) ok expiration_project unfolding rule_ok_def by (metis option.pred_inject(2))
  obtain t where t: "traverse_option (project_transition ts_of) (clr_transition rule) = Inr t"
    "traverse_option (canonicalize_current_transition ts_parse ts_of) t = Inr (clr_transition rule)"
    using traverse_option_project [of "clr_transition rule" "project_transition ts_of" "canonicalize_current_transition ts_parse ts_of"]
      v(4) ok transition_project unfolding rule_ok_def by (metis option.pred_inject(2))
  have ne: "traverse_option (\<lambda>x. canonicalize_noncurrent_expiration x (clr_selector rule))
      (map_option project_noncurrent_expiration (clr_noncurrent_version_expiration rule)) =
      Inr (clr_noncurrent_version_expiration rule)"
    using v(3) by (cases "clr_noncurrent_version_expiration rule") (simp_all add: noncurrent_expiration_project)
  have nt: "canonicalize_noncurrent_transition_list
      (map_option (\<lambda>t. [project_noncurrent_transition t]) (clr_noncurrent_version_transition rule)) (clr_selector rule) =
      Inr (clr_noncurrent_version_transition rule)"
    using v(5) by (cases "clr_noncurrent_version_transition rule") (simp_all add: noncurrent_transition_project)
  have marker: "\<not> (clr_expiration rule = Some ExpiredObjectDeleteMarker \<and> selector_has_tag_filter (clr_selector rule))"
    using v(2) by auto
  show ?thesis
    using canonicalize_project_selector [OF v(1)] a e t ne nt marker transition_list_project [OF t(2)]
    by (simp add: project_rule_def canonicalize_rule_def)
qed

section \<open>What canonicalization produces\<close>

text \<open>The S3 type of a number of days is \<^verbatim>\<open>i32\<close>.\<close>

definition i32_days :: "'ts s3_rule \<Rightarrow> bool" where
  "i32_days r \<longleftrightarrow> pred_option (\<lambda>e. pred_option (\<lambda>d. d \<le> i32_max) (se_days e)) (sr_expiration r)"

lemma timestamp_date_ok:
  assumes "timestamp_to_utc_with_messages ts_parse ts_of v a b c = Inr t"
  shows "date_ok ts_parse ts_of t"
  using assms by (auto simp: timestamp_to_utc_with_messages_def bindR_eq_Inr date_ok_def)

lemma canonicalize_expiration_ok:
  assumes "canonicalize_expiration ts_parse ts_of e = Inr x" "pred_option (\<lambda>d. d \<le> i32_max) (se_days e)"
  shows "expiration_ok ts_parse ts_of x"
  using assms by (auto simp: canonicalize_expiration_def bindR_eq_Inr positive_days_def timestamp_to_utc_def
      split: if_splits option.splits bool.splits dest: timestamp_date_ok)

lemma canonicalize_transition_ok:
  assumes "canonicalize_current_transition ts_parse ts_of t = Inr x"
  shows "transition_ok ts_parse ts_of x"
  using assms by (auto simp: canonicalize_current_transition_def bindR_eq_Inr transition_timestamp_to_utc_def
      split: option.splits dest: timestamp_date_ok)

lemma canonicalize_transition_list_ok:
  assumes "canonicalize_current_transition_list ts_parse ts_of ts = Inr x"
  shows "pred_option (transition_ok ts_parse ts_of) x"
proof (cases "(ts_parse, ts_of, ts)" rule: canonicalize_current_transition_list.cases)
  case (2 p q t)
  with assms show ?thesis
    by (auto simp: bindR_eq_Inr dest: canonicalize_transition_ok)
qed (use assms in simp_all)

lemma canonicalize_rule_ok:
  assumes "canonicalize_rule ts_parse ts_of r = Inr rule" "i32_days r"
  shows "rule_ok ts_parse ts_of rule"
proof -
  have e: "traverse_option (canonicalize_expiration ts_parse ts_of) (sr_expiration r) = Inr (clr_expiration rule)"
    and t: "canonicalize_current_transition_list ts_parse ts_of (sr_transitions r) = Inr (clr_transition rule)"
    using assms(1) by (auto simp: canonicalize_rule_def bindR_eq_Inr)
  have "pred_option (expiration_ok ts_parse ts_of) (clr_expiration rule)"
    using e assms(2) unfolding i32_days_def
    by (cases "sr_expiration r"; cases "clr_expiration rule") (auto simp: bindR_eq_Inr dest: canonicalize_expiration_ok)
  with canonicalize_transition_list_ok [OF t] show ?thesis
    by (simp add: rule_ok_def)
qed

lemma validate_rules_all: "validate_rules ids rules = Inr () \<Longrightarrow> \<forall>r \<in> set rules. validate_canonical_rule r = Inr ()"
  by (induction rules arbitrary: ids) (auto simp: bindR_eq_Inr)

lemma traverse_project_rules:
  assumes "\<forall>r \<in> set rules. validate_canonical_rule r = Inr () \<and> rule_ok ts_parse ts_of r"
  shows "\<exists>rs. traverse_list (project_rule ts_of) rules = Inr rs \<and>
    traverse_list (canonicalize_rule ts_parse ts_of) rs = Inr rules"
  using assms
proof (induction rules)
  case (Cons rule rules)
  then obtain rs where rs: "traverse_list (project_rule ts_of) rules = Inr rs"
    "traverse_list (canonicalize_rule ts_parse ts_of) rs = Inr rules"
    by (meson list.set_intros(2))
  obtain r where r: "project_rule ts_of rule = Inr r" "canonicalize_rule ts_parse ts_of r = Inr rule"
    using project_rule_roundtrip Cons.prems by (meson list.set_intros(1))
  show ?case
    by (intro exI [of _ "r # rs"]) (simp add: r rs)
qed simp

lemma traverse_list_all:
  assumes "traverse_list f xs = Inr ys" "\<forall>x \<in> set xs. P x" "\<forall>x y. f x = Inr y \<longrightarrow> P x \<longrightarrow> Q y"
  shows "\<forall>y \<in> set ys. Q y"
  using assms(1,2)
proof (induction xs arbitrary: ys)
  case (Cons x xs)
  then show ?case
    using assms(3) by (auto simp: bindR_eq_Inr)
qed simp

lemma stored_config_roundtrip:
  assumes valid: "validate_canonical_configuration config = Inr ()"
    and ok: "\<forall>rule \<in> set (clc_rules config). rule_ok ts_parse ts_of rule"
  shows "\<exists>rules. to_s3_rules ts_of config = Inr rules \<and> validate_and_canonicalize ts_parse ts_of rules = Inr config"
proof -
  have v: "validate_rules {} (clc_rules config) = Inr ()" and schema: "clc_schema_version config = SCHEMA_VERSION"
    using valid by (simp_all add: validate_canonical_configuration_def split: if_splits)
  have all: "\<forall>r \<in> set (clc_rules config). validate_canonical_rule r = Inr () \<and> rule_ok ts_parse ts_of r"
    using validate_rules_all [OF v] ok by blast
  obtain rs where rs: "traverse_list (project_rule ts_of) (clc_rules config) = Inr rs"
    "traverse_list (canonicalize_rule ts_parse ts_of) rs = Inr (clc_rules config)"
    using traverse_project_rules [OF all] by blast
  have "\<lparr>clc_schema_version = SCHEMA_VERSION, clc_rules = clc_rules config\<rparr> = config"
    using schema by simp
  with rs valid show ?thesis
    by (simp add: to_s3_rules_def validate_and_canonicalize_def)
qed

text \<open>C37: Putting a lifecycle configuration and reading it back are inverse. Whenever
  \<open>validate_and_canonicalize\<close> accepts a request, \<open>to_s3_rules\<close> succeeds on the configuration it
  stores, and putting the rules it returns stores the very same configuration again: same order of
  rules, same selectors with their sorted tags, same dates and days. The numbers of days of the
  request are 32-bit integers, as their S3 type says; nothing is assumed of the timestamps.
\<close>

theorem lifecycle_configuration_roundtrip:
  assumes accepted: "validate_and_canonicalize ts_parse ts_of input = Inr config"
    and i32: "list_all i32_days input"
  shows "\<exists>rules. to_s3_rules ts_of config = Inr rules \<and> validate_and_canonicalize ts_parse ts_of rules = Inr config"
proof (rule stored_config_roundtrip)
  obtain rules where rules: "traverse_list (canonicalize_rule ts_parse ts_of) input = Inr rules"
    "config = \<lparr>clc_schema_version = SCHEMA_VERSION, clc_rules = rules\<rparr>"
    "validate_canonical_configuration config = Inr ()"
    using accepted by (auto simp: validate_and_canonicalize_def bindR_eq_Inr Let_def)
  then show "validate_canonical_configuration config = Inr ()"
    by blast
  have "\<forall>r \<in> set rules. rule_ok ts_parse ts_of r"
  proof (rule traverse_list_all [OF rules(1)])
    show "\<forall>r \<in> set input. i32_days r"
      using i32 by (simp add: list_all_iff)
  qed (simp add: canonicalize_rule_ok)
  with rules(2) show "\<forall>rule \<in> set (clc_rules config). rule_ok ts_parse ts_of rule"
    by simp
qed

definition sample_rule :: "datetime s3_rule" where
  "sample_rule = \<lparr>sr_abort = None,
     sr_expiration = Some \<lparr>se_date = Some day_ns, se_days = None, se_expired_object_delete_marker = None\<rparr>,
     sr_filter = Some (empty_filter\<lparr>sf_and := Some \<lparr>sa_object_size_greater_than = Some 1, sa_object_size_less_than = None,
       sa_prefix = Some ''logs/'', sa_tags = Some [\<lparr>st_key = Some ''b'', st_value = None\<rparr>,
         \<lparr>st_key = Some ''a'', st_value = Some ''x''\<rparr>]\<rparr>\<rparr>),
     sr_id = Some ''r1'', sr_noncurrent_version_expiration = None,
     sr_noncurrent_version_transitions = Some [\<lparr>sy_newer_noncurrent_versions = Some 3,
       sy_noncurrent_days = Some 30, sy_storage_class = Some ''STANDARD_IA''\<rparr>],
     sr_prefix = None, sr_status = ''Enabled'', sr_transitions = None\<rparr>"

definition sample_config :: canonical_lifecycle_configuration where
  "sample_config = \<lparr>clc_schema_version = 1, clc_rules = [\<lparr>clr_id = Some ''r1'', clr_status = RuleEnabled,
     clr_selector = Modern (FAnd (Some ''logs/'') [CanonicalTag ''a'' ''x'', CanonicalTag ''b'' []] (Some 1) None),
     clr_expiration = Some (ExpirationDate day_ns), clr_noncurrent_version_expiration = None, clr_transition = None,
     clr_noncurrent_version_transition = Some \<lparr>nt_noncurrent_days = 30, nt_newer_noncurrent_versions = Some 3\<rparr>,
     clr_abort = None\<rparr>]\<rparr>"

theorem lifecycle_configuration_roundtrip_witness:
  "validate_and_canonicalize Some id [sample_rule] = Inr sample_config \<and> list_all i32_days [sample_rule] \<and>
   (\<exists>rules. to_s3_rules id sample_config = Inr rules \<and> validate_and_canonicalize Some id rules = Inr sample_config)"
proof (intro conjI)
  show accepted: "validate_and_canonicalize Some id [sample_rule] = Inr sample_config"
    by code_simp
  show i32: "list_all i32_days [sample_rule]"
    by (simp add: i32_days_def sample_rule_def)
  show "\<exists>rules. to_s3_rules id sample_config = Inr rules \<and> validate_and_canonicalize Some id rules = Inr sample_config"
    by (rule lifecycle_configuration_roundtrip [OF accepted i32])
qed

section \<open>Stored configurations that cannot be read back\<close>

definition days_unreadable :: "canonical_lifecycle_rule \<Rightarrow> bool" where
  "days_unreadable rule \<longleftrightarrow>
     (case clr_expiration rule of Some (ExpirationDays n) \<Rightarrow> i32_max < int n | _ \<Rightarrow> False)"

abbreviation unreadable_days :: app_error where
  "unreadable_days \<equiv> InvalidLifecycleConfiguration ''lifecycle expiration days are out of range''"

lemma project_rule_cases:
  assumes "validate_canonical_rule rule = Inr ()"
  shows "if days_unreadable rule then project_rule ts_of rule = Inl unreadable_days
    else \<exists>r. project_rule ts_of rule = Inr r"
proof -
  note v = validate_ruleD [OF assms]
  obtain a where a: "traverse_option project_abort (clr_abort rule) = Inr a"
    using traverse_option_project [of "clr_abort rule" project_abort canonicalize_abort] v(6) abort_project by metis
  have t: "\<exists>t. traverse_option (project_transition ts_of) (clr_transition rule) = Inr t"
    using v(4) by (cases "clr_transition rule"; cases "the (clr_transition rule)")
      (auto simp: i32_try_from_def bindR_eq_Inr split: if_splits)
  show ?thesis
    using t by (cases "clr_expiration rule"; cases "the (clr_expiration rule)")
      (auto simp: days_unreadable_def project_rule_def a i32_try_from_def invalid_def)
qed

lemma project_rules_cases:
  assumes "\<forall>r \<in> set rules. validate_canonical_rule r = Inr ()"
  shows "if list_ex days_unreadable rules then traverse_list (project_rule ts_of) rules = Inl unreadable_days
    else \<exists>rs. traverse_list (project_rule ts_of) rules = Inr rs"
  using assms
proof (induction rules)
  case (Cons rule rules)
  then show ?case
    using project_rule_cases [of rule ts_of] by (cases "days_unreadable rule") (auto split: if_splits)
qed simp

text \<open>C40: Which stored configurations can be shown. Validation bounds the days of a transition, of a
  noncurrent action and of an abort by \<open>i32::MAX\<close>, but not those of a current expiration. So of the
  stored documents that \<open>from_canonical_json\<close> accepts, \<open>to_s3_rules\<close> refuses exactly those in which some
  rule expires current versions after more than \<open>i32::MAX\<close> days, and represents every other one.
\<close>

theorem validated_but_unreadable:
  assumes "from_canonical_json of_json json = Inr config"
  shows "if list_ex days_unreadable (clc_rules config)
    then to_s3_rules ts_of config = Inl (InvalidLifecycleConfiguration ''lifecycle expiration days are out of range'')
    else \<exists>rules. to_s3_rules ts_of config = Inr rules"
proof -
  have v: "validate_canonical_configuration config = Inr ()"
    using assms by (auto simp: from_canonical_json_def bindR_eq_Inr)
  then have "validate_rules {} (clc_rules config) = Inr ()"
    by (simp add: validate_canonical_configuration_def split: if_splits)
  from project_rules_cases [OF validate_rules_all [OF this], of ts_of] show ?thesis
    by (simp add: to_s3_rules_def v)
qed

definition unreadable_config :: canonical_lifecycle_configuration where
  "unreadable_config = \<lparr>clc_schema_version = 1, clc_rules = [\<lparr>clr_id = None, clr_status = RuleEnabled,
     clr_selector = Modern FAll, clr_expiration = Some (ExpirationDays 2147483648),
     clr_noncurrent_version_expiration = None, clr_transition = None,
     clr_noncurrent_version_transition = None, clr_abort = None\<rparr>]\<rparr>"

theorem validated_but_unreadable_witness:
  "from_canonical_json (\<lambda>_. Some unreadable_config) [] = Inr unreadable_config \<and>
   to_s3_rules id unreadable_config = Inl unreadable_days \<and>
   (\<exists>rules. to_s3_rules id sample_config = Inr rules)"
proof (intro conjI)
  show u: "from_canonical_json (\<lambda>_. Some unreadable_config) [] = Inr unreadable_config"
    by (simp add: from_canonical_json_def unreadable_config_def validate_canonical_configuration_def SCHEMA_VERSION_def
        validate_canonical_rule_def validate_abort_def)
  show "to_s3_rules id unreadable_config = Inl unreadable_days"
    using validated_but_unreadable [OF u, of id] by (simp add: unreadable_config_def days_unreadable_def i32_max_def)
  have s: "from_canonical_json (\<lambda>_. Some sample_config) [] = Inr sample_config"
    by code_simp
  show "\<exists>rules. to_s3_rules id sample_config = Inr rules"
    using validated_but_unreadable [OF s, of id] by (simp add: sample_config_def days_unreadable_def)
qed

end
