(* ===== verification/Lifecycle_Decisions.thy ===== *)
theory Lifecycle_Decisions
  imports Lifecycle_Evaluator Lifecycle_Roundtrip "HOL-Library.Multiset"
begin

text \<open>
  What the lifecycle evaluator decides: when a rule's action is due, which action wins, that the
  order of identified rules does not matter, that a multipart upload is always evaluated, and exactly
  when the evaluation of a version fails.
\<close>

section \<open>Due times\<close>

definition due_after :: "int \<Rightarrow> datetime \<Rightarrow> nat \<Rightarrow> datetime \<Rightarrow> bool" where
  "due_after max_day start days due \<longleftrightarrow>
     utc_midnight due \<and> start + int days * day_ns < due \<and> due \<le> start + (int days + 1) * day_ns \<and>
     due \<le> max_day * day_ns"

lemma floor_plus_one:
  fixes a d :: int
  assumes "0 < d"
  shows "due mod d = 0 \<and> a < due \<and> due \<le> a + d \<longleftrightarrow> due = (a div d + 1) * d"
proof
  assume r: "due mod d = 0 \<and> a < due \<and> due \<le> a + d"
  then obtain q where q: "due = d * q"
    by (auto simp: mod_eq_0_iff_dvd)
  have m: "0 \<le> a mod d" "a mod d < d" "a = d * (a div d) + a mod d"
    using assms by simp_all
  have "d * (a div d) < d * q"
    using r q m by linarith
  moreover have "d * q < d * (a div d + 2)"
    using r q m unfolding distrib_left by linarith
  ultimately have "a div d < q" "q < a div d + 2"
    using assms by (simp_all add: mult_less_cancel_left_pos)
  then show "due = (a div d + 1) * d"
    using q by (simp add: mult.commute)
next
  assume e: "due = (a div d + 1) * d"
  have m: "0 \<le> a mod d" "a mod d < d" "a = a div d * d + a mod d"
    using assms by simp_all
  show "due mod d = 0 \<and> a < due \<and> due \<le> a + d"
    using e m unfolding distrib_right by (simp, linarith)
qed

lemma day_ns_pos [simp]: "0 < day_ns"
  by (simp add: day_ns_def)

lemma next_utc_midnight_eq_Inr:
  "next_utc_midnight_after_full_days max_day start days = Inr due \<longleftrightarrow> due_after max_day start days due"
proof -
  let ?a = "start + int days * day_ns"
  have "next_utc_midnight_after_full_days max_day start days = Inr due \<longleftrightarrow>
      due = (?a div day_ns + 1) * day_ns \<and> ?a div day_ns + 1 \<le> max_day"
    by (auto simp: next_utc_midnight_after_full_days_def Let_def)
  also have "\<dots> \<longleftrightarrow> due = (?a div day_ns + 1) * day_ns \<and> due \<le> max_day * day_ns"
    by (auto simp: mult_le_cancel_right_pos)
  also have "\<dots> \<longleftrightarrow> due mod day_ns = 0 \<and> ?a < due \<and> due \<le> ?a + day_ns \<and> due \<le> max_day * day_ns"
    using floor_plus_one [of day_ns due ?a] by auto
  finally show ?thesis
    by (simp add: due_after_def utc_midnight_def distrib_right add.assoc)
qed

lemma next_utc_midnight_eq_Inl:
  "next_utc_midnight_after_full_days max_day start days = Inl e \<Longrightarrow> e = range_error \<and> \<not> due_after max_day start days due"
  using next_utc_midnight_eq_Inr [of max_day start days due]
  by (auto simp: next_utc_midnight_after_full_days_def Let_def split: if_splits)

text \<open>The due time of an action is the first UTC midnight strictly after the given number of full
  days: \<open>next_utc_midnight_after_full_days\<close> returns \<open>due\<close> exactly when \<open>due\<close> is a midnight, lies
  strictly after \<open>start\<close> plus the days and at most one day later, and does not exceed the last
  representable date. So an object is never expired early, not even by a nanosecond, and never more
  than a day late; an instant that is itself a midnight waits for the next one.
\<close>

theorem next_utc_midnight_bounds:
  "next_utc_midnight_after_full_days max_day start days = Inr due \<longleftrightarrow>
   due mod 86400000000000 = 0 \<and> start + int days * 86400000000000 < due \<and>
   due \<le> start + (int days + 1) * 86400000000000 \<and> due \<le> max_day * 86400000000000"
  by (simp add: next_utc_midnight_eq_Inr due_after_def utc_midnight_def day_ns_def)

section \<open>Eligible actions\<close>

fun expiration_due :: "int \<Rightarrow> version_lifecycle_candidate \<Rightarrow> current_expiration \<Rightarrow> datetime \<Rightarrow> bool" where
  "expiration_due max_day c (ExpirationDate t) due = (due = t)"
| "expiration_due max_day c (ExpirationDays n) due = due_after max_day (vc_lifecycle_age_started_at c) n due"
| "expiration_due max_day c ExpiredObjectDeleteMarker due = False"

fun transition_due :: "int \<Rightarrow> version_lifecycle_candidate \<Rightarrow> current_transition \<Rightarrow> datetime \<Rightarrow> bool" where
  "transition_due max_day c (TransitionDate t) due = (due = t)"
| "transition_due max_day c (TransitionDays n) due = due_after max_day (vc_lifecycle_age_started_at c) n due"

definition enough_newer :: "nat \<Rightarrow> nat option \<Rightarrow> bool" where
  "enough_newer n required = pred_option (\<lambda>r. r < n) required"

text \<open>
  The actions a rule allows on a version at the evaluation's time, by kind: the specification the
  evaluator is compared with.
\<close>

fun rule_allows ::
  "int \<Rightarrow> lifecycle_evaluation_context \<Rightarrow> version_lifecycle_candidate \<Rightarrow> canonical_lifecycle_rule \<Rightarrow>
   lifecycle_action_kind \<Rightarrow> datetime \<Rightarrow> bool" where
  "rule_allows max_day facts c rule ExpireCurrent due \<longleftrightarrow>
     vc_is_latest c \<and> vt_kind (vc_target c) = ObjectKind \<and> due \<le> ec_database_now facts \<and>
     (\<exists>e. clr_expiration rule = Some e \<and> expiration_due max_day c e due)"
| "rule_allows max_day facts c rule DeleteExpiredMarker due \<longleftrightarrow>
     vc_is_latest c \<and> vt_kind (vc_target c) = DeleteMarkerKind \<and> ec_public_version_count facts = 1 \<and>
     (clr_expiration rule = Some ExpiredObjectDeleteMarker \<and> due = vc_lifecycle_age_started_at c \<or>
      due \<le> ec_database_now facts \<and> (\<exists>e. clr_expiration rule = Some e \<and> expiration_due max_day c e due))"
| "rule_allows max_day facts c rule ExpireNoncurrent due \<longleftrightarrow>
     \<not> vc_is_latest c \<and> due \<le> ec_database_now facts \<and>
     (\<exists>e start. clr_noncurrent_version_expiration rule = Some e \<and> vc_became_noncurrent_at c = Some start \<and>
        due_after max_day start (ne_noncurrent_days e) due \<and>
        enough_newer (ec_newer_noncurrent_count facts) (ne_newer_noncurrent_versions e))"
| "rule_allows max_day facts c rule TransitionCurrent due \<longleftrightarrow>
     vc_is_latest c \<and> vt_kind (vc_target c) = ObjectKind \<and> vc_primary_storage_class c = Some Standard \<and>
     due \<le> ec_database_now facts \<and> (\<exists>t. clr_transition rule = Some t \<and> transition_due max_day c t due)"
| "rule_allows max_day facts c rule TransitionNoncurrent due \<longleftrightarrow>
     \<not> vc_is_latest c \<and> vt_kind (vc_target c) = ObjectKind \<and> vc_primary_storage_class c = Some Standard \<and>
     due \<le> ec_database_now facts \<and>
     (\<exists>t start. clr_noncurrent_version_transition rule = Some t \<and> vc_became_noncurrent_at c = Some start \<and>
        due_after max_day start (nt_noncurrent_days t) due \<and>
        enough_newer (ec_newer_noncurrent_count facts) (nt_newer_noncurrent_versions t))"
| "rule_allows max_day facts c rule AbortIncompleteMultipartUpload due \<longleftrightarrow> False"

definition rule_applies :: "lifecycle_evaluation_context \<Rightarrow> version_lifecycle_candidate \<Rightarrow> canonical_lifecycle_rule \<Rightarrow> bool" where
  "rule_applies facts c rule \<longleftrightarrow> clr_status rule = RuleEnabled \<and>
     matches_filter (clr_selector rule) (vt_key (vc_target c)) (vc_size c) (ec_tags facts)"

definition eligible ::
  "int \<Rightarrow> lifecycle_evaluation_context \<Rightarrow> version_lifecycle_candidate \<Rightarrow> canonical_lifecycle_rule \<Rightarrow>
   lifecycle_action_kind \<Rightarrow> datetime \<Rightarrow> bool" where
  "eligible max_day facts c rule kind due \<longleftrightarrow> rule_applies facts c rule \<and> rule_allows max_day facts c rule kind due"

text \<open>The proposals of one collector: those of the actions in a list of kinds and due times.\<close>

definition proposals_of ::
  "version_lifecycle_candidate \<Rightarrow> lifecycle_evaluation_context \<Rightarrow> rule_identity \<Rightarrow> string \<Rightarrow>
   (lifecycle_action_kind \<times> datetime) list \<Rightarrow> lifecycle_proposal list" where
  "proposals_of c facts rid sid acts = map (\<lambda>(k, d). proposal c facts rid sid k d) acts"

lemma proposals_of_simps [simp]:
  "proposals_of c facts rid sid [] = []"
  "proposals_of c facts rid sid ((k, d) # acts) = proposal c facts rid sid k d # proposals_of c facts rid sid acts"
  "proposals_of c facts rid sid (xs @ ys) = proposals_of c facts rid sid xs @ proposals_of c facts rid sid ys"
  by (simp_all add: proposals_of_def)

lemma push_due_eq:
  "push_due ps c facts rid sid k d =
   ps @ proposals_of c facts rid sid (if d \<le> ec_database_now facts then [(k, d)] else [])"
  by (simp add: push_due_def)

lemma enough_newer_iff:
  "(case r of None \<Rightarrow> True | Some required \<Rightarrow> required < n) \<longleftrightarrow> enough_newer n r"
  "(case r of None \<Rightarrow> False | Some required \<Rightarrow> n \<le> required) \<longleftrightarrow> \<not> enough_newer n r"
  by (cases r; auto simp: enough_newer_def)+

lemma due_after_unique: "due_after max_day start n d \<Longrightarrow> due_after max_day start n d' \<longleftrightarrow> d' = d"
  using next_utc_midnight_eq_Inr [of max_day start n] by (metis sum.inject(2))

text \<open>The action of one kind that is due by \<open>now\<close>, none when its due time cannot be represented.\<close>

definition due_list ::
  "lifecycle_action_kind \<Rightarrow> datetime \<Rightarrow> datetime app_result \<Rightarrow> (lifecycle_action_kind \<times> datetime) list" where
  "due_list kind now r = (case r of Inl _ \<Rightarrow> [] | Inr d \<Rightarrow> if d \<le> now then [(kind, d)] else [])"

lemma in_due_list: "(k, d) \<in> set (due_list kind now r) \<longleftrightarrow> k = kind \<and> d \<le> now \<and> r = Inr d"
  by (auto simp: due_list_def split: sum.splits)

lemma due_list_length: "length (due_list kind now r) \<le> 1"
  by (auto simp: due_list_def split: sum.splits)

fun transition_time :: "int \<Rightarrow> version_lifecycle_candidate \<Rightarrow> current_transition \<Rightarrow> datetime app_result" where
  "transition_time max_day c (TransitionDate t) = Inr t"
| "transition_time max_day c (TransitionDays n) = next_utc_midnight_after_full_days max_day (vc_lifecycle_age_started_at c) n"

fun expiration_time :: "int \<Rightarrow> version_lifecycle_candidate \<Rightarrow> current_expiration \<Rightarrow> datetime app_result" where
  "expiration_time max_day c (ExpirationDate t) = Inr t"
| "expiration_time max_day c (ExpirationDays n) = next_utc_midnight_after_full_days max_day (vc_lifecycle_age_started_at c) n"
| "expiration_time max_day c ExpiredObjectDeleteMarker = Inl range_error"

lemma transition_time_eq: "transition_time max_day c t = Inr d \<longleftrightarrow> transition_due max_day c t d"
  by (cases t) (auto simp: next_utc_midnight_eq_Inr)

lemma expiration_time_eq: "expiration_time max_day c e = Inr d \<longleftrightarrow> expiration_due max_day c e d"
  by (cases e) (auto simp: next_utc_midnight_eq_Inr)

definition transition_acts ::
  "int \<Rightarrow> lifecycle_evaluation_context \<Rightarrow> version_lifecycle_candidate \<Rightarrow> canonical_lifecycle_rule \<Rightarrow>
   (lifecycle_action_kind \<times> datetime) list" where
  "transition_acts max_day facts c rule =
     (if vt_kind (vc_target c) = ObjectKind \<and> vc_primary_storage_class c = Some Standard then
        if vc_is_latest c then
          (case clr_transition rule of None \<Rightarrow> []
           | Some t \<Rightarrow> due_list TransitionCurrent (ec_database_now facts) (transition_time max_day c t))
        else
          (case clr_noncurrent_version_transition rule of None \<Rightarrow> []
           | Some t \<Rightarrow>
              (case vc_became_noncurrent_at c of None \<Rightarrow> []
               | Some start \<Rightarrow>
                   if enough_newer (ec_newer_noncurrent_count facts) (nt_newer_noncurrent_versions t)
                   then due_list TransitionNoncurrent (ec_database_now facts)
                     (next_utc_midnight_after_full_days max_day start (nt_noncurrent_days t))
                   else []))
      else [])"

definition current_acts ::
  "int \<Rightarrow> lifecycle_evaluation_context \<Rightarrow> version_lifecycle_candidate \<Rightarrow> current_expiration option \<Rightarrow>
   (lifecycle_action_kind \<times> datetime) list app_result" where
  "current_acts max_day facts c expiration =
     (case expiration of None \<Rightarrow> Inr []
      | Some e \<Rightarrow>
         if vt_kind (vc_target c) = ObjectKind then
           (if e = ExpiredObjectDeleteMarker then Inr []
            else bindR (expiration_time max_day c e) (\<lambda>d. Inr (due_list ExpireCurrent (ec_database_now facts) (Inr d))))
         else if ec_public_version_count facts \<noteq> 1 then Inr []
         else if e = ExpiredObjectDeleteMarker then Inr [(DeleteExpiredMarker, vc_lifecycle_age_started_at c)]
         else bindR (expiration_time max_day c e) (\<lambda>d. Inr (due_list DeleteExpiredMarker (ec_database_now facts) (Inr d))))"

definition noncurrent_acts ::
  "int \<Rightarrow> lifecycle_evaluation_context \<Rightarrow> version_lifecycle_candidate \<Rightarrow> noncurrent_expiration option \<Rightarrow>
   (lifecycle_action_kind \<times> datetime) list app_result" where
  "noncurrent_acts max_day facts c expiration =
     (case expiration of None \<Rightarrow> Inr []
      | Some e \<Rightarrow>
         (case vc_became_noncurrent_at c of None \<Rightarrow> Inr []
          | Some start \<Rightarrow>
             bindR (next_utc_midnight_after_full_days max_day start (ne_noncurrent_days e)) (\<lambda>d.
             Inr (if enough_newer (ec_newer_noncurrent_count facts) (ne_newer_noncurrent_versions e)
                  then due_list ExpireNoncurrent (ec_database_now facts) (Inr d) else []))))"

definition expiration_acts ::
  "int \<Rightarrow> lifecycle_evaluation_context \<Rightarrow> version_lifecycle_candidate \<Rightarrow> canonical_lifecycle_rule \<Rightarrow>
   (lifecycle_action_kind \<times> datetime) list app_result" where
  "expiration_acts max_day facts c rule =
     (if vc_is_latest c then current_acts max_day facts c (clr_expiration rule)
      else noncurrent_acts max_day facts c (clr_noncurrent_version_expiration rule))"

lemma push_due_list: "Inr (push_due ps c facts rid sid k d) =
   Inr (ps @ proposals_of c facts rid sid (due_list k (ec_database_now facts) (Inr d)))"
  by (simp add: push_due_def due_list_def)

lemma collect_transition_eq:
  "collect_transition_proposal max_day ps c facts rule rid sid =
   Inr (ps @ proposals_of c facts rid sid (transition_acts max_day facts c rule))"
  unfolding collect_transition_proposal_def transition_acts_def enough_newer_iff push_due_list
  by (cases "clr_transition rule"; cases "the (clr_transition rule)")
    (auto simp: due_list_def enough_newer_iff split: option.splits sum.splits)

lemma collect_current_eq:
  "collect_current_proposal max_day ps c facts expiration rid sid =
   bindR (current_acts max_day facts c expiration) (\<lambda>acts. Inr (ps @ proposals_of c facts rid sid acts))"
  unfolding collect_current_proposal_def current_acts_def push_due_list
  by (cases expiration; cases "the expiration"; cases "expiration_time max_day c (the expiration)";
      cases "vt_kind (vc_target c)") simp_all

lemma collect_noncurrent_eq:
  "collect_noncurrent_proposal max_day ps c facts expiration rid sid =
   bindR (noncurrent_acts max_day facts c expiration) (\<lambda>acts. Inr (ps @ proposals_of c facts rid sid acts))"
  unfolding collect_noncurrent_proposal_def noncurrent_acts_def enough_newer_iff push_due_list
  by (cases expiration; cases "vc_became_noncurrent_at c";
      cases "next_utc_midnight_after_full_days max_day (the (vc_became_noncurrent_at c)) (ne_noncurrent_days (the expiration))")
    simp_all

lemma evaluate_rule_eq:
  "evaluate_rule max_day ps c facts ordinal rule =
   (if rule_applies facts c rule then
      bindR (rule_identity_for (clr_id rule) ordinal) (\<lambda>(rid, sid).
      bindR (expiration_acts max_day facts c rule) (\<lambda>acts.
      Inr (ps @ proposals_of c facts rid sid (transition_acts max_day facts c rule @ acts))))
    else Inr ps)"
proof (cases "rule_applies facts c rule")
  case True
  then show ?thesis
    by (cases "rule_identity_for (clr_id rule) ordinal")
      (auto simp: evaluate_rule_def rule_applies_def collect_transition_eq collect_current_eq collect_noncurrent_eq
        expiration_acts_def)
qed (auto simp: evaluate_rule_def rule_applies_def)

lemma in_transition_acts:
  "(k, d) \<in> set (transition_acts max_day facts c rule) \<longleftrightarrow>
   k \<in> {TransitionCurrent, TransitionNoncurrent} \<and> rule_allows max_day facts c rule k d"
  unfolding transition_acts_def
  by (cases "clr_transition rule"; cases "clr_noncurrent_version_transition rule"; cases "vc_became_noncurrent_at c")
    (auto simp: in_due_list transition_time_eq next_utc_midnight_eq_Inr)

lemma in_current_acts:
  assumes "current_acts max_day facts c (clr_expiration rule) = Inr acts" "vc_is_latest c"
  shows "(k, d) \<in> set acts \<longleftrightarrow>
    k \<in> {ExpireCurrent, DeleteExpiredMarker} \<and> rule_allows max_day facts c rule k d"
proof (cases "clr_expiration rule")
  case None
  with assms show ?thesis
    by (auto simp: current_acts_def)
next
  case (Some e)
  have time: "expiration_due max_day c e d' \<longleftrightarrow> d' = t" if "expiration_time max_day c e = Inr t" for t d'
    using that expiration_time_eq [of max_day c e d'] by auto
  show ?thesis
  proof (cases "vt_kind (vc_target c)")
    case ObjectKind
    with assms Some show ?thesis
      by (cases "expiration_time max_day c e") (auto simp: current_acts_def in_due_list time split: if_splits)
  next
    case DeleteMarkerKind
    with assms Some show ?thesis
      by (cases "expiration_time max_day c e") (auto simp: current_acts_def in_due_list time split: if_splits)
  qed
qed

lemma in_noncurrent_acts:
  assumes "noncurrent_acts max_day facts c (clr_noncurrent_version_expiration rule) = Inr acts" "\<not> vc_is_latest c"
  shows "(k, d) \<in> set acts \<longleftrightarrow> k = ExpireNoncurrent \<and> rule_allows max_day facts c rule k d"
  using assms unfolding noncurrent_acts_def
  by (cases "clr_noncurrent_version_expiration rule"; cases "vc_became_noncurrent_at c")
    (auto simp: bindR_eq_Inr due_list_def next_utc_midnight_eq_Inr due_after_unique split: if_splits)

lemma acts_allowed:
  assumes "expiration_acts max_day facts c rule = Inr acts"
  shows "(k, d) \<in> set (transition_acts max_day facts c rule @ acts) \<longleftrightarrow> rule_allows max_day facts c rule k d"
proof (cases "vc_is_latest c")
  case True
  with assms have "(k, d) \<in> set acts \<longleftrightarrow>
      k \<in> {ExpireCurrent, DeleteExpiredMarker} \<and> rule_allows max_day facts c rule k d"
    by (intro in_current_acts) (simp_all add: expiration_acts_def)
  with True show ?thesis
    by (cases k) (simp_all add: in_transition_acts)
next
  case False
  with assms have "(k, d) \<in> set acts \<longleftrightarrow> k = ExpireNoncurrent \<and> rule_allows max_day facts c rule k d"
    by (intro in_noncurrent_acts) (simp_all add: expiration_acts_def)
  with False show ?thesis
    by (cases k) (simp_all add: in_transition_acts)
qed

text \<open>The proposals the rule at a position may make.\<close>

definition rule_proposals ::
  "int \<Rightarrow> lifecycle_evaluation_context \<Rightarrow> version_lifecycle_candidate \<Rightarrow> nat \<Rightarrow> canonical_lifecycle_rule \<Rightarrow>
   lifecycle_proposal set" where
  "rule_proposals max_day facts c ordinal rule =
     (case rule_identity_for (clr_id rule) ordinal of
        Inl _ \<Rightarrow> {}
      | Inr (rid, sid) \<Rightarrow> {proposal c facts rid sid kind due | kind due. eligible max_day facts c rule kind due})"

lemma set_proposals_of: "set (proposals_of c facts rid sid acts) = (\<lambda>(k, d). proposal c facts rid sid k d) ` set acts"
  by (simp add: proposals_of_def)

lemma image_pair_Collect: "(\<lambda>(k, d). f k d) ` A = {f k d | k d. (k, d) \<in> A}"
  by auto

lemma evaluate_rule_set:
  assumes "evaluate_rule max_day ps c facts ordinal rule = Inr ps'"
  shows "set ps' = set ps \<union> rule_proposals max_day facts c ordinal rule"
proof (cases "rule_applies facts c rule")
  case True
  then obtain rid sid acts where r: "rule_identity_for (clr_id rule) ordinal = Inr (rid, sid)"
    "expiration_acts max_day facts c rule = Inr acts"
    "ps' = ps @ proposals_of c facts rid sid (transition_acts max_day facts c rule @ acts)"
    using assms unfolding evaluate_rule_eq by (auto simp: bindR_eq_Inr)
  have "(k, d) \<in> set (transition_acts max_day facts c rule @ acts) \<longleftrightarrow> eligible max_day facts c rule k d" for k d
    unfolding eligible_def using acts_allowed [OF r(2)] True by blast
  then have "set (proposals_of c facts rid sid (transition_acts max_day facts c rule @ acts)) =
      rule_proposals max_day facts c ordinal rule"
    unfolding set_proposals_of image_pair_Collect rule_proposals_def r(1) by simp
  then show ?thesis
    unfolding r(3) set_append by (rule arg_cong)
next
  case False
  then have "rule_proposals max_day facts c ordinal rule = {}"
    by (cases "rule_identity_for (clr_id rule) ordinal") (auto simp: rule_proposals_def eligible_def)
  with False assms show ?thesis
    unfolding evaluate_rule_eq by simp
qed

lemma evaluate_rules_set:
  assumes "evaluate_rules max_day ps c facts ordinal rules = Inr ps'"
  shows "set ps' = set ps \<union> (\<Union>(i, rule) \<in> set (enumerate ordinal rules). rule_proposals max_day facts c i rule)"
  using assms
proof (induction rules arbitrary: ps ordinal)
  case (Cons rule rules)
  obtain qs where q: "evaluate_rule max_day ps c facts ordinal rule = Inr qs"
    "evaluate_rules max_day qs c facts (Suc ordinal) rules = Inr ps'"
    using Cons.prems by (auto simp: bindR_eq_Inr)
  have "set (enumerate ordinal (rule # rules)) = insert (ordinal, rule) (set (enumerate (Suc ordinal) rules))"
    by simp
  then show ?case
    unfolding Cons.IH [OF q(2)] evaluate_rule_set [OF q(1)] by (simp add: Un_assoc)
qed simp

lemma evaluate_rules_identity:
  assumes "evaluate_rules max_day ps c facts ordinal rules = Inr ps'" "(i, rule) \<in> set (enumerate ordinal rules)"
    "rule_applies facts c rule"
  shows "\<exists>x. rule_identity_for (clr_id rule) i = Inr x"
  using assms(1,2)
proof (induction rules arbitrary: ps ordinal)
  case (Cons r rules)
  obtain qs where q: "evaluate_rule max_day ps c facts ordinal r = Inr qs"
    "evaluate_rules max_day qs c facts (Suc ordinal) rules = Inr ps'"
    using Cons.prems(1) by (auto simp: bindR_eq_Inr)
  consider "i = ordinal" "rule = r" | "(i, rule) \<in> set (enumerate (Suc ordinal) rules)"
    using Cons.prems(2) by auto
  then show ?case
  proof cases
    case 1
    with q(1) assms(3) show ?thesis
      unfolding evaluate_rule_eq by (cases "rule_identity_for (clr_id r) ordinal") simp_all
  next
    case 2
    with q(2) show ?thesis
      by (rule Cons.IH)
  qed
qed simp

section \<open>The winner\<close>

lemma first_of_sort_key:
  "case first_of (sort_key f xs) of
     None \<Rightarrow> xs = []
   | Some x \<Rightarrow> x \<in> set xs \<and> (\<forall>y \<in> set xs. f x \<le> f y)"
proof (cases "sort_key f xs")
  case Nil
  then show ?thesis
    by (simp add: first_of_def sort_key_Nil)
next
  case (Cons x ys)
  then have "x \<in> set xs"
    by (metis list.set_intros(1) set_sort)
  moreover have "\<forall>y \<in> set xs. f x \<le> f y"
  proof
    fix y
    assume "y \<in> set xs"
    then have "y \<in> set (x # ys)"
      using Cons by (metis set_sort)
    moreover have "sorted (map f (x # ys))"
      using sorted_sort_key [of f xs] Cons by simp
    ultimately show "f x \<le> f y"
      by auto
  qed
  ultimately show ?thesis
    using Cons by (simp add: first_of_def)
qed

text \<open>Everything the rules of the configuration may propose for a version.\<close>

definition competing ::
  "int \<Rightarrow> lifecycle_evaluation_context \<Rightarrow> version_lifecycle_candidate \<Rightarrow> lifecycle_proposal set" where
  "competing max_day facts c =
     (\<Union>(i, rule) \<in> set (enumerate 0 (clc_rules (ec_configuration facts))). rule_proposals max_day facts c i rule)"

lemma evaluate_versionD:
  assumes "ec_candidate facts = VersionCandidate c" "evaluate_candidate max_day facts = Inr result"
  obtains ps where "evaluate_rules max_day [] c facts 0 (clc_rules (ec_configuration facts)) = Inr ps"
    "result = map_option lp_action (select_winner ps)" "set ps = competing max_day facts c"
proof -
  obtain ps where ps: "evaluate_rules max_day [] c facts 0 (clc_rules (ec_configuration facts)) = Inr ps"
    "result = map_option lp_action (select_winner ps)"
    using assms by (auto simp: evaluate_candidate_def bindR_eq_Inr split: if_splits)
  show thesis
    by (rule that [OF ps]) (use evaluate_rules_set [OF ps(1)] in \<open>simp add: competing_def\<close>)
qed

lemma no_proposals_no_eligible:
  assumes rules: "evaluate_rules max_day [] c facts 0 (clc_rules (ec_configuration facts)) = Inr ps"
    and none: "competing max_day facts c = {}" and rule: "rule \<in> set (clc_rules (ec_configuration facts))"
  shows "\<not> eligible max_day facts c rule kind due"
proof
  assume e: "eligible max_day facts c rule kind due"
  have "rule \<in> snd ` set (enumerate 0 (clc_rules (ec_configuration facts)))"
    using rule by (metis list.set_map map_snd_enumerate)
  then obtain i where i: "(i, rule) \<in> set (enumerate 0 (clc_rules (ec_configuration facts)))"
    by (metis imageE prod.collapse)
  have "rule_applies facts c rule"
    using e by (simp add: eligible_def)
  then obtain rid sid where "rule_identity_for (clr_id rule) i = Inr (rid, sid)"
    using evaluate_rules_identity [OF rules i] by (metis surj_pair)
  then have "proposal c facts rid sid kind due \<in> rule_proposals max_day facts c i rule"
    unfolding rule_proposals_def using e by auto
  with i none show False
    unfolding competing_def by (metis (mono_tags, lifting) UN_I case_prod_conv empty_iff)
qed

text \<open>C36: The evaluator decides exactly by the rules. When it returns no action for a version, no rule
  of the configuration makes any action eligible. When it returns an action, the action is proposed
  by an enabled, matching rule whose action is due (\<open>eligible\<close>), it targets the evaluated version,
  and no other eligible action comes before it in the order of effect priority, due time and rule
  identity.
\<close>

theorem evaluate_candidate_decides:
  assumes version: "ec_candidate facts = VersionCandidate c"
    and result: "evaluate_candidate max_day facts = Inr result"
  shows "case result of
     None \<Rightarrow> \<forall>rule \<in> set (clc_rules (ec_configuration facts)). \<forall>kind due. \<not> eligible max_day facts c rule kind due
   | Some action \<Rightarrow> la_target action = VersionTarget (vc_target c) \<and>
       (\<exists>p \<in> competing max_day facts c. lp_action p = action \<and>
          (\<forall>q \<in> competing max_day facts c. proposal_sort_key p \<le> proposal_sort_key q))"
proof -
  obtain ps where ps: "evaluate_rules max_day [] c facts 0 (clc_rules (ec_configuration facts)) = Inr ps"
    "result = map_option lp_action (select_winner ps)" "set ps = competing max_day facts c"
    by (rule evaluate_versionD [OF version result])
  have target: "la_target (lp_action p) = VersionTarget (vc_target c)" if "p \<in> competing max_day facts c" for p
    using that unfolding competing_def rule_proposals_def
    by (auto simp: proposal_def split: sum.splits)
  note win = first_of_sort_key [where f = proposal_sort_key and xs = ps, folded select_winner_def]
  show ?thesis
  proof (cases "select_winner ps")
    case None
    with win ps(3) have "competing max_day facts c = {}"
      by simp
    then show ?thesis
      using no_proposals_no_eligible [OF ps(1)] ps(2) None by simp
  next
    case (Some p)
    with win ps(3) have p: "p \<in> competing max_day facts c" "\<forall>q \<in> competing max_day facts c. proposal_sort_key p \<le> proposal_sort_key q"
      by simp_all
    then show ?thesis
      using ps(2) Some target [OF p(1)] by (simp, intro bexI [OF _ p(1)] conjI refl)
  qed
qed

text \<open>An unversioned object two days old, a rule that expires it and one that moves it to cold storage.\<close>

definition base_rule :: canonical_lifecycle_rule where
  "base_rule = \<lparr>clr_id = None, clr_status = RuleEnabled, clr_selector = Modern FAll, clr_expiration = None,
     clr_noncurrent_version_expiration = None, clr_transition = None, clr_noncurrent_version_transition = None,
     clr_abort = None\<rparr>"

definition sample_candidate :: version_lifecycle_candidate where
  "sample_candidate = \<lparr>vc_target = \<lparr>vt_bucket = ''b'', vt_key = ''k'', vt_version_row_id = ''v1'',
       vt_public_version_id = NullVersion, vt_kind = ObjectKind, vt_object_id = Some ''o1'', vt_sequence = 1\<rparr>,
     vc_is_latest = True, vc_bucket_versioning_state = Unversioned, vc_primary_storage_class = Some Standard,
     vc_hot_residency_verified = True, vc_size = 10, vc_lifecycle_age_started_at = 1, vc_became_noncurrent_at = None\<rparr>"

definition sample_context :: "canonical_lifecycle_rule list \<Rightarrow> lifecycle_evaluation_context" where
  "sample_context rules = \<lparr>ec_candidate = VersionCandidate sample_candidate, ec_tags = [],
     ec_public_version_count = 1, ec_newer_noncurrent_count = 0, ec_config_revision = 1,
     ec_configuration = \<lparr>clc_schema_version = 1, clc_rules = rules\<rparr>, ec_database_now = 3 * day_ns\<rparr>"

definition sample_rules :: "canonical_lifecycle_rule list" where
  "sample_rules = [base_rule\<lparr>clr_id := Some ''ia'', clr_transition := Some (TransitionDays 1)\<rparr>,
     base_rule\<lparr>clr_id := Some ''x'', clr_expiration := Some (ExpirationDays 2)\<rparr>]"

definition sample_action :: new_lifecycle_action where
  "sample_action = \<lparr>la_idempotency_key = [], la_bucket = ''b'', la_config_revision = 1, la_rule_identity = RuleId ''x'',
     la_action_kind = ExpireCurrent, la_target = VersionTarget (vc_target sample_candidate), la_due_at = 3 * day_ns\<rparr>"

theorem evaluate_candidate_decides_witness:
  "ec_candidate (sample_context sample_rules) = VersionCandidate sample_candidate \<and>
   evaluate_candidate 100 (sample_context sample_rules) = Inr (Some sample_action) \<and>
   (\<exists>p \<in> competing 100 (sample_context sample_rules) sample_candidate. lp_action p = sample_action \<and>
      (\<forall>q \<in> competing 100 (sample_context sample_rules) sample_candidate. proposal_sort_key p \<le> proposal_sort_key q))"
proof (intro conjI)
  show c: "ec_candidate (sample_context sample_rules) = VersionCandidate sample_candidate"
    by (simp add: sample_context_def)
  show r: "evaluate_candidate 100 (sample_context sample_rules) = Inr (Some sample_action)"
    by code_simp
  show "\<exists>p \<in> competing 100 (sample_context sample_rules) sample_candidate. lp_action p = sample_action \<and>
      (\<forall>q \<in> competing 100 (sample_context sample_rules) sample_candidate. proposal_sort_key p \<le> proposal_sort_key q)"
    using evaluate_candidate_decides [OF c r] by simp
qed

section \<open>Order of the rules\<close>

lemma traverse_list_same_error:
  assumes "\<forall>x \<in> set xs. \<forall>e. f x = Inl e \<longrightarrow> e = e0"
  shows "traverse_list f xs =
    (if [x \<leftarrow> xs. isl (f x)] = [] then Inr (map (\<lambda>x. projr (f x)) xs) else Inl e0)"
  using assms
proof (induction xs)
  case (Cons x xs)
  then show ?case
    by (cases "f x") auto
qed simp

lemma traverse_list_perm:
  assumes perm: "mset xs = mset ys" and err: "\<forall>x \<in> set xs. \<forall>e. f x = Inl e \<longrightarrow> e = e0"
  shows "traverse_list f xs = Inl e0 \<and> traverse_list f ys = Inl e0 \<or>
    (\<exists>as bs. traverse_list f xs = Inr as \<and> traverse_list f ys = Inr bs \<and> mset as = mset bs)"
proof -
  have set: "set xs = set ys"
    by (rule mset_eq_setD [OF perm])
  have "[x \<leftarrow> xs. isl (f x)] = [] \<longleftrightarrow> [x \<leftarrow> ys. isl (f x)] = []"
    by (simp add: filter_empty_conv set)
  then show ?thesis
    using traverse_list_same_error [OF err] traverse_list_same_error [OF err [unfolded set]] perm by simp
qed

lemma mset_concat_perm: "mset as = mset bs \<Longrightarrow> mset (concat as) = mset (concat bs)"
  unfolding mset_concat sum_mset_sum_list [symmetric] mset_map by simp

lemma first_of_sort_key_perm:
  assumes "mset xs = mset ys" "inj_on f (set xs)"
  shows "first_of (sort_key f xs) = first_of (sort_key f ys)"
  using sort_key_inj_key_eq [OF _ assms(2), of "sort_key f ys"] assms(1) by simp

lemma expiration_acts_error:
  assumes "expiration_acts max_day facts c rule = Inl e"
  shows "e = range_error"
proof -
  have "expiration_time max_day c x = Inl e' \<Longrightarrow> e' = range_error" for x e'
    by (cases x) (auto dest: next_utc_midnight_eq_Inl)
  with assms show ?thesis
    unfolding expiration_acts_def current_acts_def noncurrent_acts_def
    by (auto simp: bindR_eq_Inl split: if_splits option.splits dest: next_utc_midnight_eq_Inl)
qed

lemma evaluate_rule_append:
  assumes "clr_id rule \<noteq> None"
  shows "evaluate_rule max_day ps c facts ordinal rule =
    bindR (evaluate_rule max_day [] c facts 0 rule) (\<lambda>qs. Inr (ps @ qs))"
  using assms by (cases "expiration_acts max_day facts c rule") (auto simp: evaluate_rule_eq rule_identity_for_def)

lemma evaluate_rules_traverse:
  assumes "list_all (\<lambda>r. clr_id r \<noteq> None) rules"
  shows "evaluate_rules max_day ps c facts ordinal rules =
    bindR (traverse_list (evaluate_rule max_day [] c facts 0) rules) (\<lambda>qss. Inr (ps @ concat qss))"
  using assms
proof (induction rules arbitrary: ps ordinal)
  case (Cons rule rules)
  then have id: "clr_id rule \<noteq> None" and IH: "\<And>ps ordinal. evaluate_rules max_day ps c facts ordinal rules =
      bindR (traverse_list (evaluate_rule max_day [] c facts 0) rules) (\<lambda>qss. Inr (ps @ concat qss))"
    by simp_all
  show ?case
    unfolding evaluate_rules.simps IH evaluate_rule_append [OF id, of max_day ps c facts ordinal]
    by (cases "evaluate_rule max_day [] c facts 0 rule";
        cases "traverse_list (evaluate_rule max_day [] c facts 0) rules") simp_all
qed simp

lemma evaluate_rule_error:
  assumes "evaluate_rule max_day [] c facts 0 rule = Inl e" "clr_id rule \<noteq> None"
  shows "e = range_error"
  using assms unfolding evaluate_rule_eq
  by (auto simp: bindR_eq_Inl rule_identity_for_def split: if_splits option.splits dest: expiration_acts_error)

lemma allowed_kind_unique:
  assumes "rule_allows max_day facts c rule k d" "rule_allows max_day facts c rule k' d'"
    "effect_priority c k = effect_priority c k'"
  shows "k = k'"
  using assms by (cases k; cases k') (auto simp: effect_priority_def split: bucket_versioning_state.splits if_splits)

lemma proposal_key:
  "proposal_sort_key (proposal c facts rid sid k d) = (effect_priority c k, d, sid)"
  by (simp add: proposal_sort_key_def proposal_def)

lemma rule_proposals_id:
  assumes "p \<in> rule_proposals max_day facts c i rule" "clr_id rule \<noteq> None"
  obtains rid k d where "clr_id rule = Some rid" "rule_allows max_day facts c rule k d"
    "p = proposal c facts (RuleId rid) (''id:'' @ rid) k d"
  using assms by (auto simp: rule_proposals_def rule_identity_for_def eligible_def)

lemma in_enumerateD: "(i, x) \<in> set (enumerate n xs) \<Longrightarrow> x \<in> set xs"
  by (induction xs arbitrary: n) auto

lemma proposals_key_inj:
  assumes ids: "list_all (\<lambda>r. clr_id r \<noteq> None) rules" and dist: "distinct (map clr_id rules)"
  shows "inj_on proposal_sort_key (\<Union>(i, rule) \<in> set (enumerate 0 rules). rule_proposals max_day facts c i rule)"
proof (rule inj_onI)
  fix p q
  assume p: "p \<in> (\<Union>(i, rule) \<in> set (enumerate 0 rules). rule_proposals max_day facts c i rule)"
    and q: "q \<in> (\<Union>(i, rule) \<in> set (enumerate 0 rules). rule_proposals max_day facts c i rule)"
    and key: "proposal_sort_key p = proposal_sort_key q"
  obtain i r where r: "(i, r) \<in> set (enumerate 0 rules)" "p \<in> rule_proposals max_day facts c i r"
    using p by (elim UN_E) (simp add: case_prod_beta, metis prod.collapse)
  obtain j r' where r': "(j, r') \<in> set (enumerate 0 rules)" "q \<in> rule_proposals max_day facts c j r'"
    using q by (elim UN_E) (simp add: case_prod_beta, metis prod.collapse)
  have mem: "r \<in> set rules" "r' \<in> set rules" and id: "clr_id r \<noteq> None" "clr_id r' \<noteq> None"
    using in_enumerateD [OF r(1)] in_enumerateD [OF r'(1)] ids by (simp_all add: list_all_iff)
  obtain rid k d where a: "clr_id r = Some rid" "rule_allows max_day facts c r k d"
    "p = proposal c facts (RuleId rid) (''id:'' @ rid) k d"
    by (rule rule_proposals_id [OF r(2) id(1)])
  obtain rid' k' d' where b: "clr_id r' = Some rid'" "rule_allows max_day facts c r' k' d'"
    "q = proposal c facts (RuleId rid') (''id:'' @ rid') k' d'"
    by (rule rule_proposals_id [OF r'(2) id(2)])
  have e: "effect_priority c k = effect_priority c k'" "d = d'" "rid = rid'"
    using key unfolding a(3) b(3) proposal_key by simp_all
  then have "clr_id r = clr_id r'"
    using a(1) b(1) by simp
  then have "r = r'"
    by (rule inj_onD [OF conjunct2 [OF dist [unfolded distinct_map]]]) (rule mem)+
  then have "k = k'"
    using allowed_kind_unique [OF a(2) _ e(1)] b(2) by simp
  with e show "p = q"
    unfolding a(3) b(3) by simp
qed

definition with_rules :: "lifecycle_evaluation_context \<Rightarrow> canonical_lifecycle_rule list \<Rightarrow> lifecycle_evaluation_context" where
  "with_rules facts rules = facts\<lparr>ec_configuration := (ec_configuration facts)\<lparr>clc_rules := rules\<rparr>\<rparr>"

lemma with_rules_simps [simp]:
  "ec_candidate (with_rules facts rules) = ec_candidate facts"
  "ec_tags (with_rules facts rules) = ec_tags facts"
  "ec_public_version_count (with_rules facts rules) = ec_public_version_count facts"
  "ec_newer_noncurrent_count (with_rules facts rules) = ec_newer_noncurrent_count facts"
  "ec_config_revision (with_rules facts rules) = ec_config_revision facts"
  "ec_database_now (with_rules facts rules) = ec_database_now facts"
  "clc_rules (ec_configuration (with_rules facts rules)) = rules"
  by (simp_all add: with_rules_def)

lemma evaluate_rule_with_rules:
  "evaluate_rule max_day ps c (with_rules facts rules) ordinal rule = evaluate_rule max_day ps c facts ordinal rule"
proof -
  have p: "proposals_of c (with_rules facts rules) rid sid acts = proposals_of c facts rid sid acts" for rid sid acts
    by (simp add: proposals_of_def proposal_def)
  have t: "transition_acts max_day (with_rules facts rules) c rule = transition_acts max_day facts c rule"
    unfolding transition_acts_def with_rules_simps by (rule refl)
  have e: "expiration_acts max_day (with_rules facts rules) c rule = expiration_acts max_day facts c rule"
    unfolding expiration_acts_def current_acts_def noncurrent_acts_def with_rules_simps by (rule refl)
  show ?thesis
    unfolding evaluate_rule_eq p t e rule_applies_def by simp
qed

lemma evaluate_rules_with_rules:
  "evaluate_rules max_day ps c (with_rules facts rs) ordinal rules = evaluate_rules max_day ps c facts ordinal rules"
  by (induction rules arbitrary: ps ordinal) (simp_all add: evaluate_rule_with_rules)

text \<open>C38: The order of the rules in the document is irrelevant. For rules that all carry an identifier,
  with no two alike, permuting them changes nothing in the evaluation of a version: the same action
  wins, with the same rule identity, or the same error is reported. Two proposals never tie.
\<close>

theorem evaluation_ignores_rule_order:
  assumes version: "ec_candidate facts = VersionCandidate c"
    and perm: "mset rules = mset rules'"
    and ids: "list_all (\<lambda>r. clr_id r \<noteq> None) rules" and dist: "distinct (map clr_id rules)"
  shows "evaluate_candidate max_day (with_rules facts rules) = evaluate_candidate max_day (with_rules facts rules')"
proof -
  let ?f = "evaluate_rule max_day [] c facts 0"
  have ids': "list_all (\<lambda>r. clr_id r \<noteq> None) rules'"
    using ids by (simp add: list_all_iff mset_eq_setD [OF perm])
  have err: "\<forall>r \<in> set rules. \<forall>e. ?f r = Inl e \<longrightarrow> e = range_error"
    using ids evaluate_rule_error unfolding list_all_iff by blast
  have eval: "evaluate_candidate max_day (with_rules facts rs) =
      (if ec_config_revision facts \<le> 0
       then Inl (InvalidArgument ''lifecycle configuration revision must be positive'')
       else bindR (bindR (traverse_list ?f rs) (\<lambda>qss. Inr (concat qss))) (\<lambda>ps. Inr (map_option lp_action (select_winner ps))))"
    if "list_all (\<lambda>r. clr_id r \<noteq> None) rs" for rs
    using version evaluate_rules_traverse [OF that, of max_day "[]" c facts 0]
    by (simp add: evaluate_candidate_def evaluate_rules_with_rules)
  have winner: "select_winner (concat as) = select_winner (concat bs)"
    if "traverse_list ?f rules = Inr as" "mset as = mset bs" for as bs
  proof -
    have "evaluate_rules max_day [] c facts 0 rules = Inr (concat as)"
      using evaluate_rules_traverse [OF ids] that(1) by simp
    then have "set (concat as) = (\<Union>(i, rule) \<in> set (enumerate 0 rules). rule_proposals max_day facts c i rule)"
      using evaluate_rules_set by fastforce
    then have "inj_on proposal_sort_key (set (concat as))"
      using proposals_key_inj [OF ids dist] by metis
    then show ?thesis
      unfolding select_winner_def by (intro first_of_sort_key_perm mset_concat_perm that(2))
  qed
  show ?thesis
    unfolding eval [OF ids] eval [OF ids'] using traverse_list_perm [OF perm err] winner by auto
qed

theorem evaluation_ignores_rule_order_witness:
  "ec_candidate (sample_context []) = VersionCandidate sample_candidate \<and> mset sample_rules = mset (rev sample_rules) \<and>
   list_all (\<lambda>r. clr_id r \<noteq> None) sample_rules \<and> distinct (map clr_id sample_rules) \<and>
   evaluate_candidate 100 (with_rules (sample_context []) sample_rules) =
   evaluate_candidate 100 (with_rules (sample_context []) (rev sample_rules))"
proof (intro conjI)
  show c: "ec_candidate (sample_context []) = VersionCandidate sample_candidate"
    by (simp add: sample_context_def)
  show m: "mset sample_rules = mset (rev sample_rules)"
    by simp
  show i: "list_all (\<lambda>r. clr_id r \<noteq> None) sample_rules"
    by (simp add: sample_rules_def)
  show d: "distinct (map clr_id sample_rules)"
    by (simp add: sample_rules_def)
  show "evaluate_candidate 100 (with_rules (sample_context []) sample_rules) =
    evaluate_candidate 100 (with_rules (sample_context []) (rev sample_rules))"
    by (rule evaluation_ignores_rule_order [OF c m i d])
qed

section \<open>Multipart uploads\<close>

lemma validate_rule_abort_selector:
  assumes "validate_canonical_rule rule = Inr ()" "clr_abort rule = Some a"
  shows "\<exists>b. multipart_matches (clr_selector rule) key = Inr b"
proof -
  have "all_or_prefix (clr_selector rule)"
    using validate_ruleD(6) [OF assms(1)] assms(2) by (simp add: validate_abort_def bindR_eq_Inr)
  then show ?thesis
    by (cases "clr_selector rule" rule: all_or_prefix.cases) auto
qed

lemma multipart_rule_total:
  assumes "validate_canonical_rule rule = Inr ()" "ordinal \<le> 65535"
  shows "\<exists>qs. multipart_rule max_day ps facts target ordinal rule = Inr (ps @ qs) \<and>
    list_all (\<lambda>p. la_due_at (lp_action p) \<le> ec_database_now facts) qs"
proof (cases "clr_abort rule")
  case None
  then show ?thesis
    by (intro exI [of _ "[]"]) (simp add: multipart_rule_def)
next
  case (Some a)
  obtain b where b: "multipart_matches (clr_selector rule) (mt_key target) = Inr b"
    using validate_rule_abort_selector [OF assms(1) Some] by blast
  obtain rid sid where i: "rule_identity_for (clr_id rule) ordinal = Inr (rid, sid)"
    using assms(2) by (cases "clr_id rule") (simp_all add: rule_identity_for_def)
  let ?due = "next_utc_midnight_after_full_days max_day (mt_initiated_at target) (ab_days_after_initiation a)"
  show ?thesis
  proof (cases "clr_status rule = RuleEnabled \<and> b \<and> (\<exists>d. ?due = Inr d \<and> d \<le> ec_database_now facts)")
    case True
    then obtain d where "?due = Inr d" "d \<le> ec_database_now facts"
      by blast
    with True Some b i show ?thesis
      by (intro exI [of _ "[multipart_proposal facts target rid sid d]"])
        (simp add: multipart_rule_def multipart_proposal_def)
  next
    case False
    with Some b show ?thesis
      by (intro exI [of _ "[]"]) (auto simp: multipart_rule_def split: sum.splits)
  qed
qed

lemma multipart_rules_total:
  assumes "\<forall>r \<in> set rules. validate_canonical_rule r = Inr ()" "ordinal + length rules \<le> 65536"
  shows "\<exists>qs. multipart_rules max_day ps facts target ordinal rules = Inr (ps @ qs) \<and>
    list_all (\<lambda>p. la_due_at (lp_action p) \<le> ec_database_now facts) qs"
  using assms
proof (induction rules arbitrary: ps ordinal)
  case (Cons rule rules)
  obtain qs where q: "multipart_rule max_day ps facts target ordinal rule = Inr (ps @ qs)"
    "list_all (\<lambda>p. la_due_at (lp_action p) \<le> ec_database_now facts) qs"
    using multipart_rule_total [of rule ordinal max_day ps facts target] Cons.prems by auto
  obtain rs where r: "multipart_rules max_day (ps @ qs) facts target (Suc ordinal) rules = Inr ((ps @ qs) @ rs)"
    "list_all (\<lambda>p. la_due_at (lp_action p) \<le> ec_database_now facts) rs"
    using Cons.IH [of "Suc ordinal" "ps @ qs"] Cons.prems by auto
  show ?case
    by (intro exI [of _ "qs @ rs"]) (simp add: q r)
qed simp

text \<open>A multipart upload is always evaluated. For any upload, any time and any configuration that
  passes validation, however large the days of its rules, \<open>evaluate_candidate\<close> returns without an
  error; and an upload it says to abort is overdue by the database clock. A boundary beyond the
  representable dates counts as being in the future.
\<close>

theorem multipart_evaluation_total:
  assumes upload: "ec_candidate facts = MultipartCandidate target" and revision: "0 < ec_config_revision facts"
    and valid: "validate_canonical_configuration (ec_configuration facts) = Inr ()"
  shows "\<exists>result. evaluate_candidate max_day facts = Inr result \<and>
    pred_option (\<lambda>a. la_due_at a \<le> ec_database_now facts) result"
proof -
  have rules: "validate_rules {} (clc_rules (ec_configuration facts)) = Inr ()"
    "length (clc_rules (ec_configuration facts)) \<le> 1000"
    using valid by (simp_all add: validate_canonical_configuration_def split: if_splits)
  obtain qs where qs: "multipart_rules max_day [] facts target 0 (clc_rules (ec_configuration facts)) = Inr qs"
    "list_all (\<lambda>p. la_due_at (lp_action p) \<le> ec_database_now facts) qs"
    using multipart_rules_total [OF validate_rules_all [OF rules(1)], of 0 max_day "[]" facts target] rules(2) by auto
  let ?key = "\<lambda>p. (la_due_at (lp_action p), lp_stable_rule_identity p)"
  have "pred_option (\<lambda>a. la_due_at a \<le> ec_database_now facts) (map_option lp_action (first_of (sort_key ?key qs)))"
    using first_of_sort_key [where f = ?key and xs = qs] qs(2)
    by (cases "first_of (sort_key ?key qs)") (simp_all add: list_all_iff)
  with qs(1) upload revision show ?thesis
    by (simp add: evaluate_candidate_def evaluate_multipart_def)
qed

lemmas validation_simps = validate_canonical_configuration_def SCHEMA_VERSION_def validate_canonical_rule_def
  validate_abort_def i32_max_def

definition far_abort_rule :: canonical_lifecycle_rule where
  "far_abort_rule = base_rule\<lparr>clr_abort := Some \<lparr>ab_days_after_initiation = 2147483647\<rparr>\<rparr>"

definition upload_context :: lifecycle_evaluation_context where
  "upload_context = (sample_context [far_abort_rule])\<lparr>ec_candidate := MultipartCandidate
     \<lparr>mt_bucket = ''b'', mt_key = ''k'', mt_upload_id = ''u'', mt_initiated_at = 0\<rparr>\<rparr>"

theorem multipart_evaluation_total_witness:
  "validate_canonical_configuration (ec_configuration upload_context) = Inr () \<and>
   (\<exists>result. evaluate_candidate 95026236 upload_context = Inr result \<and>
      pred_option (\<lambda>a. la_due_at a \<le> ec_database_now upload_context) result)"
proof -
  have c: "ec_candidate upload_context = MultipartCandidate
      \<lparr>mt_bucket = ''b'', mt_key = ''k'', mt_upload_id = ''u'', mt_initiated_at = 0\<rparr>" "0 < ec_config_revision upload_context"
    by (simp_all add: upload_context_def sample_context_def)
  have v: "validate_canonical_configuration (ec_configuration upload_context) = Inr ()"
    by (simp add: upload_context_def sample_context_def far_abort_rule_def base_rule_def validation_simps)
  show ?thesis
    using v multipart_evaluation_total [OF c v] by blast
qed

section \<open>Far-future expirations\<close>

text \<open>An expiration that concerns the version, by its number of days, but falls due on or after the last
  representable date.\<close>

definition beyond_calendar :: "int \<Rightarrow> datetime \<Rightarrow> nat \<Rightarrow> bool" where
  "beyond_calendar max_day start days \<longleftrightarrow> max_day * day_ns \<le> start + int days * day_ns"

definition expiration_unrepresentable ::
  "int \<Rightarrow> lifecycle_evaluation_context \<Rightarrow> version_lifecycle_candidate \<Rightarrow> canonical_lifecycle_rule \<Rightarrow> bool" where
  "expiration_unrepresentable max_day facts c rule \<longleftrightarrow>
     (if vc_is_latest c
      then (vt_kind (vc_target c) = ObjectKind \<or> ec_public_version_count facts = 1) \<and>
        (case clr_expiration rule of
           Some (ExpirationDays n) \<Rightarrow> beyond_calendar max_day (vc_lifecycle_age_started_at c) n
         | _ \<Rightarrow> False)
      else
        (case (clr_noncurrent_version_expiration rule, vc_became_noncurrent_at c) of
           (Some e, Some start) \<Rightarrow> beyond_calendar max_day start (ne_noncurrent_days e)
         | _ \<Rightarrow> False))"

lemma next_utc_midnight_beyond:
  "next_utc_midnight_after_full_days max_day start days =
   (if beyond_calendar max_day start days then Inl range_error
    else Inr (((start + int days * day_ns) div day_ns + 1) * day_ns))"
proof -
  let ?a = "start + int days * day_ns"
  have "max_day \<le> ?a div day_ns \<longleftrightarrow> max_day * day_ns \<le> ?a"
  proof
    assume "max_day \<le> ?a div day_ns"
    then have "max_day * day_ns \<le> ?a div day_ns * day_ns" by (rule mult_right_mono) (simp add: day_ns_def)
    also have "\<dots> = ?a - ?a mod day_ns" by (rule minus_mod_eq_div_mult [symmetric])
    also have "\<dots> \<le> ?a" by simp
    finally show "max_day * day_ns \<le> ?a" .
  next
    assume "max_day * day_ns \<le> ?a"
    then have "(max_day * day_ns) div day_ns \<le> ?a div day_ns" by (rule zdiv_mono1) simp
    then show "max_day \<le> ?a div day_ns" by (simp add: day_ns_def)
  qed
  then show ?thesis
    by (auto simp: next_utc_midnight_after_full_days_def beyond_calendar_def Let_def)
qed

lemma expiration_acts_cases:
  "if expiration_unrepresentable max_day facts c rule then expiration_acts max_day facts c rule = Inl range_error
   else \<exists>acts. expiration_acts max_day facts c rule = Inr acts"
  unfolding expiration_unrepresentable_def expiration_acts_def current_acts_def noncurrent_acts_def
  by (cases "vt_kind (vc_target c)")
    (auto simp: next_utc_midnight_beyond split: option.splits current_expiration.splits)

lemma evaluate_rules_range:
  assumes "ordinal + length rules \<le> 65536"
  shows "if \<exists>rule \<in> set rules. rule_applies facts c rule \<and> expiration_unrepresentable max_day facts c rule
    then evaluate_rules max_day ps c facts ordinal rules = Inl range_error
    else \<exists>qs. evaluate_rules max_day ps c facts ordinal rules = Inr qs"
  using assms
proof (induction rules arbitrary: ps ordinal)
  case (Cons rule rules)
  obtain rid sid where i: "rule_identity_for (clr_id rule) ordinal = Inr (rid, sid)"
    using Cons.prems by (cases "clr_id rule") (simp_all add: rule_identity_for_def)
  have IH: "if \<exists>rule \<in> set rules. rule_applies facts c rule \<and> expiration_unrepresentable max_day facts c rule
    then evaluate_rules max_day qs c facts (Suc ordinal) rules = Inl range_error
    else \<exists>rs. evaluate_rules max_day qs c facts (Suc ordinal) rules = Inr rs" for qs
    using Cons.prems by (intro Cons.IH) simp
  show ?case
  proof (cases "rule_applies facts c rule \<and> expiration_unrepresentable max_day facts c rule")
    case True
    with expiration_acts_cases [of max_day facts c rule] show ?thesis
      by (simp add: evaluate_rule_eq i)
  next
    case False
    with expiration_acts_cases [of max_day facts c rule] i
    obtain qs where "evaluate_rule max_day ps c facts ordinal rule = Inr qs"
      by (cases "rule_applies facts c rule") (auto simp: evaluate_rule_eq)
    with IH [of qs] False show ?thesis by (simp, meson)
  qed
qed simp

text \<open>C39: When the evaluation of a version fails. For an object version or delete marker and a
  configuration that passes validation, \<open>evaluate_candidate\<close> returns an error exactly when some enabled
  rule that matches the version has an expiration that concerns it and is due beyond the representable
  dates, whatever the other rules ask for; in every other case it returns a decision. One valid rule
  with too many days so keeps every other rule from acting on the versions it matches, while an
  unrepresentable transition only leaves out its own proposal.
\<close>

theorem far_expiration_fails_evaluation:
  assumes "ec_candidate facts = VersionCandidate c" "0 < ec_config_revision facts"
    and "validate_canonical_configuration (ec_configuration facts) = Inr ()"
  shows "if \<exists>rule \<in> set (clc_rules (ec_configuration facts)).
        rule_applies facts c rule \<and> expiration_unrepresentable max_day facts c rule
    then evaluate_candidate max_day facts = Inl range_error
    else \<exists>result. evaluate_candidate max_day facts = Inr result"
proof -
  have "length (clc_rules (ec_configuration facts)) \<le> 1000"
    using assms(3) by (simp add: validate_canonical_configuration_def split: if_splits)
  then show ?thesis
    using evaluate_rules_range [of 0 "clc_rules (ec_configuration facts)" facts c max_day "[]"] assms(1,2)
    by (auto simp: evaluate_candidate_def split: if_splits)
qed

definition far_rules :: "canonical_lifecycle_rule list" where
  "far_rules = [base_rule\<lparr>clr_id := Some ''x'', clr_expiration := Some (ExpirationDays 2)\<rparr>,
     base_rule\<lparr>clr_id := Some ''far'', clr_expiration := Some (ExpirationDays 2147483647)\<rparr>]"

theorem far_expiration_fails_evaluation_witness:
  "evaluate_candidate 95026236 (sample_context far_rules) = Inl range_error \<and>
   (\<exists>result. evaluate_candidate 95026236 (sample_context [hd far_rules]) = Inr result)"
proof
  have v: "validate_canonical_configuration (ec_configuration (sample_context far_rules)) = Inr ()"
    "validate_canonical_configuration (ec_configuration (sample_context [hd far_rules])) = Inr ()"
    by (simp_all add: sample_context_def far_rules_def base_rule_def validation_simps chars_count_def)
  note range_simps = sample_context_def sample_candidate_def far_rules_def base_rule_def rule_applies_def
    expiration_unrepresentable_def beyond_calendar_def day_ns_def
  show "evaluate_candidate 95026236 (sample_context far_rules) = Inl range_error"
    using far_expiration_fails_evaluation [OF _ _ v(1), of sample_candidate 95026236] by (simp add: range_simps)
  show "\<exists>result. evaluate_candidate 95026236 (sample_context [hd far_rules]) = Inr result"
    using far_expiration_fails_evaluation [OF _ _ v(2), of sample_candidate 95026236] by (simp add: range_simps)
qed

end
