(* ===== verification/Lifecycle_Queue.thy ===== *)
theory Lifecycle_Queue
  imports Lifecycle_Evaluator Bucket_Store
begin

text \<open>
  The durable queue of lifecycle actions (src/src/store/lifecycle_action.rs) with the content fence
  it clears and renews (src/src/store/import/ownership.rs and its mutation_lease.rs).

  Workers take actions by leases: \<open>claim_due_in_transaction\<close> increments the epoch of a row and
  hands out a claim, and every later statement of the worker is conditional on the row still
  carrying that epoch. Every reading of the database clock is an argument, in the order in which
  the transaction reads it; row locks have no effect in a sequence of transactions. The last
  representable date is the argument \<open>max_day\<close>.
\<close>

section \<open>Tables\<close>

record import_destination_model =
  dst_bucket :: string
  dst_key :: string
  dst_generation :: int
  dst_owner_job_id :: "string option"
  dst_mutation_id :: "string option"
  dst_mutation_prefix :: "string option"
  dst_updated_at :: datetime

record standard_mutation_lease_model =
  sml_bucket :: string
  sml_key :: string
  sml_mutation_id :: string
  sml_generation :: int
  sml_lease_until :: datetime

record lifecycle_action_model =
  act_id :: string
  act_idempotency_key :: string
  act_bucket :: string
  act_object_key :: string
  act_config_revision :: int
  act_rule_id :: string
  act_action_kind :: string
  act_target_type :: string
  act_target_version_row_id :: "string option"
  act_target_public_version_id :: "string option"
  act_target_object_id :: "string option"
  act_target_sequence :: "int option"
  act_target_upload_id :: "string option"
  act_target_upload_created_at :: "datetime option"
  act_due_at :: datetime
  act_state :: string
  act_attempts :: int
  act_next_attempt_at :: datetime
  act_claim_epoch :: int
  act_lease_until :: "datetime option"
  act_claimed_by :: "string option"
  act_failure_class :: "string option"
  act_last_error_redacted :: "string option"
  act_created_at :: datetime
  act_updated_at :: datetime
  act_finished_at :: "datetime option"

record lifecycle_transition_model =
  lt_id :: string
  lt_action_id :: string
  lt_action_kind :: string
  lt_bucket :: string
  lt_object_key :: string
  lt_config_revision :: int
  lt_rule_id :: string
  lt_target_version_row_id :: string
  lt_target_public_version_id :: string
  lt_target_object_id :: string
  lt_target_sequence :: int
  lt_source_tier :: string
  lt_destination_tier :: string
  lt_source_cid :: string
  lt_destination_cid :: string
  lt_source_residency_revision :: int
  lt_expected_source_node_identity :: string
  lt_expected_destination_node_identity :: string
  lt_ownership_generation :: int
  lt_checkpoint :: string
  lt_verification_receipt :: "string option"
  lt_publication_receipt :: "string option"
  lt_settlement_kind :: "string option"
  lt_created_at :: datetime
  lt_updated_at :: datetime
  lt_completed_at :: "datetime option"

text \<open>JSON columns hold their text.\<close>

record multipart_upload_model =
  mu_upload_id :: string
  mu_object_id :: string
  mu_bucket :: string
  mu_key :: string
  mu_created_at :: datetime
  mu_encryption_mode :: string
  mu_key_wrap :: "string option"
  mu_sse_c_key_fingerprint :: "string option"
  mu_content_type :: "string option"
  mu_metadata :: "string option"
  mu_tags_json :: string
  mu_pin_decision_json :: "string option"
  mu_zip_intent_json :: "string option"
  mu_decompress_zip_target :: "string option"
  mu_decompress_zip_result :: bool

text \<open>The object store's tables with those of the queue and the multipart uploads.\<close>

record queue_db =
  qd_store :: db
  qd_destinations :: "import_destination_model list"
  qd_mutation_leases :: "standard_mutation_lease_model list"
  qd_actions :: "lifecycle_action_model list"
  qd_transitions :: "lifecycle_transition_model list"
  qd_uploads :: "multipart_upload_model list"

definition on_store :: "(db, 'a) tx \<Rightarrow> (queue_db, 'a) tx" where
  "on_store m = (\<lambda>d. bindR (m (qd_store d)) (\<lambda>(x, s). Inr (x, d\<lparr>qd_store := s\<rparr>)))"

text \<open>An update statement returns the number of rows it affected.\<close>

definition update_actions ::
  "(lifecycle_action_model \<Rightarrow> bool) \<Rightarrow> (lifecycle_action_model \<Rightarrow> lifecycle_action_model) \<Rightarrow> (queue_db, nat) tx" where
  "update_actions P f = (\<lambda>d.
     Inr (count_rows P (qd_actions d), d\<lparr>qd_actions := update_rows P f (qd_actions d)\<rparr>))"

record claimed_lifecycle_action =
  cl_action :: lifecycle_action_model
  cl_claim_epoch :: int
  cl_worker_id :: string

section \<open>Constants\<close>

definition MAX_LIFECYCLE_ACTION_ATTEMPTS :: int where "MAX_LIFECYCLE_ACTION_ATTEMPTS = 8"
definition MAX_LIFECYCLE_ACTION_CLAIM_LIMIT :: nat where "MAX_LIFECYCLE_ACTION_CLAIM_LIMIT = 1000"
definition MAX_LIFECYCLE_ACTION_LEASE_SECONDS :: int where "MAX_LIFECYCLE_ACTION_LEASE_SECONDS = 86400"
definition FAILURE_INTERNAL_DEPENDENCY :: string where "FAILURE_INTERNAL_DEPENDENCY = ''internal_dependency''"
definition TRANSITION_SETTLEMENT_REQUIRED :: string where
  "TRANSITION_SETTLEMENT_REQUIRED = ''transition_settlement_required''"
definition WAITING_FOR_TRANSITION :: string where "WAITING_FOR_TRANSITION = ''waiting_for_transition''"
definition WAITING_FOR_MUTATION :: string where "WAITING_FOR_MUTATION = ''waiting_for_mutation''"
definition TRANSITION_RECHECK_SECONDS :: int where "TRANSITION_RECHECK_SECONDS = 30"
definition REDACTED_LIFECYCLE_ACTION_ERROR :: string where
  "REDACTED_LIFECYCLE_ACTION_ERROR = ''lifecycle action failed''"
definition STATE_PENDING :: string where "STATE_PENDING = ''pending''"
definition STATE_CLAIMED :: string where "STATE_CLAIMED = ''claimed''"
definition STATE_SUCCEEDED :: string where "STATE_SUCCEEDED = ''succeeded''"
definition STATE_CANCELLED :: string where "STATE_CANCELLED = ''cancelled''"
definition STATE_FAILED_SAFE :: string where "STATE_FAILED_SAFE = ''failed_safe''"
definition STANDARD_MUTATION_LEASE_SECONDS :: int where "STANDARD_MUTATION_LEASE_SECONDS = 120"

definition second_ns :: int where "second_ns = 1000000000"

lemmas state_defs = STATE_PENDING_def STATE_CLAIMED_def STATE_SUCCEEDED_def STATE_CANCELLED_def STATE_FAILED_SAFE_def

section \<open>Time and integers\<close>

definition checked_add_signed :: "int \<Rightarrow> datetime \<Rightarrow> int \<Rightarrow> datetime option" where
  "checked_add_signed max_day t d = (if (t + d) div day_ns \<le> max_day then Some (t + d) else None)"

text \<open>The operator \<^verbatim>\<open>+\<close> on a date panics on overflow, which aborts the transaction.\<close>

definition plus_or_panic :: "int \<Rightarrow> datetime \<Rightarrow> int \<Rightarrow> datetime app_result" where
  "plus_or_panic max_day t d = ok_or (Internal ''`DateTime + TimeDelta` overflowed'') (checked_add_signed max_day t d)"

definition saturating_add_i64 :: "int \<Rightarrow> int \<Rightarrow> int" where
  "saturating_add_i64 a b = max i64_min (min i64_max (a + b))"

text \<open>Parsing and printing of a signed 64-bit integer.\<close>

definition digit_value :: "char \<Rightarrow> nat option" where
  "digit_value c = (let n = of_char c :: nat in if 48 \<le> n \<and> n \<le> 57 then Some (n - 48) else None)"

fun digits_value :: "nat \<Rightarrow> string \<Rightarrow> nat option" where
  "digits_value acc [] = Some acc"
| "digits_value acc (c # s) = (case digit_value c of None \<Rightarrow> None | Some d \<Rightarrow> digits_value (10 * acc + d) s)"

definition parse_i64 :: "string \<Rightarrow> int option" where
  "parse_i64 s =
     (let (neg, ds) = (case s of [] \<Rightarrow> (False, []) | c # r \<Rightarrow>
                         if c = CHR ''-'' then (True, r) else if c = CHR ''+'' then (False, r) else (False, s)) in
      if ds = [] then None
      else case digits_value 0 ds of
        None \<Rightarrow> None
      | Some n \<Rightarrow>
          let v = (if neg then - int n else int n) in if i64_min \<le> v \<and> v \<le> i64_max then Some v else None)"

definition show_i64 :: "int \<Rightarrow> string" where
  "show_i64 n = (if n < 0 then CHR ''-'' # decimal (nat (- n)) else decimal (nat n))"

section \<open>The content fence\<close>

definition find_destination_for_update :: "string \<Rightarrow> string \<Rightarrow> queue_db \<Rightarrow> import_destination_model option" where
  "find_destination_for_update b k d =
     one_row (\<lambda>r. dst_bucket r = b \<and> dst_key r = k) (qd_destinations d)"

definition lifecycle_mutation_epoch :: "string \<Rightarrow> string \<Rightarrow> int option" where
  "lifecycle_mutation_epoch token action_id =
     Option.bind (strip_prefix token ''lifecycle:'') (\<lambda>r.
     Option.bind (strip_prefix r action_id) (\<lambda>r'.
     Option.bind (strip_prefix r' '':'') parse_i64))"

definition clear_lifecycle_mutation_if_owned ::
  "string \<Rightarrow> string \<Rightarrow> string \<Rightarrow> int \<Rightarrow> datetime \<Rightarrow> (queue_db, bool) tx" where
  "clear_lifecycle_mutation_if_owned b k action_id claim_epoch now =
     bindT (guardT (Internal ''invalid lifecycle mutation owner'')
              (\<not> (action_id = [] \<or> CHR '':'' \<in> set action_id \<or> claim_epoch \<le> 0))) (\<lambda>_.
     bindT (getsT (find_destination_for_update b k)) (\<lambda>destination.
     case destination of
       None \<Rightarrow> returnT False
     | Some dst \<Rightarrow>
         (case dst_mutation_id dst of
            None \<Rightarrow> returnT False
          | Some active \<Rightarrow>
              if \<not> (dst_mutation_prefix dst = None \<and>
                     (case lifecycle_mutation_epoch active action_id of
                        None \<Rightarrow> False | Some epoch \<Rightarrow> epoch > 0 \<and> epoch \<le> claim_epoch))
              then returnT False
              else
                let P = (\<lambda>r. dst_bucket r = b \<and> dst_key r = k \<and> dst_mutation_id r = Some active) in
                bindT (getsT (\<lambda>d. count_rows P (qd_destinations d))) (\<lambda>n.
                bindT (modifyT (\<lambda>d. d\<lparr>qd_destinations := update_rows P
                  (\<lambda>r. r\<lparr>dst_mutation_id := None, dst_mutation_prefix := None, dst_updated_at := now\<rparr>)
                  (qd_destinations d)\<rparr>)) (\<lambda>_.
                bindT (guardT (Database ''stale lifecycle mutation cleanup compare-and-set'') (n = 1)) (\<lambda>_.
                returnT True))))))"

text \<open>The time the fence's statement compares leases with is read by that statement.\<close>

definition renew_lifecycle_mutation_in_transaction ::
  "int \<Rightarrow> string \<Rightarrow> string \<Rightarrow> string \<Rightarrow> int \<Rightarrow> datetime \<Rightarrow> datetime \<Rightarrow> (queue_db, unit) tx" where
  "renew_lifecycle_mutation_in_transaction max_day b k action_id epoch now statement_now =
     bindT (on_store (lock_bucket_for_ownership b)) (\<lambda>_.
     let token = ''lifecycle:'' @ action_id @ '':'' @ show_i64 epoch in
     bindT (getsT (find_destination_for_update b k)) (\<lambda>destination.
     case destination of
       None \<Rightarrow> returnT ()
     | Some dst \<Rightarrow>
         if dst_mutation_id dst \<noteq> Some token then returnT ()
         else
           bindT (liftT (plus_or_panic max_day now (STANDARD_MUTATION_LEASE_SECONDS * second_ns))) (\<lambda>until.
           let P = (\<lambda>r. sml_bucket r = b \<and> sml_key r = k \<and> sml_mutation_id r = token \<and>
                        sml_generation r = dst_generation dst \<and> sml_lease_until r > statement_now) in
           bindT (getsT (\<lambda>d. count_rows P (qd_mutation_leases d))) (\<lambda>n.
           bindT (modifyT (\<lambda>d. d\<lparr>qd_mutation_leases :=
             update_rows P (\<lambda>r. r\<lparr>sml_lease_until := until\<rparr>) (qd_mutation_leases d)\<rparr>)) (\<lambda>_.
           guardT StaleContentMutation (n = 1))))))"

section \<open>Action identities\<close>

record canonical_version_action_idempotency =
  cv_bucket :: string
  cv_config_revision :: int
  cv_rule_identity :: string
  cv_action_kind :: string
  cv_target_version_row_id :: string
  cv_target_public_version_id :: string
  cv_target_object_id :: "string option"
  cv_target_sequence :: int
  cv_due_at :: string

record canonical_multipart_action_idempotency =
  cm_bucket :: string
  cm_config_revision :: int
  cm_rule_identity :: string
  cm_action_kind :: string
  cm_target_upload_id :: string
  cm_target_upload_created_at :: string
  cm_due_at :: string

text \<open>What the identity of an action takes from other crates: JSON, RFC 3339 with nanoseconds, and
  the lower-case hexadecimal SHA-256 digest.\<close>

record identity_codec =
  ic_version_json :: "canonical_version_action_idempotency \<Rightarrow> string option"
  ic_multipart_json :: "canonical_multipart_action_idempotency \<Rightarrow> string option"
  ic_rfc3339 :: "datetime \<Rightarrow> string"
  ic_sha256_hex :: "string \<Rightarrow> string"

record validated_action =
  va_idempotency_key :: string
  va_rule_id :: string
  va_action_kind :: string

fun persisted_rule_identity :: "rule_identity \<Rightarrow> string" where
  "persisted_rule_identity (RuleId i) = ''id:'' @ i"
| "persisted_rule_identity (RuleOrdinal n) = ''ordinal:'' @ decimal n"

fun persisted_action_kind :: "lifecycle_action_kind \<Rightarrow> string" where
  "persisted_action_kind ExpireCurrent = ''expire_current''"
| "persisted_action_kind ExpireNoncurrent = ''expire_noncurrent''"
| "persisted_action_kind TransitionCurrent = ''transition_current''"
| "persisted_action_kind TransitionNoncurrent = ''transition_noncurrent''"
| "persisted_action_kind DeleteExpiredMarker = ''delete_expired_marker''"
| "persisted_action_kind AbortIncompleteMultipartUpload = ''abort_incomplete_multipart_upload''"

definition action_kind_from_db :: "string \<Rightarrow> lifecycle_action_kind app_result" where
  "action_kind_from_db s =
     (if s = ''expire_current'' then Inr ExpireCurrent
      else if s = ''expire_noncurrent'' then Inr ExpireNoncurrent
      else if s = ''transition_current'' then Inr TransitionCurrent
      else if s = ''transition_noncurrent'' then Inr TransitionNoncurrent
      else if s = ''delete_expired_marker'' then Inr DeleteExpiredMarker
      else if s = ''abort_incomplete_multipart_upload'' then Inr AbortIncompleteMultipartUpload
      else Inl (Internal ''invalid lifecycle action kind''))"

definition validate_target :: "version_target_identity \<Rightarrow> unit app_result" where
  "validate_target t =
     (if (case (vt_kind t, vt_object_id t) of
            (ObjectKind, Some i) \<Rightarrow> i \<noteq> []
          | (DeleteMarkerKind, None) \<Rightarrow> True
          | _ \<Rightarrow> False)
      then Inr ()
      else Inl (InvalidArgument ''lifecycle action target kind and object ID are inconsistent''))"

definition invalid_target_identity :: app_error where
  "invalid_target_identity = InvalidArgument ''invalid lifecycle action target identity''"

definition validate_action_identity :: "new_lifecycle_action \<Rightarrow> unit app_result" where
  "validate_action_identity a =
     (if la_bucket a = [] \<or> la_config_revision a \<le> 0 then Inl invalid_target_identity
      else case la_target a of
        VersionTarget t \<Rightarrow>
          if la_action_kind a = AbortIncompleteMultipartUpload then Inl invalid_target_identity
          else if vt_bucket t \<noteq> la_bucket a \<or> vt_key t = [] \<or> vt_version_row_id t = [] \<or> vt_sequence t < 0
          then Inl invalid_target_identity
          else
            bindR (validate_target t) (\<lambda>_.
            if la_action_kind a \<in> {TransitionCurrent, TransitionNoncurrent} \<and> vt_kind t \<noteq> ObjectKind
            then Inl (InvalidArgument ''lifecycle transition target must be a content version'')
            else if as_s3_str (vt_public_version_id t) = []
            then Inl (InvalidArgument ''lifecycle action public version ID must not be empty'')
            else Inr ())
      | MultipartTarget t \<Rightarrow>
          if la_action_kind a = AbortIncompleteMultipartUpload \<and> mt_bucket t = la_bucket a \<and> mt_key t \<noteq> [] \<and>
             mt_upload_id t \<noteq> []
          then Inr () else Inl invalid_target_identity)"

definition canonical_action_bytes :: "identity_codec \<Rightarrow> new_lifecycle_action \<Rightarrow> string app_result" where
  "canonical_action_bytes ic a =
     bindR (validate_action_identity a) (\<lambda>_.
     ok_or (Internal ''failed to serialize lifecycle action idempotency identity'')
       (case la_target a of
          VersionTarget t \<Rightarrow>
            ic_version_json ic \<lparr>cv_bucket = la_bucket a, cv_config_revision = la_config_revision a,
              cv_rule_identity = persisted_rule_identity (la_rule_identity a),
              cv_action_kind = persisted_action_kind (la_action_kind a),
              cv_target_version_row_id = vt_version_row_id t,
              cv_target_public_version_id = as_s3_str (vt_public_version_id t),
              cv_target_object_id = vt_object_id t, cv_target_sequence = vt_sequence t,
              cv_due_at = ic_rfc3339 ic (la_due_at a)\<rparr>
        | MultipartTarget t \<Rightarrow>
            ic_multipart_json ic \<lparr>cm_bucket = la_bucket a, cm_config_revision = la_config_revision a,
              cm_rule_identity = persisted_rule_identity (la_rule_identity a),
              cm_action_kind = persisted_action_kind (la_action_kind a), cm_target_upload_id = mt_upload_id t,
              cm_target_upload_created_at = ic_rfc3339 ic (mt_initiated_at t),
              cm_due_at = ic_rfc3339 ic (la_due_at a)\<rparr>))"

definition validate_action :: "identity_codec \<Rightarrow> new_lifecycle_action \<Rightarrow> validated_action app_result" where
  "validate_action ic a =
     bindR (validate_action_identity a) (\<lambda>_.
     bindR (canonical_action_bytes ic a) (\<lambda>bytes.
     Inr \<lparr>va_idempotency_key = ic_sha256_hex ic bytes, va_rule_id = persisted_rule_identity (la_rule_identity a),
          va_action_kind = persisted_action_kind (la_action_kind a)\<rparr>))"

definition idempotency_key :: "identity_codec \<Rightarrow> new_lifecycle_action \<Rightarrow> string app_result" where
  "idempotency_key ic a = bindR (validate_action ic a) (\<lambda>v. Inr (va_idempotency_key v))"

text \<open>The row an action is stored as: pending, never claimed, due at its due time.\<close>

definition action_row :: "validated_action \<Rightarrow> new_lifecycle_action \<Rightarrow> string \<Rightarrow> datetime \<Rightarrow> lifecycle_action_model" where
  "action_row v a i now =
     \<lparr>act_id = i, act_idempotency_key = va_idempotency_key v, act_bucket = la_bucket a,
      act_object_key = (case la_target a of VersionTarget t \<Rightarrow> vt_key t | MultipartTarget t \<Rightarrow> mt_key t),
      act_config_revision = la_config_revision a, act_rule_id = va_rule_id v, act_action_kind = va_action_kind v,
      act_target_type = (case la_target a of VersionTarget t \<Rightarrow> ''version'' | MultipartTarget t \<Rightarrow> ''multipart_upload''),
      act_target_version_row_id = (case la_target a of VersionTarget t \<Rightarrow> Some (vt_version_row_id t) | _ \<Rightarrow> None),
      act_target_public_version_id =
        (case la_target a of VersionTarget t \<Rightarrow> Some (as_s3_str (vt_public_version_id t)) | _ \<Rightarrow> None),
      act_target_object_id = (case la_target a of VersionTarget t \<Rightarrow> vt_object_id t | _ \<Rightarrow> None),
      act_target_sequence = (case la_target a of VersionTarget t \<Rightarrow> Some (vt_sequence t) | _ \<Rightarrow> None),
      act_target_upload_id = (case la_target a of MultipartTarget t \<Rightarrow> Some (mt_upload_id t) | _ \<Rightarrow> None),
      act_target_upload_created_at = (case la_target a of MultipartTarget t \<Rightarrow> Some (mt_initiated_at t) | _ \<Rightarrow> None),
      act_due_at = la_due_at a, act_state = STATE_PENDING, act_attempts = 0, act_next_attempt_at = now,
      act_claim_epoch = 0, act_lease_until = None, act_claimed_by = None, act_failure_class = None,
      act_last_error_redacted = None, act_created_at = now, act_updated_at = now, act_finished_at = None\<rparr>"

text \<open>
  The insertion statement: a conflict on the idempotency key inserts nothing; the primary key and
  the reference to the bucket are checked. The other checks of the table are facts about
  \<open>action_row\<close>.
\<close>

definition insert_action_row :: "lifecycle_action_model \<Rightarrow> (queue_db, nat) tx" where
  "insert_action_row r = (\<lambda>d.
     if act_idempotency_key r \<in> set (map act_idempotency_key (qd_actions d)) then Inr (0, d)
     else if act_id r \<in> set (map act_id (qd_actions d)) then Inl (Database ''lifecycle_actions_pkey'')
     else if act_bucket r \<notin> set (map bucket_name (buckets (qd_store d)))
     then Inl (Database ''lifecycle_actions_bucket_fkey'')
     else Inr (1, d\<lparr>qd_actions := qd_actions d @ [r]\<rparr>))"

definition insert_idempotent ::
  "identity_codec \<Rightarrow> new_lifecycle_action \<Rightarrow> string \<Rightarrow> datetime \<Rightarrow> (queue_db, bool) tx" where
  "insert_idempotent ic a uuid now =
     bindT (liftT (validate_action ic a)) (\<lambda>v.
     bindT (guardT (InvalidArgument ''lifecycle action idempotency key does not match its canonical identity'')
              (la_idempotency_key a = [] \<or> la_idempotency_key a = va_idempotency_key v)) (\<lambda>_.
     bindT (insert_action_row (action_row v a uuid now)) (\<lambda>inserted.
     returnT (inserted = 1))))"

definition invalid_persisted_action_identity :: app_error where
  "invalid_persisted_action_identity = Internal ''invalid lifecycle action identity''"

definition nonempty :: "string option \<Rightarrow> string option" where
  "nonempty x = (case x of Some v \<Rightarrow> if v \<noteq> [] then Some v else None | None \<Rightarrow> None)"

definition target_from_action :: "uuid_parser \<Rightarrow> lifecycle_action_model \<Rightarrow> lifecycle_target_identity app_result" where
  "target_from_action up r =
     (if act_bucket r = [] \<or> act_object_key r = [] \<or> act_config_revision r \<le> 0
      then Inl invalid_persisted_action_identity
      else
        bindR (action_kind_from_db (act_action_kind r)) (\<lambda>kind.
        if act_target_type r = ''version'' then
          (if kind = AbortIncompleteMultipartUpload \<or> act_target_upload_id r \<noteq> None \<or>
              act_target_upload_created_at r \<noteq> None
           then Inl invalid_persisted_action_identity
           else
             bindR (ok_or invalid_persisted_action_identity (nonempty (act_target_version_row_id r))) (\<lambda>row_id.
             bindR (ok_or invalid_persisted_action_identity (nonempty (act_target_public_version_id r))) (\<lambda>pid.
             bindR (ok_or invalid_persisted_action_identity
                      (case act_target_sequence r of Some s \<Rightarrow> if s \<ge> 0 then Some s else None | None \<Rightarrow> None)) (\<lambda>sq.
             let vkind = (case kind of
                            DeleteExpiredMarker \<Rightarrow> DeleteMarkerKind
                          | ExpireNoncurrent \<Rightarrow>
                              if act_target_object_id r \<noteq> None then ObjectKind else DeleteMarkerKind
                          | _ \<Rightarrow> ObjectKind) in
             bindR (case parse_s3 up pid of
                      Inl _ \<Rightarrow> Inl invalid_persisted_action_identity | Inr p \<Rightarrow> Inr p) (\<lambda>p.
             if (vkind = ObjectKind) \<noteq> (act_target_object_id r \<noteq> None)
             then Inl invalid_persisted_action_identity
             else Inr (VersionTarget \<lparr>vt_bucket = act_bucket r, vt_key = act_object_key r, vt_version_row_id = row_id,
               vt_public_version_id = p, vt_kind = vkind, vt_object_id = act_target_object_id r, vt_sequence = sq\<rparr>))))))
        else if act_target_type r = ''multipart_upload'' then
          (if kind \<noteq> AbortIncompleteMultipartUpload \<or> act_target_version_row_id r \<noteq> None \<or>
              act_target_public_version_id r \<noteq> None \<or> act_target_object_id r \<noteq> None \<or> act_target_sequence r \<noteq> None
           then Inl invalid_persisted_action_identity
           else
             bindR (ok_or invalid_persisted_action_identity (nonempty (act_target_upload_id r))) (\<lambda>upload.
             bindR (ok_or invalid_persisted_action_identity (act_target_upload_created_at r)) (\<lambda>initiated.
             Inr (MultipartTarget \<lparr>mt_bucket = act_bucket r, mt_key = act_object_key r, mt_upload_id = upload,
               mt_initiated_at = initiated\<rparr>))))
        else Inl invalid_persisted_action_identity))"

section \<open>Conditions\<close>

definition is_transition_action :: "lifecycle_action_model \<Rightarrow> bool" where
  "is_transition_action r \<longleftrightarrow> act_action_kind r \<in> {''transition_current'', ''transition_noncurrent''}"

definition unfinished_transition_saga_exists :: "queue_db \<Rightarrow> lifecycle_action_model \<Rightarrow> bool" where
  "unfinished_transition_saga_exists d r \<longleftrightarrow>
     list_ex (\<lambda>t. lt_action_id t = act_id r \<and> lt_settlement_kind t = None \<and> lt_completed_at t = None)
       (qd_transitions d)"

definition due_claim_condition :: "datetime \<Rightarrow> queue_db \<Rightarrow> lifecycle_action_model \<Rightarrow> bool" where
  "due_claim_condition now d r \<longleftrightarrow>
     act_state r = STATE_PENDING \<and> act_next_attempt_at r \<le> now \<and> act_due_at r \<le> now \<or>
     act_state r = STATE_CLAIMED \<and> (case act_lease_until r of None \<Rightarrow> False | Some u \<Rightarrow> u \<le> now) \<and>
       (act_last_error_redacted r = None \<or> act_last_error_redacted r \<noteq> Some TRANSITION_SETTLEMENT_REQUIRED \<or>
        unfinished_transition_saga_exists d r) \<or>
     act_state r = STATE_FAILED_SAFE \<and> is_transition_action r \<and> unfinished_transition_saga_exists d r"

datatype transition_saga_state = SagaNone | SagaOutstanding | SagaPublished

definition transition_saga_state_of :: "string \<Rightarrow> queue_db \<Rightarrow> transition_saga_state" where
  "transition_saga_state_of action_id d =
     (case one_row (\<lambda>t. lt_action_id t = action_id) (qd_transitions d) of
        None \<Rightarrow> SagaNone
      | Some saga \<Rightarrow>
          if lt_settlement_kind saga = None \<and> lt_completed_at saga = None \<and> lt_publication_receipt saga \<noteq> None \<and>
             lt_checkpoint saga \<in> {''publish'', ''cleanup''}
          then SagaPublished
          else if lt_settlement_kind saga = None \<and> lt_completed_at saga = None then SagaOutstanding
          else SagaNone)"

definition active_claim_condition :: "claimed_lifecycle_action \<Rightarrow> lifecycle_action_model \<Rightarrow> bool" where
  "active_claim_condition c r \<longleftrightarrow>
     act_id r = act_id (cl_action c) \<and> act_state r = STATE_CLAIMED \<and> act_claimed_by r = Some (cl_worker_id c) \<and>
     act_claim_epoch r = cl_claim_epoch c"

definition lease_after :: "datetime \<Rightarrow> lifecycle_action_model \<Rightarrow> bool" where
  "lease_after now r \<longleftrightarrow> (case act_lease_until r of None \<Rightarrow> False | Some u \<Rightarrow> now < u)"

definition is_allowed_failure_class :: "string \<Rightarrow> bool" where
  "is_allowed_failure_class c \<longleftrightarrow>
     c \<in> {''database_contention'', ''admission_temporarily_unavailable'', FAILURE_INTERNAL_DEPENDENCY, ''cancelled_stale''}"

definition validate_failure_class :: "string \<Rightarrow> unit app_result" where
  "validate_failure_class c =
     (if is_allowed_failure_class c then Inr () else Inl (InvalidArgument ''invalid lifecycle action failure class''))"

definition waiting_for_transition :: "lifecycle_action_model \<Rightarrow> bool" where
  "waiting_for_transition r \<longleftrightarrow>
     act_action_kind r = ''expire_current'' \<and> act_failure_class r = Some WAITING_FOR_TRANSITION"

definition waiting_for_dependency :: "lifecycle_action_model \<Rightarrow> bool" where
  "waiting_for_dependency r \<longleftrightarrow>
     waiting_for_transition r \<or> act_target_type r = ''version'' \<and> act_failure_class r = Some WAITING_FOR_MUTATION"

definition consumed_attempts :: "lifecycle_action_model \<Rightarrow> int" where
  "consumed_attempts r = saturating_add_i64 (act_attempts r) (- (if waiting_for_dependency r then 0 else 1))"

section \<open>Requests and retries\<close>

text \<open>
  \<^verbatim>\<open>str::trim().is_empty()\<close>: the string consists of characters with the Unicode property
  White\_Space, here by their UTF-8 encodings.
\<close>

definition whitespace_encodings :: "nat list list" where
  "whitespace_encodings =
     map (\<lambda>n. [n]) [9, 10, 11, 12, 13, 32] @ [[194, 133], [194, 160], [225, 154, 128]] @
     map (\<lambda>n. [226, 128, n]) [128, 129, 130, 131, 132, 133, 134, 135, 136, 137, 138, 168, 169, 175] @
     [[226, 129, 159], [227, 128, 128]]"

fun is_blank_fuel :: "nat \<Rightarrow> nat list \<Rightarrow> bool" where
  "is_blank_fuel n [] = True"
| "is_blank_fuel 0 (c # s) = False"
| "is_blank_fuel (Suc n) (c # s) =
     (case find (\<lambda>w. take (length w) (c # s) = w) whitespace_encodings of
        None \<Rightarrow> False
      | Some w \<Rightarrow> is_blank_fuel n (drop (length w) (c # s)))"

definition is_blank :: "string \<Rightarrow> bool" where
  "is_blank s = is_blank_fuel (length s) (map of_char s)"

definition validate_lease_duration :: "int \<Rightarrow> unit app_result" where
  "validate_lease_duration lease_for =
     (if lease_for \<le> 0 \<or> lease_for > MAX_LIFECYCLE_ACTION_LEASE_SECONDS * second_ns
      then Inl (InvalidArgument ''lifecycle action lease must be between 1 second and 86400 seconds'')
      else Inr ())"

definition validate_claim_request :: "string \<Rightarrow> int \<Rightarrow> nat \<Rightarrow> unit app_result" where
  "validate_claim_request worker lease_for limit =
     (if is_blank worker then Inl (InvalidArgument ''lifecycle worker ID must not be empty'')
      else bindR (validate_lease_duration lease_for) (\<lambda>_.
        if limit = 0 \<or> limit > MAX_LIFECYCLE_ACTION_CLAIM_LIMIT
        then Inl (InvalidArgument ''lifecycle action claim limit must be between 1 and 1000'')
        else Inr ()))"

definition u64_max :: nat where "u64_max = 18446744073709551615"

definition saturating_mul_u64 :: "nat \<Rightarrow> nat \<Rightarrow> nat" where
  "saturating_mul_u64 a b = min u64_max (a * b)"

text \<open>The index is at most 62, so the shift always succeeds.\<close>

definition retry_delay_secs :: "int \<Rightarrow> nat \<Rightarrow> nat \<Rightarrow> nat" where
  "retry_delay_secs attempts base_backoff max_backoff =
     (let d = max (attempts - 1) 0;
          attempt_index = min (if d < 2 ^ 32 then nat d else 62) 62
      in min max_backoff (saturating_mul_u64 base_backoff (2 ^ attempt_index)))"

definition retry_at :: "int \<Rightarrow> datetime \<Rightarrow> int \<Rightarrow> nat \<Rightarrow> nat \<Rightarrow> datetime app_result" where
  "retry_at max_day now attempts base_backoff max_backoff =
     (let delay = int (retry_delay_secs attempts base_backoff max_backoff) in
      if delay > i64_max then Inl (InvalidArgument ''lifecycle retry delay is out of range'')
      else ok_or (InvalidArgument ''lifecycle retry time is outside the database range'')
        (checked_add_signed max_day now (delay * second_ns)))"

section \<open>Claiming\<close>

definition due_candidates :: "datetime \<Rightarrow> nat \<Rightarrow> queue_db \<Rightarrow> lifecycle_action_model list" where
  "due_candidates now limit d =
     take limit (sort_key (\<lambda>r. (act_due_at r, act_id r)) (filter (due_claim_condition now d) (qd_actions d)))"

definition claimed_row :: "lifecycle_action_model \<Rightarrow> string \<Rightarrow> int \<Rightarrow> datetime \<Rightarrow> datetime \<Rightarrow>
  lifecycle_action_model \<Rightarrow> lifecycle_action_model" where
  "claimed_row candidate worker epoch now until r =
     (let r' = r\<lparr>act_state := STATE_CLAIMED,
                act_attempts := saturating_add_i64 (act_attempts candidate)
                  (if waiting_for_dependency candidate then 0 else 1),
                act_claim_epoch := epoch, act_lease_until := Some until, act_claimed_by := Some worker,
                act_finished_at := None, act_updated_at := now\<rparr>
      in if act_state candidate = STATE_FAILED_SAFE \<or>
            act_last_error_redacted candidate = Some TRANSITION_SETTLEMENT_REQUIRED
         then r'\<lparr>act_last_error_redacted := Some TRANSITION_SETTLEMENT_REQUIRED\<rparr> else r')"

definition claim_candidate ::
  "lifecycle_action_model \<Rightarrow> string \<Rightarrow> datetime \<Rightarrow> datetime \<Rightarrow> (queue_db, claimed_lifecycle_action option) tx" where
  "claim_candidate candidate worker now until =
     bindT (liftT (ok_or (Database ''lifecycle action claim epoch overflow'')
              (checked_add_i64 (act_claim_epoch candidate) 1))) (\<lambda>epoch.
     bindT (getsT (due_claim_condition now)) (\<lambda>due.
     bindT (update_actions
              (\<lambda>r. act_id r = act_id candidate \<and> act_attempts r = act_attempts candidate \<and>
                   act_claim_epoch r = act_claim_epoch candidate \<and> due r)
              (claimed_row candidate worker epoch now until)) (\<lambda>n.
     if n \<noteq> 1 then returnT None
     else
       bindT (queryT (\<lambda>d. ok_or (Internal ''claimed lifecycle action disappeared'')
                (one_row (\<lambda>r. act_id r = act_id candidate) (qd_actions d)))) (\<lambda>action.
       returnT (Some \<lparr>cl_action = action, cl_claim_epoch = act_claim_epoch action, cl_worker_id = worker\<rparr>)))))"

definition failed_safe_row :: "lifecycle_action_model \<Rightarrow> datetime \<Rightarrow> lifecycle_action_model \<Rightarrow> lifecycle_action_model" where
  "failed_safe_row candidate now r =
     r\<lparr>act_state := STATE_FAILED_SAFE, act_lease_until := None, act_claimed_by := None,
       act_failure_class := Some (case act_failure_class candidate of
          Some c \<Rightarrow> if is_allowed_failure_class c then c else FAILURE_INTERNAL_DEPENDENCY
        | None \<Rightarrow> FAILURE_INTERNAL_DEPENDENCY),
       act_last_error_redacted := Some REDACTED_LIFECYCLE_ACTION_ERROR, act_updated_at := now,
       act_finished_at := Some now\<rparr>"

definition fail_safe_exhausted :: "lifecycle_action_model \<Rightarrow> datetime \<Rightarrow> (queue_db, unit) tx" where
  "fail_safe_exhausted candidate now =
     bindT (if act_target_type candidate = ''version'' then
              bindT (on_store (lock_bucket_for_ownership (act_bucket candidate))) (\<lambda>_.
              if act_claim_epoch candidate > 0
              then bindT (clear_lifecycle_mutation_if_owned (act_bucket candidate) (act_object_key candidate)
                     (act_id candidate) (act_claim_epoch candidate) now) (\<lambda>_. returnT ())
              else returnT ())
            else returnT ()) (\<lambda>_.
     bindT (getsT (due_claim_condition now)) (\<lambda>due.
     bindT (update_actions
              (\<lambda>r. act_id r = act_id candidate \<and> act_attempts r = act_attempts candidate \<and>
                   act_claim_epoch r = act_claim_epoch candidate \<and> due r)
              (failed_safe_row candidate now)) (\<lambda>_.
     returnT ())))"

definition may_claim :: "int \<Rightarrow> queue_db \<Rightarrow> lifecycle_action_model \<Rightarrow> bool" where
  "may_claim max_attempts d r =
     (let transition = is_transition_action r;
          saga = (if transition then transition_saga_state_of (act_id r) d else SagaNone);
          published_cleanup = (saga = SagaPublished);
          final_saga_settlement = (saga = SagaOutstanding \<and> act_attempts r > max_attempts)
      in if act_attempts r \<ge> max_attempts then
           (let one_recovery_claim = \<not> waiting_for_dependency r \<and> act_attempts r = max_attempts;
                one_recovery_claim' = one_recovery_claim \<and> (act_state r = STATE_CLAIMED \<or> transition)
            in one_recovery_claim' \<or> published_cleanup \<or> final_saga_settlement)
         else True)"

definition claim_one ::
  "string \<Rightarrow> int \<Rightarrow> datetime \<Rightarrow> datetime \<Rightarrow> (string \<Rightarrow> bool) \<Rightarrow> lifecycle_action_model \<Rightarrow>
   (queue_db, claimed_lifecycle_action option) tx" where
  "claim_one worker max_attempts now until locked candidate =
     (if \<not> locked (act_bucket candidate) then returnT None
      else
        bindT (getsT (\<lambda>d. one_row (\<lambda>r. act_id r = act_id candidate \<and> due_claim_condition now d r) (qd_actions d))) (\<lambda>found.
        case found of
          None \<Rightarrow> returnT None
        | Some r \<Rightarrow>
            bindT (getsT (\<lambda>d. may_claim max_attempts d r)) (\<lambda>ok.
            if \<not> ok then bindT (fail_safe_exhausted r now) (\<lambda>_. returnT None)
            else claim_candidate r worker now until)))"

fun claim_loop ::
  "string \<Rightarrow> int \<Rightarrow> datetime \<Rightarrow> datetime \<Rightarrow> (string \<Rightarrow> bool) \<Rightarrow> claimed_lifecycle_action list \<Rightarrow>
   lifecycle_action_model list \<Rightarrow> (queue_db, claimed_lifecycle_action list) tx" where
  "claim_loop worker max_attempts now until locked claimed [] = returnT claimed"
| "claim_loop worker max_attempts now until locked claimed (candidate # candidates) =
     bindT (claim_one worker max_attempts now until locked candidate) (\<lambda>c.
     claim_loop worker max_attempts now until locked
       (case c of None \<Rightarrow> claimed | Some x \<Rightarrow> claimed @ [x]) candidates)"

text \<open>
  The clock is read twice: \<open>seen\<close> to discover candidates and \<open>now\<close>, after the bucket locks, to
  authorize. A bucket that is gone is not locked.
\<close>

definition claim_due_in_transaction ::
  "int \<Rightarrow> string \<Rightarrow> int \<Rightarrow> int \<Rightarrow> nat \<Rightarrow> datetime \<Rightarrow> datetime \<Rightarrow> (queue_db, claimed_lifecycle_action list) tx" where
  "claim_due_in_transaction max_day worker lease_for max_attempts limit seen now =
     bindT (getsT (due_candidates seen limit)) (\<lambda>candidates.
     bindT (getsT (\<lambda>d b. isl (on_store (lock_bucket_for_ownership b) d))) (\<lambda>gone.
     bindT (liftT (ok_or (InvalidArgument ''lifecycle action lease is outside the database timestamp range'')
              (checked_add_signed max_day now lease_for))) (\<lambda>until.
     claim_loop worker max_attempts now until (\<lambda>b. \<not> gone b) [] candidates)))"

text \<open>
  The transaction is retried up to four times while SQLite reports contention; a contended attempt
  changes nothing, so one transaction is the whole effect.
\<close>

definition claim_due_with_max_attempts ::
  "int \<Rightarrow> string \<Rightarrow> int \<Rightarrow> int \<Rightarrow> nat \<Rightarrow> datetime \<Rightarrow> datetime \<Rightarrow> (queue_db, claimed_lifecycle_action list) tx" where
  "claim_due_with_max_attempts max_day worker lease_for max_attempts limit seen now =
     bindT (liftT (validate_claim_request worker lease_for limit)) (\<lambda>_.
     bindT (guardT (InvalidArgument ''lifecycle max attempts must be in 1..=8'')
              (1 \<le> max_attempts \<and> max_attempts \<le> MAX_LIFECYCLE_ACTION_ATTEMPTS)) (\<lambda>_.
     claim_due_in_transaction max_day worker lease_for max_attempts limit seen now))"

definition claim_due ::
  "int \<Rightarrow> string \<Rightarrow> int \<Rightarrow> nat \<Rightarrow> datetime \<Rightarrow> datetime \<Rightarrow> (queue_db, claimed_lifecycle_action list) tx" where
  "claim_due max_day worker lease_for limit seen now =
     claim_due_with_max_attempts max_day worker lease_for MAX_LIFECYCLE_ACTION_ATTEMPTS limit seen now"

section \<open>Using a claim\<close>

definition lock_claim_for_execution ::
  "claimed_lifecycle_action \<Rightarrow> datetime \<Rightarrow> (queue_db, lifecycle_action_model option) tx" where
  "lock_claim_for_execution c now =
     bindT (getsT (on_store (lock_bucket_for_ownership (act_bucket (cl_action c))))) (\<lambda>lock.
     case lock of
       Inl (NoSuchBucket b) \<Rightarrow> returnT None
     | Inl e \<Rightarrow> throwT e
     | Inr _ \<Rightarrow>
         bindT (getsT (\<lambda>d. one_row (active_claim_condition c) (qd_actions d))) (\<lambda>found.
         returnT (case found of
           None \<Rightarrow> None
         | Some r \<Rightarrow> if lease_after now r then Some r else None)))"

definition renewed_row :: "datetime \<Rightarrow> datetime \<Rightarrow> lifecycle_action_model \<Rightarrow> lifecycle_action_model" where
  "renewed_row now until r = r\<lparr>act_lease_until := Some until, act_updated_at := now\<rparr>"

text \<open>The clock readings: the lock, the renewal, and the fence's date and statement.\<close>

definition renew_claim_in_transaction ::
  "int \<Rightarrow> claimed_lifecycle_action \<Rightarrow> int \<Rightarrow> datetime \<Rightarrow> datetime \<Rightarrow> datetime \<Rightarrow> datetime \<Rightarrow> (queue_db, bool) tx" where
  "renew_claim_in_transaction max_day c lease_for lock_now now fence_now statement_now =
     bindT (lock_claim_for_execution c lock_now) (\<lambda>locked.
     if locked = None then returnT False
     else
       bindT (liftT (ok_or (InvalidArgument ''lifecycle action lease is outside the database timestamp range'')
                (checked_add_signed max_day now lease_for))) (\<lambda>until.
       bindT (update_actions (\<lambda>r. active_claim_condition c r \<and> lease_after now r) (renewed_row now until)) (\<lambda>n.
       bindT (if n = 1 \<and> act_target_type (cl_action c) = ''version''
              then renew_lifecycle_mutation_in_transaction max_day (act_bucket (cl_action c))
                     (act_object_key (cl_action c)) (act_id (cl_action c)) (cl_claim_epoch c) fence_now statement_now
              else returnT ()) (\<lambda>_.
       returnT (n = 1)))))"

definition renew_claim ::
  "int \<Rightarrow> claimed_lifecycle_action \<Rightarrow> int \<Rightarrow> datetime \<Rightarrow> datetime \<Rightarrow> datetime \<Rightarrow> datetime \<Rightarrow> (queue_db, bool) tx" where
  "renew_claim max_day c lease_for lock_now now fence_now statement_now =
     bindT (liftT (validate_lease_duration lease_for)) (\<lambda>_.
     renew_claim_in_transaction max_day c lease_for lock_now now fence_now statement_now)"

definition succeeded_row :: "datetime \<Rightarrow> lifecycle_action_model \<Rightarrow> lifecycle_action_model" where
  "succeeded_row now r =
     r\<lparr>act_state := STATE_SUCCEEDED, act_lease_until := None, act_claimed_by := None, act_failure_class := None,
       act_last_error_redacted := None, act_updated_at := now, act_finished_at := Some now\<rparr>"

definition mark_succeeded :: "claimed_lifecycle_action \<Rightarrow> datetime \<Rightarrow> (queue_db, bool) tx" where
  "mark_succeeded c now =
     bindT (update_actions (active_claim_condition c) (succeeded_row now)) (\<lambda>n. returnT (n = 1))"

definition terminal_row :: "datetime \<Rightarrow> string \<Rightarrow> string \<Rightarrow> lifecycle_action_model \<Rightarrow> lifecycle_action_model" where
  "terminal_row now terminal_state failure_class r =
     r\<lparr>act_state := terminal_state, act_lease_until := None, act_claimed_by := None,
       act_failure_class := Some failure_class, act_last_error_redacted := Some REDACTED_LIFECYCLE_ACTION_ERROR,
       act_updated_at := now, act_finished_at := Some now\<rparr>"

definition terminal_failure_update ::
  "claimed_lifecycle_action \<Rightarrow> datetime \<Rightarrow> string \<Rightarrow> string \<Rightarrow> (queue_db, bool) tx" where
  "terminal_failure_update c now terminal_state failure_class =
     bindT (liftT (validate_failure_class failure_class)) (\<lambda>_.
     bindT (update_actions (active_claim_condition c) (terminal_row now terminal_state failure_class)) (\<lambda>n.
     returnT (n = 1)))"

definition mark_cancelled :: "claimed_lifecycle_action \<Rightarrow> datetime \<Rightarrow> string \<Rightarrow> (queue_db, bool) tx" where
  "mark_cancelled c now failure_class = terminal_failure_update c now STATE_CANCELLED failure_class"

definition mark_failed_safe :: "claimed_lifecycle_action \<Rightarrow> datetime \<Rightarrow> string \<Rightarrow> (queue_db, bool) tx" where
  "mark_failed_safe c now failure_class = terminal_failure_update c now STATE_FAILED_SAFE failure_class"

definition parked_row ::
  "lifecycle_action_model \<Rightarrow> datetime \<Rightarrow> datetime \<Rightarrow> string option \<Rightarrow> lifecycle_action_model \<Rightarrow> lifecycle_action_model" where
  "parked_row action now next_at failure_class r =
     r\<lparr>act_state := STATE_PENDING, act_attempts := consumed_attempts action, act_next_attempt_at := next_at,
       act_lease_until := None, act_claimed_by := None, act_failure_class := failure_class,
       act_last_error_redacted := None, act_updated_at := now\<rparr>"

definition park_dependency_in_transaction ::
  "int \<Rightarrow> claimed_lifecycle_action \<Rightarrow> lifecycle_action_model \<Rightarrow> string \<Rightarrow> datetime \<Rightarrow> (queue_db, bool) tx" where
  "park_dependency_in_transaction max_day c action reason now =
     bindT (liftT (plus_or_panic max_day now (TRANSITION_RECHECK_SECONDS * second_ns))) (\<lambda>next_at.
     bindT (update_actions (\<lambda>r. active_claim_condition c r \<and> lease_after now r)
              (parked_row action now next_at (Some reason))) (\<lambda>n.
     returnT (n = 1)))"

definition wait_for_mutation_dependency ::
  "int \<Rightarrow> claimed_lifecycle_action \<Rightarrow> int \<Rightarrow> datetime \<Rightarrow> datetime \<Rightarrow> (queue_db, bool) tx" where
  "wait_for_mutation_dependency max_day c max_attempts lock_now now =
     bindT (lock_claim_for_execution c lock_now) (\<lambda>locked.
     case locked of
       None \<Rightarrow> returnT True
     | Some action \<Rightarrow>
         if consumed_attempts action \<ge> max_attempts then returnT False
         else bindT (park_dependency_in_transaction max_day c action WAITING_FOR_MUTATION now) (\<lambda>_. returnT True))"

definition wait_for_transition_in_transaction ::
  "int \<Rightarrow> claimed_lifecycle_action \<Rightarrow> datetime \<Rightarrow> datetime \<Rightarrow> (queue_db, bool) tx" where
  "wait_for_transition_in_transaction max_day c lock_now now =
     bindT (lock_claim_for_execution c lock_now) (\<lambda>locked.
     case locked of
       None \<Rightarrow> returnT False
     | Some action \<Rightarrow>
         if act_action_kind action \<noteq> ''expire_current''
         then throwT (Internal ''invalid transition dependency action'')
         else park_dependency_in_transaction max_day c action WAITING_FOR_TRANSITION now)"

definition wait_for_hot_verification_in_transaction ::
  "int \<Rightarrow> claimed_lifecycle_action \<Rightarrow> datetime \<Rightarrow> datetime \<Rightarrow> (queue_db, bool) tx" where
  "wait_for_hot_verification_in_transaction max_day c lock_now now =
     bindT (lock_claim_for_execution c lock_now) (\<lambda>locked.
     case locked of
       None \<Rightarrow> returnT False
     | Some action \<Rightarrow>
         if \<not> is_transition_action action
         then throwT (Internal ''invalid hot verification dependency action'')
         else
           bindT (liftT (ok_or (Internal ''lifecycle transition recheck time is outside the database range'')
                    (checked_add_signed max_day now (TRANSITION_RECHECK_SECONDS * second_ns)))) (\<lambda>next_at.
           bindT (update_actions (\<lambda>r. active_claim_condition c r \<and> lease_after now r)
                    (parked_row action now next_at None)) (\<lambda>n.
           returnT (n = 1))))"

text \<open>The sum of attempts is a plain \<^verbatim>\<open>i64\<close> addition. Past \<open>i64::MAX\<close> it wraps to a negative number,
  which the table refuses for every row it would be written to.\<close>

definition retry_attempts :: "claimed_lifecycle_action \<Rightarrow> int" where
  "retry_attempts c = act_attempts (cl_action c) + (if waiting_for_dependency (cl_action c) then 1 else 0)"

definition retry_row ::
  "claimed_lifecycle_action \<Rightarrow> datetime \<Rightarrow> datetime \<Rightarrow> string \<Rightarrow> lifecycle_action_model \<Rightarrow> lifecycle_action_model" where
  "retry_row c now next_at failure_class r =
     r\<lparr>act_state := STATE_PENDING,
       act_attempts := retry_attempts c,
       act_next_attempt_at := next_at, act_lease_until := None, act_claimed_by := None,
       act_failure_class := Some failure_class, act_last_error_redacted := Some REDACTED_LIFECYCLE_ACTION_ERROR,
       act_updated_at := now, act_finished_at := None\<rparr>"

definition schedule_retry ::
  "claimed_lifecycle_action \<Rightarrow> datetime \<Rightarrow> datetime \<Rightarrow> string \<Rightarrow> (queue_db, bool) tx" where
  "schedule_retry c now next_at failure_class =
     bindT (liftT (validate_failure_class failure_class)) (\<lambda>_.
     bindT (guardT (InvalidArgument ''lifecycle retry must be scheduled after the database time'') (now < next_at)) (\<lambda>_.
     bindT (getsT (\<lambda>d. count_rows (active_claim_condition c) (qd_actions d))) (\<lambda>matched.
     bindT (guardT (Database ''ck_lifecycle_actions_attempts'') (retry_attempts c \<le> i64_max \<or> matched = 0)) (\<lambda>_.
     bindT (update_actions (active_claim_condition c) (retry_row c now next_at failure_class)) (\<lambda>n.
     returnT (n = 1))))))"

text \<open>What the settlement of an exhausted transition writes to the queue after it has cancelled the action:
  the diagnostic, for the same claim.\<close>

definition record_cancellation_diagnostic :: "claimed_lifecycle_action \<Rightarrow> string \<Rightarrow> (queue_db, unit) tx" where
  "record_cancellation_diagnostic c diagnostic =
     bindT (update_actions (\<lambda>r. act_id r = act_id (cl_action c) \<and> act_claim_epoch r = cl_claim_epoch c \<and>
              act_state r = STATE_CANCELLED) (\<lambda>r. r\<lparr>act_last_error_redacted := Some diagnostic\<rparr>)) (\<lambda>n.
     guardT (Internal ''invalid lifecycle transition state: exhaustion diagnostic fence'') (n = 1))"

end
