(* ===== verification/Lifecycle_Claims.thy ===== *)
theory Lifecycle_Claims
  imports Lifecycle_Queue
begin

text \<open>
  What the action queue guarantees to its workers. All operations of a worker share one contract,
  the locale \<open>claim_operation\<close>: they touch only the row whose epoch and owner the claim names and
  keep its identity. The queue's steps keep the checks of the table, and a claim that was taken over
  can never act again.
\<close>

section \<open>Well-formed rows\<close>

definition terminal_states :: "string set" where
  "terminal_states = {STATE_SUCCEEDED, STATE_CANCELLED, STATE_FAILED_SAFE}"

text \<open>
  The checks of the table lifecycle\_actions on the columns the queue changes, and that a claim that
  is not a dependency probe has been charged.
\<close>

definition action_ok :: "lifecycle_action_model \<Rightarrow> bool" where
  "action_ok r \<longleftrightarrow>
     act_state r \<in> {STATE_PENDING, STATE_CLAIMED} \<union> terminal_states \<and>
     0 \<le> act_attempts r \<and> 0 \<le> act_claim_epoch r \<and>
     (if act_state r = STATE_CLAIMED then act_lease_until r \<noteq> None \<and> act_claimed_by r \<noteq> None
      else act_lease_until r = None \<and> act_claimed_by r = None) \<and>
     (act_state r \<in> terminal_states \<longleftrightarrow> act_finished_at r \<noteq> None) \<and>
     (act_state r = STATE_CLAIMED \<and> \<not> waiting_for_dependency r \<longrightarrow> 1 \<le> act_attempts r)"

definition same_identity :: "lifecycle_action_model \<Rightarrow> lifecycle_action_model \<Rightarrow> bool" where
  "same_identity r s \<longleftrightarrow> act_id s = act_id r \<and> act_idempotency_key s = act_idempotency_key r \<and>
     act_bucket s = act_bucket r \<and> act_due_at s = act_due_at r \<and> act_claim_epoch r \<le> act_claim_epoch s"

definition queue_ok :: "queue_db \<Rightarrow> bool" where
  "queue_ok d \<longleftrightarrow> distinct (map act_id (qd_actions d)) \<and> distinct (map act_idempotency_key (qd_actions d)) \<and>
     list_all action_ok (qd_actions d)"

lemma distinct_states [simp]:
  "STATE_PENDING \<noteq> STATE_CLAIMED" "STATE_CLAIMED \<noteq> STATE_PENDING"
  "STATE_CLAIMED \<noteq> STATE_SUCCEEDED" "STATE_SUCCEEDED \<noteq> STATE_CLAIMED"
  "STATE_CLAIMED \<noteq> STATE_CANCELLED" "STATE_CANCELLED \<noteq> STATE_CLAIMED"
  "STATE_CLAIMED \<noteq> STATE_FAILED_SAFE" "STATE_FAILED_SAFE \<noteq> STATE_CLAIMED"
  "STATE_PENDING \<notin> terminal_states" "STATE_CLAIMED \<notin> terminal_states"
  "STATE_SUCCEEDED \<in> terminal_states" "STATE_CANCELLED \<in> terminal_states" "STATE_FAILED_SAFE \<in> terminal_states"
  by (simp_all add: state_defs terminal_states_def)

lemma action_okD:
  assumes "action_ok r"
  shows "0 \<le> act_attempts r" "0 \<le> act_claim_epoch r"
    "act_state r = STATE_CLAIMED \<Longrightarrow> act_lease_until r \<noteq> None"
    "act_state r = STATE_CLAIMED \<Longrightarrow> act_finished_at r = None"
    "act_state r = STATE_CLAIMED \<Longrightarrow> \<not> waiting_for_dependency r \<Longrightarrow> 1 \<le> act_attempts r"
  using assms by (auto simp: action_ok_def split: if_splits)

section \<open>Updates by key\<close>

lemma update_actions_apply [simp]:
  "update_actions P f d = Inr (count_rows P (qd_actions d), d\<lparr>qd_actions := update_rows P f (qd_actions d)\<rparr>)"
  by (simp add: update_actions_def)

lemma update_rows_refine:
  "update_rows (\<lambda>r. P r \<and> Q r) f t = update_rows P (\<lambda>r. if Q r then f r else r) t"
  by (simp add: update_rows_def)

lemma map_update_rows_same:
  "\<forall>r \<in> set t. P r \<longrightarrow> k (f r) = k r \<Longrightarrow> map k (update_rows P f t) = map k t"
  by (simp add: update_rows_def)

lemma list_all_update_rows:
  "list_all Q t \<Longrightarrow> \<forall>r \<in> set t. P r \<longrightarrow> Q r \<longrightarrow> Q (f r) \<Longrightarrow> list_all Q (update_rows P f t)"
  by (auto simp: update_rows_def list_all_iff)

text \<open>An update of the rows that satisfy a condition, which keeps them well-formed and identified.\<close>

definition row_update ::
  "(lifecycle_action_model \<Rightarrow> bool) \<Rightarrow> lifecycle_action_model list \<Rightarrow> lifecycle_action_model list \<Rightarrow> bool" where
  "row_update P t t' \<longleftrightarrow> (\<exists>f. t' = update_rows P f t \<and>
     (\<forall>r \<in> set t. P r \<longrightarrow> same_identity r (f r) \<and> (action_ok r \<longrightarrow> action_ok (f r))))"

lemma row_updateI:
  "t' = update_rows P f t \<Longrightarrow> \<forall>r \<in> set t. P r \<longrightarrow> same_identity r (f r) \<and> (action_ok r \<longrightarrow> action_ok (f r)) \<Longrightarrow> row_update P t t'"
  unfolding row_update_def by blast

lemma same_identity_refl: "same_identity r r"
  by (simp add: same_identity_def)

lemma row_update_refl: "row_update P t t"
  by (rule row_updateI [of _ _ "\<lambda>r. r"]) (simp_all add: update_rows_def same_identity_refl)

lemma row_update_none: "row_update P t t' \<Longrightarrow> \<forall>r \<in> set t. \<not> P r \<Longrightarrow> t' = t"
  unfolding row_update_def by (metis update_rows_none)

lemma row_update_keys:
  assumes "row_update P t t'"
  shows "map act_id t' = map act_id t" "map act_idempotency_key t' = map act_idempotency_key t"
  using assms unfolding row_update_def by (auto intro!: map_update_rows_same simp: same_identity_def)

lemma row_update_ok: "row_update P t t' \<Longrightarrow> list_all action_ok t \<Longrightarrow> list_all action_ok t'"
  unfolding row_update_def by (auto intro!: list_all_update_rows)

lemma row_update_queue_ok:
  "row_update P (qd_actions d) (qd_actions d') \<Longrightarrow> queue_ok d \<Longrightarrow> queue_ok d'"
  unfolding queue_ok_def by (simp only: row_update_keys row_update_ok)

section \<open>Stale claims\<close>

definition epoch_at_least :: "string \<Rightarrow> int \<Rightarrow> lifecycle_action_model list \<Rightarrow> bool" where
  "epoch_at_least i e t \<longleftrightarrow> (\<forall>r \<in> set t. act_id r = i \<longrightarrow> e \<le> act_claim_epoch r)"

text \<open>A claim is stale when its action has a later epoch.\<close>

definition stale :: "claimed_lifecycle_action \<Rightarrow> lifecycle_action_model list \<Rightarrow> bool" where
  "stale c t \<longleftrightarrow> epoch_at_least (act_id (cl_action c)) (cl_claim_epoch c + 1) t"

lemma stale_not_active: "stale c t \<Longrightarrow> \<forall>r \<in> set t. \<not> active_claim_condition c r"
  by (fastforce simp: stale_def epoch_at_least_def active_claim_condition_def)

lemma in_update_rowsE:
  assumes "s \<in> set (update_rows P f t)"
  obtains r where "r \<in> set t" "s = (if P r then f r else r)"
  using assms by (auto simp: set_update_rows)

lemma row_updateE:
  assumes "row_update P t t'" "s \<in> set t'"
  obtains r where "r \<in> set t" "same_identity r s" "s = r \<or> P r"
proof -
  obtain f where f: "t' = update_rows P f t" "\<forall>r \<in> set t. P r \<longrightarrow> same_identity r (f r) \<and> (action_ok r \<longrightarrow> action_ok (f r))"
    using assms(1) unfolding row_update_def by blast
  obtain r where r: "r \<in> set t" "s = (if P r then f r else r)"
    by (rule in_update_rowsE [OF assms(2) [unfolded f(1)]])
  show thesis
    by (rule that [OF r(1)]) (use r f(2) in \<open>simp_all add: same_identity_refl\<close>)
qed

lemma epoch_at_least_row_update:
  assumes "row_update P t t'" "epoch_at_least i e t"
  shows "epoch_at_least i e t'"
  unfolding epoch_at_least_def
proof (intro ballI impI)
  fix s
  assume s: "s \<in> set t'" "act_id s = i"
  obtain r where r: "r \<in> set t" "same_identity r s"
    by (rule row_updateE [OF assms(1) s(1)])
  then have "e \<le> act_claim_epoch r"
    using assms(2) s(2) by (simp add: epoch_at_least_def same_identity_def)
  with r(2) show "e \<le> act_claim_epoch s"
    by (simp add: same_identity_def)
qed

lemma stale_row_update: "row_update P t t' \<Longrightarrow> stale c t \<Longrightarrow> stale c t'"
  unfolding stale_def by (rule epoch_at_least_row_update)

lemma row_update_trans:
  assumes "row_update P t t'" "row_update P t' t''"
  shows "row_update P t t''"
proof -
  obtain f where f: "t' = update_rows P f t" "\<forall>r \<in> set t. P r \<longrightarrow> same_identity r (f r) \<and> (action_ok r \<longrightarrow> action_ok (f r))"
    using assms(1) unfolding row_update_def by blast
  obtain g where g: "t'' = update_rows P g t'" "\<forall>r \<in> set t'. P r \<longrightarrow> same_identity r (g r) \<and> (action_ok r \<longrightarrow> action_ok (g r))"
    using assms(2) unfolding row_update_def by blast
  show ?thesis
  proof (rule row_updateI)
    show "t'' = update_rows P (\<lambda>r. if P (f r) then g (f r) else f r) t"
      unfolding g(1) f(1) by (simp add: update_rows_def)
    show "\<forall>r \<in> set t. P r \<longrightarrow> same_identity r (if P (f r) then g (f r) else f r) \<and>
        (action_ok r \<longrightarrow> action_ok (if P (f r) then g (f r) else f r))"
    proof (intro ballI impI)
      fix r
      assume r: "r \<in> set t" "P r"
      then have 1: "same_identity r (f r)" "action_ok r \<Longrightarrow> action_ok (f r)" and "f r \<in> set t'"
        using f by (simp_all add: update_rows_hit)
      then have 2: "P (f r) \<Longrightarrow> same_identity (f r) (g (f r))" "P (f r) \<Longrightarrow> action_ok (f r) \<Longrightarrow> action_ok (g (f r))"
        using g(2) by simp_all
      show "same_identity r (if P (f r) then g (f r) else f r) \<and> (action_ok r \<longrightarrow> action_ok (if P (f r) then g (f r) else f r))"
        using 1 2 by (cases "P (f r)") (simp_all add: same_identity_def)
    qed
  qed
qed

section \<open>The contract of a worker's operation\<close>

definition token_ok :: "claimed_lifecycle_action \<Rightarrow> bool" where
  "token_ok c \<longleftrightarrow> 0 \<le> act_attempts (cl_action c)"

locale claim_operation =
  fixes op :: "claimed_lifecycle_action \<Rightarrow> (queue_db, 'a) tx"
  assumes fenced: "queue_ok d \<Longrightarrow> token_ok c \<Longrightarrow> op c d = Inr (x, d') \<Longrightarrow>
    row_update (active_claim_condition c) (qd_actions d) (qd_actions d')"
begin

lemma keeps_queue: "queue_ok d \<Longrightarrow> token_ok c \<Longrightarrow> op c d = Inr (x, d') \<Longrightarrow> queue_ok d'"
  using row_update_queue_ok [OF fenced] by blast

lemma keeps_stale:
  "queue_ok d \<Longrightarrow> token_ok c' \<Longrightarrow> op c' d = Inr (x, d') \<Longrightarrow> stale c (qd_actions d) \<Longrightarrow> stale c (qd_actions d')"
  by (rule stale_row_update [OF fenced])

lemma stale_changes_nothing:
  "queue_ok d \<Longrightarrow> token_ok c \<Longrightarrow> op c d = Inr (x, d') \<Longrightarrow> stale c (qd_actions d) \<Longrightarrow> qd_actions d' = qd_actions d"
  using row_update_none [OF fenced] stale_not_active by blast

end

lemma active_claimed: "active_claim_condition c r \<Longrightarrow> act_state r = STATE_CLAIMED"
  by (simp add: active_claim_condition_def)

lemma on_store_lock_frame: "on_store (lock_bucket_for_ownership b) d = Inr (x, d') \<Longrightarrow> d' = d"
  by (auto simp: on_store_def lock_bucket_for_ownership_def bindR_eq_Inr tx_inv)

lemma lock_claim_eq_Inr:
  assumes "lock_claim_for_execution c now d = Inr (x, d')"
  shows "d' = d" "x = Some r \<Longrightarrow> one_row (active_claim_condition c) (qd_actions d) = Some r \<and> lease_after now r"
  using assms unfolding lock_claim_for_execution_def
  by (auto simp: bindT_eq_Inr split: sum.splits app_error.splits option.splits if_splits)

lemma renew_mutation_frame:
  "renew_lifecycle_mutation_in_transaction max_day b k i e now stmt d = Inr (x, d') \<Longrightarrow> qd_actions d' = qd_actions d"
  unfolding renew_lifecycle_mutation_in_transaction_def Let_def
  by (auto simp: bindT_eq_Inr dest!: on_store_lock_frame split: option.splits if_splits)

lemma clear_mutation_frame:
  "clear_lifecycle_mutation_if_owned b k i e now d = Inr (x, d') \<Longrightarrow> qd_actions d' = qd_actions d \<and> qd_transitions d' = qd_transitions d"
  unfolding clear_lifecycle_mutation_if_owned_def Let_def
  by (auto simp: bindT_eq_Inr split: option.splits if_splits)

lemma succeeded_row_ok: "action_ok r \<Longrightarrow> action_ok (succeeded_row now r) \<and> same_identity r (succeeded_row now r)"
  by (simp add: action_ok_def succeeded_row_def same_identity_def)

lemma terminal_row_ok:
  "s \<in> {STATE_CANCELLED, STATE_FAILED_SAFE} \<Longrightarrow> action_ok r \<Longrightarrow> action_ok (terminal_row now s fc r)"
  by (auto simp: action_ok_def terminal_row_def)

lemma renewed_row_ok:
  "act_state r = STATE_CLAIMED \<Longrightarrow> action_ok r \<Longrightarrow> action_ok (renewed_row now until r)"
  by (auto simp: action_ok_def renewed_row_def waiting_for_dependency_def waiting_for_transition_def)

lemma consumed_attempts_nonneg:
  "action_ok r \<Longrightarrow> act_state r = STATE_CLAIMED \<Longrightarrow> 0 \<le> consumed_attempts r"
  using action_okD(1,5) [of r] by (auto simp: consumed_attempts_def saturating_add_i64_def i64_min_def i64_max_def)

lemma action_ok_pending:
  "act_state s = STATE_PENDING \<Longrightarrow> 0 \<le> act_attempts s \<Longrightarrow> 0 \<le> act_claim_epoch s \<Longrightarrow> act_lease_until s = None \<Longrightarrow>
   act_claimed_by s = None \<Longrightarrow> act_finished_at s = None \<Longrightarrow> action_ok s"
  by (simp add: action_ok_def)

lemma parked_row_ok:
  "action_ok r \<Longrightarrow> act_state r = STATE_CLAIMED \<Longrightarrow> 0 \<le> consumed_attempts a \<Longrightarrow> action_ok (parked_row a now next_at fc r)"
  using action_okD(2) [of r] action_okD(4) [of r] by (intro action_ok_pending) (simp_all add: parked_row_def)

lemma retry_row_ok:
  "action_ok r \<Longrightarrow> token_ok c \<Longrightarrow> action_ok (retry_row c now next_at fc r)"
  using action_okD(2) [of r] by (intro action_ok_pending) (simp_all add: retry_row_def retry_attempts_def token_ok_def)

lemma identity_rows [simp]:
  "same_identity r (succeeded_row now r)" "same_identity r (terminal_row now s fc r)"
  "same_identity r (renewed_row now until r)" "same_identity r (parked_row a now next_at ofc r)"
  "same_identity r (retry_row c now next_at fc r)" "same_identity r (failed_safe_row a now r)"
  by (simp_all add: same_identity_def succeeded_row_def terminal_row_def renewed_row_def parked_row_def retry_row_def
      failed_safe_row_def)

lemma row_update_lease:
  assumes "\<forall>r \<in> set t. active_claim_condition c r \<longrightarrow> same_identity r (f r) \<and> (action_ok r \<longrightarrow> action_ok (f r))"
  shows "row_update (active_claim_condition c) t (update_rows (\<lambda>r. active_claim_condition c r \<and> lease_after now r) f t)"
  unfolding update_rows_refine by (rule row_updateI [OF refl]) (use assms in \<open>simp add: same_identity_refl\<close>)

lemma locked_row:
  assumes "queue_ok d" "one_row (active_claim_condition c) (qd_actions d) = Some a"
  shows "action_ok a" "act_state a = STATE_CLAIMED"
  using one_row_SomeD [OF assms(2)] assms(1) by (simp_all add: queue_ok_def list_all_iff active_claimed [of c])

lemma mark_succeeded_fenced:
  "mark_succeeded c now d = Inr (x, d') \<Longrightarrow> row_update (active_claim_condition c) (qd_actions d) (qd_actions d')"
  unfolding mark_succeeded_def
  by (rule row_updateI [of _ _ "succeeded_row now"]) (auto simp: bindT_eq_Inr succeeded_row_ok)

lemma terminal_failure_fenced:
  assumes "terminal_failure_update c now s fc d = Inr (x, d')" "s \<in> {STATE_CANCELLED, STATE_FAILED_SAFE}"
  shows "row_update (active_claim_condition c) (qd_actions d) (qd_actions d')"
  using assms terminal_row_ok [OF assms(2)] unfolding terminal_failure_update_def
  by (intro row_updateI [of _ _ "terminal_row now s fc"]) (auto simp: bindT_eq_Inr)

lemma schedule_retry_fenced:
  assumes "schedule_retry c now next_at fc d = Inr (x, d')" "token_ok c"
  shows "row_update (active_claim_condition c) (qd_actions d) (qd_actions d')"
  using assms retry_row_ok [OF _ assms(2)] unfolding schedule_retry_def
  by (intro row_updateI [of _ _ "retry_row c now next_at fc"]) (auto simp: bindT_eq_Inr)

text \<open>The common shape: lock the claim, then act on the row found.\<close>

lemma bind_lock_eq_Inr:
  "bindT (lock_claim_for_execution c t) k d = Inr (x, d') \<longleftrightarrow>
   (\<exists>locked. lock_claim_for_execution c t d = Inr (locked, d) \<and> k locked d = Inr (x, d'))"
  unfolding bindT_eq_Inr using lock_claim_eq_Inr(1) by metis

lemma renew_claim_fenced:
  assumes "renew_claim max_day c lease_for t1 t2 t3 t4 d = Inr (x, d')"
  shows "row_update (active_claim_condition c) (qd_actions d) (qd_actions d')"
proof -
  obtain locked where l: "lock_claim_for_execution c t1 d = Inr (locked, d)" and
    k: "(if locked = None then returnT False
     else
       bindT (liftT (ok_or (InvalidArgument ''lifecycle action lease is outside the database timestamp range'')
                (checked_add_signed max_day t2 lease_for))) (\<lambda>until.
       bindT (update_actions (\<lambda>r. active_claim_condition c r \<and> lease_after t2 r) (renewed_row t2 until)) (\<lambda>n.
       bindT (if n = 1 \<and> act_target_type (cl_action c) = ''version''
              then renew_lifecycle_mutation_in_transaction max_day (act_bucket (cl_action c))
                     (act_object_key (cl_action c)) (act_id (cl_action c)) (cl_claim_epoch c) t3 t4
              else returnT ()) (\<lambda>_.
       returnT (n = 1))))) d = Inr (x, d')"
    using assms unfolding renew_claim_def renew_claim_in_transaction_def
    by (simp add: bindT_eq_Inr [of "liftT (validate_lease_duration lease_for)"] bind_lock_eq_Inr) (elim exE conjE, rule that)
  consider "d' = d" | until where "qd_actions d' =
      update_rows (\<lambda>r. active_claim_condition c r \<and> lease_after t2 r) (renewed_row t2 until) (qd_actions d)"
  proof (cases locked)
    case None
    with k that(1) show thesis
      by simp
  next
    case (Some a)
    with k that(2) show thesis
      by (auto simp: bindT_eq_Inr dest!: renew_mutation_frame split: if_splits)
  qed
  then show ?thesis
    by cases (auto intro!: row_update_refl row_update_lease simp: renewed_row_ok active_claimed)
qed

lemma park_fenced:
  assumes "park_dependency_in_transaction max_day c a reason now d = Inr (x, d')"
    "action_ok a" "act_state a = STATE_CLAIMED"
  shows "row_update (active_claim_condition c) (qd_actions d) (qd_actions d')"
  using assms consumed_attempts_nonneg unfolding park_dependency_in_transaction_def
  by (auto simp: bindT_eq_Inr parked_row_ok active_claimed intro!: row_update_lease)

lemma lockedE:
  assumes "queue_ok d" "bindT (lock_claim_for_execution c t) k d = Inr (x, d')"
  obtains (none) "k None d = Inr (x, d')"
  | (some) a where "k (Some a) d = Inr (x, d')" "action_ok a" "act_state a = STATE_CLAIMED" "active_claim_condition c a"
proof -
  obtain locked where l: "lock_claim_for_execution c t d = Inr (locked, d)" "k locked d = Inr (x, d')"
    using assms(2) unfolding bind_lock_eq_Inr by blast
  show thesis
  proof (cases locked)
    case None
    with l none show thesis
      by simp
  next
    case (Some a)
    then have a: "one_row (active_claim_condition c) (qd_actions d) = Some a"
      using lock_claim_eq_Inr(2) [OF l(1)] by simp
    show thesis
      by (rule some [of a]) (use l(2) Some locked_row [OF assms(1) a] one_row_SomeD [OF a] in simp_all)
  qed
qed

lemma wait_for_mutation_fenced:
  assumes "queue_ok d" "wait_for_mutation_dependency max_day c n t1 t2 d = Inr (x, d')"
  shows "row_update (active_claim_condition c) (qd_actions d) (qd_actions d')"
  using assms(1) assms(2) [unfolded wait_for_mutation_dependency_def]
proof (cases rule: lockedE)
  case none
  then show ?thesis
    by (simp add: row_update_refl)
next
  case (some a)
  then show ?thesis
    by (auto simp: bindT_eq_Inr row_update_refl dest: park_fenced split: if_splits)
qed

lemma wait_for_transition_fenced:
  assumes "queue_ok d" "wait_for_transition_in_transaction max_day c t1 t2 d = Inr (x, d')"
  shows "row_update (active_claim_condition c) (qd_actions d) (qd_actions d')"
  using assms(1) assms(2) [unfolded wait_for_transition_in_transaction_def]
proof (cases rule: lockedE)
  case none
  then show ?thesis
    by (simp add: row_update_refl)
next
  case (some a)
  then show ?thesis
    by (auto dest: park_fenced split: if_splits)
qed

lemma wait_for_hot_verification_fenced:
  assumes "queue_ok d" "wait_for_hot_verification_in_transaction max_day c t1 t2 d = Inr (x, d')"
  shows "row_update (active_claim_condition c) (qd_actions d) (qd_actions d')"
  using assms(1) assms(2) [unfolded wait_for_hot_verification_in_transaction_def]
proof (cases rule: lockedE)
  case none
  then show ?thesis
    by (simp add: row_update_refl)
next
  case (some a)
  then obtain next_at where "qd_actions d' = update_rows (\<lambda>r. active_claim_condition c r \<and> lease_after t2 r)
      (parked_row a t2 next_at None) (qd_actions d)"
    by (auto simp: bindT_eq_Inr split: if_splits)
  then show ?thesis
    using some(2,3) by (auto intro!: row_update_lease simp: parked_row_ok active_claimed consumed_attempts_nonneg)
qed

interpretation succeed_op: claim_operation "\<lambda>c. mark_succeeded c now" for now
  by unfold_locales (rule mark_succeeded_fenced)

interpretation cancel_op: claim_operation "\<lambda>c. mark_cancelled c now fc" for now fc
  by unfold_locales (auto simp: mark_cancelled_def elim: terminal_failure_fenced)

interpretation fail_op: claim_operation "\<lambda>c. mark_failed_safe c now fc" for now fc
  by unfold_locales (auto simp: mark_failed_safe_def elim: terminal_failure_fenced)

interpretation retry_op: claim_operation "\<lambda>c. schedule_retry c now next_at fc" for now next_at fc
  by unfold_locales (rule schedule_retry_fenced)

interpretation renew_op: claim_operation "\<lambda>c. renew_claim max_day c lease_for t1 t2 t3 t4" for max_day lease_for t1 t2 t3 t4
  by unfold_locales (rule renew_claim_fenced)

interpretation mutation_op: claim_operation "\<lambda>c. wait_for_mutation_dependency max_day c n t1 t2" for max_day n t1 t2
  by unfold_locales (rule wait_for_mutation_fenced)

interpretation transition_op: claim_operation "\<lambda>c. wait_for_transition_in_transaction max_day c t1 t2" for max_day t1 t2
  by unfold_locales (rule wait_for_transition_fenced)

interpretation hot_op: claim_operation "\<lambda>c. wait_for_hot_verification_in_transaction max_day c t1 t2" for max_day t1 t2
  by unfold_locales (rule wait_for_hot_verification_fenced)

end
