(* ===== verification/Lifecycle_Fencing.thy ===== *)
theory Lifecycle_Fencing
  imports Lifecycle_Claims
begin

text \<open>
  The steps of the action queue as a relation, its invariant, and the safety of claims: a live lease
  excludes other workers, and a claim that was taken over is fenced off for ever.
\<close>

section \<open>Claiming one action\<close>

lemma qd_actions_updated: "qd_actions (d\<lparr>qd_actions := t\<rparr>) = t"
  by simp

lemma queue_ok_unique:
  assumes "queue_ok d" "r \<in> set (qd_actions d)" "s \<in> set (qd_actions d)" "act_id r = act_id s"
  shows "r = s"
  using assms by (auto simp: queue_ok_def distinct_map dest: inj_onD)

lemma queue_ok_row: "queue_ok d \<Longrightarrow> r \<in> set (qd_actions d) \<Longrightarrow> action_ok r"
  by (simp add: queue_ok_def list_all_iff)

lemma saga_exists_cong: "qd_transitions d' = qd_transitions d \<Longrightarrow> unfinished_transition_saga_exists d' = unfinished_transition_saga_exists d"
  by (simp add: unfinished_transition_saga_exists_def fun_eq_iff)

lemma due_cong:
  assumes "qd_transitions d' = qd_transitions d"
  shows "due_claim_condition now d' = due_claim_condition now d"
  unfolding due_claim_condition_def fun_eq_iff saga_exists_cong [OF assms] by (intro allI refl)

lemma claimed_row_selectors [simp]:
  "act_id (claimed_row a w e now u r) = act_id r"
  "act_idempotency_key (claimed_row a w e now u r) = act_idempotency_key r"
  "act_bucket (claimed_row a w e now u r) = act_bucket r"
  "act_due_at (claimed_row a w e now u r) = act_due_at r"
  "act_action_kind (claimed_row a w e now u r) = act_action_kind r"
  "act_target_type (claimed_row a w e now u r) = act_target_type r"
  "act_failure_class (claimed_row a w e now u r) = act_failure_class r"
  "act_state (claimed_row a w e now u r) = STATE_CLAIMED"
  "act_claim_epoch (claimed_row a w e now u r) = e"
  "act_lease_until (claimed_row a w e now u r) = Some u"
  "act_claimed_by (claimed_row a w e now u r) = Some w"
  "act_finished_at (claimed_row a w e now u r) = None"
  "act_attempts (claimed_row a w e now u r) = saturating_add_i64 (act_attempts a) (if waiting_for_dependency a then 0 else 1)"
  by (simp_all add: claimed_row_def Let_def)

lemma claimed_row_waiting [simp]: "waiting_for_dependency (claimed_row a w e now u r) = waiting_for_dependency r"
  by (simp add: waiting_for_dependency_def waiting_for_transition_def)

lemma saturating_add_nonneg: "0 \<le> a \<Longrightarrow> 0 \<le> b \<Longrightarrow> 0 \<le> saturating_add_i64 a b"
  by (simp add: saturating_add_i64_def i64_max_def)

lemma saturating_add_pos: "0 \<le> a \<Longrightarrow> 1 \<le> saturating_add_i64 a 1"
  by (simp add: saturating_add_i64_def i64_max_def)

lemma claimed_row_ok:
  assumes "action_ok r" "0 \<le> e"
  shows "action_ok (claimed_row r w e now u r)"
  using assms action_okD(1) [OF assms(1)] by (simp add: action_ok_def [of "claimed_row r w e now u r"] saturating_add_nonneg saturating_add_pos)

lemma checked_add_Some: "checked_add_i64 a 1 = Some e \<Longrightarrow> e = a + 1"
  by (simp add: checked_add_i64_def split: if_splits)

text \<open>What a claim holds at the moment it is handed out, for the row it was taken from.\<close>

definition claim_of ::
  "lifecycle_action_model \<Rightarrow> string \<Rightarrow> datetime \<Rightarrow> datetime \<Rightarrow> claimed_lifecycle_action \<Rightarrow> bool" where
  "claim_of r worker now until c \<longleftrightarrow>
     cl_action c = claimed_row r worker (act_claim_epoch r + 1) now until r \<and>
     cl_claim_epoch c = act_claim_epoch r + 1 \<and> cl_worker_id c = worker"

lemma row_update_key:
  assumes "queue_ok d" "r \<in> set (qd_actions d)" "P r" "same_identity r (f r)" "action_ok r \<Longrightarrow> action_ok (f r)"
    "\<forall>s. Q s \<longrightarrow> act_id s = act_id r \<and> P s"
  shows "row_update P (qd_actions d) (update_rows Q f (qd_actions d))"
proof (rule row_updateI)
  show "update_rows Q f (qd_actions d) = update_rows P (\<lambda>s. if Q s then f s else s) (qd_actions d)"
    using assms(6) by (auto simp: update_rows_def)
  show "\<forall>s \<in> set (qd_actions d). P s \<longrightarrow> same_identity s (if Q s then f s else s) \<and>
      (action_ok s \<longrightarrow> action_ok (if Q s then f s else s))"
  proof (intro ballI impI)
    fix s
    assume s: "s \<in> set (qd_actions d)" "P s"
    show "same_identity s (if Q s then f s else s) \<and> (action_ok s \<longrightarrow> action_ok (if Q s then f s else s))"
    proof (cases "Q s")
      case True
      then have "s = r"
        using queue_ok_unique [OF assms(1) s(1) assms(2)] assms(6) by blast
      with True assms(4,5) show ?thesis
        by simp
    qed (simp add: same_identity_refl)
  qed
qed

lemma claim_candidate_effect:
  assumes ok: "queue_ok d" and r: "r \<in> set (qd_actions d)" "due_claim_condition now d r"
    and run: "claim_candidate r w now until d = Inr (x, d')"
  shows "row_update (due_claim_condition now d) (qd_actions d) (qd_actions d')"
    and "qd_transitions d' = qd_transitions d"
    and "\<exists>c. x = Some c \<and> claim_of r w now until c \<and> epoch_at_least (act_id r) (act_claim_epoch r + 1) (qd_actions d')"
proof -
  let ?Q = "\<lambda>s. act_id s = act_id r \<and> act_attempts s = act_attempts r \<and> act_claim_epoch s = act_claim_epoch r \<and>
    due_claim_condition now d s"
  let ?f = "claimed_row r w (act_claim_epoch r + 1) now until"
  have uniq: "s = r" if "s \<in> set (qd_actions d)" "act_id s = act_id r" for s
    using queue_ok_unique [OF ok that(1) r(1) that(2)] .
  have dist: "distinct (qd_actions d)"
    using ok by (simp add: queue_ok_def distinct_map)
  have one: "count_rows ?Q (qd_actions d) = 1"
    by (rule count_rows_eq_1 [OF dist r(1)]) (use r(2) uniq in blast)+
  have found: "one_row (\<lambda>s. act_id s = act_id r) (update_rows ?Q ?f (qd_actions d)) = Some (?f r)"
  proof -
    have "one_row (\<lambda>s. act_id s = act_id r) (qd_actions d) = Some r"
      by (rule one_row_unique [OF r(1)]) (use uniq in simp_all)
    then show ?thesis
      using r(2) by (subst one_row_update_rows) simp_all
  qed
  have step: "x = Some \<lparr>cl_action = ?f r, cl_claim_epoch = act_claim_epoch r + 1, cl_worker_id = w\<rparr>"
    "d' = d\<lparr>qd_actions := update_rows ?Q ?f (qd_actions d)\<rparr>"
    using run one found unfolding claim_candidate_def
    by (auto simp: bindT_eq_Inr dest!: checked_add_Some)
  show "qd_transitions d' = qd_transitions d"
    by (simp add: step(2))
  show up: "row_update (due_claim_condition now d) (qd_actions d) (qd_actions d')"
    unfolding step(2) qd_actions_updated
    by (rule row_update_key [where P = "due_claim_condition now d", OF ok r])
      (use queue_ok_row [OF ok r(1)] action_okD(2) [OF queue_ok_row [OF ok r(1)]] in
        \<open>simp_all add: same_identity_def claimed_row_ok\<close>)
  have "epoch_at_least (act_id r) (act_claim_epoch r + 1) (qd_actions d')"
    unfolding epoch_at_least_def
  proof (intro ballI impI)
    fix s
    assume "s \<in> set (qd_actions d')" "act_id s = act_id r"
    then obtain t where "t \<in> set (qd_actions d)" "s = (if ?Q t then ?f t else t)" "act_id s = act_id r"
      unfolding step(2) qd_actions_updated by (elim in_update_rowsE)
    then have "s = ?f r"
      using uniq r(2) by (cases "?Q t") auto
    then show "act_claim_epoch r + 1 \<le> act_claim_epoch s"
      by simp
  qed
  then show "\<exists>c. x = Some c \<and> claim_of r w now until c \<and> epoch_at_least (act_id r) (act_claim_epoch r + 1) (qd_actions d')"
    by (simp add: step(1) claim_of_def)
qed

lemma failed_safe_row_ok: "action_ok r \<Longrightarrow> action_ok (failed_safe_row a now r)"
  by (simp add: action_ok_def failed_safe_row_def)

lemma fail_safe_effect:
  assumes ok: "queue_ok d" and r: "r \<in> set (qd_actions d)" "due_claim_condition now d r"
    and run: "fail_safe_exhausted r now d = Inr (x, d')"
  shows "row_update (due_claim_condition now d) (qd_actions d) (qd_actions d')"
    and "qd_transitions d' = qd_transitions d"
proof -
  obtain d1 where d1: "qd_actions d1 = qd_actions d" "qd_transitions d1 = qd_transitions d" and
    upd: "d' = d1\<lparr>qd_actions := update_rows
      (\<lambda>s. act_id s = act_id r \<and> act_attempts s = act_attempts r \<and> act_claim_epoch s = act_claim_epoch r \<and>
           due_claim_condition now d1 s) (failed_safe_row r now) (qd_actions d1)\<rparr>"
    using run unfolding fail_safe_exhausted_def
    by (auto simp: bindT_eq_Inr dest!: on_store_lock_frame clear_mutation_frame split: if_splits)
  show "qd_transitions d' = qd_transitions d"
    by (simp add: upd d1(2))
  show "row_update (due_claim_condition now d) (qd_actions d) (qd_actions d')"
    unfolding upd qd_actions_updated d1(1) due_cong [OF d1(2)]
    by (rule row_update_key [where P = "due_claim_condition now d", OF ok r]) (simp_all add: failed_safe_row_ok)
qed

lemma claim_one_effect:
  assumes ok: "queue_ok d" and run: "claim_one w n now until locked a d = Inr (x, d')"
  shows "row_update (due_claim_condition now d) (qd_actions d) (qd_actions d') \<and> qd_transitions d' = qd_transitions d \<and>
    (\<forall>c. x = Some c \<longrightarrow> (\<exists>r \<in> set (qd_actions d). act_id r = act_id a \<and> due_claim_condition now d r \<and> may_claim n d r \<and>
       claim_of r w now until c \<and> epoch_at_least (act_id r) (act_claim_epoch r + 1) (qd_actions d')))"
proof (cases "locked (act_bucket a)")
  case False
  with run show ?thesis
    by (simp add: claim_one_def row_update_refl)
next
  case True
  show ?thesis
  proof (cases "one_row (\<lambda>r. act_id r = act_id a \<and> due_claim_condition now d r) (qd_actions d)")
    case None
    with run True show ?thesis
      by (simp add: claim_one_def row_update_refl)
  next
    case (Some r)
    have r: "r \<in> set (qd_actions d)" "due_claim_condition now d r" "act_id r = act_id a"
      using one_row_SomeD [OF Some] by simp_all
    show ?thesis
    proof (cases "may_claim n d r")
      case False
      then obtain y where "fail_safe_exhausted r now d = Inr (y, d')" "x = None"
        using run True Some by (auto simp: claim_one_def bindT_eq_Inr)
      then show ?thesis
        using fail_safe_effect [OF ok r(1,2)] by simp
    next
      case may: True
      then have "claim_candidate r w now until d = Inr (x, d')"
        using run True Some by (simp add: claim_one_def)
      note e = claim_candidate_effect [OF ok r(1,2) this]
      show ?thesis
        using e(1,2) by (intro conjI allI impI) (use e(3) r may in \<open>auto intro!: bexI [OF _ r(1)]\<close>)
    qed
  qed
qed

section \<open>Claiming a batch\<close>

text \<open>The claims handed out so far, each for a row that has not been claimed since.\<close>

definition granted ::
  "int \<Rightarrow> string \<Rightarrow> datetime \<Rightarrow> datetime \<Rightarrow> lifecycle_action_model list \<Rightarrow> claimed_lifecycle_action \<Rightarrow> bool" where
  "granted n w now until t c \<longleftrightarrow> (\<exists>r d0. claim_of r w now until c \<and> action_ok r \<and> may_claim n d0 r \<and>
     due_claim_condition now d0 r) \<and> epoch_at_least (act_id (cl_action c)) (cl_claim_epoch c) t"

lemma claim_of_id: "claim_of r w now until c \<Longrightarrow> act_id (cl_action c) = act_id r \<and> cl_claim_epoch c = act_claim_epoch r + 1"
  by (simp add: claim_of_def)

lemma granted_row_update: "granted n w now until t c \<Longrightarrow> row_update P t t' \<Longrightarrow> granted n w now until t' c"
  unfolding granted_def using epoch_at_least_row_update by blast

lemma claim_loop_effect:
  assumes "queue_ok d" "claim_loop w n now until locked claimed cands d = Inr (cs, d')"
    "list_all (granted n w now until (qd_actions d)) claimed"
  shows "row_update (due_claim_condition now d) (qd_actions d) (qd_actions d') \<and> qd_transitions d' = qd_transitions d \<and>
    list_all (granted n w now until (qd_actions d')) cs \<and> length cs \<le> length claimed + length cands"
  using assms
proof (induction cands arbitrary: d claimed)
  case Nil
  then show ?case
    by (simp add: row_update_refl)
next
  case (Cons a cands)
  let ?next = "\<lambda>x. case x of None \<Rightarrow> claimed | Some c \<Rightarrow> claimed @ [c]"
  obtain x d1 where x: "claim_one w n now until locked a d = Inr (x, d1)"
    "claim_loop w n now until locked (?next x) cands d1 = Inr (cs, d')"
    using Cons.prems(2) by (auto simp: bindT_eq_Inr)
  note e = claim_one_effect [OF Cons.prems(1) x(1)]
  have up: "row_update (due_claim_condition now d) (qd_actions d) (qd_actions d1)" and tr: "qd_transitions d1 = qd_transitions d"
    using e by simp_all
  have old: "list_all (granted n w now until (qd_actions d1)) claimed"
    using Cons.prems(3) granted_row_update [OF _ up] by (auto simp: list_all_iff)
  have new: "granted n w now until (qd_actions d1) c" if some: "x = Some c" for c
  proof -
    obtain r where r: "r \<in> set (qd_actions d)" "due_claim_condition now d r" "may_claim n d r" "claim_of r w now until c"
      "epoch_at_least (act_id r) (act_claim_epoch r + 1) (qd_actions d1)"
      using e [THEN conjunct2, THEN conjunct2, THEN spec, THEN mp, OF some] by (elim bexE conjE) (rule that)
    show ?thesis
      unfolding granted_def using r queue_ok_row [OF Cons.prems(1) r(1)] claim_of_id [OF r(4)] by (intro conjI exI [of _ r] exI [of _ d]) simp_all
  qed
  have "list_all (granted n w now until (qd_actions d1)) (?next x)"
    using old new by (cases x) simp_all
  note IH = Cons.IH [OF row_update_queue_ok [OF up Cons.prems(1)] x(2) this]
  have len: "length (?next x) \<le> length claimed + 1"
    by (cases x) simp_all
  show ?case
    using IH row_update_trans [OF up] len by (simp add: due_cong [OF tr] tr)
qed

lemma checked_add_signed_Some: "checked_add_signed m t x = Some u \<Longrightarrow> u = t + x"
  by (simp add: checked_add_signed_def split: if_splits)

lemma claim_due_effect:
  assumes "queue_ok d" "claim_due_with_max_attempts max_day w lease_for n limit seen now d = Inr (cs, d')"
  shows "row_update (due_claim_condition now d) (qd_actions d) (qd_actions d')"
    "list_all (granted n w now (now + lease_for) (qd_actions d')) cs" "length cs \<le> limit" "0 < lease_for"
proof -
  have len: "length (due_candidates seen limit d) \<le> limit"
    by (simp add: due_candidates_def)
  obtain locked until where u: "checked_add_signed max_day now lease_for = Some until" "0 < lease_for"
    "claim_loop w n now until locked [] (due_candidates seen limit d) d = Inr (cs, d')"
    using assms(2) unfolding claim_due_with_max_attempts_def claim_due_in_transaction_def
    by (auto simp: bindT_eq_Inr validate_claim_request_def validate_lease_duration_def bindR_eq_Inr split: if_splits)
  have "until = now + lease_for"
    by (rule checked_add_signed_Some [OF u(1)])
  then show "row_update (due_claim_condition now d) (qd_actions d) (qd_actions d')"
    "list_all (granted n w now (now + lease_for) (qd_actions d')) cs" "length cs \<le> limit" "0 < lease_for"
    using claim_loop_effect [OF assms(1) u(3)] u(2) len by simp_all
qed

section \<open>Steps of the queue\<close>

lemma action_row_ok: "action_ok (action_row v a i now)"
  by (rule action_ok_pending) (simp_all add: action_row_def)

lemma action_row_id [simp]: "act_id (action_row v a i now) = i"
  by (simp add: action_row_def)

lemma insert_effect:
  assumes "insert_idempotent ic a uuid now d = Inr (x, d')"
  obtains (replayed) "d' = d" "\<not> x"
  | (inserted) v where "d' = d\<lparr>qd_actions := qd_actions d @ [action_row v a uuid now]\<rparr>" "x"
      "validate_action ic a = Inr v" "uuid \<notin> act_id ` set (qd_actions d)"
      "act_idempotency_key (action_row v a uuid now) \<notin> act_idempotency_key ` set (qd_actions d)"
  using assms unfolding insert_idempotent_def insert_action_row_def
  by (auto simp: bindT_eq_Inr split: if_splits)

text \<open>
  One transaction of the queue. New actions get identifiers that are not in \<open>issued\<close>, since
  a random UUID is never drawn twice. Deleting a bucket deletes its actions, and any other
  component may change the other tables.
\<close>

inductive queue_step :: "string set \<Rightarrow> queue_db \<Rightarrow> queue_db \<Rightarrow> bool" for issued where
  insert: "insert_idempotent ic a uuid now d = Inr (x, d') \<Longrightarrow> uuid \<notin> issued \<Longrightarrow> queue_step issued d d'"
| claim: "claim_due_with_max_attempts max_day w lease_for n limit seen now d = Inr (cs, d') \<Longrightarrow> queue_step issued d d'"
| renew: "renew_claim max_day c lease_for t1 t2 t3 t4 d = Inr (b, d') \<Longrightarrow> token_ok c \<Longrightarrow> queue_step issued d d'"
| succeed: "mark_succeeded c now d = Inr (b, d') \<Longrightarrow> token_ok c \<Longrightarrow> queue_step issued d d'"
| cancel: "mark_cancelled c now fc d = Inr (b, d') \<Longrightarrow> token_ok c \<Longrightarrow> queue_step issued d d'"
| fail: "mark_failed_safe c now fc d = Inr (b, d') \<Longrightarrow> token_ok c \<Longrightarrow> queue_step issued d d'"
| retry: "schedule_retry c now next_at fc d = Inr (b, d') \<Longrightarrow> token_ok c \<Longrightarrow> queue_step issued d d'"
| wait_mutation: "wait_for_mutation_dependency max_day c n t1 t2 d = Inr (b, d') \<Longrightarrow> token_ok c \<Longrightarrow> queue_step issued d d'"
| wait_transition: "wait_for_transition_in_transaction max_day c t1 t2 d = Inr (b, d') \<Longrightarrow> token_ok c \<Longrightarrow> queue_step issued d d'"
| wait_hot: "wait_for_hot_verification_in_transaction max_day c t1 t2 d = Inr (b, d') \<Longrightarrow> token_ok c \<Longrightarrow> queue_step issued d d'"
| diagnose: "record_cancellation_diagnostic c text d = Inr (u, d') \<Longrightarrow> queue_step issued d d'"
| bucket_deleted: "qd_actions d' = delete_rows (\<lambda>r. act_bucket r = b) (qd_actions d) \<Longrightarrow> queue_step issued d d'"
| other: "qd_actions d' = qd_actions d \<Longrightarrow> queue_step issued d d'"

text \<open>Every step inserts one row, deletes rows or updates rows.\<close>

lemma queue_stepE:
  assumes "queue_step issued d d'" "queue_ok d"
  obtains (inserted) r where "qd_actions d' = qd_actions d @ [r]" "action_ok r" "act_id r \<notin> issued"
      "act_id r \<notin> act_id ` set (qd_actions d)" "act_idempotency_key r \<notin> act_idempotency_key ` set (qd_actions d)"
  | (deleted) b where "qd_actions d' = delete_rows (\<lambda>r. act_bucket r = b) (qd_actions d)"
  | (updated) P where "row_update P (qd_actions d) (qd_actions d')"
  using assms(1)
proof cases
  case (insert ic a uuid now x)
  from insert(1) show thesis
  proof (cases rule: insert_effect)
    case replayed
    then show thesis
      using updated row_update_refl by metis
  next
    case new: (inserted v)
    show thesis
      by (rule inserted [of "action_row v a uuid now"]) (use new insert(2) in \<open>simp_all add: action_row_ok\<close>)
  qed
next
  case claim
  show thesis
    by (rule updated, rule claim_due_effect(1) [OF assms(2) claim])
next
  case other
  show thesis
    by (rule updated [of "\<lambda>_. False"]) (simp add: other row_update_refl)
next
  case (diagnose c diagnostic u)
  show thesis
    by (rule updated, rule row_updateI [where f = "\<lambda>r. r\<lparr>act_last_error_redacted := Some diagnostic\<rparr>"])
      (use diagnose in \<open>auto simp: record_cancellation_diagnostic_def bindT_eq_Inr same_identity_def action_ok_def\<close>)
next
  case bucket_deleted
  then show thesis
    by (rule deleted)
next
  case renew
  show thesis
    by (rule updated, rule renew_op.fenced [OF assms(2) renew(2) renew(1)])
next
  case succeed
  show thesis
    by (rule updated, rule succeed_op.fenced [OF assms(2) succeed(2) succeed(1)])
next
  case cancel
  show thesis
    by (rule updated, rule cancel_op.fenced [OF assms(2) cancel(2) cancel(1)])
next
  case fail
  show thesis
    by (rule updated, rule fail_op.fenced [OF assms(2) fail(2) fail(1)])
next
  case retry
  show thesis
    by (rule updated, rule retry_op.fenced [OF assms(2) retry(2) retry(1)])
next
  case wait_mutation
  show thesis
    by (rule updated, rule mutation_op.fenced [OF assms(2) wait_mutation(2) wait_mutation(1)])
next
  case wait_transition
  show thesis
    by (rule updated, rule transition_op.fenced [OF assms(2) wait_transition(2) wait_transition(1)])
next
  case wait_hot
  show thesis
    by (rule updated, rule hot_op.fenced [OF assms(2) wait_hot(2) wait_hot(1)])
qed

lemma queue_step_ok:
  assumes "queue_step issued d d'" "queue_ok d"
  shows "queue_ok d'"
  using assms
proof (cases rule: queue_stepE)
  case (inserted r)
  with assms(2) show ?thesis
    by (simp add: queue_ok_def)
next
  case (deleted b)
  with assms(2) show ?thesis
    unfolding queue_ok_def by (simp add: distinct_map_delete_rows list_all_iff)
next
  case (updated P)
  then show ?thesis
    using row_update_queue_ok assms(2) by blast
qed

lemma queue_step_epoch:
  assumes "queue_step issued d d'" "queue_ok d" "i \<in> issued" "epoch_at_least i e (qd_actions d)"
  shows "epoch_at_least i e (qd_actions d')"
  using assms(1,2)
proof (cases rule: queue_stepE)
  case (inserted r)
  with assms(3,4) show ?thesis
    by (auto simp: epoch_at_least_def)
next
  case (deleted b)
  with assms(4) show ?thesis
    by (simp add: epoch_at_least_def)
next
  case (updated P)
  then show ?thesis
    using epoch_at_least_row_update assms(4) by blast
qed

lemma queue_steps_ok: "(queue_step issued)\<^sup>*\<^sup>* d d' \<Longrightarrow> queue_ok d \<Longrightarrow> queue_ok d'"
  by (induction rule: rtranclp_induct) (simp_all add: queue_step_ok)

lemma queue_steps_epoch:
  assumes "(queue_step issued)\<^sup>*\<^sup>* d d'" "queue_ok d" "i \<in> issued" "epoch_at_least i e (qd_actions d)"
  shows "epoch_at_least i e (qd_actions d')"
  using assms
proof (induction rule: rtranclp_induct)
  case (step d1 d2)
  then show ?case
    using queue_step_epoch queue_steps_ok by metis
qed simp

section \<open>Later claims have later epochs\<close>

definition later_than :: "string \<Rightarrow> int \<Rightarrow> claimed_lifecycle_action \<Rightarrow> bool" where
  "later_than i e c \<longleftrightarrow> (act_id (cl_action c) = i \<longrightarrow> e < cl_claim_epoch c)"

lemma claim_one_epoch:
  assumes "queue_ok d" "claim_one w n now until locked a d = Inr (Some c, d')"
    "epoch_at_least i e (qd_actions d)"
  shows "later_than i e c"
proof -
  obtain r where r: "r \<in> set (qd_actions d)" "claim_of r w now until c"
    using claim_one_effect [OF assms(1,2), THEN conjunct2, THEN conjunct2, THEN spec, THEN mp, OF refl]
    by (elim bexE conjE) (rule that)
  then have "act_id r = i \<Longrightarrow> e \<le> act_claim_epoch r"
    using assms(3) by (simp add: epoch_at_least_def)
  then show ?thesis
    using claim_of_id [OF r(2)] by (simp add: later_than_def)
qed

lemma claim_loop_epoch:
  assumes "queue_ok d" "claim_loop w n now until locked claimed cands d = Inr (cs, d')"
    "epoch_at_least i e (qd_actions d)" "list_all (later_than i e) claimed"
  shows "list_all (later_than i e) cs"
  using assms
proof (induction cands arbitrary: d claimed)
  case (Cons a cands)
  let ?next = "\<lambda>x. case x of None \<Rightarrow> claimed | Some c \<Rightarrow> claimed @ [c]"
  obtain x d1 where x: "claim_one w n now until locked a d = Inr (x, d1)"
    "claim_loop w n now until locked (?next x) cands d1 = Inr (cs, d')"
    using Cons.prems(2) by (auto simp: bindT_eq_Inr)
  have up: "row_update (due_claim_condition now d) (qd_actions d) (qd_actions d1)"
    using claim_one_effect [OF Cons.prems(1) x(1)] by simp
  have "list_all (later_than i e) (?next x)"
    using Cons.prems(4) claim_one_epoch [OF Cons.prems(1) _ Cons.prems(3)] x(1)
    by (cases x) simp_all
  then show ?case
    by (rule Cons.IH [OF row_update_queue_ok [OF up Cons.prems(1)] x(2) epoch_at_least_row_update [OF up Cons.prems(3)]])
qed simp

lemma claim_due_epoch:
  assumes "queue_ok d" "claim_due_with_max_attempts max_day w lease_for n limit seen now d = Inr (cs, d')"
    "epoch_at_least i e (qd_actions d)"
  shows "list_all (later_than i e) cs"
proof -
  obtain locked until where "claim_loop w n now until locked [] (due_candidates seen limit d) d = Inr (cs, d')"
    using assms(2) unfolding claim_due_with_max_attempts_def claim_due_in_transaction_def
    by (auto simp: bindT_eq_Inr)
  then show ?thesis
    using claim_loop_epoch [OF assms(1) _ assms(3)] by simp
qed

lemma granted_epoch: "granted n w now until t c \<Longrightarrow> epoch_at_least (act_id (cl_action c)) (cl_claim_epoch c) t"
  by (simp add: granted_def)

lemma epoch_at_least_mono: "epoch_at_least i e t \<Longrightarrow> e' \<le> e \<Longrightarrow> epoch_at_least i e' t"
  by (fastforce simp: epoch_at_least_def)

text \<open>
  A stale claim is refused by every operation. \<open>wait_for_mutation_dependency\<close> tells its caller whether
  there is nothing left to do, which it answers with \<open>True\<close> for a lost claim, having written nothing.
\<close>

definition refused :: "claimed_lifecycle_action \<Rightarrow> datetime \<Rightarrow> queue_db \<Rightarrow> bool" where
  "refused c now d \<longleftrightarrow>
     lock_claim_for_execution c now d = Inr (None, d) \<and>
     mark_succeeded c now d = Inr (False, d) \<and>
     (\<forall>fc. mark_cancelled c now fc d = (if is_allowed_failure_class fc then Inr (False, d)
        else Inl (InvalidArgument ''invalid lifecycle action failure class''))) \<and>
     (\<forall>fc. mark_failed_safe c now fc d = (if is_allowed_failure_class fc then Inr (False, d)
        else Inl (InvalidArgument ''invalid lifecycle action failure class''))) \<and>
     (\<forall>next_at fc b d'. schedule_retry c now next_at fc d = Inr (b, d') \<longrightarrow> \<not> b \<and> d' = d) \<and>
     (\<forall>max_day lease_for t2 t3 t4 b d'. renew_claim max_day c lease_for now t2 t3 t4 d = Inr (b, d') \<longrightarrow> \<not> b \<and> d' = d) \<and>
     (\<forall>max_day n t2. wait_for_mutation_dependency max_day c n now t2 d = Inr (True, d)) \<and>
     (\<forall>max_day t2. wait_for_transition_in_transaction max_day c now t2 d = Inr (False, d)) \<and>
     (\<forall>max_day t2. wait_for_hot_verification_in_transaction max_day c now t2 d = Inr (False, d))"

lemma lock_error: "on_store (lock_bucket_for_ownership b) d = Inl e \<Longrightarrow> e = NoSuchBucket b"
  by (auto simp: on_store_def lock_bucket_for_ownership_def guardT_def bindT_def bindR_eq_Inl split: if_splits)

lemma no_active_refused:
  assumes "\<forall>r \<in> set (qd_actions d). \<not> active_claim_condition c r"
  shows "refused c now d"
proof -
  have u: "update_rows (active_claim_condition c) f (qd_actions d) = qd_actions d"
    "count_rows (active_claim_condition c) (qd_actions d) = 0" for f
    using assms by (simp_all add: update_rows_none count_rows_0)
  have lock: "lock_claim_for_execution c now d = Inr (None, d)"
  proof (cases "on_store (lock_bucket_for_ownership (act_bucket (cl_action c))) d")
    case (Inl e)
    with lock_error [OF Inl] show ?thesis
      by (simp add: lock_claim_for_execution_def)
  next
    case (Inr x)
    have "one_row (active_claim_condition c) (qd_actions d) = None"
      using assms by (simp add: one_row_None)
    with Inr show ?thesis
      by (simp add: lock_claim_for_execution_def)
  qed
  have t: "terminal_failure_update c now s fc d = (if is_allowed_failure_class fc then Inr (False, d)
      else Inl (InvalidArgument ''invalid lifecycle action failure class''))" for s fc
    using u by (simp add: terminal_failure_update_def validate_failure_class_def liftT_def bindT_def)
  have wait: "wait_for_mutation_dependency max_day c n now t2 d = Inr (True, d)"
    "wait_for_transition_in_transaction max_day c now t2 d = Inr (False, d)"
    "wait_for_hot_verification_in_transaction max_day c now t2 d = Inr (False, d)" for max_day n t2
    using lock by (simp_all add: wait_for_mutation_dependency_def wait_for_transition_in_transaction_def
        wait_for_hot_verification_in_transaction_def bindT_def)
  show ?thesis
    unfolding refused_def mark_cancelled_def mark_failed_safe_def t mark_succeeded_def schedule_retry_def
      renew_claim_def renew_claim_in_transaction_def
    using u lock wait by (auto simp: bindT_eq_Inr)
qed

section \<open>Properties\<close>

text \<open>C27: A claim that was taken over is fenced off for ever. Let a worker hold a claim, let any
  sequence of transactions run, let the action be claimed again, and let any sequence of transactions
  run after that: every operation with the first claim is refused. It cannot lock the action for
  execution, complete it, cancel it, fail it, reschedule it, renew its lease or park it behind another
  mutation, a transition or the verification of its hot copy, and it changes nothing.\<close>

theorem reclaimed_claim_is_refused:
  assumes ok: "queue_ok d0"
    and first: "claim_due_with_max_attempts max_day w lease_for n limit seen now d0 = Inr (cs, d1)" "c \<in> set cs"
    and between: "(queue_step issued)\<^sup>*\<^sup>* d1 d2" "act_id (cl_action c) \<in> issued"
    and second: "claim_due_with_max_attempts max_day' w' lease_for' n' limit' seen' now' d2 = Inr (cs', d3)"
      "c' \<in> set cs'" "act_id (cl_action c') = act_id (cl_action c)"
    and after: "(queue_step issued)\<^sup>*\<^sup>* d3 d4"
  shows "refused c t d4"
proof (rule no_active_refused, rule stale_not_active)
  let ?i = "act_id (cl_action c)"
  have ok1: "queue_ok d1"
    by (rule row_update_queue_ok [OF claim_due_effect(1) [OF ok first(1)] ok])
  then have ok2: "queue_ok d2"
    by (rule queue_steps_ok [OF between(1)])
  then have ok3: "queue_ok d3"
    by (rule row_update_queue_ok [OF claim_due_effect(1) [OF ok2 second(1)]])
  have "epoch_at_least ?i (cl_claim_epoch c) (qd_actions d1)"
    using claim_due_effect(2) [OF ok first(1)] first(2) granted_epoch by (metis list_all_iff)
  then have "epoch_at_least ?i (cl_claim_epoch c) (qd_actions d2)"
    by (rule queue_steps_epoch [OF between(1) ok1 between(2)])
  then have "list_all (later_than ?i (cl_claim_epoch c)) cs'"
    by (rule claim_due_epoch [OF ok2 second(1)])
  then have "later_than ?i (cl_claim_epoch c) c'"
    using second(2) by (simp add: list_all_iff)
  then have "cl_claim_epoch c + 1 \<le> cl_claim_epoch c'"
    using second(3) by (simp add: later_than_def)
  moreover have "epoch_at_least ?i (cl_claim_epoch c') (qd_actions d3)"
    using claim_due_effect(2) [OF ok2 second(1)] second(2,3) granted_epoch by (metis list_all_iff)
  ultimately have "epoch_at_least ?i (cl_claim_epoch c + 1) (qd_actions d3)"
    by (metis epoch_at_least_mono)
  then have "epoch_at_least ?i (cl_claim_epoch c + 1) (qd_actions d4)"
    by (rule queue_steps_epoch [OF after ok3 between(2)])
  then show "stale c (qd_actions d4)"
    by (simp add: stale_def)
qed

text \<open>C28: A live lease excludes other workers. While the lease of a claimed action has not expired by
  the time the transaction reads after its locks, claiming due work leaves the row of the action
  exactly as it is and hands out no claim for it, whatever the transaction saw before.\<close>

theorem live_lease_is_exclusive:
  assumes ok: "queue_ok d" and r: "r \<in> set (qd_actions d)" "act_state r = STATE_CLAIMED"
    and lease: "act_lease_until r = Some until" "now < until"
    and claim: "claim_due_with_max_attempts max_day w lease_for n limit seen now d = Inr (cs, d')"
  shows "r \<in> set (qd_actions d') \<and> list_all (\<lambda>c. act_id (cl_action c) \<noteq> act_id r) cs"
proof -
  have not_due: "\<not> due_claim_condition now e r" for e
    using r(2) lease by (simp add: due_claim_condition_def)
  have keep: "r \<in> set t'" if "row_update (due_claim_condition now e) t t'" "r \<in> set t" for t t' e
    using that not_due unfolding row_update_def by (metis update_rows_keep)
  have loop: "list_all (\<lambda>c. act_id (cl_action c) \<noteq> act_id r) cs"
    if "claim_loop w n now u locked claimed cands e = Inr (cs, e')" "queue_ok e" "r \<in> set (qd_actions e)"
      "list_all (\<lambda>c. act_id (cl_action c) \<noteq> act_id r) claimed" for u locked claimed cands e e'
    using that
  proof (induction cands arbitrary: e claimed)
    case (Cons a cands)
    let ?next = "\<lambda>x. case x of None \<Rightarrow> claimed | Some c \<Rightarrow> claimed @ [c]"
    obtain x e1 where x: "claim_one w n now u locked a e = Inr (x, e1)"
      "claim_loop w n now u locked (?next x) cands e1 = Inr (cs, e')"
      using Cons.prems(1) by (auto simp: bindT_eq_Inr)
    note eff = claim_one_effect [OF Cons.prems(2) x(1)]
    have up: "row_update (due_claim_condition now e) (qd_actions e) (qd_actions e1)"
      using eff by simp
    have "act_id (cl_action c) \<noteq> act_id r" if some: "x = Some c" for c
    proof -
      obtain s where s: "s \<in> set (qd_actions e)" "due_claim_condition now e s" "claim_of s w now u c"
        using eff [THEN conjunct2, THEN conjunct2, THEN spec, THEN mp, OF some] by (elim bexE conjE) (rule that)
      then show ?thesis
        using not_due queue_ok_unique [OF Cons.prems(2) s(1) Cons.prems(3)] claim_of_id [OF s(3)] by metis
    qed
    then have "list_all (\<lambda>c. act_id (cl_action c) \<noteq> act_id r) (?next x)"
      using Cons.prems(4) by (cases x) simp_all
    then show ?case
      by (rule Cons.IH [OF x(2) row_update_queue_ok [OF up Cons.prems(2)] keep [OF up Cons.prems(3)]])
  qed simp
  obtain locked u where "claim_loop w n now u locked [] (due_candidates seen limit d) d = Inr (cs, d')"
    using claim unfolding claim_due_with_max_attempts_def claim_due_in_transaction_def
    by (auto simp: bindT_eq_Inr)
  then show ?thesis
    using loop ok r(1) keep [OF claim_due_effect(1) [OF ok claim]] by simp
qed

lemma may_claim_attempts:
  assumes "may_claim n d r" "\<not> is_transition_action r" "action_ok r"
  shows "saturating_add_i64 (act_attempts r) (if waiting_for_dependency r then 0 else 1) \<le> n + 1"
  using assms action_okD(1) [OF assms(3)]
  by (auto simp: may_claim_def Let_def saturating_add_i64_def i64_min_def split: if_splits)

text \<open>What a claim is worth. Claiming returns at most as many claims as asked for; each carries the
  worker's name, a positive epoch and a lease of the requested length, at most a day, counted from
  the authorizing clock reading; and an action that is not a transition is never handed out with more
  attempts than one above the worker's cap, so failing work always comes to an end.\<close>

theorem claim_due_bounds:
  assumes ok: "queue_ok d" and claim: "claim_due_with_max_attempts max_day w lease_for n limit seen now d = Inr (cs, d')"
  shows "length cs \<le> limit \<and>
    list_all (\<lambda>c. cl_worker_id c = w \<and> act_claimed_by (cl_action c) = Some w \<and> 1 \<le> cl_claim_epoch c \<and>
      act_claim_epoch (cl_action c) = cl_claim_epoch c \<and>
      act_lease_until (cl_action c) = Some (now + lease_for) \<and> now + lease_for \<le> now + 86400000000000 \<and>
      (\<not> is_transition_action (cl_action c) \<longrightarrow> act_attempts (cl_action c) \<le> n + 1)) cs"
proof -
  have lease: "lease_for \<le> 86400000000000"
    using claim unfolding claim_due_with_max_attempts_def
    by (auto simp: bindT_eq_Inr validate_claim_request_def validate_lease_duration_def bindR_eq_Inr
        MAX_LIFECYCLE_ACTION_LEASE_SECONDS_def second_ns_def split: if_splits)
  have one: "cl_worker_id c = w \<and> act_claimed_by (cl_action c) = Some w \<and> 1 \<le> cl_claim_epoch c \<and>
      act_claim_epoch (cl_action c) = cl_claim_epoch c \<and> act_lease_until (cl_action c) = Some (now + lease_for) \<and>
      (\<not> is_transition_action (cl_action c) \<longrightarrow> act_attempts (cl_action c) \<le> n + 1)"
    if g: "granted n w now (now + lease_for) (qd_actions d') c" for c
  proof -
    obtain r d0 where r: "claim_of r w now (now + lease_for) c" "action_ok r" "may_claim n d0 r"
      using g unfolding granted_def by (elim exE conjE) (rule that)
    have "is_transition_action (cl_action c) = is_transition_action r"
      using r(1) by (simp add: claim_of_def is_transition_action_def)
    then show ?thesis
      using r(1) action_okD(2) [OF r(2)] may_claim_attempts [OF r(3) _ r(2)] by (simp add: claim_of_def)
  qed
  show ?thesis
    using claim_due_effect(2,3) [OF ok claim] one lease by (simp add: list_all_iff)
qed

text \<open>C29: The queue keeps the checks of its table. From an empty queue, whatever transactions of workers,
  schedulers and other components run, identifiers and idempotency keys stay unique and every row
  stays well-formed: it has a lease and an owner exactly while it is claimed, a finishing time exactly
  when it is finished, and its attempts and epoch never become negative, although waiting for a
  dependency refunds attempts.\<close>

theorem reachable_queue_ok:
  assumes "(queue_step issued)\<^sup>*\<^sup>* d0 d" "qd_actions d0 = []"
  shows "queue_ok d"
  using queue_steps_ok [OF assms(1)] assms(2) by (simp add: queue_ok_def)

section \<open>A sample queue\<close>

definition sample_bucket_db :: db where
  "sample_bucket_db = \<lparr>buckets = [\<lparr>bucket_name = ''b'', bucket_created_at = 0, bucket_owner = None,
       bucket_versioning_status = None\<rparr>], objects = [], object_versions = [], object_tags = [],
     physical_residencies = [], version_residencies = [], residency_references = [], pin_leases = [], pin_lease_targets = []\<rparr>"

definition plain_codec :: identity_codec where
  "plain_codec = \<lparr>ic_version_json = (\<lambda>r. Some (cv_target_version_row_id r)),
     ic_multipart_json = (\<lambda>r. Some (cm_target_upload_id r)), ic_rfc3339 = (\<lambda>t. []), ic_sha256_hex = id\<rparr>"

definition queued_action :: new_lifecycle_action where
  "queued_action = \<lparr>la_idempotency_key = [], la_bucket = ''b'', la_config_revision = 1, la_rule_identity = RuleId ''x'',
     la_action_kind = ExpireCurrent, la_target = VersionTarget \<lparr>vt_bucket = ''b'', vt_key = ''k'',
       vt_version_row_id = ''v1'', vt_public_version_id = NullVersion, vt_kind = ObjectKind, vt_object_id = Some ''o1'',
       vt_sequence = 1\<rparr>, la_due_at = 0\<rparr>"

definition empty_queue :: queue_db where
  "empty_queue = \<lparr>qd_store = sample_bucket_db, qd_destinations = [], qd_mutation_leases = [], qd_actions = [],
     qd_transitions = [], qd_uploads = []\<rparr>"

definition sample_queue :: queue_db where
  "sample_queue = snd (projr (insert_idempotent plain_codec queued_action ''a1'' 1 empty_queue))"

definition sample_claim :: "string \<Rightarrow> datetime \<Rightarrow> queue_db \<Rightarrow> claimed_lifecycle_action list \<times> queue_db" where
  "sample_claim w now d = projr (claim_due_with_max_attempts 100000 w 10 8 5 now now d)"

definition first_claim :: claimed_lifecycle_action where
  "first_claim = hd (fst (sample_claim ''w1'' 2 sample_queue))"

definition claimed_queue :: queue_db where
  "claimed_queue = snd (sample_claim ''w1'' 2 sample_queue)"

definition second_claim :: claimed_lifecycle_action where
  "second_claim = hd (fst (sample_claim ''w2'' 12 claimed_queue))"

definition reclaimed_queue :: queue_db where
  "reclaimed_queue = snd (sample_claim ''w2'' 12 claimed_queue)"

lemma sample_inserts: "insert_idempotent plain_codec queued_action ''a1'' 1 empty_queue = Inr (True, sample_queue)"
  by code_simp

lemma sample_claims:
  "claim_due_with_max_attempts 100000 ''w1'' 10 8 5 2 2 sample_queue = Inr ([first_claim], claimed_queue)"
  "claim_due_with_max_attempts 100000 ''w2'' 10 8 5 12 12 claimed_queue = Inr ([second_claim], reclaimed_queue)"
  "claim_due_with_max_attempts 100000 ''w2'' 10 8 5 11 11 claimed_queue = Inr ([], claimed_queue)"
  "act_id (cl_action first_claim) = ''a1''" "act_id (cl_action second_claim) = ''a1''"
  by code_simp+

lemma sample_queue_ok: "queue_ok sample_queue" "queue_ok claimed_queue"
  by code_simp+

theorem reclaimed_claim_is_refused_witness:
  "queue_ok sample_queue \<and>
   claim_due_with_max_attempts 100000 ''w1'' 10 8 5 2 2 sample_queue = Inr ([first_claim], claimed_queue) \<and>
   claim_due_with_max_attempts 100000 ''w2'' 10 8 5 12 12 claimed_queue = Inr ([second_claim], reclaimed_queue) \<and>
   refused first_claim 13 reclaimed_queue"
  using sample_claims sample_queue_ok
    reclaimed_claim_is_refused [OF sample_queue_ok(1) sample_claims(1) _ rtranclp.rtrancl_refl _ sample_claims(2) _ _
      rtranclp.rtrancl_refl, of first_claim "{''a1''}" second_claim 13]
  by simp

definition claimed_sample_row :: lifecycle_action_model where
  "claimed_sample_row = hd (qd_actions claimed_queue)"

theorem live_lease_is_exclusive_witness:
  "claimed_sample_row \<in> set (qd_actions claimed_queue) \<and> act_state claimed_sample_row = STATE_CLAIMED \<and>
   act_lease_until claimed_sample_row = Some 12 \<and>
   claim_due_with_max_attempts 100000 ''w2'' 10 8 5 11 11 claimed_queue = Inr ([], claimed_queue) \<and>
   list_all (\<lambda>c. act_id (cl_action c) \<noteq> act_id claimed_sample_row) ([] :: claimed_lifecycle_action list)"
proof -
  have r: "claimed_sample_row \<in> set (qd_actions claimed_queue)" "act_state claimed_sample_row = STATE_CLAIMED"
    "act_lease_until claimed_sample_row = Some 12" "(11 :: int) < 12"
    by code_simp+
  note live = live_lease_is_exclusive [OF sample_queue_ok(2) r(1,2,3,4) sample_claims(3)]
  show ?thesis
    by (intro conjI r(2,3) sample_claims(3) conjunct1 [OF live] conjunct2 [OF live])
qed

theorem claim_due_bounds_witness:
  "claim_due_with_max_attempts 100000 ''w1'' 10 8 5 2 2 sample_queue = Inr ([first_claim], claimed_queue) \<and>
   length [first_claim] \<le> 5 \<and> 1 \<le> cl_claim_epoch first_claim \<and> act_lease_until (cl_action first_claim) = Some (2 + 10)"
  using sample_claims(1) claim_due_bounds [OF sample_queue_ok(1) sample_claims(1)] by simp

theorem reachable_queue_ok_witness:
  "(queue_step {})\<^sup>*\<^sup>* empty_queue claimed_queue \<and> qd_actions empty_queue = [] \<and> queue_ok claimed_queue"
proof -
  have steps: "(queue_step {})\<^sup>*\<^sup>* empty_queue claimed_queue"
    using queue_step.insert [OF sample_inserts, of "{}"] queue_step.claim [OF sample_claims(1), of "{}"] by simp
  moreover have empty: "qd_actions empty_queue = []"
    by (simp add: empty_queue_def)
  ultimately show ?thesis
    using reachable_queue_ok [OF steps empty] by blast
qed

end
