(* ===== verification/Import_Jobs.thy ===== *)
theory Import_Jobs
  imports Lifecycle_Queue Object_Tags
begin

text \<open>
  Import jobs (src/src/store/import/jobs.rs) and the tables of the import protocol: jobs with their
  frozen request, the destinations, prefix claims and targets that record which job may write which
  key.

  A worker claims due jobs: \<open>claim_due_in_transaction\<close> increments the epoch of a row, and every
  later statement of the worker is conditional on the row still carrying that epoch and an unexpired
  lease. Arguments named \<open>clock\<close> are readings of the database clock by the statement that compares
  leases with it; other dates are the caller's. The hot columns and the frozen request of a job are
  two tables with the same key, read here as one row. The sizes of a row in bytes, which the
  database measures, are the argument \<open>row_bytes\<close>; CID parsing and JSON are arguments too.
\<close>

section \<open>Tables\<close>

record import_job_model =
  ij_id :: string
  ij_bucket :: string
  ij_key :: string
  ij_source_type :: string
  ij_source_value :: string
  ij_request_fingerprint :: string
  ij_client_token :: "string option"
  ij_object_content_type :: "string option"
  ij_metadata_json :: string
  ij_tags_json :: string
  ij_pin_decision_json :: "string option"
  ij_zip_intent_json :: "string option"
  ij_decompress_prefix :: "string option"
  ij_root_capture_json :: "string option"
  ij_state :: string
  ij_phase :: string
  ij_attempts :: int
  ij_next_attempt_at :: datetime
  ij_locked_by :: "string option"
  ij_locked_until :: "datetime option"
  ij_claim_epoch :: int
  ij_providers_observed :: int
  ij_pin_nodes_processed :: int
  ij_pin_bytes_processed :: int
  ij_downloaded_bytes :: int
  ij_download_total :: "int option"
  ij_ipfs_add_bytes :: int
  ij_logical_size :: "int option"
  ij_entries_processed :: int
  ij_entries_succeeded :: int
  ij_entries_failed :: int
  ij_decompressed_bytes :: int
  ij_final_cid :: "string option"
  ij_failure_code :: "string option"
  ij_failure_message :: "string option"
  ij_created_at :: datetime
  ij_updated_at :: datetime
  ij_completed_at :: "datetime option"

record import_prefix_claim_model =
  pc_job_id :: string
  pc_bucket :: string
  pc_prefix :: string
  pc_claim_order :: int

record import_job_target_model =
  jt_job_id :: string
  jt_bucket :: string
  jt_key :: string
  jt_expected_generation :: int
  jt_kind :: string

text \<open>
  The tables of the queue, which hold the destinations and their leases, with those of imports. Of
  the archive import requests (\<open>zip_v2_import_requests\<close>) only the columns that a trigger compares with
  import jobs are kept: the bucket, the source key and the client token.
\<close>

record import_db =
  im_queue :: queue_db
  im_jobs :: "import_job_model list"
  im_prefix_claims :: "import_prefix_claim_model list"
  im_targets :: "import_job_target_model list"
  im_zip_requests :: "(string \<times> string \<times> string) list"

definition on_import_queue :: "(queue_db, 'a) tx \<Rightarrow> (import_db, 'a) tx" where
  "on_import_queue m = (\<lambda>d. bindR (m (im_queue d)) (\<lambda>(x, q). Inr (x, d\<lparr>im_queue := q\<rparr>)))"

abbreviation im_destinations :: "import_db \<Rightarrow> import_destination_model list" where
  "im_destinations d \<equiv> qd_destinations (im_queue d)"

abbreviation im_mutation_leases :: "import_db \<Rightarrow> standard_mutation_lease_model list" where
  "im_mutation_leases d \<equiv> qd_mutation_leases (im_queue d)"

text \<open>An update statement returns the number of rows it affected.\<close>

definition update_jobs ::
  "(import_job_model \<Rightarrow> bool) \<Rightarrow> (import_job_model \<Rightarrow> import_job_model) \<Rightarrow> (import_db, nat) tx" where
  "update_jobs P f = (\<lambda>d. Inr (count_rows P (im_jobs d), d\<lparr>im_jobs := update_rows P f (im_jobs d)\<rparr>))"

definition update_destinations ::
  "(import_destination_model \<Rightarrow> bool) \<Rightarrow> (import_destination_model \<Rightarrow> import_destination_model) \<Rightarrow> (import_db, nat) tx" where
  "update_destinations P f = (\<lambda>d. Inr (count_rows P (im_destinations d),
     d\<lparr>im_queue := (im_queue d)\<lparr>qd_destinations := update_rows P f (im_destinations d)\<rparr>\<rparr>))"

definition update_mutation_leases ::
  "(standard_mutation_lease_model \<Rightarrow> bool) \<Rightarrow> (standard_mutation_lease_model \<Rightarrow> standard_mutation_lease_model) \<Rightarrow>
   (import_db, nat) tx" where
  "update_mutation_leases P f = (\<lambda>d. Inr (count_rows P (im_mutation_leases d),
     d\<lparr>im_queue := (im_queue d)\<lparr>qd_mutation_leases := update_rows P f (im_mutation_leases d)\<rparr>\<rparr>))"

section \<open>Requests\<close>

datatype import_source = SourceCid string | SourceUrl string

record new_import_job =
  nj_id :: string
  nj_bucket :: string
  nj_key :: string
  nj_source :: import_source
  nj_request_fingerprint :: string
  nj_client_token :: "string option"
  nj_object_content_type :: "string option"
  nj_metadata :: "(string \<times> string) list"
  nj_tags :: "object_tag list"
  nj_decompress_prefix :: "string option"

record import_claim =
  ic_job_id :: string
  ic_worker_id :: string
  ic_attempt :: int
  ic_claim_epoch :: int
  ic_locked_until :: datetime

record import_failure =
  if_code :: string
  if_message :: string
  if_retryable :: bool

record import_progress =
  ip_providers_observed :: nat
  ip_pin_nodes_processed :: nat
  ip_pin_bytes_processed :: nat
  ip_downloaded_bytes :: nat
  ip_download_total :: "nat option"
  ip_ipfs_add_bytes :: nat
  ip_logical_size :: "nat option"
  ip_entries_processed :: nat
  ip_entries_succeeded :: nat
  ip_entries_failed :: nat
  ip_decompressed_bytes :: nat

text \<open>What JSON and CIDs contribute: \<open>jc_cid\<close> parses a CID and prints it canonically.\<close>

record job_codec =
  jc_cid :: "string \<Rightarrow> string option"
  jc_metadata :: "(string \<times> string) list \<Rightarrow> string"
  jc_tags :: "object_tag list \<Rightarrow> string"

text \<open>The JSON of the captured pin decision, ZIP intent and root option of a request.\<close>

record job_capture =
  cap_pin_decision_json :: "string option"
  cap_zip_intent_json :: "string option"
  cap_root_capture_json :: "string option"

section \<open>Constants\<close>

definition STATE_QUEUED :: string where "STATE_QUEUED = ''queued''"
definition STATE_RUNNING :: string where "STATE_RUNNING = ''running''"
definition STATE_COMPLETED :: string where "STATE_COMPLETED = ''completed''"
definition STATE_FAILED :: string where "STATE_FAILED = ''failed''"
definition STATE_SUPERSEDED :: string where "STATE_SUPERSEDED = ''superseded''"
definition PHASE_QUEUED :: string where "PHASE_QUEUED = ''queued''"

lemmas job_state_defs = STATE_QUEUED_def STATE_RUNNING_def STATE_COMPLETED_def STATE_FAILED_def STATE_SUPERSEDED_def

section \<open>Admission of a request\<close>

fun canonical_source :: "job_codec \<Rightarrow> import_source \<Rightarrow> (string \<times> string) app_result" where
  "canonical_source jc (SourceCid v) =
     (case jc_cid jc v of None \<Rightarrow> Inl InvalidImportRequest | Some c \<Rightarrow> Inr (''cid'', c))"
| "canonical_source jc (SourceUrl v) = Inr (''url'', v)"

text \<open>Metadata is a map: its pairs have distinct keys, and the JSON lists them by key.\<close>

definition deterministic_metadata_json :: "job_codec \<Rightarrow> (string \<times> string) list \<Rightarrow> string" where
  "deterministic_metadata_json jc m = jc_metadata jc (sort_key fst m)"

definition deterministic_tags_json :: "job_codec \<Rightarrow> object_tag list \<Rightarrow> string app_result" where
  "deterministic_tags_json jc tags =
     (case validate_tag_set tags of
        Inl _ \<Rightarrow> Inl InvalidImportRequest
      | Inr _ \<Rightarrow> Inr (jc_tags jc (sort_key (\<lambda>t. (t_key t, t_value t)) tags)))"

text \<open>
  The resident budget of the rows about to be read. A job missing from the join or over the budget
  fails the read; which page a row travels in does not change what is read.
\<close>

fun resident_budget :: "(import_job_model \<Rightarrow> int \<times> int) \<Rightarrow> import_job_model list \<Rightarrow> int \<Rightarrow> string list \<Rightarrow> unit app_result" where
  "resident_budget row_bytes jobs resident [] = Inr ()"
| "resident_budget row_bytes jobs resident (i # ids) =
     bindR (ok_or (Database ''claimed import job disappeared'') (one_row (\<lambda>j. ij_id j = i) jobs)) (\<lambda>j.
     let (bytes, hot) = row_bytes j;
         resident' = resident + 2 * bytes + 8 * int (length i) + 16384
     in if bytes < 0 \<or> \<not> (0 \<le> hot \<and> hot \<le> 65536) \<or> resident' > 33554432
        then Inl (Database ''import request exceeds the resident budget'')
        else resident_budget row_bytes jobs resident' ids)"

definition load_payloads ::
  "(import_job_model \<Rightarrow> int \<times> int) \<Rightarrow> string list \<Rightarrow> import_db \<Rightarrow> import_job_model list app_result" where
  "load_payloads row_bytes ids d =
     bindR (if sum_list (map (\<lambda>i. int (length i) + 128) ids) > 1048576
            then Inl (Database ''import identity page exceeds budget'') else Inr ()) (\<lambda>_.
     bindR (resident_budget row_bytes (im_jobs d) 0 ids) (\<lambda>_.
     traverse_list (\<lambda>i. ok_or (Database ''claimed import job disappeared'') (one_row (\<lambda>j. ij_id j = i) (im_jobs d))) ids))"

text \<open>A column over its limit is read as \<^verbatim>\<open>NULL\<close>, which does not decode.\<close>

definition find_idempotent ::
  "(import_job_model \<Rightarrow> int \<times> int) \<Rightarrow> string \<Rightarrow> string \<Rightarrow> string \<Rightarrow> import_db \<Rightarrow> import_job_model option app_result" where
  "find_idempotent row_bytes b k token d =
     (case one_row (\<lambda>j. ij_bucket j = b \<and> ij_key j = k \<and> ij_client_token j = Some token) (im_jobs d) of
        None \<Rightarrow> Inr None
      | Some j \<Rightarrow>
          if int (length (ij_id j)) > 65536 then Inl (Database ''null value in import_jobs.id'')
          else bindR (load_payloads row_bytes [ij_id j] d) (\<lambda>js. Inr (case js of [] \<Rightarrow> None | r # _ \<Rightarrow> Some r)))"

definition queued_job :: "new_import_job \<Rightarrow> string \<times> string \<Rightarrow> string \<Rightarrow> string \<Rightarrow> job_capture \<Rightarrow> datetime \<Rightarrow> import_job_model" where
  "queued_job rq src metadata_json tags_json cap now =
     \<lparr>ij_id = nj_id rq, ij_bucket = nj_bucket rq, ij_key = nj_key rq, ij_source_type = fst src,
      ij_source_value = snd src, ij_request_fingerprint = nj_request_fingerprint rq,
      ij_client_token = nj_client_token rq, ij_object_content_type = nj_object_content_type rq,
      ij_metadata_json = metadata_json, ij_tags_json = tags_json,
      ij_pin_decision_json = cap_pin_decision_json cap, ij_zip_intent_json = cap_zip_intent_json cap,
      ij_decompress_prefix = nj_decompress_prefix rq, ij_root_capture_json = cap_root_capture_json cap,
      ij_state = STATE_QUEUED, ij_phase = PHASE_QUEUED, ij_attempts = 0, ij_next_attempt_at = now,
      ij_locked_by = None, ij_locked_until = None, ij_claim_epoch = 0, ij_providers_observed = 0,
      ij_pin_nodes_processed = 0, ij_pin_bytes_processed = 0, ij_downloaded_bytes = 0, ij_download_total = None,
      ij_ipfs_add_bytes = 0, ij_logical_size = None, ij_entries_processed = 0, ij_entries_succeeded = 0,
      ij_entries_failed = 0, ij_decompressed_bytes = 0, ij_final_cid = None, ij_failure_code = None,
      ij_failure_message = None, ij_created_at = now, ij_updated_at = now, ij_completed_at = None\<rparr>"

definition insert_job_row :: "import_job_model \<Rightarrow> (import_db, unit) tx" where
  "insert_job_row r = (\<lambda>d.
     if ij_id r \<in> set (map ij_id (im_jobs d)) then Inl (Database ''import_jobs_pkey'')
     else if ij_client_token r \<noteq> None \<and> (\<exists>j \<in> set (im_jobs d). ij_bucket j = ij_bucket r \<and> ij_key j = ij_key r \<and>
                ij_client_token j = ij_client_token r)
     then Inl (Database ''uq_import_jobs_bucket_key_client_token'')
     else if (case ij_client_token r of None \<Rightarrow> False
              | Some token \<Rightarrow> (ij_bucket r, ij_key r, token) \<in> set (im_zip_requests d))
     then Inl (Database ''zip_v2_import_token_conflict'')
     else Inr ((), d\<lparr>im_jobs := im_jobs d @ [r]\<rparr>))"

text \<open>
  The checks of the captured pin decision and ZIP intent against the request, and their JSON, are
  the argument \<open>capture\<close>.
\<close>

definition insert_queued_with_zip_intent ::
  "job_codec \<Rightarrow> (import_job_model \<Rightarrow> int \<times> int) \<Rightarrow> new_import_job \<Rightarrow> job_capture app_result \<Rightarrow> datetime \<Rightarrow>
   (import_db, import_job_model) tx" where
  "insert_queued_with_zip_intent jc row_bytes rq capture now =
     bindT (liftT capture) (\<lambda>cap.
     bindT (liftT (canonical_source jc (nj_source rq))) (\<lambda>src.
     bindT (liftT (deterministic_tags_json jc (nj_tags rq))) (\<lambda>tags_json.
     bindT (insert_job_row (queued_job rq src (deterministic_metadata_json jc (nj_metadata rq)) tags_json cap now)) (\<lambda>_.
     bindT (queryT (load_payloads row_bytes [nj_id rq])) (\<lambda>js.
     liftT (ok_or (Internal ''inserted import job disappeared'') (case js of [] \<Rightarrow> None | r # _ \<Rightarrow> Some r)))))))"

section \<open>Claims\<close>

text \<open>Comparisons with a \<^verbatim>\<open>NULL\<close> lease are not true.\<close>

definition due_job_condition :: "datetime \<Rightarrow> import_job_model \<Rightarrow> bool" where
  "due_job_condition now j \<longleftrightarrow>
     (ij_state j = STATE_QUEUED \<and> ij_next_attempt_at j \<le> now \<and> ij_locked_by j = None \<and> ij_locked_until j = None) \<or>
     (ij_state j = STATE_RUNNING \<and> (case ij_locked_until j of None \<Rightarrow> False | Some t \<Rightarrow> t \<le> now))"

definition active_lease :: "datetime \<Rightarrow> import_job_model \<Rightarrow> bool" where
  "active_lease clock j \<longleftrightarrow> (case ij_locked_until j of None \<Rightarrow> False | Some t \<Rightarrow> t > clock)"

definition active_job_condition :: "string \<Rightarrow> string \<Rightarrow> int \<Rightarrow> datetime \<Rightarrow> import_job_model \<Rightarrow> bool" where
  "active_job_condition job_id worker_id claim_epoch clock j \<longleftrightarrow>
     ij_id j = job_id \<and> ij_locked_by j = Some worker_id \<and> ij_claim_epoch j = claim_epoch \<and>
     ij_state j = STATE_RUNNING \<and> active_lease clock j"

definition claimed_job :: "string \<Rightarrow> string \<Rightarrow> datetime \<Rightarrow> datetime \<Rightarrow> import_job_model \<Rightarrow> import_job_model" where
  "claimed_job source_type worker_id now lease_until j =
     (let r = j\<lparr>ij_state := STATE_RUNNING, ij_attempts := ij_attempts j + 1, ij_claim_epoch := ij_claim_epoch j + 1,
                ij_locked_by := Some worker_id, ij_locked_until := Some lease_until, ij_updated_at := now\<rparr>
      in if source_type = ''url''
         then r\<lparr>ij_downloaded_bytes := 0, ij_download_total := None, ij_ipfs_add_bytes := 0\<rparr> else r)"

definition claim_job ::
  "string \<times> string \<Rightarrow> string \<Rightarrow> datetime \<Rightarrow> datetime \<Rightarrow> (import_db, bool) tx" where
  "claim_job candidate worker_id now lease_until =
     bindT (update_jobs
              (\<lambda>j. ij_id j = fst candidate \<and> due_job_condition now j \<and> ij_attempts j < i32_max \<and> ij_claim_epoch j < i64_max)
              (claimed_job (snd candidate) worker_id now lease_until)) (\<lambda>n.
     returnT (n = 1))"

text \<open>The candidates in due order with their rank, then by ascending identifier.\<close>

definition candidates_in_lock_order :: "(string \<times> string) list \<Rightarrow> (nat \<times> string \<times> string) list" where
  "candidates_in_lock_order cs = sort_key (\<lambda>(rank, i, s). i) (enumerate 0 cs)"

fun claim_jobs ::
  "string \<Rightarrow> datetime \<Rightarrow> datetime \<Rightarrow> (nat \<times> string \<times> string) list \<Rightarrow> (nat \<times> string) list \<Rightarrow> (import_db, (nat \<times> string) list) tx" where
  "claim_jobs worker_id now lease_until [] claimed = returnT claimed"
| "claim_jobs worker_id now lease_until ((rank, c) # cs) claimed =
     bindT (claim_job c worker_id now lease_until) (\<lambda>ok.
     claim_jobs worker_id now lease_until cs (if ok then claimed @ [(rank, fst c)] else claimed))"

definition import_candidates :: "datetime \<Rightarrow> nat \<Rightarrow> import_db \<Rightarrow> (string \<times> string) list app_result" where
  "import_candidates now limit d =
     traverse_list (\<lambda>j. if int (length (ij_id j)) \<le> 1024 \<and> ij_source_type j \<in> {''cid'', ''url''}
                        then Inr (ij_id j, ij_source_type j) else Inl (Database ''null value in import_jobs''))
       (take (min limit 256)
         (sort_key (\<lambda>j. (ij_next_attempt_at j, ij_created_at j, ij_id j)) (filter (due_job_condition now) (im_jobs d))))"

definition claim_due_jobs_in_transaction ::
  "(import_job_model \<Rightarrow> int \<times> int) \<Rightarrow> string \<Rightarrow> datetime \<Rightarrow> datetime \<Rightarrow> nat \<Rightarrow>
   (import_db, (import_job_model \<times> import_claim) list) tx" where
  "claim_due_jobs_in_transaction row_bytes worker_id now lease_until limit =
     bindT (queryT (import_candidates now limit)) (\<lambda>candidates.
     bindT (claim_jobs worker_id now lease_until (candidates_in_lock_order candidates) []) (\<lambda>claimed.
     bindT (queryT (load_payloads row_bytes (map snd (sort_key fst claimed)))) (\<lambda>jobs.
     liftT (traverse_list (\<lambda>j.
       if 0 \<le> ij_attempts j
       then Inr (j, \<lparr>ic_job_id = ij_id j, ic_worker_id = worker_id, ic_attempt = ij_attempts j,
                     ic_claim_epoch = ij_claim_epoch j, ic_locked_until = lease_until\<rparr>)
       else Inl (Database ''persisted import attempt is outside range'')) jobs))))"

definition claim_due_jobs ::
  "(import_job_model \<Rightarrow> int \<times> int) \<Rightarrow> string \<Rightarrow> datetime \<Rightarrow> datetime \<Rightarrow> nat \<Rightarrow>
   (import_db, (import_job_model \<times> import_claim) list) tx" where
  "claim_due_jobs row_bytes worker_id now lease_until limit =
     (if limit = 0 then returnT []
      else if lease_until \<le> now then throwT (Internal ''import claim lease must expire in the future'')
      else claim_due_jobs_in_transaction row_bytes worker_id now lease_until limit)"

section \<open>Using a claim\<close>

definition renew_job_claim ::
  "string \<Rightarrow> string \<Rightarrow> int \<Rightarrow> datetime \<Rightarrow> datetime \<Rightarrow> datetime \<Rightarrow> (import_db, bool) tx" where
  "renew_job_claim job_id worker_id claim_epoch now lease_until clock =
     (if lease_until \<le> now then returnT False
      else
        bindT (update_jobs (\<lambda>j. active_job_condition job_id worker_id claim_epoch clock j \<and> lease_until > clock)
                 (\<lambda>j. j\<lparr>ij_locked_until := Some lease_until, ij_updated_at := now\<rparr>)) (\<lambda>n.
        returnT (n = 1)))"

definition require_active_claim :: "nat \<Rightarrow> unit app_result" where
  "require_active_claim n = (if n = 1 then Inr () else Inl StaleImportOwnership)"

definition update_phase ::
  "string \<Rightarrow> string \<Rightarrow> int \<Rightarrow> string \<Rightarrow> string \<Rightarrow> datetime \<Rightarrow> datetime \<Rightarrow> (import_db, unit) tx" where
  "update_phase job_id worker_id claim_epoch st phase now clock =
     bindT (guardT (Internal ''import phase updates require a running state'') (st = STATE_RUNNING)) (\<lambda>_.
     bindT (update_jobs (active_job_condition job_id worker_id claim_epoch clock)
              (\<lambda>j. j\<lparr>ij_state := st, ij_phase := phase, ij_updated_at := now\<rparr>)) (\<lambda>n.
     liftT (require_active_claim n)))"

definition monotonic_counter :: "int \<Rightarrow> int \<Rightarrow> int" where
  "monotonic_counter column candidate = (if column > candidate then column else candidate)"

definition monotonic_optional :: "int option \<Rightarrow> int option \<Rightarrow> int option" where
  "monotonic_optional column candidate =
     (case candidate of
        None \<Rightarrow> column
      | Some c \<Rightarrow> (case column of None \<Rightarrow> Some c | Some v \<Rightarrow> if v < c then Some c else Some v))"

definition u64_to_i64 :: "nat \<Rightarrow> string \<Rightarrow> int app_result" where
  "u64_to_i64 v field =
     (if int v \<le> i64_max then Inr (int v) else Inl (Internal (''import '' @ field @ '' exceeds database range'')))"

definition u32_to_i32 :: "int \<Rightarrow> string \<Rightarrow> int app_result" where
  "u32_to_i32 v field =
     (if v \<le> i32_max then Inr v else Inl (Internal (''import '' @ field @ '' exceeds database range'')))"

definition update_progress ::
  "string \<Rightarrow> string \<Rightarrow> int \<Rightarrow> int \<Rightarrow> import_progress \<Rightarrow> datetime \<Rightarrow> datetime \<Rightarrow> (import_db, unit) tx" where
  "update_progress job_id worker_id claim_epoch attempt p now clock =
     bindT (liftT (u32_to_i32 attempt ''attempt'')) (\<lambda>att.
     bindT (liftT (u64_to_i64 (ip_pin_nodes_processed p) ''pin node progress'')) (\<lambda>nodes.
     bindT (liftT (u64_to_i64 (ip_pin_bytes_processed p) ''pin byte progress'')) (\<lambda>bytes.
     bindT (liftT (u64_to_i64 (ip_downloaded_bytes p) ''download progress'')) (\<lambda>downloaded.
     bindT (liftT (u64_to_i64 (ip_ipfs_add_bytes p) ''IPFS add progress'')) (\<lambda>added.
     bindT (liftT (u64_to_i64 (ip_entries_processed p) ''entry progress'')) (\<lambda>entries.
     bindT (liftT (u64_to_i64 (ip_entries_succeeded p) ''successful entry progress'')) (\<lambda>succeeded.
     bindT (liftT (u64_to_i64 (ip_entries_failed p) ''failed entry progress'')) (\<lambda>failed.
     bindT (liftT (u64_to_i64 (ip_decompressed_bytes p) ''decompression progress'')) (\<lambda>decompressed.
     bindT (liftT (traverse_option (\<lambda>v. u64_to_i64 v ''download total'') (ip_download_total p))) (\<lambda>total.
     bindT (liftT (traverse_option (\<lambda>v. u64_to_i64 v ''logical size'') (ip_logical_size p))) (\<lambda>logical.
     bindT (update_jobs (\<lambda>j. active_job_condition job_id worker_id claim_epoch clock j \<and> ij_attempts j = att)
       (\<lambda>j. j\<lparr>ij_providers_observed := monotonic_counter (ij_providers_observed j) (int (ip_providers_observed p)),
              ij_pin_nodes_processed := monotonic_counter (ij_pin_nodes_processed j) nodes,
              ij_pin_bytes_processed := monotonic_counter (ij_pin_bytes_processed j) bytes,
              ij_downloaded_bytes := monotonic_counter (ij_downloaded_bytes j) downloaded,
              ij_download_total := monotonic_optional (ij_download_total j) total,
              ij_ipfs_add_bytes := monotonic_counter (ij_ipfs_add_bytes j) added,
              ij_logical_size := monotonic_optional (ij_logical_size j) logical,
              ij_entries_processed := monotonic_counter (ij_entries_processed j) entries,
              ij_entries_succeeded := monotonic_counter (ij_entries_succeeded j) succeeded,
              ij_entries_failed := monotonic_counter (ij_entries_failed j) failed,
              ij_decompressed_bytes := monotonic_counter (ij_decompressed_bytes j) decompressed,
              ij_updated_at := now\<rparr>)) (\<lambda>n.
     liftT (require_active_claim n)))))))))))))"

definition retry_job ::
  "string \<Rightarrow> string \<Rightarrow> int \<Rightarrow> int \<Rightarrow> datetime \<Rightarrow> import_failure \<Rightarrow> datetime \<Rightarrow> datetime \<Rightarrow> (import_db, unit) tx" where
  "retry_job job_id worker_id claim_epoch attempt next_attempt_at failure now clock =
     bindT (liftT (u32_to_i32 attempt ''attempt'')) (\<lambda>att.
     bindT (update_jobs (\<lambda>j. active_job_condition job_id worker_id claim_epoch clock j \<and> ij_attempts j = att)
       (\<lambda>j. j\<lparr>ij_state := STATE_QUEUED, ij_phase := PHASE_QUEUED, ij_next_attempt_at := next_attempt_at,
              ij_locked_by := None, ij_locked_until := None, ij_downloaded_bytes := 0, ij_download_total := None,
              ij_ipfs_add_bytes := 0, ij_failure_code := Some (if_code failure),
              ij_failure_message := Some (if_message failure), ij_updated_at := now\<rparr>)) (\<lambda>n.
     liftT (require_active_claim n)))"

text \<open>
  Deleting jobs cascades to their prefix claims and targets, and clears them as owners of
  destinations.
\<close>

definition delete_jobs :: "(import_job_model \<Rightarrow> bool) \<Rightarrow> import_db \<Rightarrow> import_db" where
  "delete_jobs P d =
     (let gone = ij_id ` set (filter P (im_jobs d)) in
      d\<lparr>im_jobs := delete_rows P (im_jobs d),
        im_prefix_claims := delete_rows (\<lambda>c. pc_job_id c \<in> gone) (im_prefix_claims d),
        im_targets := delete_rows (\<lambda>t. jt_job_id t \<in> gone) (im_targets d),
        im_queue := (im_queue d)\<lparr>qd_destinations := update_rows
          (\<lambda>r. case dst_owner_job_id r of None \<Rightarrow> False | Some i \<Rightarrow> i \<in> gone) (\<lambda>r. r\<lparr>dst_owner_job_id := None\<rparr>)
          (im_destinations d)\<rparr>\<rparr>)"

definition delete_terminal_before :: "datetime \<Rightarrow> (import_db, nat) tx" where
  "delete_terminal_before cutoff = (\<lambda>d.
     let P = (\<lambda>j. ij_state j \<in> {STATE_COMPLETED, STATE_FAILED, STATE_SUPERSEDED} \<and>
                  (case ij_completed_at j of None \<Rightarrow> False | Some t \<Rightarrow> t < cutoff))
     in Inr (count_rows P (im_jobs d), delete_jobs P d))"

end
