(* ===== verification/Import_Ownership.thy ===== *)
theory Import_Ownership
  imports Import_Jobs
begin

text \<open>
  The ownership protocol of content writes (src/src/store/import/ownership.rs with its modules
  job\_queries.rs and mutation\_lease.rs). A key of a bucket is written by at most one party: an
  import job, which owns the key's destination row or claims a prefix of it, or a standard mutation
  (PUT, copy, delete, ZIP extraction, lifecycle expiration), whose token the destination row carries
  under a lease. Admitting a writer supersedes the jobs and revokes the tokens that overlap it;
  every owner proves its authority by the generation of the row.

  Each definition is the body of one transaction, or a part of one. The bucket lock comes first in
  each, so bodies run one after another. \<open>ownership_retries\<close> is the loop around them that starts over
  after a conflict the database reports. Reasons of supersession are not stored and not modelled.
\<close>

section \<open>Guards\<close>

definition KIND_ARCHIVE :: string where "KIND_ARCHIVE = ''archive''"
definition KIND_EXTRACTED :: string where "KIND_EXTRACTED = ''extracted''"
definition MAX_OWNERSHIP_TRANSACTION_RETRIES :: nat where "MAX_OWNERSHIP_TRANSACTION_RETRIES = 3"
definition OWNERSHIP_BATCH_SIZE :: nat where "OWNERSHIP_BATCH_SIZE = 128"

record expected_import_target =
  et_bucket :: string
  et_key :: string
  et_generation :: int

record import_publication_guard =
  pg_job_id :: string
  pg_worker_id :: string
  pg_claim_epoch :: int
  pg_targets :: "expected_import_target list"

record standard_mutation_guard =
  sg_bucket :: string
  sg_key :: string
  sg_mutation_id :: string
  sg_expected_generation :: int
  sg_mutation_prefix :: "string option"

definition lock_ownership :: "string \<Rightarrow> (import_db, unit) tx" where
  "lock_ownership b = on_import_queue (on_store (lock_bucket_for_ownership b))"

definition destination_for_update :: "string \<Rightarrow> string \<Rightarrow> import_db \<Rightarrow> import_destination_model option" where
  "destination_for_update b k d = find_destination_for_update b k (im_queue d)"

definition destination_at :: "string \<Rightarrow> string \<Rightarrow> import_destination_model \<Rightarrow> bool" where
  "destination_at b k r \<longleftrightarrow> dst_bucket r = b \<and> dst_key r = k"

text \<open>Rows past a cursor, and a page of them: keyset pagination.\<close>

fun past :: "'k::linorder option \<Rightarrow> 'k \<Rightarrow> bool" where
  "past None x = True"
| "past (Some a) x = (a < x)"

definition page_of :: "('r \<Rightarrow> 'k::linorder) \<Rightarrow> ('r \<Rightarrow> bool) \<Rightarrow> 'k option \<Rightarrow> 'r list \<Rightarrow> 'r list" where
  "page_of k P after t = take OWNERSHIP_BATCH_SIZE (sort_key k (filter (\<lambda>r. P r \<and> past after (k r)) t))"

definition ahead :: "'k::linorder option \<Rightarrow> 'k list \<Rightarrow> nat" where
  "ahead after ks = length (filter (past after) ks)"

lemma ahead_less: "x \<in> set ks \<Longrightarrow> past after x \<Longrightarrow> ahead (Some x) ks < ahead after ks"
proof (induction ks)
  case (Cons y ks)
  have le: "ahead (Some x) ks \<le> ahead after ks" if "past after x"
  proof -
    have "past (Some x) z \<Longrightarrow> past after z" for z
      using that by (cases after) auto
    then show ?thesis
      unfolding ahead_def by (induction ks) auto
  qed
  show ?case
  proof (cases "x = y")
    case True
    with Cons.prems le show ?thesis by (simp add: ahead_def)
  next
    case False
    with Cons have "ahead (Some x) ks < ahead after ks" by simp
    moreover have "past (Some x) y \<Longrightarrow> past after y"
      using Cons.prems(2) by (cases after) auto
    ultimately show ?thesis by (auto simp: ahead_def)
  qed
qed simp

lemma page_of_last:
  assumes "page_of k P after t \<noteq> []"
  shows "last (page_of k P after t) \<in> set t" "P (last (page_of k P after t))" "past after (k (last (page_of k P after t)))"
proof -
  have "last (page_of k P after t) \<in> set (page_of k P after t)"
    using assms by simp
  then have "last (page_of k P after t) \<in> set (filter (\<lambda>r. P r \<and> past after (k r)) t)"
    unfolding page_of_def by (metis in_set_takeD set_sort)
  then show "last (page_of k P after t) \<in> set t" "P (last (page_of k P after t))" "past after (k (last (page_of k P after t)))"
    by simp_all
qed

lemma page_ahead:
  "page_of k P after t \<noteq> [] \<Longrightarrow> ahead (Some (k (last (page_of k P after t)))) (map k t) < ahead after (map k t)"
  by (rule ahead_less) (use page_of_last [of k P after t] in auto)

section \<open>Transactions that start over\<close>

definition str_contains :: "string \<Rightarrow> string \<Rightarrow> bool" where
  "str_contains s t \<longleftrightarrow> find_str s t \<noteq> None"

definition ownership_conflict_texts :: "string list" where
  "ownership_conflict_texts =
     [''database is locked'', ''database is busy'', ''duplicate key value violates unique constraint'',
      ''unique violation'', ''sqlstate 23505'', ''code: 23505'', ''code: 1555'', ''code: 2067'', ''deadlock detected'',
      ''could not serialize access'', ''serialization failure'', ''sqlstate 40p01'', ''code: 40p01'', ''sqlstate 40001'',
      ''code: 40001'']"

definition is_retryable_transaction_conflict :: "app_error \<Rightarrow> bool" where
  "is_retryable_transaction_conflict e =
     (case e of Database m \<Rightarrow> list_ex (str_contains (to_ascii_lowercase m)) ownership_conflict_texts | _ \<Rightarrow> False)"

text \<open>
  \<open>others n\<close> is what other transactions commit before attempt \<open>n\<close>, and \<open>fault n\<close> the error with
  which the database ends that attempt, if any.
\<close>

function ownership_retries ::
  "(nat \<Rightarrow> 's \<Rightarrow> 's) \<Rightarrow> (nat \<Rightarrow> app_error option) \<Rightarrow> ('s, 'a) tx \<Rightarrow> nat \<Rightarrow> ('s, 'a) tx" where
  "ownership_retries others fault body retry s =
     (let s' = others retry s in
      case (case fault retry of Some e \<Rightarrow> Inl e | None \<Rightarrow> body s') of
        Inr y \<Rightarrow> Inr y
      | Inl e \<Rightarrow>
          if is_retryable_transaction_conflict e \<and> retry < MAX_OWNERSHIP_TRANSACTION_RETRIES
          then ownership_retries others fault body (Suc retry) s' else Inl e)"
  by pat_completeness auto
termination
  by (relation "measure (\<lambda>(others, fault, body, retry, s). MAX_OWNERSHIP_TRANSACTION_RETRIES - retry)") auto

declare ownership_retries.simps [simp del]

section \<open>Jobs\<close>

record job_state =
  js_bucket :: string
  js_key :: string
  js_state :: string

text \<open>A column over its limit is read as \<^verbatim>\<open>NULL\<close>, which does not decode.\<close>

definition MAX_CELL_BYTES :: int where "MAX_CELL_BYTES = 65536"

definition fits_cell :: "string \<Rightarrow> bool" where
  "fits_cell s \<longleftrightarrow> int (length s) \<le> MAX_CELL_BYTES"

definition find_job_for_update :: "string \<Rightarrow> import_db \<Rightarrow> job_state option app_result" where
  "find_job_for_update i d =
     (case one_row (\<lambda>j. ij_id j = i) (im_jobs d) of
        None \<Rightarrow> Inr None
      | Some j \<Rightarrow>
          if fits_cell (ij_bucket j) \<and> fits_cell (ij_key j) \<and> fits_cell (ij_state j)
          then Inr (Some \<lparr>js_bucket = ij_bucket j, js_key = ij_key j, js_state = ij_state j\<rparr>)
          else Inl (Database ''null value in import_jobs''))"

definition unfinished :: "string \<Rightarrow> bool" where
  "unfinished st \<longleftrightarrow> st \<in> {STATE_QUEUED, STATE_RUNNING}"

definition job_active :: "import_db \<Rightarrow> string \<Rightarrow> bool" where
  "job_active d i \<longleftrightarrow> (\<exists>j \<in> set (im_jobs d). ij_id j = i \<and> unfinished (ij_state j))"

definition active_guard_filter :: "string \<Rightarrow> string \<Rightarrow> int \<Rightarrow> datetime \<Rightarrow> import_job_model \<Rightarrow> bool" where
  "active_guard_filter job_id worker_id claim_epoch clock j \<longleftrightarrow>
     ij_id j = job_id \<and> ij_state j = STATE_RUNNING \<and> ij_locked_by j = Some worker_id \<and>
     ij_claim_epoch j = claim_epoch \<and> active_lease clock j"

definition active_claim_filter :: "import_claim \<Rightarrow> datetime \<Rightarrow> import_job_model \<Rightarrow> bool" where
  "active_claim_filter c clock = active_guard_filter (ic_job_id c) (ic_worker_id c) (ic_claim_epoch c) clock"

definition job_present :: "(import_job_model \<Rightarrow> bool) \<Rightarrow> string \<Rightarrow> (import_db, unit) tx" where
  "job_present P b =
     bindT (getsT (\<lambda>d. one_row (\<lambda>j. P j \<and> ij_bucket j = b) (im_jobs d))) (\<lambda>found.
     guardT StaleImportOwnership (found \<noteq> None))"

definition verify_active_claim :: "import_claim \<Rightarrow> string \<Rightarrow> datetime \<Rightarrow> (import_db, unit) tx" where
  "verify_active_claim c b clock = job_present (active_claim_filter c clock) b"

text \<open>The frozen prefix of a job, read within the budgets of \<open>read_cells\<close> for one identifier and one
  column. The limit on the length of the cell itself is implied by the one on all that is resident.\<close>

definition job_prefix :: "string \<Rightarrow> import_db \<Rightarrow> string option app_result" where
  "job_prefix i d =
     (if length i > 65536 then Inl (Database ''import request identity page exceeds budget'')
      else case one_row (\<lambda>j. ij_id j = i) (im_jobs d) of
        None \<Rightarrow> Inl (Database ''import request disappeared'')
      | Some j \<Rightarrow>
          if 8 * length i + 16384 + 2 * (case ij_decompress_prefix j of None \<Rightarrow> 0 | Some p \<Rightarrow> length p) > 33554432
          then Inl (Database ''import request resident budget'')
          else Inr (ij_decompress_prefix j))"

definition prefix_claim_row :: "string \<Rightarrow> string \<Rightarrow> string \<Rightarrow> import_db \<Rightarrow> import_prefix_claim_model option" where
  "prefix_claim_row i b p d = one_row (\<lambda>c. pc_job_id c = i \<and> pc_bucket c = b \<and> pc_prefix c = p) (im_prefix_claims d)"

definition verify_extraction_claim :: "import_claim \<Rightarrow> string \<Rightarrow> string \<Rightarrow> datetime \<Rightarrow> (import_db, unit) tx" where
  "verify_extraction_claim c b k clock =
     bindT (verify_active_claim c b clock) (\<lambda>_.
     bindT (queryT (job_prefix (ic_job_id c))) (\<lambda>found.
     case found of
       None \<Rightarrow> returnT ()
     | Some p \<Rightarrow>
         bindT (guardT StaleImportOwnership (starts_with k p)) (\<lambda>_.
         bindT (getsT (prefix_claim_row (ic_job_id c) b p)) (\<lambda>claim.
         guardT StaleImportOwnership (claim \<noteq> None)))))"

definition verify_decompression_attempt :: "import_claim \<Rightarrow> string \<Rightarrow> datetime \<Rightarrow> (import_db, unit) tx" where
  "verify_decompression_attempt c b clock =
     bindT (verify_active_claim c b clock) (\<lambda>_.
     bindT (queryT (job_prefix (ic_job_id c))) (\<lambda>found.
     bindT (liftT (ok_or StaleImportOwnership found)) (\<lambda>p.
     bindT (getsT (prefix_claim_row (ic_job_id c) b p)) (\<lambda>claim.
     guardT StaleImportOwnership (claim \<noteq> None)))))"

section \<open>Releasing what a job owns\<close>

fun for_each :: "('a \<Rightarrow> ('s, unit) tx) \<Rightarrow> 'a list \<Rightarrow> ('s, unit) tx" where
  "for_each f [] = returnT ()"
| "for_each f (x # xs) = bindT (f x) (\<lambda>_. for_each f xs)"

definition next_generation :: "import_destination_model \<Rightarrow> int app_result" where
  "next_generation r = ok_or (Internal ''import destination generation exhausted'') (checked_add_i64 (dst_generation r) 1)"

abbreviation dst_pk :: "import_destination_model \<Rightarrow> string \<times> string" where
  "dst_pk r \<equiv> (dst_bucket r, dst_key r)"

text \<open>
  \<open>invalidation\<close> is a bucket and a prefix: the destinations below it take a new generation.
\<close>

definition invalidated_by :: "(string \<times> string) option \<Rightarrow> import_destination_model \<Rightarrow> bool" where
  "invalidated_by invalidation r \<longleftrightarrow>
     (case invalidation of None \<Rightarrow> False | Some (b, p) \<Rightarrow> dst_bucket r = b \<and> starts_with (dst_key r) p)"

definition release_destination ::
  "string \<Rightarrow> (string \<times> string) option \<Rightarrow> datetime \<Rightarrow> import_destination_model \<Rightarrow> (import_db, unit) tx" where
  "release_destination i invalidation now r =
     bindT (if invalidated_by invalidation r then liftT (bindR (next_generation r) (\<lambda>g. Inr (Some g))) else returnT None) (\<lambda>g.
     bindT (update_destinations (\<lambda>s. destination_at (dst_bucket r) (dst_key r) s \<and> dst_owner_job_id s = Some i)
              (\<lambda>s. s\<lparr>dst_owner_job_id := None, dst_updated_at := now,
                     dst_generation := (case g of None \<Rightarrow> dst_generation s | Some n \<Rightarrow> n)\<rparr>)) (\<lambda>_.
     returnT ()))"

lemma update_destinations_pk:
  "(\<And>r. dst_pk (f r) = dst_pk r) \<Longrightarrow> update_destinations P f d = Inr (n, d') \<Longrightarrow>
   map dst_pk (im_destinations d') = map dst_pk (im_destinations d)"
  by (auto simp: update_destinations_def update_rows_def)

lemma bindT_InrE:
  assumes "bindT m f s = Inr (y, s'')"
  obtains x s' where "m s = Inr (x, s')" "f x s' = Inr (y, s'')"
  using assms by (auto simp: bindT_eq_Inr)

lemma for_each_ConsE:
  assumes "for_each f (x # xs) s = Inr (u, s'')"
  obtains u1 s' where "f x s = Inr (u1, s')" "for_each f xs s' = Inr (u, s'')"
  using assms by (auto simp: bindT_eq_Inr)

lemma for_each_invariant:
  assumes "for_each f xs d = Inr (u, d')" "\<And>x d u d'. f x d = Inr (u, d') \<Longrightarrow> g d' = g d"
  shows "g d' = g d"
  using assms(1) by (induction xs arbitrary: d) (auto simp: bindT_eq_Inr dest: assms(2))

lemma release_destination_pk:
  "release_destination i iv now r d = Inr (u, d') \<Longrightarrow> map dst_pk (im_destinations d') = map dst_pk (im_destinations d)"
  unfolding release_destination_def by (auto simp: bindT_eq_Inr update_destinations_def update_rows_def split: if_splits)

lemma release_destination_jobs:
  "release_destination i iv now r d = Inr (u, d') \<Longrightarrow> im_jobs d' = im_jobs d"
  unfolding release_destination_def by (auto simp: bindT_eq_Inr update_destinations_def split: if_splits)

function release_destinations ::
  "string \<Rightarrow> (string \<times> string) option \<Rightarrow> datetime \<Rightarrow> (string \<times> string) option \<Rightarrow> (import_db, unit) tx" where
  "release_destinations i invalidation now after d =
     (let page = page_of dst_pk (\<lambda>r. dst_owner_job_id r = Some i) after (im_destinations d) in
      if page = [] then Inr ((), d)
      else case for_each (release_destination i invalidation now) page d of
        Inl e \<Rightarrow> Inl e
      | Inr (_, d') \<Rightarrow> release_destinations i invalidation now (Some (dst_pk (last page))) d')"
  by pat_completeness simp_all
termination
proof (relation "measure (\<lambda>(i, invalidation, now, after, d). ahead after (map dst_pk (im_destinations d)))", goal_cases)
  case (2 i invalidation now after d page y u d')
  have "for_each (release_destination i invalidation now) page d = Inr (u, d')"
    using 2(3,4) by simp
  then have "map dst_pk (im_destinations d') = map dst_pk (im_destinations d)"
    by (rule for_each_invariant [where g = "\<lambda>d. map dst_pk (im_destinations d)"]) (rule release_destination_pk)
  then show ?case
    using page_ahead [of dst_pk "\<lambda>r. dst_owner_job_id r = Some i" after "im_destinations d"] 2(1,2) by simp
qed simp

declare release_destinations.simps [simp del]

definition release_job_ownership_with_invalidation ::
  "string \<Rightarrow> (string \<times> string) option \<Rightarrow> datetime \<Rightarrow> (import_db, unit) tx" where
  "release_job_ownership_with_invalidation i invalidation now =
     bindT (release_destinations i invalidation now None) (\<lambda>_.
     bindT (modifyT (\<lambda>d. d\<lparr>im_prefix_claims := delete_rows (\<lambda>c. pc_job_id c = i) (im_prefix_claims d)\<rparr>)) (\<lambda>_.
     modifyT (\<lambda>d. d\<lparr>im_targets := delete_rows (\<lambda>t. jt_job_id t = i) (im_targets d)\<rparr>)))"

definition release_job_ownership :: "string \<Rightarrow> datetime \<Rightarrow> (import_db, unit) tx" where
  "release_job_ownership i now = release_job_ownership_with_invalidation i None now"

definition superseded_job :: "datetime \<Rightarrow> import_job_model \<Rightarrow> import_job_model" where
  "superseded_job now j =
     j\<lparr>ij_state := STATE_SUPERSEDED, ij_locked_by := None, ij_locked_until := None, ij_updated_at := now,
       ij_completed_at := Some now\<rparr>"

definition supersede_job_with_destination_invalidation ::
  "string \<Rightarrow> (string \<times> string) option \<Rightarrow> datetime \<Rightarrow> (import_db, unit) tx" where
  "supersede_job_with_destination_invalidation i invalidation now =
     bindT (queryT (find_job_for_update i)) (\<lambda>found.
     bindT (liftT (ok_or NoSuchImportJob found)) (\<lambda>job.
     if \<not> unfinished (js_state job) then returnT ()
     else
       bindT (update_jobs (\<lambda>j. ij_id j = i \<and> unfinished (ij_state j)) (superseded_job now)) (\<lambda>n.
       bindT (guardT StaleImportOwnership (n = 1)) (\<lambda>_.
       release_job_ownership_with_invalidation i invalidation now))))"

definition supersede_job_in_transaction :: "string \<Rightarrow> datetime \<Rightarrow> (import_db, unit) tx" where
  "supersede_job_in_transaction i now = supersede_job_with_destination_invalidation i None now"

lemma release_destinations_jobs:
  "release_destinations i iv now after d = Inr (u, d') \<Longrightarrow> im_jobs d' = im_jobs d"
proof (induction i iv now after d rule: release_destinations.induct)
  case (1 i invalidation now after d)
  let ?page = "page_of dst_pk (\<lambda>r. dst_owner_job_id r = Some i) after (im_destinations d)"
  show ?case
  proof (cases "?page = []")
    case True
    with "1.prems" show ?thesis by (simp add: release_destinations.simps [of i invalidation now after d])
  next
    case False
    with "1.prems" obtain u1 d1 where f: "for_each (release_destination i invalidation now) ?page d = Inr (u1, d1)"
      and r: "release_destinations i invalidation now (Some (dst_pk (last ?page))) d1 = Inr (u, d')"
      by (auto simp: release_destinations.simps [of i invalidation now after d] Let_def split: sum.splits)
    have "im_jobs d1 = im_jobs d"
      by (rule for_each_invariant [OF f]) (rule release_destination_jobs)
    with "1.IH" [OF refl False f refl r] show ?thesis by simp
  qed
qed

lemma superseded_job_id [simp]: "ij_id (superseded_job now j) = ij_id j"
  by (simp add: superseded_job_def)

lemma release_job_ownership_eq:
  "release_job_ownership_with_invalidation i iv now d =
     bindR (release_destinations i iv now None d) (\<lambda>(u, d1).
       Inr ((), d1\<lparr>im_prefix_claims := delete_rows (\<lambda>c. pc_job_id c = i) (im_prefix_claims d1),
                   im_targets := delete_rows (\<lambda>t. jt_job_id t = i) (im_targets d1)\<rparr>))"
  by (cases "release_destinations i iv now None d") (auto simp: release_job_ownership_with_invalidation_def)

lemma supersede_job_eq:
  "supersede_job_with_destination_invalidation i iv now d =
     bindR (find_job_for_update i d) (\<lambda>found.
       case found of
         None \<Rightarrow> Inl NoSuchImportJob
       | Some job \<Rightarrow>
           if \<not> unfinished (js_state job) then Inr ((), d)
           else if count_rows (\<lambda>j. ij_id j = i \<and> unfinished (ij_state j)) (im_jobs d) \<noteq> 1 then Inl StaleImportOwnership
           else release_job_ownership_with_invalidation i iv now
                  (d\<lparr>im_jobs := update_rows (\<lambda>j. ij_id j = i \<and> unfinished (ij_state j)) (superseded_job now) (im_jobs d)\<rparr>))"
proof (cases "find_job_for_update i d")
  case (Inr found)
  then show ?thesis
    by (cases found) (simp_all add: supersede_job_with_destination_invalidation_def update_jobs_def bindT_def liftT_def guardT_def)
qed (simp add: supersede_job_with_destination_invalidation_def)

lemma release_job_ownership_jobs:
  assumes "release_job_ownership_with_invalidation i iv now d = Inr (u, d')"
  shows "im_jobs d' = im_jobs d"
proof (cases "release_destinations i iv now None d")
  case (Inr y)
  obtain u1 d1 where y: "y = (u1, d1)" by (cases y)
  with assms Inr have "im_jobs d' = im_jobs d1" by (auto simp: release_job_ownership_eq)
  also have "\<dots> = im_jobs d" by (rule release_destinations_jobs [OF Inr [unfolded y]])
  finally show ?thesis .
qed (use assms in \<open>simp add: release_job_ownership_eq\<close>)

lemma supersede_job_ids:
  assumes "supersede_job_with_destination_invalidation i iv now d = Inr (u, d')"
  shows "map ij_id (im_jobs d') = map ij_id (im_jobs d)"
proof (cases "find_job_for_update i d")
  case (Inr found)
  show ?thesis
  proof (cases found)
    case (Some job)
    show ?thesis
    proof (cases "unfinished (js_state job)")
      case True
      with assms Inr Some have "release_job_ownership_with_invalidation i iv now
          (d\<lparr>im_jobs := update_rows (\<lambda>j. ij_id j = i \<and> unfinished (ij_state j)) (superseded_job now) (im_jobs d)\<rparr>) = Inr (u, d')"
        by (simp add: supersede_job_eq split: if_splits)
      from release_job_ownership_jobs [OF this] show ?thesis
        by (simp add: map_update_rows)
    qed (use assms Inr Some in \<open>simp add: supersede_job_eq\<close>)
  qed (use assms Inr in \<open>simp add: supersede_job_eq\<close>)
qed (use assms in \<open>simp add: supersede_job_eq\<close>)

section \<open>Overlapping jobs\<close>

definition identifiers_page :: "string option \<Rightarrow> string option \<Rightarrow> string list \<Rightarrow> string list" where
  "identifiers_page after excluding ids =
     take OWNERSHIP_BATCH_SIZE (sort (remdups (filter (\<lambda>i. past after i \<and> excluding \<noteq> Some i) ids)))"

definition prefix_owners_for_key :: "string \<Rightarrow> string \<Rightarrow> import_db \<Rightarrow> string list" where
  "prefix_owners_for_key b k d =
     map pc_job_id (filter (\<lambda>c. pc_bucket c = b \<and> job_active d (pc_job_id c) \<and> starts_with k (pc_prefix c)) (im_prefix_claims d))"

definition prefixes_overlap :: "string \<Rightarrow> string \<Rightarrow> bool" where
  "prefixes_overlap left right \<longleftrightarrow> starts_with left right \<or> starts_with right left"

definition prefix_owners_for_prefix :: "string \<Rightarrow> string \<Rightarrow> import_db \<Rightarrow> string list" where
  "prefix_owners_for_prefix b p d =
     map pc_job_id (filter (\<lambda>c. pc_bucket c = b \<and> job_active d (pc_job_id c) \<and>
       (starts_with p (pc_prefix c) \<or> starts_with (pc_prefix c) p)) (im_prefix_claims d))"

definition destination_owners_for_prefix :: "string \<Rightarrow> string \<Rightarrow> import_db \<Rightarrow> string list" where
  "destination_owners_for_prefix b p d =
     List.map_filter (\<lambda>r. case dst_owner_job_id r of
         None \<Rightarrow> None
       | Some i \<Rightarrow> if dst_bucket r = b \<and> job_active d i \<and> starts_with (dst_key r) p then Some i else None)
       (im_destinations d)"

definition prefix_owner_jobs_for_key ::
  "string \<Rightarrow> string \<Rightarrow> string option \<Rightarrow> string option \<Rightarrow> import_db \<Rightarrow> string list" where
  "prefix_owner_jobs_for_key b k after excluding d = identifiers_page after excluding (prefix_owners_for_key b k d)"

definition prefix_owner_jobs_for_prefix ::
  "string \<Rightarrow> string \<Rightarrow> string option \<Rightarrow> string option \<Rightarrow> import_db \<Rightarrow> string list" where
  "prefix_owner_jobs_for_prefix b p after excluding d = identifiers_page after excluding (prefix_owners_for_prefix b p d)"

definition destination_owner_jobs_for_prefix ::
  "string \<Rightarrow> string \<Rightarrow> string option \<Rightarrow> string option \<Rightarrow> import_db \<Rightarrow> string list" where
  "destination_owner_jobs_for_prefix b p after excluding d =
     identifiers_page after excluding (destination_owners_for_prefix b p d)"

text \<open>An ordered map from job identifiers to whether the destinations take a new generation.\<close>

fun or_insert :: "string \<Rightarrow> bool \<Rightarrow> (string \<times> bool) list \<Rightarrow> (string \<times> bool) list" where
  "or_insert i v [] = [(i, v)]"
| "or_insert i v ((j, w) # m) =
     (if i < j then (i, v) # (j, w) # m else if i = j then (j, w \<or> v) # m else (j, w) # or_insert i v m)"

definition insert_conflicting_job ::
  "string option \<Rightarrow> string option \<Rightarrow> bool \<Rightarrow> string \<Rightarrow> (string \<times> bool) list \<Rightarrow> (string \<times> bool) list" where
  "insert_conflicting_job after excluding invalidate i m =
     (if excluding = Some i \<or> \<not> past after i then m
      else let m' = or_insert i invalidate m in
           if length m' > OWNERSHIP_BATCH_SIZE then butlast m' else m')"

definition conflicts_of_target ::
  "string \<Rightarrow> string option \<Rightarrow> string option \<Rightarrow> import_db \<Rightarrow> string \<times> string option \<Rightarrow> (string \<times> bool) list \<Rightarrow> (string \<times> bool) list" where
  "conflicts_of_target b after excluding d target m =
     (let m' = fold (insert_conflicting_job after excluding False) (prefix_owner_jobs_for_key b (fst target) after excluding d) m
      in case snd target of None \<Rightarrow> m' | Some owner \<Rightarrow> insert_conflicting_job after excluding False owner m')"

definition conflicting_jobs ::
  "string \<Rightarrow> (string \<times> string option) list \<Rightarrow> string option \<Rightarrow> string option \<Rightarrow> string option \<Rightarrow> import_db \<Rightarrow> (string \<times> bool) list" where
  "conflicting_jobs b exact_targets mutation_prefix excluding after d =
     (let m = fold (conflicts_of_target b after excluding d) exact_targets [] in
      case mutation_prefix of
        None \<Rightarrow> m
      | Some p \<Rightarrow>
          fold (insert_conflicting_job after excluding True) (destination_owner_jobs_for_prefix b p after excluding d)
            (fold (insert_conflicting_job after excluding True) (prefix_owner_jobs_for_prefix b p after excluding d) m))"

definition supersede_conflicting ::
  "string \<Rightarrow> string option \<Rightarrow> datetime \<Rightarrow> string \<times> bool \<Rightarrow> (import_db, unit) tx" where
  "supersede_conflicting b mutation_prefix now conflict =
     bindT (if snd conflict
            then liftT (bindR (ok_or (Internal ''prefix ownership conflict is missing its literal prefix'') mutation_prefix)
                         (\<lambda>p. Inr (Some (b, p))))
            else returnT None) (\<lambda>invalidation.
     supersede_job_with_destination_invalidation (fst conflict) invalidation now)"

definition exact_owners :: "(string \<times> string option) list \<Rightarrow> string list" where
  "exact_owners ts = List.map_filter snd ts"

lemma in_map_filter: "y \<in> set (List.map_filter f xs) \<longleftrightarrow> (\<exists>x \<in> set xs. f x = Some y)"
  by (force simp: List.map_filter_def)

lemma job_active_id: "job_active d i \<Longrightarrow> i \<in> set (map ij_id (im_jobs d))"
  by (auto simp: job_active_def)

text \<open>All jobs that overlap the targets or the prefix, and those of them a round looks for.\<close>

definition overlapping ::
  "string \<Rightarrow> (string \<times> string option) list \<Rightarrow> string option \<Rightarrow> import_db \<Rightarrow> string set" where
  "overlapping b ts mp d =
     (\<Union>t \<in> set ts. set (prefix_owners_for_key b (fst t) d) \<union> set_option (snd t)) \<union>
     (case mp of None \<Rightarrow> {} | Some p \<Rightarrow> set (prefix_owners_for_prefix b p d) \<union> set (destination_owners_for_prefix b p d))"

definition admissible :: "string option \<Rightarrow> string option \<Rightarrow> string set" where
  "admissible after ex = {i. past after i \<and> ex \<noteq> Some i}"

text \<open>A bounded ordered map that holds the lowest identifiers of a set.\<close>

definition lowest :: "(string \<times> bool) list \<Rightarrow> string set \<Rightarrow> bool" where
  "lowest m U \<longleftrightarrow> sorted_wrt (<) (map fst m) \<and> set (map fst m) \<subseteq> U \<and> length m \<le> OWNERSHIP_BATCH_SIZE \<and>
     (\<forall>u \<in> U. u \<notin> set (map fst m) \<longrightarrow> length m = OWNERSHIP_BATCH_SIZE \<and> (\<forall>i \<in> set (map fst m). i < u))"

lemma set_or_insert: "set (map fst (or_insert i v m)) = insert i (set (map fst m))"
  by (induction i v m rule: or_insert.induct) auto

lemma length_or_insert: "length (or_insert i v m) \<le> Suc (length m)"
  by (induction i v m rule: or_insert.induct) auto

lemma sorted_or_insert: "sorted_wrt (<) (map fst m) \<Longrightarrow> sorted_wrt (<) (map fst (or_insert i v m))"
proof (induction i v m rule: or_insert.induct)
  case (2 i v j w m)
  then have "\<And>x. x \<in> set (map fst m) \<Longrightarrow> j < x" by auto
  moreover have "sorted_wrt (<) (map fst (or_insert i v m))" if "\<not> i < j" "i \<noteq> j"
    using 2 that by simp
  ultimately show ?case
    using 2(2) set_or_insert [of i v m] by (auto simp del: set_map intro: less_trans)
qed simp

lemma length_or_insert_mem: "sorted_wrt (<) (map fst m) \<Longrightarrow> i \<in> set (map fst m) \<Longrightarrow> length (or_insert i v m) = length m"
  by (induction i v m rule: or_insert.induct) auto

lemma length_or_insert_new: "i \<notin> set (map fst m) \<Longrightarrow> length (or_insert i v m) = Suc (length m)"
  by (induction i v m rule: or_insert.induct) auto

lemma sorted_wrt_last: "sorted_wrt (<) (xs :: 'k::linorder list) \<Longrightarrow> x \<in> set (butlast xs) \<Longrightarrow> x < last xs"
  by (induction xs) (auto split: if_splits)

lemma set_butlast: "xs \<noteq> [] \<Longrightarrow> set xs = insert (last xs) (set (butlast xs))"
  by (metis append_butlast_last_id list.simps(15) rotate1.simps(2) set_rotate1)

lemma lowest_insert:
  assumes "lowest m U" "i \<in> admissible after ex"
  shows "lowest (insert_conflicting_job after ex v i m) (insert i U)"
proof -
  let ?m = "or_insert i v m"
  have s: "sorted_wrt (<) (map fst ?m)"
    using assms(1) by (simp only: lowest_def sorted_or_insert)
  have sub: "set (map fst ?m) \<subseteq> insert i U"
    using assms(1) set_or_insert [of i v m] by (auto simp only: lowest_def)
  have rest: "length m = OWNERSHIP_BATCH_SIZE" "\<forall>j \<in> set (map fst m). j < u"
    if "u \<in> insert i U" "u \<notin> set (map fst ?m)" for u
    using assms(1) that set_or_insert [of i v m] by (auto simp only: lowest_def)
  show ?thesis
  proof (cases "length ?m > OWNERSHIP_BATCH_SIZE")
    case False
    have "i \<in> set (map fst m)" if "length m = OWNERSHIP_BATCH_SIZE"
      using that False length_or_insert_new [of i m v] by auto
    then have "set (map fst ?m) = set (map fst m)" "length ?m = length m" if "length m = OWNERSHIP_BATCH_SIZE"
      using that assms(1) set_or_insert [of i v m] length_or_insert_mem [of m i v]
      by (simp_all only: lowest_def insert_absorb)
    then have "length ?m = OWNERSHIP_BATCH_SIZE \<and> (\<forall>j \<in> set (map fst ?m). j < u)"
      if "u \<in> insert i U" "u \<notin> set (map fst ?m)" for u
      using rest [OF that] by (simp only: simp_thms)
    moreover have "insert_conflicting_job after ex v i m = ?m"
      using False assms(2) by (simp add: insert_conflicting_job_def admissible_def)
    ultimately show ?thesis
      using False s sub by (simp only: lowest_def not_less) blast
  next
    case True
    have len: "length m = OWNERSHIP_BATCH_SIZE" "length ?m = Suc OWNERSHIP_BATCH_SIZE" "?m \<noteq> []"
      using True length_or_insert [of i v m] assms(1) by (auto simp: lowest_def)
    let ?ks = "map fst ?m"
    have nonempty: "?ks \<noteq> []" using len(3) by simp
    have below: "j < last ?ks" if "j \<in> set (butlast ?ks)" for j
      using sorted_wrt_last [OF s that] .
    have all: "j < u" if u: "u \<in> insert i U" "u \<notin> set (butlast ?ks)" and j: "j \<in> set (butlast ?ks)" for u j
    proof (cases "u = last ?ks")
      case True
      with below [OF j] show ?thesis by simp
    next
      case False
      then have out: "u \<notin> set ?ks" using u(2) set_butlast [OF nonempty] by simp
      then have "u \<noteq> i" using set_or_insert [of i v m] by simp
      have jm: "j \<in> insert i (set (map fst m))"
        using j set_or_insert [of i v m] by (auto dest: in_set_butlastD simp del: set_map)
      have ms: "\<forall>j \<in> set (map fst m). j < u" by (rule rest(2) [OF u(1) out])
      show ?thesis
      proof (cases "j = i")
        case True
        have "i < last ?ks" using below j True by simp
        moreover have "last ?ks \<in> set (map fst m)"
        proof -
          have "last ?ks \<in> insert i (set (map fst m))"
            using last_in_set [OF nonempty] set_or_insert [of i v m] by simp
          with \<open>i < last ?ks\<close> show ?thesis by auto
        qed
        ultimately show ?thesis using ms True by fastforce
      next
        case False
        with jm ms show ?thesis by blast
      qed
    qed
    have "set (butlast ?ks) \<subseteq> insert i U" using sub by (auto dest: in_set_butlastD simp del: set_map)
    moreover have "sorted_wrt (<) (butlast ?ks)" using s by (simp add: butlast_conv_take sorted_wrt_take)
    moreover have "length (butlast ?m) = OWNERSHIP_BATCH_SIZE" using len(2) by simp
    ultimately show ?thesis
      using True assms(2) all
      by (simp add: lowest_def insert_conflicting_job_def admissible_def map_butlast del: set_map)
  qed
qed

lemma lowest_step:
  assumes "lowest m U"
  shows "lowest (insert_conflicting_job after ex v i m) (U \<union> {i} \<inter> admissible after ex)"
proof (cases "i \<in> admissible after ex")
  case True
  with lowest_insert [OF assms True, of v] show ?thesis by simp
next
  case False
  then have "insert_conflicting_job after ex v i m = m"
    by (auto simp: insert_conflicting_job_def admissible_def)
  with False assms show ?thesis by simp
qed

lemma lowest_fold:
  "lowest m U \<Longrightarrow> lowest (fold (insert_conflicting_job after ex v) is m) (U \<union> set is \<inter> admissible after ex)"
proof (induction "is" arbitrary: m U)
  case (Cons i "is")
  have "U \<union> {i} \<inter> admissible after ex \<union> set is \<inter> admissible after ex = U \<union> set (i # is) \<inter> admissible after ex"
    by auto
  with Cons.IH [OF lowest_step [OF Cons.prems, of after ex v i]] show ?case by simp
qed simp

lemma sorted_page:
  assumes "u \<in> set xs" "u \<notin> set (take n (sort (remdups xs)))"
  shows "length (take n (sort (remdups xs))) = n" "\<forall>i \<in> set (take n (sort (remdups xs))). i < (u :: 'k::linorder)"
proof -
  let ?s = "sort (remdups xs)"
  have u: "u \<in> set (drop n ?s)"
    using assms by (metis Un_iff append_take_drop_id set_append set_remdups set_sort)
  then show "length (take n ?s) = n"
    by (cases "n \<le> length ?s") auto
  have "sorted_wrt (<) (take n ?s @ drop n ?s)"
    by (simp add: sorted_wrt_take strict_sorted_iff)
  with u show "\<forall>i \<in> set (take n ?s). i < u"
    by (metis sorted_wrt_append)
qed

lemma set_identifiers_page: "set (identifiers_page after ex ids) \<subseteq> set ids \<inter> admissible after ex"
  unfolding identifiers_page_def admissible_def by (auto dest!: in_set_takeD)

lemma identifiers_page_rest:
  assumes "u \<in> set ids \<inter> admissible after ex" "u \<notin> set (identifiers_page after ex ids)"
  shows "length (identifiers_page after ex ids) = OWNERSHIP_BATCH_SIZE" "\<forall>i \<in> set (identifiers_page after ex ids). i < u"
  using sorted_page [of u "filter (\<lambda>i. past after i \<and> ex \<noteq> Some i) ids" OWNERSHIP_BATCH_SIZE] assms
  by (auto simp: identifiers_page_def admissible_def)

lemma distinct_identifiers_page: "distinct (identifiers_page after ex ids)"
  by (simp add: identifiers_page_def)

lemma lowest_page:
  assumes "lowest m (U \<union> set (identifiers_page after ex ids))"
  shows "lowest m (U \<union> set ids \<inter> admissible after ex)"
proof -
  let ?p = "identifiers_page after ex ids"
  have low: "length m = OWNERSHIP_BATCH_SIZE \<and> (\<forall>i \<in> set (map fst m). i < u)"
    if u: "u \<in> set ids \<inter> admissible after ex" "u \<notin> set (map fst m)" for u
  proof (cases "u \<in> set ?p")
    case True
    with assms u(2) show ?thesis unfolding lowest_def by blast
  next
    case False
    note r = identifiers_page_rest [OF u(1) False]
    show ?thesis
    proof (cases "set ?p \<subseteq> set (map fst m)")
      case True
      have "card (set ?p) = OWNERSHIP_BATCH_SIZE"
        using r(1) distinct_identifiers_page distinct_card by metis
      moreover have "card (set (map fst m)) \<le> length m" by (metis card_length length_map)
      moreover have "card (set ?p) \<le> card (set (map fst m))" by (rule card_mono [OF _ True]) simp
      moreover have "length m \<le> OWNERSHIP_BATCH_SIZE" using assms by (simp only: lowest_def)
      ultimately have "length m = OWNERSHIP_BATCH_SIZE" "card (set ?p) = card (set (map fst m))" by linarith+
      with True have "set ?p = set (map fst m)" by (intro card_subset_eq) simp_all
      with r(2) \<open>length m = OWNERSHIP_BATCH_SIZE\<close> show ?thesis by simp
    next
      case False
      then obtain x where x: "x \<in> set ?p" "x \<notin> set (map fst m)" by blast
      with assms have "length m = OWNERSHIP_BATCH_SIZE" "\<forall>i \<in> set (map fst m). i < x"
        unfolding lowest_def by blast+
      moreover have "x < u" using r(2) x(1) by blast
      ultimately show ?thesis by force
    qed
  qed
  have "set (map fst m) \<subseteq> U \<union> set ids \<inter> admissible after ex"
    using assms set_identifiers_page [of after ex ids] unfolding lowest_def by blast
  with assms low show ?thesis
    unfolding lowest_def by blast
qed

lemma lowest_page_fold:
  assumes "lowest m U"
  shows "lowest (fold (insert_conflicting_job after ex v) (identifiers_page after ex ids) m) (U \<union> set ids \<inter> admissible after ex)"
proof -
  have "set (identifiers_page after ex ids) \<inter> admissible after ex = set (identifiers_page after ex ids)"
    using set_identifiers_page by blast
  with lowest_fold [OF assms, of after ex v "identifiers_page after ex ids"] show ?thesis
    by (intro lowest_page) simp
qed

lemma lowest_target:
  assumes "lowest m U"
  shows "lowest (conflicts_of_target b after ex d t m) (U \<union> overlapping b [t] None d \<inter> admissible after ex)"
proof -
  note p = lowest_page_fold [OF assms, of after ex False "prefix_owners_for_key b (fst t) d"]
  show ?thesis
  proof (cases "snd t")
    case None
    with p show ?thesis by (simp add: conflicts_of_target_def prefix_owner_jobs_for_key_def overlapping_def)
  next
    case (Some owner)
    then have "U \<union> set (prefix_owners_for_key b (fst t) d) \<inter> admissible after ex \<union> {owner} \<inter> admissible after ex =
        U \<union> overlapping b [t] None d \<inter> admissible after ex"
      by (auto simp: overlapping_def)
    with lowest_step [OF p, of after ex False owner] Some show ?thesis
      by (simp add: conflicts_of_target_def prefix_owner_jobs_for_key_def)
  qed
qed

lemma lowest_targets:
  "lowest m U \<Longrightarrow> lowest (fold (conflicts_of_target b after ex d) ts m) (U \<union> overlapping b ts None d \<inter> admissible after ex)"
proof (induction ts arbitrary: m U)
  case Nil
  then show ?case by (simp add: overlapping_def)
next
  case (Cons t ts)
  have "overlapping b (t # ts) None d = overlapping b [t] None d \<union> overlapping b ts None d"
    by (simp add: overlapping_def)
  then have "U \<union> overlapping b (t # ts) None d \<inter> admissible after ex =
      (U \<union> overlapping b [t] None d \<inter> admissible after ex) \<union> overlapping b ts None d \<inter> admissible after ex"
    by blast
  with Cons.IH [OF lowest_target [OF Cons.prems, of b after ex d t]] show ?case by simp
qed

lemma lowest_conflicting_jobs:
  "lowest (conflicting_jobs b ts mp ex after d) (overlapping b ts mp d \<inter> admissible after ex)"
proof -
  have "lowest [] {}" by (simp add: lowest_def)
  note t = lowest_targets [OF this, of b after ex d ts]
  show ?thesis
  proof (cases mp)
    case None
    with t show ?thesis by (simp add: conflicting_jobs_def)
  next
    case (Some p)
    note q = lowest_page_fold [OF lowest_page_fold [OF t, of after ex True "prefix_owners_for_prefix b p d"],
        of after ex True "destination_owners_for_prefix b p d"]
    have "overlapping b ts mp d \<inter> admissible after ex =
        {} \<union> overlapping b ts None d \<inter> admissible after ex \<union> set (prefix_owners_for_prefix b p d) \<inter> admissible after ex \<union>
        set (destination_owners_for_prefix b p d) \<inter> admissible after ex"
      using Some by (auto simp: overlapping_def)
    with q Some show ?thesis
      by (simp add: conflicting_jobs_def prefix_owner_jobs_for_prefix_def destination_owner_jobs_for_prefix_def)
  qed
qed

lemma set_conflicting_jobs:
  "set (map fst (conflicting_jobs b ts mp ex after d)) \<subseteq> overlapping b ts mp d \<inter> admissible after ex"
  using lowest_conflicting_jobs unfolding lowest_def by blast

lemma in_destination_owners:
  "i \<in> set (destination_owners_for_prefix b p d) \<longleftrightarrow>
     job_active d i \<and> (\<exists>r \<in> set (im_destinations d). dst_bucket r = b \<and> starts_with (dst_key r) p \<and> dst_owner_job_id r = Some i)"
  unfolding destination_owners_for_prefix_def in_map_filter
  by (auto split: option.splits if_splits)

lemma in_exact_owners: "i \<in> set (exact_owners ts) \<longleftrightarrow> (\<exists>k. (k, Some i) \<in> set ts)"
  by (force simp: exact_owners_def in_map_filter)

lemma overlapping_ids: "overlapping b ts mp d \<subseteq> set (map ij_id (im_jobs d) @ exact_owners ts)"
  unfolding overlapping_def prefix_owners_for_key_def prefix_owners_for_prefix_def
  by (auto dest!: job_active_id simp: in_destination_owners in_exact_owners split: option.splits)

lemma supersede_conflicting_ids:
  assumes "supersede_conflicting b mp now c d = Inr (u, d')"
  shows "map ij_id (im_jobs d') = map ij_id (im_jobs d)"
proof -
  from assms obtain iv where "supersede_job_with_destination_invalidation (fst c) iv now d = Inr (u, d')"
    by (cases "snd c"; cases mp) (simp_all add: supersede_conflicting_def bindT_def liftT_def)
  then show ?thesis by (rule supersede_job_ids)
qed

function supersede_conflicts_from ::
  "string \<Rightarrow> (string \<times> string option) list \<Rightarrow> string option \<Rightarrow> string option \<Rightarrow> datetime \<Rightarrow> string option \<Rightarrow>
   (import_db, unit) tx" where
  "supersede_conflicts_from b exact_targets mutation_prefix excluding now after d =
     (let conflicts = conflicting_jobs b exact_targets mutation_prefix excluding after d in
      if conflicts = [] then Inr ((), d)
      else case for_each (supersede_conflicting b mutation_prefix now) conflicts d of
        Inl e \<Rightarrow> Inl e
      | Inr (_, d') \<Rightarrow>
          supersede_conflicts_from b exact_targets mutation_prefix excluding now (Some (fst (last conflicts))) d')"
  by pat_completeness simp_all
termination
proof (relation "measure (\<lambda>(b, ts, mp, ex, now, after, d). ahead after (map ij_id (im_jobs d) @ exact_owners ts))", goal_cases)
  case (2 b ts mp ex now after d conflicts y u d')
  have "for_each (supersede_conflicting b mp now) conflicts d = Inr (u, d')"
    using 2(3,4) by simp
  then have ids: "map ij_id (im_jobs d') = map ij_id (im_jobs d)"
    by (rule for_each_invariant [where g = "\<lambda>d. map ij_id (im_jobs d)"]) (rule supersede_conflicting_ids)
  have "fst (last conflicts) \<in> set (map fst conflicts)"
    using 2(2) by simp
  then have "fst (last conflicts) \<in> overlapping b ts mp d \<inter> admissible after ex"
    unfolding 2(1) by (rule subsetD [OF set_conflicting_jobs])
  then have l: "fst (last conflicts) \<in> overlapping b ts mp d" "past after (fst (last conflicts))"
    by (simp_all add: admissible_def)
  show ?case
    using ahead_less [OF subsetD [OF overlapping_ids l(1)] l(2)] ids by simp
qed simp

declare supersede_conflicts_from.simps [simp del]

definition supersede_conflicts_in_order ::
  "string \<Rightarrow> (string \<times> string option) list \<Rightarrow> string option \<Rightarrow> string option \<Rightarrow> datetime \<Rightarrow> (import_db, unit) tx" where
  "supersede_conflicts_in_order b exact_targets mutation_prefix excluding now =
     supersede_conflicts_from b exact_targets mutation_prefix excluding now None"

section \<open>Tokens\<close>

definition exact_overlap :: "string list \<Rightarrow> import_destination_model \<Rightarrow> bool" where
  "exact_overlap ks r \<longleftrightarrow>
     list_ex (\<lambda>k. dst_key r = k \<or> (case dst_mutation_prefix r of None \<Rightarrow> False | Some p \<Rightarrow> starts_with k p)) ks"

definition prefix_overlap :: "string option \<Rightarrow> import_destination_model \<Rightarrow> bool" where
  "prefix_overlap mp r \<longleftrightarrow>
     (case mp of
        None \<Rightarrow> False
      | Some p \<Rightarrow> starts_with (dst_key r) p \<or>
          (case dst_mutation_prefix r of None \<Rightarrow> False | Some q \<Rightarrow> prefixes_overlap q p))"

definition cleared_token :: "datetime \<Rightarrow> import_destination_model \<Rightarrow> import_destination_model" where
  "cleared_token now r = r\<lparr>dst_mutation_id := None, dst_mutation_prefix := None, dst_updated_at := now\<rparr>"

definition invalidate_destination ::
  "string \<Rightarrow> string list \<Rightarrow> string option \<Rightarrow> datetime \<Rightarrow> import_destination_model \<Rightarrow> (import_db, unit) tx" where
  "invalidate_destination b exact_keys mutation_prefix now r =
     (if \<not> exact_overlap exact_keys r \<and> \<not> prefix_overlap mutation_prefix r then returnT ()
      else
        bindT (liftT (ok_or (Internal ''active standard mutation has no token'') (dst_mutation_id r))) (\<lambda>token.
        bindT (update_destinations (\<lambda>s. destination_at b (dst_key r) s \<and> dst_mutation_id s = Some token) (cleared_token now)) (\<lambda>n.
        guardT (Database ''stale standard mutation invalidation compare-and-set'') (n = 1))))"

lemma dst_pk_cleared_token [simp]: "dst_bucket (cleared_token now r) = dst_bucket r" "dst_key (cleared_token now r) = dst_key r"
  by (simp_all add: cleared_token_def)

lemma invalidate_destination_keys:
  "invalidate_destination b ks mp now r d = Inr (u, d') \<Longrightarrow> map dst_key (im_destinations d') = map dst_key (im_destinations d)"
  unfolding invalidate_destination_def
  by (auto simp: bindT_eq_Inr update_destinations_def update_rows_def split: if_splits)

definition with_token :: "string \<Rightarrow> import_destination_model \<Rightarrow> bool" where
  "with_token b r \<longleftrightarrow> dst_bucket r = b \<and> dst_mutation_id r \<noteq> None"

function invalidate_standard_mutations_from ::
  "string \<Rightarrow> string list \<Rightarrow> string option \<Rightarrow> datetime \<Rightarrow> string option \<Rightarrow> (import_db, unit) tx" where
  "invalidate_standard_mutations_from b exact_keys mutation_prefix now after d =
     (let active = page_of dst_key (with_token b) after (im_destinations d) in
      if active = [] then Inr ((), d)
      else case for_each (invalidate_destination b exact_keys mutation_prefix now) active d of
        Inl e \<Rightarrow> Inl e
      | Inr (_, d') \<Rightarrow> invalidate_standard_mutations_from b exact_keys mutation_prefix now (Some (dst_key (last active))) d')"
  by pat_completeness simp_all
termination
proof (relation "measure (\<lambda>(b, ks, mp, now, after, d). ahead after (map dst_key (im_destinations d)))", goal_cases)
  case (2 b ks mp now after d active y u d')
  have "for_each (invalidate_destination b ks mp now) active d = Inr (u, d')"
    using 2(3,4) by simp
  then have "map dst_key (im_destinations d') = map dst_key (im_destinations d)"
    by (rule for_each_invariant [where g = "\<lambda>d. map dst_key (im_destinations d)"]) (rule invalidate_destination_keys)
  then show ?case
    using page_ahead [of dst_key "with_token b" after "im_destinations d"] 2(1,2) by simp
qed simp

declare invalidate_standard_mutations_from.simps [simp del]

definition invalidate_standard_mutations_in_order ::
  "string \<Rightarrow> string list \<Rightarrow> string option \<Rightarrow> datetime \<Rightarrow> (import_db, unit) tx" where
  "invalidate_standard_mutations_in_order b exact_keys mutation_prefix now =
     invalidate_standard_mutations_from b exact_keys mutation_prefix now None"

function has_overlapping_prefix_from :: "string \<Rightarrow> string \<Rightarrow> string option \<Rightarrow> import_db \<Rightarrow> bool" where
  "has_overlapping_prefix_from b k after d =
     (let active = page_of dst_key (\<lambda>r. with_token b r \<and> dst_mutation_prefix r \<noteq> None) after (im_destinations d) in
      if active = [] then False
      else if list_ex (\<lambda>r. case dst_mutation_prefix r of None \<Rightarrow> False | Some p \<Rightarrow> starts_with k p) active then True
      else has_overlapping_prefix_from b k (Some (dst_key (last active))) d)"
  by pat_completeness simp_all
termination
proof (relation "measure (\<lambda>(b, k, after, d). ahead after (map dst_key (im_destinations d)))", goal_cases)
  case (2 b k after d active)
  then show ?case
    using page_ahead [of dst_key "\<lambda>r. with_token b r \<and> dst_mutation_prefix r \<noteq> None" after "im_destinations d"] by simp
qed simp

declare has_overlapping_prefix_from.simps [simp del]

definition has_overlapping_standard_prefix_mutation :: "string \<Rightarrow> string \<Rightarrow> import_db \<Rightarrow> bool" where
  "has_overlapping_standard_prefix_mutation b k d = has_overlapping_prefix_from b k None d"

definition mutation_lease_identity :: "standard_mutation_guard \<Rightarrow> standard_mutation_lease_model \<Rightarrow> bool" where
  "mutation_lease_identity g l \<longleftrightarrow>
     sml_bucket l = sg_bucket g \<and> sml_key l = sg_key g \<and> sml_mutation_id l = sg_mutation_id g \<and>
     sml_generation l = sg_expected_generation g"

definition unexpired :: "datetime \<Rightarrow> standard_mutation_lease_model \<Rightarrow> bool" where
  "unexpired clock l \<longleftrightarrow> sml_lease_until l > clock"

definition active_destination_lease :: "datetime \<Rightarrow> import_db \<Rightarrow> import_destination_model \<Rightarrow> bool" where
  "active_destination_lease clock d r \<longleftrightarrow>
     (\<exists>l \<in> set (im_mutation_leases d). sml_bucket l = dst_bucket r \<and> sml_key l = dst_key r \<and>
        Some (sml_mutation_id l) = dst_mutation_id r \<and> sml_generation l = dst_generation r \<and> unexpired clock l)"

definition verify_mutation_lease :: "standard_mutation_guard \<Rightarrow> datetime \<Rightarrow> (import_db, unit) tx" where
  "verify_mutation_lease g clock =
     bindT (getsT (\<lambda>d. one_row (\<lambda>l. mutation_lease_identity g l \<and> unexpired clock l) (im_mutation_leases d))) (\<lambda>found.
     guardT StaleContentMutation (found \<noteq> None))"

definition verify_standard_mutation_guard ::
  "standard_mutation_guard \<Rightarrow> string \<Rightarrow> string \<Rightarrow> string list \<Rightarrow> datetime \<Rightarrow> (import_db, unit) tx" where
  "verify_standard_mutation_guard g b k entry_keys clock =
     bindT (guardT StaleContentMutation (sg_bucket g = b \<and> sg_key g = k \<and> sg_expected_generation g \<ge> 1)) (\<lambda>_.
     bindT (guardT StaleContentMutation
              (case sg_mutation_prefix g of
                 Some p \<Rightarrow> list_all (\<lambda>e. starts_with e p) entry_keys
               | None \<Rightarrow> entry_keys = [])) (\<lambda>_.
     bindT (getsT (destination_for_update b k)) (\<lambda>found.
     bindT (liftT (ok_or StaleContentMutation found)) (\<lambda>r.
     bindT (guardT StaleContentMutation
              (dst_generation r = sg_expected_generation g \<and> dst_owner_job_id r = None \<and>
               dst_mutation_id r = Some (sg_mutation_id g) \<and> dst_mutation_prefix r = sg_mutation_prefix g)) (\<lambda>_.
     verify_mutation_lease g clock)))))"

definition clear_standard_mutation_in_transaction ::
  "standard_mutation_guard \<Rightarrow> datetime \<Rightarrow> datetime option \<Rightarrow> (import_db, bool) tx" where
  "clear_standard_mutation_in_transaction g now require_active =
     bindT (getsT (\<lambda>d r. destination_at (sg_bucket g) (sg_key g) r \<and> dst_generation r = sg_expected_generation g \<and>
              dst_owner_job_id r = None \<and> dst_mutation_id r = Some (sg_mutation_id g) \<and>
              (case require_active of None \<Rightarrow> True | Some clock \<Rightarrow> active_destination_lease clock d r))) (\<lambda>P.
     bindT (update_destinations P (cleared_token now)) (\<lambda>n.
     bindT (modifyT (\<lambda>d. d\<lparr>im_queue := (im_queue d)\<lparr>qd_mutation_leases :=
              delete_rows (mutation_lease_identity g) (im_mutation_leases d)\<rparr>\<rparr>)) (\<lambda>_.
     returnT (n = 1))))"

text \<open>The clock readings: the check of the lease and the update.\<close>

definition complete_standard_mutation_in_transaction ::
  "standard_mutation_guard \<Rightarrow> datetime \<Rightarrow> datetime \<Rightarrow> datetime \<Rightarrow> (import_db, unit) tx" where
  "complete_standard_mutation_in_transaction g now clock update_clock =
     bindT (verify_mutation_lease g clock) (\<lambda>_.
     bindT (clear_standard_mutation_in_transaction g now (Some update_clock)) (\<lambda>ok.
     guardT StaleContentMutation ok))"

definition release_standard_mutation_in_transaction :: "standard_mutation_guard \<Rightarrow> datetime \<Rightarrow> (import_db, bool) tx" where
  "release_standard_mutation_in_transaction g now = clear_standard_mutation_in_transaction g now None"

definition release_standard_mutation :: "standard_mutation_guard \<Rightarrow> datetime \<Rightarrow> (import_db, bool) tx" where
  "release_standard_mutation g now =
     bindT (lock_ownership (sg_bucket g)) (\<lambda>_. release_standard_mutation_in_transaction g now)"

definition renew_standard_mutation_in_transaction ::
  "int \<Rightarrow> standard_mutation_guard \<Rightarrow> datetime \<Rightarrow> datetime \<Rightarrow> datetime \<Rightarrow> (import_db, unit) tx" where
  "renew_standard_mutation_in_transaction max_day g clock now update_clock =
     bindT (verify_standard_mutation_guard g (sg_bucket g) (sg_key g) [] clock) (\<lambda>_.
     bindT (liftT (plus_or_panic max_day now (STANDARD_MUTATION_LEASE_SECONDS * second_ns))) (\<lambda>until.
     bindT (update_mutation_leases (\<lambda>l. mutation_lease_identity g l \<and> unexpired update_clock l)
              (\<lambda>l. l\<lparr>sml_lease_until := until\<rparr>)) (\<lambda>n.
     guardT StaleContentMutation (n = 1))))"

definition renew_standard_mutation ::
  "int \<Rightarrow> standard_mutation_guard \<Rightarrow> datetime \<Rightarrow> datetime \<Rightarrow> datetime \<Rightarrow> (import_db, unit) tx" where
  "renew_standard_mutation max_day g clock now update_clock =
     bindT (lock_ownership (sg_bucket g)) (\<lambda>_. renew_standard_mutation_in_transaction max_day g clock now update_clock)"

text \<open>
  A round of the recovery reads the clock to find expired leases and again for the date of the
  update; \<open>clocks n\<close> holds the two readings of round \<open>n\<close>.
\<close>

definition lease_guard :: "standard_mutation_lease_model \<Rightarrow> standard_mutation_guard" where
  "lease_guard l = \<lparr>sg_bucket = sml_bucket l, sg_key = sml_key l, sg_mutation_id = sml_mutation_id l,
     sg_expected_generation = sml_generation l, sg_mutation_prefix = None\<rparr>"

definition release_expired :: "datetime \<Rightarrow> standard_mutation_lease_model \<Rightarrow> (import_db, unit) tx" where
  "release_expired now l = bindT (release_standard_mutation_in_transaction (lease_guard l) now) (\<lambda>_. returnT ())"

definition expired_page :: "string \<Rightarrow> datetime \<Rightarrow> import_db \<Rightarrow> standard_mutation_lease_model list" where
  "expired_page b clock d =
     take OWNERSHIP_BATCH_SIZE (sort_key sml_key (filter (\<lambda>l. sml_bucket l = b \<and> \<not> unexpired clock l) (im_mutation_leases d)))"

definition holds_token :: "standard_mutation_guard \<Rightarrow> import_destination_model \<Rightarrow> bool" where
  "holds_token g r \<longleftrightarrow> destination_at (sg_bucket g) (sg_key g) r \<and> dst_generation r = sg_expected_generation g \<and>
     dst_owner_job_id r = None \<and> dst_mutation_id r = Some (sg_mutation_id g)"

definition token_cleared_db :: "standard_mutation_guard \<Rightarrow> (import_destination_model \<Rightarrow> bool) \<Rightarrow> datetime \<Rightarrow> import_db \<Rightarrow> import_db" where
  "token_cleared_db g Q now d = d\<lparr>im_queue := (im_queue d)\<lparr>
     qd_destinations := update_rows (\<lambda>r. holds_token g r \<and> Q r) (cleared_token now) (im_destinations d),
     qd_mutation_leases := delete_rows (mutation_lease_identity g) (im_mutation_leases d)\<rparr>\<rparr>"

lemma token_cleared_db_sel:
  "im_mutation_leases (token_cleared_db g Q now d) = delete_rows (mutation_lease_identity g) (im_mutation_leases d)"
  "im_destinations (token_cleared_db g Q now d) = update_rows (\<lambda>r. holds_token g r \<and> Q r) (cleared_token now) (im_destinations d)"
  "im_jobs (token_cleared_db g Q now d) = im_jobs d" "im_prefix_claims (token_cleared_db g Q now d) = im_prefix_claims d"
  "im_targets (token_cleared_db g Q now d) = im_targets d"
  "qd_store (im_queue (token_cleared_db g Q now d)) = qd_store (im_queue d)"
  by (simp_all add: token_cleared_db_def)

lemma clear_standard_mutation_eq:
  "clear_standard_mutation_in_transaction g now ra d =
     (let Q = (case ra of None \<Rightarrow> (\<lambda>r. True) | Some clock \<Rightarrow> active_destination_lease clock d) in
      Inr (count_rows (\<lambda>r. holds_token g r \<and> Q r) (im_destinations d) = 1, token_cleared_db g Q now d))"
  by (cases ra) (simp_all add: clear_standard_mutation_in_transaction_def bindT_def update_destinations_def token_cleared_db_def
      holds_token_def Let_def)

lemma release_expired_eq: "release_expired now l d = Inr ((), token_cleared_db (lease_guard l) (\<lambda>r. True) now d)"
  by (simp add: release_expired_def release_standard_mutation_in_transaction_def bindT_def clear_standard_mutation_eq)

lemma release_expired_leases:
  assumes "release_expired now l d = Inr (u, d')"
  shows "im_mutation_leases d' = delete_rows (mutation_lease_identity (lease_guard l)) (im_mutation_leases d)"
proof -
  have "d' = token_cleared_db (lease_guard l) (\<lambda>r. True) now d"
    using assms by (simp add: release_expired_eq)
  then show ?thesis by (simp only: token_cleared_db_sel)
qed

lemma for_each_release_expired:
  "for_each (release_expired now) ls d = Inr (u, d') \<Longrightarrow>
   im_mutation_leases d' = fold (\<lambda>l. delete_rows (mutation_lease_identity (lease_guard l))) ls (im_mutation_leases d)"
proof (induction ls arbitrary: d)
  case (Cons l ls)
  from Cons.prems obtain u1 d1 where 1: "release_expired now l d = Inr (u1, d1)" and 2: "for_each (release_expired now) ls d1 = Inr (u, d')"
    by (rule for_each_ConsE)
  from Cons.IH [OF 2] release_expired_leases [OF 1] show ?case by simp
qed simp

lemma length_fold_delete: "length (fold (\<lambda>l. delete_rows (P l)) ls t) \<le> length t"
proof (induction ls arbitrary: t)
  case (Cons l ls)
  from Cons [of "delete_rows (P l) t"] show ?case
    by (simp add: delete_rows_def) (meson le_trans length_filter_le)
qed simp

lemma delete_rows_less: "x \<in> set t \<Longrightarrow> P x \<Longrightarrow> length (delete_rows P t) < length t"
  by (simp add: delete_rows_def length_filter_less)

lemma expired_page_subset: "set (expired_page b clock d) \<subseteq> set (im_mutation_leases d)"
  by (auto simp: expired_page_def dest!: in_set_takeD)

lemma mutation_lease_identity_self: "mutation_lease_identity (lease_guard l) l"
  by (simp add: mutation_lease_identity_def lease_guard_def)

function recover_expired_from :: "string \<Rightarrow> (nat \<Rightarrow> datetime \<times> datetime) \<Rightarrow> nat \<Rightarrow> (import_db, unit) tx" where
  "recover_expired_from b clocks n d =
     (let leases = expired_page b (fst (clocks n)) d in
      if leases = [] then Inr ((), d)
      else case for_each (release_expired (snd (clocks n))) leases d of
        Inl e \<Rightarrow> Inl e
      | Inr (_, d') \<Rightarrow> recover_expired_from b clocks (Suc n) d')"
  by pat_completeness simp_all
termination
proof (relation "measure (\<lambda>(b, clocks, n, d). length (im_mutation_leases d))", goal_cases)
  case (2 b clocks n d leases y u d')
  from 2(2) obtain l ls where l: "leases = l # ls" by (cases leases) simp_all
  then have mem: "l \<in> set (im_mutation_leases d)"
    using 2(1) expired_page_subset [of b "fst (clocks n)" d] by (simp add: subset_iff)
  have "for_each (release_expired (snd (clocks n))) leases d = Inr (u, d')"
    using 2(3,4) by simp
  then have "im_mutation_leases d' =
      fold (\<lambda>l. delete_rows (mutation_lease_identity (lease_guard l))) ls
        (delete_rows (mutation_lease_identity (lease_guard l)) (im_mutation_leases d))"
    unfolding l by (simp only: for_each_release_expired fold_simps)
  then have "length (im_mutation_leases d') \<le> length (delete_rows (mutation_lease_identity (lease_guard l)) (im_mutation_leases d))"
    by (simp only: length_fold_delete)
  also have "\<dots> < length (im_mutation_leases d)"
    by (rule delete_rows_less [OF mem mutation_lease_identity_self])
  finally show ?case by simp
qed simp

declare recover_expired_from.simps [simp del]

definition recover_expired_mutations_in_transaction :: "string \<Rightarrow> (nat \<Rightarrow> datetime \<times> datetime) \<Rightarrow> (import_db, unit) tx" where
  "recover_expired_mutations_in_transaction b clocks = recover_expired_from b clocks 0"

section \<open>Checks that change nothing\<close>

lemma one_row_Some_iff: "one_row P t \<noteq> None \<longleftrightarrow> (\<exists>r \<in> set t. P r)"
  by (simp add: one_row_None)

definition bucket_locked :: "string \<Rightarrow> import_db \<Rightarrow> bool" where
  "bucket_locked b d \<longleftrightarrow> count_rows (\<lambda>r. bucket_name r = b) (buckets (qd_store (im_queue d))) = 1"

lemma lock_ownership_Inr [simp]: "lock_ownership b d = Inr (u, d') \<longleftrightarrow> bucket_locked b d \<and> d' = d"
  by (auto simp: lock_ownership_def on_import_queue_def on_store_def lock_bucket_for_ownership_def bindT_def guardT_def
      bucket_locked_def)

definition claim_live :: "import_claim \<Rightarrow> string \<Rightarrow> datetime \<Rightarrow> import_db \<Rightarrow> bool" where
  "claim_live c b clock d \<longleftrightarrow> (\<exists>j \<in> set (im_jobs d). active_claim_filter c clock j \<and> ij_bucket j = b)"

lemma verify_active_claim_Inr [simp]: "verify_active_claim c b clock d = Inr (u, d') \<longleftrightarrow> claim_live c b clock d \<and> d' = d"
  by (simp add: verify_active_claim_def job_present_def bindT_eq_Inr one_row_Some_iff claim_live_def del: not_None_eq)

definition extraction_live :: "import_claim \<Rightarrow> string \<Rightarrow> string \<Rightarrow> datetime \<Rightarrow> import_db \<Rightarrow> bool" where
  "extraction_live c b k clock d \<longleftrightarrow> claim_live c b clock d \<and>
     (case job_prefix (ic_job_id c) d of
        Inl _ \<Rightarrow> False
      | Inr None \<Rightarrow> True
      | Inr (Some p) \<Rightarrow> starts_with k p \<and> prefix_claim_row (ic_job_id c) b p d \<noteq> None)"

lemma verify_extraction_claim_Inr [simp]:
  "verify_extraction_claim c b k clock d = Inr (u, d') \<longleftrightarrow> extraction_live c b k clock d \<and> d' = d"
proof (cases "job_prefix (ic_job_id c) d")
  case (Inr found)
  then show ?thesis
    by (cases found) (simp_all add: verify_extraction_claim_def bindT_eq_Inr extraction_live_def conj_ac eq_commute [of d d'])
qed (simp add: verify_extraction_claim_def bindT_eq_Inr extraction_live_def)

definition decompression_live :: "import_claim \<Rightarrow> string \<Rightarrow> datetime \<Rightarrow> import_db \<Rightarrow> bool" where
  "decompression_live c b clock d \<longleftrightarrow> claim_live c b clock d \<and>
     (case job_prefix (ic_job_id c) d of
        Inr (Some p) \<Rightarrow> prefix_claim_row (ic_job_id c) b p d \<noteq> None
      | _ \<Rightarrow> False)"

lemma verify_decompression_attempt_Inr [simp]:
  "verify_decompression_attempt c b clock d = Inr (u, d') \<longleftrightarrow> decompression_live c b clock d \<and> d' = d"
proof (cases "job_prefix (ic_job_id c) d")
  case (Inr found)
  then show ?thesis
    by (cases found) (simp_all add: verify_decompression_attempt_def bindT_eq_Inr decompression_live_def conj_ac)
qed (simp add: verify_decompression_attempt_def bindT_eq_Inr decompression_live_def)

definition lease_live :: "standard_mutation_guard \<Rightarrow> datetime \<Rightarrow> import_db \<Rightarrow> bool" where
  "lease_live g clock d \<longleftrightarrow> (\<exists>l \<in> set (im_mutation_leases d). mutation_lease_identity g l \<and> unexpired clock l)"

lemma verify_mutation_lease_Inr [simp]: "verify_mutation_lease g clock d = Inr (u, d') \<longleftrightarrow> lease_live g clock d \<and> d' = d"
  by (simp add: verify_mutation_lease_def bindT_eq_Inr one_row_Some_iff lease_live_def del: not_None_eq)

definition guard_live :: "standard_mutation_guard \<Rightarrow> string list \<Rightarrow> datetime \<Rightarrow> import_db \<Rightarrow> bool" where
  "guard_live g entry_keys clock d \<longleftrightarrow> sg_expected_generation g \<ge> 1 \<and>
     (case sg_mutation_prefix g of Some p \<Rightarrow> list_all (\<lambda>e. starts_with e p) entry_keys | None \<Rightarrow> entry_keys = []) \<and>
     (case destination_for_update (sg_bucket g) (sg_key g) d of
        None \<Rightarrow> False
      | Some r \<Rightarrow> holds_token g r \<and> dst_mutation_prefix r = sg_mutation_prefix g) \<and>
     lease_live g clock d"

lemma destination_for_update_at: "destination_for_update b k d = Some r \<Longrightarrow> destination_at b k r"
  unfolding destination_for_update_def find_destination_for_update_def destination_at_def by (auto dest: one_row_SomeD)

lemma verify_standard_mutation_guard_Inr [simp]:
  "verify_standard_mutation_guard g b k ks clock d = Inr (u, d') \<longleftrightarrow>
     sg_bucket g = b \<and> sg_key g = k \<and> guard_live g ks clock d \<and> d' = d"
proof (cases "destination_for_update b k d")
  case None
  then show ?thesis by (auto simp: verify_standard_mutation_guard_def bindT_eq_Inr guard_live_def)
next
  case (Some r)
  with destination_for_update_at [OF Some] show ?thesis
    by (auto simp: verify_standard_mutation_guard_def bindT_eq_Inr guard_live_def holds_token_def)
qed

end
