(* ===== verification/Import_Admission.thy ===== *)
theory Import_Admission
  imports Import_Ownership
begin

text \<open>
  The transactions of the ownership protocol (src/src/store/import/ownership.rs): submission of an
  import, claims of destinations and prefixes, admission of standard mutations and of lifecycle
  mutations, publication, failure and supersession. Every transaction starts with the bucket lock.

  Sets of keys are lists sorted without repetition, as a \<^verbatim>\<open>BTreeSet\<close> iterates; fresh mutation
  identifiers and clock readings are arguments. The date a new mutation lease is counted from is
  read once per key.
\<close>

section \<open>Rows\<close>

definition owner_exists :: "import_db \<Rightarrow> string option \<Rightarrow> bool" where
  "owner_exists d owner \<longleftrightarrow> (case owner of None \<Rightarrow> True | Some i \<Rightarrow> i \<in> set (map ij_id (im_jobs d)))"

definition im_buckets :: "import_db \<Rightarrow> string set" where
  "im_buckets d = bucket_name ` set (buckets (qd_store (im_queue d)))"

definition insert_destination :: "import_destination_model \<Rightarrow> (import_db, unit) tx" where
  "insert_destination r = (\<lambda>d.
     if dst_pk r \<in> set (map dst_pk (im_destinations d)) then Inl (Database ''pk_import_destinations'')
     else if dst_bucket r \<notin> im_buckets d then Inl (Database ''import_destinations_bucket_fkey'')
     else if \<not> owner_exists d (dst_owner_job_id r) then Inl (Database ''import_destinations_owner_job_id_fkey'')
     else if dst_generation r < 1 then Inl (Database ''import_destinations_generation_check'')
     else Inr ((), d\<lparr>im_queue := (im_queue d)\<lparr>qd_destinations := im_destinations d @ [r]\<rparr>\<rparr>))"

definition insert_target :: "string \<Rightarrow> string \<Rightarrow> string \<Rightarrow> int \<Rightarrow> string \<Rightarrow> (import_db, unit) tx" where
  "insert_target i b k generation kind = (\<lambda>d.
     if (i, b, k) \<in> set (map (\<lambda>t. (jt_job_id t, jt_bucket t, jt_key t)) (im_targets d)) then Inl (Database ''pk_import_job_targets'')
     else if i \<notin> set (map ij_id (im_jobs d)) then Inl (Database ''import_job_targets_job_id_fkey'')
     else if b \<notin> im_buckets d then Inl (Database ''import_job_targets_bucket_fkey'')
     else if generation < 1 then Inl (Database ''import_job_targets_expected_generation_check'')
     else Inr ((), d\<lparr>im_targets := im_targets d @
       [\<lparr>jt_job_id = i, jt_bucket = b, jt_key = k, jt_expected_generation = generation, jt_kind = kind\<rparr>]\<rparr>))"

definition insert_prefix_claim :: "import_prefix_claim_model \<Rightarrow> (import_db, unit) tx" where
  "insert_prefix_claim c = (\<lambda>d.
     if pc_job_id c \<notin> set (map ij_id (im_jobs d)) then Inl (Database ''import_prefix_claims_job_id_fkey'')
     else if pc_bucket c \<notin> im_buckets d then Inl (Database ''import_prefix_claims_bucket_fkey'')
     else if pc_claim_order c < 0 then Inl (Database ''import_prefix_claims_claim_order_check'')
     else Inr ((), d\<lparr>im_prefix_claims := im_prefix_claims d @ [c]\<rparr>))"

definition upsert_destination_owner ::
  "import_destination_model option \<Rightarrow> string \<Rightarrow> string \<Rightarrow> string option \<Rightarrow> datetime \<Rightarrow> (import_db, int) tx" where
  "upsert_destination_owner existing b k owner now =
     (case existing of
        Some r \<Rightarrow>
          bindT (liftT (next_generation r)) (\<lambda>g.
          bindT (getsT (\<lambda>d. owner_exists d owner)) (\<lambda>ok.
          bindT (guardT (Database ''import_destinations_owner_job_id_fkey'') ok) (\<lambda>_.
          bindT (update_destinations (destination_at b k)
                   (\<lambda>s. s\<lparr>dst_generation := g, dst_owner_job_id := owner, dst_mutation_id := None,
                          dst_mutation_prefix := None, dst_updated_at := now\<rparr>)) (\<lambda>_.
          returnT g))))
      | None \<Rightarrow>
          bindT (insert_destination \<lparr>dst_bucket = b, dst_key = k, dst_generation = 1, dst_owner_job_id = owner,
                   dst_mutation_id = None, dst_mutation_prefix = None, dst_updated_at = now\<rparr>) (\<lambda>_.
          returnT 1))"

definition upsert_mutation_lease :: "standard_mutation_lease_model \<Rightarrow> (import_db, unit) tx" where
  "upsert_mutation_lease l =
     modifyT (\<lambda>d. d\<lparr>im_queue := (im_queue d)\<lparr>qd_mutation_leases :=
       (let P = (\<lambda>m. sml_bucket m = sml_bucket l \<and> sml_key m = sml_key l) in
        if list_ex P (im_mutation_leases d)
        then update_rows P (\<lambda>m. m\<lparr>sml_mutation_id := sml_mutation_id l, sml_generation := sml_generation l,
                                   sml_lease_until := sml_lease_until l\<rparr>) (im_mutation_leases d)
        else im_mutation_leases d @ [l])\<rparr>\<rparr>)"

definition upsert_standard_mutation ::
  "int \<Rightarrow> import_destination_model option \<Rightarrow> string \<Rightarrow> string \<Rightarrow> string \<Rightarrow> string option \<Rightarrow> datetime \<Rightarrow> datetime \<Rightarrow>
   (import_db, standard_mutation_guard) tx" where
  "upsert_standard_mutation max_day existing b k mutation_id mutation_prefix now lease_now =
     bindT (case existing of
              Some r \<Rightarrow>
                bindT (liftT (next_generation r)) (\<lambda>g.
                bindT (update_destinations (\<lambda>s. destination_at b k s \<and> dst_generation s = dst_generation r)
                         (\<lambda>s. s\<lparr>dst_generation := g, dst_owner_job_id := None, dst_mutation_id := Some mutation_id,
                                dst_mutation_prefix := mutation_prefix, dst_updated_at := now\<rparr>)) (\<lambda>n.
                bindT (guardT (Database ''stale standard mutation admission compare-and-set'') (n = 1)) (\<lambda>_.
                returnT g)))
            | None \<Rightarrow>
                bindT (insert_destination \<lparr>dst_bucket = b, dst_key = k, dst_generation = 1, dst_owner_job_id = None,
                         dst_mutation_id = Some mutation_id, dst_mutation_prefix = mutation_prefix, dst_updated_at = now\<rparr>) (\<lambda>_.
                returnT 1)) (\<lambda>generation.
     bindT (liftT (plus_or_panic max_day lease_now (STANDARD_MUTATION_LEASE_SECONDS * second_ns))) (\<lambda>until.
     bindT (upsert_mutation_lease \<lparr>sml_bucket = b, sml_key = k, sml_mutation_id = mutation_id,
              sml_generation = generation, sml_lease_until = until\<rparr>) (\<lambda>_.
     returnT \<lparr>sg_bucket = b, sg_key = k, sg_mutation_id = mutation_id, sg_expected_generation = generation,
              sg_mutation_prefix = mutation_prefix\<rparr>)))"

section \<open>Imports\<close>

definition current_owner :: "string \<Rightarrow> string \<Rightarrow> import_db \<Rightarrow> string option" where
  "current_owner b k d = Option.bind (destination_for_update b k d) dst_owner_job_id"

definition claim_primary_destination :: "string \<Rightarrow> string \<Rightarrow> string \<Rightarrow> datetime \<Rightarrow> (import_db, int) tx" where
  "claim_primary_destination i b k now =
     bindT (getsT (destination_for_update b k)) (\<lambda>previous.
     bindT (supersede_conflicts_in_order b [(k, Option.bind previous dst_owner_job_id)] None (Some i) now) (\<lambda>_.
     bindT (invalidate_standard_mutations_in_order b [k] None now) (\<lambda>_.
     upsert_destination_owner previous b k (Some i) now)))"

definition next_prefix_claim_order :: "string \<Rightarrow> import_db \<Rightarrow> int" where
  "next_prefix_claim_order b d =
     (case map pc_claim_order (filter (\<lambda>c. pc_bucket c = b) (im_prefix_claims d)) of
        [] \<Rightarrow> 0
      | n # ns \<Rightarrow> saturating_add_i64 (fold max ns n) 1)"

definition install_prefix_claim :: "string \<Rightarrow> string \<Rightarrow> string \<Rightarrow> datetime \<Rightarrow> (import_db, unit) tx" where
  "install_prefix_claim i b p now =
     bindT (getsT (next_prefix_claim_order b)) (\<lambda>claim_order.
     bindT (supersede_conflicts_in_order b [] (Some p) (Some i) now) (\<lambda>_.
     bindT (invalidate_standard_mutations_in_order b [] (Some p) now) (\<lambda>_.
     bindT (getsT (prefix_claim_row i b p)) (\<lambda>existing.
     if existing = None
     then insert_prefix_claim \<lparr>pc_job_id = i, pc_bucket = b, pc_prefix = p, pc_claim_order = claim_order\<rparr>
     else returnT ()))))"

datatype submit_import_outcome = Created import_job_model | Replayed import_job_model

text \<open>Whether the pin providers accept the captured decision is the argument \<open>intake\<close>.\<close>

definition submit_decided_in_transaction ::
  "job_codec \<Rightarrow> (import_job_model \<Rightarrow> int \<times> int) \<Rightarrow> new_import_job \<Rightarrow> job_capture app_result \<Rightarrow> unit app_result \<Rightarrow> datetime \<Rightarrow>
   (import_db, submit_import_outcome) tx" where
  "submit_decided_in_transaction jc row_bytes rq capture intake now =
     bindT (case nj_client_token rq of
              None \<Rightarrow> returnT None
            | Some token \<Rightarrow> queryT (find_idempotent row_bytes (nj_bucket rq) (nj_key rq) token)) (\<lambda>found.
     case found of
       Some existing \<Rightarrow>
         if ij_request_fingerprint existing = nj_request_fingerprint rq then returnT (Replayed existing)
         else throwT ImportIdempotencyConflict
     | None \<Rightarrow>
         bindT (insert_queued_with_zip_intent jc row_bytes rq capture now) (\<lambda>job.
         bindT (claim_primary_destination (ij_id job) (ij_bucket job) (ij_key job) now) (\<lambda>generation.
         bindT (insert_target (ij_id job) (ij_bucket job) (ij_key job) generation KIND_ARCHIVE) (\<lambda>_.
         bindT (case ij_decompress_prefix job of
                  None \<Rightarrow> returnT ()
                | Some p \<Rightarrow> install_prefix_claim (ij_id job) (ij_bucket job) p now) (\<lambda>_.
         bindT (liftT intake) (\<lambda>_.
         returnT (Created job)))))))"

definition submit_with_decision ::
  "job_codec \<Rightarrow> (import_job_model \<Rightarrow> int \<times> int) \<Rightarrow> new_import_job \<Rightarrow> job_capture app_result \<Rightarrow> unit app_result \<Rightarrow> datetime \<Rightarrow>
   (import_db, submit_import_outcome) tx" where
  "submit_with_decision jc row_bytes rq capture intake now =
     bindT (lock_ownership (nj_bucket rq)) (\<lambda>_. submit_decided_in_transaction jc row_bytes rq capture intake now)"

definition preflight_idempotent_submission ::
  "(import_job_model \<Rightarrow> int \<times> int) \<Rightarrow> string \<Rightarrow> string \<Rightarrow> string \<Rightarrow> string \<Rightarrow> (import_db, import_job_model option) tx" where
  "preflight_idempotent_submission row_bytes b k token fingerprint =
     bindT (lock_ownership b) (\<lambda>_.
     bindT (queryT (find_idempotent row_bytes b k token)) (\<lambda>existing.
     case existing of
       None \<Rightarrow> returnT None
     | Some j \<Rightarrow> if ij_request_fingerprint j = fingerprint then returnT (Some j) else throwT ImportIdempotencyConflict))"

definition target_row :: "string \<Rightarrow> string \<Rightarrow> string \<Rightarrow> import_db \<Rightarrow> import_job_target_model option" where
  "target_row i b k d = one_row (\<lambda>t. jt_job_id t = i \<and> jt_bucket t = b \<and> jt_key t = k) (im_targets d)"

definition owned_at :: "string \<Rightarrow> int \<Rightarrow> import_destination_model option \<Rightarrow> bool" where
  "owned_at i generation found \<longleftrightarrow>
     (case found of None \<Rightarrow> False | Some r \<Rightarrow> dst_generation r = generation \<and> dst_owner_job_id r = Some i)"

definition claim_extracted_target :: "import_claim \<Rightarrow> string \<Rightarrow> string \<Rightarrow> datetime \<Rightarrow> datetime \<Rightarrow> (import_db, int) tx" where
  "claim_extracted_target c b k now clock =
     bindT (lock_ownership b) (\<lambda>_.
     bindT (verify_extraction_claim c b k clock) (\<lambda>_.
     bindT (getsT (target_row (ic_job_id c) b k)) (\<lambda>existing.
     case existing of
       Some t \<Rightarrow>
         bindT (getsT (destination_for_update b k)) (\<lambda>r.
         if jt_kind t = KIND_EXTRACTED \<and> owned_at (ic_job_id c) (jt_expected_generation t) r
         then returnT (jt_expected_generation t) else throwT StaleImportOwnership)
     | None \<Rightarrow>
         bindT (claim_primary_destination (ic_job_id c) b k now) (\<lambda>generation.
         bindT (insert_target (ic_job_id c) b k generation KIND_EXTRACTED) (\<lambda>_.
         returnT generation)))))"

definition release_owned_destination :: "string \<Rightarrow> string \<Rightarrow> string \<Rightarrow> int \<Rightarrow> datetime \<Rightarrow> (import_db, nat) tx" where
  "release_owned_destination i b k generation now =
     update_destinations (\<lambda>r. destination_at b k r \<and> dst_generation r = generation \<and> dst_owner_job_id r = Some i)
       (\<lambda>r. r\<lparr>dst_owner_job_id := None, dst_updated_at := now\<rparr>)"

definition release_extracted_target ::
  "import_claim \<Rightarrow> string \<Rightarrow> string \<Rightarrow> int \<Rightarrow> datetime \<Rightarrow> datetime \<Rightarrow> (import_db, unit) tx" where
  "release_extracted_target c b k generation now clock =
     bindT (lock_ownership b) (\<lambda>_.
     bindT (verify_extraction_claim c b k clock) (\<lambda>_.
     bindT (getsT (target_row (ic_job_id c) b k)) (\<lambda>target.
     bindT (guardT StaleImportOwnership
              (case target of None \<Rightarrow> False | Some t \<Rightarrow> jt_expected_generation t = generation \<and> jt_kind t = KIND_EXTRACTED)) (\<lambda>_.
     bindT (getsT (destination_for_update b k)) (\<lambda>r.
     bindT (guardT StaleImportOwnership (owned_at (ic_job_id c) generation r)) (\<lambda>_.
     bindT (modifyT (\<lambda>d. d\<lparr>im_targets :=
              delete_rows (\<lambda>t. jt_job_id t = ic_job_id c \<and> jt_bucket t = b \<and> jt_key t = k) (im_targets d)\<rparr>)) (\<lambda>_.
     bindT (release_owned_destination (ic_job_id c) b k generation now) (\<lambda>n.
     guardT StaleImportOwnership (n = 1)))))))))"

definition reset_extracted_target :: "import_claim \<Rightarrow> string \<Rightarrow> datetime \<Rightarrow> import_job_target_model \<Rightarrow> (import_db, unit) tx" where
  "reset_extracted_target c b now t =
     bindT (getsT (destination_for_update b (jt_key t))) (\<lambda>r.
     bindT (guardT StaleImportOwnership (owned_at (ic_job_id c) (jt_expected_generation t) r)) (\<lambda>_.
     bindT (release_owned_destination (ic_job_id c) b (jt_key t) (jt_expected_generation t) now) (\<lambda>n.
     bindT (guardT StaleImportOwnership (n = 1)) (\<lambda>_.
     let P = (\<lambda>s. jt_job_id s = ic_job_id c \<and> jt_bucket s = b \<and> jt_key s = jt_key t \<and> jt_kind s = KIND_EXTRACTED \<and>
                   jt_expected_generation s = jt_expected_generation t) in
     bindT (getsT (\<lambda>d. count_rows P (im_targets d))) (\<lambda>m.
     bindT (modifyT (\<lambda>d. d\<lparr>im_targets := delete_rows P (im_targets d)\<rparr>)) (\<lambda>_.
     guardT StaleImportOwnership (m = 1)))))))"

text \<open>The clock readings: the check of the claim before and after the batch.\<close>

definition reset_extracted_target_batch ::
  "import_claim \<Rightarrow> string \<Rightarrow> datetime \<Rightarrow> datetime \<Rightarrow> datetime \<Rightarrow> (import_db, nat) tx" where
  "reset_extracted_target_batch c b now clock commit_clock =
     bindT (lock_ownership b) (\<lambda>_.
     bindT (verify_decompression_attempt c b clock) (\<lambda>_.
     bindT (getsT (\<lambda>d. take OWNERSHIP_BATCH_SIZE (sort_key jt_key
              (filter (\<lambda>t. jt_job_id t = ic_job_id c \<and> jt_bucket t = b \<and> jt_kind t = KIND_EXTRACTED) (im_targets d))))) (\<lambda>targets.
     bindT (for_each (reset_extracted_target c b now) targets) (\<lambda>_.
     bindT (verify_decompression_attempt c b commit_clock) (\<lambda>_.
     returnT (length targets))))))"

lemma delete_counted_less: "count_rows P t = 1 \<Longrightarrow> length (delete_rows P t) < length t"
  using sum_length_filter_compl [of P t] by (simp add: count_rows_def delete_rows_def)

lemma reset_extracted_target_length:
  assumes "reset_extracted_target c b now t d = Inr (u, d')"
  shows "length (im_targets d') < length (im_targets d)"
proof -
  let ?P = "\<lambda>s. jt_job_id s = ic_job_id c \<and> jt_bucket s = b \<and> jt_key s = jt_key t \<and> jt_kind s = KIND_EXTRACTED \<and>
                   jt_expected_generation s = jt_expected_generation t"
  from assms have "count_rows ?P (im_targets d) = 1" "im_targets d' = delete_rows ?P (im_targets d)"
    by (clarsimp simp: reset_extracted_target_def release_owned_destination_def update_destinations_def bindT_def guardT_def
        Let_def split: if_splits)+
  then show ?thesis by (simp only: delete_counted_less)
qed

lemma for_each_reset_length:
  "for_each (reset_extracted_target c b now) ts d = Inr (u, d') \<Longrightarrow> length (im_targets d') + length ts \<le> length (im_targets d)"
proof (induction ts arbitrary: d)
  case (Cons t ts)
  from Cons.prems obtain u1 d1 where 1: "reset_extracted_target c b now t d = Inr (u1, d1)"
    and 2: "for_each (reset_extracted_target c b now) ts d1 = Inr (u, d')"
    by (rule for_each_ConsE)
  from Cons.IH [OF 2] reset_extracted_target_length [OF 1] show ?case by simp
qed simp

lemma reset_batch_length:
  assumes "reset_extracted_target_batch c b now t1 t2 d = Inr (m, d')"
  shows "length (im_targets d') + m \<le> length (im_targets d)"
proof -
  from assms obtain ts u where "for_each (reset_extracted_target c b now) ts d = Inr (u, d')" "m = length ts"
    unfolding reset_extracted_target_batch_def by (simp add: bindT_eq_Inr) (elim exE conjE, rule that, assumption, simp)
  then show ?thesis using for_each_reset_length by simp
qed

text \<open>
  The batches of an attempt, each a transaction of its own; \<open>clocks n\<close> holds the readings of batch
  \<open>n\<close>. Nobody else adds extracted targets to the job while its worker resets them.
\<close>

function reset_extracted_targets_from ::
  "import_claim \<Rightarrow> string \<Rightarrow> datetime \<Rightarrow> (nat \<Rightarrow> datetime \<times> datetime) \<Rightarrow> nat \<Rightarrow> (import_db, unit) tx" where
  "reset_extracted_targets_from c b now clocks n d =
     (case reset_extracted_target_batch c b now (fst (clocks n)) (snd (clocks n)) d of
        Inl e \<Rightarrow> Inl e
      | Inr (released, d') \<Rightarrow> if released = 0 then Inr ((), d') else reset_extracted_targets_from c b now clocks (Suc n) d')"
  by pat_completeness simp_all
termination
proof (relation "measure (\<lambda>(c, b, now, clocks, n, d). length (im_targets d))", goal_cases)
  case (2 c b now clocks n d y m d')
  from 2(1,2) have "reset_extracted_target_batch c b now (fst (clocks n)) (snd (clocks n)) d = Inr (m, d')"
    by simp
  from reset_batch_length [OF this] 2(3) show ?case by simp
qed simp

declare reset_extracted_targets_from.simps [simp del]

definition reset_extracted_targets_for_attempt ::
  "import_claim \<Rightarrow> string \<Rightarrow> datetime \<Rightarrow> (nat \<Rightarrow> datetime \<times> datetime) \<Rightarrow> (import_db, unit) tx" where
  "reset_extracted_targets_for_attempt c b now clocks = reset_extracted_targets_from c b now clocks 0"

section \<open>Standard mutations\<close>

fun admit_keys ::
  "int \<Rightarrow> string \<Rightarrow> (string \<Rightarrow> string option) \<Rightarrow> datetime \<Rightarrow> (string \<Rightarrow> datetime) \<Rightarrow> string list \<Rightarrow>
   (import_db, standard_mutation_guard list) tx" where
  "admit_keys max_day b mutation_ids now lease_nows [] = returnT []"
| "admit_keys max_day b mutation_ids now lease_nows (k # ks) =
     bindT (getsT (destination_for_update b k)) (\<lambda>r.
     bindT (liftT (ok_or (Internal ''content admission is missing a mutation token'') (mutation_ids k))) (\<lambda>mutation_id.
     bindT (upsert_standard_mutation max_day r b k mutation_id None now (lease_nows k)) (\<lambda>g.
     bindT (admit_keys max_day b mutation_ids now lease_nows ks) (\<lambda>gs.
     returnT (g # gs)))))"

definition admit_content_mutations_in_transaction ::
  "int \<Rightarrow> string \<Rightarrow> string list \<Rightarrow> (string \<Rightarrow> string option) \<Rightarrow> string option \<Rightarrow> datetime \<Rightarrow> (string \<Rightarrow> datetime) \<Rightarrow>
   (import_db, standard_mutation_guard list) tx" where
  "admit_content_mutations_in_transaction max_day b ks mutation_ids excluding now lease_nows =
     bindT (getsT (\<lambda>d. map (\<lambda>k. (k, current_owner b k d)) ks)) (\<lambda>exact_targets.
     bindT (supersede_conflicts_in_order b exact_targets None excluding now) (\<lambda>_.
     bindT (invalidate_standard_mutations_in_order b ks None now) (\<lambda>_.
     admit_keys max_day b mutation_ids now lease_nows ks)))"

text \<open>\<open>fresh k\<close> is the identifier generated for the key \<open>k\<close>.\<close>

definition admit_content_mutations ::
  "int \<Rightarrow> string \<Rightarrow> string list \<Rightarrow> (string \<Rightarrow> string) \<Rightarrow> string option \<Rightarrow> datetime \<Rightarrow> (string \<Rightarrow> datetime) \<Rightarrow>
   (import_db, standard_mutation_guard list) tx" where
  "admit_content_mutations max_day b ks fresh excluding now lease_nows =
     bindT (lock_ownership b) (\<lambda>_.
     admit_content_mutations_in_transaction max_day b (sort (remdups ks))
       (\<lambda>k. if k \<in> set ks then Some (fresh k) else None) excluding now lease_nows)"

definition admit_content_mutation ::
  "int \<Rightarrow> string \<Rightarrow> string \<Rightarrow> (string \<Rightarrow> string) \<Rightarrow> string option \<Rightarrow> datetime \<Rightarrow> (string \<Rightarrow> datetime) \<Rightarrow>
   (import_db, standard_mutation_guard) tx" where
  "admit_content_mutation max_day b k fresh excluding now lease_nows =
     bindT (admit_content_mutations max_day b [k] fresh excluding now lease_nows) (\<lambda>gs.
     liftT (ok_or (Internal ''content admission returned no mutation guard'') (if gs = [] then None else Some (last gs))))"

definition admit_prefix_mutation_in_transaction :: "string \<Rightarrow> string \<Rightarrow> datetime \<Rightarrow> (import_db, unit) tx" where
  "admit_prefix_mutation_in_transaction b p now =
     bindT (supersede_conflicts_in_order b [] (Some p) None now) (\<lambda>_.
     invalidate_standard_mutations_in_order b [] (Some p) now)"

definition admit_prefix_mutation :: "string \<Rightarrow> string \<Rightarrow> datetime \<Rightarrow> (import_db, unit) tx" where
  "admit_prefix_mutation b p now = bindT (lock_ownership b) (\<lambda>_. admit_prefix_mutation_in_transaction b p now)"

definition admit_content_and_prefix_mutation_in_transaction ::
  "int \<Rightarrow> string \<Rightarrow> string \<Rightarrow> string \<Rightarrow> string \<Rightarrow> datetime \<Rightarrow> datetime \<Rightarrow> (import_db, standard_mutation_guard) tx" where
  "admit_content_and_prefix_mutation_in_transaction max_day b k p mutation_id now lease_now =
     bindT (getsT (current_owner b k)) (\<lambda>owner.
     bindT (supersede_conflicts_in_order b [(k, owner)] (Some p) None now) (\<lambda>_.
     bindT (invalidate_standard_mutations_in_order b [k] (Some p) now) (\<lambda>_.
     bindT (getsT (destination_for_update b k)) (\<lambda>r.
     upsert_standard_mutation max_day r b k mutation_id (Some p) now lease_now))))"

definition admit_content_and_prefix_mutation ::
  "int \<Rightarrow> string \<Rightarrow> string \<Rightarrow> string \<Rightarrow> string \<Rightarrow> datetime \<Rightarrow> datetime \<Rightarrow> (import_db, standard_mutation_guard) tx" where
  "admit_content_and_prefix_mutation max_day b k p mutation_id now lease_now =
     bindT (lock_ownership b) (\<lambda>_. admit_content_and_prefix_mutation_in_transaction max_day b k p mutation_id now lease_now)"

section \<open>Lifecycle mutations\<close>

definition lifecycle_token :: "string \<Rightarrow> int \<Rightarrow> string" where
  "lifecycle_token action_id claim_epoch = ''lifecycle:'' @ action_id @ '':'' @ show_i64 claim_epoch"

definition older_same_action :: "string \<Rightarrow> string \<Rightarrow> int \<Rightarrow> bool" where
  "older_same_action active action_id claim_epoch =
     (case lifecycle_mutation_epoch active action_id of None \<Rightarrow> False | Some epoch \<Rightarrow> epoch > 0 \<and> epoch < claim_epoch)"

definition try_admit_lifecycle_in_transaction ::
  "int \<Rightarrow> string \<Rightarrow> string \<Rightarrow> string \<Rightarrow> int \<Rightarrow> datetime \<Rightarrow> (nat \<Rightarrow> datetime \<times> datetime) \<Rightarrow> datetime \<Rightarrow>
   (import_db, standard_mutation_guard option) tx" where
  "try_admit_lifecycle_in_transaction max_day b k action_id claim_epoch now clocks lease_now =
     (let token = lifecycle_token action_id claim_epoch in
      bindT (lock_ownership b) (\<lambda>_.
      bindT (recover_expired_mutations_in_transaction b clocks) (\<lambda>_.
      bindT (getsT (destination_for_update b k)) (\<lambda>found.
      bindT (getsT (\<lambda>d. Option.bind found dst_owner_job_id \<noteq> None \<or> prefix_owner_jobs_for_key b k None None d \<noteq> [] \<or>
               has_overlapping_standard_prefix_mutation b k d)) (\<lambda>occupied.
      let admit = bindT (upsert_standard_mutation max_day found b k token None now lease_now) (\<lambda>g. returnT (Some g)) in
      if occupied then returnT None
      else case found of
        None \<Rightarrow> admit
      | Some r \<Rightarrow>
          (case dst_mutation_id r of
             None \<Rightarrow> admit
           | Some active \<Rightarrow>
               if active = token then
                 (if dst_mutation_prefix r \<noteq> None then returnT None
                  else returnT (Some \<lparr>sg_bucket = b, sg_key = k, sg_mutation_id = token,
                         sg_expected_generation = dst_generation r, sg_mutation_prefix = None\<rparr>))
               else if \<not> older_same_action active action_id claim_epoch \<or> dst_mutation_prefix r \<noteq> None then returnT None
               else admit))))))"

definition try_admit_lifecycle_mutation ::
  "int \<Rightarrow> string \<Rightarrow> string \<Rightarrow> string \<Rightarrow> int \<Rightarrow> datetime \<Rightarrow> (nat \<Rightarrow> datetime \<times> datetime) \<Rightarrow> datetime \<Rightarrow>
   (import_db, standard_mutation_guard option) tx" where
  "try_admit_lifecycle_mutation max_day b k action_id claim_epoch now clocks lease_now =
     bindT (guardT (Internal ''invalid lifecycle mutation owner'')
              (\<not> (action_id = [] \<or> CHR '':'' \<in> set action_id \<or> claim_epoch \<le> 0))) (\<lambda>_.
     try_admit_lifecycle_in_transaction max_day b k action_id claim_epoch now clocks lease_now)"

section \<open>Outputs of an archive\<close>

function all_prefix_owner_jobs :: "string \<Rightarrow> string \<Rightarrow> string option \<Rightarrow> import_db \<Rightarrow> string list" where
  "all_prefix_owner_jobs b k after d =
     (let page = prefix_owner_jobs_for_key b k after None d in
      if page = [] then [] else page @ all_prefix_owner_jobs b k (Some (last page)) d)"
  by pat_completeness simp_all
termination
proof (relation "measure (\<lambda>(b, k, after, d). ahead after (prefix_owners_for_key b k d))", goal_cases)
  case (2 b k after d page)
  then have "last page \<in> set (identifiers_page after None (prefix_owners_for_key b k d))"
    by (simp add: prefix_owner_jobs_for_key_def)
  with set_identifiers_page [of after None "prefix_owners_for_key b k d"] show ?case
    by (auto simp: admissible_def intro: ahead_less)
qed simp

declare all_prefix_owner_jobs.simps [simp del]

definition affected_jobs :: "string \<Rightarrow> string list \<Rightarrow> import_db \<Rightarrow> string list" where
  "affected_jobs b ks d =
     sort (remdups (concat (map (\<lambda>k. (case current_owner b k d of None \<Rightarrow> [] | Some i \<Rightarrow> [i]) @ all_prefix_owner_jobs b k None d) ks)))"

text \<open>A job whose supersession would take authority over the source with it.\<close>

definition check_affected_job :: "string \<Rightarrow> string \<Rightarrow> string option \<Rightarrow> string \<Rightarrow> (import_db, unit) tx" where
  "check_affected_job b source source_owner i =
     bindT (guardT StaleContentMutation (source_owner \<noteq> Some i)) (\<lambda>_.
     bindT (queryT (find_job_for_update i)) (\<lambda>job.
     bindT (guardT StaleContentMutation
              (\<not> (case job of None \<Rightarrow> False | Some j \<Rightarrow> js_bucket j = b \<and> js_key j = source \<and> unfinished (js_state j)))) (\<lambda>_.
     bindT (getsT (target_row i b source)) (\<lambda>target.
     bindT (guardT StaleContentMutation (target = None)) (\<lambda>_.
     bindT (getsT (\<lambda>d. filter (\<lambda>c. pc_job_id c = i \<and> pc_bucket c = b) (im_prefix_claims d))) (\<lambda>claims.
     guardT StaleContentMutation (\<not> list_ex (\<lambda>c. starts_with source (pc_prefix c)) claims)))))))"

definition token_covers :: "string \<Rightarrow> import_destination_model \<Rightarrow> bool" where
  "token_covers k r \<longleftrightarrow> k = dst_key r \<or> (case dst_mutation_prefix r of None \<Rightarrow> False | Some p \<Rightarrow> starts_with k p)"

definition token_revokes_source :: "string \<Rightarrow> string list \<Rightarrow> import_destination_model \<Rightarrow> bool" where
  "token_revokes_source source ks r \<longleftrightarrow> list_ex (\<lambda>k. token_covers k r) ks \<and> token_covers source r"

function source_token_free :: "string \<Rightarrow> string \<Rightarrow> string list \<Rightarrow> string option \<Rightarrow> import_db \<Rightarrow> bool" where
  "source_token_free b source ks after d =
     (let active = page_of dst_key (with_token b) after (im_destinations d) in
      if active = [] then True
      else if list_ex (token_revokes_source source ks) active then False
      else source_token_free b source ks (Some (dst_key (last active))) d)"
  by pat_completeness simp_all
termination
proof (relation "measure (\<lambda>(b, source, ks, after, d). ahead after (map dst_key (im_destinations d)))", goal_cases)
  case (2 b source ks after d active)
  then show ?case
    using page_ahead [of dst_key "with_token b" after "im_destinations d"] by simp
qed simp

declare source_token_free.simps [simp del]

definition check_zip_outputs_do_not_revoke_source :: "string \<Rightarrow> string \<Rightarrow> string list \<Rightarrow> (import_db, unit) tx" where
  "check_zip_outputs_do_not_revoke_source b source ks =
     bindT (getsT (current_owner b source)) (\<lambda>source_owner.
     bindT (getsT (affected_jobs b ks)) (\<lambda>affected.
     bindT (for_each (check_affected_job b source source_owner) affected) (\<lambda>_.
     bindT (getsT (source_token_free b source ks None)) (\<lambda>ok.
     guardT StaleContentMutation ok))))"

text \<open>\<open>mutation_ids\<close> is a map from keys to identifiers, as many as there are keys.\<close>

definition admit_zip_outputs_without_source_in_transaction ::
  "int \<Rightarrow> string \<Rightarrow> string \<Rightarrow> string list \<Rightarrow> (string \<times> string) list \<Rightarrow> datetime \<Rightarrow> (string \<Rightarrow> datetime) \<Rightarrow>
   (import_db, standard_mutation_guard list) tx" where
  "admit_zip_outputs_without_source_in_transaction max_day b source ks mutation_ids now lease_nows =
     bindT (guardT StaleContentMutation
              (\<not> (source \<in> set ks \<or> length ks \<noteq> length mutation_ids \<or>
                  list_ex (\<lambda>k. case map_of mutation_ids k of None \<Rightarrow> True | Some m \<Rightarrow> m = []) ks))) (\<lambda>_.
     bindT (check_zip_outputs_do_not_revoke_source b source ks) (\<lambda>_.
     admit_content_mutations_in_transaction max_day b ks (map_of mutation_ids) None now lease_nows))"

definition admit_zip_v2_source_in_transaction ::
  "int \<Rightarrow> string \<Rightarrow> string \<Rightarrow> string list \<Rightarrow> string \<Rightarrow> datetime \<Rightarrow> datetime \<Rightarrow> (import_db, standard_mutation_guard) tx" where
  "admit_zip_v2_source_in_transaction max_day b source outputs mutation_id now lease_now =
     bindT (guardT StaleContentMutation (\<not> (source = [] \<or> mutation_id = [] \<or> source \<in> set outputs))) (\<lambda>_.
     bindT (check_zip_outputs_do_not_revoke_source b source outputs) (\<lambda>_.
     bindT (admit_content_mutations_in_transaction max_day b [source] [source \<mapsto> mutation_id] None now (\<lambda>_. lease_now)) (\<lambda>gs.
     liftT (ok_or StaleContentMutation (if gs = [] then None else Some (last gs))))))"

definition output_set_ok :: "string \<Rightarrow> string \<Rightarrow> string list \<Rightarrow> standard_mutation_guard list \<Rightarrow> bool" where
  "output_set_ok b source ks gs \<longleftrightarrow>
     distinct ks \<and> length ks = length gs \<and> source \<notin> set ks \<and>
     list_all (\<lambda>g. sg_bucket g = b \<and> sg_key g \<noteq> source \<and> sg_mutation_prefix g = None \<and> sg_key g \<in> set ks) gs \<and>
     distinct (map sg_key gs)"

definition verify_zip_output_guards_in_transaction ::
  "string \<Rightarrow> string \<Rightarrow> string list \<Rightarrow> standard_mutation_guard list \<Rightarrow> (string \<Rightarrow> datetime) \<Rightarrow> (import_db, unit) tx" where
  "verify_zip_output_guards_in_transaction b source ks gs clocks =
     bindT (guardT StaleContentMutation (output_set_ok b source ks gs)) (\<lambda>_.
     for_each (\<lambda>g. verify_standard_mutation_guard g b (sg_key g) [] (clocks (sg_key g))) gs)"

definition renew_output_guard :: "int \<Rightarrow> datetime \<Rightarrow> datetime \<Rightarrow> standard_mutation_guard \<Rightarrow> (import_db, unit) tx" where
  "renew_output_guard max_day now update_clock g =
     bindT (liftT (plus_or_panic max_day now (STANDARD_MUTATION_LEASE_SECONDS * second_ns))) (\<lambda>until.
     bindT (update_mutation_leases (\<lambda>l. mutation_lease_identity g l \<and> unexpired update_clock l)
              (\<lambda>l. l\<lparr>sml_lease_until := until\<rparr>)) (\<lambda>n.
     guardT StaleContentMutation (n = 1)))"

definition renew_zip_output_guards_in_transaction ::
  "int \<Rightarrow> string \<Rightarrow> string \<Rightarrow> string list \<Rightarrow> standard_mutation_guard list \<Rightarrow> (string \<Rightarrow> datetime) \<Rightarrow> (string \<Rightarrow> datetime) \<Rightarrow>
   (string \<Rightarrow> datetime) \<Rightarrow> (import_db, unit) tx" where
  "renew_zip_output_guards_in_transaction max_day b source ks gs clocks nows update_clocks =
     bindT (verify_zip_output_guards_in_transaction b source ks gs clocks) (\<lambda>_.
     for_each (\<lambda>g. renew_output_guard max_day (nows (sg_key g)) (update_clocks (sg_key g)) g) gs)"

definition complete_zip_output_guards_in_transaction ::
  "string \<Rightarrow> string \<Rightarrow> string list \<Rightarrow> standard_mutation_guard list \<Rightarrow> datetime \<Rightarrow> (string \<Rightarrow> datetime) \<Rightarrow> (string \<Rightarrow> datetime) \<Rightarrow>
   (string \<Rightarrow> datetime) \<Rightarrow> (import_db, unit) tx" where
  "complete_zip_output_guards_in_transaction b source ks gs now clocks lease_clocks update_clocks =
     bindT (verify_zip_output_guards_in_transaction b source ks gs clocks) (\<lambda>_.
     for_each (\<lambda>g. complete_standard_mutation_in_transaction g now (lease_clocks (sg_key g)) (update_clocks (sg_key g))) gs)"

section \<open>Publication and the end of a job\<close>

text \<open>Insertion into a \<^verbatim>\<open>BTreeMap\<close>, an ordered list of pairs.\<close>

fun btree_insert :: "'k::linorder \<Rightarrow> 'v \<Rightarrow> ('k \<times> 'v) list \<Rightarrow> ('k \<times> 'v) list" where
  "btree_insert k v [] = [(k, v)]"
| "btree_insert k v ((l, w) # m) =
     (if k < l then (k, v) # (l, w) # m else if k = l then (k, v) # m else (l, w) # btree_insert k v m)"

fun target_map :: "string \<Rightarrow> ((string \<times> string) \<times> int) list \<Rightarrow> expected_import_target list \<Rightarrow> ((string \<times> string) \<times> int) list app_result" where
  "target_map b m [] = Inr m"
| "target_map b m (t # ts) =
     (if et_bucket t \<noteq> b \<or> et_generation t < 1 then Inl StaleImportOwnership
      else case map_of m (et_bucket t, et_key t) of
        Some previous \<Rightarrow>
          if previous \<noteq> et_generation t then Inl StaleImportOwnership
          else target_map b (btree_insert (et_bucket t, et_key t) (et_generation t) m) ts
      | None \<Rightarrow> target_map b (btree_insert (et_bucket t, et_key t) (et_generation t) m) ts)"

definition publication_target_set :: "(string \<times> string) list \<Rightarrow> string \<Rightarrow> (string \<times> string) set app_result" where
  "publication_target_set ts b = (if list_ex (\<lambda>t. fst t \<noteq> b) ts then Inl StaleImportOwnership else Inr (set ts))"

definition check_expected_target :: "string \<Rightarrow> (string \<times> string) \<times> int \<Rightarrow> (import_db, unit) tx" where
  "check_expected_target i t =
     bindT (getsT (destination_for_update (fst (fst t)) (snd (fst t)))) (\<lambda>r.
     guardT StaleImportOwnership (owned_at i (snd t) r))"

definition durable_targets :: "string \<Rightarrow> import_db \<Rightarrow> ((string \<times> string) \<times> int) list" where
  "durable_targets i d =
     fold (\<lambda>t. btree_insert (jt_bucket t, jt_key t) (jt_expected_generation t))
       (sort_key (\<lambda>t. (jt_bucket t, jt_key t)) (filter (\<lambda>t. jt_job_id t = i) (im_targets d))) []"

definition verify_publication_guard ::
  "import_publication_guard \<Rightarrow> string \<Rightarrow> (string \<times> string) list \<Rightarrow> datetime \<Rightarrow> (import_db, unit) tx" where
  "verify_publication_guard g b publication_targets clock =
     bindT (liftT (target_map b [] (pg_targets g))) (\<lambda>expected.
     bindT (liftT (publication_target_set publication_targets b)) (\<lambda>publication.
     bindT (guardT StaleImportOwnership (set (map fst expected) = publication)) (\<lambda>_.
     bindT (for_each (check_expected_target (pg_job_id g)) expected) (\<lambda>_.
     bindT (job_present (active_guard_filter (pg_job_id g) (pg_worker_id g) (pg_claim_epoch g) clock) b) (\<lambda>_.
     bindT (getsT (durable_targets (pg_job_id g))) (\<lambda>durable.
     guardT StaleImportOwnership (durable = expected)))))))"

definition complete_publication_in_transaction ::
  "import_publication_guard \<Rightarrow> string \<Rightarrow> int \<Rightarrow> datetime \<Rightarrow> datetime \<Rightarrow> (import_db, unit) tx" where
  "complete_publication_in_transaction g final_cid logical_size now clock =
     bindT (guardT StaleImportOwnership (\<not> logical_size < 0)) (\<lambda>_.
     bindT (update_jobs (active_guard_filter (pg_job_id g) (pg_worker_id g) (pg_claim_epoch g) clock)
              (\<lambda>j. j\<lparr>ij_state := STATE_COMPLETED, ij_final_cid := Some final_cid, ij_logical_size := Some logical_size,
                     ij_locked_by := None, ij_locked_until := None, ij_failure_code := None, ij_failure_message := None,
                     ij_updated_at := now, ij_completed_at := Some now\<rparr>)) (\<lambda>n.
     bindT (guardT StaleImportOwnership (n = 1)) (\<lambda>_.
     release_job_ownership (pg_job_id g) now)))"

text \<open>The clock readings: the check of the claim and the update.\<close>

definition fail_claimed :: "import_claim \<Rightarrow> string \<Rightarrow> import_failure \<Rightarrow> datetime \<Rightarrow> datetime \<Rightarrow> datetime \<Rightarrow> (import_db, unit) tx" where
  "fail_claimed c b failure now clock update_clock =
     bindT (lock_ownership b) (\<lambda>_.
     bindT (verify_active_claim c b clock) (\<lambda>_.
     bindT (update_jobs (active_claim_filter c update_clock)
              (\<lambda>j. j\<lparr>ij_state := STATE_FAILED, ij_locked_by := None, ij_locked_until := None,
                     ij_failure_code := Some (if_code failure), ij_failure_message := Some (if_message failure),
                     ij_updated_at := now, ij_completed_at := Some now\<rparr>)) (\<lambda>n.
     bindT (guardT StaleImportOwnership (n = 1)) (\<lambda>_.
     release_job_ownership (ic_job_id c) now))))"

text \<open>A page of active jobs: as many as fit 1 MiB of identifiers, and at least one.\<close>

fun within_budget :: "int \<Rightarrow> string list \<Rightarrow> string list" where
  "within_budget used [] = []"
| "within_budget used (i # ids) =
     (let used' = used + int (length i) + 32 in if used' \<le> 1048576 then i # within_budget used' ids else [])"

definition active_ids :: "string \<Rightarrow> string option \<Rightarrow> import_db \<Rightarrow> string list app_result" where
  "active_ids b after d =
     (let ids = map ij_id (page_of ij_id (\<lambda>j. ij_bucket j = b \<and> unfinished (ij_state j)) after (im_jobs d));
          page = (case within_budget 0 ids of [] \<Rightarrow> take 1 ids | is \<Rightarrow> is)
      in if list_all fits_cell page then Inr page else Inl (Database ''null value in import_jobs.id''))"

lemma within_budget_prefix: "\<exists>rest. ids = within_budget used ids @ rest"
  by (induction used ids rule: within_budget.induct) (auto simp: Let_def)

lemma active_ids_last:
  assumes "active_ids b after d = Inr page" "page \<noteq> []"
  shows "last page \<in> set (map ij_id (im_jobs d))" "past after (last page)"
proof -
  let ?P = "\<lambda>j. ij_bucket j = b \<and> unfinished (ij_state j)"
  let ?ids = "map ij_id (page_of ij_id ?P after (im_jobs d))"
  obtain rest where r: "?ids = within_budget 0 ?ids @ rest"
    using within_budget_prefix by blast
  have "page = within_budget 0 ?ids \<or> page = take 1 ?ids"
    using assms(1) by (simp add: active_ids_def Let_def split: if_splits list.splits)
  then have "set page \<subseteq> set ?ids"
    using arg_cong [OF r, of set] set_take_subset [of 1 ?ids] by auto
  then have "last page \<in> set ?ids"
    using assms(2) by auto
  then obtain j where "j \<in> set (page_of ij_id ?P after (im_jobs d))" "last page = ij_id j"
    by auto
  then show "last page \<in> set (map ij_id (im_jobs d))" "past after (last page)"
    unfolding page_of_def by (auto dest!: in_set_takeD)
qed

function supersede_bucket_from :: "string \<Rightarrow> datetime \<Rightarrow> string option \<Rightarrow> nat \<Rightarrow> (import_db, nat) tx" where
  "supersede_bucket_from b now after n d =
     (case active_ids b after d of
        Inl e \<Rightarrow> Inl e
      | Inr page \<Rightarrow>
          if page = [] then Inr (n, d)
          else case for_each (\<lambda>i. supersede_job_in_transaction i now) page d of
            Inl e \<Rightarrow> Inl e
          | Inr (_, d') \<Rightarrow> supersede_bucket_from b now (Some (last page)) (n + length page) d')"
  by pat_completeness simp_all
termination
proof (relation "measure (\<lambda>(b, now, after, n, d). ahead after (map ij_id (im_jobs d)))", goal_cases)
  case (2 b now after n d page y u d')
  have "for_each (\<lambda>i. supersede_job_in_transaction i now) page d = Inr (u, d')"
    using 2(3,4) by simp
  then have "map ij_id (im_jobs d') = map ij_id (im_jobs d)"
    by (rule for_each_invariant [where g = "\<lambda>d. map ij_id (im_jobs d)"])
      (simp only: supersede_job_in_transaction_def supersede_job_ids)
  then show ?case
    using ahead_less [OF active_ids_last [OF 2(1,2)]] by simp
qed simp

declare supersede_bucket_from.simps [simp del]

definition supersede_bucket :: "string \<Rightarrow> datetime \<Rightarrow> (import_db, nat) tx" where
  "supersede_bucket b now = supersede_bucket_from b now None 0"

end
