(* ===== verification/Lifecycle_Scan.thy ===== *)
theory Lifecycle_Scan
  imports Lifecycle_Queue Residency_Store Chunk_Framing "HOL-Library.AList"
begin

text \<open>
  The lifecycle scan (src/src/store/lifecycle_scan.rs, its page_facts.rs) and the scheduling of one
  scanned page (\<open>schedule_claimed_scan_page\<close> of src/src/lifecycle/evaluator.rs). A bucket is scanned
  in bounded pages over its current versions, its noncurrent versions and its multipart uploads, in
  this order; a cursor names the last row of a page. JSON and base64 of the stored cursor are
  arguments.
\<close>

section \<open>Cursors\<close>

datatype lifecycle_scan_source = SourceCurrent | SourceNoncurrent | SourceMultipart

record lifecycle_scan_cursor =
  lc_source :: lifecycle_scan_source
  lc_bucket :: string
  lc_key :: string
  lc_sequence :: "int option"
  lc_version_row_id :: "string option"
  lc_multipart_created_at :: "datetime option"
  lc_multipart_upload_id :: "string option"

record lifecycle_candidate_page =
  cp_candidates :: "lifecycle_candidate list"
  cp_next_cursor :: "lifecycle_scan_cursor option"
  cp_cycle_complete :: bool

definition MAX_LIFECYCLE_SCAN_PAGE_SIZE :: nat where "MAX_LIFECYCLE_SCAN_PAGE_SIZE = 1000"

definition invalid_cursor :: app_error where
  "invalid_cursor = InvalidArgument ''invalid lifecycle scan cursor''"

definition validate_cursor :: "lifecycle_scan_cursor \<Rightarrow> string \<Rightarrow> unit app_result" where
  "validate_cursor c b =
     (if b = [] \<or> lc_bucket c = [] \<or> lc_bucket c \<noteq> b \<or> lc_key c = [] then Inl invalid_cursor
      else if (case lc_source c of
                 SourceMultipart \<Rightarrow>
                   lc_sequence c = None \<and> lc_version_row_id c = None \<and> lc_multipart_created_at c \<noteq> None \<and>
                   (case lc_multipart_upload_id c of Some u \<Rightarrow> u \<noteq> [] | None \<Rightarrow> False)
               | _ \<Rightarrow>
                   (case lc_sequence c of Some s \<Rightarrow> s > 0 | None \<Rightarrow> False) \<and>
                   (case lc_version_row_id c of Some v \<Rightarrow> v \<noteq> [] | None \<Rightarrow> False) \<and>
                   lc_multipart_created_at c = None \<and> lc_multipart_upload_id c = None)
      then Inr () else Inl invalid_cursor)"

definition encode_cursor :: "(lifecycle_scan_cursor \<Rightarrow> string) \<Rightarrow> (string \<Rightarrow> string) \<Rightarrow> lifecycle_scan_cursor \<Rightarrow> string" where
  "encode_cursor to_json base64 c = base64 (to_json c)"

definition decode_cursor ::
  "(string \<Rightarrow> string option) \<Rightarrow> (string \<Rightarrow> lifecycle_scan_cursor option) \<Rightarrow> string \<Rightarrow> string \<Rightarrow>
   lifecycle_scan_cursor app_result" where
  "decode_cursor unbase64 of_json value b =
     bindR (ok_or invalid_cursor (unbase64 value)) (\<lambda>encoded.
     bindR (ok_or invalid_cursor (of_json encoded)) (\<lambda>c.
     bindR (validate_cursor c b) (\<lambda>_. Inr c)))"

text \<open>The orders of the sources. A cursor that lacks a column of its source fails validation first.\<close>

definition scan_order :: "object_version_model \<Rightarrow> string \<times> int \<times> string" where
  "scan_order r = (ov_key r, ov_sequence r, ov_id r)"

definition upload_order :: "multipart_upload_model \<Rightarrow> string \<times> datetime \<times> string" where
  "upload_order r = (mu_key r, mu_created_at r, mu_upload_id r)"

definition version_tuple_after :: "lifecycle_scan_cursor \<Rightarrow> object_version_model \<Rightarrow> bool" where
  "version_tuple_after c r =
     (case (lc_sequence c, lc_version_row_id c) of
        (Some s, Some v) \<Rightarrow>
          ov_key r > lc_key c \<or>
          ov_key r = lc_key c \<and> (ov_sequence r > s \<or> ov_sequence r = s \<and> ov_id r > v)
      | _ \<Rightarrow> False)"

definition multipart_tuple_after :: "lifecycle_scan_cursor \<Rightarrow> multipart_upload_model \<Rightarrow> bool" where
  "multipart_tuple_after c r =
     (case (lc_multipart_created_at c, lc_multipart_upload_id c) of
        (Some t, Some u) \<Rightarrow>
          mu_key r > lc_key c \<or>
          mu_key r = lc_key c \<and> (mu_created_at r > t \<or> mu_created_at r = t \<and> mu_upload_id r > u)
      | _ \<Rightarrow> False)"

fun cursor_for :: "lifecycle_scan_source \<Rightarrow> lifecycle_candidate \<Rightarrow> lifecycle_scan_cursor" where
  "cursor_for source (VersionCandidate c) =
     \<lparr>lc_source = source, lc_bucket = vt_bucket (vc_target c), lc_key = vt_key (vc_target c),
      lc_sequence = Some (vt_sequence (vc_target c)), lc_version_row_id = Some (vt_version_row_id (vc_target c)),
      lc_multipart_created_at = None, lc_multipart_upload_id = None\<rparr>"
| "cursor_for source (MultipartCandidate t) =
     \<lparr>lc_source = source, lc_bucket = mt_bucket t, lc_key = mt_key t, lc_sequence = None, lc_version_row_id = None,
      lc_multipart_created_at = Some (mt_initiated_at t), lc_multipart_upload_id = Some (mt_upload_id t)\<rparr>"

section \<open>Facts of a page\<close>

definition FACTS_BATCH_SIZE :: nat where "FACTS_BATCH_SIZE = 200"

record page_facts =
  pf_residencies :: "(string \<times> version_residency_model) list"
  pf_physical :: "((string \<times> string) \<times> physical_residency_model) list"

text \<open>The maps are association lists with one entry per key, that of the last insertion.\<close>

definition load_facts :: "db \<Rightarrow> (object_version_model \<times> object_model option) list \<Rightarrow> page_facts" where
  "load_facts d rows =
     (let ids = map (\<lambda>(r, _). ov_id r) (filter (\<lambda>(r, _). ov_kind r = ''object'') rows);
          residencies = concat (map (\<lambda>batch. filter (\<lambda>v. vr_version_row_id v \<in> set batch) (version_residencies d))
            (chunks FACTS_BATCH_SIZE ids));
          residency_map = AList.clearjunk (rev (map (\<lambda>v. (vr_version_row_id v, v)) residencies));
          locations = remdups (sort (map (\<lambda>(_, v). (vr_primary_tier v, vr_cid v)) residency_map));
          physical = concat (map (\<lambda>batch. filter (\<lambda>p. pr_pk p \<in> set batch) (physical_residencies d))
            (chunks FACTS_BATCH_SIZE locations))
      in \<lparr>pf_residencies = residency_map, pf_physical = AList.clearjunk (rev (map (\<lambda>p. (pr_pk p, p)) physical))\<rparr>)"

definition evaluate_facts ::
  "page_facts \<Rightarrow> object_version_model \<Rightarrow> object_model option \<Rightarrow> (storage_class option \<times> bool) app_result" where
  "evaluate_facts facts r joined =
     bindR (version_kind_of r) (\<lambda>kind.
     if kind = DeleteMarkerKind then Inr (None, False)
     else
       bindR (ok_or (Internal ''lifecycle content version has no object'') joined) (\<lambda>ob.
       if ov_object_id r \<noteq> Some (obj_id ob) \<or> ov_bucket r \<noteq> obj_bucket ob \<or> ov_key r \<noteq> obj_key ob
       then Inl (Internal ''lifecycle content owner mismatch'')
       else case map_of (pf_residencies facts) (ov_id r) of
         None \<Rightarrow> Inr (Some Standard, False)
       | Some res \<Rightarrow>
           if ov_id r = [] then Inl (corrupt ''empty version identity'')
           else if ov_object_id r \<noteq> Some (vr_object_id res)
           then Inl (corrupt ''residency owner is not the exact content version'')
           else if obj_cid ob \<noteq> vr_cid res
           then Inl (corrupt ''residency identity does not match immutable object metadata'')
           else
             bindR (tier_from_db_str (vr_primary_tier res)) (\<lambda>t.
             bindR (class_from_db_str (vr_storage_class res)) (\<lambda>c.
             if (t, c) \<notin> {(Hot, Standard), (Cold, StandardIa)} \<or> vr_revision res \<le> 0
             then Inl (corrupt ''invalid primary residency'')
             else
               bindR (ok_or (corrupt ''primary physical residency is missing'')
                        (map_of (pf_physical facts) (vr_primary_tier res, vr_cid res))) (\<lambda>ph.
               bindR (tier_from_db_str (pr_tier ph)) (\<lambda>_.
               bindR (verification_from_db_str (pr_verification_state ph)) (\<lambda>v.
               if \<not> (case v of
                        Verified \<Rightarrow> nonempty (pr_node_identity ph) \<noteq> None \<and>
                          nonempty (pr_verification_receipt ph) \<noteq> None \<and> pr_verified_at ph \<noteq> None
                      | _ \<Rightarrow> pr_node_identity ph = None \<and> pr_verification_receipt ph = None \<and> pr_verified_at ph = None)
               then Inl (corrupt ''invalid physical verification shape'')
               else Inr (Some c, t = Hot \<and> v = Verified))))))))"

text \<open>The facts of a single row, read from the tables.\<close>

definition version_evaluation_facts ::
  "object_version_model \<Rightarrow> object_model option \<Rightarrow> db \<Rightarrow>
   (bucket_versioning_state \<times> storage_class option \<times> bool) app_result" where
  "version_evaluation_facts r joined d =
     bindR (get_versioning_state (ov_bucket r) d) (\<lambda>state.
     bindR (version_kind_of r) (\<lambda>kind.
     if kind = DeleteMarkerKind then Inr (state, None, False)
     else
       bindR (ok_or (Internal ''lifecycle content version has no object'') joined) (\<lambda>ob.
       if ov_object_id r \<noteq> Some (obj_id ob) \<or> ov_bucket r \<noteq> obj_bucket ob \<or> ov_key r \<noteq> obj_key ob
       then Inl (Internal ''lifecycle content owner mismatch'')
       else if find_residency (ov_id r) (version_residencies d) = None then Inr (state, Some Standard, False)
       else
         bindR (resolve_version_residency (ov_id r) d) (\<lambda>resolved.
         Inr (state, Some (rvr_storage_class resolved),
           loc_tier (rvr_primary resolved) = Hot \<and> prs_verification_state (rvr_physical resolved) = Verified)))))"

section \<open>Pages\<close>

definition candidate_from_row ::
  "uuid_parser \<Rightarrow> page_facts \<Rightarrow> bucket_versioning_state \<Rightarrow> object_version_model \<times> object_model option \<Rightarrow>
   lifecycle_candidate app_result" where
  "candidate_from_row up facts state = (\<lambda>(r, joined).
     bindR (version_kind_of r) (\<lambda>kind.
     bindR (public_version_id_of up r) (\<lambda>pid.
     bindR (evaluate_facts facts r joined) (\<lambda>(cls, hot).
     bindR (case kind of
              ObjectKind \<Rightarrow>
                bindR (ok_or invalid_cursor (ov_object_id r)) (\<lambda>oid.
                bindR (ok_or (Internal ''object version index references a missing object'') joined) (\<lambda>ob.
                if obj_id ob \<noteq> oid \<or> obj_bucket ob \<noteq> ov_bucket r \<or> obj_key ob \<noteq> ov_key r
                then Inl (Internal ''object version index references a mismatched object'')
                else Inr (Some oid, obj_size ob)))
            | DeleteMarkerKind \<Rightarrow>
                if joined \<noteq> None then Inl (Internal ''delete marker version index references an object'')
                else Inr (None, 0)) (\<lambda>(oid, bytes).
     Inr (VersionCandidate \<lparr>vc_target = \<lparr>vt_bucket = ov_bucket r, vt_key = ov_key r, vt_version_row_id = ov_id r,
            vt_public_version_id = pid, vt_kind = kind, vt_object_id = oid, vt_sequence = ov_sequence r\<rparr>,
          vc_is_latest = ov_is_latest r, vc_bucket_versioning_state = state, vc_primary_storage_class = cls,
          vc_hot_residency_verified = hot, vc_size = bytes,
          vc_lifecycle_age_started_at = ov_lifecycle_age_started_at r,
          vc_became_noncurrent_at = ov_became_noncurrent_at r\<rparr>))))))"

definition joined_object :: "db \<Rightarrow> object_version_model \<Rightarrow> object_model option" where
  "joined_object d r = Option.bind (ov_object_id r) (\<lambda>i. find_object i (objects d))"

definition scan_version_rows ::
  "db \<Rightarrow> string \<Rightarrow> bool \<Rightarrow> lifecycle_scan_cursor option \<Rightarrow> object_version_model list" where
  "scan_version_rows d b latest cursor =
     sort_key scan_order (filter (\<lambda>r. ov_bucket r = b \<and> ov_is_latest r = latest \<and>
       (case cursor of None \<Rightarrow> True | Some c \<Rightarrow> version_tuple_after c r)) (object_versions d))"

definition scan_upload_rows ::
  "multipart_upload_model list \<Rightarrow> string \<Rightarrow> lifecycle_scan_cursor option \<Rightarrow> multipart_upload_model list" where
  "scan_upload_rows t b cursor =
     sort_key upload_order (filter (\<lambda>r. mu_bucket r = b \<and>
       (case cursor of None \<Rightarrow> True | Some c \<Rightarrow> multipart_tuple_after c r)) t)"

definition upload_candidate :: "multipart_upload_model \<Rightarrow> lifecycle_candidate" where
  "upload_candidate r = MultipartCandidate
     \<lparr>mt_bucket = mu_bucket r, mt_key = mu_key r, mt_upload_id = mu_upload_id r, mt_initiated_at = mu_created_at r\<rparr>"

text \<open>The bucket's versioning state is read once per page, with the first version row.\<close>

definition version_page ::
  "uuid_parser \<Rightarrow> string \<Rightarrow> bool \<Rightarrow> lifecycle_scan_cursor option \<Rightarrow> nat \<Rightarrow> bucket_versioning_state option \<Rightarrow> db \<Rightarrow>
   (lifecycle_candidate list \<times> bucket_versioning_state option) app_result" where
  "version_page up b latest cursor limit cached d =
     (case take limit (scan_version_rows d b latest cursor) of
        [] \<Rightarrow> Inr ([], cached)
      | r # rs \<Rightarrow>
          let rows = map (\<lambda>r. (r, joined_object d r)) (r # rs) in
          bindR (version_kind_of r) (\<lambda>_.
          bindR (public_version_id_of up r) (\<lambda>_.
          bindR (case cached of Some s \<Rightarrow> Inr s | None \<Rightarrow> get_versioning_state b d) (\<lambda>state.
          bindR (traverse_list (candidate_from_row up (load_facts d rows) state) rows) (\<lambda>candidates.
          Inr (candidates, Some state))))))"

definition source_page ::
  "uuid_parser \<Rightarrow> string \<Rightarrow> lifecycle_scan_source \<Rightarrow> lifecycle_scan_cursor option \<Rightarrow> nat \<Rightarrow>
   bucket_versioning_state option \<Rightarrow> queue_db \<Rightarrow> (lifecycle_candidate list \<times> bucket_versioning_state option) app_result" where
  "source_page up b source cursor limit cached d =
     (case source of
        SourceMultipart \<Rightarrow> Inr (map upload_candidate (take limit (scan_upload_rows (qd_uploads d) b cursor)), cached)
      | SourceCurrent \<Rightarrow> version_page up b True cursor limit cached (qd_store d)
      | SourceNoncurrent \<Rightarrow> version_page up b False cursor limit cached (qd_store d))"

definition source_has_after ::
  "string \<Rightarrow> lifecycle_scan_source \<Rightarrow> lifecycle_scan_cursor option \<Rightarrow> queue_db \<Rightarrow> bool" where
  "source_has_after b source cursor d =
     (case source of
        SourceMultipart \<Rightarrow> scan_upload_rows (qd_uploads d) b cursor \<noteq> []
      | SourceCurrent \<Rightarrow> scan_version_rows (qd_store d) b True cursor \<noteq> []
      | SourceNoncurrent \<Rightarrow> scan_version_rows (qd_store d) b False cursor \<noteq> [])"

definition last_of :: "'a list \<Rightarrow> 'a option" where
  "last_of xs = (if xs = [] then None else Some (last xs))"

definition source_exhausted_after ::
  "string \<Rightarrow> lifecycle_scan_source \<Rightarrow> lifecycle_candidate list \<Rightarrow> nat \<Rightarrow> queue_db \<Rightarrow> bool" where
  "source_exhausted_after b source candidates limit d =
     (if length candidates < limit then True
      else \<not> source_has_after b source (map_option (cursor_for source) (last_of candidates)) d)"

record scan_state =
  ss_candidates :: "lifecycle_candidate list"
  ss_last_source :: "lifecycle_scan_source option"
  ss_cycle_complete :: bool
  ss_bucket_state :: "bucket_versioning_state option"

fun scan_sources ::
  "uuid_parser \<Rightarrow> string \<Rightarrow> lifecycle_scan_cursor option \<Rightarrow> nat \<Rightarrow> queue_db \<Rightarrow> scan_state \<Rightarrow>
   lifecycle_scan_source list \<Rightarrow> scan_state app_result" where
  "scan_sources up b cursor limit d st [] = Inr st"
| "scan_sources up b cursor limit d st (source # sources) =
     (let remaining = limit - length (ss_candidates st) in
      if remaining = 0
      then Inr (st\<lparr>ss_cycle_complete := \<not> list_ex (\<lambda>s. source_has_after b s None d) (source # sources)\<rparr>)
      else
        let source_cursor = (case cursor of Some c \<Rightarrow> if lc_source c = source then Some c else None | None \<Rightarrow> None) in
        bindR (source_page up b source source_cursor remaining (ss_bucket_state st) d) (\<lambda>(page, state).
        let exhausted = source_exhausted_after b source page remaining d;
            st' = st\<lparr>ss_candidates := ss_candidates st @ page,
                     ss_last_source := (if page \<noteq> [] then Some source else ss_last_source st),
                     ss_bucket_state := state\<rparr>
        in if \<not> exhausted then Inr st'
           else if source = SourceMultipart then Inr (st'\<lparr>ss_cycle_complete := True\<rparr>)
           else scan_sources up b cursor limit d st' sources))"

definition scan_sources_from :: "lifecycle_scan_cursor option \<Rightarrow> lifecycle_scan_source list" where
  "scan_sources_from cursor =
     drop (case map_option lc_source cursor of
             Some SourceNoncurrent \<Rightarrow> 1 | Some SourceMultipart \<Rightarrow> 2 | _ \<Rightarrow> 0)
       [SourceCurrent, SourceNoncurrent, SourceMultipart]"

definition scan_candidate_page ::
  "uuid_parser \<Rightarrow> string \<Rightarrow> lifecycle_scan_cursor option \<Rightarrow> nat \<Rightarrow> queue_db \<Rightarrow> lifecycle_candidate_page app_result" where
  "scan_candidate_page up b cursor limit d =
     (if limit = 0 \<or> limit > MAX_LIFECYCLE_SCAN_PAGE_SIZE
      then Inl (InvalidArgument ''lifecycle scan page limit must be between 1 and 1000'')
      else
        bindR (case cursor of None \<Rightarrow> Inr () | Some c \<Rightarrow> validate_cursor c b) (\<lambda>_.
        bindR (scan_sources up b cursor limit d
                 \<lparr>ss_candidates = [], ss_last_source = None, ss_cycle_complete = False, ss_bucket_state = None\<rparr>
                 (scan_sources_from cursor)) (\<lambda>st.
        Inr \<lparr>cp_candidates = ss_candidates st,
             cp_next_cursor = (case (ss_last_source st, last_of (ss_candidates st)) of
                (Some source, Some candidate) \<Rightarrow> Some (cursor_for source candidate) | _ \<Rightarrow> None),
             cp_cycle_complete = ss_cycle_complete st\<rparr>)))"

section \<open>Scheduling a page\<close>

record claimed_lifecycle_scan =
  cs_bucket :: string
  cs_config_revision :: int
  cs_canonical_json :: string
  cs_cursor :: "lifecycle_scan_cursor option"
  cs_lease_epoch :: int
  cs_database_now :: datetime
  cs_lease_until :: datetime

definition candidate_context ::
  "claimed_lifecycle_scan \<Rightarrow> canonical_lifecycle_configuration \<Rightarrow> queue_db \<Rightarrow> lifecycle_candidate \<Rightarrow> lifecycle_evaluation_context" where
  "candidate_context claim config d candidate =
     (let base = \<lparr>ec_candidate = candidate, ec_tags = [], ec_public_version_count = 0, ec_newer_noncurrent_count = 0,
          ec_config_revision = cs_config_revision claim, ec_configuration = config,
          ec_database_now = cs_database_now claim\<rparr>
      in case candidate of
           MultipartCandidate _ \<Rightarrow> base
         | VersionCandidate c \<Rightarrow>
             let t = vc_target c in
             base\<lparr>ec_tags := (case vt_object_id t of Some i \<Rightarrow> list_object_tags i (qd_store d) | None \<Rightarrow> []),
               ec_public_version_count := count_rows (\<lambda>r. ov_bucket r = vt_bucket t \<and> ov_key r = vt_key t)
                 (object_versions (qd_store d)),
               ec_newer_noncurrent_count := count_rows (\<lambda>r. ov_bucket r = vt_bucket t \<and> ov_key r = vt_key t \<and>
                 \<not> ov_is_latest r \<and> ov_sequence r > vt_sequence t) (object_versions (qd_store d))\<rparr>)"

definition awaits_hot_verification :: "lifecycle_candidate \<Rightarrow> new_lifecycle_action \<Rightarrow> bool" where
  "awaits_hot_verification candidate a \<longleftrightarrow>
     la_action_kind a \<in> {TransitionCurrent, TransitionNoncurrent} \<and>
     (case candidate of VersionCandidate c \<Rightarrow> \<not> vc_hot_residency_verified c | _ \<Rightarrow> False)"

definition schedule_candidate ::
  "int \<Rightarrow> identity_codec \<Rightarrow> claimed_lifecycle_scan \<Rightarrow> canonical_lifecycle_configuration \<Rightarrow> string \<Rightarrow>
   lifecycle_candidate \<Rightarrow> (queue_db, unit) tx" where
  "schedule_candidate max_day ic claim config uuid candidate =
     bindT (getsT (\<lambda>d. evaluate_candidate max_day (candidate_context claim config d candidate))) (\<lambda>evaluated.
     bindT (liftT evaluated) (\<lambda>action.
     case action of
       None \<Rightarrow> returnT ()
     | Some a \<Rightarrow>
         if awaits_hot_verification candidate a then returnT ()
         else
           bindT (liftT (idempotency_key ic a)) (\<lambda>key.
           bindT (insert_idempotent ic (a\<lparr>la_idempotency_key := key\<rparr>) uuid (cs_database_now claim)) (\<lambda>_.
           returnT ()))))"

text \<open>Each candidate has an identifier of its own for the row it may insert.\<close>

fun schedule_candidates ::
  "int \<Rightarrow> identity_codec \<Rightarrow> claimed_lifecycle_scan \<Rightarrow> canonical_lifecycle_configuration \<Rightarrow> (nat \<Rightarrow> string) \<Rightarrow>
   lifecycle_candidate list \<Rightarrow> (queue_db, unit) tx" where
  "schedule_candidates max_day ic claim config uuids [] = returnT ()"
| "schedule_candidates max_day ic claim config uuids (candidate # candidates) =
     bindT (schedule_candidate max_day ic claim config (uuids 0) candidate) (\<lambda>_.
     schedule_candidates max_day ic claim config (\<lambda>n. uuids (Suc n)) candidates)"

definition schedule_claimed_scan_page ::
  "int \<Rightarrow> uuid_parser \<Rightarrow> identity_codec \<Rightarrow> (string \<Rightarrow> canonical_lifecycle_configuration option) \<Rightarrow>
   claimed_lifecycle_scan \<Rightarrow> nat \<Rightarrow> (nat \<Rightarrow> string) \<Rightarrow> (queue_db, lifecycle_candidate_page) tx" where
  "schedule_claimed_scan_page max_day up ic of_json claim page_limit uuids =
     bindT (liftT (from_canonical_json of_json (cs_canonical_json claim))) (\<lambda>config.
     bindT (queryT (scan_candidate_page up (cs_bucket claim) (cs_cursor claim) page_limit)) (\<lambda>page.
     bindT (schedule_candidates max_day ic claim config uuids (cp_candidates page)) (\<lambda>_.
     returnT page)))"

end
