(* ===== verification/Lifecycle_Facts.thy ===== *)
theory Lifecycle_Facts
  imports Lifecycle_Scan Class_Lookup
begin

text \<open>
  A scan page loads the residency facts of its rows in batches. The facts it finds for a row are
  those that reading the row alone finds (\<open>version_evaluation_facts\<close>), also when tables are corrupt.
\<close>

section \<open>Batched lookups\<close>

lemma option_eqI: "(\<And>v. a = Some v \<longleftrightarrow> b = Some v) \<Longrightarrow> a = b"
  by (cases a; cases b) auto

lemma map_of_last_insertion:
  assumes "\<And>x y. x \<in> set xs \<Longrightarrow> y \<in> set xs \<Longrightarrow> f x = f y \<Longrightarrow> x = y"
  shows "map_of (AList.clearjunk (rev (map (\<lambda>x. (f x, x)) xs))) k = Some v \<longleftrightarrow> v \<in> set xs \<and> f v = k"
proof -
  have "map_of (rev (map (\<lambda>x. (f x, x)) xs)) k = Some v \<longleftrightarrow> v \<in> set xs \<and> f v = k" if "inj_on f (set xs)"
    using that
  proof (induction xs rule: rev_induct)
    case (snoc x xs)
    then show ?case by (auto simp: inj_on_def)
  qed simp
  then show ?thesis using assms by (simp add: map_of_clearjunk inj_on_def)
qed

context keyed_table
begin

lemma find_by_iff: "distinct (map row_key t) \<Longrightarrow> find_by k t = Some r \<longleftrightarrow> r \<in> set t \<and> row_key r = k"
  using find_by_key find_by_SomeD by metis

lemma batched_lookup:
  assumes t: "distinct (map row_key t)" and n: "0 < n"
  shows "map_of (AList.clearjunk (rev (map (\<lambda>x. (row_key x, x))
      (concat (map (\<lambda>batch. filter (\<lambda>x. row_key x \<in> set batch) t) (chunks n ks)))))) k =
    (if k \<in> set ks then find_by k t else None)" (is "map_of (AList.clearjunk (rev (map _ ?xs))) k = ?r")
proof -
  have keys: "set ks = (\<Union>b \<in> set (chunks n ks). set b)"
    using arg_cong [OF concat_chunks [OF n, of ks], of set] by simp
  then have xs: "set ?xs = {x \<in> set t. row_key x \<in> set ks}" by auto
  have "map_of (AList.clearjunk (rev (map (\<lambda>x. (row_key x, x)) ?xs))) k = Some v \<longleftrightarrow> ?r = Some v" for v
  proof (subst map_of_last_insertion)
    show "x = y" if "x \<in> set ?xs" "y \<in> set ?xs" "row_key x = row_key y" for x y
      using that t unfolding xs by (auto simp: distinct_map inj_on_def)
    show "(v \<in> set ?xs \<and> row_key v = k) \<longleftrightarrow> ?r = Some v"
      unfolding xs using find_by_iff [OF t, of k v] by auto
  qed
  then show ?thesis by (rule option_eqI)
qed

end

lemma loaded_maps:
  "pf_residencies (load_facts d rows) = AList.clearjunk (rev (map (\<lambda>v. (vr_version_row_id v, v))
     (concat (map (\<lambda>batch. filter (\<lambda>v. vr_version_row_id v \<in> set batch) (version_residencies d))
       (chunks FACTS_BATCH_SIZE (map (\<lambda>(r, _). ov_id r) (filter (\<lambda>(r, _). ov_kind r = ''object'') rows)))))))"
  "pf_physical (load_facts d rows) = AList.clearjunk (rev (map (\<lambda>p. (pr_pk p, p))
     (concat (map (\<lambda>batch. filter (\<lambda>p. pr_pk p \<in> set batch) (physical_residencies d))
       (chunks FACTS_BATCH_SIZE (remdups (sort (map (\<lambda>(_, v). (vr_primary_tier v, vr_cid v))
         (pf_residencies (load_facts d rows))))))))))"
  unfolding load_facts_def Let_def by (simp_all only: page_facts.simps)

lemma batch_size: "0 < FACTS_BATCH_SIZE" by (simp add: FACTS_BATCH_SIZE_def)

lemma loaded_residency:
  assumes "distinct (map vr_version_row_id (version_residencies d))" "(r, j) \<in> set rows" "ov_kind r = ''object''"
  shows "map_of (pf_residencies (load_facts d rows)) (ov_id r) = find_residency (ov_id r) (version_residencies d)"
proof -
  have "(r, j) \<in> set (filter (\<lambda>(r, _). ov_kind r = ''object'') rows)" using assms(2,3) by simp
  then have "(\<lambda>(r, _). ov_id r) (r, j) \<in> set (map (\<lambda>(r, _). ov_id r) (filter (\<lambda>(r, _). ov_kind r = ''object'') rows))"
    unfolding set_map by (rule imageI)
  then have "ov_id r \<in> set (map (\<lambda>(r, _). ov_id r) (filter (\<lambda>(r, _). ov_kind r = ''object'') rows))" by (simp only: case_prod_conv)
  then show ?thesis
    unfolding loaded_maps(1) resid.batched_lookup [OF assms(1) batch_size] by (rule if_P)
qed

lemma loaded_physical:
  assumes "distinct (map pr_pk (physical_residencies d))"
    and "map_of (pf_residencies (load_facts d rows)) i = Some x"
  shows "map_of (pf_physical (load_facts d rows)) (vr_primary_tier x, vr_cid x) =
    find_physical (vr_primary_tier x, vr_cid x) (physical_residencies d)"
proof -
  let ?m = "pf_residencies (load_facts d rows)"
  let ?location = "\<lambda>(_, v). (vr_primary_tier v, vr_cid v)"
  have "(i, x) \<in> set ?m" using assms(2) by (rule map_of_SomeD)
  then have "?location (i, x) \<in> ?location ` set ?m" by (rule imageI)
  then have "(vr_primary_tier x, vr_cid x) \<in> set (remdups (sort (map ?location ?m)))"
    by (simp only: set_remdups set_sort set_map case_prod_conv)
  then show ?thesis
    unfolding loaded_maps(2) phys.batched_lookup [OF assms(1) batch_size] by (rule if_P)
qed

section \<open>Agreement with single reads\<close>

text \<open>The primary keys of the tables that the facts come from.\<close>

definition primary_keys :: "db \<Rightarrow> bool" where
  "primary_keys d \<longleftrightarrow> distinct (map ov_id (object_versions d)) \<and> distinct (map obj_id (objects d)) \<and>
     distinct (map vr_version_row_id (version_residencies d)) \<and> distinct (map pr_pk (physical_residencies d))"

definition residency_facts :: "resolved_version_residency \<Rightarrow> storage_class option \<times> bool" where
  "residency_facts resolved = (Some (rvr_storage_class resolved),
     loc_tier (rvr_primary resolved) = Hot \<and> prs_verification_state (rvr_physical resolved) = Verified)"

lemma bindR_assoc: "bindR (bindR m f) g = bindR m (\<lambda>x. bindR (f x) g)"
  by (cases m) simp_all

lemma nonempty_Some: "nonempty x \<noteq> None \<longleftrightarrow> (case x of None \<Rightarrow> False | Some v \<Rightarrow> v \<noteq> [])"
  by (simp add: nonempty_def split: option.split)

lemma evaluate_resolved:
  assumes keys: "primary_keys d" and r: "r \<in> set (object_versions d)" "(r, Some ob) \<in> set rows"
    and kind: "version_kind_of r = Inr ObjectKind" and ob: "joined_object d r = Some ob"
    and owner: "ov_bucket r = obj_bucket ob" "ov_key r = obj_key ob"
    and x: "find_residency (ov_id r) (version_residencies d) = Some x"
  shows "evaluate_facts (load_facts d rows) r (Some ob) =
    bindR (resolve_version_residency (ov_id r) d) (\<lambda>resolved. Inr (residency_facts resolved))"
proof -
  have obj: "ov_kind r = ''object''" using kind by (simp add: version_kind_of_Inr)
  have found: "find_version (ov_id r) (object_versions d) = Some r"
    using keys r(1) by (simp add: primary_keys_def ver.find_by_key)
  obtain i where i: "ov_object_id r = Some i" "find_object i (objects d) = Some ob"
    using ob by (auto simp: joined_object_def bind_eq_Some_conv)
  then have id: "obj_id ob = i" by (auto dest: obj.find_by_SomeD)
  have loaded: "map_of (pf_residencies (load_facts d rows)) (ov_id r) = Some x"
    using loaded_residency [OF _ r(2) obj] keys x by (simp add: primary_keys_def)
  have phys: "map_of (pf_physical (load_facts d rows)) (vr_primary_tier x, vr_cid x) =
      find_physical (vr_primary_tier x, vr_cid x) (physical_residencies d)"
    using loaded_physical [OF _ loaded] keys by (simp add: primary_keys_def)
  have physical: "bindR (tier_from_db_str (pr_tier ph)) (\<lambda>_. bindR (verification_from_db_str (pr_verification_state ph)) (\<lambda>v.
      if \<not> (case v of Verified \<Rightarrow> nonempty (pr_node_identity ph) \<noteq> None \<and> nonempty (pr_verification_receipt ph) \<noteq> None \<and>
            pr_verified_at ph \<noteq> None
          | _ \<Rightarrow> pr_node_identity ph = None \<and> pr_verification_receipt ph = None \<and> pr_verified_at ph = None)
      then Inl (corrupt ''invalid physical verification shape'') else Inr (Some c, t = Hot \<and> v = Verified))) =
    bindR (physical_snapshot ph) (\<lambda>s. Inr (Some c, t = Hot \<and> prs_verification_state s = Verified))" for ph c t
    unfolding nonempty_Some physical_snapshot_def Let_def
    by (cases "tier_from_db_str (pr_tier ph)"; cases "verification_from_db_str (pr_verification_state ph)"; simp)
  show ?thesis
  proof (cases "i = vr_object_id x")
    case True
    then show ?thesis
      unfolding evaluate_facts_def resolve_version_residency_def kind found x loaded physical
      using owner i id obj
      by (simp add: bindR_assoc residency_facts_def phys if_distrib [of "\<lambda>m. bindR m f" for f] cong: if_cong)
  next
    case False
    then show ?thesis
      unfolding evaluate_facts_def resolve_version_residency_def kind found x loaded
      using owner i id obj by (simp cong: if_cong)
  qed
qed

lemma evaluate_facts_single:
  assumes keys: "primary_keys d" and r: "r \<in> set (object_versions d)" "(r, joined_object d r) \<in> set rows"
  shows "version_evaluation_facts r (joined_object d r) d =
    bindR (get_versioning_state (ov_bucket r) d) (\<lambda>state.
      bindR (evaluate_facts (load_facts d rows) r (joined_object d r)) (\<lambda>facts. Inr (state, facts)))"
proof -
  consider e where "version_kind_of r = Inl e" | "version_kind_of r = Inr DeleteMarkerKind"
    | "version_kind_of r = Inr ObjectKind" "joined_object d r = None"
    | ob where "version_kind_of r = Inr ObjectKind" "joined_object d r = Some ob"
        "ov_bucket r \<noteq> obj_bucket ob \<or> ov_key r \<noteq> obj_key ob"
    | ob where "version_kind_of r = Inr ObjectKind" "joined_object d r = Some ob"
        "ov_bucket r = obj_bucket ob" "ov_key r = obj_key ob" "find_residency (ov_id r) (version_residencies d) = None"
    | ob x where "version_kind_of r = Inr ObjectKind" "joined_object d r = Some ob"
        "ov_bucket r = obj_bucket ob" "ov_key r = obj_key ob" "find_residency (ov_id r) (version_residencies d) = Some x"
    by (metis (full_types) not_Some_eq old.sum.exhaust version_kind.exhaust)
  then show ?thesis
  proof cases
    case (5 ob)
    have "map_of (pf_residencies (load_facts d rows)) (ov_id r) = None"
      using loaded_residency [OF _ r(2)] keys 5 by (simp add: primary_keys_def version_kind_of_Inr)
    moreover have "ov_object_id r = Some (obj_id ob)"
      using 5(2) by (auto simp: joined_object_def bind_eq_Some_conv dest: obj.find_by_SomeD)
    ultimately show ?thesis using 5 by (simp add: version_evaluation_facts_def evaluate_facts_def)
  next
    case (6 ob x)
    have "ov_object_id r = Some (obj_id ob)"
      using 6(2) by (auto simp: joined_object_def bind_eq_Some_conv dest: obj.find_by_SomeD)
    then show ?thesis
      using evaluate_resolved [OF keys r(1) r(2) [unfolded 6(2)] 6] 6
      by (simp add: version_evaluation_facts_def residency_facts_def bindR_assoc)
  qed (auto simp: version_evaluation_facts_def evaluate_facts_def)
qed

text \<open>C31: Loading a page's facts in batches changes nothing. For every version row of a scan page, with
  its joined object, the facts found in the page's batched maps are exactly those that reading the
  row alone finds, with the same error when rows are corrupt. Only the primary keys of the tables
  are assumed.\<close>

theorem batched_facts_agree:
  assumes "primary_keys d" "set rows \<subseteq> (\<lambda>r. (r, joined_object d r)) ` set (object_versions d)"
  shows "list_all (\<lambda>(r, joined). version_evaluation_facts r joined d =
    bindR (get_versioning_state (ov_bucket r) d) (\<lambda>state.
      bindR (evaluate_facts (load_facts d rows) r joined) (\<lambda>facts. Inr (state, facts)))) rows"
  unfolding list_all_iff
proof (rule ballI)
  fix p assume p: "p \<in> set rows"
  from subsetD [OF assms(2) p] obtain r where r: "p = (r, joined_object d r)" "r \<in> set (object_versions d)"
    by (rule imageE)
  show "case p of (r, joined) \<Rightarrow> version_evaluation_facts r joined d =
    bindR (get_versioning_state (ov_bucket r) d) (\<lambda>state.
      bindR (evaluate_facts (load_facts d rows) r joined) (\<lambda>facts. Inr (state, facts)))"
    using evaluate_facts_single [OF assms(1) r(2) p [unfolded r(1)]] r(1) by (simp only: case_prod_conv)
qed

theorem batched_facts_agree_witness:
  "primary_keys sample_db \<and> joined_object sample_db sample_version = Some sample_object \<and>
   version_evaluation_facts sample_version (Some sample_object) sample_db =
     bindR (get_versioning_state ''b'' sample_db) (\<lambda>state.
       bindR (evaluate_facts (load_facts sample_db [(sample_version, Some sample_object)]) sample_version
         (Some sample_object)) (\<lambda>facts. Inr (state, facts)))"
proof -
  have keys: "primary_keys sample_db" by (simp add: primary_keys_def)
  have joined: "joined_object sample_db sample_version = Some sample_object"
    by (simp add: joined_object_def obj.find_by_key)
  show ?thesis
    using batched_facts_agree [OF keys, of "[(sample_version, Some sample_object)]"] keys joined by simp
qed

end
