(* ===== verification/Lifecycle_Cycle.thy ===== *)
theory Lifecycle_Cycle
  imports Lifecycle_Facts
begin

text \<open>
  The cycle of a lifecycle scan. On a consistent store, each page presents the first rows that are
  still pending at its cursor, its next cursor leads exactly to the rest, and the cycle is reported
  complete exactly when nothing is left. Following the cursors therefore visits every version and
  every multipart upload of the bucket once.
\<close>

section \<open>The pending rows of a source\<close>

lemma sorted_after:
  fixes f :: "'a \<Rightarrow> 'b :: linorder"
  assumes "sorted_wrt (<) (map f (xs @ x # ys))"
  shows "filter (\<lambda>y. f x < f y) (xs @ x # ys) = ys"
  using assms by (auto simp: sorted_wrt_append sorted_wrt_map filter_empty_conv filter_id_conv)

text \<open>A query for the rows after a bound returns the rest of the ordered rows.\<close>

lemma rows_after:
  fixes f :: "'a \<Rightarrow> 'b :: linorder"
  assumes inj: "inj_on f {r \<in> set t. P r}" "distinct t" and up: "\<And>r s. Q r \<Longrightarrow> f r < f s \<Longrightarrow> Q s"
    and split: "sort_key f (filter (\<lambda>r. P r \<and> Q r) t) = xs @ x # ys"
  shows "sort_key f (filter (\<lambda>r. P r \<and> f x < f r) t) = ys"
proof -
  let ?rs = "sort_key f (filter (\<lambda>r. P r \<and> Q r) t)"
  have x: "Q x" using arg_cong [OF split, of set] by auto
  have "filter (\<lambda>r. P r \<and> f x < f r) t = filter (\<lambda>r. f x < f r) (filter (\<lambda>r. P r \<and> Q r) t)"
    using up [OF x] by (auto intro: filter_cong)
  then have "sort_key f (filter (\<lambda>r. P r \<and> f x < f r) t) = filter (\<lambda>r. f x < f r) ?rs"
    by (simp add: filter_sort)
  moreover have "sorted_wrt (<) (map f ?rs)"
    using inj by (auto simp: strict_sorted_iff distinct_map inj_on_def)
  ultimately show ?thesis using sorted_after [of f xs x ys] split by simp
qed

text \<open>The facts of a bucket that a scan relies on.\<close>

definition scannable :: "uuid_parser \<Rightarrow> string \<Rightarrow> bucket_versioning_state \<Rightarrow> queue_db \<Rightarrow> bool" where
  "scannable up b st d \<longleftrightarrow> store_ok up (qd_store d) \<and> get_versioning_state b (qd_store d) = Inr st \<and> b \<noteq> [] \<and>
     (\<forall>r \<in> set (object_versions (qd_store d)). ov_key r \<noteq> []) \<and>
     distinct (map mu_upload_id (qd_uploads d)) \<and>
     (\<forall>u \<in> set (qd_uploads d). mu_key u \<noteq> [] \<and> mu_upload_id u \<noteq> [])"

lemma scannableD:
  assumes "scannable up b st d"
  shows "store_ok up (qd_store d)" "get_versioning_state b (qd_store d) = Inr st" "b \<noteq> []" "\<And>r. r \<in> set (object_versions (qd_store d)) \<Longrightarrow> ov_key r \<noteq> []"
    "distinct (map mu_upload_id (qd_uploads d))"
    "\<And>u. u \<in> set (qd_uploads d) \<Longrightarrow> mu_key u \<noteq> [] \<and> mu_upload_id u \<noteq> []"
  using assms by (auto simp: scannable_def)

lemma store_primary_keys: "store_ok up d \<Longrightarrow> primary_keys d"
  using store_okD [of up d] by (simp add: primary_keys_def residencies_ok_def physical_ok_def)

section \<open>The candidate of a row\<close>

lemma bindR_pair_inj: "bindR m (\<lambda>x. Inr (s, x)) = bindR m' (\<lambda>x. Inr (s, x)) \<Longrightarrow> m = m'"
  by (cases m; cases m') simp_all

definition row_candidate :: "uuid_parser \<Rightarrow> bucket_versioning_state \<Rightarrow> db \<Rightarrow> object_version_model \<Rightarrow> lifecycle_candidate" where
  "row_candidate up st d r = projr (candidate_from_row up (load_facts d [(r, joined_object d r)]) st (r, joined_object d r))"

text \<open>What identifies a candidate's row: its table and its primary key.\<close>

fun candidate_row :: "lifecycle_candidate \<Rightarrow> string + string" where
  "candidate_row (VersionCandidate c) = Inl (vt_version_row_id (vc_target c))"
| "candidate_row (MultipartCandidate t) = Inr (mt_upload_id t)"

lemma evaluate_facts_ok:
  assumes ok: "store_ok up d" and r: "r \<in> set (object_versions d)" "(r, joined_object d r) \<in> set rows"
    and st: "get_versioning_state (ov_bucket r) d = Inr st"
  shows "\<exists>f. evaluate_facts (load_facts d rows) r (joined_object d r) = Inr f"
proof (cases "ov_object_id r")
  case None
  then show ?thesis
    using version_kind_of_ok store_okD(8) [OF ok r(1)]
    by (intro exI [of _ "(None, False)"]) (simp add: row_ok_def evaluate_facts_def)
next
  case (Some i)
  note row = store_okD(8) [OF ok r(1), unfolded row_ok_def]
  obtain ob where ob: "find_object i (objects d) = Some ob" "object_at (ov_bucket r) (ov_key r) ob" "obj_id ob = i"
    "ob \<in> set (objects d)" by (rule linked_object [OF ok r(1) Some])
  have kind: "ov_kind r = ''object''" using row Some by (simp add: version_checks_def)
  have joined: "joined_object d r = Some ob" using Some ob by (simp add: joined_object_def)
  have link: "content_link d r ob" using r(1) ob kind Some row by (simp add: content_link_def)
  obtain res where res: "resolve_version_residency (ov_id r) d = Inr res"
    using resolve_version_residency_total [OF store_okD(4) [OF ok] link store_okD(6,7) [OF ok]] by metis
  then obtain x where x: "find_residency (ov_id r) (version_residencies d) = Some x"
    by (auto simp: resolve_version_residency_def bindR_eq_Inr split: if_splits)
  have "evaluate_facts (load_facts d rows) r (Some ob) = Inr (residency_facts res)"
    using evaluate_resolved [OF store_primary_keys [OF ok] r(1) r(2) [unfolded joined] _ joined _ _ x] ob(2) res
      version_kind_of_ok [of r] row Some by (simp add: object_at_def)
  then show ?thesis using joined by simp
qed

lemma candidate_from_row_ok:
  assumes ok: "store_ok up d" and r: "r \<in> set (object_versions d)" "(r, joined_object d r) \<in> set rows"
    and st: "get_versioning_state (ov_bucket r) d = Inr st"
  shows "candidate_from_row up (load_facts d rows) st (r, joined_object d r) = Inr (row_candidate up st d r)"
proof -
  let ?j = "joined_object d r"
  note keys = store_primary_keys [OF ok]
  note row = store_okD(8) [OF ok r(1)]
  have single: "(r, ?j) \<in> set [(r, ?j)]" by simp
  have same: "evaluate_facts (load_facts d rows) r ?j = evaluate_facts (load_facts d [(r, ?j)]) r ?j"
    by (rule bindR_pair_inj [of _ st])
      (rule trans [OF evaluate_facts_single [OF keys r, unfolded st bindR.simps, symmetric]
        evaluate_facts_single [OF keys r(1) single, unfolded st bindR.simps]])
  obtain cls hot where f: "evaluate_facts (load_facts d [(r, ?j)]) r ?j = Inr (cls, hot)"
    using evaluate_facts_ok [OF ok r(1) single st] by (metis surj_pair)
  obtain p where p: "public_version_id_of up r = Inr p" using public_version_id_ok [OF row] by (elim exE conjE)
  have kind: "version_kind_of r = Inr (if ov_object_id r = None then DeleteMarkerKind else ObjectKind)"
    using row by (intro version_kind_of_ok) (simp add: row_ok_def)
  have "\<exists>c. candidate_from_row up (load_facts d [(r, ?j)]) st (r, ?j) = Inr c"
  proof (cases "ov_object_id r")
    case None
    then have j: "?j = None" by (simp add: joined_object_def)
    show ?thesis unfolding candidate_from_row_def case_prod_conv kind p f by (simp add: None j)
  next
    case (Some i)
    obtain ob where ob: "find_object i (objects d) = Some ob" "object_at (ov_bucket r) (ov_key r) ob" "obj_id ob = i"
      "ob \<in> set (objects d)" by (rule linked_object [OF ok r(1) Some])
    then have j: "?j = Some ob" using Some by (simp add: joined_object_def)
    show ?thesis unfolding candidate_from_row_def case_prod_conv kind p f using ob(2,3) by (simp add: Some j object_at_def)
  qed
  moreover have "candidate_from_row up (load_facts d rows) st (r, ?j) = candidate_from_row up (load_facts d [(r, ?j)]) st (r, ?j)"
    unfolding candidate_from_row_def case_prod_conv same ..
  ultimately show ?thesis by (auto simp: row_candidate_def)
qed

fun presents :: "lifecycle_candidate \<Rightarrow> object_version_model \<Rightarrow> bool" where
  "presents (VersionCandidate c) r \<longleftrightarrow> vt_bucket (vc_target c) = ov_bucket r \<and> vt_key (vc_target c) = ov_key r \<and>
     vt_version_row_id (vc_target c) = ov_id r \<and> vt_sequence (vc_target c) = ov_sequence r \<and>
     vc_is_latest c = ov_is_latest r"
| "presents (MultipartCandidate t) r \<longleftrightarrow> False"

lemma candidate_from_row_presents: "candidate_from_row up facts st (r, j) = Inr c \<Longrightarrow> presents c r"
  unfolding candidate_from_row_def case_prod_conv bindR_eq_Inr
  by (elim exE conjE) (auto simp: bindR_eq_Inr dest!: sym [of _ c] split: prod.splits)

lemma row_candidate_presents:
  assumes "store_ok up d" "r \<in> set (object_versions d)" "get_versioning_state (ov_bucket r) d = Inr st"
  shows "presents (row_candidate up st d r) r"
  by (rule candidate_from_row_presents [OF candidate_from_row_ok [OF assms(1,2) _ assms(3), of "[(r, joined_object d r)]"]]) simp

section \<open>One source\<close>

definition pending_of ::
  "uuid_parser \<Rightarrow> string \<Rightarrow> bucket_versioning_state \<Rightarrow> queue_db \<Rightarrow> lifecycle_scan_source \<Rightarrow>
   lifecycle_scan_cursor option \<Rightarrow> lifecycle_candidate list" where
  "pending_of up b st d source cursor =
     (case source of
        SourceCurrent \<Rightarrow> map (row_candidate up st (qd_store d)) (scan_version_rows (qd_store d) b True cursor)
      | SourceNoncurrent \<Rightarrow> map (row_candidate up st (qd_store d)) (scan_version_rows (qd_store d) b False cursor)
      | SourceMultipart \<Rightarrow> map upload_candidate (scan_upload_rows (qd_uploads d) b cursor))"

lemma scan_version_rows_set: "set (scan_version_rows d b latest cursor) \<subseteq> {r \<in> set (object_versions d). ov_bucket r = b \<and> ov_is_latest r = latest}"
  by (auto simp: scan_version_rows_def)

lemma version_page_ok:
  assumes sc: "scannable up b st d" and cached: "cached = None \<or> cached = Some st"
  shows "\<exists>cached'. (cached' = None \<or> cached' = Some st) \<and> version_page up b latest cursor n cached (qd_store d) =
    Inr (map (row_candidate up st (qd_store d)) (take n (scan_version_rows (qd_store d) b latest cursor)), cached')"
proof (cases "take n (scan_version_rows (qd_store d) b latest cursor)")
  case Nil
  show ?thesis unfolding version_page_def Nil using cached by (intro exI [of _ cached]) simp
next
  case (Cons r rs)
  let ?d = "qd_store d" and ?row = "\<lambda>r. (r, joined_object (qd_store d) r)"
  note ok = scannableD(1) [OF sc]
  have rows: "s \<in> set (object_versions ?d)" "ov_bucket s = b" if "s \<in> set (r # rs)" for s
    using that set_take_subset [of n "scan_version_rows ?d b latest cursor"] scan_version_rows_set [of ?d b latest cursor]
    unfolding Cons by blast+
  have row: "row_ok up (map bucket_name (buckets ?d)) r" by (rule store_okD(8) [OF ok rows(1)]) simp
  obtain p where p: "public_version_id_of up r = Inr p" using public_version_id_ok [OF row] by (elim exE conjE)
  have kind: "version_kind_of r = Inr (if ov_object_id r = None then DeleteMarkerKind else ObjectKind)"
    using row by (intro version_kind_of_ok) (simp add: row_ok_def)
  have each: "candidate_from_row up (load_facts ?d (map ?row (r # rs))) st q = Inr (row_candidate up st ?d (fst q))"
    if "q \<in> set (map ?row (r # rs))" for q
  proof -
    from that obtain s where s: "q = ?row s" "s \<in> set (r # rs)" unfolding set_map by (rule imageE)
    show ?thesis unfolding s(1) fst_conv
    proof (rule candidate_from_row_ok [OF ok rows(1) [OF s(2)]])
      show "?row s \<in> set (map ?row (r # rs))" using s(2) unfolding set_map by (rule imageI)
      show "get_versioning_state (ov_bucket s) ?d = Inr st" unfolding rows(2) [OF s(2)] by (rule scannableD(2) [OF sc])
    qed
  qed
  have candidates: "traverse_list (candidate_from_row up (load_facts ?d (map ?row (r # rs))) st) (map ?row (r # rs)) =
      Inr (map (\<lambda>q. row_candidate up st ?d (fst q)) (map ?row (r # rs)))"
    by (rule traverse_list_map_Inr) (rule each)
  have state: "(case cached of Some s \<Rightarrow> Inr s | None \<Rightarrow> get_versioning_state b ?d) = Inr st"
    using cached scannableD(2) [OF sc] by (elim disjE) simp_all
  show ?thesis
    unfolding version_page_def Cons list.case Let_def kind p state bindR.simps candidates
    by (intro exI [of _ "Some st"]) (simp add: comp_def)
qed

lemma source_page_ok:
  assumes "scannable up b st d" "cached = None \<or> cached = Some st"
  shows "\<exists>cached'. (cached' = None \<or> cached' = Some st) \<and>
    source_page up b source cursor n cached d = Inr (take n (pending_of up b st d source cursor), cached')"
  using version_page_ok [OF assms, of True cursor n] version_page_ok [OF assms, of False cursor n] assms(2)
  by (cases source) (simp_all add: source_page_def pending_of_def take_map)

lemma source_has_after_iff: "source_has_after b source cursor d \<longleftrightarrow> pending_of up b st d source cursor \<noteq> []"
  by (cases source) (simp_all add: source_has_after_def pending_of_def)

text \<open>A cursor admits the rows behind it in the order of its source.\<close>

definition cursor_of_source :: "string \<Rightarrow> lifecycle_scan_source \<Rightarrow> lifecycle_scan_cursor option \<Rightarrow> bool" where
  "cursor_of_source b source cursor \<longleftrightarrow>
     (case cursor of None \<Rightarrow> True | Some c \<Rightarrow> lc_source c = source \<and> validate_cursor c b = Inr ())"

text \<open>
  Both kinds of sources page in the same way: rows in a strict order, and a cursor that stands for
  a bound in this order.
\<close>

locale ordered_source =
  fixes order :: "'r \<Rightarrow> 'k :: linorder"
    and bound :: "lifecycle_scan_cursor \<Rightarrow> 'k option"
    and after :: "lifecycle_scan_cursor \<Rightarrow> 'r \<Rightarrow> bool"
  assumes after_bound: "bound c = Some k \<Longrightarrow> after c r \<longleftrightarrow> k < order r"
begin

lemma rows_continue:
  assumes keys: "inj_on order {r \<in> set t. P r}" "distinct t"
    and cursor: "case cursor of None \<Rightarrow> True | Some c \<Rightarrow> bound c \<noteq> None"
    and rows: "sort_key order (filter (\<lambda>r. P r \<and> (case cursor of None \<Rightarrow> True | Some c \<Rightarrow> after c r)) t) = xs @ r # ys"
    and c: "bound c = Some (order r)"
  shows "sort_key order (filter (\<lambda>s. P s \<and> after c s) t) = ys"
proof -
  let ?Q = "\<lambda>r. case cursor of None \<Rightarrow> True | Some c \<Rightarrow> after c r"
  have up: "?Q s" if "?Q r" "order r < order s" for r s
    using cursor that by (cases cursor) (auto simp: after_bound)
  show ?thesis
    unfolding after_bound [OF c] by (rule rows_after [OF keys up rows])
qed

end

definition version_bound :: "lifecycle_scan_cursor \<Rightarrow> (string \<times> int \<times> string) option" where
  "version_bound c = (case (lc_sequence c, lc_version_row_id c) of (Some s, Some v) \<Rightarrow> Some (lc_key c, s, v) | _ \<Rightarrow> None)"

definition upload_bound :: "lifecycle_scan_cursor \<Rightarrow> (string \<times> datetime \<times> string) option" where
  "upload_bound c = (case (lc_multipart_created_at c, lc_multipart_upload_id c) of
     (Some t, Some u) \<Rightarrow> Some (lc_key c, t, u) | _ \<Rightarrow> None)"

interpretation version_source: ordered_source scan_order version_bound version_tuple_after
  by unfold_locales (auto simp: version_bound_def version_tuple_after_def scan_order_def less_prod_def split: option.splits)

interpretation upload_source: ordered_source upload_order upload_bound multipart_tuple_after
  by unfold_locales (auto simp: upload_bound_def multipart_tuple_after_def upload_order_def less_prod_def split: option.splits)

lemma validate_cursor_bound:
  assumes "validate_cursor c b = Inr ()"
  shows "lc_source c \<noteq> SourceMultipart \<Longrightarrow> version_bound c \<noteq> None"
    and "lc_source c = SourceMultipart \<Longrightarrow> upload_bound c \<noteq> None"
  using assms
  by (auto simp: validate_cursor_def version_bound_def upload_bound_def split: if_splits option.splits lifecycle_scan_source.splits)

lemma version_rows_continue:
  assumes "distinct (map ov_id (object_versions d))" "case cursor of None \<Rightarrow> True | Some c \<Rightarrow> version_bound c \<noteq> None"
    and "scan_version_rows d b latest cursor = xs @ r # ys" "version_bound c = Some (scan_order r)"
  shows "scan_version_rows d b latest (Some c) = ys"
proof -
  have "inj_on scan_order {r \<in> set (object_versions d). ov_bucket r = b \<and> ov_is_latest r = latest}"
    using assms(1) by (auto simp: distinct_map inj_on_def scan_order_def)
  moreover have "distinct (object_versions d)" using assms(1) by (simp add: distinct_map)
  ultimately show ?thesis
    using version_source.rows_continue [where P = "\<lambda>r. ov_bucket r = b \<and> ov_is_latest r = latest", OF _ _ assms(2) _ assms(4)]
      assms(3) by (simp add: scan_version_rows_def)
qed

lemma upload_rows_continue:
  assumes "distinct (map mu_upload_id t)" "case cursor of None \<Rightarrow> True | Some c \<Rightarrow> upload_bound c \<noteq> None"
    and "scan_upload_rows t b cursor = xs @ r # ys" "upload_bound c = Some (upload_order r)"
  shows "scan_upload_rows t b (Some c) = ys"
proof -
  have "inj_on upload_order {r \<in> set t. mu_bucket r = b}"
    using assms(1) by (auto simp: distinct_map inj_on_def upload_order_def)
  moreover have "distinct t" using assms(1) by (simp add: distinct_map)
  ultimately show ?thesis
    using upload_source.rows_continue [where P = "\<lambda>r. mu_bucket r = b", OF _ _ assms(2) _ assms(4)]
      assms(3) by (simp add: scan_upload_rows_def)
qed

lemma cursor_for_presented:
  assumes "presents c r"
  shows "lc_source (cursor_for source c) = source" "lc_bucket (cursor_for source c) = ov_bucket r"
    "lc_key (cursor_for source c) = ov_key r" "lc_sequence (cursor_for source c) = Some (ov_sequence r)"
    "lc_version_row_id (cursor_for source c) = Some (ov_id r)" "lc_multipart_created_at (cursor_for source c) = None"
    "lc_multipart_upload_id (cursor_for source c) = None"
  using assms by (cases c; simp)+

lemma map_split_rows: "map f rows = xs @ x # ys \<Longrightarrow> \<exists>xs' r ys'. rows = xs' @ r # ys' \<and> x = f r \<and> map f ys' = ys \<and> map f xs' = xs"
  by (auto simp: map_eq_append_conv map_eq_Cons_conv)

lemma cursor_for_upload:
  "lc_source (cursor_for source (upload_candidate u)) = source"
  "upload_bound (cursor_for source (upload_candidate u)) = Some (upload_order u)"
  by (simp_all add: upload_candidate_def upload_bound_def upload_order_def)

lemma cursor_for_version: "presents c r \<Longrightarrow> version_bound (cursor_for source c) = Some (scan_order r)"
  by (simp add: version_bound_def cursor_for_presented scan_order_def)

lemma version_row_presented:
  assumes sc: "scannable up b st d" and r: "r \<in> set (scan_version_rows (qd_store d) b latest cursor)"
  shows "presents (row_candidate up st (qd_store d) r) r" "ov_bucket r = b" "ov_is_latest r = latest"
    "r \<in> set (object_versions (qd_store d))"
proof -
  show m: "ov_bucket r = b" "ov_is_latest r = latest" "r \<in> set (object_versions (qd_store d))"
    using subsetD [OF scan_version_rows_set r] by simp_all
  show "presents (row_candidate up st (qd_store d) r) r"
    using m scannableD(2) [OF sc] by (intro row_candidate_presents [OF scannableD(1) [OF sc]]) simp_all
qed

lemma version_cursor_valid:
  assumes sc: "scannable up b st d" and r: "r \<in> set (scan_version_rows (qd_store d) b latest cursor)"
    and source: "source \<noteq> SourceMultipart"
  shows "validate_cursor (cursor_for source (row_candidate up st (qd_store d) r)) b = Inr ()"
proof -
  note row = version_row_presented [OF sc r]
  have "ov_key r \<noteq> []" "ov_id r \<noteq> []" "0 < ov_sequence r"
    using scannableD(4) [OF sc row(4)] store_okD(8) [OF scannableD(1) [OF sc] row(4)] by (simp_all add: row_ok_def)
  then show ?thesis
    using source row(2) scannableD(3) [OF sc]
    unfolding validate_cursor_def cursor_for_presented [OF row(1)] by (cases source) simp_all
qed

lemma upload_cursor_valid:
  assumes sc: "scannable up b st d" and u: "u \<in> set (scan_upload_rows (qd_uploads d) b cursor)"
  shows "validate_cursor (cursor_for SourceMultipart (upload_candidate u)) b = Inr ()"
  using u scannableD(3,6) [OF sc] by (auto simp: validate_cursor_def upload_candidate_def scan_upload_rows_def)

lemma pending_cursor:
  assumes sc: "scannable up b st d" and x: "x \<in> set (pending_of up b st d source cursor)"
  shows "cursor_of_source b source (Some (cursor_for source x))"
proof (cases source)
  case SourceMultipart
  then show ?thesis using x upload_cursor_valid [OF sc]
    by (auto simp: pending_of_def cursor_of_source_def cursor_for_upload)
next
  case SourceCurrent
  then show ?thesis using x version_cursor_valid [OF sc] cursor_for_presented(1) [OF version_row_presented(1) [OF sc]]
    by (auto simp: pending_of_def cursor_of_source_def)
next
  case SourceNoncurrent
  then show ?thesis using x version_cursor_valid [OF sc] cursor_for_presented(1) [OF version_row_presented(1) [OF sc]]
    by (auto simp: pending_of_def cursor_of_source_def)
qed

lemma pending_continue_versions:
  assumes sc: "scannable up b st d"
    and cursor: "case cursor of None \<Rightarrow> True | Some c \<Rightarrow> version_bound c \<noteq> None"
    and split: "map (row_candidate up st (qd_store d)) (scan_version_rows (qd_store d) b latest cursor) = xs @ x # ys"
  shows "map (row_candidate up st (qd_store d)) (scan_version_rows (qd_store d) b latest (Some (cursor_for source x))) = ys"
proof -
  from map_split_rows [OF split] obtain xs' r ys' where rows: "scan_version_rows (qd_store d) b latest cursor = xs' @ r # ys'"
    "x = row_candidate up st (qd_store d) r" "map (row_candidate up st (qd_store d)) ys' = ys"
    by (elim exE conjE) (rule that)
  have "presents x r"
    unfolding rows(2) by (rule version_row_presented(1) [OF sc, of _ latest cursor]) (simp add: rows(1))
  then show ?thesis
    using version_rows_continue [OF store_okD(6) [OF scannableD(1) [OF sc]] cursor rows(1) cursor_for_version] rows(3) by simp
qed

lemma pending_continue:
  assumes sc: "scannable up b st d" and cursor: "cursor_of_source b source cursor"
    and split: "pending_of up b st d source cursor = xs @ x # ys"
  shows "pending_of up b st d source (Some (cursor_for source x)) = ys"
proof (cases "source = SourceMultipart")
  case True
  have bound: "case cursor of None \<Rightarrow> True | Some c \<Rightarrow> upload_bound c \<noteq> None"
    using cursor True validate_cursor_bound(2) [of "the cursor" b] by (cases cursor) (simp_all add: cursor_of_source_def)
  from split True obtain xs' u ys' where rows: "scan_upload_rows (qd_uploads d) b cursor = xs' @ u # ys'"
    "x = upload_candidate u" "map upload_candidate ys' = ys"
    by (auto simp: pending_of_def dest!: map_split_rows)
  then show ?thesis
    using upload_rows_continue [OF scannableD(5) [OF sc] bound rows(1) cursor_for_upload(2)] True by (simp add: pending_of_def)
next
  case False
  have bound: "case cursor of None \<Rightarrow> True | Some c \<Rightarrow> version_bound c \<noteq> None"
    using cursor False validate_cursor_bound(1) [of "the cursor" b] by (cases cursor) (simp_all add: cursor_of_source_def)
  show ?thesis
    using False split pending_continue_versions [OF sc bound] by (cases source) (simp_all add: pending_of_def)
qed

lemma source_exhausted_iff:
  assumes sc: "scannable up b st d" and cursor: "cursor_of_source b source cursor" and n: "0 < n"
  shows "source_exhausted_after b source (take n (pending_of up b st d source cursor)) n d \<longleftrightarrow>
    length (pending_of up b st d source cursor) \<le> n"
proof (cases "length (pending_of up b st d source cursor) < n")
  case True
  then show ?thesis by (simp add: source_exhausted_after_def)
next
  case False
  let ?p = "pending_of up b st d source cursor"
  have p: "?p = take (n - 1) ?p @ ?p ! (n - 1) # drop n ?p"
    using False n id_take_nth_drop [of "n - 1" ?p] by simp
  have last: "last_of (take n ?p) = Some (?p ! (n - 1))"
    using False n by (simp add: last_of_def last_conv_nth min_absorb2) auto
  have "source_has_after b source (Some (cursor_for source (?p ! (n - 1)))) d \<longleftrightarrow> drop n ?p \<noteq> []"
    unfolding source_has_after_iff [of b source _ d up st] pending_continue [OF sc cursor p] ..
  then show ?thesis using False by (simp add: source_exhausted_after_def last)
qed

section \<open>One page\<close>

definition source_cursor :: "lifecycle_scan_cursor option \<Rightarrow> lifecycle_scan_source \<Rightarrow> lifecycle_scan_cursor option" where
  "source_cursor cursor source = (case cursor of Some c \<Rightarrow> if lc_source c = source then Some c else None | None \<Rightarrow> None)"

text \<open>What is pending in some sources, each candidate with its source.\<close>

definition pending_in ::
  "uuid_parser \<Rightarrow> string \<Rightarrow> bucket_versioning_state \<Rightarrow> queue_db \<Rightarrow> lifecycle_scan_cursor option \<Rightarrow>
   lifecycle_scan_source list \<Rightarrow> (lifecycle_scan_source \<times> lifecycle_candidate) list" where
  "pending_in up b st d cursor sources =
     concat (map (\<lambda>s. map (Pair s) (pending_of up b st d s (source_cursor cursor s))) sources)"

lemma pending_in_simps [simp]:
  "pending_in up b st d cursor [] = []"
  "pending_in up b st d cursor (s # ss) = map (Pair s) (pending_of up b st d s (source_cursor cursor s)) @ pending_in up b st d cursor ss"
  by (simp_all add: pending_in_def)

definition scanned :: "(lifecycle_scan_source \<times> lifecycle_candidate) list \<Rightarrow> scan_state \<Rightarrow> bool" where
  "scanned t s \<longleftrightarrow> ss_candidates s = map snd t \<and> ss_last_source s = map_option fst (last_of t)"

lemma last_of_append: "last_of (xs @ ys) = (if ys = [] then last_of xs else Some (last ys))"
  by (simp add: last_of_def)

lemma list_ex_after: "list_ex (\<lambda>s. source_has_after b s None d) ss \<longleftrightarrow> (\<exists>s \<in> set ss. pending_of up b st d s None \<noteq> [])"
  by (simp add: list_ex_iff source_has_after_iff [of b _ None d up st])

lemma scan_sources_full:
  assumes "length (ss_candidates s) = limit" "\<forall>y \<in> set (x # xs). source_cursor cursor y = None"
  shows "scan_sources up b cursor limit d s (x # xs) = Inr (s\<lparr>ss_cycle_complete := pending_in up b st d cursor (x # xs) = []\<rparr>)"
proof -
  have "pending_in up b st d cursor (x # xs) = [] \<longleftrightarrow> (\<forall>y \<in> set (x # xs). pending_of up b st d y None = [])"
    using assms(2) by (auto simp: pending_in_def)
  then have finished: "(\<not> list_ex (\<lambda>s. source_has_after b s None d) (x # xs)) \<longleftrightarrow> pending_in up b st d cursor (x # xs) = []"
    unfolding list_ex_after [of b d _ up st] by (simp only: bex_simps not_not)
  have "limit - length (ss_candidates s) = 0" using assms(1) by simp
  then show ?thesis
    unfolding finished [symmetric] scan_sources.simps Let_def by (rule if_P)
qed

definition with_page ::
  "scan_state \<Rightarrow> lifecycle_scan_source \<Rightarrow> lifecycle_candidate list \<Rightarrow> bucket_versioning_state option \<Rightarrow> scan_state" where
  "with_page s source page state = s\<lparr>ss_candidates := ss_candidates s @ page,
     ss_last_source := (if page \<noteq> [] then Some source else ss_last_source s), ss_bucket_state := state\<rparr>"

lemma with_page_sel [simp]:
  "ss_cycle_complete (with_page s x page c) = ss_cycle_complete s" "ss_bucket_state (with_page s x page c) = c"
  by (simp_all add: with_page_def)

lemma scanned_page: "scanned t s \<Longrightarrow> scanned (t @ map (Pair x) page) (with_page s x page c)"
  by (simp add: scanned_def with_page_def last_of_append last_map comp_def)

lemma scan_sources_step:
  assumes sc: "scannable up b st d" and cached: "ss_bucket_state s = None \<or> ss_bucket_state s = Some st"
    and cursor: "cursor_of_source b x (source_cursor cursor x)" and n: "n = limit - length (ss_candidates s)" "0 < n"
    and p: "p = pending_of up b st d x (source_cursor cursor x)"
  shows "\<exists>c. (c = None \<or> c = Some st) \<and> scan_sources up b cursor limit d s (x # xs) =
    (if \<not> length p \<le> n then Inr (with_page s x (take n p) c)
     else if x = SourceMultipart then Inr ((with_page s x (take n p) c)\<lparr>ss_cycle_complete := True\<rparr>)
     else scan_sources up b cursor limit d (with_page s x (take n p) c) xs)"
proof -
  from source_page_ok [OF sc cached, of x "source_cursor cursor x" n, folded p] obtain c where c: "c = None \<or> c = Some st"
    and page: "source_page up b x (source_cursor cursor x) n (ss_bucket_state s) d = Inr (take n p, c)"
    by (elim exE conjE) (rule that)
  have exhausted: "source_exhausted_after b x (take n p) n d \<longleftrightarrow> length p \<le> n"
    unfolding p by (rule source_exhausted_iff [OF sc cursor n(2)])
  show ?thesis
    using c n(2) page [unfolded source_cursor_def n(1)] exhausted [unfolded n(1)]
    by (intro exI [of _ c]) (simp add: Let_def n(1) with_page_def)
qed

lemma scan_sources_ok:
  assumes sc: "scannable up b st d" and "scanned t s" "length t \<le> limit" "\<not> ss_cycle_complete s"
    and "ss_bucket_state s = None \<or> ss_bucket_state s = Some st"
    and "sources \<noteq> []" "last sources = SourceMultipart" "distinct sources"
    and "\<forall>x \<in> set sources. cursor_of_source b x (source_cursor cursor x)"
    and "\<forall>x \<in> set (tl sources). source_cursor cursor x = None"
    and "length t = limit \<longrightarrow> (\<forall>x \<in> set sources. source_cursor cursor x = None)"
  shows "\<exists>s'. scan_sources up b cursor limit d s sources = Inr s' \<and>
    scanned (take limit (t @ pending_in up b st d cursor sources)) s' \<and>
    (ss_cycle_complete s' \<longleftrightarrow> length (t @ pending_in up b st d cursor sources) \<le> limit)"
  using assms(2-)
proof (induction sources arbitrary: s t)
  case (Cons x xs)
  let ?n = "limit - length t" and ?p = "pending_of up b st d x (source_cursor cursor x)"
  have len: "length (ss_candidates s) = length t" using Cons.prems(1) by (simp add: scanned_def)
  show ?case
  proof (cases "?n = 0")
    case True
    then have full: "length t = limit" using Cons.prems(2) by simp
    show ?thesis
      using scan_sources_full [of s limit x xs cursor up b d st] full len Cons.prems(1,10)
      by (simp add: scanned_def del: pending_in_simps)
  next
    case False
    have "cursor_of_source b x (source_cursor cursor x)" using Cons.prems(8) by simp
    from scan_sources_step [OF sc Cons.prems(4) this _ _ refl, of ?n limit xs] False len obtain c where
      c: "c = None \<or> c = Some st" and step: "scan_sources up b cursor limit d s (x # xs) =
        (if \<not> length ?p \<le> ?n then Inr (with_page s x (take ?n ?p) c)
         else if x = SourceMultipart then Inr ((with_page s x (take ?n ?p) c)\<lparr>ss_cycle_complete := True\<rparr>)
         else scan_sources up b cursor limit d (with_page s x (take ?n ?p) c) xs)"
      by (simp del: scan_sources.simps) (elim exE conjE, rule that)
    let ?s = "with_page s x (take ?n ?p) c"
    have sofar: "scanned (t @ map (Pair x) (take ?n ?p)) ?s" by (rule scanned_page [OF Cons.prems(1)])
    consider "length ?p > ?n" | "length ?p \<le> ?n" "x = SourceMultipart" | "length ?p \<le> ?n" "x \<noteq> SourceMultipart"
      by linarith
    then show ?thesis
    proof cases
      case 1
      have "take limit (t @ pending_in up b st d cursor (x # xs)) = t @ map (Pair x) (take ?n ?p)"
        using 1 Cons.prems(2) by (simp add: take_map)
      then show ?thesis using 1 step sofar Cons.prems(3) by simp
    next
      case 2
      have "SourceMultipart \<in> set xs" if "xs \<noteq> []" using last_in_set [OF that] Cons.prems(6) that by (metis last_ConsR)
      then have "xs = []" using 2(2) Cons.prems(7) by auto
      then show ?thesis using 2 step sofar Cons.prems(2) by (simp add: scanned_def)
    next
      case 3
      have ne: "xs \<noteq> []" using 3(2) Cons.prems(6) by auto
      have "\<exists>s'. scan_sources up b cursor limit d ?s xs = Inr s' \<and>
          scanned (take limit ((t @ map (Pair x) (take ?n ?p)) @ pending_in up b st d cursor xs)) s' \<and>
          (ss_cycle_complete s' \<longleftrightarrow> length ((t @ map (Pair x) (take ?n ?p)) @ pending_in up b st d cursor xs) \<le> limit)"
      proof (rule Cons.IH [OF sofar])
        show "\<forall>y \<in> set (tl xs). source_cursor cursor y = None" using Cons.prems(9) by (cases xs) auto
      qed (use ne c Cons.prems 3 in auto)
      then show ?thesis using 3 step by simp
    qed
  qed
qed simp

definition valid_cursor :: "string \<Rightarrow> lifecycle_scan_cursor option \<Rightarrow> bool" where
  "valid_cursor b cursor \<longleftrightarrow> (case cursor of None \<Rightarrow> True | Some c \<Rightarrow> validate_cursor c b = Inr ())"

definition pending ::
  "uuid_parser \<Rightarrow> string \<Rightarrow> bucket_versioning_state \<Rightarrow> queue_db \<Rightarrow> lifecycle_scan_cursor option \<Rightarrow>
   (lifecycle_scan_source \<times> lifecycle_candidate) list" where
  "pending up b st d cursor = pending_in up b st d cursor (scan_sources_from cursor)"

text \<open>The sources from a cursor on: its own source, and later ones without a cursor.\<close>

lemma scan_sources_from_split:
  "\<exists>s ss. scan_sources_from cursor = s # ss \<and> (case cursor of None \<Rightarrow> True | Some c \<Rightarrow> lc_source c = s) \<and>
     (\<forall>x \<in> set ss. source_cursor cursor x = None) \<and> distinct (s # ss) \<and> last (s # ss) = SourceMultipart"
proof (cases cursor)
  case (Some c)
  then show ?thesis by (cases "lc_source c") (simp_all add: scan_sources_from_def source_cursor_def)
qed (simp add: scan_sources_from_def source_cursor_def)

lemma cursor_of_source_cursor: "valid_cursor b cursor \<Longrightarrow> cursor_of_source b s (source_cursor cursor s)"
  by (cases cursor) (simp_all add: valid_cursor_def cursor_of_source_def source_cursor_def)

lemma scan_candidate_page_ok:
  assumes sc: "scannable up b st d" and cursor: "valid_cursor b cursor"
    and limit: "0 < limit" "limit \<le> MAX_LIFECYCLE_SCAN_PAGE_SIZE"
  shows "scan_candidate_page up b cursor limit d = Inr
    \<lparr>cp_candidates = map snd (take limit (pending up b st d cursor)),
     cp_next_cursor = map_option (\<lambda>(s, x). cursor_for s x) (last_of (take limit (pending up b st d cursor))),
     cp_cycle_complete = (length (pending up b st d cursor) \<le> limit)\<rparr>"
proof -
  let ?s0 = "\<lparr>ss_candidates = [], ss_last_source = None, ss_cycle_complete = False, ss_bucket_state = None\<rparr>"
  let ?t = "take limit (pending up b st d cursor)"
  from scan_sources_from_split [of cursor] obtain s ss where sources: "scan_sources_from cursor = s # ss"
    "\<forall>x \<in> set ss. source_cursor cursor x = None" "distinct (s # ss)" "last (s # ss) = SourceMultipart"
    by (elim exE conjE) (rule that)
  have "\<exists>s'. scan_sources up b cursor limit d ?s0 (s # ss) = Inr s' \<and>
      scanned (take limit ([] @ pending_in up b st d cursor (s # ss))) s' \<and>
      (ss_cycle_complete s' \<longleftrightarrow> length ([] @ pending_in up b st d cursor (s # ss)) \<le> limit)"
  proof (rule scan_sources_ok [OF sc])
    show "\<forall>x \<in> set (s # ss). cursor_of_source b x (source_cursor cursor x)"
      using cursor_of_source_cursor [OF cursor] by (rule ballI)
  qed (use sources limit in \<open>simp_all add: scanned_def last_of_def\<close>)
  then have "\<exists>s'. scan_sources up b cursor limit d ?s0 (scan_sources_from cursor) = Inr s' \<and> scanned ?t s' \<and>
      (ss_cycle_complete s' \<longleftrightarrow> length (pending up b st d cursor) \<le> limit)"
    unfolding pending_def sources(1) append_Nil .
  then obtain s' where s': "scan_sources up b cursor limit d ?s0 (scan_sources_from cursor) = Inr s'" "scanned ?t s'"
    "ss_cycle_complete s' \<longleftrightarrow> length (pending up b st d cursor) \<le> limit"
    by (elim exE conjE) (rule that)
  have valid: "(case cursor of None \<Rightarrow> Inr () | Some c \<Rightarrow> validate_cursor c b) = Inr ()"
    using cursor by (cases cursor) (simp_all add: valid_cursor_def)
  have next_cursor: "(case (ss_last_source s', last_of (ss_candidates s')) of
      (Some source, Some candidate) \<Rightarrow> Some (cursor_for source candidate) | _ \<Rightarrow> None) =
    map_option (\<lambda>(s, x). cursor_for s x) (last_of ?t)"
    using s'(2) by (simp add: scanned_def last_of_def last_map case_prod_beta)
  show ?thesis
    using limit s'(2,3) unfolding scan_candidate_page_def valid s'(1) bindR.simps next_cursor
    by (simp add: scanned_def)
qed

lemma pending_in_split:
  assumes "pending_in up b st d cursor sources = xs @ (s, x) # ys" "distinct sources"
  shows "\<exists>pre post us vs. sources = pre @ s # post \<and> pending_of up b st d s (source_cursor cursor s) = us @ x # vs \<and>
    ys = map (Pair s) vs @ pending_in up b st d cursor post"
  using assms
proof (induction sources arbitrary: xs)
  case (Cons y sources)
  let ?p = "pending_of up b st d y (source_cursor cursor y)"
  show ?case
  proof (cases "length xs < length ?p")
    case True
    then have "xs = take (length xs) (map (Pair y) ?p)" "(s, x) # ys = drop (length xs) (map (Pair y) ?p) @ pending_in up b st d cursor sources"
      using Cons.prems(1) by (simp_all add: append_eq_append_conv_if)
    moreover have "drop (length xs) ?p = ?p ! length xs # drop (Suc (length xs)) ?p"
      using True by (simp add: Cons_nth_drop_Suc)
    ultimately have "s = y" "x = ?p ! length xs" "ys = map (Pair y) (drop (Suc (length xs)) ?p) @ pending_in up b st d cursor sources"
      by (simp_all add: drop_map)
    moreover have "?p = take (length xs) ?p @ ?p ! length xs # drop (Suc (length xs)) ?p"
      using True by (rule id_take_nth_drop)
    ultimately show ?thesis
      by (intro exI [of _ "[]"] exI [of _ sources] exI [of _ "take (length xs) ?p"] exI [of _ "drop (Suc (length xs)) ?p"]) simp
  next
    case False
    then have "pending_in up b st d cursor sources = drop (length ?p) xs @ (s, x) # ys"
      using Cons.prems(1) by (simp add: append_eq_append_conv_if)
    from Cons.IH [OF this] Cons.prems(2) obtain pre post us vs where "sources = pre @ s # post"
      "pending_of up b st d s (source_cursor cursor s) = us @ x # vs" "ys = map (Pair s) vs @ pending_in up b st d cursor post"
      by auto
    then show ?thesis by (intro exI [of _ "y # pre"] exI [of _ post] exI [of _ us] exI [of _ vs]) simp
  qed
qed simp

section \<open>The cycle\<close>

lemma scan_sources_from_source: "lc_source c = s \<Longrightarrow> scan_sources_from cursor = pre @ s # post \<Longrightarrow> scan_sources_from (Some c) = s # post"
  by (cases cursor; cases "lc_source (the cursor)"; cases s)
    (auto simp: scan_sources_from_def append_eq_Cons_conv Cons_eq_append_conv)

lemma pending_in_no_cursor:
  assumes "\<forall>x \<in> set ss. source_cursor c1 x = source_cursor c2 x"
  shows "pending_in up b st d c1 ss = pending_in up b st d c2 ss"
  using assms by (simp add: pending_in_def cong: map_cong)

text \<open>The cursor of a pending candidate is valid and leads exactly to what is pending behind it.\<close>

lemma pending_resume:
  assumes sc: "scannable up b st d" and cursor: "valid_cursor b cursor"
    and split: "pending up b st d cursor = xs @ (s, x) # ys"
  shows "pending up b st d (Some (cursor_for s x)) = ys" "valid_cursor b (Some (cursor_for s x))"
proof -
  let ?c = "cursor_for s x"
  from scan_sources_from_split [of cursor] obtain y zs where sources: "scan_sources_from cursor = y # zs"
    "\<forall>x \<in> set zs. source_cursor cursor x = None" "distinct (y # zs)" by (elim exE conjE) (rule that)
  from pending_in_split [OF split [unfolded pending_def sources(1)] sources(3)] obtain pre post us vs where
    post: "y # zs = pre @ s # post" "pending_of up b st d s (source_cursor cursor s) = us @ x # vs"
    "ys = map (Pair s) vs @ pending_in up b st d cursor post" by (elim exE conjE) (rule that)
  have valid: "cursor_of_source b s (Some ?c)" 
    by (rule pending_cursor [OF sc, of _ _ "source_cursor cursor s"]) (simp add: post(2))
  then have c: "lc_source ?c = s" "validate_cursor ?c b = Inr ()" by (simp_all add: cursor_of_source_def)
  show "valid_cursor b (Some ?c)" using c(2) by (simp add: valid_cursor_def)
  have resumed: "pending_of up b st d s (Some ?c) = vs"
    by (rule pending_continue [OF sc cursor_of_source_cursor [OF cursor] post(2)])
  have "set post \<subseteq> set zs" using post(1) by (cases pre) auto
  moreover have "s \<notin> set post" using post(1) sources(3) by (metis distinct.simps(2) distinct_append)
  ultimately have "pending_in up b st d (Some ?c) post = pending_in up b st d cursor post"
    using sources(2) c(1) by (intro pending_in_no_cursor) (auto simp: source_cursor_def)
  moreover have "scan_sources_from (Some ?c) = s # post"
    by (rule scan_sources_from_source [OF c(1), of cursor pre]) (simp add: sources(1) post(1))
  ultimately show "pending up b st d (Some ?c) = ys"
    using resumed post(3) c(1) by (simp add: pending_def source_cursor_def [of "Some ?c" s])
qed

text \<open>Following the cursors from page to page until a page reports the cycle complete.\<close>

fun scan_cycle ::
  "uuid_parser \<Rightarrow> string \<Rightarrow> nat \<Rightarrow> queue_db \<Rightarrow> nat \<Rightarrow> lifecycle_scan_cursor option \<Rightarrow> lifecycle_candidate list option" where
  "scan_cycle up b limit d 0 cursor = None"
| "scan_cycle up b limit d (Suc n) cursor =
     (case scan_candidate_page up b cursor limit d of
        Inl _ \<Rightarrow> None
      | Inr page \<Rightarrow>
          if cp_cycle_complete page then Some (cp_candidates page)
          else map_option (\<lambda>cs. cp_candidates page @ cs) (scan_cycle up b limit d n (cp_next_cursor page)))"

lemma scan_cycle_pending:
  assumes sc: "scannable up b st d" and limit: "0 < limit" "limit \<le> MAX_LIFECYCLE_SCAN_PAGE_SIZE"
  shows "valid_cursor b cursor \<Longrightarrow> length (pending up b st d cursor) < fuel \<Longrightarrow>
    scan_cycle up b limit d fuel cursor = Some (map snd (pending up b st d cursor))"
proof (induction fuel arbitrary: cursor)
  case (Suc n)
  let ?p = "pending up b st d cursor"
  note page = scan_candidate_page_ok [OF sc Suc.prems(1) limit]
  show ?case
  proof (cases "length ?p \<le> limit")
    case True
    then show ?thesis by (simp add: page)
  next
    case False
    obtain s x where x: "?p ! (limit - 1) = (s, x)" by (cases "?p ! (limit - 1)")
    then have split: "?p = take (limit - 1) ?p @ (s, x) # drop limit ?p"
      using False limit(1) id_take_nth_drop [of "limit - 1" ?p] by simp
    have last: "last_of (take limit ?p) = Some (s, x)"
      using False limit(1) x by (auto simp: last_of_def last_conv_nth min_absorb2)
    note resume = pending_resume [OF sc Suc.prems(1) split]
    have "scan_cycle up b limit d n (Some (cursor_for s x)) = Some (map snd (drop limit ?p))"
      using Suc.IH [OF resume(2)] resume(1) Suc.prems(2) limit(1) False by simp
    then show ?thesis using False by (simp add: page last) (simp flip: map_append)
  qed
qed simp

lemma candidate_row_presented: "presents c r \<Longrightarrow> candidate_row c = Inl (ov_id r)"
  by (cases c) simp_all

lemma candidate_row_version_rows:
  assumes "scannable up b st d"
  shows "map candidate_row (map (row_candidate up st (qd_store d)) (scan_version_rows (qd_store d) b latest cursor)) =
    map (\<lambda>r. Inl (ov_id r)) (scan_version_rows (qd_store d) b latest cursor)"
  using version_row_presented(1) [OF assms] candidate_row_presented by (simp add: comp_def)

lemma candidate_row_upload: "candidate_row (upload_candidate u) = Inr (mu_upload_id u)"
  by (simp add: upload_candidate_def)

lemma pending_rows:
  assumes sc: "scannable up b st d"
  shows "map candidate_row (map snd (pending up b st d None)) =
    map (\<lambda>r. Inl (ov_id r)) (scan_version_rows (qd_store d) b True None @ scan_version_rows (qd_store d) b False None) @
    map (\<lambda>u. Inr (mu_upload_id u)) (scan_upload_rows (qd_uploads d) b None)"
  using candidate_row_version_rows [OF sc, of True None] candidate_row_version_rows [OF sc, of False None]
  by (simp add: pending_def scan_sources_from_def source_cursor_def pending_of_def candidate_row_upload comp_def)

lemma pending_length:
  "length (pending up b st d None) \<le> length (object_versions (qd_store d)) + length (qd_uploads d)"
proof -
  let ?t = "object_versions (qd_store d)"
  have "length (filter (\<lambda>r. ov_bucket r = b \<and> ov_is_latest r = True) t) +
      length (filter (\<lambda>r. ov_bucket r = b \<and> ov_is_latest r = False) t) \<le> length t" for t
    by (induction t) simp_all
  from this [of ?t] have "length (filter (\<lambda>r. ov_bucket r = b \<and> ov_is_latest r = True) ?t) +
      length (filter (\<lambda>r. ov_bucket r = b \<and> ov_is_latest r = False) ?t) \<le> length ?t" .
  from add_mono [OF this length_filter_le [of "\<lambda>u. mu_bucket u = b" "qd_uploads d"]] show ?thesis
    by (simp add: pending_def scan_sources_from_def source_cursor_def pending_of_def scan_version_rows_def scan_upload_rows_def)
qed

text \<open>C30: A lifecycle scan misses nothing and repeats nothing. While a bucket does not change, following
  the pages of a scan from the start, with any page size the scan allows, ends after at most as many
  pages as there are rows, and the candidates of the pages are exactly the versions, current and
  noncurrent, and the multipart uploads of the bucket, each once.\<close>

theorem scan_cycle_complete:
  assumes sc: "scannable up b st d" and limit: "0 < limit" "limit \<le> MAX_LIFECYCLE_SCAN_PAGE_SIZE"
    and fuel: "length (object_versions (qd_store d)) + length (qd_uploads d) < fuel"
  shows "\<exists>cs. scan_cycle up b limit d fuel None = Some cs \<and> distinct (map candidate_row cs) \<and>
    set (map candidate_row cs) =
      (\<lambda>r. Inl (ov_id r)) ` {r \<in> set (object_versions (qd_store d)). ov_bucket r = b} \<union>
      (\<lambda>u. Inr (mu_upload_id u)) ` {u \<in> set (qd_uploads d). mu_bucket u = b}"
proof (intro exI conjI)
  let ?cs = "map snd (pending up b st d None)"
  show "scan_cycle up b limit d fuel None = Some ?cs"
    using pending_length [of up b st d] fuel by (intro scan_cycle_pending [OF sc limit]) (simp_all add: valid_cursor_def)
  have ids: "inj_on ov_id (set (object_versions (qd_store d)))" "distinct (object_versions (qd_store d))"
    using store_okD(6) [OF scannableD(1) [OF sc]] by (simp_all add: distinct_map)
  have uploads: "inj_on mu_upload_id (set (qd_uploads d))" "distinct (qd_uploads d)"
    using scannableD(5) [OF sc] by (simp_all add: distinct_map)
  show "distinct (map candidate_row ?cs)"
    unfolding pending_rows [OF sc] using ids uploads
    by (auto simp: distinct_map inj_on_def scan_version_rows_def scan_upload_rows_def)
  show "set (map candidate_row ?cs) =
      (\<lambda>r. Inl (ov_id r)) ` {r \<in> set (object_versions (qd_store d)). ov_bucket r = b} \<union>
      (\<lambda>u. Inr (mu_upload_id u)) ` {u \<in> set (qd_uploads d). mu_bucket u = b}"
    unfolding pending_rows [OF sc] by (auto simp: scan_version_rows_def scan_upload_rows_def)
qed

definition sample_upload :: multipart_upload_model where
  "sample_upload = \<lparr>mu_upload_id = ''u1'', mu_object_id = ''o9'', mu_bucket = ''b'', mu_key = ''k'', mu_created_at = 5,
     mu_encryption_mode = ''none'', mu_key_wrap = None, mu_sse_c_key_fingerprint = None, mu_content_type = None,
     mu_metadata = None, mu_tags_json = ''[]'', mu_pin_decision_json = None, mu_zip_intent_json = None,
     mu_decompress_zip_target = None, mu_decompress_zip_result = False\<rparr>"

definition sample_scan_db :: queue_db where
  "sample_scan_db = \<lparr>qd_store = sample_db, qd_destinations = [], qd_mutation_leases = [], qd_actions = [],
     qd_transitions = [], qd_uploads = [sample_upload]\<rparr>"

lemma sample_scannable: "scannable Some ''b'' Enabled sample_scan_db"
  using sample_store_ok second_versioning
  by (simp add: scannable_def sample_scan_db_def sample_upload_def get_versioning_state_def bucket_get_def)

theorem scan_cycle_complete_witness:
  "scannable Some ''b'' Enabled sample_scan_db \<and>
   (\<exists>cs. scan_cycle Some ''b'' 1 sample_scan_db 3 None = Some cs \<and> distinct (map candidate_row cs) \<and>
     set (map candidate_row cs) = {Inl ''v1'', Inr ''u1''})"
proof -
  have rows: "object_versions (qd_store sample_scan_db) = [sample_version]" "qd_uploads sample_scan_db = [sample_upload]"
    by (simp_all add: sample_scan_db_def)
  have "{r \<in> set [sample_version]. ov_bucket r = ''b''} = {sample_version}"
    "{u \<in> set [sample_upload]. mu_bucket u = ''b''} = {sample_upload}" "mu_upload_id sample_upload = ''u1''"
    by (auto simp: sample_upload_def)
  then show ?thesis
    using scan_cycle_complete [OF sample_scannable, of 1 3, unfolded rows] sample_scannable
    by (simp add: MAX_LIFECYCLE_SCAN_PAGE_SIZE_def insert_commute)
qed

end
