(* ===== verification/Lifecycle_Store.thy ===== *)
theory Lifecycle_Store
  imports Lifecycle_Cycle Lifecycle_Fencing
begin

text \<open>
  The stored lifecycle configurations and the claims of their scans
  (src/src/store/lifecycle_config.rs), and the worker's step that scans one page
  (src/src/lifecycle/worker.rs). A configuration row carries a revision, raised by every change, and
  the cursor, lease and epoch of its scan. JSON, base64 and the database's JSON check are arguments;
  so are the readings of the database clock.
\<close>

section \<open>Rows\<close>

record bucket_lifecycle_config_model =
  bl_bucket :: string
  bl_canonical_json :: "string option"
  bl_revision :: int
  bl_scan_cursor :: "string option"
  bl_scan_lease_epoch :: int
  bl_scan_lease_until :: "datetime option"
  bl_created_at :: datetime
  bl_updated_at :: datetime
  bl_last_scanned_at :: "datetime option"

record lifecycle_db =
  ld_queue :: queue_db
  ld_configs :: "bucket_lifecycle_config_model list"

definition on_queue :: "(queue_db, 'a) tx \<Rightarrow> (lifecycle_db, 'a) tx" where
  "on_queue m = (\<lambda>d. bindR (m (ld_queue d)) (\<lambda>(x, q). Inr (x, d\<lparr>ld_queue := q\<rparr>)))"

definition update_configs ::
  "(bucket_lifecycle_config_model \<Rightarrow> bool) \<Rightarrow> (bucket_lifecycle_config_model \<Rightarrow> bucket_lifecycle_config_model) \<Rightarrow>
   (lifecycle_db, nat) tx" where
  "update_configs P f = (\<lambda>d.
     Inr (count_rows P (ld_configs d), d\<lparr>ld_configs := update_rows P f (ld_configs d)\<rparr>))"

definition find_config :: "string \<Rightarrow> bucket_lifecycle_config_model list \<Rightarrow> bucket_lifecycle_config_model option" where
  "find_config b t = one_row (\<lambda>r. bl_bucket r = b) t"

interpretation conf: keyed_table bl_bucket find_config
  unfolding find_config_def [abs_def] by (rule one_row_keyed_table)

record cursor_codec =
  cc_to_json :: "lifecycle_scan_cursor \<Rightarrow> string"
  cc_base64 :: "string \<Rightarrow> string"
  cc_unbase64 :: "string \<Rightarrow> string option"
  cc_of_json :: "string \<Rightarrow> lifecycle_scan_cursor option"

definition MAX_LIFECYCLE_SCAN_LEASE_SECONDS :: int where "MAX_LIFECYCLE_SCAN_LEASE_SECONDS = 86400"

section \<open>Configurations\<close>

definition verify_expected_owner :: "string option \<Rightarrow> string option \<Rightarrow> unit app_result" where
  "verify_expected_owner stored expected =
     (case expected of
        None \<Rightarrow> Inr ()
      | Some v \<Rightarrow> if stored = Some v then Inr () else Inl (AccessDenied ''expected bucket owner mismatch''))"

definition lock_bucket_and_verify_owner :: "string \<Rightarrow> string option \<Rightarrow> (lifecycle_db, unit) tx" where
  "lock_bucket_and_verify_owner b expected =
     bindT (on_queue (on_store (lock_bucket_for_ownership b))) (\<lambda>_.
     bindT (queryT (\<lambda>d. bucket_get b (qd_store (ld_queue d)))) (\<lambda>row.
     liftT (verify_expected_owner (bucket_owner row) expected)))"

definition lock_configuration :: "string \<Rightarrow> (lifecycle_db, bucket_lifecycle_config_model option) tx" where
  "lock_configuration b = getsT (\<lambda>d. find_config b (ld_configs d))"

definition next_revision :: "bucket_lifecycle_config_model option \<Rightarrow> int app_result" where
  "next_revision previous =
     (case previous of
        Some c \<Rightarrow> ok_or (Database ''lifecycle configuration revision overflow'') (checked_add_i64 (bl_revision c) 1)
      | None \<Rightarrow> Inr 1)"

definition upsert_configuration ::
  "(string \<Rightarrow> bool) \<Rightarrow> string \<Rightarrow> string option \<Rightarrow> int \<Rightarrow> datetime option \<Rightarrow> datetime \<Rightarrow> (lifecycle_db, unit) tx" where
  "upsert_configuration json_valid b json revision created now =
     (let model = \<lparr>bl_bucket = b, bl_canonical_json = json, bl_revision = revision, bl_scan_cursor = None,
            bl_scan_lease_epoch = 0, bl_scan_lease_until = None,
            bl_created_at = (case created of Some t \<Rightarrow> t | None \<Rightarrow> now), bl_updated_at = now, bl_last_scanned_at = None\<rparr>
      in bindT (guardT (Database ''ck_bucket_lifecycle_configs_canonical_json'')
                  (case json of None \<Rightarrow> True | Some j \<Rightarrow> json_valid j)) (\<lambda>_.
         modifyT (\<lambda>d. d\<lparr>ld_configs :=
           (if find_config b (ld_configs d) = None then ld_configs d @ [model]
            else update_rows (\<lambda>r. bl_bucket r = b)
              (\<lambda>r. r\<lparr>bl_canonical_json := json, bl_revision := revision, bl_scan_cursor := None,
                 bl_scan_lease_epoch := 0, bl_scan_lease_until := None, bl_updated_at := now,
                 bl_last_scanned_at := None\<rparr>) (ld_configs d))\<rparr>)))"

definition change_configuration ::
  "(string \<Rightarrow> bool) \<Rightarrow> string \<Rightarrow> string option \<Rightarrow> string option \<Rightarrow> datetime \<Rightarrow> (lifecycle_db, int) tx" where
  "change_configuration json_valid b json expected now =
     bindT (lock_bucket_and_verify_owner b expected) (\<lambda>_.
     bindT (lock_configuration b) (\<lambda>previous.
     bindT (liftT (next_revision previous)) (\<lambda>revision.
     bindT (upsert_configuration json_valid b json revision (map_option bl_created_at previous) now) (\<lambda>_.
     returnT revision))))"

definition put_configuration_for_owner ::
  "(string \<Rightarrow> bool) \<Rightarrow> string \<Rightarrow> string \<Rightarrow> string option \<Rightarrow> datetime \<Rightarrow> (lifecycle_db, int) tx" where
  "put_configuration_for_owner json_valid b json expected now = change_configuration json_valid b (Some json) expected now"

definition put_configuration :: "(string \<Rightarrow> bool) \<Rightarrow> string \<Rightarrow> string \<Rightarrow> datetime \<Rightarrow> (lifecycle_db, int) tx" where
  "put_configuration json_valid b json now = put_configuration_for_owner json_valid b json None now"

definition get_configuration :: "string \<Rightarrow> lifecycle_db \<Rightarrow> string app_result" where
  "get_configuration b d =
     bindR (bucket_get b (qd_store (ld_queue d))) (\<lambda>_.
     ok_or NoSuchLifecycleConfiguration (Option.bind (find_config b (ld_configs d)) bl_canonical_json))"

definition get_configuration_for_owner :: "string \<Rightarrow> string option \<Rightarrow> lifecycle_db \<Rightarrow> string app_result" where
  "get_configuration_for_owner b expected d =
     bindR (bucket_get b (qd_store (ld_queue d))) (\<lambda>row.
     bindR (verify_expected_owner (bucket_owner row) expected) (\<lambda>_.
     ok_or NoSuchLifecycleConfiguration (Option.bind (find_config b (ld_configs d)) bl_canonical_json)))"

definition delete_configuration_for_owner :: "(string \<Rightarrow> bool) \<Rightarrow> string \<Rightarrow> string option \<Rightarrow> datetime \<Rightarrow> (lifecycle_db, int) tx" where
  "delete_configuration_for_owner json_valid b expected now = change_configuration json_valid b None expected now"

definition delete_configuration :: "(string \<Rightarrow> bool) \<Rightarrow> string \<Rightarrow> datetime \<Rightarrow> (lifecycle_db, int) tx" where
  "delete_configuration json_valid b now = delete_configuration_for_owner json_valid b None now"

section \<open>Claiming a scan\<close>

definition scan_claimable_condition :: "datetime \<Rightarrow> bucket_lifecycle_config_model \<Rightarrow> bool" where
  "scan_claimable_condition now r \<longleftrightarrow> bl_canonical_json r \<noteq> None \<and>
     (case bl_scan_lease_until r of None \<Rightarrow> True | Some u \<Rightarrow> u \<le> now)"

text \<open>Rows that were never scanned come first; the next columns order the others.\<close>

definition scan_priority :: "bucket_lifecycle_config_model \<Rightarrow> nat \<times> datetime \<times> datetime \<times> string" where
  "scan_priority r = (case bl_last_scanned_at r of
       None \<Rightarrow> (0, 0, bl_updated_at r, bl_bucket r)
     | Some t \<Rightarrow> (1, t, bl_updated_at r, bl_bucket r))"

definition first_claimable_configuration :: "datetime \<Rightarrow> lifecycle_db \<Rightarrow> bucket_lifecycle_config_model option" where
  "first_claimable_configuration now d =
     (case sort_key scan_priority (filter (scan_claimable_condition now) (ld_configs d)) of
        [] \<Rightarrow> None | r # _ \<Rightarrow> Some r)"

definition validate_scan_lease :: "int \<Rightarrow> unit app_result" where
  "validate_scan_lease lease_for =
     (if lease_for \<le> 0 \<or> lease_for > MAX_LIFECYCLE_SCAN_LEASE_SECONDS * second_ns
      then Inl (InvalidArgument ''lifecycle scan lease must be between 1 second and 86400 seconds'')
      else Inr ())"

definition stored_cursor_error :: app_error where
  "stored_cursor_error = Internal ''stored lifecycle scan cursor is invalid''"

definition map_err :: "'e \<Rightarrow> 'f + 'a \<Rightarrow> 'e + 'a" where
  "map_err e r = (case r of Inl _ \<Rightarrow> Inl e | Inr x \<Rightarrow> Inr x)"

definition decode_stored_cursor :: "cursor_codec \<Rightarrow> string \<Rightarrow> string \<Rightarrow> lifecycle_scan_cursor app_result" where
  "decode_stored_cursor cc stored b =
     map_err stored_cursor_error (decode_cursor (cc_unbase64 cc) (cc_of_json cc) stored b)"

definition claim_next_scan_in_transaction ::
  "int \<Rightarrow> cursor_codec \<Rightarrow> int \<Rightarrow> datetime \<Rightarrow> (lifecycle_db, claimed_lifecycle_scan option) tx" where
  "claim_next_scan_in_transaction max_day cc lease_for now =
     bindT (getsT (first_claimable_configuration now)) (\<lambda>found.
     case found of
       None \<Rightarrow> returnT None
     | Some candidate \<Rightarrow>
         bindT (liftT (ok_or (Internal ''claimed lifecycle configuration is tombstoned'') (bl_canonical_json candidate))) (\<lambda>json.
         bindT (liftT (traverse_option (\<lambda>stored. decode_stored_cursor cc stored (bl_bucket candidate)) (bl_scan_cursor candidate))) (\<lambda>cursor.
         bindT (liftT (ok_or (Database ''lifecycle scan lease epoch overflow'')
                  (checked_add_i64 (bl_scan_lease_epoch candidate) 1))) (\<lambda>epoch.
         bindT (liftT (ok_or (InvalidArgument ''lifecycle scan lease is outside the database timestamp range'')
                  (checked_add_signed max_day now lease_for))) (\<lambda>until.
         bindT (update_configs
                  (\<lambda>r. bl_bucket r = bl_bucket candidate \<and> bl_revision r = bl_revision candidate \<and>
                       bl_scan_lease_epoch r = bl_scan_lease_epoch candidate \<and> scan_claimable_condition now r)
                  (\<lambda>r. r\<lparr>bl_scan_lease_epoch := epoch, bl_scan_lease_until := Some until\<rparr>)) (\<lambda>n.
         if n \<noteq> 1 then returnT None
         else returnT (Some \<lparr>cs_bucket = bl_bucket candidate, cs_config_revision = bl_revision candidate,
                cs_canonical_json = json, cs_cursor = cursor, cs_lease_epoch = epoch, cs_database_now = now,
                cs_lease_until = until\<rparr>)))))))"

text \<open>As for actions, attempts that SQLite refuses as contended change nothing and are repeated.\<close>

definition claim_next_scan ::
  "int \<Rightarrow> cursor_codec \<Rightarrow> int \<Rightarrow> datetime \<Rightarrow> (lifecycle_db, claimed_lifecycle_scan option) tx" where
  "claim_next_scan max_day cc lease_for now =
     bindT (liftT (validate_scan_lease lease_for)) (\<lambda>_. claim_next_scan_in_transaction max_day cc lease_for now)"

section \<open>Finishing a page\<close>

text \<open>
  The clock is read twice: \<open>now\<close> for the columns, and \<open>clock\<close> by the statement that checks the lease.
\<close>

definition page_fence :: "claimed_lifecycle_scan \<Rightarrow> datetime \<Rightarrow> bucket_lifecycle_config_model \<Rightarrow> bool" where
  "page_fence claim clock r \<longleftrightarrow> bl_bucket r = cs_bucket claim \<and> bl_revision r = cs_config_revision claim \<and>
     bl_scan_lease_epoch r = cs_lease_epoch claim \<and> bl_canonical_json r \<noteq> None \<and>
     (case bl_scan_lease_until r of None \<Rightarrow> False | Some u \<Rightarrow> u > clock)"

definition finish_scan_page_in_transaction ::
  "cursor_codec \<Rightarrow> claimed_lifecycle_scan \<Rightarrow> lifecycle_scan_cursor option \<Rightarrow> bool \<Rightarrow> datetime \<Rightarrow> datetime \<Rightarrow> (lifecycle_db, bool) tx" where
  "finish_scan_page_in_transaction cc claim next_cursor cycle_complete now clock =
     bindT (liftT (if cycle_complete then Inr None
                   else traverse_option (\<lambda>c. let encoded = encode_cursor (cc_to_json cc) (cc_base64 cc) c in
                     bindR (decode_stored_cursor cc encoded (cs_bucket claim)) (\<lambda>_. Inr encoded)) next_cursor)) (\<lambda>stored.
     bindT (update_configs (page_fence claim clock)
              (\<lambda>r. r\<lparr>bl_scan_cursor := stored, bl_last_scanned_at := Some now, bl_scan_lease_until := None\<rparr>)) (\<lambda>n.
     returnT (n = 1)))"

definition finish_scan_page ::
  "cursor_codec \<Rightarrow> claimed_lifecycle_scan \<Rightarrow> lifecycle_scan_cursor option \<Rightarrow> bool \<Rightarrow> datetime \<Rightarrow> datetime \<Rightarrow> (lifecycle_db, bool) tx" where
  "finish_scan_page cc claim next_cursor cycle_complete now clock =
     finish_scan_page_in_transaction cc claim next_cursor cycle_complete now clock"

section \<open>The worker's scan\<close>

text \<open>What the worker's scan is given besides the database.\<close>

record scan_setup =
  su_max_day :: int
  su_uuid_parser :: uuid_parser
  su_identity :: identity_codec
  su_cursor :: cursor_codec
  su_config_of_json :: "string \<Rightarrow> canonical_lifecycle_configuration option"
  su_scan_lease :: int
  su_scan_page_size :: nat

definition schedule_and_finish_scan_page ::
  "scan_setup \<Rightarrow> claimed_lifecycle_scan \<Rightarrow> (nat \<Rightarrow> string) \<Rightarrow> datetime \<Rightarrow> datetime \<Rightarrow> (lifecycle_db, bool) tx" where
  "schedule_and_finish_scan_page su claim uuids now clock d =
     (case bindT (on_queue (schedule_claimed_scan_page (su_max_day su) (su_uuid_parser su) (su_identity su)
               (su_config_of_json su) claim (su_scan_page_size su) uuids)) (\<lambda>page.
             finish_scan_page_in_transaction (su_cursor su) claim (cp_next_cursor page) (cp_cycle_complete page) now clock) d of
        Inl e \<Rightarrow> Inl e
      | Inr (True, d') \<Rightarrow> Inr (True, d')
      | Inr (False, _) \<Rightarrow> Inr (False, d))"

text \<open>
  One scan step without cancellation. It logs errors; whatever its outcome, the worker goes on.
\<close>

definition scan_one_page ::
  "scan_setup \<Rightarrow> (nat \<Rightarrow> string) \<Rightarrow> datetime \<Rightarrow> datetime \<Rightarrow> datetime \<Rightarrow> lifecycle_db \<Rightarrow> lifecycle_db" where
  "scan_one_page su uuids claimed now clock d =
     (case claim_next_scan (su_max_day su) (su_cursor su) (su_scan_lease su) claimed d of
        Inl _ \<Rightarrow> d
      | Inr (None, d1) \<Rightarrow> d1
      | Inr (Some claim, d1) \<Rightarrow>
          (case schedule_and_finish_scan_page su claim uuids now clock d1 of
             Inl _ \<Rightarrow> d1
           | Inr (_, d2) \<Rightarrow> d2))"

end
