(* ===== verification/Bucket_Deletion.thy ===== *)
theory Bucket_Deletion
  imports Import_Admission Lifecycle_Store
begin

text \<open>
  Deleting a bucket (\<open>delete\<close> of src/src/store/bucket.rs): the transaction that every table takes part
  in. It refuses a bucket that is in use, removes the receipts of settled lifecycle transitions
  (\<open>delete_settled_in_transaction\<close> of src/src/store/lifecycle_transition.rs), supersedes what imports
  still own and deletes the bucket's row, from which the foreign keys of
  src/src/store/migrations/baseline/ cascade. The tables of CORS configurations, upload parts and
  pin decisions, to which it also cascades, are not part of the state.
\<close>

section \<open>The whole database\<close>

record gateway_db =
  gw_import :: import_db
  gw_configs :: "bucket_lifecycle_config_model list"

definition on_gateway_import :: "(import_db, 'a) tx \<Rightarrow> (gateway_db, 'a) tx" where
  "on_gateway_import m = (\<lambda>g. bindR (m (gw_import g)) (\<lambda>(x, d). Inr (x, g\<lparr>gw_import := d\<rparr>)))"

abbreviation gw_queue :: "gateway_db \<Rightarrow> queue_db" where
  "gw_queue g \<equiv> im_queue (gw_import g)"

abbreviation gw_store :: "gateway_db \<Rightarrow> db" where
  "gw_store g \<equiv> qd_store (gw_queue g)"

text \<open>The part of it that lifecycle configurations and their scans use.\<close>

definition gw_lifecycle :: "gateway_db \<Rightarrow> lifecycle_db" where
  "gw_lifecycle g = \<lparr>ld_queue = gw_queue g, ld_configs = gw_configs g\<rparr>"

section \<open>Settled transitions\<close>

definition invalid_transition_state :: "string \<Rightarrow> app_error" where
  "invalid_transition_state subject = Internal (''invalid lifecycle transition state: '' @ subject)"

definition receipt_present :: "string option \<Rightarrow> bool" where
  "receipt_present r = (case r of None \<Rightarrow> False | Some v \<Rightarrow> v \<noteq> [])"

text \<open>The state in which a settled transition leaves its action.\<close>

definition settled_action_state :: "lifecycle_transition_model \<Rightarrow> string option" where
  "settled_action_state t =
     (if lt_settlement_kind t = Some ''cancelled'' \<and> lt_completed_at t \<noteq> None \<and>
         lt_checkpoint t \<in> {''prepare'', ''copy'', ''verify''} \<and> lt_publication_receipt t = None
      then Some STATE_CANCELLED
      else if lt_settlement_kind t = Some ''cleanup_complete'' \<and> lt_completed_at t \<noteq> None \<and>
         lt_checkpoint t = ''cleanup'' \<and> receipt_present (lt_verification_receipt t) \<and>
         receipt_present (lt_publication_receipt t)
      then Some STATE_SUCCEEDED
      else None)"

definition transition_holds :: "lifecycle_transition_model \<Rightarrow> db \<Rightarrow> nat" where
  "transition_holds t s =
     count_rows (\<lambda>r. rr_owner_kind r = ''transition'' \<and> rr_owner_id r \<in> {lt_id t, lt_action_id t}) (residency_references s)"

definition delete_settled_in_transaction :: "string \<Rightarrow> (queue_db, bool) tx" where
  "delete_settled_in_transaction i =
     bindT (guardT (InvalidArgument ''lifecycle transition identity is empty'') (i \<noteq> [])) (\<lambda>_.
     bindT (getsT (\<lambda>d. one_row (\<lambda>t. lt_id t = i) (qd_transitions d))) (\<lambda>found.
     case found of
       None \<Rightarrow> returnT False
     | Some t \<Rightarrow>
         bindT (liftT (ok_or (invalid_transition_state ''transition deletion settlement'') (settled_action_state t))) (\<lambda>expected.
         bindT (getsT (\<lambda>d. one_row (\<lambda>a. act_id a = lt_action_id t) (qd_actions d))) (\<lambda>action.
         bindT (guardT (invalid_transition_state ''transition deletion terminal action'')
                  (case action of None \<Rightarrow> False | Some a \<Rightarrow> act_state a = expected \<and> act_finished_at a \<noteq> None)) (\<lambda>_.
         bindT (getsT (\<lambda>d. transition_holds t (qd_store d))) (\<lambda>holds.
         bindT (guardT (invalid_transition_state ''transition deletion with residency holds'') (holds = 0)) (\<lambda>_.
         bindT (getsT (\<lambda>d. count_rows (\<lambda>s. lt_id s = lt_id t) (qd_transitions d))) (\<lambda>deleted.
         bindT (modifyT (\<lambda>d. d\<lparr>qd_transitions := delete_rows (\<lambda>s. lt_id s = lt_id t) (qd_transitions d)\<rparr>)) (\<lambda>_.
         bindT (guardT (Internal ''settled lifecycle transition delete lost its row'') (deleted = 1)) (\<lambda>_.
         returnT True))))))))))"

definition delete_saga :: "lifecycle_transition_model \<Rightarrow> (queue_db, unit) tx" where
  "delete_saga t = bindT (delete_settled_in_transaction (lt_id t)) (\<lambda>_. returnT ())"

section \<open>The bucket's row\<close>

text \<open>Deleting the rows of the object store that a bucket owns, directly or through its objects.\<close>

definition delete_bucket_contents :: "string \<Rightarrow> db \<Rightarrow> db" where
  "delete_bucket_contents b s =
     (let gone = filter (\<lambda>ob. obj_bucket ob = b) (objects s);
          ids = obj_id ` set gone;
          contents = (\<lambda>ob. (obj_id ob, obj_cid ob)) ` set gone;
          leases = pl_id ` set (filter (\<lambda>l. pl_owner_object_id l \<in> ids) (pin_leases s));
          s' = delete_object_versions (\<lambda>v. ov_bucket v = b \<or>
                 (case ov_object_id v of None \<Rightarrow> False | Some i \<Rightarrow> i \<in> ids)) s
      in s'\<lparr>buckets := delete_rows (\<lambda>r. bucket_name r = b) (buckets s'),
            objects := delete_rows (\<lambda>ob. obj_bucket ob = b) (objects s'),
            object_tags := delete_rows (\<lambda>t. tag_object_id t \<in> ids) (object_tags s'),
            version_residencies :=
              delete_rows (\<lambda>x. (vr_object_id x, vr_cid x) \<in> contents) (version_residencies s'),
            residency_references :=
              delete_rows (\<lambda>x. (rr_object_id x, rr_cid x) \<in> contents) (residency_references s'),
            pin_leases := delete_rows (\<lambda>l. pl_owner_object_id l \<in> ids) (pin_leases s'),
            pin_lease_targets := delete_rows (\<lambda>t. plt_lease_id t \<in> leases) (pin_lease_targets s')\<rparr>)"

definition delete_bucket_queue :: "string \<Rightarrow> queue_db \<Rightarrow> queue_db" where
  "delete_bucket_queue b q =
     (let keys = dst_pk ` set (filter (\<lambda>r. dst_bucket r = b) (qd_destinations q)) in
      q\<lparr>qd_store := delete_bucket_contents b (qd_store q),
        qd_destinations := delete_rows (\<lambda>r. dst_bucket r = b) (qd_destinations q),
        qd_mutation_leases := delete_rows (\<lambda>l. (sml_bucket l, sml_key l) \<in> keys) (qd_mutation_leases q),
        qd_actions := delete_rows (\<lambda>a. act_bucket a = b) (qd_actions q),
        qd_uploads := delete_rows (\<lambda>u. mu_bucket u = b) (qd_uploads q)\<rparr>)"

text \<open>Transitions refer to their bucket and their action without a cascade.\<close>

definition delete_bucket_by_id :: "string \<Rightarrow> (gateway_db, nat) tx" where
  "delete_bucket_by_id b = (\<lambda>g.
     let n = count_rows (\<lambda>r. bucket_name r = b) (buckets (gw_store g)); d = gw_import g; q = im_queue d;
         actions = act_id ` set (filter (\<lambda>a. act_bucket a = b) (qd_actions q))
     in if n = 0 then Inr (0, g)
        else if list_ex (\<lambda>t. lt_bucket t = b) (qd_transitions q) then Inl (Database ''lifecycle_transitions_bucket_fkey'')
        else if list_ex (\<lambda>t. lt_action_id t \<in> actions) (qd_transitions q)
        then Inl (Database ''lifecycle_transitions_action_id_fkey'')
        else Inr (n, \<lparr>gw_import = d\<lparr>im_queue := delete_bucket_queue b q,
            im_prefix_claims := delete_rows (\<lambda>c. pc_bucket c = b) (im_prefix_claims d),
            im_targets := delete_rows (\<lambda>t. jt_bucket t = b) (im_targets d)\<rparr>,
          gw_configs = delete_rows (\<lambda>c. bl_bucket c = b) (gw_configs g)\<rparr>))"

section \<open>Deletion\<close>

definition refuse_when :: "string \<Rightarrow> (gateway_db \<Rightarrow> bool) \<Rightarrow> (gateway_db, unit) tx" where
  "refuse_when b used = bindT (getsT used) (\<lambda>x. guardT (BucketNotEmpty b) (\<not> x))"

definition bucket_delete :: "string \<Rightarrow> datetime \<Rightarrow> (gateway_db, unit) tx" where
  "bucket_delete b now =
     bindT (on_gateway_import (lock_ownership b)) (\<lambda>_.
     bindT (refuse_when b (\<lambda>g. list_ex (\<lambda>u. mu_bucket u = b) (qd_uploads (gw_queue g)))) (\<lambda>_.
     bindT (refuse_when b (\<lambda>g. list_ex (\<lambda>j. ij_bucket j = b \<and> unfinished (ij_state j)) (im_jobs (gw_import g)))) (\<lambda>_.
     bindT (refuse_when b (\<lambda>g. list_ex (\<lambda>ob. obj_bucket ob = b \<and> obj_is_latest ob) (objects (gw_store g)))) (\<lambda>_.
     bindT (refuse_when b (\<lambda>g. list_ex (\<lambda>v. ov_bucket v = b) (object_versions (gw_store g)))) (\<lambda>_.
     bindT (getsT (\<lambda>g. filter (\<lambda>t. lt_bucket t = b) (qd_transitions (gw_queue g)))) (\<lambda>sagas.
     bindT (guardT (BucketNotEmpty b) (\<not> list_ex (\<lambda>t. lt_completed_at t = None) sagas)) (\<lambda>_.
     bindT (on_gateway_import (on_import_queue (for_each delete_saga sagas))) (\<lambda>_.
     bindT (on_gateway_import (supersede_bucket b now)) (\<lambda>_.
     bindT (delete_bucket_by_id b) (\<lambda>n.
     guardT (NoSuchBucket b) (n = 1)))))))))))"

section \<open>What a deletion leaves\<close>

lemma delete_settled_frame:
  assumes "delete_settled_in_transaction i q = Inr (x, q')"
  shows "\<exists>ts. q' = q\<lparr>qd_transitions := ts\<rparr> \<and> set ts \<subseteq> set (qd_transitions q)"
proof (cases "one_row (\<lambda>t. lt_id t = i) (qd_transitions q)")
  case None
  with assms have "q' = q\<lparr>qd_transitions := qd_transitions q\<rparr>"
    by (simp add: delete_settled_in_transaction_def bindT_eq_Inr)
  then show ?thesis by blast
next
  case (Some t)
  with assms have "q' = q\<lparr>qd_transitions := delete_rows (\<lambda>s. lt_id s = lt_id t) (qd_transitions q)\<rparr>"
    by (auto simp: delete_settled_in_transaction_def bindT_eq_Inr)
  then show ?thesis by (intro exI) (auto simp: delete_rows_def)
qed

lemma delete_sagas_frame:
  assumes "for_each delete_saga sagas q = Inr (u, q')"
  shows "\<exists>ts. q' = q\<lparr>qd_transitions := ts\<rparr> \<and> set ts \<subseteq> set (qd_transitions q)"
  using assms
proof (induction sagas arbitrary: q)
  case Nil
  then have "q' = q\<lparr>qd_transitions := qd_transitions q\<rparr>" by simp
  then show ?case by blast
next
  case (Cons t sagas)
  from Cons.prems obtain v q1 where "delete_saga t q = Inr (v, q1)" and r: "for_each delete_saga sagas q1 = Inr (u, q')"
    by (rule for_each_ConsE)
  then obtain x where "delete_settled_in_transaction (lt_id t) q = Inr (x, q1)"
    by (auto simp: delete_saga_def bindT_eq_Inr)
  from delete_settled_frame [OF this] obtain ts where ts: "q1 = q\<lparr>qd_transitions := ts\<rparr>" "set ts \<subseteq> set (qd_transitions q)"
    by blast
  from Cons.IH [OF r] obtain us where "q' = q1\<lparr>qd_transitions := us\<rparr>" "set us \<subseteq> set (qd_transitions q1)" by blast
  with ts show ?case by (intro exI [of _ us]) auto
qed

text \<open>Once no unfinished import is left, superseding the bucket's imports changes nothing.\<close>

lemma supersede_bucket_idle:
  assumes "supersede_bucket b now d = Inr (n, d')" "\<not> list_ex (\<lambda>j. ij_bucket j = b \<and> unfinished (ij_state j)) (im_jobs d)"
  shows "d' = d"
proof -
  have "filter (\<lambda>j. ij_bucket j = b \<and> unfinished (ij_state j)) (im_jobs d) = []"
    using assms(2) by (auto simp: filter_empty_conv list_ex_iff)
  then have "page_of ij_id (\<lambda>j. ij_bucket j = b \<and> unfinished (ij_state j)) None (im_jobs d) = []"
    by (auto simp: page_of_def filter_empty_conv)
  then have "active_ids b None d = Inr []" by (simp add: active_ids_def)
  with assms(1) show ?thesis by (simp add: supersede_bucket_def supersede_bucket_from.simps [of b now None 0 d])
qed

definition bucket_idle :: "string \<Rightarrow> gateway_db \<Rightarrow> bool" where
  "bucket_idle b g \<longleftrightarrow> bucket_locked b (gw_import g) \<and>
     \<not> list_ex (\<lambda>u. mu_bucket u = b) (qd_uploads (gw_queue g)) \<and>
     \<not> list_ex (\<lambda>j. ij_bucket j = b \<and> unfinished (ij_state j)) (im_jobs (gw_import g)) \<and>
     \<not> list_ex (\<lambda>ob. obj_bucket ob = b \<and> obj_is_latest ob) (objects (gw_store g)) \<and>
     \<not> list_ex (\<lambda>v. ov_bucket v = b) (object_versions (gw_store g)) \<and>
     \<not> list_ex (\<lambda>t. lt_bucket t = b \<and> lt_completed_at t = None) (qd_transitions (gw_queue g))"

lemma on_gateway_import_Inr:
  "on_gateway_import m g = Inr (x, g') \<longleftrightarrow> (\<exists>d. m (gw_import g) = Inr (x, d) \<and> g' = g\<lparr>gw_import := d\<rparr>)"
  by (cases "m (gw_import g)") (auto simp: on_gateway_import_def)

lemma refuse_when_Inr [simp]: "refuse_when b used g = Inr (u, g') \<longleftrightarrow> \<not> used g \<and> g' = g"
  by (auto simp: refuse_when_def bindT_eq_Inr)

lemma delete_bucket_by_id_Inr:
  assumes "delete_bucket_by_id b g = Inr (1, g')"
  shows "gw_import g' = (gw_import g)\<lparr>im_queue := delete_bucket_queue b (gw_queue g),
      im_prefix_claims := delete_rows (\<lambda>c. pc_bucket c = b) (im_prefix_claims (gw_import g)),
      im_targets := delete_rows (\<lambda>t. jt_bucket t = b) (im_targets (gw_import g))\<rparr>"
    and "gw_configs g' = delete_rows (\<lambda>c. bl_bucket c = b) (gw_configs g)"
    and "\<not> list_ex (\<lambda>t. lt_bucket t = b) (qd_transitions (gw_queue g))"
  using assms by (auto simp: delete_bucket_by_id_def Let_def split: if_splits)

lemma bucket_delete_parts:
  assumes "bucket_delete b now g = Inr (u, g')"
  obtains ts where "bucket_idle b g" "set ts \<subseteq> set (qd_transitions (gw_queue g))" "\<not> list_ex (\<lambda>t. lt_bucket t = b) ts"
    "gw_import g' = (gw_import g)\<lparr>im_queue := delete_bucket_queue b ((gw_queue g)\<lparr>qd_transitions := ts\<rparr>),
      im_prefix_claims := delete_rows (\<lambda>c. pc_bucket c = b) (im_prefix_claims (gw_import g)),
      im_targets := delete_rows (\<lambda>t. jt_bucket t = b) (im_targets (gw_import g))\<rparr>"
    "gw_configs g' = delete_rows (\<lambda>c. bl_bucket c = b) (gw_configs g)"
proof -
  let ?sagas = "filter (\<lambda>t. lt_bucket t = b) (qd_transitions (gw_queue g))"
  from assms obtain v1 v2 n d1 d2 where idle: "bucket_idle b g"
    and sagas: "on_import_queue (for_each delete_saga ?sagas) (gw_import g) = Inr (v1, d1)"
    and sup: "supersede_bucket b now d1 = Inr (v2, d2)"
    and del: "delete_bucket_by_id b (g\<lparr>gw_import := d2\<rparr>) = Inr (1, g')"
    unfolding bucket_delete_def
    by (auto simp: bindT_eq_Inr on_gateway_import_Inr bucket_idle_def list_ex_iff)
  from sagas obtain q where q: "for_each delete_saga ?sagas (gw_queue g) = Inr (v1, q)" "d1 = (gw_import g)\<lparr>im_queue := q\<rparr>"
    by (auto simp: on_import_queue_def bindR_eq_Inr)
  from delete_sagas_frame [OF q(1)] obtain ts where ts: "q = (gw_queue g)\<lparr>qd_transitions := ts\<rparr>"
    "set ts \<subseteq> set (qd_transitions (gw_queue g))" by blast
  have "d2 = d1" by (rule supersede_bucket_idle [OF sup]) (use idle q(2) in \<open>simp add: bucket_idle_def\<close>)
  with delete_bucket_by_id_Inr [OF del] idle ts q(2) show thesis by (intro that [of ts]) simp_all
qed

lemma delete_bucket_queue_sel [simp]:
  "qd_destinations (delete_bucket_queue b q) = delete_rows (\<lambda>r. dst_bucket r = b) (qd_destinations q)"
  "qd_actions (delete_bucket_queue b q) = delete_rows (\<lambda>a. act_bucket a = b) (qd_actions q)"
  "qd_uploads (delete_bucket_queue b q) = delete_rows (\<lambda>u. mu_bucket u = b) (qd_uploads q)"
  "qd_transitions (delete_bucket_queue b q) = qd_transitions q"
  "buckets (qd_store (delete_bucket_queue b q)) = delete_rows (\<lambda>r. bucket_name r = b) (buckets (qd_store q))"
  "objects (qd_store (delete_bucket_queue b q)) = delete_rows (\<lambda>ob. obj_bucket ob = b) (objects (qd_store q))"
  by (simp_all add: delete_bucket_queue_def delete_bucket_contents_def delete_object_versions_def Let_def)

lemma bucket_delete_effect:
  assumes "bucket_delete b now g = Inr (u, g')"
  shows "bucket_idle b g"
    and "im_destinations (gw_import g') = delete_rows (\<lambda>r. dst_bucket r = b) (im_destinations (gw_import g))"
    and "im_jobs (gw_import g') = im_jobs (gw_import g)"
    and "im_prefix_claims (gw_import g') = delete_rows (\<lambda>c. pc_bucket c = b) (im_prefix_claims (gw_import g))"
    and "im_targets (gw_import g') = delete_rows (\<lambda>t. jt_bucket t = b) (im_targets (gw_import g))"
    and "qd_actions (gw_queue g') = delete_rows (\<lambda>a. act_bucket a = b) (qd_actions (gw_queue g))"
    and "gw_configs g' = delete_rows (\<lambda>c. bl_bucket c = b) (gw_configs g)"
  by (rule bucket_delete_parts [OF assms]; simp)+

text \<open>A deleted bucket leaves nothing behind for a bucket of the same name to find.\<close>

lemma bucket_delete_clears:
  assumes "bucket_delete b now g = Inr (u, g')"
  shows "b \<notin> im_buckets (gw_import g')"
    and "\<not> list_ex (\<lambda>ob. obj_bucket ob = b) (objects (gw_store g'))"
    and "\<not> list_ex (\<lambda>t. lt_bucket t = b) (qd_transitions (gw_queue g'))"
    and "\<not> list_ex (\<lambda>u. mu_bucket u = b) (qd_uploads (gw_queue g'))"
  by (rule bucket_delete_parts [OF assms]; simp add: im_buckets_def list_ex_iff delete_rows_def; auto)+

text \<open>For the queue of lifecycle actions, the deletion is its step \<open>bucket_deleted\<close>.\<close>

lemma bucket_delete_queue_step:
  "bucket_delete b now g = Inr (u, g') \<Longrightarrow> queue_step issued (gw_queue g) (gw_queue g')"
  by (rule queue_step.bucket_deleted) (rule bucket_delete_effect(6))

end
