(* ===== verification/Lifecycle_Scans.thy ===== *)
theory Lifecycle_Scans
  imports Bucket_Deletion Lifecycle_Decisions
begin

text \<open>
  Properties of the stored configurations and of scan claims. A configuration row carries the pair of
  its revision and its lease epoch, which only grows: a change raises the revision, a claim the
  epoch. A claim names the pair it was granted with, so it is worthless once the pair has grown.
\<close>

section \<open>Fencing tokens\<close>

definition configs_ok :: "lifecycle_db \<Rightarrow> bool" where
  "configs_ok d \<longleftrightarrow> distinct (map bl_bucket (ld_configs d))"

definition fence_token :: "bucket_lifecycle_config_model \<Rightarrow> int \<times> int" where
  "fence_token r = (bl_revision r, bl_scan_lease_epoch r)"

definition claim_token :: "claimed_lifecycle_scan \<Rightarrow> int \<times> int" where
  "claim_token c = (cs_config_revision c, cs_lease_epoch c)"

definition token_reached :: "string \<Rightarrow> int \<times> int \<Rightarrow> bucket_lifecycle_config_model list \<Rightarrow> bool" where
  "token_reached b tok t \<longleftrightarrow> (\<exists>r \<in> set t. bl_bucket r = b \<and> tok \<le> fence_token r)"

text \<open>A change of the table that keeps its key and lets tokens only grow.\<close>

definition tokens_grow :: "bucket_lifecycle_config_model list \<Rightarrow> bucket_lifecycle_config_model list \<Rightarrow> bool" where
  "tokens_grow t t' \<longleftrightarrow> distinct (map bl_bucket t') \<and> (\<forall>b tok. token_reached b tok t \<longrightarrow> token_reached b tok t')"

lemma tokens_growD:
  assumes "tokens_grow (ld_configs d) (ld_configs d')"
  shows "configs_ok d'" "token_reached b tok (ld_configs d) \<Longrightarrow> token_reached b tok (ld_configs d')"
  using assms unfolding tokens_grow_def configs_ok_def by blast+

lemma tokens_grow_refl: "configs_ok d \<Longrightarrow> tokens_grow (ld_configs d) (ld_configs d)"
  by (simp add: tokens_grow_def configs_ok_def)

lemma tokens_grow_update:
  assumes "distinct (map bl_bucket t)" "\<And>r. bl_bucket (f r) = bl_bucket r"
    and grow: "\<And>r. r \<in> set t \<Longrightarrow> P r \<Longrightarrow> fence_token r \<le> fence_token (f r)"
  shows "tokens_grow t (update_rows P f t)"
  unfolding tokens_grow_def
proof (intro conjI allI impI)
  show "distinct (map bl_bucket (update_rows P f t))" using assms(1,2) by (simp add: map_update_rows)
  fix b tok assume "token_reached b tok t"
  then obtain r where r: "r \<in> set t" "bl_bucket r = b" "tok \<le> fence_token r"
    unfolding token_reached_def by (elim bexE conjE) (rule that)
  have "(if P r then f r else r) \<in> set (update_rows P f t)" unfolding set_update_rows using r(1) by (rule imageI)
  moreover have "bl_bucket (if P r then f r else r) = b" using r(2) assms(2) by simp
  moreover have "tok \<le> fence_token (if P r then f r else r)" using r(3) order.trans [OF r(3) grow [OF r(1)]] by simp
  ultimately show "token_reached b tok (update_rows P f t)"
    unfolding token_reached_def by (intro bexI conjI)
qed

lemma tokens_grow_insert:
  assumes "distinct (map bl_bucket t)" "bl_bucket r \<notin> bl_bucket ` set t"
  shows "tokens_grow t (t @ [r])"
  using assms by (auto simp: tokens_grow_def token_reached_def)

lemma token_reached_key:
  assumes "distinct (map bl_bucket t)" "token_reached (bl_bucket r) tok t" "r \<in> set t"
  shows "tok \<le> fence_token r"
proof -
  obtain s where s: "s \<in> set t" "bl_bucket s = bl_bucket r" "tok \<le> fence_token s"
    using assms(2) unfolding token_reached_def by (elim bexE conjE) (rule that)
  have "s = r" by (rule inj_onD [OF _ s(2,1) assms(3)]) (use assms(1) in \<open>simp add: distinct_map\<close>)
  with s(3) show ?thesis by simp
qed

section \<open>Effects of the operations\<close>

lemma on_queue_configs: "on_queue m d = Inr (x, d') \<Longrightarrow> ld_configs d' = ld_configs d"
  by (auto simp: on_queue_def bindR_eq_Inr)

lemma lock_owner_frame: "lock_bucket_and_verify_owner b expected d = Inr (x, d') \<Longrightarrow> ld_configs d' = ld_configs d"
  by (auto simp: lock_bucket_and_verify_owner_def bindT_eq_Inr dest!: on_queue_configs)

definition changed_configs ::
  "string \<Rightarrow> string option \<Rightarrow> int \<Rightarrow> datetime \<Rightarrow> bucket_lifecycle_config_model list \<Rightarrow> bucket_lifecycle_config_model list" where
  "changed_configs b json revision now t =
     (if find_config b t = None
      then t @ [\<lparr>bl_bucket = b, bl_canonical_json = json, bl_revision = revision, bl_scan_cursor = None,
             bl_scan_lease_epoch = 0, bl_scan_lease_until = None, bl_created_at = now, bl_updated_at = now,
             bl_last_scanned_at = None\<rparr>]
      else update_rows (\<lambda>r. bl_bucket r = b)
        (\<lambda>r. r\<lparr>bl_canonical_json := json, bl_revision := revision, bl_scan_cursor := None, bl_scan_lease_epoch := 0,
           bl_scan_lease_until := None, bl_updated_at := now, bl_last_scanned_at := None\<rparr>) t)"

lemma change_configuration_effect:
  assumes "change_configuration json_valid b json expected now d = Inr (revision, d')"
  shows "ld_configs d' = changed_configs b json revision now (ld_configs d)"
    "next_revision (find_config b (ld_configs d)) = Inr revision"
  using assms
  by (auto simp: change_configuration_def bindT_eq_Inr lock_configuration_def upsert_configuration_def changed_configs_def
      dest!: lock_owner_frame)

lemma changed_configs_row:
  "\<exists>r \<in> set (changed_configs b json revision now t). bl_bucket r = b \<and> bl_canonical_json r = json \<and>
    bl_scan_cursor r = None \<and> fence_token r = (revision, 0)"
proof (cases "find_config b t")
  case None
  then show ?thesis by (simp add: changed_configs_def fence_token_def)
next
  case (Some r)
  then have r: "r \<in> set t" "bl_bucket r = b" by (auto dest: conf.find_by_SomeD)
  let ?f = "\<lambda>r. r\<lparr>bl_canonical_json := json, bl_revision := revision, bl_scan_cursor := None, bl_scan_lease_epoch := 0,
           bl_scan_lease_until := None, bl_updated_at := now, bl_last_scanned_at := None\<rparr>"
  have "(if bl_bucket r = b then ?f r else r) \<in> set (changed_configs b json revision now t)"
    using Some r(1) by (simp only: changed_configs_def option.distinct if_False set_update_rows) (rule imageI)
  then show ?thesis using r(2) by (intro bexI [of _ "?f r"]) (simp_all add: fence_token_def)
qed

lemma changed_configs_grow:
  assumes "distinct (map bl_bucket t)" "next_revision (find_config b t) = Inr revision"
  shows "tokens_grow t (changed_configs b json revision now t)"
proof (cases "find_config b t")
  case None
  then have "b \<notin> bl_bucket ` set t" by (simp add: conf.find_by_None)
  then show ?thesis using None assms(1) by (simp add: changed_configs_def tokens_grow_insert)
next
  case (Some r)
  then have rev: "revision = bl_revision r + 1" using assms(2)
    by (auto simp: next_revision_def checked_add_i64_def split: if_splits)
  have same: "s = r" if "s \<in> set t" "bl_bucket s = b" for s
    using conf.find_by_key [OF assms(1) that] Some by simp
  show ?thesis using Some unfolding changed_configs_def
    by (simp, intro tokens_grow_update [OF assms(1)]) (auto simp: fence_token_def less_eq_prod_def rev dest: same)
qed

definition claimed_config :: "claimed_lifecycle_scan \<Rightarrow> bucket_lifecycle_config_model \<Rightarrow> bucket_lifecycle_config_model" where
  "claimed_config c r = r\<lparr>bl_scan_lease_epoch := cs_lease_epoch c, bl_scan_lease_until := Some (cs_lease_until c)\<rparr>"

definition scan_granted ::
  "cursor_codec \<Rightarrow> datetime \<Rightarrow> claimed_lifecycle_scan \<Rightarrow> bucket_lifecycle_config_model \<Rightarrow> bool" where
  "scan_granted cc now c r \<longleftrightarrow> cs_bucket c = bl_bucket r \<and> cs_config_revision c = bl_revision r \<and>
     cs_lease_epoch c = bl_scan_lease_epoch r + 1 \<and> scan_claimable_condition now r \<and>
     bl_canonical_json r = Some (cs_canonical_json c) \<and>
     traverse_option (\<lambda>s. decode_stored_cursor cc s (bl_bucket r)) (bl_scan_cursor r) = Inr (cs_cursor c)"

lemma first_claimable_SomeD:
  assumes "first_claimable_configuration now d = Some r"
  shows "r \<in> set (ld_configs d)" "scan_claimable_condition now r"
proof -
  obtain rs where "sort_key scan_priority (filter (scan_claimable_condition now) (ld_configs d)) = r # rs"
    using assms by (auto simp: first_claimable_configuration_def split: list.splits)
  from arg_cong [OF this, of set] show "r \<in> set (ld_configs d)" "scan_claimable_condition now r" by auto
qed

lemma claim_next_scan_effect:
  assumes ok: "configs_ok d" and claim: "claim_next_scan max_day cc lease_for now d = Inr (res, d')"
  shows "ld_queue d' = ld_queue d \<and> tokens_grow (ld_configs d) (ld_configs d') \<and>
    (\<forall>c. res = Some c \<longrightarrow> (\<exists>r \<in> set (ld_configs d). scan_granted cc now c r \<and>
       ld_configs d' = update_rows (\<lambda>s. bl_bucket s = bl_bucket r) (claimed_config c) (ld_configs d)))"
proof (cases "first_claimable_configuration now d")
  case None
  then show ?thesis
    using claim tokens_grow_refl [OF ok] by (auto simp: claim_next_scan_def claim_next_scan_in_transaction_def bindT_eq_Inr)
next
  case (Some r)
  note r = first_claimable_SomeD [OF Some]
  let ?P = "\<lambda>s. bl_bucket s = bl_bucket r \<and> bl_revision s = bl_revision r \<and>
      bl_scan_lease_epoch s = bl_scan_lease_epoch r \<and> scan_claimable_condition now s"
  have dist: "distinct (map bl_bucket (ld_configs d))" using ok by (simp add: configs_ok_def)
  have same: "?P s \<longleftrightarrow> bl_bucket s = bl_bucket r" if "s \<in> set (ld_configs d)" for s
    using r inj_onD [of bl_bucket "set (ld_configs d)" s r] that dist by (auto simp: distinct_map)
  from claim Some obtain json cursor epoch until where
    parts: "bl_canonical_json r = Some json"
      "traverse_option (\<lambda>s. decode_stored_cursor cc s (bl_bucket r)) (bl_scan_cursor r) = Inr cursor"
      "checked_add_i64 (bl_scan_lease_epoch r) 1 = Some epoch" and
    d': "d' = d\<lparr>ld_configs := update_rows ?P (\<lambda>s. s\<lparr>bl_scan_lease_epoch := epoch, bl_scan_lease_until := Some until\<rparr>) (ld_configs d)\<rparr>" and
    res: "res = (if count_rows ?P (ld_configs d) \<noteq> 1 then None else
        Some \<lparr>cs_bucket = bl_bucket r, cs_config_revision = bl_revision r, cs_canonical_json = json, cs_cursor = cursor,
           cs_lease_epoch = epoch, cs_database_now = now, cs_lease_until = until\<rparr>)"
    by (auto simp: claim_next_scan_def claim_next_scan_in_transaction_def bindT_eq_Inr update_configs_def ok_or_eq_Inr
        split: if_splits)
  have epoch: "epoch = bl_scan_lease_epoch r + 1" using parts(3) by (simp add: checked_add_i64_def split: if_splits)
  have upd: "update_rows ?P f (ld_configs d) = update_rows (\<lambda>s. bl_bucket s = bl_bucket r) f (ld_configs d)" for f
    unfolding update_rows_def using same by (intro map_cong refl) simp
  have "tokens_grow (ld_configs d) (ld_configs d')"
    unfolding d' by (simp, rule tokens_grow_update [OF dist]) (simp_all add: fence_token_def less_eq_prod_def epoch)
  then show ?thesis
    using r parts epoch res unfolding d' upd by (auto simp: scan_granted_def claimed_config_def [abs_def] split: if_splits)
qed

definition finished_config :: "string option \<Rightarrow> datetime \<Rightarrow> bucket_lifecycle_config_model \<Rightarrow> bucket_lifecycle_config_model" where
  "finished_config stored now r = r\<lparr>bl_scan_cursor := stored, bl_last_scanned_at := Some now, bl_scan_lease_until := None\<rparr>"

lemma finish_effect:
  assumes "finish_scan_page_in_transaction cc c next_cursor complete now clock d = Inr (ok, d')"
  shows "\<exists>stored. d' = d\<lparr>ld_configs := update_rows (page_fence c clock) (finished_config stored now) (ld_configs d)\<rparr> \<and>
    (ok \<longleftrightarrow> count_rows (page_fence c clock) (ld_configs d) = 1) \<and>
    (if complete then stored = None
     else traverse_option (\<lambda>x. let e = encode_cursor (cc_to_json cc) (cc_base64 cc) x in
       bindR (decode_stored_cursor cc e (cs_bucket c)) (\<lambda>_. Inr e)) next_cursor = Inr stored)"
  using assms
  by (auto simp: finish_scan_page_in_transaction_def bindT_eq_Inr update_configs_def finished_config_def [abs_def] split: if_splits)

lemma finish_grow:
  assumes "configs_ok d" "finish_scan_page_in_transaction cc c next_cursor complete now clock d = Inr (ok, d')"
  shows "tokens_grow (ld_configs d) (ld_configs d')"
proof -
  obtain stored where "d' = d\<lparr>ld_configs := update_rows (page_fence c clock) (finished_config stored now) (ld_configs d)\<rparr>"
    using finish_effect [OF assms(2)] by (elim exE conjE)
  then show ?thesis
    using assms(1) by (auto simp: configs_ok_def finished_config_def fence_token_def intro!: tokens_grow_update)
qed

lemma schedule_and_finish_cases:
  assumes "schedule_and_finish_scan_page su c uuids now clock d = Inr (ok, d')"
  shows "(\<not> ok \<and> d' = d) \<or> (ok \<and> (\<exists>(page :: lifecycle_candidate_page) d1. ld_configs d1 = ld_configs d \<and>
    finish_scan_page_in_transaction (su_cursor su) c (cp_next_cursor page) (cp_cycle_complete page) now clock d1 = Inr (True, d')))"
proof -
  let ?m = "bindT (on_queue (schedule_claimed_scan_page (su_max_day su) (su_uuid_parser su) (su_identity su)
      (su_config_of_json su) c (su_scan_page_size su) uuids)) (\<lambda>page.
      finish_scan_page_in_transaction (su_cursor su) c (cp_next_cursor page) (cp_cycle_complete page) now clock) d"
  obtain b d2 where m: "?m = Inr (b, d2)" "b = ok" "d' = (if b then d2 else d)"
    using assms unfolding schedule_and_finish_scan_page_def by (cases ?m) (auto split: bool.splits)
  show ?thesis
  proof (cases b)
    case True
    from m(1) obtain page d1 where page: "on_queue (schedule_claimed_scan_page (su_max_day su) (su_uuid_parser su) (su_identity su)
      (su_config_of_json su) c (su_scan_page_size su) uuids) d = Inr (page, d1)"
      "finish_scan_page_in_transaction (su_cursor su) c (cp_next_cursor page) (cp_cycle_complete page) now clock d1 = Inr (b, d2)"
      unfolding bindT_eq_Inr by (elim exE conjE) (rule that)
    have "\<exists>(page :: lifecycle_candidate_page) d1. ld_configs d1 = ld_configs d \<and> finish_scan_page_in_transaction (su_cursor su) c (cp_next_cursor page)
        (cp_cycle_complete page) now clock d1 = Inr (True, d2)"
      using page(2) True on_queue_configs [OF page(1)] by (intro exI [of _ page] exI [of _ d1]) simp
    with True m show ?thesis by simp
  qed (use m in simp)
qed

section \<open>Steps\<close>

text \<open>
  What may happen to the configurations and the queue: configurations are put and deleted, workers
  claim scans and finish pages with whatever claims they hold, buckets outside \<open>kept\<close> are deleted with
  their configurations, and other transactions change the other tables.
\<close>

inductive lifecycle_step :: "string set \<Rightarrow> lifecycle_db \<Rightarrow> lifecycle_db \<Rightarrow> bool" for kept where
  put_step: "put_configuration_for_owner json_valid b json expected now d = Inr (revision, d') \<Longrightarrow> lifecycle_step kept d d'"
| delete_step: "delete_configuration_for_owner json_valid b expected now d = Inr (revision, d') \<Longrightarrow> lifecycle_step kept d d'"
| claim_step: "claim_next_scan max_day cc lease_for now d = Inr (res, d') \<Longrightarrow> lifecycle_step kept d d'"
| page_step: "schedule_and_finish_scan_page su c uuids now clock d = Inr (ok, d') \<Longrightarrow> lifecycle_step kept d d'"
| finish_step: "finish_scan_page cc c next_cursor complete now clock d = Inr (ok, d') \<Longrightarrow> lifecycle_step kept d d'"
| bucket_step: "bucket_delete b now g = Inr (u, g') \<Longrightarrow> b \<notin> kept \<Longrightarrow> lifecycle_step kept (gw_lifecycle g) (gw_lifecycle g')"
| queue_change: "lifecycle_step kept d (d\<lparr>ld_queue := q\<rparr>)"

definition tokens_grow_on :: "string set \<Rightarrow> lifecycle_db \<Rightarrow> lifecycle_db \<Rightarrow> bool" where
  "tokens_grow_on kept d d' \<longleftrightarrow> configs_ok d' \<and>
     (\<forall>b \<in> kept. \<forall>tok. token_reached b tok (ld_configs d) \<longrightarrow> token_reached b tok (ld_configs d'))"

lemma tokens_grow_onI: "tokens_grow (ld_configs d) (ld_configs d') \<Longrightarrow> tokens_grow_on kept d d'"
  by (simp add: tokens_grow_def tokens_grow_on_def configs_ok_def)

lemma tokens_grow_onD:
  assumes "tokens_grow_on kept d d'"
  shows "configs_ok d'" "b \<in> kept \<Longrightarrow> token_reached b tok (ld_configs d) \<Longrightarrow> token_reached b tok (ld_configs d')"
  using assms unfolding tokens_grow_on_def by blast+

lemma bucket_delete_tokens:
  assumes "bucket_delete b now g = Inr (u, g')" "b \<notin> kept" "configs_ok (gw_lifecycle g)"
  shows "tokens_grow_on kept (gw_lifecycle g) (gw_lifecycle g')"
  using assms(2,3) bucket_delete_effect(7) [OF assms(1)]
  by (auto simp: tokens_grow_on_def gw_lifecycle_def configs_ok_def token_reached_def delete_rows_def distinct_map_filter)

lemma lifecycle_step_grow: "lifecycle_step kept d d' \<Longrightarrow> configs_ok d \<Longrightarrow> tokens_grow_on kept d d'"
proof (induction rule: lifecycle_step.induct)
  case (put_step json_valid b json expected now d revision d')
  then show ?case
    using change_configuration_effect [of json_valid b "Some json" expected now d revision d']
    by (intro tokens_grow_onI) (simp add: put_configuration_for_owner_def configs_ok_def changed_configs_grow)
next
  case (delete_step json_valid b expected now d revision d')
  then show ?case
    using change_configuration_effect [of json_valid b None expected now d revision d']
    by (intro tokens_grow_onI) (simp add: delete_configuration_for_owner_def configs_ok_def changed_configs_grow)
next
  case (claim_step max_day cc lease_for now d res d')
  then show ?case using claim_next_scan_effect by (intro tokens_grow_onI) simp
next
  case (page_step su c uuids now clock d ok d')
  from schedule_and_finish_cases [OF page_step(1)] show ?case
  proof (elim disjE conjE exE)
    fix page :: lifecycle_candidate_page and d1
    assume "ld_configs d1 = ld_configs d"
      "finish_scan_page_in_transaction (su_cursor su) c (cp_next_cursor page) (cp_cycle_complete page) now clock d1 = Inr (True, d')"
    then show ?case using finish_grow [of d1] page_step(2) by (intro tokens_grow_onI) (simp add: configs_ok_def)
  qed (use tokens_grow_onI [OF tokens_grow_refl [OF page_step(2)]] in simp)
next
  case (finish_step cc c next_cursor complete now clock d ok d')
  then show ?case unfolding finish_scan_page_def by (intro tokens_grow_onI) (rule finish_grow [rotated])
next
  case bucket_step
  then show ?case by (rule bucket_delete_tokens)
next
  case (queue_change d q)
  then show ?case using tokens_grow_refl by (intro tokens_grow_onI) simp
qed

lemma lifecycle_steps_grow:
  assumes "(lifecycle_step kept)\<^sup>*\<^sup>* d d'" "configs_ok d"
  shows "tokens_grow_on kept d d'"
  using assms
proof (induction rule: rtranclp_induct)
  case base
  then show ?case by (simp add: tokens_grow_on_def)
next
  case (step d1 d2)
  then show ?case
    using lifecycle_step_grow [OF step(2)] by (simp add: tokens_grow_on_def)
qed

section \<open>Superseded claims\<close>

inductive supersedes :: "string \<Rightarrow> lifecycle_db \<Rightarrow> lifecycle_db \<Rightarrow> bool" where
  by_claim: "claim_next_scan max_day cc lease_for now d = Inr (Some c, d') \<Longrightarrow> supersedes (cs_bucket c) d d'"
| by_put: "put_configuration_for_owner json_valid b json expected now d = Inr (revision, d') \<Longrightarrow> supersedes b d d'"
| by_delete: "delete_configuration_for_owner json_valid b expected now d = Inr (revision, d') \<Longrightarrow> supersedes b d d'"

lemma claim_token_reached:
  assumes "configs_ok d" "claim_next_scan max_day cc lease_for now d = Inr (Some c, d')"
  shows "token_reached (cs_bucket c) (claim_token c) (ld_configs d')"
    "token_reached (cs_bucket c) tok (ld_configs d) \<Longrightarrow> tok < claim_token c"
proof -
  obtain r where r: "r \<in> set (ld_configs d)" "scan_granted cc now c r"
    "ld_configs d' = update_rows (\<lambda>s. bl_bucket s = bl_bucket r) (claimed_config c) (ld_configs d)"
    using claim_next_scan_effect [OF assms, THEN conjunct2, THEN conjunct2, THEN spec, THEN mp, OF refl]
    by (elim bexE conjE) (rule that)
  have "(if bl_bucket r = bl_bucket r then claimed_config c r else r) \<in> set (ld_configs d')"
    unfolding r(3) set_update_rows using r(1) by (rule imageI)
  then have "claimed_config c r \<in> set (ld_configs d')" by simp
  then show "token_reached (cs_bucket c) (claim_token c) (ld_configs d')"
    unfolding token_reached_def using r(2)
    by (intro bexI [of _ "claimed_config c r"]) (simp_all add: scan_granted_def claimed_config_def fence_token_def claim_token_def)
  show "tok < claim_token c" if "token_reached (cs_bucket c) tok (ld_configs d)"
  proof -
    have "tok \<le> fence_token r"
      using assms(1) that r(1,2) by (intro token_reached_key) (simp_all add: configs_ok_def scan_granted_def)
    also have "fence_token r < claim_token c"
      using r(2) by (simp add: fence_token_def claim_token_def scan_granted_def less_prod_def)
    finally show ?thesis .
  qed
qed

lemma changed_token:
  assumes ok: "configs_ok d" and change: "change_configuration json_valid b json expected now d = Inr (revision, d')"
  shows "token_reached b (revision, 0) (ld_configs d')" "token_reached b tok (ld_configs d) \<Longrightarrow> fst tok < revision"
proof -
  note eff = change_configuration_effect [OF change]
  obtain r where "r \<in> set (ld_configs d')" "bl_bucket r = b" "fence_token r = (revision, 0)"
    using changed_configs_row [of b json revision now "ld_configs d", folded eff(1)] by (elim bexE conjE) (rule that)
  then show "token_reached b (revision, 0) (ld_configs d')"
    unfolding token_reached_def by (intro bexI [of _ r]) simp_all
  show "fst tok < revision" if reached: "token_reached b tok (ld_configs d)"
  proof -
    obtain s where s: "s \<in> set (ld_configs d)" "bl_bucket s = b" "tok \<le> fence_token s"
      using reached unfolding token_reached_def by (elim bexE conjE) (rule that)
    have "find_config b (ld_configs d) = Some s"
      using conf.find_by_key [OF _ s(1,2)] ok by (simp add: configs_ok_def)
    then have "revision = bl_revision s + 1"
      using eff(2) by (auto simp: next_revision_def checked_add_i64_def split: if_splits)
    then show ?thesis using s(3) by (cases tok) (auto simp: fence_token_def less_eq_prod_def)
  qed
qed

lemma supersedes_token:
  assumes "supersedes b d d'" "configs_ok d" "token_reached b tok (ld_configs d)"
  shows "\<exists>tok'. tok < tok' \<and> token_reached b tok' (ld_configs d')"
  using assms
proof (induction rule: supersedes.induct)
  case (by_claim max_day cc lease_for now d c d')
  then show ?case using claim_token_reached by (intro exI [of _ "claim_token c"]) simp
next
  case (by_put json_valid b json expected now d revision d')
  note changed = changed_token [OF by_put(2) by_put(1) [unfolded put_configuration_for_owner_def]]
  show ?case using changed(1) changed(2) [OF by_put(3)]
    by (intro exI [of _ "(revision, 0)"]) (simp add: less_prod_def')
next
  case (by_delete json_valid b expected now d revision d')
  note changed = changed_token [OF by_delete(2) by_delete(1) [unfolded delete_configuration_for_owner_def]]
  show ?case using changed(1) changed(2) [OF by_delete(3)]
    by (intro exI [of _ "(revision, 0)"]) (simp add: less_prod_def')
qed

lemma outgrown_no_fence:
  assumes "configs_ok d" "token_reached (cs_bucket c) tok (ld_configs d)" "claim_token c < tok" "r \<in> set (ld_configs d)"
  shows "\<not> page_fence c clock r"
proof
  assume fence: "page_fence c clock r"
  then have "fence_token r = claim_token c" by (simp add: page_fence_def fence_token_def claim_token_def)
  moreover have "tok \<le> fence_token r"
    using assms fence by (intro token_reached_key) (simp_all add: configs_ok_def page_fence_def)
  ultimately show False using assms(3) by simp
qed

text \<open>C33: A scan page of a superseded claim never takes effect. Let a worker claim a scan, let any
  lifecycle steps follow, let the scan be claimed again or the configuration be replaced or deleted,
  and let any steps follow that: when the first worker then schedules and finishes its page, the
  operation reports that it did not complete, none of the actions it scheduled is kept and the cursor
  of the successor does not move. Other buckets may be deleted meanwhile, but not the scanned one:
  deleting it deletes its row, and a bucket of the same name would start over with the same pairs.\<close>

theorem superseded_scan_page_is_dropped:
  assumes ok: "configs_ok d0" and claim: "claim_next_scan max_day cc lease_for t d0 = Inr (Some c, d1)"
    and kept: "cs_bucket c \<in> kept"
    and between: "(lifecycle_step kept)\<^sup>*\<^sup>* d1 d2" and superseded: "supersedes (cs_bucket c) d2 d3"
    and after: "(lifecycle_step kept)\<^sup>*\<^sup>* d3 d4"
    and finish: "schedule_and_finish_scan_page su c uuids now clock d4 = Inr (completed, d5)"
  shows "\<not> completed \<and> d5 = d4"
proof -
  have ok1: "configs_ok d1"
    using claim_next_scan_effect [OF ok claim] by (blast intro: tokens_growD)
  note grow12 = lifecycle_steps_grow [OF between ok1]
  note ok2 = tokens_grow_onD(1) [OF grow12]
  have "token_reached (cs_bucket c) (claim_token c) (ld_configs d2)"
    by (rule tokens_grow_onD(2) [OF grow12 kept claim_token_reached(1) [OF ok claim]])
  from supersedes_token [OF superseded ok2 this]
  obtain tok where tok: "claim_token c < tok" "token_reached (cs_bucket c) tok (ld_configs d3)" by (elim exE conjE)
  from superseded have "lifecycle_step kept d2 d3"
    by (cases rule: supersedes.cases) (auto intro: lifecycle_step.intros)
  then have ok3: "configs_ok d3" using lifecycle_step_grow [OF _ ok2] by (blast intro: tokens_grow_onD)
  note grow34 = lifecycle_steps_grow [OF after ok3]
  note d4 = tokens_grow_onD(2) [OF grow34 kept tok(2)] tokens_grow_onD(1) [OF grow34]
  have "False" if "ld_configs e = ld_configs d4"
    "finish_scan_page_in_transaction (su_cursor su) c next_cursor complete now clock e = Inr (True, d5)" for e next_cursor complete
  proof -
    have "count_rows (page_fence c clock) (ld_configs e) = 1"
      using finish_effect [OF that(2)] by (elim exE conjE) simp
    moreover have "count_rows (page_fence c clock) (ld_configs e) = 0"
      unfolding count_rows_0 that(1) using outgrown_no_fence [OF d4(2,1) tok(1)] by (intro ballI)
    ultimately show False by simp
  qed
  with schedule_and_finish_cases [OF finish] show ?thesis by (elim disjE conjE exE) simp_all
qed

section \<open>Configurations and cursors\<close>

lemma on_queue_lock: "on_queue (on_store (lock_bucket_for_ownership b)) d = Inr (x, d') \<Longrightarrow> d' = d"
  by (auto simp: on_queue_def bindR_eq_Inr dest!: on_store_lock_frame)

lemma lock_owner_Inr:
  assumes "lock_bucket_and_verify_owner b expected d = Inr (x, d')"
  shows "d' = d" "bucket_get b (qd_store (ld_queue d)) \<noteq> Inl e"
  using assms by (auto simp: lock_bucket_and_verify_owner_def bindT_eq_Inr dest!: on_queue_lock)

lemma change_configuration_bucket:
  assumes "change_configuration json_valid b json expected now d = Inr (revision, d')"
  shows "ld_queue d' = ld_queue d" "bucket_get b (qd_store (ld_queue d)) \<noteq> Inl e"
proof -
  obtain x d0 where "lock_bucket_and_verify_owner b expected d = Inr (x, d0)" "ld_queue d' = ld_queue d0"
    using assms by (auto simp: change_configuration_def bindT_eq_Inr lock_configuration_def upsert_configuration_def)
  then show "ld_queue d' = ld_queue d" "bucket_get b (qd_store (ld_queue d)) \<noteq> Inl e" using lock_owner_Inr by metis+
qed

lemma find_changed:
  assumes "distinct (map bl_bucket t)" "next_revision (find_config b t) = Inr revision"
  shows "Option.bind (find_config b (changed_configs b json revision now t)) bl_canonical_json = json"
    "b' \<noteq> b \<Longrightarrow> find_config b' (changed_configs b json revision now t) = find_config b' t"
proof -
  have dist: "distinct (map bl_bucket (changed_configs b json revision now t))"
    using changed_configs_grow [OF assms] by (simp add: tokens_grow_def)
  obtain r where r: "r \<in> set (changed_configs b json revision now t)" "bl_bucket r = b" "bl_canonical_json r = json"
    using changed_configs_row [of b json revision now t] by (elim bexE conjE) (rule that)
  have "find_config b (changed_configs b json revision now t) = Some r" by (rule conf.find_by_key [OF dist r(1,2)])
  then show "Option.bind (find_config b (changed_configs b json revision now t)) bl_canonical_json = json" using r(3) by simp
  show "find_config b' (changed_configs b json revision now t) = find_config b' t" if "b' \<noteq> b"
    unfolding changed_configs_def find_config_def using that
    by (simp add: one_row_append one_row_update_rows split: option.split)
      (auto simp: one_row_def find_Some_iff)
qed

text \<open>C35: A lifecycle configuration that was put is what is read until it is changed, and every change
  raises the bucket's revision. Putting leaves the configurations of other buckets alone, and after
  a later deletion the bucket reads as having none, under a revision above every earlier one.\<close>

theorem put_configuration_then_get:
  assumes ok: "configs_ok d" and put: "put_configuration_for_owner json_valid b json expected now d = Inr (revision, d1)"
    and delete: "delete_configuration_for_owner json_valid b expected' now' d1 = Inr (revision', d2)"
  shows "get_configuration b d1 = Inr json \<and> (b' \<noteq> b \<longrightarrow> get_configuration b' d1 = get_configuration b' d) \<and>
    (\<forall>r \<in> set (ld_configs d). bl_bucket r = b \<longrightarrow> bl_revision r < revision) \<and>
    get_configuration b d2 = Inl NoSuchLifecycleConfiguration \<and> revision < revision'"
proof -
  note put' = put [unfolded put_configuration_for_owner_def] and delete' = delete [unfolded delete_configuration_for_owner_def]
  have dist: "distinct (map bl_bucket (ld_configs d))" using ok by (simp add: configs_ok_def)
  note eff = change_configuration_effect [OF put'] and bucket = change_configuration_bucket [OF put']
  have ok1: "configs_ok d1"
    using changed_configs_grow [OF dist eff(2), of "Some json" now, folded eff(1)] by (rule tokens_growD)
  note eff1 = change_configuration_effect [OF delete'] and bucket1 = change_configuration_bucket [OF delete']
  obtain row where row: "bucket_get b (qd_store (ld_queue d)) = Inr row"
    using bucket(2) by (metis old.sum.exhaust)
  have get: "get_configuration b d1 = Inr json"
    using find_changed(1) [OF dist eff(2), of "Some json" now] row by (simp add: get_configuration_def bucket(1) eff(1))
  have others: "get_configuration b' d1 = get_configuration b' d" if "b' \<noteq> b"
    using find_changed(2) [OF dist eff(2) that] by (simp add: get_configuration_def bucket(1) eff(1))
  have "fst (fence_token r) < revision" if "r \<in> set (ld_configs d)" "bl_bucket r = b" for r
    by (rule changed_token(2) [OF ok put'], unfold token_reached_def) (use that in \<open>intro bexI [of _ r], simp_all\<close>)
  then have below: "\<forall>r \<in> set (ld_configs d). bl_bucket r = b \<longrightarrow> bl_revision r < revision"
    by (simp add: fence_token_def)
  have gone: "get_configuration b d2 = Inl NoSuchLifecycleConfiguration"
    using find_changed(1) [OF ok1 [unfolded configs_ok_def] eff1(2), of None now'] row
    by (simp add: get_configuration_def bucket1(1) bucket(1) eff1(1))
  have "revision < revision'"
    using changed_token(2) [OF ok1 delete' changed_token(1) [OF ok put']] by simp
  then show ?thesis using get others below gone by blast
qed

definition cursor_roundtrips :: "cursor_codec \<Rightarrow> lifecycle_scan_cursor \<Rightarrow> bool" where
  "cursor_roundtrips cc x \<longleftrightarrow> cc_unbase64 cc (cc_base64 cc (cc_to_json cc x)) = Some (cc_to_json cc x) \<and>
     cc_of_json cc (cc_to_json cc x) = Some x"

lemma decode_encoded:
  "cursor_roundtrips cc x \<Longrightarrow> decode_stored_cursor cc (encode_cursor (cc_to_json cc) (cc_base64 cc) x) b = Inr y \<Longrightarrow> y = x"
  by (auto simp: cursor_roundtrips_def decode_stored_cursor_def map_err_def decode_cursor_def encode_cursor_def bindR_eq_Inr
      split: sum.splits)

lemma finished_row:
  assumes "distinct (map bl_bucket t)" "count_rows (page_fence c clock) t = 1"
    and s: "s \<in> set (update_rows (page_fence c clock) (finished_config stored now) t)" "bl_bucket s = cs_bucket c"
  shows "bl_scan_cursor s = stored \<and> bl_revision s = cs_config_revision c \<and> bl_scan_lease_epoch s = cs_lease_epoch c"
proof -
  have "\<exists>r \<in> set t. page_fence c clock r" using assms(2) count_rows_0 [of "page_fence c clock" t] by auto
  then obtain r where r: "r \<in> set t" "page_fence c clock r" by (elim bexE)
  from s(1) obtain r' where r': "r' \<in> set t" "s = (if page_fence c clock r' then finished_config stored now r' else r')"
    unfolding set_update_rows by (elim imageE) (rule that)
  have "bl_bucket r' = bl_bucket r" using r'(2) r(2) s(2) by (simp add: finished_config_def page_fence_def split: if_splits)
  then have "r' = r" by (rule inj_onD [rotated, OF _ r'(1) r(1)]) (use assms(1) in \<open>simp add: distinct_map\<close>)
  then show ?thesis using r r' by (simp add: finished_config_def page_fence_def)
qed

text \<open>C34: A scan resumes where it stopped. When a worker has finished a page, the next claim of the
  bucket's scan carries exactly the page's next cursor, or none when the page completed the cycle,
  under the same revision and the next epoch, and the actions the page scheduled are kept. The JSON
  and base64 of the cursor are assumed to read back what they wrote.\<close>

theorem scan_resumes_where_it_stopped:
  assumes ok: "configs_ok d"
    and page: "schedule_claimed_scan_page (su_max_day su) (su_uuid_parser su) (su_identity su) (su_config_of_json su) c
        (su_scan_page_size su) uuids (ld_queue d) = Inr (page, q)"
    and codec: "list_all (cursor_roundtrips (su_cursor su)) (case cp_next_cursor page of None \<Rightarrow> [] | Some x \<Rightarrow> [x])"
    and finish: "schedule_and_finish_scan_page su c uuids now clock d = Inr (True, d1)"
    and claim: "claim_next_scan max_day (su_cursor su) lease_for t d1 = Inr (Some c', d2)" "cs_bucket c' = cs_bucket c"
  shows "ld_queue d1 = q \<and> cs_cursor c' = (if cp_cycle_complete page then None else cp_next_cursor page) \<and>
    cs_config_revision c' = cs_config_revision c \<and> cs_lease_epoch c' = cs_lease_epoch c + 1"
proof -
  let ?cc = "su_cursor su"
  have "finish_scan_page_in_transaction ?cc c (cp_next_cursor page) (cp_cycle_complete page) now clock (d\<lparr>ld_queue := q\<rparr>) = Inr (True, d1)"
    using finish page unfolding schedule_and_finish_scan_page_def
    by (auto simp: on_queue_def bindT_def split: sum.splits prod.splits bool.splits)
  from finish_effect [OF this] obtain stored where
    d1: "d1 = d\<lparr>ld_queue := q, ld_configs := update_rows (page_fence c clock) (finished_config stored now) (ld_configs d)\<rparr>"
      "count_rows (page_fence c clock) (ld_configs d) = 1" and
    stored: "if cp_cycle_complete page then stored = None
      else traverse_option (\<lambda>x. let e = encode_cursor (cc_to_json ?cc) (cc_base64 ?cc) x in
        bindR (decode_stored_cursor ?cc e (cs_bucket c)) (\<lambda>_. Inr e)) (cp_next_cursor page) = Inr stored"
    by (elim exE conjE) (rule that, simp_all)
  have dist: "distinct (map bl_bucket (ld_configs d))" using ok by (simp add: configs_ok_def)
  have ok1: "configs_ok d1"
    using dist unfolding configs_ok_def d1(1) by (simp add: map_update_rows finished_config_def)
  obtain s where s: "s \<in> set (ld_configs d1)" "scan_granted ?cc t c' s"
    using claim_next_scan_effect [OF ok1 claim(1), THEN conjunct2, THEN conjunct2, THEN spec, THEN mp, OF refl]
    by (elim bexE conjE) (rule that)
  have row: "bl_scan_cursor s = stored \<and> bl_revision s = cs_config_revision c \<and> bl_scan_lease_epoch s = cs_lease_epoch c"
    using s claim(2) by (intro finished_row [OF dist d1(2), of s stored now]) (simp_all add: d1(1) scan_granted_def)
  have decoded: "traverse_option (\<lambda>e. decode_stored_cursor ?cc e (cs_bucket c)) stored = Inr (cs_cursor c')"
    using s(2) row claim(2) by (simp add: scan_granted_def)
  have "cs_cursor c' = (if cp_cycle_complete page then None else cp_next_cursor page)"
  proof (cases "cp_cycle_complete page \<or> cp_next_cursor page = None")
    case True
    then have "stored = None" using stored by (auto simp: traverse_option_eq_Inr split: if_splits)
    then show ?thesis using True decoded by auto
  next
    case False
    then obtain x where x: "\<not> cp_cycle_complete page" "cp_next_cursor page = Some x" by auto
    then have "stored = Some (encode_cursor (cc_to_json ?cc) (cc_base64 ?cc) x)"
      using stored by (auto simp: Let_def bindR_eq_Inr)
    with decoded obtain y where "decode_stored_cursor ?cc (encode_cursor (cc_to_json ?cc) (cc_base64 ?cc) x) (cs_bucket c) = Inr y"
      "cs_cursor c' = Some y" by (auto simp: bindR_eq_Inr)
    then show ?thesis using decode_encoded [of ?cc x] codec x by simp
  qed
  then show ?thesis using s(2) row d1(1) by (simp add: scan_granted_def)
qed

section \<open>A sample run\<close>

definition sample_cursor :: lifecycle_scan_cursor where
  "sample_cursor = \<lparr>lc_source = SourceCurrent, lc_bucket = ''b'', lc_key = ''k'', lc_sequence = Some 1,
     lc_version_row_id = Some ''v1'', lc_multipart_created_at = None, lc_multipart_upload_id = None\<rparr>"

text \<open>One rule that expires objects after a day. The claims are taken two days later.\<close>

definition sample_setup :: scan_setup where
  "sample_setup = \<lparr>su_max_day = 100000, su_uuid_parser = Some, su_identity = plain_codec,
     su_cursor = \<lparr>cc_to_json = (\<lambda>c. lc_key c), cc_base64 = id, cc_unbase64 = Some, cc_of_json = (\<lambda>_. Some sample_cursor)\<rparr>,
     su_config_of_json = (\<lambda>_. Some \<lparr>clc_schema_version = 1,
       clc_rules = [base_rule\<lparr>clr_id := Some ''x'', clr_expiration := Some (ExpirationDays 1)\<rparr>]\<rparr>),
     su_scan_lease = 10, su_scan_page_size = 1\<rparr>"

definition unconfigured :: lifecycle_db where
  "unconfigured = \<lparr>ld_queue = sample_scan_db, ld_configs = []\<rparr>"

definition configured :: lifecycle_db where
  "configured = snd (projr (put_configuration_for_owner (\<lambda>_. True) ''b'' ''{}'' None 1 unconfigured))"

definition sample_scan :: "datetime \<Rightarrow> lifecycle_db \<Rightarrow> claimed_lifecycle_scan \<times> lifecycle_db" where
  "sample_scan t d = (case projr (claim_next_scan 100000 (su_cursor sample_setup) 10 t d) of (c, d') \<Rightarrow> (the c, d'))"

definition early_scan :: claimed_lifecycle_scan where
  "early_scan = fst (sample_scan (3 * day_ns) configured)"

definition scanning :: lifecycle_db where
  "scanning = snd (sample_scan (3 * day_ns) configured)"

definition rescanning :: lifecycle_db where
  "rescanning = snd (sample_scan (3 * day_ns + 10) scanning)"

definition page_done :: lifecycle_db where
  "page_done = snd (projr (schedule_and_finish_scan_page sample_setup early_scan (\<lambda>_. ''a1'') (3 * day_ns + 1) (3 * day_ns + 1) scanning))"

definition sample_page :: "lifecycle_candidate_page \<times> queue_db" where
  "sample_page = projr (schedule_claimed_scan_page 100000 Some plain_codec (su_config_of_json sample_setup) early_scan 1
     (\<lambda>_. ''a1'') (ld_queue scanning))"

lemma sample_put: "put_configuration_for_owner (\<lambda>_. True) ''b'' ''{}'' None 1 unconfigured = Inr (1, configured)"
  by code_simp

lemma sample_scans:
  "claim_next_scan 100000 (su_cursor sample_setup) 10 (3 * day_ns) configured = Inr (Some early_scan, scanning)"
  "claim_next_scan 100000 (su_cursor sample_setup) 10 (3 * day_ns + 10) scanning =
     Inr (Some (fst (sample_scan (3 * day_ns + 10) scanning)), rescanning)"
  "cs_bucket (fst (sample_scan (3 * day_ns + 10) scanning)) = cs_bucket early_scan"
  by code_simp+

lemma sample_configs_ok: "configs_ok unconfigured" "configs_ok configured" "configs_ok scanning"
  by code_simp+

lemma sample_pages:
  "schedule_and_finish_scan_page sample_setup early_scan (\<lambda>_. ''a1'') (3 * day_ns + 1) (3 * day_ns + 1) scanning = Inr (True, page_done)"
  "schedule_claimed_scan_page (su_max_day sample_setup) (su_uuid_parser sample_setup) (su_identity sample_setup)
     (su_config_of_json sample_setup) early_scan (su_scan_page_size sample_setup) (\<lambda>_. ''a1'') (ld_queue scanning) =
     Inr (fst sample_page, snd sample_page)"
  by code_simp+

lemma sample_late_page:
  "schedule_and_finish_scan_page sample_setup early_scan (\<lambda>_. ''a1'') (3 * day_ns + 11) (3 * day_ns + 11) rescanning =
     Inr (False, rescanning)"
  by code_simp

theorem superseded_scan_page_is_dropped_witness:
  "claim_next_scan 100000 (su_cursor sample_setup) 10 (3 * day_ns) configured = Inr (Some early_scan, scanning) \<and>
   supersedes (cs_bucket early_scan) scanning rescanning \<and>
   (\<exists>completed d5. schedule_and_finish_scan_page sample_setup early_scan (\<lambda>_. ''a1'') (3 * day_ns + 11) (3 * day_ns + 11)
      rescanning = Inr (completed, d5) \<and> \<not> completed \<and> d5 = rescanning)"
proof -
  have sup: "supersedes (cs_bucket early_scan) scanning rescanning"
    using by_claim [OF sample_scans(2)] by (simp only: sample_scans(3))
  note dropped = superseded_scan_page_is_dropped [OF sample_configs_ok(2) sample_scans(1) singletonI rtranclp.rtrancl_refl sup
    rtranclp.rtrancl_refl sample_late_page]
  show ?thesis
    by (intro conjI exI) (rule sample_scans(1) sup sample_late_page conjunct1 [OF dropped] conjunct2 [OF dropped])+
qed

definition unconfigured_again :: lifecycle_db where
  "unconfigured_again = snd (projr (delete_configuration_for_owner (\<lambda>_. True) ''b'' None 2 configured))"

lemma sample_delete: "delete_configuration_for_owner (\<lambda>_. True) ''b'' None 2 configured = Inr (2, unconfigured_again)"
  by code_simp

theorem put_configuration_then_get_witness:
  "put_configuration_for_owner (\<lambda>_. True) ''b'' ''{}'' None 1 unconfigured = Inr (1, configured) \<and>
   delete_configuration_for_owner (\<lambda>_. True) ''b'' None 2 configured = Inr (2, unconfigured_again) \<and>
   get_configuration ''b'' configured = Inr ''{}'' \<and>
   get_configuration ''c'' configured = get_configuration ''c'' unconfigured \<and>
   get_configuration ''b'' unconfigured_again = Inl NoSuchLifecycleConfiguration"
  using put_configuration_then_get [OF sample_configs_ok(1) sample_put sample_delete, of "''c''"] sample_put sample_delete
  by simp

definition resumed_scan :: claimed_lifecycle_scan where
  "resumed_scan = fst (sample_scan (3 * day_ns + 2) page_done)"

lemma sample_resumes:
  "claim_next_scan 100000 (su_cursor sample_setup) 10 (3 * day_ns + 2) page_done =
     Inr (Some resumed_scan, snd (sample_scan (3 * day_ns + 2) page_done))"
  "cs_bucket resumed_scan = cs_bucket early_scan"
  "cp_next_cursor (fst sample_page) = Some sample_cursor" "\<not> cp_cycle_complete (fst sample_page)"
  by code_simp+

theorem scan_resumes_where_it_stopped_witness:
  "schedule_and_finish_scan_page sample_setup early_scan (\<lambda>_. ''a1'') (3 * day_ns + 1) (3 * day_ns + 1) scanning =
     Inr (True, page_done) \<and>
   cursor_roundtrips (su_cursor sample_setup) sample_cursor \<and> cs_cursor resumed_scan = Some sample_cursor \<and>
   cs_config_revision resumed_scan = cs_config_revision early_scan"
proof -
  have codec: "cursor_roundtrips (su_cursor sample_setup) sample_cursor"
    by (simp add: cursor_roundtrips_def sample_setup_def)
  then show ?thesis
    using scan_resumes_where_it_stopped [OF sample_configs_ok(3) sample_pages(2) _ sample_pages(1) sample_resumes(1,2)]
      sample_pages(1) sample_resumes(3,4) by simp
qed

end
