(* ===== verification/Ownership_Batches.thy ===== *)
theory Ownership_Batches
  imports Import_Admission
begin

text \<open>
  What the paginated loops of the ownership protocol compute. Every loop is shown equal to one
  statement over the whole table: releasing the destinations of a job, revoking the overlapping
  tokens, and superseding the overlapping jobs, which the code finds as the lowest identifiers of
  four paginated sources. The first two are instances of one sweep, the locale \<open>row_sweep\<close>.
\<close>

section \<open>Pages\<close>

lemma batch_size_pos: "0 < OWNERSHIP_BATCH_SIZE"
  by (simp add: OWNERSHIP_BATCH_SIZE_def)

lemma set_page_of: "r \<in> set (page_of k P after t) \<Longrightarrow> r \<in> set t \<and> P r \<and> past after (k r)"
  unfolding page_of_def by (auto dest!: in_set_takeD)

lemma page_of_Nil: "page_of k P after t = [] \<longleftrightarrow> (\<forall>r \<in> set t. \<not> (P r \<and> past after (k r)))"
  using batch_size_pos by (auto simp: page_of_def sort_key_Nil filter_empty_conv)

lemma page_of_rest:
  assumes "r \<in> set t" "P r" "past after (k r)" "r \<notin> set (page_of k P after t)" "distinct (map k (filter P t))"
  shows "page_of k P after t \<noteq> []" "k (last (page_of k P after t)) < k r"
proof -
  let ?s = "sort_key k (filter (\<lambda>r. P r \<and> past after (k r)) t)"
  have "r \<in> set (take OWNERSHIP_BATCH_SIZE ?s @ drop OWNERSHIP_BATCH_SIZE ?s)"
    using assms(1-3) unfolding append_take_drop_id by simp
  then have r: "r \<in> set (drop OWNERSHIP_BATCH_SIZE ?s)"
    using assms(4) unfolding page_of_def set_append by blast
  then have "?s \<noteq> []" by auto
  then show ne: "page_of k P after t \<noteq> []"
    unfolding page_of_def using batch_size_pos by simp
  have "sorted (map k ?s)" by simp
  moreover have "distinct (map k ?s)"
  proof -
    have "filter (\<lambda>r. P r \<and> past after (k r)) t = filter (\<lambda>r. past after (k r)) (filter P t)"
      by (simp add: conj_commute)
    then have "distinct (map k (filter (\<lambda>r. P r \<and> past after (k r)) t))"
      using assms(5) distinct_map_filter by metis
    then show ?thesis by (simp add: distinct_map)
  qed
  ultimately have "sorted_wrt (<) (map k ?s)"
    by (simp add: strict_sorted_iff)
  then have "sorted_wrt (<) (map k (page_of k P after t) @ map k (drop OWNERSHIP_BATCH_SIZE ?s))"
    unfolding page_of_def by (metis append_take_drop_id map_append)
  moreover have "k (last (page_of k P after t)) \<in> set (map k (page_of k P after t))"
    using ne by simp
  ultimately show "k (last (page_of k P after t)) < k r"
    using r by (auto simp: sorted_wrt_append)
qed

lemma past_last:
  assumes "page_of k P after t \<noteq> []" "distinct (map k (filter P t))" "r \<in> set t" "P r" "past after (k r)"
  shows "r \<in> set (page_of k P after t) \<or> past (Some (k (last (page_of k P after t)))) (k r)"
  using page_of_rest [of r t P after k] assms by auto

lemma past_weaken: "past after a \<Longrightarrow> past (Some a) b \<Longrightarrow> past after b"
  by (cases after) auto

section \<open>A sweep over destinations\<close>

definition with_destinations :: "import_destination_model list \<Rightarrow> import_db \<Rightarrow> import_db" where
  "with_destinations t d = d\<lparr>im_queue := (im_queue d)\<lparr>qd_destinations := t\<rparr>\<rparr>"

lemma with_destinations_sel [simp]:
  "im_destinations (with_destinations t d) = t" "im_jobs (with_destinations t d) = im_jobs d"
  "im_prefix_claims (with_destinations t d) = im_prefix_claims d" "im_targets (with_destinations t d) = im_targets d"
  "im_mutation_leases (with_destinations t d) = im_mutation_leases d"
  "qd_store (im_queue (with_destinations t d)) = qd_store (im_queue d)"
  "with_destinations t' (with_destinations t d) = with_destinations t' d"
  "with_destinations (im_destinations d) d = d"
  by (simp_all add: with_destinations_def)

definition destinations_keyed :: "import_db \<Rightarrow> bool" where
  "destinations_keyed d \<longleftrightarrow> distinct (map dst_pk (im_destinations d))"

lemma keyed_unique:
  assumes "destinations_keyed d" "r \<in> set (im_destinations d)" "s \<in> set (im_destinations d)" "dst_pk r = dst_pk s"
  shows "r = s"
  using assms unfolding destinations_keyed_def distinct_map by (meson inj_onD)

lemma update_destinations_with:
  "update_destinations P f d = Inr (count_rows P (im_destinations d), with_destinations (update_rows P f (im_destinations d)) d)"
  by (simp add: update_destinations_def with_destinations_def)

lemma update_rows_cong:
  "(\<And>r. r \<in> set t \<Longrightarrow> P r \<longleftrightarrow> Q r) \<Longrightarrow> (\<And>r. r \<in> set t \<Longrightarrow> P r \<Longrightarrow> f r = g r) \<Longrightarrow> update_rows P f t = update_rows Q g t"
  by (simp add: update_rows_def)

locale row_sweep =
  fixes sel hit :: "import_destination_model \<Rightarrow> bool"
    and upd :: "import_destination_model \<Rightarrow> import_destination_model"
    and sweep_step :: "import_destination_model \<Rightarrow> (import_db, unit) tx"
  assumes step_closed: "destinations_keyed d \<Longrightarrow> r \<in> set (im_destinations d) \<Longrightarrow> sel r \<Longrightarrow> sweep_step r d = Inr (u, d') \<Longrightarrow>
      d' = with_destinations (update_rows (\<lambda>s. hit s \<and> dst_pk s = dst_pk r) upd (im_destinations d)) d"
    and hit_sel: "hit r \<Longrightarrow> sel r"
    and upd_pk: "dst_pk (upd r) = dst_pk r"
    and upd_done: "\<not> sel (upd r)"
begin

lemma keyed_update: "destinations_keyed d \<Longrightarrow> destinations_keyed (with_destinations (update_rows P upd (im_destinations d)) d)"
  using map_update_rows [of dst_pk upd P "im_destinations d", OF upd_pk] by (simp add: destinations_keyed_def)

lemma compose:
  assumes "\<And>s. A s \<Longrightarrow> A (upd s)" "\<And>s. B s \<Longrightarrow> B (upd s)"
  shows "update_rows (\<lambda>s. hit s \<and> A s) upd (update_rows (\<lambda>s. hit s \<and> B s) upd t) = update_rows (\<lambda>s. hit s \<and> (A s \<or> B s)) upd t"
  using hit_sel upd_done by (auto simp: update_rows_def)

lemma rows_closed:
  assumes "destinations_keyed d" "distinct (map dst_pk rs)" "\<forall>r \<in> set rs. r \<in> set (im_destinations d) \<and> sel r"
    "for_each sweep_step rs d = Inr (u, d')"
  shows "d' = with_destinations (update_rows (\<lambda>s. hit s \<and> dst_pk s \<in> dst_pk ` set rs) upd (im_destinations d)) d"
  using assms
proof (induction rs arbitrary: d)
  case Nil
  then have "d' = d" by simp
  then show ?case by (simp add: update_rows_none)
next
  case (Cons r rs)
  from Cons.prems(4) obtain u1 d1 where 1: "sweep_step r d = Inr (u1, d1)" and 2: "for_each sweep_step rs d1 = Inr (u, d')"
    by (rule for_each_ConsE)
  have d1: "d1 = with_destinations (update_rows (\<lambda>s. hit s \<and> dst_pk s = dst_pk r) upd (im_destinations d)) d"
    using step_closed [OF Cons.prems(1) _ _ 1] Cons.prems(3) by simp
  have "destinations_keyed d1"
    unfolding d1 by (rule keyed_update [OF Cons.prems(1)])
  moreover have "\<forall>s \<in> set rs. s \<in> set (im_destinations d1) \<and> sel s"
  proof
    fix s assume s: "s \<in> set rs"
    then have "dst_pk s \<in> set (map dst_pk rs)" by force
    with Cons.prems(2) have "dst_pk s \<noteq> dst_pk r"
      by (metis (no_types, lifting) distinct.simps(2) list.simps(9))
    with s Cons.prems(3) show "s \<in> set (im_destinations d1) \<and> sel s"
      unfolding d1 by (simp add: update_rows_keep)
  qed
  ultimately have "d' = with_destinations (update_rows (\<lambda>s. hit s \<and> dst_pk s \<in> dst_pk ` set rs) upd (im_destinations d1)) d1"
    using Cons.IH [OF _ _ _ 2] Cons.prems(2) by simp
  then show ?case
    unfolding d1 with_destinations_sel
    by (subst (asm) compose) (simp_all add: upd_pk [unfolded prod.inject] disj_commute)
qed

lemma page_closed:
  fixes key :: "import_destination_model \<Rightarrow> 'k::linorder"
  assumes keyed: "destinations_keyed d" and inj: "distinct (map key (filter sel (im_destinations d)))"
    and upd_key: "\<And>r. key (upd r) = key r"
    and page: "page = page_of key sel after (im_destinations d)" "page \<noteq> []"
    and pages: "for_each sweep_step page d = Inr (u, d1)"
    and rest: "d' = with_destinations (update_rows (\<lambda>s. hit s \<and> past (Some (key (last page))) (key s)) upd (im_destinations d1)) d1"
  shows "d' = with_destinations (update_rows (\<lambda>s. hit s \<and> past after (key s)) upd (im_destinations d)) d"
proof -
  have sub: "\<forall>r \<in> set page. r \<in> set (im_destinations d) \<and> sel r"
    unfolding page(1) by (auto dest: set_page_of)
  have "distinct page"
    using inj unfolding page(1) page_of_def by (auto simp: distinct_map conj_commute intro!: distinct_take) (metis distinct_filter filter_filter)
  then have dist: "distinct (map dst_pk page)"
    using keyed sub unfolding distinct_map inj_on_def by (meson keyed_unique)
  have d1: "d1 = with_destinations (update_rows (\<lambda>s. hit s \<and> dst_pk s \<in> dst_pk ` set page) upd (im_destinations d)) d"
    by (rule rows_closed [OF keyed dist sub pages])
  have "d' = with_destinations (update_rows (\<lambda>s. hit s \<and> (past (Some (key (last page))) (key s) \<or> dst_pk s \<in> dst_pk ` set page)) upd
      (im_destinations d)) d"
    unfolding rest d1 with_destinations_sel by (subst compose) (simp_all add: upd_key upd_pk [unfolded prod.inject])
  moreover have "hit s \<and> (past (Some (key (last page))) (key s) \<or> dst_pk s \<in> dst_pk ` set page) \<longleftrightarrow> hit s \<and> past after (key s)"
    if s: "s \<in> set (im_destinations d)" for s
  proof -
    have 1: "past after (key (last page))" using page page_of_last(3) by metis
    have 2: "s \<in> set page" if "dst_pk s \<in> dst_pk ` set page"
      using that sub s keyed_unique [OF keyed s] by blast
    have 3: "past after (key s)" if "s \<in> set page"
      using that set_page_of unfolding page(1) by metis
    show ?thesis
      using past_last [OF page(2) [unfolded page(1)] inj s] hit_sel 1 2 3 past_weaken page(1) by blast
  qed
  ultimately show ?thesis
    by (simp cong: update_rows_cong)
qed

end

section \<open>Releasing the destinations of a job\<close>

definition owned_by :: "string \<Rightarrow> import_destination_model \<Rightarrow> bool" where
  "owned_by i r \<longleftrightarrow> dst_owner_job_id r = Some i"

definition released :: "(string \<times> string) option \<Rightarrow> datetime \<Rightarrow> import_destination_model \<Rightarrow> import_destination_model" where
  "released iv now r =
     r\<lparr>dst_owner_job_id := None, dst_updated_at := now,
       dst_generation := (if invalidated_by iv r then dst_generation r + 1 else dst_generation r)\<rparr>"

lemma next_generation_Inr: "next_generation r = Inr g \<Longrightarrow> g = dst_generation r + 1"
  by (auto simp: next_generation_def checked_add_i64_def ok_or_def split: if_splits option.splits)

lemma update_at_row:
  assumes "destinations_keyed d" "r \<in> set (im_destinations d)" "\<And>s. P s \<Longrightarrow> dst_pk s = dst_pk r" "\<And>s. Q s \<Longrightarrow> dst_pk s = dst_pk r"
    "P r \<longleftrightarrow> Q r" "P r \<Longrightarrow> f r = g r"
  shows "update_rows P f (im_destinations d) = update_rows Q g (im_destinations d)"
proof (rule update_rows_cong)
  fix s assume s: "s \<in> set (im_destinations d)"
  have u: "s = r" if "dst_pk s = dst_pk r" by (rule keyed_unique [OF assms(1) s assms(2) that])
  show "P s \<longleftrightarrow> Q s" using u assms(3,4,5) by blast
  show "f s = g s" if "P s" using u assms(3,6) that by metis
qed

lemma release_destination_closed:
  assumes "destinations_keyed d" "r \<in> set (im_destinations d)" "owned_by i r" "release_destination i iv now r d = Inr (u, d')"
  shows "d' = with_destinations (update_rows (\<lambda>s. owned_by i s \<and> dst_pk s = dst_pk r) (released iv now) (im_destinations d)) d"
proof -
  from assms(4) obtain g d1 where 1: "(if invalidated_by iv r then liftT (bindR (next_generation r) (\<lambda>g. Inr (Some g))) else returnT None) d = Inr (g, d1)"
    and 2: "bindT (update_destinations (\<lambda>s. destination_at (dst_bucket r) (dst_key r) s \<and> dst_owner_job_id s = Some i)
              (\<lambda>s. s\<lparr>dst_owner_job_id := None, dst_updated_at := now,
                     dst_generation := (case g of None \<Rightarrow> dst_generation s | Some n \<Rightarrow> n)\<rparr>)) (\<lambda>_. returnT ()) d1 = Inr (u, d')"
    unfolding release_destination_def by (rule bindT_InrE)
  have g: "d1 = d" "(case g of None \<Rightarrow> dst_generation r | Some n \<Rightarrow> n) =
      (if invalidated_by iv r then dst_generation r + 1 else dst_generation r)"
    using 1 by (auto simp: liftT_def bindR_eq_Inr dest: next_generation_Inr split: if_splits sum.splits)
  let ?f = "\<lambda>s. s\<lparr>dst_owner_job_id := None, dst_updated_at := now,
                     dst_generation := (case g of None \<Rightarrow> dst_generation s | Some n \<Rightarrow> n)\<rparr>"
  have "update_rows (\<lambda>s. destination_at (dst_bucket r) (dst_key r) s \<and> dst_owner_job_id s = Some i) ?f (im_destinations d) =
      update_rows (\<lambda>s. owned_by i s \<and> dst_pk s = dst_pk r) (released iv now) (im_destinations d)"
    by (rule update_at_row [OF assms(1,2)]) (use assms(3) g(2) in \<open>simp_all add: destination_at_def owned_by_def released_def\<close>)
  then show ?thesis
    using 2 g(1) by (simp add: bindT_def update_destinations_with)
qed

interpretation release: row_sweep "owned_by i" "owned_by i" "released iv now" "release_destination i iv now" for i iv now
proof (unfold_locales, goal_cases)
  case (1 d r u d')
  then show ?case by (rule release_destination_closed)
qed (simp_all add: released_def owned_by_def)

lemma bindR_pairE:
  assumes "(case x of Inl e \<Rightarrow> Inl e | Inr (_, s') \<Rightarrow> f s') = Inr y"
  obtains u s' where "x = Inr (u, s')" "f s' = Inr y"
  using assms by (auto split: sum.splits)

lemma release_destinations_closed:
  assumes "destinations_keyed d" "release_destinations i iv now after d = Inr (u, d')"
  shows "d' = with_destinations (update_rows (\<lambda>s. owned_by i s \<and> past after (dst_pk s)) (released iv now) (im_destinations d)) d"
  using assms
proof (induction i iv now after d rule: release_destinations.induct)
  case (1 i iv now after d)
  let ?page = "page_of dst_pk (\<lambda>r. dst_owner_job_id r = Some i) after (im_destinations d)"
  have inj: "distinct (map dst_pk (filter (owned_by i) (im_destinations d)))"
    using "1.prems"(1) unfolding destinations_keyed_def by (rule distinct_map_filter)
  show ?case
  proof (cases "?page = []")
    case True
    with "1.prems"(2) have "d' = d" by (simp add: release_destinations.simps [of i iv now after d])
    with True show ?thesis by (simp add: page_of_Nil owned_by_def update_rows_none)
  next
    case False
    from "1.prems"(2) obtain u1 d1 where f: "for_each (release_destination i iv now) ?page d = Inr (u1, d1)"
      and r: "release_destinations i iv now (Some (dst_pk (last ?page))) d1 = Inr (u, d')"
      unfolding release_destinations.simps [of i iv now after d] Let_def if_not_P [OF False] by (rule bindR_pairE)
    have "map dst_pk (im_destinations d1) = map dst_pk (im_destinations d)"
      by (rule for_each_invariant [OF f, where g = "\<lambda>d. map dst_pk (im_destinations d)"]) (rule release_destination_pk)
    then have "destinations_keyed d1"
      using "1.prems"(1) by (simp add: destinations_keyed_def)
    note IH = "1.IH" [OF refl False f refl this r]
    show ?thesis
      by (rule release.page_closed [OF "1.prems"(1) inj _ _ _ f IH]) (use False in \<open>simp_all add: owned_by_def [abs_def] released_def\<close>)
  qed
qed

section \<open>Revoking the overlapping tokens\<close>

definition revoked_by :: "string \<Rightarrow> string list \<Rightarrow> string option \<Rightarrow> import_destination_model \<Rightarrow> bool" where
  "revoked_by b ks mp r \<longleftrightarrow> with_token b r \<and> (exact_overlap ks r \<or> prefix_overlap mp r)"

lemma invalidate_destination_closed:
  assumes "destinations_keyed d" "r \<in> set (im_destinations d)" "with_token b r" "invalidate_destination b ks mp now r d = Inr (u, d')"
  shows "d' = with_destinations (update_rows (\<lambda>s. revoked_by b ks mp s \<and> dst_pk s = dst_pk r) (cleared_token now) (im_destinations d)) d"
proof (cases "exact_overlap ks r \<or> prefix_overlap mp r")
  case True
  from assms(3) obtain t where t: "dst_mutation_id r = Some t" "b = dst_bucket r"
    by (auto simp: with_token_def)
  have "d' = with_destinations (update_rows (\<lambda>s. destination_at b (dst_key r) s \<and> dst_mutation_id s = Some t) (cleared_token now) (im_destinations d)) d"
    using assms(4) True t(1) by (simp add: invalidate_destination_def bindT_def liftT_def update_destinations_with guardT_def split: if_splits)
  moreover have "update_rows (\<lambda>s. destination_at b (dst_key r) s \<and> dst_mutation_id s = Some t) (cleared_token now) (im_destinations d) =
      update_rows (\<lambda>s. revoked_by b ks mp s \<and> dst_pk s = dst_pk r) (cleared_token now) (im_destinations d)"
    by (rule update_at_row [OF assms(1,2)]) (use True t in \<open>auto simp: destination_at_def revoked_by_def with_token_def\<close>)
  ultimately show ?thesis by simp
next
  case False
  then have "d' = d" using assms(4) by (simp add: invalidate_destination_def)
  moreover have "\<not> (revoked_by b ks mp s \<and> dst_pk s = dst_pk r)" if "s \<in> set (im_destinations d)" for s
    using keyed_unique [OF assms(1,2) that] False unfolding revoked_by_def by metis
  ultimately show ?thesis by (simp add: update_rows_none)
qed

interpretation revoke: row_sweep "with_token b" "revoked_by b ks mp" "cleared_token now" "invalidate_destination b ks mp now" for b ks mp now
proof (unfold_locales, goal_cases)
  case (1 d r u d')
  then show ?case by (rule invalidate_destination_closed)
qed (simp_all add: cleared_token_def revoked_by_def with_token_def)

lemma invalidate_destination_pk:
  "invalidate_destination b ks mp now r d = Inr (u, d') \<Longrightarrow> map dst_pk (im_destinations d') = map dst_pk (im_destinations d)"
  unfolding invalidate_destination_def
  by (auto simp: bindT_eq_Inr update_destinations_def update_rows_def split: if_splits)

lemma distinct_key_in_bucket:
  assumes "destinations_keyed d" "\<And>r. P r \<Longrightarrow> dst_bucket r = b"
  shows "distinct (map dst_key (filter P (im_destinations d)))"
proof -
  have "distinct (map dst_pk (filter P (im_destinations d)))"
    using assms(1) unfolding destinations_keyed_def by (rule distinct_map_filter)
  then show ?thesis
    using assms(2) by (auto simp: distinct_map inj_on_def)
qed

lemma with_token_distinct: "destinations_keyed d \<Longrightarrow> distinct (map dst_key (filter (with_token b) (im_destinations d)))"
  by (rule distinct_key_in_bucket [of d _ b]) (simp_all add: with_token_def)

lemma invalidate_from_closed:
  assumes "destinations_keyed d" "invalidate_standard_mutations_from b ks mp now after d = Inr (u, d')"
  shows "d' = with_destinations (update_rows (\<lambda>s. revoked_by b ks mp s \<and> past after (dst_key s)) (cleared_token now) (im_destinations d)) d"
  using assms
proof (induction b ks mp now after d rule: invalidate_standard_mutations_from.induct)
  case (1 b ks mp now after d)
  let ?page = "page_of dst_key (with_token b) after (im_destinations d)"
  show ?case
  proof (cases "?page = []")
    case True
    with "1.prems"(2) have "d' = d" by (simp add: invalidate_standard_mutations_from.simps [of b ks mp now after d])
    with True show ?thesis by (simp add: page_of_Nil revoked_by_def update_rows_none)
  next
    case False
    from "1.prems"(2) obtain u1 d1 where f: "for_each (invalidate_destination b ks mp now) ?page d = Inr (u1, d1)"
      and r: "invalidate_standard_mutations_from b ks mp now (Some (dst_key (last ?page))) d1 = Inr (u, d')"
      unfolding invalidate_standard_mutations_from.simps [of b ks mp now after d] Let_def if_not_P [OF False] by (rule bindR_pairE)
    have "map dst_pk (im_destinations d1) = map dst_pk (im_destinations d)"
      by (rule for_each_invariant [OF f, where g = "\<lambda>d. map dst_pk (im_destinations d)"]) (rule invalidate_destination_pk)
    then have "destinations_keyed d1"
      using "1.prems"(1) by (simp add: destinations_keyed_def)
    note IH = "1.IH" [OF refl False f refl this r]
    show ?thesis
      by (rule revoke.page_closed [OF "1.prems"(1) with_token_distinct [OF "1.prems"(1)] _ _ _ f IH]) (use False in simp_all)
  qed
qed

lemma invalidate_in_order_closed:
  "destinations_keyed d \<Longrightarrow> invalidate_standard_mutations_in_order b ks mp now d = Inr (u, d') \<Longrightarrow>
   d' = with_destinations (update_rows (revoked_by b ks mp) (cleared_token now) (im_destinations d)) d"
  unfolding invalidate_standard_mutations_in_order_def by (drule (1) invalidate_from_closed) simp

section \<open>Superseding a set of jobs\<close>

definition owned_in :: "string set \<Rightarrow> import_destination_model \<Rightarrow> bool" where
  "owned_in A r \<longleftrightarrow> (\<exists>i \<in> A. dst_owner_job_id r = Some i)"

definition freed :: "(string \<Rightarrow> (string \<times> string) option) \<Rightarrow> datetime \<Rightarrow> import_destination_model \<Rightarrow> import_destination_model" where
  "freed ivf now r = (case dst_owner_job_id r of None \<Rightarrow> r | Some i \<Rightarrow> released (ivf i) now r)"

definition superseded_all ::
  "string set \<Rightarrow> (string \<Rightarrow> (string \<times> string) option) \<Rightarrow> datetime \<Rightarrow> import_db \<Rightarrow> import_db" where
  "superseded_all A ivf now d =
     (with_destinations (update_rows (owned_in A) (freed ivf now) (im_destinations d)) d)
       \<lparr>im_jobs := update_rows (\<lambda>j. ij_id j \<in> A \<and> unfinished (ij_state j)) (superseded_job now) (im_jobs d),
        im_prefix_claims := delete_rows (\<lambda>c. pc_job_id c \<in> A) (im_prefix_claims d),
        im_targets := delete_rows (\<lambda>t. jt_job_id t \<in> A) (im_targets d)\<rparr>"

lemma superseded_all_sel [simp]:
  "im_destinations (superseded_all A ivf now d) = update_rows (owned_in A) (freed ivf now) (im_destinations d)"
  "im_jobs (superseded_all A ivf now d) = update_rows (\<lambda>j. ij_id j \<in> A \<and> unfinished (ij_state j)) (superseded_job now) (im_jobs d)"
  "im_prefix_claims (superseded_all A ivf now d) = delete_rows (\<lambda>c. pc_job_id c \<in> A) (im_prefix_claims d)"
  "im_targets (superseded_all A ivf now d) = delete_rows (\<lambda>t. jt_job_id t \<in> A) (im_targets d)"
  "im_mutation_leases (superseded_all A ivf now d) = im_mutation_leases d"
  "qd_store (im_queue (superseded_all A ivf now d)) = qd_store (im_queue d)"
  by (simp_all add: superseded_all_def with_destinations_def)

lemma superseded_state [simp]: "\<not> unfinished (ij_state (superseded_job now j))"
  by (simp add: superseded_job_def unfinished_def STATE_SUPERSEDED_def STATE_QUEUED_def STATE_RUNNING_def)

lemma freed_sel [simp]:
  "dst_bucket (freed ivf now r) = dst_bucket r" "dst_key (freed ivf now r) = dst_key r"
  "dst_owner_job_id (freed ivf now r) = None" "dst_mutation_id (freed ivf now r) = dst_mutation_id r"
  "dst_mutation_prefix (freed ivf now r) = dst_mutation_prefix r"
  by (auto simp: freed_def released_def split: option.splits)

lemma superseded_all_compose:
  "superseded_all B ivf now (superseded_all A ivf now d) = superseded_all (A \<union> B) ivf now d"
proof -
  have "update_rows (owned_in B) (freed ivf now) (update_rows (owned_in A) (freed ivf now) t) = update_rows (owned_in (A \<union> B)) (freed ivf now) t" for t
    by (auto simp: update_rows_def owned_in_def)
  moreover have "update_rows (\<lambda>j. ij_id j \<in> B \<and> unfinished (ij_state j)) (superseded_job now)
      (update_rows (\<lambda>j. ij_id j \<in> A \<and> unfinished (ij_state j)) (superseded_job now) t) =
      update_rows (\<lambda>j. ij_id j \<in> A \<union> B \<and> unfinished (ij_state j)) (superseded_job now) t" for t
    by (auto simp: update_rows_def)
  ultimately show ?thesis
    by (simp add: superseded_all_def with_destinations_def delete_rows_def conj_commute)
qed

lemma superseded_none [simp]: "superseded_all {} ivf now d = d"
  by (simp add: superseded_all_def with_destinations_def owned_in_def update_rows_none delete_rows_def)

lemma superseded_all_cong:
  assumes "A = B" "\<And>i. i \<in> B \<Longrightarrow> ivf i = ivg i"
  shows "superseded_all A ivf now d = superseded_all B ivg now d"
proof -
  have "update_rows (owned_in B) (freed ivf now) t = update_rows (owned_in B) (freed ivg now) t" for t
    by (rule update_rows_cong) (use assms(2) in \<open>auto simp: owned_in_def freed_def\<close>)
  then show ?thesis using assms(1) by (simp add: superseded_all_def)
qed

definition jobs_keyed :: "import_db \<Rightarrow> bool" where
  "jobs_keyed d \<longleftrightarrow> distinct (map ij_id (im_jobs d))"

lemma keyed_superseded [simp]:
  "destinations_keyed (superseded_all A ivf now d) \<longleftrightarrow> destinations_keyed d"
  "jobs_keyed (superseded_all A ivf now d) \<longleftrightarrow> jobs_keyed d"
  by (simp_all add: destinations_keyed_def jobs_keyed_def map_update_rows)

lemma job_active_superseded [simp]: "job_active (superseded_all A ivf now d) i \<longleftrightarrow> job_active d i \<and> i \<notin> A"
proof -
  have "(\<exists>j \<in> set (update_rows (\<lambda>j. ij_id j \<in> A \<and> unfinished (ij_state j)) (superseded_job now) t). ij_id j = i \<and> unfinished (ij_state j)) \<longleftrightarrow>
      (\<exists>j \<in> set t. ij_id j = i \<and> unfinished (ij_state j)) \<and> i \<notin> A" for t
    by (induction t) (auto simp: update_rows_def)
  then show ?thesis by (simp add: job_active_def)
qed

lemma find_job_active:
  assumes "jobs_keyed d" "find_job_for_update i d = Inr (Some job)"
  shows "unfinished (js_state job) \<longleftrightarrow> job_active d i"
proof -
  from assms(2) obtain j where j: "one_row (\<lambda>j. ij_id j = i) (im_jobs d) = Some j" "js_state job = ij_state j"
    by (cases "one_row (\<lambda>j. ij_id j = i) (im_jobs d)") (auto simp: find_job_for_update_def split: if_splits)
  from one_row_SomeD [OF j(1)] have jm: "j \<in> set (im_jobs d)" "ij_id j = i" by simp_all
  have "k = j" if "k \<in> set (im_jobs d)" "ij_id k = i" for k
    using assms(1) that jm unfolding jobs_keyed_def distinct_map inj_on_def by metis
  then show ?thesis unfolding job_active_def j(2) using jm by blast
qed

lemma release_job_closed:
  assumes "destinations_keyed d" "release_job_ownership_with_invalidation i iv now d = Inr (u, d')"
  shows "d' = (with_destinations (update_rows (owned_by i) (released iv now) (im_destinations d)) d)
       \<lparr>im_prefix_claims := delete_rows (\<lambda>c. pc_job_id c = i) (im_prefix_claims d),
        im_targets := delete_rows (\<lambda>t. jt_job_id t = i) (im_targets d)\<rparr>"
proof (cases "release_destinations i iv now None d")
  case (Inr y)
  obtain u1 d1 where y: "y = (u1, d1)" by (cases y)
  have d1: "d1 = with_destinations (update_rows (owned_by i) (released iv now) (im_destinations d)) d"
    using release_destinations_closed [OF assms(1) Inr [unfolded y]] by simp
  show ?thesis using assms(2) unfolding release_job_ownership_eq Inr y d1 by simp
qed (use assms(2) in \<open>simp add: release_job_ownership_eq\<close>)

lemma supersede_job_closed:
  assumes "destinations_keyed d" "jobs_keyed d" "supersede_job_with_destination_invalidation i iv now d = Inr (u, d')"
  shows "d' = superseded_all (if job_active d i then {i} else {}) (\<lambda>_. iv) now d"
proof (cases "find_job_for_update i d")
  case (Inr found)
  show ?thesis
  proof (cases found)
    case (Some job)
    note act = find_job_active [OF assms(2) Inr [unfolded Some]]
    show ?thesis
    proof (cases "unfinished (js_state job)")
      case True
      let ?d = "d\<lparr>im_jobs := update_rows (\<lambda>j. ij_id j = i \<and> unfinished (ij_state j)) (superseded_job now) (im_jobs d)\<rparr>"
      from assms(3) Inr Some True have r: "release_job_ownership_with_invalidation i iv now ?d = Inr (u, d')"
        by (simp add: supersede_job_eq split: if_splits)
      have k: "destinations_keyed ?d" using assms(1) by (simp add: destinations_keyed_def)
      have "update_rows (owned_by i) (released iv now) t = update_rows (owned_in {i}) (freed (\<lambda>_. iv) now) t" for t
        by (rule update_rows_cong) (auto simp: owned_by_def owned_in_def freed_def)
      then show ?thesis
        using release_job_closed [OF k r] act True
        by (simp add: superseded_all_def with_destinations_def)
    qed (use assms(3) Inr Some act in \<open>simp add: supersede_job_eq\<close>)
  qed (use assms(3) Inr in \<open>simp add: supersede_job_eq\<close>)
qed (use assms(3) in \<open>simp add: supersede_job_eq\<close>)

section \<open>Superseding the overlapping jobs\<close>

text \<open>The jobs of \<open>T\<close> are those an ordered map \<open>m\<close> marks.\<close>

definition marks :: "(string \<times> bool) list \<Rightarrow> string set \<Rightarrow> bool" where
  "marks m T \<longleftrightarrow> (\<forall>(i, v) \<in> set m. v \<longleftrightarrow> i \<in> T)"

lemma marks_subset: "marks m T \<Longrightarrow> set m' \<subseteq> set m \<Longrightarrow> marks m' T"
  unfolding marks_def by blast

lemma or_insert_other: "(k, x) \<in> set (or_insert i v m) \<Longrightarrow> k \<noteq> i \<Longrightarrow> (k, x) \<in> set m"
  by (induction i v m rule: or_insert.induct) (auto split: if_splits)

lemma or_insert_self:
  "(i, x) \<in> set (or_insert i v m) \<Longrightarrow> sorted_wrt (<) (map fst m) \<Longrightarrow>
   (\<exists>w. (i, w) \<in> set m \<and> x = (w \<or> v)) \<or> i \<notin> set (map fst m) \<and> x = v"
proof (induction i v m rule: or_insert.induct)
  case (2 i v j w m)
  have above: "j < k" if "(k, y) \<in> set m" for k y using 2(3) that by force
  consider "i < j" | "i = j" | "j < i" by fastforce
  then show ?case
  proof cases
    case 1
    have out: "i \<notin> set (map fst ((j, w) # m))" using 1 above by force
    then have "(i, x) \<notin> set ((j, w) # m)" by force
    with 1 2(2) have "x = v" by auto
    with out show ?thesis by blast
  next
    case i: 2
    have "(i, x) \<notin> set m" using above i by blast
    with i 2(2) have "x = (w \<or> v)" by simp
    with i show ?thesis by auto
  next
    case 3
    then have ne: "\<not> i < j" "i \<noteq> j" by order+
    with 2(2) have "(i, x) \<in> set (or_insert i v m)" by simp
    from 2(1) [OF ne this] 2(3) ne(2) show ?thesis by simp
  qed
qed simp

lemma marks_or_insert:
  assumes "lowest m U" "marks m T" "i \<notin> set (map fst m) \<Longrightarrow> i \<notin> T"
  shows "marks (or_insert i v m) (if v then insert i T else T)"
proof -
  have "x \<longleftrightarrow> k \<in> (if v then insert i T else T)" if kx: "(k, x) \<in> set (or_insert i v m)" for k x
  proof (cases "k = i")
    case True
    have "sorted_wrt (<) (map fst m)" using assms(1) unfolding lowest_def by blast
    with kx True assms(2,3) show ?thesis
      by (auto simp: marks_def dest!: or_insert_self)
  next
    case False
    then show ?thesis using or_insert_other [OF kx False] assms(2) by (auto simp: marks_def)
  qed
  then show ?thesis unfolding marks_def by blast
qed

text \<open>
  An identifier that was dropped from the map is above every identifier the map keeps, so it is
  dropped again and its mark never matters.
\<close>

lemma marks_step:
  assumes low: "lowest m U" and marks: "marks m T" and sub: "T \<subseteq> U"
  shows "marks (insert_conflicting_job after ex v i m) (if v then T \<union> {i} \<inter> admissible after ex else T)"
proof (cases "i \<in> admissible after ex")
  case False
  then have "insert_conflicting_job after ex v i m = m"
    by (auto simp: insert_conflicting_job_def admissible_def)
  with False marks show ?thesis by simp
next
  case adm: True
  let ?m = "or_insert i v m"
  have ins: "insert_conflicting_job after ex v i m = (if length ?m > OWNERSHIP_BATCH_SIZE then butlast ?m else ?m)"
    using adm by (auto simp: insert_conflicting_job_def admissible_def Let_def)
  show ?thesis
  proof (cases "i \<in> U \<and> i \<notin> set (map fst m)")
    case False
    have "marks ?m (if v then insert i T else T)"
      by (rule marks_or_insert [OF low marks]) (use False sub in blast)
    then have "marks (insert_conflicting_job after ex v i m) (if v then insert i T else T)"
      by (rule marks_subset) (simp add: ins, blast dest: in_set_butlastD)
    with adm show ?thesis by (simp split: if_splits)
  next
    case True
    then have full: "length m = OWNERSHIP_BATCH_SIZE" "\<forall>j \<in> set (map fst m). j < i"
      using low unfolding lowest_def by blast+
    have "or_insert i v n = n @ [(i, v)]" if "\<forall>j \<in> set (map fst n). j < i" for n
      using that by (induction i v n rule: or_insert.induct) auto
    from this [OF full(2)] have "or_insert i v m = m @ [(i, v)]" .
    then have "insert_conflicting_job after ex v i m = m"
      unfolding ins by (simp add: full(1))
    moreover have "(i, w) \<notin> set m" for w using True by force
    then have "marks m (if v then insert i T else T)" using marks unfolding marks_def by auto
    ultimately show ?thesis using adm by (simp split: if_splits)
  qed
qed

lemma marks_fold:
  assumes "lowest m U" "marks m T" "T \<subseteq> U"
  shows "marks (fold (insert_conflicting_job after ex v) is m) (if v then T \<union> set is \<inter> admissible after ex else T)"
  using assms
proof (induction "is" arbitrary: m U T)
  case (Cons i "is")
  let ?T = "if v then T \<union> {i} \<inter> admissible after ex else T"
  have "?T \<subseteq> U \<union> {i} \<inter> admissible after ex" using Cons.prems(3) by auto
  from Cons.IH [OF lowest_step [OF Cons.prems(1)] marks_step [OF Cons.prems] this]
  have "marks (fold (insert_conflicting_job after ex v) (i # is) m) (if v then ?T \<union> set is \<inter> admissible after ex else ?T)"
    by simp
  moreover have "(if v then ?T \<union> set is \<inter> admissible after ex else ?T) = (if v then T \<union> set (i # is) \<inter> admissible after ex else T)"
    by auto
  ultimately show ?case by (simp only:)
qed simp

lemma marks_page:
  assumes low: "lowest m (U \<union> set ids \<inter> admissible after ex)" and marks: "marks m (T \<union> set (identifiers_page after ex ids))"
    and kept: "set (identifiers_page after ex ids) \<subseteq> U \<union> set ids \<inter> admissible after ex"
  shows "marks m (T \<union> set ids \<inter> admissible after ex)"
proof -
  let ?p = "identifiers_page after ex ids"
  have "i \<in> set ?p" if i: "i \<in> set (map fst m)" "i \<in> set ids \<inter> admissible after ex" for i
  proof (rule ccontr)
    assume out: "i \<notin> set ?p"
    note r = identifiers_page_rest [OF i(2) out]
    have "x \<in> set (map fst m)" if "x \<in> set ?p" for x
    proof (rule ccontr)
      assume "x \<notin> set (map fst m)"
      then have "i < x" using low that kept i(1) unfolding lowest_def by blast
      moreover have "x < i" using r(2) that by blast
      ultimately show False by order
    qed
    then have "insert i (set ?p) \<subseteq> set (map fst m)" using i(1) by blast
    then have "card (insert i (set ?p)) \<le> card (set (map fst m))" by (rule card_mono [rotated]) simp
    moreover have "card (set (map fst m)) \<le> length m" by (metis card_length length_map)
    moreover have "card (set ?p) = OWNERSHIP_BATCH_SIZE"
      using r(1) distinct_identifiers_page distinct_card by metis
    moreover have "length m \<le> OWNERSHIP_BATCH_SIZE" using low unfolding lowest_def by blast
    ultimately show False using out by simp
  qed
  then have same: "i \<in> T \<union> set ?p \<longleftrightarrow> i \<in> T \<union> set ids \<inter> admissible after ex" if "i \<in> set (map fst m)" for i
    using subsetD [OF set_identifiers_page [of after ex ids], of i] that by blast
  have "v \<longleftrightarrow> i \<in> T \<union> set ids \<inter> admissible after ex" if iv: "(i, v) \<in> set m" for i v
  proof -
    have "i \<in> set (map fst m)" using iv by force
    from same [OF this] marks iv show ?thesis unfolding marks_def by blast
  qed
  then show ?thesis
    unfolding marks_def by blast
qed

lemma marks_page_fold:
  assumes "lowest m U" "marks m T" "T \<subseteq> U"
  shows "marks (fold (insert_conflicting_job after ex True) (identifiers_page after ex ids) m) (T \<union> set ids \<inter> admissible after ex)"
proof (rule marks_page [OF lowest_page_fold [OF assms(1)]])
  have "set (identifiers_page after ex ids) \<inter> admissible after ex = set (identifiers_page after ex ids)"
    using set_identifiers_page [of after ex ids] by blast
  with marks_fold [OF assms, of after ex True "identifiers_page after ex ids"]
  show "marks (fold (insert_conflicting_job after ex True) (identifiers_page after ex ids) m) (T \<union> set (identifiers_page after ex ids))"
    by simp
qed (rule subset_trans [OF set_identifiers_page Un_upper2])

definition invalidated_jobs :: "string \<Rightarrow> string option \<Rightarrow> import_db \<Rightarrow> string set" where
  "invalidated_jobs b mp d =
     (case mp of None \<Rightarrow> {} | Some p \<Rightarrow> set (prefix_owners_for_prefix b p d) \<union> set (destination_owners_for_prefix b p d))"

lemma marks_targets:
  "lowest m U \<Longrightarrow> marks m {} \<Longrightarrow> marks (fold (conflicts_of_target b after ex d) ts m) {}"
proof (induction ts arbitrary: m U)
  case (Cons t ts)
  let ?p = "identifiers_page after ex (prefix_owners_for_key b (fst t) d)"
  have 1: "marks (fold (insert_conflicting_job after ex False) ?p m) {}"
    using marks_fold [OF Cons.prems, of after ex False ?p] by simp
  have "marks (conflicts_of_target b after ex d t m) {}"
  proof (cases "snd t")
    case None
    with 1 show ?thesis by (simp add: conflicts_of_target_def prefix_owner_jobs_for_key_def)
  next
    case (Some i)
    with marks_step [OF lowest_fold [OF Cons.prems(1)] 1 empty_subsetI, of after ex False i] show ?thesis
      by (simp add: conflicts_of_target_def prefix_owner_jobs_for_key_def)
  qed
  with Cons.IH [OF lowest_target [OF Cons.prems(1)]] show ?case by simp
qed simp

lemma marks_conflicting_jobs:
  "marks (conflicting_jobs b ts mp ex after d) (invalidated_jobs b mp d \<inter> admissible after ex)"
proof -
  have l0: "lowest [] {}" "marks [] {}" by (simp_all add: lowest_def marks_def)
  note l = lowest_targets [OF l0(1), of b after ex d ts] and m = marks_targets [OF l0, of b after ex d ts]
  show ?thesis
  proof (cases mp)
    case None
    with m show ?thesis by (simp add: conflicting_jobs_def invalidated_jobs_def)
  next
    case (Some p)
    note m1 = marks_page_fold [OF l m empty_subsetI, of after ex "prefix_owners_for_prefix b p d"]
    have "{} \<union> set (prefix_owners_for_prefix b p d) \<inter> admissible after ex \<subseteq>
        {} \<union> overlapping b ts None d \<inter> admissible after ex \<union> set (prefix_owners_for_prefix b p d) \<inter> admissible after ex"
      by blast
    note m2 = marks_page_fold [OF lowest_page_fold [OF l] m1 this, of after ex "destination_owners_for_prefix b p d"]
    have "invalidated_jobs b mp d \<inter> admissible after ex = {} \<union> set (prefix_owners_for_prefix b p d) \<inter> admissible after ex \<union>
        set (destination_owners_for_prefix b p d) \<inter> admissible after ex"
      using Some by (auto simp: invalidated_jobs_def)
    with m2 Some show ?thesis
      by (simp add: conflicting_jobs_def prefix_owner_jobs_for_prefix_def destination_owner_jobs_for_prefix_def)
  qed
qed

lemma supersede_conflicting_closed:
  assumes "destinations_keyed d" "jobs_keyed d" "supersede_conflicting b mp now (i, v) d = Inr (u, d')"
  shows "d' = superseded_all (if job_active d i then {i} else {}) (\<lambda>_. if v then map_option (Pair b) mp else None) now d"
proof (rule supersede_job_closed [OF assms(1,2)])
  show "supersede_job_with_destination_invalidation i (if v then map_option (Pair b) mp else None) now d = Inr (u, d')"
    using assms(3) by (cases v; cases mp) (simp_all add: supersede_conflicting_def bindT_def liftT_def)
qed

definition marked_invalidation :: "string \<Rightarrow> string option \<Rightarrow> string set \<Rightarrow> string \<Rightarrow> (string \<times> string) option" where
  "marked_invalidation b mp T i = (if i \<in> T then map_option (Pair b) mp else None)"

lemma supersede_round_closed:
  assumes "destinations_keyed d" "jobs_keyed d" "distinct (map fst m)" "marks m T"
    "for_each (supersede_conflicting b mp now) m d = Inr (u, d')"
  shows "d' = superseded_all {i \<in> set (map fst m). job_active d i} (marked_invalidation b mp T) now d"
  using assms
proof (induction m arbitrary: d)
  case (Cons c m)
  obtain i v where c: "c = (i, v)" by (cases c)
  let ?A = "if job_active d i then {i} else {}"
  from Cons.prems(5) obtain u1 d1 where 1: "supersede_conflicting b mp now c d = Inr (u1, d1)"
    and 2: "for_each (supersede_conflicting b mp now) m d1 = Inr (u, d')"
    by (rule for_each_ConsE)
  have v: "v \<longleftrightarrow> i \<in> T" using Cons.prems(4) by (simp add: marks_def c)
  have d1: "d1 = superseded_all ?A (marked_invalidation b mp T) now d"
    unfolding supersede_conflicting_closed [OF Cons.prems(1,2) 1 [unfolded c]]
    by (rule superseded_all_cong) (simp_all add: marked_invalidation_def v split: if_splits)
  have "d' = superseded_all {j \<in> set (map fst m). job_active d1 j} (marked_invalidation b mp T) now d1"
    by (rule Cons.IH [OF _ _ _ _ 2]) (use Cons.prems in \<open>simp_all add: d1 marks_def\<close>)
  moreover have "{j \<in> set (map fst m). job_active d1 j} = {j \<in> set (map fst m). job_active d j}"
    using Cons.prems(3) by (auto simp: d1 c)
  ultimately have "d' = superseded_all (?A \<union> {j \<in> set (map fst m). job_active d j}) (marked_invalidation b mp T) now d"
    by (simp only: d1 superseded_all_compose)
  moreover have "?A \<union> {j \<in> set (map fst m). job_active d j} = {j \<in> set (map fst (c # m)). job_active d j}"
    by (auto simp: c)
  ultimately show ?case by (simp only:)
qed simp

lemma overlap_superseded:
  assumes "i \<notin> A"
  shows "i \<in> overlapping b ts mp (superseded_all A ivf now d) \<longleftrightarrow> i \<in> overlapping b ts mp d"
    and "i \<in> invalidated_jobs b mp (superseded_all A ivf now d) \<longleftrightarrow> i \<in> invalidated_jobs b mp d"
proof -
  have k: "i \<in> set (prefix_owners_for_key b k (superseded_all A ivf now d)) \<longleftrightarrow> i \<in> set (prefix_owners_for_key b k d)" for k
    using assms by (auto simp: prefix_owners_for_key_def delete_rows_def)
  have p: "i \<in> set (prefix_owners_for_prefix b p (superseded_all A ivf now d)) \<longleftrightarrow> i \<in> set (prefix_owners_for_prefix b p d)" for p
    using assms by (auto simp: prefix_owners_for_prefix_def delete_rows_def)
  have "(\<exists>r \<in> set (update_rows (owned_in A) (freed ivf now) t). dst_bucket r = b \<and> starts_with (dst_key r) p \<and> dst_owner_job_id r = Some i) \<longleftrightarrow>
      (\<exists>r \<in> set t. dst_bucket r = b \<and> starts_with (dst_key r) p \<and> dst_owner_job_id r = Some i)" for t p
    using assms by (induction t) (auto simp: update_rows_def owned_in_def)
  then have q: "i \<in> set (destination_owners_for_prefix b p (superseded_all A ivf now d)) \<longleftrightarrow> i \<in> set (destination_owners_for_prefix b p d)" for p
    using assms by (simp add: in_destination_owners)
  show "i \<in> overlapping b ts mp (superseded_all A ivf now d) \<longleftrightarrow> i \<in> overlapping b ts mp d"
    "i \<in> invalidated_jobs b mp (superseded_all A ivf now d) \<longleftrightarrow> i \<in> invalidated_jobs b mp d"
    by (simp_all add: overlapping_def invalidated_jobs_def k p q split: option.splits)
qed

lemma admissible_split:
  assumes "lowest m (V \<inter> admissible after ex)" "m \<noteq> []"
  shows "V \<inter> admissible after ex = set (map fst m) \<union> V \<inter> admissible (Some (fst (last m))) ex"
    and "set (map fst m) \<inter> admissible (Some (fst (last m))) ex = {}"
proof -
  let ?l = "fst (last m)"
  have l: "?l \<in> set (map fst m)" using assms(2) by simp
  have low: "set (map fst m) \<subseteq> V \<inter> admissible after ex" "\<And>u. u \<in> V \<inter> admissible after ex \<Longrightarrow> u \<notin> set (map fst m) \<Longrightarrow> ?l < u"
    using assms(1) l unfolding lowest_def by blast+
  have "past after ?l" using low(1) l unfolding admissible_def by blast
  then have "V \<inter> admissible (Some ?l) ex \<subseteq> V \<inter> admissible after ex"
    unfolding admissible_def by (auto dest: past_weaken)
  moreover have "u \<in> V \<inter> admissible (Some ?l) ex" if "u \<in> V \<inter> admissible after ex" "u \<notin> set (map fst m)" for u
    using low(2) [OF that] that(1) unfolding admissible_def by simp
  ultimately show "V \<inter> admissible after ex = set (map fst m) \<union> V \<inter> admissible (Some ?l) ex"
    using low(1) by blast
  have "sorted_wrt (<) (map fst m)" using assms(1) unfolding lowest_def by blast
  then have "u \<le> ?l" if "u \<in> set (map fst m)" for u
    using that assms(2) sorted_wrt_last [of "map fst m" u] set_butlast [of "map fst m"] by (auto simp: last_map)
  then show "set (map fst m) \<inter> admissible (Some ?l) ex = {}"
    by (fastforce simp: admissible_def)
qed

lemma supersede_conflicts_from_closed:
  assumes "destinations_keyed d" "jobs_keyed d" "supersede_conflicts_from b ts mp ex now after d = Inr (u, d')"
  shows "d' = superseded_all {i \<in> overlapping b ts mp d \<inter> admissible after ex. job_active d i}
               (marked_invalidation b mp (invalidated_jobs b mp d)) now d"
  using assms
proof (induction b ts mp ex now after d rule: supersede_conflicts_from.induct)
  case (1 b ts mp ex now after d)
  let ?m = "conflicting_jobs b ts mp ex after d"
  let ?T = "invalidated_jobs b mp d"
  let ?V = "overlapping b ts mp d"
  note low = lowest_conflicting_jobs [of b ts mp ex after d]
  show ?case
  proof (cases "?m = []")
    case True
    with "1.prems"(3) have "d' = d" by (simp add: supersede_conflicts_from.simps [of b ts mp ex now after d])
    moreover have "?V \<inter> admissible after ex = {}"
      using low True batch_size_pos unfolding lowest_def by auto
    ultimately show ?thesis by simp
  next
    case False
    let ?l = "fst (last ?m)"
    let ?f = "marked_invalidation b mp ?T"
    from "1.prems"(3) obtain u1 d1 where f: "for_each (supersede_conflicting b mp now) ?m d = Inr (u1, d1)"
      and r: "supersede_conflicts_from b ts mp ex now (Some ?l) d1 = Inr (u, d')"
      unfolding supersede_conflicts_from.simps [of b ts mp ex now after d] Let_def if_not_P [OF False] by (rule bindR_pairE)
    have "sorted_wrt (<) (map fst ?m)" using low unfolding lowest_def by blast
    then have dist: "distinct (map fst ?m)" by (simp add: strict_sorted_iff)
    have sub: "set (map fst ?m) \<subseteq> ?V \<inter> admissible after ex" by (rule set_conflicting_jobs)
    let ?A = "{i \<in> set (map fst ?m). job_active d i}"
    have "d1 = superseded_all ?A (marked_invalidation b mp (?T \<inter> admissible after ex)) now d"
      by (rule supersede_round_closed [OF "1.prems"(1,2) dist marks_conflicting_jobs f])
    also have "\<dots> = superseded_all ?A ?f now d"
      by (rule superseded_all_cong) (use sub in \<open>auto simp: marked_invalidation_def\<close>)
    finally have d1: "d1 = superseded_all ?A ?f now d" .
    have k: "destinations_keyed d1" "jobs_keyed d1" using "1.prems"(1,2) by (simp_all add: d1)
    let ?B = "{i \<in> ?V \<inter> admissible (Some ?l) ex. job_active d i}"
    note split = admissible_split [OF low False]
    have B: "{i \<in> overlapping b ts mp d1 \<inter> admissible (Some ?l) ex. job_active d1 i} = ?B"
      using overlap_superseded(1) [of _ ?A b ts mp ?f now d] split(2) unfolding d1 job_active_superseded by blast
    have "d' = superseded_all ?B (marked_invalidation b mp (invalidated_jobs b mp d1)) now d1"
      using "1.IH" [OF refl False f refl k r] unfolding B .
    also have "\<dots> = superseded_all ?B ?f now d1"
    proof (rule superseded_all_cong [OF refl])
      fix i assume "i \<in> ?B"
      then have "i \<notin> ?A" using split(2) by blast
      from overlap_superseded(2) [OF this, of b mp ?f now d]
      show "marked_invalidation b mp (invalidated_jobs b mp d1) i = ?f i"
        by (simp add: marked_invalidation_def d1)
    qed
    also have "\<dots> = superseded_all (?A \<union> ?B) ?f now d"
      unfolding d1 by (rule superseded_all_compose)
    also have "?A \<union> ?B = {i \<in> ?V \<inter> admissible after ex. job_active d i}"
      unfolding split(1) by blast
    finally show ?thesis .
  qed
qed

definition conflicting :: "string \<Rightarrow> (string \<times> string option) list \<Rightarrow> string option \<Rightarrow> string option \<Rightarrow> import_db \<Rightarrow> string set" where
  "conflicting b ts mp ex d = {i \<in> overlapping b ts mp d. ex \<noteq> Some i \<and> job_active d i}"

lemma supersede_conflicts_closed:
  assumes "destinations_keyed d" "jobs_keyed d" "supersede_conflicts_in_order b ts mp ex now d = Inr (u, d')"
  shows "d' = superseded_all (conflicting b ts mp ex d) (marked_invalidation b mp (invalidated_jobs b mp d)) now d"
proof -
  have "{i \<in> overlapping b ts mp d \<inter> admissible None ex. job_active d i} = conflicting b ts mp ex d"
    by (auto simp: conflicting_def admissible_def)
  with supersede_conflicts_from_closed [OF assms(1,2) assms(3) [unfolded supersede_conflicts_in_order_def]]
  show ?thesis by (simp only:)
qed

end
