(* ===== verification/Ownership_Fencing.thy ===== *)
theory Ownership_Fencing
  imports Ownership_Batches Bucket_Deletion
begin

text \<open>
  Fencing of the ownership protocol. Along every transaction but the deletion of a bucket the
  generation of a destination never decreases, and a token or an owner appears only together with a
  new generation. Both are one preorder on states, \<open>advances_from T\<close>, in which new tokens come from
  the set \<open>T\<close>; the locale \<open>tx_preorder\<close> gives the rules by which a transaction keeps a preorder that its
  statements keep. The transactions of the protocol are the steps of \<open>ownership_step\<close>.
\<close>

section \<open>Transactions that keep a preorder\<close>

definition keeps :: "('s \<Rightarrow> 's \<Rightarrow> bool) \<Rightarrow> ('s, 'a) tx \<Rightarrow> bool" where
  "keeps R m \<longleftrightarrow> (\<forall>s x s'. m s = Inr (x, s') \<longrightarrow> R s s')"

lemma keepsI: "(\<And>s x s'. m s = Inr (x, s') \<Longrightarrow> R s s') \<Longrightarrow> keeps R m"
  by (simp add: keeps_def)

lemma keepsD: "keeps R m \<Longrightarrow> m s = Inr (x, s') \<Longrightarrow> R s s'"
  by (simp add: keeps_def)

locale tx_preorder =
  fixes R :: "'s \<Rightarrow> 's \<Rightarrow> bool"
  assumes reflexive: "R s s"
    and transitive: "R s t \<Longrightarrow> R t u \<Longrightarrow> R s u"
begin

lemma keeps_bindT:
  assumes "keeps R m" "\<And>x. keeps R (f x)"
  shows "keeps R (bindT m f)"
proof (rule keepsI)
  fix s y s''
  assume "bindT m f s = Inr (y, s'')"
  then obtain x s' where "m s = Inr (x, s')" "f x s' = Inr (y, s'')" by (rule bindT_InrE)
  then show "R s s''" by (blast intro: transitive keepsD [OF assms(1)] keepsD [OF assms(2)])
qed

lemma keeps_pure:
  "keeps R (returnT x)" "keeps R (throwT e)" "keeps R (getsT q)" "keeps R (queryT p)" "keeps R (liftT r)" "keeps R (guardT e b)"
  by (auto intro!: keepsI reflexive)

lemma keeps_reader: "(\<And>s x s'. m s = Inr (x, s') \<Longrightarrow> s' = s) \<Longrightarrow> keeps R m"
  by (rule keepsI) (metis reflexive)

lemma keeps_lift: "(\<And>x. r = Inr x \<Longrightarrow> keeps R (f x)) \<Longrightarrow> keeps R (bindT (liftT r) f)"
  by (rule keepsI, erule bindT_InrE) (auto dest: keepsD)

lemma keeps_if: "(c \<Longrightarrow> keeps R m) \<Longrightarrow> (\<not> c \<Longrightarrow> keeps R n) \<Longrightarrow> keeps R (if c then m else n)"
  by simp

lemma keeps_option: "(x = None \<Longrightarrow> keeps R m) \<Longrightarrow> (\<And>y. x = Some y \<Longrightarrow> keeps R (n y)) \<Longrightarrow> keeps R (case x of None \<Rightarrow> m | Some y \<Rightarrow> n y)"
  by (cases x) simp_all

lemma keeps_for_each: "(\<And>x. x \<in> set xs \<Longrightarrow> keeps R (f x)) \<Longrightarrow> keeps R (for_each f xs)"
proof (induction xs)
  case Nil
  then show ?case by (auto intro!: keepsI reflexive)
next
  case (Cons x xs)
  have "keeps R (bindT (f x) (\<lambda>_. for_each f xs))"
    by (rule keeps_bindT) (use Cons in simp_all)
  then show ?case by (simp only: for_each.simps)
qed

lemmas keeps_rules = keeps_bindT keeps_pure keeps_if keeps_option keeps_for_each

end

section \<open>Destinations only advance\<close>

definition carried :: "(import_destination_model \<Rightarrow> bool) \<Rightarrow> import_destination_model list \<Rightarrow> import_destination_model \<Rightarrow> bool" where
  "carried P t r' \<longleftrightarrow>
     (\<exists>r \<in> set t. dst_pk r = dst_pk r' \<and> dst_generation r = dst_generation r' \<and> P r) \<or>
     (\<forall>r \<in> set t. dst_pk r = dst_pk r' \<longrightarrow> dst_generation r < dst_generation r')"

definition same_token :: "import_destination_model \<Rightarrow> import_destination_model \<Rightarrow> bool" where
  "same_token r' r \<longleftrightarrow> dst_mutation_id r = dst_mutation_id r' \<and> dst_mutation_prefix r = dst_mutation_prefix r'"

definition same_owner :: "import_destination_model \<Rightarrow> import_destination_model \<Rightarrow> bool" where
  "same_owner r' r \<longleftrightarrow> dst_owner_job_id r = dst_owner_job_id r'"

definition evolves_from ::
  "string set \<Rightarrow> import_destination_model list \<Rightarrow> import_destination_model list \<Rightarrow> bool" where
  "evolves_from T t t' \<longleftrightarrow>
     (\<forall>r \<in> set t. \<exists>r' \<in> set t'. dst_pk r' = dst_pk r \<and> dst_generation r \<le> dst_generation r') \<and>
     (\<forall>r' \<in> set t'. (dst_mutation_id r' \<noteq> None \<longrightarrow> carried (same_token r') t r') \<and>
                    (dst_owner_job_id r' \<noteq> None \<longrightarrow> carried (same_owner r') t r')) \<and>
     (\<forall>r' \<in> set t'. 1 \<le> dst_generation r' \<or> (\<exists>r \<in> set t. dst_pk r = dst_pk r' \<and> dst_generation r \<le> dst_generation r')) \<and>
     (\<forall>r' \<in> set t'. \<forall>m. dst_mutation_id r' = Some m \<longrightarrow>
        m \<in> T \<or> (\<exists>r \<in> set t. dst_pk r = dst_pk r' \<and> dst_mutation_id r = Some m))"

lemma carried_refl: "r \<in> set t \<Longrightarrow> P r \<Longrightarrow> carried P t r"
  by (auto simp: carried_def)

lemma evolves_refl: "evolves_from T t t"
  unfolding evolves_from_def same_token_def same_owner_def by (blast intro: carried_refl order_refl)

lemma carried_trans:
  assumes grows: "\<forall>r \<in> set t. \<exists>r' \<in> set t'. dst_pk r' = dst_pk r \<and> dst_generation r \<le> dst_generation r'"
    and step: "\<And>r'. r' \<in> set t' \<Longrightarrow> P r' \<Longrightarrow> carried P t r'"
    and last: "carried P t' r''"
  shows "carried P t r''"
  using last unfolding carried_def
proof (elim disjE bexE conjE)
  fix r' assume r': "r' \<in> set t'" "dst_pk r' = dst_pk r''" "dst_generation r' = dst_generation r''" "P r'"
  from step [OF r'(1,4)] r'(2,3) show "(\<exists>r \<in> set t. dst_pk r = dst_pk r'' \<and> dst_generation r = dst_generation r'' \<and> P r) \<or>
     (\<forall>r \<in> set t. dst_pk r = dst_pk r'' \<longrightarrow> dst_generation r < dst_generation r'')"
    unfolding carried_def by metis
next
  assume less: "\<forall>r \<in> set t'. dst_pk r = dst_pk r'' \<longrightarrow> dst_generation r < dst_generation r''"
  have "dst_generation r < dst_generation r''" if "r \<in> set t" "dst_pk r = dst_pk r''" for r
  proof -
    from grows that(1) obtain r' where "r' \<in> set t'" "dst_pk r' = dst_pk r" "dst_generation r \<le> dst_generation r'" by blast
    with less that(2) show ?thesis by fastforce
  qed
  then show "(\<exists>r \<in> set t. dst_pk r = dst_pk r'' \<and> dst_generation r = dst_generation r'' \<and> P r) \<or>
     (\<forall>r \<in> set t. dst_pk r = dst_pk r'' \<longrightarrow> dst_generation r < dst_generation r'')"
    by blast
qed

lemma evolves_trans:
  assumes "evolves_from T t t'" "evolves_from T t' t''"
  shows "evolves_from T t t''"
proof -
  have grows: "\<forall>r \<in> set t. \<exists>r' \<in> set t'. dst_pk r' = dst_pk r \<and> dst_generation r \<le> dst_generation r'"
    using assms(1) unfolding evolves_from_def by blast
  have "\<exists>r'' \<in> set t''. dst_pk r'' = dst_pk r \<and> dst_generation r \<le> dst_generation r''" if "r \<in> set t" for r
  proof -
    from grows that obtain r' where 1: "r' \<in> set t'" "dst_pk r' = dst_pk r" "dst_generation r \<le> dst_generation r'" by blast
    with assms(2) obtain r'' where "r'' \<in> set t''" "dst_pk r'' = dst_pk r'" "dst_generation r' \<le> dst_generation r''"
      unfolding evolves_from_def by blast
    with 1 show ?thesis by (intro bexI [of _ r'']) simp_all
  qed
  moreover have "carried (same_token r'') t r''" if r'': "r'' \<in> set t''" "dst_mutation_id r'' \<noteq> None" for r''
  proof (rule carried_trans [OF grows])
    show "carried (same_token r'') t' r''" using assms(2) r'' unfolding evolves_from_def by blast
    fix r' assume r': "r' \<in> set t'" "same_token r'' r'"
    then have "dst_mutation_id r' \<noteq> None" "same_token r' = same_token r''" using r''(2) by (auto simp: same_token_def)
    with r'(1) assms(1) show "carried (same_token r'') t r'" unfolding evolves_from_def by metis
  qed
  moreover have "carried (same_owner r'') t r''" if r'': "r'' \<in> set t''" "dst_owner_job_id r'' \<noteq> None" for r''
  proof (rule carried_trans [OF grows])
    show "carried (same_owner r'') t' r''" using assms(2) r'' unfolding evolves_from_def by blast
    fix r' assume r': "r' \<in> set t'" "same_owner r'' r'"
    then have "dst_owner_job_id r' \<noteq> None" "same_owner r' = same_owner r''" using r''(2) by (auto simp: same_owner_def)
    with r'(1) assms(1) show "carried (same_owner r'') t r'" unfolding evolves_from_def by metis
  qed
  moreover have "1 \<le> dst_generation r'' \<or> (\<exists>r \<in> set t. dst_pk r = dst_pk r'' \<and> dst_generation r \<le> dst_generation r'')"
    if r'': "r'' \<in> set t''" for r''
  proof -
    from assms(2) r'' consider "1 \<le> dst_generation r''"
      | r' where "r' \<in> set t'" "dst_pk r' = dst_pk r''" "dst_generation r' \<le> dst_generation r''"
      unfolding evolves_from_def by blast
    then show ?thesis
    proof cases
      case 2
      with assms(1) consider "1 \<le> dst_generation r'" | r where "r \<in> set t" "dst_pk r = dst_pk r'" "dst_generation r \<le> dst_generation r'"
        unfolding evolves_from_def by blast
      then show ?thesis using 2 by cases (simp, metis order_trans)
    qed blast
  qed
  moreover have "m \<in> T \<or> (\<exists>r \<in> set t. dst_pk r = dst_pk r'' \<and> dst_mutation_id r = Some m)"
    if r'': "r'' \<in> set t''" "dst_mutation_id r'' = Some m" for r'' m
  proof -
    from assms(2) r'' consider "m \<in> T" | r' where "r' \<in> set t'" "dst_pk r' = dst_pk r''" "dst_mutation_id r' = Some m"
      unfolding evolves_from_def by blast
    then show ?thesis
    proof cases
      case 2
      with assms(1) show ?thesis unfolding evolves_from_def by metis
    qed blast
  qed
  ultimately show ?thesis unfolding evolves_from_def by blast
qed

definition row_advances_from :: "string set \<Rightarrow> import_destination_model \<Rightarrow> import_destination_model \<Rightarrow> bool" where
  "row_advances_from T r r' \<longleftrightarrow> dst_pk r' = dst_pk r \<and>
     (dst_generation r < dst_generation r' \<or>
      dst_generation r = dst_generation r' \<and> (dst_mutation_id r' = None \<or> same_token r' r) \<and> (dst_owner_job_id r' = None \<or> same_owner r' r)) \<and>
     (\<forall>m. dst_mutation_id r' = Some m \<longrightarrow> m \<in> T \<or> dst_mutation_id r = Some m)"

abbreviation row_advances :: "import_destination_model \<Rightarrow> import_destination_model \<Rightarrow> bool" where
  "row_advances \<equiv> row_advances_from UNIV"

lemmas row_advances_def = row_advances_from_def [of UNIV]

lemma evolves_update:
  assumes "distinct (map dst_pk t)" "\<And>r. r \<in> set t \<Longrightarrow> P r \<Longrightarrow> row_advances_from T r (f r)"
  shows "evolves_from T t (update_rows P f t)"
proof -
  let ?f = "\<lambda>r. if P r then f r else r"
  have adv: "row_advances_from T r (?f r)" if "r \<in> set t" for r
    using assms(2) [OF that] by (simp add: row_advances_from_def same_token_def same_owner_def)
  have car: "carried Q t (?f r)" if r: "r \<in> set t" and q: "dst_generation r = dst_generation (?f r) \<Longrightarrow> Q r" for r Q
  proof (cases "dst_generation r = dst_generation (?f r)")
    case True
    with r q adv [OF r] show ?thesis unfolding carried_def row_advances_from_def by metis
  next
    case False
    have "s = r" if "s \<in> set t" "dst_pk s = dst_pk (?f r)" for s
      using assms(1) r that adv [OF r] unfolding distinct_map inj_on_def row_advances_from_def by metis
    with False adv [OF r] show ?thesis unfolding carried_def row_advances_from_def by metis
  qed
  have "\<exists>r' \<in> set (update_rows P f t). dst_pk r' = dst_pk r \<and> dst_generation r \<le> dst_generation r'" if "r \<in> set t" for r
    using adv [OF that] that unfolding set_update_rows row_advances_from_def by (intro bexI [of _ "?f r"]) auto
  moreover have "carried (same_token (?f r)) t (?f r)" if "r \<in> set t" "dst_mutation_id (?f r) \<noteq> None" for r
    by (rule car [OF that(1)]) (use adv [OF that(1)] that(2) in \<open>auto simp: row_advances_from_def\<close>)
  moreover have "carried (same_owner (?f r)) t (?f r)" if "r \<in> set t" "dst_owner_job_id (?f r) \<noteq> None" for r
    by (rule car [OF that(1)]) (use adv [OF that(1)] that(2) in \<open>auto simp: row_advances_from_def\<close>)
  moreover have "\<exists>s \<in> set t. dst_pk s = dst_pk (?f r) \<and> dst_generation s \<le> dst_generation (?f r)" if "r \<in> set t" for r
    using adv [OF that] that unfolding row_advances_from_def by (intro bexI [of _ r]) auto
  moreover have "m \<in> T \<or> (\<exists>s \<in> set t. dst_pk s = dst_pk (?f r) \<and> dst_mutation_id s = Some m)"
    if "r \<in> set t" "dst_mutation_id (?f r) = Some m" for r m
    using adv [OF that(1)] that unfolding row_advances_from_def by (metis (no_types, lifting))
  ultimately show ?thesis
    unfolding evolves_from_def set_update_rows ball_simps by blast
qed

lemma evolves_append:
  assumes "dst_pk r \<notin> set (map dst_pk t)" "1 \<le> dst_generation r" "\<And>m. dst_mutation_id r = Some m \<Longrightarrow> m \<in> T"
  shows "evolves_from T t (t @ [r])"
proof -
  have "dst_pk s \<noteq> dst_pk r" if "s \<in> set t" for s
    using assms(1) imageI [OF that, of dst_pk] by (metis (no_types, lifting) list.set_map)
  then have "carried P t r" for P unfolding carried_def by blast
  moreover have "carried (same_token s) t s" "carried (same_owner s) t s" if "s \<in> set t" for s
    using that by (simp_all add: carried_refl same_token_def same_owner_def)
  ultimately show ?thesis using assms(2,3) unfolding evolves_from_def by auto
qed

definition keyed :: "import_db \<Rightarrow> bool" where
  "keyed d \<longleftrightarrow> destinations_keyed d \<and> jobs_keyed d"

definition advances_from :: "string set \<Rightarrow> import_db \<Rightarrow> import_db \<Rightarrow> bool" where
  "advances_from T d d' \<longleftrightarrow> (keyed d \<longrightarrow> keyed d' \<and> evolves_from T (im_destinations d) (im_destinations d'))"

abbreviation advances :: "import_db \<Rightarrow> import_db \<Rightarrow> bool" where
  "advances \<equiv> advances_from UNIV"

lemmas advances_def = advances_from_def [of UNIV] and evolves_def = evolves_from_def [of UNIV]

interpretation advances: tx_preorder "advances_from T" for T
proof
  show "advances_from T d d" for d by (simp add: advances_from_def evolves_refl)
  show "advances_from T d d''" if "advances_from T d d'" "advances_from T d' d''" for d d' d''
    using that evolves_trans unfolding advances_from_def by blast
qed

lemma advances_same:
  assumes "im_destinations d' = im_destinations d" "map ij_id (im_jobs d') = map ij_id (im_jobs d)"
  shows "advances_from T d d'"
  using assms by (simp add: advances_from_def keyed_def destinations_keyed_def jobs_keyed_def evolves_refl)

lemma advances_update:
  assumes "im_destinations d' = update_rows P f (im_destinations d)" "map ij_id (im_jobs d') = map ij_id (im_jobs d)"
    "\<And>r. r \<in> set (im_destinations d) \<Longrightarrow> P r \<Longrightarrow> row_advances_from T r (f r)"
  shows "advances_from T d d'"
proof -
  have "map dst_pk (update_rows P f (im_destinations d)) = map dst_pk (im_destinations d)"
    unfolding update_rows_def using assms(3) by (simp add: row_advances_from_def)
  then show ?thesis
    using evolves_update [of "im_destinations d" P T f] assms by (simp add: advances_from_def keyed_def destinations_keyed_def jobs_keyed_def)
qed

lemma update_destinations_advances:
  assumes "\<And>r. P r \<Longrightarrow> row_advances_from T r (f r)"
  shows "keeps (advances_from T) (update_destinations P f)"
proof (rule keepsI)
  fix d n d' assume "update_destinations P f d = Inr (n, d')"
  then have "d' = with_destinations (update_rows P f (im_destinations d)) d"
    by (simp add: update_destinations_with)
  then show "advances_from T d d'"
    by (intro advances_update [of d' P f d]) (simp_all add: assms)
qed

lemma insert_destination_advances:
  assumes "\<And>m. dst_mutation_id r = Some m \<Longrightarrow> m \<in> T"
  shows "keeps (advances_from T) (insert_destination r)"
proof (rule keepsI)
  fix d u d' assume i: "insert_destination r d = Inr (u, d')"
  then have new: "dst_pk r \<notin> set (map dst_pk (im_destinations d))" "1 \<le> dst_generation r"
    by (simp_all add: insert_destination_def split: if_splits)
  have "im_destinations d' = im_destinations d @ [r]" "im_jobs d' = im_jobs d"
    using i by (auto simp: insert_destination_def split: if_splits)
  with new(1) evolves_append [OF new assms] show "advances_from T d d'"
    by (simp add: advances_from_def keyed_def destinations_keyed_def jobs_keyed_def)
qed

lemma update_jobs_advances: "(\<And>j. ij_id (f j) = ij_id j) \<Longrightarrow> keeps (advances_from T) (update_jobs P f)"
  by (rule keepsI) (auto simp: update_jobs_def map_update_rows intro!: advances_same)

lemma modify_advances:
  "(\<And>d. im_destinations (f d) = im_destinations d) \<Longrightarrow> (\<And>d. im_jobs (f d) = im_jobs d) \<Longrightarrow> keeps (advances_from T) (modifyT f)"
  by (rule keepsI) (metis (no_types, lifting) Inr_inject Pair_inject advances_same modifyT_apply)

lemma readers_advance:
  "keeps (advances_from T) (lock_ownership b)" "keeps (advances_from T) (verify_active_claim c b clock)"
  "keeps (advances_from T) (verify_extraction_claim c b k clock)" "keeps (advances_from T) (verify_decompression_attempt c b clock)"
  "keeps (advances_from T) (verify_mutation_lease g clock)" "keeps (advances_from T) (verify_standard_mutation_guard g b k ks clock)"
  by (rule advances.keeps_reader, simp)+

lemma update_mutation_leases_advances: "keeps (advances_from T) (update_mutation_leases P f)"
  by (rule keepsI) (simp add: update_mutation_leases_def, rule advances_same, auto)

lemma insert_job_advances: "keeps (advances_from T) (insert_job_row r)"
proof (rule keepsI)
  fix d u d' assume i: "insert_job_row r d = Inr (u, d')"
  then have "ij_id r \<notin> set (map ij_id (im_jobs d))" "im_jobs d' = im_jobs d @ [r]" "im_destinations d' = im_destinations d"
    by (auto simp: insert_job_row_def split: if_splits)
  then show "advances_from T d d'"
    by (simp add: advances_from_def keyed_def destinations_keyed_def jobs_keyed_def evolves_refl)
qed

section \<open>The transactions advance\<close>

lemma row_advances_released: "row_advances_from T r (released iv now r)"
  by (simp add: row_advances_from_def released_def same_token_def)

lemma row_advances_freed: "row_advances_from T r (freed ivf now r)"
proof (cases "dst_owner_job_id r")
  case None
  then show ?thesis by (simp add: freed_def row_advances_from_def same_token_def)
next
  case (Some i)
  then show ?thesis by (simp add: freed_def row_advances_released)
qed

lemma row_advances_cleared: "row_advances_from T r (cleared_token now r)"
  by (simp add: row_advances_from_def cleared_token_def same_owner_def)

lemma superseded_all_advances: "advances_from T d (superseded_all A ivf now d)"
  by (rule advances_update [of _ "owned_in A" "freed ivf now"]) (simp_all add: row_advances_freed map_update_rows)

lemma keyed_advances: "(keyed d \<Longrightarrow> advances_from T d d') \<Longrightarrow> advances_from T d d'"
  unfolding advances_from_def by blast

lemma supersede_job_advances: "keeps (advances_from T) (supersede_job_with_destination_invalidation i iv now)"
proof (rule keepsI)
  fix d u d' assume s: "supersede_job_with_destination_invalidation i iv now d = Inr (u, d')"
  show "advances_from T d d'"
  proof (rule keyed_advances)
    assume "keyed d"
    then show "advances_from T d d'"
      unfolding keyed_def using supersede_job_closed [OF _ _ s] superseded_all_advances by metis
  qed
qed

lemma supersede_conflicts_advances: "keeps (advances_from T) (supersede_conflicts_in_order b ts mp ex now)"
proof (rule keepsI)
  fix d u d' assume s: "supersede_conflicts_in_order b ts mp ex now d = Inr (u, d')"
  show "advances_from T d d'"
  proof (rule keyed_advances)
    assume "keyed d"
    then show "advances_from T d d'"
      unfolding keyed_def using supersede_conflicts_closed [OF _ _ s] superseded_all_advances by metis
  qed
qed

lemma invalidate_advances: "keeps (advances_from T) (invalidate_standard_mutations_in_order b ks mp now)"
proof (rule keepsI)
  fix d u d' assume s: "invalidate_standard_mutations_in_order b ks mp now d = Inr (u, d')"
  show "advances_from T d d'"
  proof (rule keyed_advances)
    assume "keyed d"
    then have "d' = with_destinations (update_rows (revoked_by b ks mp) (cleared_token now) (im_destinations d)) d"
      unfolding keyed_def using invalidate_in_order_closed [OF _ s] by blast
    then show "advances_from T d d'"
      by (intro advances_update [of d' "revoked_by b ks mp" "cleared_token now" d]) (simp_all add: row_advances_cleared)
  qed
qed

lemma release_job_advances: "keeps (advances_from T) (release_job_ownership i now)"
proof (rule keepsI)
  fix d u d' assume s: "release_job_ownership i now d = Inr (u, d')"
  show "advances_from T d d'"
  proof (rule keyed_advances)
    assume "keyed d"
    then have "im_destinations d' = update_rows (owned_by i) (released None now) (im_destinations d)" "im_jobs d' = im_jobs d"
      unfolding keyed_def using release_job_closed [OF _ s [unfolded release_job_ownership_def]] by simp_all
    then show "advances_from T d d'"
      by (intro advances_update [of d' "owned_by i" "released None now" d]) (simp_all add: row_advances_released)
  qed
qed

lemma clear_mutation_advances: "keeps (advances_from T) (clear_standard_mutation_in_transaction g now ra)"
proof (rule keepsI)
  fix d x d' assume c: "clear_standard_mutation_in_transaction g now ra d = Inr (x, d')"
  let ?Q = "case ra of None \<Rightarrow> (\<lambda>r. True) | Some clock \<Rightarrow> active_destination_lease clock d"
  from c have "d' = token_cleared_db g ?Q now d"
    by (simp add: clear_standard_mutation_eq Let_def)
  then show "advances_from T d d'"
    by (intro advances_update [of d' "\<lambda>r. holds_token g r \<and> ?Q r" "cleared_token now" d]) (simp_all add: token_cleared_db_sel row_advances_cleared)
qed

lemma release_expired_advances: "keeps (advances_from T) (release_expired now l)"
  unfolding release_expired_def release_standard_mutation_in_transaction_def
  by (intro advances.keeps_rules clear_mutation_advances)

lemma recover_expired_from_keeps:
  assumes R: "tx_preorder R" and step: "\<And>now l. keeps R (release_expired now l)"
  shows "recover_expired_from b clocks n d = Inr (u, d') \<Longrightarrow> R d d'"
proof (induction b clocks n d rule: recover_expired_from.induct)
  case (1 b clocks n d)
  let ?ls = "expired_page b (fst (clocks n)) d"
  show ?case
  proof (cases "?ls = []")
    case True
    with "1.prems" have "d' = d" by (simp add: recover_expired_from.simps [of b clocks n d])
    then show ?thesis by (simp add: tx_preorder.reflexive [OF R])
  next
    case False
    from "1.prems" obtain u1 d1 where f: "for_each (release_expired (snd (clocks n))) ?ls d = Inr (u1, d1)"
      and r: "recover_expired_from b clocks (Suc n) d1 = Inr (u, d')"
      unfolding recover_expired_from.simps [of b clocks n d] Let_def if_not_P [OF False] by (rule bindR_pairE)
    have "R d d1"
      by (rule keepsD [OF tx_preorder.keeps_for_each [OF R] f]) (rule step)
    from this "1.IH" [OF refl False f refl r] show ?thesis by (rule tx_preorder.transitive [OF R])
  qed
qed

lemma recover_keeps:
  assumes "tx_preorder R" "\<And>now l. keeps R (release_expired now l)"
  shows "keeps R (recover_expired_mutations_in_transaction b clocks)"
  unfolding recover_expired_mutations_in_transaction_def by (rule keepsI) (rule recover_expired_from_keeps [OF assms])

lemma recover_advances: "keeps (advances_from T) (recover_expired_mutations_in_transaction b clocks)"
  by (rule recover_keeps [OF advances.tx_preorder_axioms release_expired_advances])

lemma upsert_mutation_advances_from:
  assumes "m \<in> T"
  shows "keeps (advances_from T) (upsert_standard_mutation max_day existing b k m p now lease_now)"
proof -
  have lease: "keeps (advances_from T) (upsert_mutation_lease l)" for l
    unfolding upsert_mutation_lease_def by (rule modify_advances) simp_all
  have new: "keeps (advances_from T) (insert_destination \<lparr>dst_bucket = b, dst_key = k, dst_generation = 1, dst_owner_job_id = None,
      dst_mutation_id = Some m, dst_mutation_prefix = p, dst_updated_at = now\<rparr>)"
    by (rule insert_destination_advances) (simp add: assms)
  have bump: "keeps (advances_from T) (bindT (liftT (next_generation r)) (\<lambda>g.
                bindT (update_destinations (\<lambda>s. destination_at b k s \<and> dst_generation s = dst_generation r)
                         (\<lambda>s. s\<lparr>dst_generation := g, dst_owner_job_id := None, dst_mutation_id := Some m,
                                dst_mutation_prefix := p, dst_updated_at := now\<rparr>)) (\<lambda>n.
                bindT (guardT (Database ''stale standard mutation admission compare-and-set'') (n = 1)) (\<lambda>_.
                returnT g))))" for r
    by (rule advances.keeps_lift, drule next_generation_Inr)
      (intro advances.keeps_rules update_destinations_advances, simp add: row_advances_from_def assms)
  show ?thesis
    unfolding upsert_standard_mutation_def
    by (rule bump lease new advances.keeps_option advances.keeps_pure advances.keeps_bindT)+
qed

lemmas upsert_mutation_advances = upsert_mutation_advances_from [OF UNIV_I]

lemma admit_keys_advances_from:
  assumes "\<And>k m. mids k = Some m \<Longrightarrow> m \<in> T"
  shows "keeps (advances_from T) (admit_keys max_day b mids now lease_nows ks)"
proof (induction ks)
  case Nil
  show ?case unfolding admit_keys.simps by (rule advances.keeps_pure)
next
  case (Cons k ks)
  have "keeps (advances_from T) (upsert_standard_mutation max_day r b k m None now (lease_nows k))"
    if "ok_or (Internal e) (mids k) = Inr m" for r m e
    by (rule upsert_mutation_advances_from, rule assms [of k]) (use that in \<open>simp add: ok_or_eq_Inr\<close>)
  then show ?case
    unfolding admit_keys.simps
    by (intro advances.keeps_bindT advances.keeps_lift advances.keeps_pure Cons.IH)
qed

lemmas admit_keys_advances = admit_keys_advances_from [OF UNIV_I]

lemma admit_contents_advances_from:
  assumes "\<And>k m. mids k = Some m \<Longrightarrow> m \<in> T"
  shows "keeps (advances_from T) (admit_content_mutations_in_transaction max_day b ks mids ex now lease_nows)"
  unfolding admit_content_mutations_in_transaction_def
  by (intro advances.keeps_rules supersede_conflicts_advances invalidate_advances admit_keys_advances_from) (rule assms)

lemmas admit_contents_advances = admit_contents_advances_from [OF UNIV_I]

text \<open>
  The row an import claims is read before its conflicts are superseded. Superseding exact conflicts
  and revoking tokens leave its generation alone, so the claim still raises it.
\<close>

lemma exact_supersession_keeps_generation:
  assumes "r' \<in> set (update_rows (owned_in A) (freed (marked_invalidation b None T) now) t)"
  obtains r where "r \<in> set t" "dst_pk r = dst_pk r'" "dst_generation r = dst_generation r'"
  using assms by (auto simp: set_update_rows freed_def released_def marked_invalidation_def invalidated_by_def split: option.splits if_splits)

lemma destination_for_update_row: "destination_for_update b k d = Some r \<Longrightarrow> r \<in> set (im_destinations d) \<and> dst_pk r = (b, k)"
  unfolding destination_for_update_def find_destination_for_update_def by (auto dest: one_row_SomeD)

lemma destination_for_update_None: "destination_for_update b k d = None \<Longrightarrow> (b, k) \<notin> set (map dst_pk (im_destinations d))"
  unfolding destination_for_update_def find_destination_for_update_def by (auto simp: one_row_None)

lemma upsert_owner_Inr:
  assumes "upsert_destination_owner existing b k owner now d = Inr (g, d')"
  shows "case existing of
     None \<Rightarrow> g = 1 \<and> (b, k) \<notin> set (map dst_pk (im_destinations d)) \<and> d' = with_destinations (im_destinations d @
       [\<lparr>dst_bucket = b, dst_key = k, dst_generation = 1, dst_owner_job_id = owner, dst_mutation_id = None,
         dst_mutation_prefix = None, dst_updated_at = now\<rparr>]) d
   | Some r \<Rightarrow> g = dst_generation r + 1 \<and> d' = with_destinations (update_rows (destination_at b k)
       (\<lambda>s. s\<lparr>dst_generation := g, dst_owner_job_id := owner, dst_mutation_id := None, dst_mutation_prefix := None,
              dst_updated_at := now\<rparr>) (im_destinations d)) d"
proof (cases existing)
  case None
  with assms show ?thesis
    by (auto simp: upsert_destination_owner_def bindT_def insert_destination_def with_destinations_def split: if_splits)
next
  case (Some r)
  show ?thesis
  proof (cases "next_generation r")
    case (Inr n)
    with assms Some have "g = n" "with_destinations (update_rows (destination_at b k)
       (\<lambda>s. s\<lparr>dst_generation := n, dst_owner_job_id := owner, dst_mutation_id := None, dst_mutation_prefix := None,
              dst_updated_at := now\<rparr>) (im_destinations d)) d = d'"
      by (clarsimp simp add: upsert_destination_owner_def bindT_def liftT_def guardT_def update_destinations_with split: if_splits)+
    then show ?thesis using next_generation_Inr [OF Inr] Some by simp
  qed (use assms Some in \<open>simp add: upsert_destination_owner_def bindT_def liftT_def\<close>)
qed

lemma claim_primary_parts:
  assumes "keyed d" "claim_primary_destination i b k now d = Inr (g, d')"
  obtains d1 d2 T where
    "d1 = superseded_all (conflicting b [(k, current_owner b k d)] None (Some i) d) (marked_invalidation b None T) now d"
    "d2 = with_destinations (update_rows (revoked_by b [k] None) (cleared_token now) (im_destinations d1)) d1"
    "upsert_destination_owner (destination_for_update b k d) b k (Some i) now d2 = Inr (g, d')"
proof -
  from assms(2) obtain u1 d1 u2 d2
    where s: "supersede_conflicts_in_order b [(k, current_owner b k d)] None (Some i) now d = Inr (u1, d1)"
      and v: "invalidate_standard_mutations_in_order b [k] None now d1 = Inr (u2, d2)"
      and o: "upsert_destination_owner (destination_for_update b k d) b k (Some i) now d2 = Inr (g, d')"
    unfolding claim_primary_destination_def current_owner_def
    by (elim bindT_InrE) (simp add: getsT_apply)
  have d1: "d1 = superseded_all (conflicting b [(k, current_owner b k d)] None (Some i) d)
      (marked_invalidation b None (invalidated_jobs b None d)) now d"
    using supersede_conflicts_closed [OF _ _ s] assms(1) unfolding keyed_def by blast
  have "destinations_keyed d1" using assms(1) unfolding d1 keyed_def by simp
  from that [OF d1 invalidate_in_order_closed [OF this v] o] show ?thesis .
qed

lemma claim_primary_advances: "keeps (advances_from T) (claim_primary_destination i b k now)"
proof (rule keepsI, rule keyed_advances)
  fix d g d' assume c: "claim_primary_destination i b k now d = Inr (g, d')" and key: "keyed d"
  from claim_primary_parts [OF key c] obtain d1 d2 M where
    d1: "d1 = superseded_all (conflicting b [(k, current_owner b k d)] None (Some i) d) (marked_invalidation b None M) now d"
    and d2: "d2 = with_destinations (update_rows (revoked_by b [k] None) (cleared_token now) (im_destinations d1)) d1"
    and o: "upsert_destination_owner (destination_for_update b k d) b k (Some i) now d2 = Inr (g, d')" .
  have a1: "advances_from T d d1" unfolding d1 by (rule superseded_all_advances)
  have a2: "advances_from T d1 d2"
    by (rule advances_update [of d2 "revoked_by b [k] None" "cleared_token now" d1]) (simp_all add: d2 row_advances_cleared)
  have same: "\<exists>r \<in> set (im_destinations d). dst_pk r = dst_pk r' \<and> dst_generation r = dst_generation r'"
    if r': "r' \<in> set (im_destinations d2)" for r'
  proof -
    from r' obtain r1 where r1: "r1 \<in> set (im_destinations d1)" "dst_pk r1 = dst_pk r'" "dst_generation r1 = dst_generation r'"
      unfolding d2 by (auto simp: set_update_rows cleared_token_def split: if_splits)
    from r1(1) obtain r where "r \<in> set (im_destinations d)" "dst_pk r = dst_pk r1" "dst_generation r = dst_generation r1"
      unfolding d1 superseded_all_sel by (rule exact_supersession_keeps_generation)
    with r1 show ?thesis by force
  qed
  have "advances_from T d2 d'"
  proof (cases "destination_for_update b k d")
    case None
    with upsert_owner_Inr [OF o] show ?thesis
      by (auto simp: advances_from_def keyed_def destinations_keyed_def jobs_keyed_def intro!: evolves_append)
  next
    case (Some r)
    note row = destination_for_update_row [OF Some]
    have gen: "dst_generation r' = dst_generation r" if r': "r' \<in> set (im_destinations d2)" "destination_at b k r'" for r'
    proof -
      from same [OF r'(1)] obtain s where s: "s \<in> set (im_destinations d)" "dst_pk s = dst_pk r'" "dst_generation s = dst_generation r'" by blast
      have "dst_pk s = dst_pk r" using s(2) r'(2) row by (simp add: destination_at_def)
      then have "s = r" using keyed_unique [of d s r] s(1) row key unfolding keyed_def by blast
      with s(3) show ?thesis by simp
    qed
    let ?f = "\<lambda>s. s\<lparr>dst_generation := g, dst_owner_job_id := Some i, dst_mutation_id := None, dst_mutation_prefix := None, dst_updated_at := now\<rparr>"
    have g: "g = dst_generation r + 1" "d' = with_destinations (update_rows (destination_at b k) ?f (im_destinations d2)) d2"
      using upsert_owner_Inr [OF o] Some by simp_all
    show ?thesis
    proof (rule advances_update [of d' "destination_at b k" ?f d2])
      fix r' assume "r' \<in> set (im_destinations d2)" "destination_at b k r'"
      from gen [OF this] g(1) show "row_advances_from T r' (?f r')" by (simp add: row_advances_from_def)
    qed (simp_all add: g(2))
  qed
  then show "advances_from T d d'" using a1 a2 by (blast intro: advances.transitive)
qed

lemma install_prefix_advances: "keeps (advances_from T) (install_prefix_claim i b p now)"
proof -
  have "keeps (advances_from T) (insert_prefix_claim c)" for c
    by (rule keepsI) (auto simp: insert_prefix_claim_def intro!: advances_same split: if_splits)
  then show ?thesis
    unfolding install_prefix_claim_def
    by (intro advances.keeps_rules supersede_conflicts_advances invalidate_advances)
qed

lemma insert_target_advances: "keeps (advances_from T) (insert_target i b k g kind)"
  by (rule keepsI) (auto simp: insert_target_def intro!: advances_same split: if_splits)

lemma submit_advances: "keeps (advances_from T) (submit_with_decision jc row_bytes rq capture intake now)"
  unfolding submit_with_decision_def submit_decided_in_transaction_def insert_queued_with_zip_intent_def
  by (intro advances.keeps_rules readers_advance insert_job_advances claim_primary_advances insert_target_advances
      install_prefix_advances)

lemma claim_extracted_advances: "keeps (advances_from T) (claim_extracted_target c b k now clock)"
  unfolding claim_extracted_target_def
  by (intro advances.keeps_rules readers_advance claim_primary_advances insert_target_advances)

lemma release_owned_advances: "keeps (advances_from T) (release_owned_destination i b k g now)"
  unfolding release_owned_destination_def by (rule update_destinations_advances) (simp add: row_advances_from_def same_token_def)

lemma release_extracted_advances: "keeps (advances_from T) (release_extracted_target c b k g now clock)"
  unfolding release_extracted_target_def
  by (intro advances.keeps_rules readers_advance release_owned_advances modify_advances) simp_all

lemma reset_batch_advances: "keeps (advances_from T) (reset_extracted_target_batch c b now clock commit_clock)"
  unfolding reset_extracted_target_batch_def reset_extracted_target_def Let_def
  by (intro advances.keeps_rules readers_advance release_owned_advances modify_advances) simp_all

lemma complete_mutation_advances: "keeps (advances_from T) (complete_standard_mutation_in_transaction g now clock update_clock)"
  unfolding complete_standard_mutation_in_transaction_def
  by (intro advances.keeps_rules readers_advance clear_mutation_advances)

lemma mutation_transactions_advance:
  "keeps (advances_from T) (admit_prefix_mutation b p now)"
  "keeps (advances_from T) (renew_standard_mutation max_day g clock now update_clock)"
  "keeps (advances_from T) (release_standard_mutation g now)"
  "keeps (advances_from T) (renew_zip_output_guards_in_transaction max_day b source ks gs clocks nows update_clocks)"
  "keeps (advances_from T) (complete_zip_output_guards_in_transaction b source ks gs now clocks lease_clocks update_clocks)"
  unfolding admit_prefix_mutation_def admit_prefix_mutation_in_transaction_def renew_standard_mutation_def
    renew_standard_mutation_in_transaction_def release_standard_mutation_def release_standard_mutation_in_transaction_def
    renew_zip_output_guards_in_transaction_def complete_zip_output_guards_in_transaction_def
    verify_zip_output_guards_in_transaction_def renew_output_guard_def
  by (intro advances.keeps_rules readers_advance supersede_conflicts_advances invalidate_advances
      update_mutation_leases_advances clear_mutation_advances complete_mutation_advances)+

text \<open>The admissions, by the tokens they hand out.\<close>

lemma check_zip_advances: "keeps (advances_from T) (check_zip_outputs_do_not_revoke_source b source ks)"
  unfolding check_zip_outputs_do_not_revoke_source_def check_affected_job_def by (intro advances.keeps_rules)

lemma admit_contents_step_advances:
  assumes "\<forall>k \<in> set ks. fresh k \<in> T"
  shows "keeps (advances_from T) (admit_content_mutations max_day b ks fresh ex now lease_nows)"
  unfolding admit_content_mutations_def
  by (intro advances.keeps_rules readers_advance admit_contents_advances_from) (use assms in \<open>auto split: if_splits\<close>)

lemma admit_content_and_prefix_advances:
  assumes "m \<in> T"
  shows "keeps (advances_from T) (admit_content_and_prefix_mutation max_day b k p m now lease_now)"
  unfolding admit_content_and_prefix_mutation_def admit_content_and_prefix_mutation_in_transaction_def
  by (intro advances.keeps_rules readers_advance supersede_conflicts_advances invalidate_advances
      upsert_mutation_advances_from assms)

lemma admit_zip_outputs_advances:
  assumes "snd ` set mids \<subseteq> T"
  shows "keeps (advances_from T) (admit_zip_outputs_without_source_in_transaction max_day b source ks mids now lease_nows)"
  unfolding admit_zip_outputs_without_source_in_transaction_def
  by (intro advances.keeps_rules check_zip_advances admit_contents_advances_from) (use assms in \<open>force dest: map_of_SomeD\<close>)

lemma admit_zip_source_advances:
  assumes "m \<in> T"
  shows "keeps (advances_from T) (admit_zip_v2_source_in_transaction max_day b source outputs m now lease_now)"
  unfolding admit_zip_v2_source_in_transaction_def
  by (intro advances.keeps_rules check_zip_advances admit_contents_advances_from) (use assms in \<open>simp split: if_splits\<close>)

lemma lifecycle_admission_advances:
  assumes "lifecycle_token action_id claim_epoch \<in> T"
  shows "keeps (advances_from T) (try_admit_lifecycle_mutation max_day b k action_id claim_epoch now clocks lease_now)"
  unfolding try_admit_lifecycle_mutation_def try_admit_lifecycle_in_transaction_def Let_def
  by (intro advances.keeps_rules readers_advance recover_advances upsert_mutation_advances_from assms)

lemma end_of_job_advances:
  "keeps (advances_from T) (complete_publication_in_transaction g cid sz now clock)"
  "keeps (advances_from T) (fail_claimed c b failure now clock update_clock)"
  "keeps (advances_from T) (supersede_job_in_transaction i now)"
  unfolding complete_publication_in_transaction_def fail_claimed_def supersede_job_in_transaction_def
  by (intro advances.keeps_rules readers_advance update_jobs_advances release_job_advances supersede_job_advances; simp)+

lemma supersede_bucket_from_keeps:
  assumes R: "tx_preorder R" and step: "\<And>i now. keeps R (supersede_job_in_transaction i now)"
  shows "supersede_bucket_from b now after n d = Inr (m, d') \<Longrightarrow> R d d'"
proof (induction b now after n d rule: supersede_bucket_from.induct)
  case (1 b now after n d)
  show ?case
  proof (cases "active_ids b after d")
    case (Inr page)
    show ?thesis
    proof (cases "page = []")
      case True
      with "1.prems" Inr have "d' = d" by (simp add: supersede_bucket_from.simps [of b now after n d])
      then show ?thesis by (simp add: tx_preorder.reflexive [OF R])
    next
      case False
      from "1.prems" have "(case for_each (\<lambda>i. supersede_job_in_transaction i now) page d of Inl e \<Rightarrow> Inl e
          | Inr (_, d') \<Rightarrow> supersede_bucket_from b now (Some (last page)) (n + length page) d') = Inr (m, d')"
        by (simp add: supersede_bucket_from.simps [of b now after n d] Inr False)
      then obtain u1 d1 where f: "for_each (\<lambda>i. supersede_job_in_transaction i now) page d = Inr (u1, d1)"
        and r: "supersede_bucket_from b now (Some (last page)) (n + length page) d1 = Inr (m, d')"
        by (rule bindR_pairE)
      have "R d d1" by (rule keepsD [OF tx_preorder.keeps_for_each [OF R] f]) (rule step)
      from this "1.IH" [OF Inr False f refl r] show ?thesis by (rule tx_preorder.transitive [OF R])
    qed
  qed (use "1.prems" in \<open>simp add: supersede_bucket_from.simps [of b now after n d]\<close>)
qed

lemmas supersede_bucket_from_advances = supersede_bucket_from_keeps [OF advances.tx_preorder_axioms end_of_job_advances(3)]

lemma claim_jobs_advances: "keeps (advances_from T) (claim_jobs w now lease cs claimed)"
proof (induction cs arbitrary: claimed)
  case Nil
  show ?case unfolding claim_jobs.simps by (rule advances.keeps_pure)
next
  case (Cons c cs)
  obtain rank i where c: "c = (rank, i)" by (cases c)
  from Cons show ?case
    unfolding c claim_jobs.simps claim_job_def
    by (intro advances.keeps_rules update_jobs_advances) (simp add: claimed_job_def Let_def)
qed

lemma job_transactions_advance:
  "keeps (advances_from T) (claim_due_jobs row_bytes w now lease limit)"
  "keeps (advances_from T) (renew_job_claim i w e now lease clock)"
  "keeps (advances_from T) (update_phase i w e st phase now clock)"
  "keeps (advances_from T) (update_progress i w e att p now clock)"
  "keeps (advances_from T) (retry_job i w e att next failure now clock)"
  unfolding claim_due_jobs_def claim_due_jobs_in_transaction_def renew_job_claim_def update_phase_def update_progress_def retry_job_def
  by (intro advances.keeps_rules claim_jobs_advances update_jobs_advances; simp)+

lemma delete_jobs_advances: "keeps (advances_from T) (delete_terminal_before cutoff)"
proof (rule keepsI)
  fix d n d' assume "delete_terminal_before cutoff d = Inr (n, d')"
  then obtain P where d': "d' = delete_jobs P d" unfolding delete_terminal_before_def Let_def by blast
  let ?gone = "ij_id ` set (filter P (im_jobs d))"
  let ?Q = "\<lambda>r. case dst_owner_job_id r of None \<Rightarrow> False | Some i \<Rightarrow> i \<in> ?gone"
  have dest: "im_destinations d' = update_rows ?Q (\<lambda>r. r\<lparr>dst_owner_job_id := None\<rparr>) (im_destinations d)"
    and jobs: "im_jobs d' = delete_rows P (im_jobs d)"
    unfolding d' delete_jobs_def Let_def by simp_all
  let ?d = "with_destinations (im_destinations d') d"
  have "advances_from T d ?d"
    by (rule advances_update [of ?d ?Q "\<lambda>r. r\<lparr>dst_owner_job_id := None\<rparr>" d]) (simp_all add: dest row_advances_from_def same_token_def)
  moreover have "keyed d'" if "keyed ?d"
    using that unfolding keyed_def destinations_keyed_def jobs_keyed_def jobs delete_rows_def by (simp add: distinct_map_filter)
  ultimately show "advances_from T d d'" unfolding advances_from_def by simp
qed

section \<open>Steps of the protocol\<close>

text \<open>
  One step for every transaction that uses the tables of the protocol, the deletion of a bucket
  included. Content admissions never exclude a job, as all callers admit. The lifecycle queue clears
  and renews its own tokens inside its transactions; everything else in the database is
  \<open>environment\<close>. The steps hand out no token of \<open>issued\<close> and delete no bucket of \<open>kept\<close>: with both empty
  they are all transactions, with the tokens handed out so far they are those that follow when no
  random identifier is drawn twice.
\<close>

inductive ownership_step :: "string set \<Rightarrow> string set \<Rightarrow> import_db \<Rightarrow> import_db \<Rightarrow> bool" for issued kept where
  submit: "submit_with_decision jc row_bytes rq capture intake now d = Inr (outcome, d') \<Longrightarrow> ownership_step issued kept d d'"
| claim_extracted: "claim_extracted_target c b k now clock d = Inr (n, d') \<Longrightarrow> ownership_step issued kept d d'"
| release_extracted: "release_extracted_target c b k n now clock d = Inr (u, d') \<Longrightarrow> ownership_step issued kept d d'"
| reset_extracted: "reset_extracted_target_batch c b now clock commit_clock d = Inr (m, d') \<Longrightarrow> ownership_step issued kept d d'"
| admit_contents: "admit_content_mutations max_day b ks fresh None now lease_nows d = Inr (gs, d') \<Longrightarrow> \<forall>k \<in> set ks. fresh k \<notin> issued \<Longrightarrow>
    ownership_step issued kept d d'"
| admit_prefix: "admit_prefix_mutation b p now d = Inr (u, d') \<Longrightarrow> ownership_step issued kept d d'"
| admit_content_and_prefix: "admit_content_and_prefix_mutation max_day b k p m now lease_now d = Inr (g, d') \<Longrightarrow> m \<notin> issued \<Longrightarrow>
    ownership_step issued kept d d'"
| admit_lifecycle: "try_admit_lifecycle_mutation max_day b k a e now clocks lease_now d = Inr (og, d') \<Longrightarrow>
    lifecycle_token a e \<notin> issued \<Longrightarrow> ownership_step issued kept d d'"
| admit_zip_outputs: "admit_zip_outputs_without_source_in_transaction max_day b s ks mids now lease_nows d = Inr (gs, d') \<Longrightarrow>
    snd ` set mids \<inter> issued = {} \<Longrightarrow> ownership_step issued kept d d'"
| admit_zip_source: "admit_zip_v2_source_in_transaction max_day b s ks m now lease_now d = Inr (g, d') \<Longrightarrow> m \<notin> issued \<Longrightarrow>
    ownership_step issued kept d d'"
| renew_mutation: "renew_standard_mutation max_day g clock now update_clock d = Inr (u, d') \<Longrightarrow> ownership_step issued kept d d'"
| release_mutation: "release_standard_mutation g now d = Inr (ok, d') \<Longrightarrow> ownership_step issued kept d d'"
| complete_mutation: "complete_standard_mutation_in_transaction g now clock update_clock d = Inr (u, d') \<Longrightarrow> ownership_step issued kept d d'"
| renew_zip_outputs: "renew_zip_output_guards_in_transaction max_day b s ks gs clocks nows update_clocks d = Inr (u, d') \<Longrightarrow> ownership_step issued kept d d'"
| complete_zip_outputs: "complete_zip_output_guards_in_transaction b s ks gs now clocks lease_clocks update_clocks d = Inr (u, d') \<Longrightarrow> ownership_step issued kept d d'"
| recover: "recover_expired_mutations_in_transaction b clocks d = Inr (u, d') \<Longrightarrow> ownership_step issued kept d d'"
| publish: "complete_publication_in_transaction pg cid sz now clock d = Inr (u, d') \<Longrightarrow> ownership_step issued kept d d'"
| fail: "fail_claimed c b failure now clock update_clock d = Inr (u, d') \<Longrightarrow> ownership_step issued kept d d'"
| supersede: "supersede_job_in_transaction i now d = Inr (u, d') \<Longrightarrow> ownership_step issued kept d d'"
| supersede_bucket: "supersede_bucket b now d = Inr (m, d') \<Longrightarrow> ownership_step issued kept d d'"
| claim_jobs: "claim_due_jobs row_bytes w now lease_until limit d = Inr (cs, d') \<Longrightarrow> ownership_step issued kept d d'"
| renew_job: "renew_job_claim i w e now lease_until clock d = Inr (ok, d') \<Longrightarrow> ownership_step issued kept d d'"
| job_phase: "update_phase i w e st phase now clock d = Inr (u, d') \<Longrightarrow> ownership_step issued kept d d'"
| job_progress: "update_progress i w e att p now clock d = Inr (u, d') \<Longrightarrow> ownership_step issued kept d d'"
| retry: "retry_job i w e att next failure now clock d = Inr (u, d') \<Longrightarrow> ownership_step issued kept d d'"
| expire_jobs: "delete_terminal_before cutoff d = Inr (m, d') \<Longrightarrow> ownership_step issued kept d d'"
| lifecycle_clear: "on_import_queue (clear_lifecycle_mutation_if_owned b k a e now) d = Inr (ok, d') \<Longrightarrow> ownership_step issued kept d d'"
| lifecycle_renew: "on_import_queue (renew_lifecycle_mutation_in_transaction max_day b k a e now stmt) d = Inr (u, d') \<Longrightarrow> ownership_step issued kept d d'"
| delete_bucket: "bucket_delete b now g = Inr (u, g') \<Longrightarrow> b \<notin> kept \<Longrightarrow> ownership_step issued kept (gw_import g) (gw_import g')"
| environment: "im_destinations d' = im_destinations d \<Longrightarrow> im_mutation_leases d' = im_mutation_leases d \<Longrightarrow> im_jobs d' = im_jobs d \<Longrightarrow>
    im_prefix_claims d' = im_prefix_claims d \<Longrightarrow> im_targets d' = im_targets d \<Longrightarrow> ownership_step issued kept d d'"

abbreviation ownership_steps :: "import_db \<Rightarrow> import_db \<Rightarrow> bool" where
  "ownership_steps \<equiv> (ownership_step {} {})\<^sup>*\<^sup>*"

lemma on_import_queue_Inr:
  assumes "on_import_queue m d = Inr (x, d')"
  obtains q where "m (im_queue d) = Inr (x, q)" "d' = d\<lparr>im_queue := q\<rparr>"
  using assms by (cases "m (im_queue d)") (auto simp: on_import_queue_def)

definition clears_tokens :: "queue_db \<Rightarrow> queue_db \<Rightarrow> bool" where
  "clears_tokens q q' \<longleftrightarrow> (\<exists>P now. qd_destinations q' = update_rows P (cleared_token now) (qd_destinations q))"

lemma clears_tokens_refl: "qd_destinations q' = qd_destinations q \<Longrightarrow> clears_tokens q q'"
  unfolding clears_tokens_def by (rule exI [of _ "\<lambda>r. False"]) (simp add: update_rows_none)

lemma lifecycle_clear_tokens:
  "clear_lifecycle_mutation_if_owned b k a e now q = Inr (ok, q') \<Longrightarrow> clears_tokens q q'"
proof -
  assume "clear_lifecycle_mutation_if_owned b k a e now q = Inr (ok, q')"
  then have "q' = q \<or> (\<exists>P. q' = q\<lparr>qd_destinations := update_rows P (cleared_token now) (qd_destinations q)\<rparr>)"
    unfolding clear_lifecycle_mutation_if_owned_def bindT_def guardT_def Let_def cleared_token_def [abs_def]
    by (simp split: option.splits if_splits; blast)
  then show ?thesis
    unfolding clears_tokens_def using clears_tokens_refl [unfolded clears_tokens_def] by fastforce
qed

lemma lifecycle_renew_tokens:
  "renew_lifecycle_mutation_in_transaction max_day b k a e now stmt q = Inr (u, q') \<Longrightarrow> clears_tokens q q'"
proof (rule clears_tokens_refl)
  assume "renew_lifecycle_mutation_in_transaction max_day b k a e now stmt q = Inr (u, q')"
  then show "qd_destinations q' = qd_destinations q"
    unfolding renew_lifecycle_mutation_in_transaction_def Let_def
    by (elim bindT_InrE) (auto dest!: on_store_lock_frame simp: bindT_eq_Inr split: option.splits if_splits)
qed

lemma clears_tokens_advance: "clears_tokens (im_queue d) q \<Longrightarrow> advances_from T d (d\<lparr>im_queue := q\<rparr>)"
proof -
  assume "clears_tokens (im_queue d) q"
  then obtain P now where "qd_destinations q = update_rows P (cleared_token now) (im_destinations d)"
    unfolding clears_tokens_def by blast
  then show ?thesis
    by (intro advances_update [of _ P "cleared_token now" d]) (simp_all add: row_advances_cleared)
qed

text \<open>A step deletes a bucket or advances.\<close>

lemma ownership_step_advances:
  assumes "ownership_step issued kept d d'"
  obtains (deletion) b now g u g' where "bucket_delete b now g = Inr (u, g')" "b \<notin> kept" "d = gw_import g" "d' = gw_import g'"
  | (advance) "advances_from (- issued) d d'"
  using assms
proof cases
  case lifecycle_clear
  show thesis
    by (rule advance, rule on_import_queue_Inr [OF lifecycle_clear]) (simp add: clears_tokens_advance lifecycle_clear_tokens)
next
  case lifecycle_renew
  show thesis
    by (rule advance, rule on_import_queue_Inr [OF lifecycle_renew]) (simp add: clears_tokens_advance lifecycle_renew_tokens)
next
  case supersede_bucket
  show thesis
    by (rule advance, rule supersede_bucket_from_advances, rule supersede_bucket [unfolded supersede_bucket_def])
next
  case environment
  show thesis by (rule advance, rule advances_same) (simp_all add: environment)
next
  case delete_bucket
  then show thesis using deletion by blast
next
  case admit_contents
  show thesis by (rule advance, rule keepsD [OF admit_contents_step_advances admit_contents(1)]) (use admit_contents(2) in simp)
next
  case admit_content_and_prefix
  show thesis
    by (rule advance, rule keepsD [OF admit_content_and_prefix_advances admit_content_and_prefix(1)])
      (use admit_content_and_prefix(2) in simp)
next
  case admit_lifecycle
  show thesis by (rule advance, rule keepsD [OF lifecycle_admission_advances admit_lifecycle(1)]) (use admit_lifecycle(2) in simp)
next
  case admit_zip_outputs
  show thesis by (rule advance, rule keepsD [OF admit_zip_outputs_advances admit_zip_outputs(1)]) (use admit_zip_outputs(2) in blast)
next
  case admit_zip_source
  show thesis by (rule advance, rule keepsD [OF admit_zip_source_advances admit_zip_source(1)]) (use admit_zip_source(2) in simp)
qed (rule advance, erule keepsD [rotated], rule submit_advances claim_extracted_advances release_extracted_advances reset_batch_advances
    mutation_transactions_advance complete_mutation_advances recover_advances end_of_job_advances
    job_transactions_advance delete_jobs_advances)+

section \<open>A revoked token stays revoked\<close>

definition guard_held :: "standard_mutation_guard \<Rightarrow> import_db \<Rightarrow> bool" where
  "guard_held g d \<longleftrightarrow> (\<exists>r \<in> set (im_destinations d). destination_at (sg_bucket g) (sg_key g) r \<and>
     dst_generation r = sg_expected_generation g \<and> dst_mutation_id r = Some (sg_mutation_id g))"

definition guard_issued :: "standard_mutation_guard \<Rightarrow> import_db \<Rightarrow> bool" where
  "guard_issued g d \<longleftrightarrow> (\<exists>r \<in> set (im_destinations d). destination_at (sg_bucket g) (sg_key g) r \<and>
     sg_expected_generation g \<le> dst_generation r)"

lemma held_issued: "guard_held g d \<Longrightarrow> guard_issued g d"
  unfolding guard_held_def guard_issued_def by (metis order_refl)

lemma destination_at_pk: "destination_at b k r \<longleftrightarrow> dst_pk r = (b, k)"
  by (simp add: destination_at_def)

lemma issued_advances:
  assumes "keyed d" "advances_from T d d'" "guard_issued g d"
  shows "guard_issued g d'"
proof -
  from assms(3) obtain r where r: "r \<in> set (im_destinations d)" "dst_pk r = (sg_bucket g, sg_key g)" "sg_expected_generation g \<le> dst_generation r"
    unfolding guard_issued_def destination_at_pk by blast
  with assms(1,2) obtain r' where "r' \<in> set (im_destinations d')" "dst_pk r' = dst_pk r" "dst_generation r \<le> dst_generation r'"
    unfolding advances_from_def evolves_from_def by blast
  with r show ?thesis unfolding guard_issued_def destination_at_pk by (metis order_trans)
qed

lemma revoked_advances:
  assumes "keyed d" "advances_from T d d'" "guard_issued g d" "\<not> guard_held g d"
  shows "\<not> guard_held g d'"
proof
  assume "guard_held g d'"
  then obtain r' where r': "r' \<in> set (im_destinations d')" "dst_pk r' = (sg_bucket g, sg_key g)"
      "dst_generation r' = sg_expected_generation g" "dst_mutation_id r' = Some (sg_mutation_id g)"
    unfolding guard_held_def destination_at_pk by blast
  then have "carried (same_token r') (im_destinations d) r'"
    using assms(1,2) unfolding advances_from_def evolves_from_def by blast
  then show False
    unfolding carried_def
  proof
    assume "\<exists>r \<in> set (im_destinations d). dst_pk r = dst_pk r' \<and> dst_generation r = dst_generation r' \<and> same_token r' r"
    with r' assms(4) show False unfolding guard_held_def destination_at_pk same_token_def by metis
  next
    assume "\<forall>r \<in> set (im_destinations d). dst_pk r = dst_pk r' \<longrightarrow> dst_generation r < dst_generation r'"
    with r' assms(3) show False unfolding guard_issued_def destination_at_pk by (metis linorder_not_le)
  qed
qed

text \<open>
  A revoked guard: it is not held, and the generation of its key is past it or, once its bucket was
  deleted, its token is one that is not handed out again and that nobody has.
\<close>

definition token_absent :: "standard_mutation_guard \<Rightarrow> import_db \<Rightarrow> bool" where
  "token_absent g d \<longleftrightarrow> (\<forall>r \<in> set (im_destinations d). destination_at (sg_bucket g) (sg_key g) r \<longrightarrow>
     dst_mutation_id r \<noteq> Some (sg_mutation_id g))"

definition revoked :: "string set \<Rightarrow> standard_mutation_guard \<Rightarrow> import_db \<Rightarrow> bool" where
  "revoked issued g d \<longleftrightarrow> \<not> guard_held g d \<and>
     (guard_issued g d \<or> sg_mutation_id g \<in> issued \<and> token_absent g d)"

lemma absent_unheld: "token_absent g d \<Longrightarrow> \<not> guard_held g d"
  unfolding token_absent_def guard_held_def by blast

lemma absent_advances:
  assumes "keyed d" "advances_from T d d'" "sg_mutation_id g \<notin> T" "token_absent g d"
  shows "token_absent g d'"
  unfolding token_absent_def destination_at_pk
proof (intro ballI impI notI)
  fix r' assume r': "r' \<in> set (im_destinations d')" "dst_pk r' = (sg_bucket g, sg_key g)" "dst_mutation_id r' = Some (sg_mutation_id g)"
  with assms(1-3) obtain r where "r \<in> set (im_destinations d)" "dst_pk r = dst_pk r'" "dst_mutation_id r = Some (sg_mutation_id g)"
    unfolding advances_from_def evolves_from_def by blast
  with assms(4) r'(2) show False unfolding token_absent_def destination_at_pk by metis
qed

lemma bucket_delete_keyed: "bucket_delete b now g = Inr (u, g') \<Longrightarrow> keyed (gw_import g) \<Longrightarrow> keyed (gw_import g')"
  unfolding keyed_def destinations_keyed_def jobs_keyed_def
  by (simp add: bucket_delete_effect(2,3) delete_rows_def distinct_map_filter)

lemma revoked_deletion:
  assumes "bucket_delete b now gw = Inr (u, gw')" "b \<notin> kept" "revoked issued g (gw_import gw)"
    "sg_mutation_id g \<in> issued \<or> sg_bucket g \<in> kept"
  shows "revoked issued g (gw_import gw')"
proof (cases "sg_bucket g = b")
  case True
  then have "token_absent g (gw_import gw')"
    by (simp add: token_absent_def bucket_delete_effect(2) [OF assms(1)] destination_at_def delete_rows_def)
  with True assms(2,4) absent_unheld show ?thesis unfolding revoked_def by blast
next
  case False
  then have "r \<in> set (im_destinations (gw_import gw')) \<longleftrightarrow> r \<in> set (im_destinations (gw_import gw))"
    if "destination_at (sg_bucket g) (sg_key g) r" for r
    using that by (simp add: bucket_delete_effect(2) [OF assms(1)] destination_at_def delete_rows_def)
  then show ?thesis
    using assms(3) unfolding revoked_def guard_held_def guard_issued_def token_absent_def by blast
qed

lemma revoked_step:
  assumes "ownership_step issued kept d d'" "keyed d" "revoked issued g d" "sg_mutation_id g \<in> issued \<or> sg_bucket g \<in> kept"
  shows "keyed d' \<and> revoked issued g d'"
  using assms(1)
proof (cases rule: ownership_step_advances)
  case deletion
  then show ?thesis using bucket_delete_keyed revoked_deletion assms(2-4) by blast
next
  case advance
  have "keyed d'" using advance assms(2) unfolding advances_from_def by blast
  moreover have "revoked issued g d'"
    using assms(3) issued_advances [OF assms(2) advance] revoked_advances [OF assms(2) advance] absent_advances [OF assms(2) advance] absent_unheld
    unfolding revoked_def by blast
  ultimately show ?thesis by blast
qed

lemma revoked_steps:
  assumes "(ownership_step issued kept)\<^sup>*\<^sup>* d d'" "keyed d" "guard_issued g d" "\<not> guard_held g d"
    "sg_mutation_id g \<in> issued \<or> sg_bucket g \<in> kept"
  shows "keyed d' \<and> revoked issued g d'"
  using assms
proof (induction rule: rtranclp_induct)
  case base
  then show ?case by (simp add: revoked_def)
next
  case (step d1 d2)
  then show ?case using revoked_step by blast
qed

lemma guard_live_held: "guard_live g ks clock d \<Longrightarrow> guard_held g d"
  unfolding guard_live_def guard_held_def
  by (auto simp: holds_token_def dest!: destination_for_update_row split: option.splits)

lemma sum_Inl: "(\<And>y. x \<noteq> Inr y) \<Longrightarrow> \<exists>e. x = Inl e"
  by (cases x) auto

lemma unheld_refused:
  assumes "\<not> guard_held g d"
  shows "\<exists>e. verify_standard_mutation_guard g b k ks clock d = Inl e"
    "\<exists>e. renew_standard_mutation max_day g clock now update_clock d = Inl e"
    "\<exists>e. complete_standard_mutation_in_transaction g now clock update_clock d = Inl e"
proof -
  note dead = guard_live_held [of g _ _ d, THEN assms [THEN notE]]
  show "\<exists>e. verify_standard_mutation_guard g b k ks clock d = Inl e"
    by (rule sum_Inl) (metis dead surj_pair verify_standard_mutation_guard_Inr)
  show "\<exists>e. renew_standard_mutation max_day g clock now update_clock d = Inl e"
  proof (rule sum_Inl)
    fix y
    show "renew_standard_mutation max_day g clock now update_clock d \<noteq> Inr y"
      unfolding renew_standard_mutation_def renew_standard_mutation_in_transaction_def
      by (cases y) (simp add: bindT_eq_Inr, blast dest: dead)
  qed
  have none: "\<not> (holds_token g r \<and> Q r)" if "r \<in> set (im_destinations d)" for r Q
    using assms that unfolding guard_held_def holds_token_def by blast
  then have count: "count_rows (\<lambda>r. holds_token g r \<and> Q r) (im_destinations d) = 0" for Q
    by (simp only: count_rows_0) blast
  show "\<exists>e. complete_standard_mutation_in_transaction g now clock update_clock d = Inl e"
  proof (rule sum_Inl)
    fix y
    show "complete_standard_mutation_in_transaction g now clock update_clock d \<noteq> Inr y"
      unfolding complete_standard_mutation_in_transaction_def
      by (cases y) (simp add: bindT_eq_Inr clear_standard_mutation_eq count)
  qed
qed

end
