(* ===== verification/Ownership_Exclusive.thy ===== *)
theory Ownership_Exclusive
  imports Ownership_Fencing
begin

text \<open>
  At most one writer per key. Claimants are import jobs, by a destination they own or by a prefix
  they claim, and standard or lifecycle mutations, by the key or the prefix of their token. The
  invariant says that no key of a bucket is covered by two claimants and that only unfinished jobs
  hold claims. A transaction that grows a claim first clears the region it grows into, by
  superseding jobs and revoking tokens, or, for lifecycle, refuses when the region is occupied.
\<close>

section \<open>Claimants\<close>

datatype claimant = Job_claim string | Token_claim string

fun covers :: "import_db \<Rightarrow> claimant \<Rightarrow> string \<Rightarrow> string \<Rightarrow> bool" where
  "covers d (Job_claim i) b k \<longleftrightarrow>
     (\<exists>r \<in> set (im_destinations d). destination_at b k r \<and> dst_owner_job_id r = Some i) \<or>
     (\<exists>c \<in> set (im_prefix_claims d). pc_job_id c = i \<and> pc_bucket c = b \<and> starts_with k (pc_prefix c))"
| "covers d (Token_claim a) b k \<longleftrightarrow>
     (\<exists>r \<in> set (im_destinations d). destination_at b a r \<and> dst_mutation_id r \<noteq> None \<and> token_covers k r)"

definition exclusive :: "import_db \<Rightarrow> bool" where
  "exclusive d \<longleftrightarrow> (\<forall>x y b k. covers d x b k \<longrightarrow> covers d y b k \<longrightarrow> x = y)"

definition backed :: "import_db \<Rightarrow> bool" where
  "backed d \<longleftrightarrow> (\<forall>r \<in> set (im_destinations d). \<forall>i. dst_owner_job_id r = Some i \<longrightarrow> job_active d i) \<and>
     (\<forall>c \<in> set (im_prefix_claims d). job_active d (pc_job_id c))"

definition ownership_ok :: "import_db \<Rightarrow> bool" where
  "ownership_ok d \<longleftrightarrow> keyed d \<and> backed d \<and> exclusive d"

lemma covers_same:
  assumes "im_destinations d' = im_destinations d" "im_prefix_claims d' = im_prefix_claims d"
  shows "covers d' x b k \<longleftrightarrow> covers d x b k"
  by (cases x) (simp_all add: assms)

section \<open>Claims that only shrink\<close>

definition row_shrinks :: "import_destination_model \<Rightarrow> import_destination_model \<Rightarrow> bool" where
  "row_shrinks r r' \<longleftrightarrow> dst_pk r' = dst_pk r \<and> (dst_owner_job_id r' = None \<or> dst_owner_job_id r' = dst_owner_job_id r) \<and>
     (dst_mutation_id r' = None \<or> dst_mutation_id r' = dst_mutation_id r \<and> dst_mutation_prefix r' = dst_mutation_prefix r)"

definition shrinks :: "import_db \<Rightarrow> import_db \<Rightarrow> bool" where
  "shrinks d d' \<longleftrightarrow> (\<forall>r' \<in> set (im_destinations d'). \<exists>r \<in> set (im_destinations d). row_shrinks r r') \<and>
     set (im_prefix_claims d') \<subseteq> set (im_prefix_claims d)"

lemma row_shrinks_refl: "row_shrinks r r"
  by (simp add: row_shrinks_def)

lemma shrinks_covers:
  assumes "shrinks d d'" "covers d' x b k"
  shows "covers d x b k"
proof (cases x)
  case (Job_claim i)
  show ?thesis
  proof (cases "\<exists>r \<in> set (im_destinations d'). destination_at b k r \<and> dst_owner_job_id r = Some i")
    case True
    then obtain r' where r': "r' \<in> set (im_destinations d')" "dst_pk r' = (b, k)" "dst_owner_job_id r' = Some i"
      unfolding destination_at_pk by blast
    with assms(1) obtain r where "r \<in> set (im_destinations d)" "row_shrinks r r'" unfolding shrinks_def by blast
    with r' have "r \<in> set (im_destinations d) \<and> destination_at b k r \<and> dst_owner_job_id r = Some i"
      unfolding row_shrinks_def destination_at_pk by force
    then show ?thesis unfolding Job_claim covers.simps by blast
  next
    case False
    then show ?thesis using assms unfolding Job_claim covers.simps shrinks_def by blast
  qed
next
  case (Token_claim a)
  from assms(2) obtain r' where r': "r' \<in> set (im_destinations d')" "dst_pk r' = (b, a)" "dst_mutation_id r' \<noteq> None" "token_covers k r'"
    unfolding Token_claim covers.simps destination_at_pk by blast
  with assms(1) obtain r where "r \<in> set (im_destinations d)" "row_shrinks r r'" unfolding shrinks_def by blast
  moreover from this(2) r'(3) have "dst_pk r = dst_pk r'" "dst_mutation_id r = dst_mutation_id r'" "dst_mutation_prefix r = dst_mutation_prefix r'"
    unfolding row_shrinks_def by auto
  ultimately have "r \<in> set (im_destinations d) \<and> destination_at b a r \<and> dst_mutation_id r \<noteq> None \<and> token_covers k r"
    using r' by (simp add: destination_at_pk token_covers_def)
  then show ?thesis unfolding Token_claim covers.simps by blast
qed

lemma shrinks_exclusive: "exclusive d \<Longrightarrow> shrinks d d' \<Longrightarrow> exclusive d'"
  unfolding exclusive_def by (meson shrinks_covers)

lemma shrinks_backed:
  assumes "backed d" "shrinks d d'"
    "\<And>i. job_active d i \<Longrightarrow> (\<exists>r \<in> set (im_destinations d'). dst_owner_job_id r = Some i) \<or> (\<exists>c \<in> set (im_prefix_claims d'). pc_job_id c = i) \<Longrightarrow>
       job_active d' i"
  shows "backed d'"
  unfolding backed_def
proof (intro conjI ballI allI impI)
  fix r' i assume r': "r' \<in> set (im_destinations d')" "dst_owner_job_id r' = Some i"
  with assms(2) obtain r where "r \<in> set (im_destinations d)" "dst_owner_job_id r = Some i" unfolding shrinks_def row_shrinks_def by force
  with assms(1) have "job_active d i" unfolding backed_def by blast
  with assms(3) r' show "job_active d' i" by blast
next
  fix c assume c: "c \<in> set (im_prefix_claims d')"
  with assms(1,2) have "job_active d (pc_job_id c)" unfolding backed_def shrinks_def by blast
  with assms(3) c show "job_active d' (pc_job_id c)" by blast
qed

lemma shrinks_update:
  assumes "im_destinations d' = update_rows P f (im_destinations d)" "set (im_prefix_claims d') \<subseteq> set (im_prefix_claims d)"
    "\<And>r. P r \<Longrightarrow> row_shrinks r (f r)"
  shows "shrinks d d'"
proof -
  have "row_shrinks r (if P r then f r else r)" for r
    using assms(3) row_shrinks_refl by simp
  with assms(2) show ?thesis unfolding shrinks_def assms(1) set_update_rows by blast
qed

definition preserves :: "import_db \<Rightarrow> import_db \<Rightarrow> bool" where
  "preserves d d' \<longleftrightarrow> (ownership_ok d \<longrightarrow> ownership_ok d')"

interpretation preserves: tx_preorder preserves
  by unfold_locales (simp_all add: preserves_def)

lemma preserves_keyed_shrinking:
  assumes "keyed d \<Longrightarrow> keyed d'" "shrinks d d'"
    "\<And>i. ownership_ok d \<Longrightarrow> job_active d i \<Longrightarrow>
       (\<exists>r \<in> set (im_destinations d'). dst_owner_job_id r = Some i) \<or> (\<exists>c \<in> set (im_prefix_claims d'). pc_job_id c = i) \<Longrightarrow> job_active d' i"
  shows "preserves d d'"
  unfolding preserves_def
proof
  assume ok: "ownership_ok d"
  then have "keyed d" "backed d" "exclusive d" unfolding ownership_ok_def by blast+
  then have "keyed d'" "backed d'" "exclusive d'"
    using assms(1) shrinks_exclusive [OF _ assms(2)] shrinks_backed [OF _ assms(2)] assms(3) [OF ok] by blast+
  then show "ownership_ok d'" unfolding ownership_ok_def by blast
qed

lemma preserves_shrinking:
  assumes "advances d d'" "shrinks d d'"
    "\<And>i. ownership_ok d \<Longrightarrow> job_active d i \<Longrightarrow>
       (\<exists>r \<in> set (im_destinations d'). dst_owner_job_id r = Some i) \<or> (\<exists>c \<in> set (im_prefix_claims d'). pc_job_id c = i) \<Longrightarrow> job_active d' i"
  shows "preserves d d'"
  using assms(1) by (intro preserves_keyed_shrinking assms(2,3)) (simp add: advances_def)

lemma preserves_same:
  assumes "im_destinations d' = im_destinations d" "im_jobs d' = im_jobs d" "im_prefix_claims d' = im_prefix_claims d"
  shows "preserves d d'"
  by (rule preserves_shrinking)
    (use assms in \<open>auto simp: shrinks_def job_active_def row_shrinks_refl intro!: advances_same bexI\<close>)

section \<open>Statements that keep the invariant\<close>

lemma row_shrinks_rules:
  "row_shrinks r (released iv now r)" "row_shrinks r (freed ivf now r)" "row_shrinks r (cleared_token now r)"
  by (simp_all add: row_shrinks_def released_def freed_def cleared_token_def split: option.splits)

lemma job_active_mono:
  assumes "\<And>j. j \<in> set (im_jobs d) \<Longrightarrow> unfinished (ij_state j) \<Longrightarrow> \<exists>j' \<in> set (im_jobs d'). ij_id j' = ij_id j \<and> unfinished (ij_state j')"
  shows "job_active d i \<Longrightarrow> job_active d' i"
  unfolding job_active_def using assms by blast

lemma update_destinations_preserves:
  assumes "\<And>r. P r \<Longrightarrow> row_advances r (f r)" "\<And>r. P r \<Longrightarrow> row_shrinks r (f r)"
  shows "keeps preserves (update_destinations P f)"
proof (rule keepsI)
  fix d n d' assume u: "update_destinations P f d = Inr (n, d')"
  then have d': "d' = with_destinations (update_rows P f (im_destinations d)) d"
    by (simp add: update_destinations_with)
  show "preserves d d'"
  proof (rule preserves_shrinking)
    show "advances d d'" by (rule keepsD [OF update_destinations_advances u]) (rule assms(1))
    show "shrinks d d'" by (rule shrinks_update [of d' P f d]) (simp_all add: d' assms(2))
  qed (simp add: d' job_active_def)
qed

lemma update_jobs_preserves:
  assumes "\<And>j. ij_id (f j) = ij_id j" "\<And>j. P j \<Longrightarrow> unfinished (ij_state j) \<Longrightarrow> unfinished (ij_state (f j))"
  shows "keeps preserves (update_jobs P f)"
proof (rule keepsI)
  fix d n d' assume u: "update_jobs P f d = Inr (n, d')"
  then have d': "im_jobs d' = update_rows P f (im_jobs d)" "im_destinations d' = im_destinations d" "im_prefix_claims d' = im_prefix_claims d"
    by (auto simp: update_jobs_def)
  show "preserves d d'"
  proof (rule preserves_shrinking)
    show "advances d d'" by (rule keepsD [OF update_jobs_advances u]) (rule assms(1))
    show "shrinks d d'" using d' row_shrinks_refl unfolding shrinks_def by auto
    show "job_active d' i" if "job_active d i" for i
    proof (rule job_active_mono [OF _ that])
      fix j assume j: "j \<in> set (im_jobs d)" "unfinished (ij_state j)"
      then have "(if P j then f j else j) \<in> set (im_jobs d')" unfolding d'(1) set_update_rows by (rule_tac imageI)
      then show "\<exists>j' \<in> set (im_jobs d'). ij_id j' = ij_id j \<and> unfinished (ij_state j')"
        by (rule bexI [rotated]) (use assms j in simp)
    qed
  qed
qed

lemma superseded_all_preserves: "preserves d (superseded_all A ivf now d)"
proof (rule preserves_shrinking)
  show "advances d (superseded_all A ivf now d)" by (rule superseded_all_advances)
  show "shrinks d (superseded_all A ivf now d)"
    by (rule shrinks_update [OF superseded_all_sel(1)]) (auto simp: delete_rows_def row_shrinks_rules(2))
  show "job_active (superseded_all A ivf now d) i"
    if "job_active d i" "(\<exists>r \<in> set (im_destinations (superseded_all A ivf now d)). dst_owner_job_id r = Some i) \<or>
      (\<exists>c \<in> set (im_prefix_claims (superseded_all A ivf now d)). pc_job_id c = i)" for i
    using that by (auto simp: set_update_rows owned_in_def delete_rows_def split: if_splits)
qed

lemma ok_preserves: "(ownership_ok d \<Longrightarrow> preserves d d') \<Longrightarrow> preserves d d'"
  unfolding preserves_def by blast

lemma ownership_ok_keyed: "ownership_ok d \<Longrightarrow> destinations_keyed d" "ownership_ok d \<Longrightarrow> jobs_keyed d" "ownership_ok d \<Longrightarrow> keyed d"
  unfolding ownership_ok_def keyed_def by blast+

lemma supersede_job_preserves: "keeps preserves (supersede_job_with_destination_invalidation i iv now)"
proof (rule keepsI, rule ok_preserves)
  fix d u d' assume s: "supersede_job_with_destination_invalidation i iv now d = Inr (u, d')" and ok: "ownership_ok d"
  from supersede_job_closed [OF ownership_ok_keyed(1,2) [OF ok] s] show "preserves d d'"
    by (simp only: superseded_all_preserves)
qed

lemma supersede_conflicts_preserves: "keeps preserves (supersede_conflicts_in_order b ts mp ex now)"
proof (rule keepsI, rule ok_preserves)
  fix d u d' assume s: "supersede_conflicts_in_order b ts mp ex now d = Inr (u, d')" and ok: "ownership_ok d"
  from supersede_conflicts_closed [OF ownership_ok_keyed(1,2) [OF ok] s] show "preserves d d'"
    by (simp only: superseded_all_preserves)
qed

lemma clears_preserve:
  assumes "im_destinations d' = update_rows P (cleared_token now) (im_destinations d)" "im_jobs d' = im_jobs d"
    "im_prefix_claims d' = im_prefix_claims d"
  shows "preserves d d'"
proof (rule preserves_shrinking)
  show "advances d d'" by (rule advances_update [OF assms(1)]) (simp_all add: assms(2) row_advances_cleared)
  show "shrinks d d'" by (rule shrinks_update [OF assms(1)]) (simp_all add: assms(3) row_shrinks_rules(3))
qed (simp add: job_active_def assms(2))

lemma invalidate_preserves: "keeps preserves (invalidate_standard_mutations_in_order b ks mp now)"
proof (rule keepsI, rule ok_preserves)
  fix d u d' assume s: "invalidate_standard_mutations_in_order b ks mp now d = Inr (u, d')" and ok: "ownership_ok d"
  from invalidate_in_order_closed [OF ownership_ok_keyed(1) [OF ok] s] show "preserves d d'"
    by (intro clears_preserve [of d' "revoked_by b ks mp" now d]) simp_all
qed

section \<open>Clearing a region\<close>

text \<open>The region a claim grows into: exact keys and a literal prefix.\<close>

definition in_region :: "string list \<Rightarrow> string option \<Rightarrow> string \<Rightarrow> bool" where
  "in_region ks mp k \<longleftrightarrow> k \<in> set ks \<or> (case mp of None \<Rightarrow> False | Some p \<Rightarrow> starts_with k p)"

lemma common_key_overlaps: "starts_with k p \<Longrightarrow> starts_with k q \<Longrightarrow> prefixes_overlap q p"
  by (auto simp: prefixes_overlap_def starts_with_iff append_eq_append_conv2)

lemma current_owner_row:
  assumes "destinations_keyed d" "r \<in> set (im_destinations d)" "destination_at b k r"
  shows "destination_for_update b k d = Some r"
  unfolding destination_for_update_def find_destination_for_update_def
proof (rule one_row_unique [OF assms(2)])
  show "dst_bucket r = b \<and> dst_key r = k" using assms(3) by (simp add: destination_at_def)
  fix s assume "s \<in> set (im_destinations d)" "dst_bucket s = b \<and> dst_key s = k"
  then show "s = r" using keyed_unique [OF assms(1), of s r] assms(2,3) by (simp add: destination_at_def)
qed

lemma job_in_region_overlaps:
  assumes ok: "ownership_ok d" and ts: "ts = map (\<lambda>k. (k, current_owner b k d)) ks" and k: "in_region ks mp k"
    and c: "covers d (Job_claim i) b k"
  shows "i \<in> overlapping b ts mp d" "job_active d i"
proof -
  consider (owner) r where "r \<in> set (im_destinations d)" "destination_at b k r" "dst_owner_job_id r = Some i"
    | (claim) c where "c \<in> set (im_prefix_claims d)" "pc_job_id c = i" "pc_bucket c = b" "starts_with k (pc_prefix c)"
    using c unfolding covers.simps by blast
  note cases = this
  show act: "job_active d i"
    using cases ok unfolding ownership_ok_def backed_def by cases blast+
  from cases show "i \<in> overlapping b ts mp d"
  proof cases
    case owner
    have o: "current_owner b k d = Some i"
      using current_owner_row [OF ownership_ok_keyed(1) [OF ok] owner(1,2)] owner(3) by (simp add: current_owner_def)
    show ?thesis
    proof (cases "k \<in> set ks")
      case True
      then have "(k, Some i) \<in> set ts" using o unfolding ts by (auto intro!: rev_image_eqI)
      then show ?thesis unfolding overlapping_def by force
    next
      case False
      then obtain p where "mp = Some p" "starts_with k p" using k by (auto simp: in_region_def split: option.splits)
      with owner act show ?thesis by (auto simp: overlapping_def in_destination_owners destination_at_def)
    qed
  next
    case claim
    show ?thesis
    proof (cases "k \<in> set ks")
      case True
      then have "(k, current_owner b k d) \<in> set ts" unfolding ts by auto
      moreover have "i \<in> set (prefix_owners_for_key b k d)" using claim act by (auto simp: prefix_owners_for_key_def)
      ultimately show ?thesis unfolding overlapping_def by force
    next
      case False
      then obtain p where p: "mp = Some p" "starts_with k p" using k by (auto simp: in_region_def split: option.splits)
      have "prefixes_overlap (pc_prefix c) p" by (rule common_key_overlaps [OF p(2) claim(4)])
      then have "i \<in> set (prefix_owners_for_prefix b p d)"
        using claim act by (auto simp: prefix_owners_for_prefix_def prefixes_overlap_def)
      with p(1) show ?thesis by (simp add: overlapping_def)
    qed
  qed
qed

lemma token_in_region_revoked:
  assumes "in_region ks mp k" "token_covers k r" "with_token b r"
  shows "revoked_by b ks mp r"
proof (cases "k \<in> set ks")
  case True
  with assms(2,3) show ?thesis by (auto simp: revoked_by_def exact_overlap_def list_ex_iff token_covers_def)
next
  case False
  then obtain p where p: "mp = Some p" "starts_with k p" using assms(1) by (auto simp: in_region_def split: option.splits)
  have "prefix_overlap mp r"
    using assms(2) p common_key_overlaps [OF p(2)] by (auto simp: prefix_overlap_def token_covers_def split: option.splits)
  with assms(3) show ?thesis by (simp add: revoked_by_def)
qed

lemma superseded_covers:
  assumes "covers (superseded_all A ivf now d) (Job_claim i) b k"
  shows "covers d (Job_claim i) b k" "i \<notin> A"
  using assms by (auto simp: set_update_rows destination_at_def owned_in_def delete_rows_def split: if_splits)

lemma cleared_covers:
  assumes d2: "d2 = with_destinations (update_rows (revoked_by b ks mp) (cleared_token now) (im_destinations d1)) d1"
  shows "covers d2 (Job_claim i) b' k' \<longleftrightarrow> covers d1 (Job_claim i) b' k'"
    and "covers d2 (Token_claim a) b k \<Longrightarrow> \<not> in_region ks mp k"
proof -
  have "(\<exists>r \<in> set (update_rows (revoked_by b ks mp) (cleared_token now) t). destination_at b' k' r \<and> dst_owner_job_id r = Some i) \<longleftrightarrow>
      (\<exists>r \<in> set t. destination_at b' k' r \<and> dst_owner_job_id r = Some i)" for t
    by (induction t) (auto simp: update_rows_def cleared_token_def destination_at_def)
  then show "covers d2 (Job_claim i) b' k' \<longleftrightarrow> covers d1 (Job_claim i) b' k'"
    by (simp add: d2)
  assume "covers d2 (Token_claim a) b k"
  then obtain r where r: "r \<in> set (update_rows (revoked_by b ks mp) (cleared_token now) (im_destinations d1))" "destination_at b a r"
      "dst_mutation_id r \<noteq> None" "token_covers k r"
    unfolding d2 covers.simps with_destinations_sel by blast
  from r(1,3) have "\<not> revoked_by b ks mp r"
    by (auto simp: set_update_rows cleared_token_def split: if_splits)
  moreover have "with_token b r" using r(2,3) by (simp add: with_token_def destination_at_def)
  ultimately show "\<not> in_region ks mp k" using token_in_region_revoked r(4) by blast
qed

lemma region_cleared:
  assumes ok: "ownership_ok d" and ts: "ts = map (\<lambda>k. (k, current_owner b k d)) ks"
    and d1: "d1 = superseded_all (conflicting b ts mp ex d) ivf now d"
    and d2: "d2 = with_destinations (update_rows (revoked_by b ks mp) (cleared_token now) (im_destinations d1)) d1"
    and k: "in_region ks mp k" and c: "covers d2 x b k"
  shows "\<exists>i. x = Job_claim i \<and> ex = Some i"
proof (cases x)
  case (Job_claim i)
  have c1: "covers d1 (Job_claim i) b k" using c cleared_covers(1) [OF d2] unfolding Job_claim by blast
  note c0 = superseded_covers [OF c1 [unfolded d1]]
  from job_in_region_overlaps [OF ok ts k c0(1)] c0(2) have "ex = Some i"
    unfolding conflicting_def by blast
  with Job_claim show ?thesis by blast
next
  case (Token_claim a)
  with cleared_covers(2) [OF d2] c k show ?thesis by blast
qed

section \<open>Growing into a cleared region\<close>

lemma grow_exclusive:
  assumes "exclusive d"
    and grows: "\<And>y b' k'. covers d' y b' k' \<Longrightarrow> covers d y b' k' \<or> y = x \<and> b' = b \<and> region k'"
    and clear: "\<And>y k'. region k' \<Longrightarrow> covers d y b k' \<Longrightarrow> y = x"
  shows "exclusive d'"
  unfolding exclusive_def
proof (intro allI impI)
  fix y z b' k' assume yz: "covers d' y b' k'" "covers d' z b' k'"
  from grows [OF yz(1)] grows [OF yz(2)] show "y = z"
    using assms(1) clear unfolding exclusive_def by blast
qed

definition owner_claimed :: "string \<Rightarrow> string \<Rightarrow> string \<Rightarrow> import_db \<Rightarrow> import_db \<Rightarrow> bool" where
  "owner_claimed i b k d d' \<longleftrightarrow> im_prefix_claims d' = im_prefix_claims d \<and> im_jobs d' = im_jobs d \<and>
     (\<forall>r' \<in> set (im_destinations d'). (\<exists>r \<in> set (im_destinations d). row_shrinks r r') \<or>
        destination_at b k r' \<and> dst_owner_job_id r' = Some i \<and> dst_mutation_id r' = None)"

definition token_set :: "string \<Rightarrow> string \<Rightarrow> string option \<Rightarrow> import_db \<Rightarrow> import_db \<Rightarrow> bool" where
  "token_set b a mp d d' \<longleftrightarrow> im_prefix_claims d' = im_prefix_claims d \<and> im_jobs d' = im_jobs d \<and>
     (\<forall>r' \<in> set (im_destinations d'). (\<exists>r \<in> set (im_destinations d). row_shrinks r r') \<or>
        destination_at b a r' \<and> dst_owner_job_id r' = None \<and> dst_mutation_prefix r' = mp)"

lemma owner_claimedD:
  assumes "owner_claimed i b k d d'"
  shows "im_prefix_claims d' = im_prefix_claims d" "im_jobs d' = im_jobs d"
    "r' \<in> set (im_destinations d') \<Longrightarrow> (\<exists>r \<in> set (im_destinations d). row_shrinks r r') \<or>
        destination_at b k r' \<and> dst_owner_job_id r' = Some i \<and> dst_mutation_id r' = None"
proof -
  note parts = assms [unfolded owner_claimed_def]
  show "im_prefix_claims d' = im_prefix_claims d" "im_jobs d' = im_jobs d" using parts by simp_all
  show "(\<exists>r \<in> set (im_destinations d). row_shrinks r r') \<or>
        destination_at b k r' \<and> dst_owner_job_id r' = Some i \<and> dst_mutation_id r' = None" if "r' \<in> set (im_destinations d')"
    by (rule bspec [OF parts [THEN conjunct2, THEN conjunct2] that])
qed

lemma token_setD:
  assumes "token_set b a mp d d'"
  shows "im_prefix_claims d' = im_prefix_claims d" "im_jobs d' = im_jobs d"
    "r' \<in> set (im_destinations d') \<Longrightarrow> (\<exists>r \<in> set (im_destinations d). row_shrinks r r') \<or>
        destination_at b a r' \<and> dst_owner_job_id r' = None \<and> dst_mutation_prefix r' = mp"
proof -
  note parts = assms [unfolded token_set_def]
  show "im_prefix_claims d' = im_prefix_claims d" "im_jobs d' = im_jobs d" using parts by simp_all
  show "(\<exists>r \<in> set (im_destinations d). row_shrinks r r') \<or>
        destination_at b a r' \<and> dst_owner_job_id r' = None \<and> dst_mutation_prefix r' = mp" if "r' \<in> set (im_destinations d')"
    by (rule bspec [OF parts [THEN conjunct2, THEN conjunct2] that])
qed

lemma old_row_covers:
  assumes "r \<in> set (im_destinations d)" "row_shrinks r r'" "destination_at b k r'"
  shows "dst_owner_job_id r' = Some i \<Longrightarrow> covers d (Job_claim i) b k"
    and "dst_mutation_id r' \<noteq> None \<Longrightarrow> token_covers k' r' \<Longrightarrow> covers d (Token_claim k) b k'"
proof -
  have at: "destination_at b k r" using assms(2,3) by (simp add: row_shrinks_def destination_at_def)
  show "covers d (Job_claim i) b k" if "dst_owner_job_id r' = Some i"
    using assms(1,2) at that unfolding covers.simps row_shrinks_def by (intro disjI1 bexI [of _ r]) auto
  show "covers d (Token_claim k) b k'" if t: "dst_mutation_id r' \<noteq> None" "token_covers k' r'"
  proof -
    have "dst_mutation_id r = dst_mutation_id r'" "dst_mutation_prefix r = dst_mutation_prefix r'" "dst_key r = dst_key r'"
      using assms(2) t(1) by (auto simp: row_shrinks_def)
    with t have "dst_mutation_id r \<noteq> None" "token_covers k' r" by (simp_all add: token_covers_def)
    with assms(1) at show ?thesis unfolding covers.simps by blast
  qed
qed

lemma owner_claimed_covers:
  assumes "owner_claimed i b k d d'" "covers d' y b' k'"
  shows "covers d y b' k' \<or> y = Job_claim i \<and> b' = b \<and> k' = k"
proof (cases y)
  case (Job_claim j)
  show ?thesis
  proof (cases "\<exists>c \<in> set (im_prefix_claims d). pc_job_id c = j \<and> pc_bucket c = b' \<and> starts_with k' (pc_prefix c)")
    case True
    then show ?thesis unfolding Job_claim covers.simps by blast
  next
    case False
    note claims = owner_claimedD(1) [OF assms(1)]
    from assms(2) False obtain r' where r': "r' \<in> set (im_destinations d')" "destination_at b' k' r'" "dst_owner_job_id r' = Some j"
      unfolding Job_claim covers.simps claims by blast
    have "(\<exists>r \<in> set (im_destinations d). row_shrinks r r') \<or> destination_at b k r' \<and> dst_owner_job_id r' = Some i"
      using owner_claimedD(3) [OF assms(1) r'(1)] by blast
    then show ?thesis
    proof (elim disjE bexE conjE)
      fix r assume r: "r \<in> set (im_destinations d)" "row_shrinks r r'"
      show ?thesis unfolding Job_claim by (rule disjI1, rule old_row_covers(1) [OF r r'(2,3)])
    next
      assume "destination_at b k r'" "dst_owner_job_id r' = Some i"
      with r' Job_claim show ?thesis by (simp add: destination_at_def)
    qed
  qed
next
  case (Token_claim a)
  from assms(2) obtain r' where r': "r' \<in> set (im_destinations d')" "destination_at b' a r'" "dst_mutation_id r' \<noteq> None" "token_covers k' r'"
    unfolding Token_claim covers.simps by blast
  from owner_claimedD(3) [OF assms(1) r'(1)] r'(3) obtain r where r: "r \<in> set (im_destinations d)" "row_shrinks r r'" by blast
  show ?thesis unfolding Token_claim by (rule disjI1, rule old_row_covers(2) [OF r r'(2,3,4)])
qed

lemma token_set_covers:
  assumes "token_set b a mp d d'" "covers d' y b' k'"
  shows "covers d y b' k' \<or> y = Token_claim a \<and> b' = b \<and> in_region [a] mp k'"
proof (cases y)
  case (Job_claim j)
  show ?thesis
  proof (cases "\<exists>c \<in> set (im_prefix_claims d). pc_job_id c = j \<and> pc_bucket c = b' \<and> starts_with k' (pc_prefix c)")
    case True
    then show ?thesis unfolding Job_claim covers.simps by blast
  next
    case False
    note claims = token_setD(1) [OF assms(1)]
    from assms(2) False obtain r' where r': "r' \<in> set (im_destinations d')" "destination_at b' k' r'" "dst_owner_job_id r' = Some j"
      unfolding Job_claim covers.simps claims by blast
    have "dst_owner_job_id r' \<noteq> None" using r'(3) by simp
    with token_setD(3) [OF assms(1) r'(1)] obtain r where r: "r \<in> set (im_destinations d)" "row_shrinks r r'" by blast
    show ?thesis unfolding Job_claim by (rule disjI1, rule old_row_covers(1) [OF r r'(2,3)])
  qed
next
  case (Token_claim a')
  from assms(2) obtain r' where r': "r' \<in> set (im_destinations d')" "destination_at b' a' r'" "dst_mutation_id r' \<noteq> None" "token_covers k' r'"
    unfolding Token_claim covers.simps by blast
  have "(\<exists>r \<in> set (im_destinations d). row_shrinks r r') \<or> destination_at b a r' \<and> dst_mutation_prefix r' = mp"
    using token_setD(3) [OF assms(1) r'(1)] by blast
  then show ?thesis
  proof (elim disjE bexE conjE)
    fix r assume r: "r \<in> set (im_destinations d)" "row_shrinks r r'"
    show ?thesis unfolding Token_claim by (rule disjI1, rule old_row_covers(2) [OF r r'(2,3,4)])
  next
    assume "destination_at b a r'" "dst_mutation_prefix r' = mp"
    with r' Token_claim show ?thesis
      by (auto simp: destination_at_def token_covers_def in_region_def split: option.splits)
  qed
qed

lemma grown_backed:
  assumes "backed d" "im_jobs d' = im_jobs d" "im_prefix_claims d' = im_prefix_claims d"
    and rows: "\<And>r'. r' \<in> set (im_destinations d') \<Longrightarrow>
      (\<exists>r \<in> set (im_destinations d). row_shrinks r r') \<or> dst_owner_job_id r' = None \<or> (\<exists>i. dst_owner_job_id r' = Some i \<and> job_active d i)"
  shows "backed d'"
proof -
  have act: "job_active d' i \<longleftrightarrow> job_active d i" for i by (simp add: job_active_def assms(2))
  have "job_active d i" if r': "r' \<in> set (im_destinations d')" "dst_owner_job_id r' = Some i" for r' i
    using rows [OF r'(1)]
  proof (elim disjE)
    assume "\<exists>r \<in> set (im_destinations d). row_shrinks r r'"
    then obtain r where "r \<in> set (im_destinations d)" "dst_owner_job_id r = Some i"
      using r'(2) unfolding row_shrinks_def by auto
    with assms(1) show ?thesis unfolding backed_def by blast
  qed (use r'(2) in auto)
  with assms(1) show ?thesis unfolding backed_def act assms(3) by blast
qed

lemma owner_claimed_ok:
  assumes "ownership_ok d" "keyed d'" "owner_claimed i b k d d'" "job_active d i"
    "\<And>y. covers d y b k \<Longrightarrow> y = Job_claim i"
  shows "ownership_ok d'"
proof -
  have "exclusive d'"
    by (rule grow_exclusive [of d d' "Job_claim i" b "\<lambda>k'. k' = k"])
      (use assms(1,5) owner_claimed_covers [OF assms(3)] in \<open>auto simp: ownership_ok_def\<close>)
  moreover have "backed d'"
  proof (rule grown_backed)
    show "backed d" "im_jobs d' = im_jobs d" "im_prefix_claims d' = im_prefix_claims d"
      using assms(1) owner_claimedD(1,2) [OF assms(3)] by (simp_all add: ownership_ok_def)
    show "(\<exists>r \<in> set (im_destinations d). row_shrinks r r') \<or> dst_owner_job_id r' = None \<or> (\<exists>i. dst_owner_job_id r' = Some i \<and> job_active d i)"
      if "r' \<in> set (im_destinations d')" for r'
      using owner_claimedD(3) [OF assms(3) that] assms(4) by blast
  qed
  ultimately show ?thesis using assms(2) unfolding ownership_ok_def by blast
qed

lemma token_set_ok:
  assumes "ownership_ok d" "keyed d'" "token_set b a mp d d'"
    "\<And>k y. in_region [a] mp k \<Longrightarrow> covers d y b k \<Longrightarrow> y = Token_claim a"
  shows "ownership_ok d'"
proof -
  have "exclusive d'"
    by (rule grow_exclusive [of d d' "Token_claim a" b "in_region [a] mp"])
      (use assms(1,4) token_set_covers [OF assms(3)] in \<open>auto simp: ownership_ok_def\<close>)
  moreover have "backed d'"
  proof (rule grown_backed)
    show "backed d" "im_jobs d' = im_jobs d" "im_prefix_claims d' = im_prefix_claims d"
      using assms(1) token_setD(1,2) [OF assms(3)] by (simp_all add: ownership_ok_def)
    show "(\<exists>r \<in> set (im_destinations d). row_shrinks r r') \<or> dst_owner_job_id r' = None \<or> (\<exists>i. dst_owner_job_id r' = Some i \<and> job_active d i)"
      if "r' \<in> set (im_destinations d')" for r'
      using token_setD(3) [OF assms(3) that] by blast
  qed
  ultimately show ?thesis using assms(2) unfolding ownership_ok_def by blast
qed

lemma update_rows_ball:
  "(\<forall>r \<in> set (update_rows P f t). Q r) \<longleftrightarrow> (\<forall>r \<in> set t. (P r \<longrightarrow> Q (f r)) \<and> (\<not> P r \<longrightarrow> Q r))"
  by (auto simp: update_rows_def)

text \<open>The part of \<open>upsert_standard_mutation\<close> that writes the destination.\<close>

definition set_token ::
  "import_destination_model option \<Rightarrow> string \<Rightarrow> string \<Rightarrow> string \<Rightarrow> string option \<Rightarrow> datetime \<Rightarrow> (import_db, int) tx" where
  "set_token existing b k m p now =
     (case existing of
        Some r \<Rightarrow>
          bindT (liftT (next_generation r)) (\<lambda>g.
          bindT (update_destinations (\<lambda>s. destination_at b k s \<and> dst_generation s = dst_generation r)
                   (\<lambda>s. s\<lparr>dst_generation := g, dst_owner_job_id := None, dst_mutation_id := Some m,
                          dst_mutation_prefix := p, dst_updated_at := now\<rparr>)) (\<lambda>n.
          bindT (guardT (Database ''stale standard mutation admission compare-and-set'') (n = 1)) (\<lambda>_.
          returnT g)))
      | None \<Rightarrow>
          bindT (insert_destination \<lparr>dst_bucket = b, dst_key = k, dst_generation = 1, dst_owner_job_id = None,
                   dst_mutation_id = Some m, dst_mutation_prefix = p, dst_updated_at = now\<rparr>) (\<lambda>_.
          returnT 1))"

lemma set_token_Inr:
  assumes "set_token existing b k m p now d = Inr (n, d')"
  shows "case existing of
       None \<Rightarrow> n = 1 \<and> (b, k) \<notin> set (map dst_pk (im_destinations d)) \<and> d' = with_destinations (im_destinations d @
         [\<lparr>dst_bucket = b, dst_key = k, dst_generation = 1, dst_owner_job_id = None, dst_mutation_id = Some m,
           dst_mutation_prefix = p, dst_updated_at = now\<rparr>]) d
     | Some r \<Rightarrow> n = dst_generation r + 1 \<and>
         count_rows (\<lambda>s. destination_at b k s \<and> dst_generation s = dst_generation r) (im_destinations d) = 1 \<and>
         d' = with_destinations (update_rows (\<lambda>s. destination_at b k s \<and> dst_generation s = dst_generation r)
         (\<lambda>s. s\<lparr>dst_generation := n, dst_owner_job_id := None, dst_mutation_id := Some m, dst_mutation_prefix := p,
                dst_updated_at := now\<rparr>) (im_destinations d)) d"
proof (cases existing)
  case None
  with assms show ?thesis
    by (auto simp: set_token_def bindT_def insert_destination_def with_destinations_def split: if_splits)
next
  case (Some r)
  show ?thesis
  proof (cases "next_generation r")
    case (Inr g)
    let ?P = "\<lambda>s. destination_at b k s \<and> dst_generation s = dst_generation r"
    from assms Some Inr have "n = g" "count_rows ?P (im_destinations d) = 1" "with_destinations (update_rows ?P
         (\<lambda>s. s\<lparr>dst_generation := g, dst_owner_job_id := None, dst_mutation_id := Some m, dst_mutation_prefix := p,
                dst_updated_at := now\<rparr>) (im_destinations d)) d = d'"
      by (clarsimp simp add: set_token_def bindT_def liftT_def guardT_def update_destinations_with split: if_splits)+
    then show ?thesis using next_generation_Inr [OF Inr] Some by simp
  qed (use assms Some in \<open>simp add: set_token_def bindT_def liftT_def\<close>)
qed

lemma upsert_mutation_parts:
  assumes "upsert_standard_mutation max_day existing b k m p now lease_now d = Inr (g, d')"
  obtains d1 l n where "set_token existing b k m p now d = Inr (n, d1)"
    "upsert_mutation_lease l d1 = Inr ((), d')" "sml_bucket l = b" "sml_key l = k" "sml_mutation_id l = m" "sml_generation l = n"
    "plus_or_panic max_day lease_now (STANDARD_MUTATION_LEASE_SECONDS * second_ns) = Inr (sml_lease_until l)"
    "g = \<lparr>sg_bucket = b, sg_key = k, sg_mutation_id = m, sg_expected_generation = n, sg_mutation_prefix = p\<rparr>"
proof -
  from assms obtain n d1 u until where 1: "set_token existing b k m p now d = Inr (n, d1)"
    and 2: "plus_or_panic max_day lease_now (STANDARD_MUTATION_LEASE_SECONDS * second_ns) = Inr until"
    and 3: "upsert_mutation_lease \<lparr>sml_bucket = b, sml_key = k, sml_mutation_id = m, sml_generation = n, sml_lease_until = until\<rparr> d1 = Inr (u, d')"
    and 4: "g = \<lparr>sg_bucket = b, sg_key = k, sg_mutation_id = m, sg_expected_generation = n, sg_mutation_prefix = p\<rparr>"
    unfolding upsert_standard_mutation_def set_token_def [symmetric]
    by (elim bindT_InrE) simp
  show thesis
    by (rule that [OF 1, of "\<lparr>sml_bucket = b, sml_key = k, sml_mutation_id = m, sml_generation = n, sml_lease_until = until\<rparr>"])
      (use 2 3 4 in simp_all)
qed

lemma upsert_lease_tables:
  assumes "upsert_mutation_lease l d = Inr (u, d')"
  shows "im_destinations d' = im_destinations d" "im_jobs d' = im_jobs d" "im_prefix_claims d' = im_prefix_claims d" "im_targets d' = im_targets d"
  using assms by (auto simp: upsert_mutation_lease_def)

lemma set_token_token_set:
  assumes "set_token existing b k m p now d = Inr (n, d')"
  shows "token_set b k p d d'"
proof (cases existing)
  case None
  with set_token_Inr [OF assms] show ?thesis
    using row_shrinks_refl by (auto simp: token_set_def destination_at_def)
next
  case (Some r)
  let ?P = "\<lambda>s. destination_at b k s \<and> dst_generation s = dst_generation r"
  let ?f = "\<lambda>s. s\<lparr>dst_generation := n, dst_owner_job_id := None, dst_mutation_id := Some m, dst_mutation_prefix := p, dst_updated_at := now\<rparr>"
  from set_token_Inr [OF assms] Some have d': "d' = with_destinations (update_rows ?P ?f (im_destinations d)) d" by simp
  show ?thesis
    unfolding token_set_def d' with_destinations_sel update_rows_ball
  proof (intro conjI refl ballI impI)
    fix s assume s: "s \<in> set (im_destinations d)"
    show "(\<exists>r \<in> set (im_destinations d). row_shrinks r (?f s)) \<or>
        destination_at b k (?f s) \<and> dst_owner_job_id (?f s) = None \<and> dst_mutation_prefix (?f s) = p" if "?P s"
      using that by (simp add: destination_at_def)
    show "(\<exists>r \<in> set (im_destinations d). row_shrinks r s) \<or> destination_at b k s \<and> dst_owner_job_id s = None \<and> dst_mutation_prefix s = p"
      using s row_shrinks_refl by blast
  qed
qed

lemma upsert_mutation_token_set:
  assumes "upsert_standard_mutation max_day existing b k m p now lease_now d = Inr (g, d')"
  shows "token_set b k p d d'"
proof -
  from assms obtain d1 l n where 1: "set_token existing b k m p now d = Inr (n, d1)" and 2: "upsert_mutation_lease l d1 = Inr ((), d')"
    by (rule upsert_mutation_parts)
  from set_token_token_set [OF 1] show ?thesis unfolding token_set_def upsert_lease_tables [OF 2] .
qed

section \<open>The transactions keep the invariant\<close>

lemma upsert_mutation_ok:
  assumes "upsert_standard_mutation max_day existing b k m p now lease_now d = Inr (g, d')" "ownership_ok d"
    "\<And>k' y. in_region [k] p k' \<Longrightarrow> covers d y b k' \<Longrightarrow> y = Token_claim k"
  shows "ownership_ok d'"
proof (rule token_set_ok [OF assms(2) _ upsert_mutation_token_set [OF assms(1)] assms(3)])
  show "keyed d'"
    using keepsD [OF upsert_mutation_advances assms(1)] ownership_ok_keyed(3) [OF assms(2)] unfolding advances_def by blast
qed

lemma admit_keys_ok:
  assumes "admit_keys max_day b mids now lease_nows ks d = Inr (gs, d')" "ownership_ok d"
    "\<And>k y. k \<in> set ks \<Longrightarrow> covers d y b k \<Longrightarrow> y = Token_claim k"
  shows "ownership_ok d'"
  using assms
proof (induction ks arbitrary: d gs)
  case (Cons k ks)
  from Cons.prems(1) obtain m g gs' d1
    where u: "upsert_standard_mutation max_day (destination_for_update b k d) b k m None now (lease_nows k) d = Inr (g, d1)"
      and r: "admit_keys max_day b mids now lease_nows ks d1 = Inr (gs', d')"
    unfolding admit_keys.simps by (elim bindT_InrE) simp
  have clear: "y = Token_claim k" if "in_region [k] None k'" "covers d y b k'" for k' y
    using that Cons.prems(3) by (auto simp: in_region_def)
  have ok: "ownership_ok d1" by (rule upsert_mutation_ok [OF u Cons.prems(2) clear])
  show ?case
  proof (rule Cons.IH [OF r ok])
    fix k' y assume "k' \<in> set ks" "covers d1 y b k'"
    with token_set_covers [OF upsert_mutation_token_set [OF u], of y b k'] Cons.prems(3) show "y = Token_claim k'"
      by (auto simp: in_region_def)
  qed
qed simp

lemma cleared_ok:
  assumes "ownership_ok d" "supersede_conflicts_in_order b ts mp ex now d = Inr (u, d1)"
    "invalidate_standard_mutations_in_order b ks mp now d1 = Inr (v, d2)" "ts = map (\<lambda>k. (k, current_owner b k d)) ks"
  shows "ownership_ok d2" "\<And>k x. in_region ks mp k \<Longrightarrow> covers d2 x b k \<Longrightarrow> \<exists>i. x = Job_claim i \<and> ex = Some i"
proof -
  have d1: "d1 = superseded_all (conflicting b ts mp ex d) (marked_invalidation b mp (invalidated_jobs b mp d)) now d"
    by (rule supersede_conflicts_closed [OF ownership_ok_keyed(1,2) [OF assms(1)] assms(2)])
  have ok1: "ownership_ok d1" using keepsD [OF supersede_conflicts_preserves assms(2)] assms(1) unfolding preserves_def by blast
  then show "ownership_ok d2" using keepsD [OF invalidate_preserves assms(3)] unfolding preserves_def by blast
  have d2: "d2 = with_destinations (update_rows (revoked_by b ks mp) (cleared_token now) (im_destinations d1)) d1"
    by (rule invalidate_in_order_closed [OF ownership_ok_keyed(1) [OF ok1] assms(3)])
  show "\<exists>i. x = Job_claim i \<and> ex = Some i" if "in_region ks mp k" "covers d2 x b k" for k x
    by (rule region_cleared [OF assms(1,4) d1 d2 that])
qed

lemma admit_contents_preserves: "keeps preserves (admit_content_mutations_in_transaction max_day b ks mids None now lease_nows)"
proof (rule keepsI)
  fix d gs d' assume a: "admit_content_mutations_in_transaction max_day b ks mids None now lease_nows d = Inr (gs, d')"
  let ?ts = "map (\<lambda>k. (k, current_owner b k d)) ks"
  from a obtain u d1 v d2 where s: "supersede_conflicts_in_order b ?ts None None now d = Inr (u, d1)"
    and i: "invalidate_standard_mutations_in_order b ks None now d1 = Inr (v, d2)"
    and k: "admit_keys max_day b mids now lease_nows ks d2 = Inr (gs, d')"
    unfolding admit_content_mutations_in_transaction_def by (elim bindT_InrE) simp
  show "preserves d d'"
    unfolding preserves_def
  proof
    assume ok: "ownership_ok d"
    note c = cleared_ok [OF ok s i refl]
    show "ownership_ok d'"
      by (rule admit_keys_ok [OF k c(1)]) (use c(2) in \<open>auto simp: in_region_def\<close>)
  qed
qed

lemma admit_content_and_prefix_preserves:
  "keeps preserves (admit_content_and_prefix_mutation_in_transaction max_day b k p m now lease_now)"
proof (rule keepsI)
  fix d g d' assume a: "admit_content_and_prefix_mutation_in_transaction max_day b k p m now lease_now d = Inr (g, d')"
  from a obtain u d1 v d2 where s: "supersede_conflicts_in_order b [(k, current_owner b k d)] (Some p) None now d = Inr (u, d1)"
    and i: "invalidate_standard_mutations_in_order b [k] (Some p) now d1 = Inr (v, d2)"
    and t: "upsert_standard_mutation max_day (destination_for_update b k d2) b k m (Some p) now lease_now d2 = Inr (g, d')"
    unfolding admit_content_and_prefix_mutation_in_transaction_def by (elim bindT_InrE) simp
  show "preserves d d'"
    unfolding preserves_def
  proof
    assume ok: "ownership_ok d"
    note c = cleared_ok [OF ok s i]
    show "ownership_ok d'"
      by (rule upsert_mutation_ok [OF t c(1)]) (use c(2) in auto)
  qed
qed

lemma upsert_owner_claims:
  assumes "upsert_destination_owner existing b k (Some i) now d = Inr (g, d')"
  shows "owner_claimed i b k d d'"
proof (cases existing)
  case None
  with upsert_owner_Inr [OF assms] show ?thesis
    using row_shrinks_refl by (auto simp: owner_claimed_def destination_at_def)
next
  case (Some r)
  let ?f = "\<lambda>s. s\<lparr>dst_generation := g, dst_owner_job_id := Some i, dst_mutation_id := None, dst_mutation_prefix := None, dst_updated_at := now\<rparr>"
  from upsert_owner_Inr [OF assms] Some have d': "d' = with_destinations (update_rows (destination_at b k) ?f (im_destinations d)) d" by simp
  show ?thesis
    unfolding owner_claimed_def d' with_destinations_sel update_rows_ball
  proof (intro conjI refl ballI impI)
    fix s assume s: "s \<in> set (im_destinations d)"
    show "(\<exists>r \<in> set (im_destinations d). row_shrinks r (?f s)) \<or>
        destination_at b k (?f s) \<and> dst_owner_job_id (?f s) = Some i \<and> dst_mutation_id (?f s) = None" if "destination_at b k s"
      using that by (simp add: destination_at_def)
    show "(\<exists>r \<in> set (im_destinations d). row_shrinks r s) \<or> destination_at b k s \<and> dst_owner_job_id s = Some i \<and> dst_mutation_id s = None"
      using s row_shrinks_refl by blast
  qed
qed

lemma job_active_conflicts:
  assumes "ownership_ok d" "supersede_conflicts_in_order b ts mp (Some i) now d = Inr (u, d')" "job_active d i"
  shows "job_active d' i"
proof -
  have "d' = superseded_all (conflicting b ts mp (Some i) d) (marked_invalidation b mp (invalidated_jobs b mp d)) now d"
    by (rule supersede_conflicts_closed [OF ownership_ok_keyed(1,2) [OF assms(1)] assms(2)])
  with assms(3) show ?thesis by (simp add: conflicting_def)
qed

lemma job_active_same: "im_jobs d' = im_jobs d \<Longrightarrow> job_active d' i \<longleftrightarrow> job_active d i"
  by (simp add: job_active_def)

lemma invalidate_jobs:
  assumes "ownership_ok d" "invalidate_standard_mutations_in_order b ks mp now d = Inr (u, d')"
  shows "im_jobs d' = im_jobs d"
  using invalidate_in_order_closed [OF ownership_ok_keyed(1) [OF assms(1)] assms(2)] by simp

lemma claim_primary_ok:
  assumes "claim_primary_destination i b k now d = Inr (g, d')" "ownership_ok d" "job_active d i"
  shows "ownership_ok d'" "job_active d' i"
proof -
  from assms(1) obtain u1 d1 u2 d2
    where s: "supersede_conflicts_in_order b [(k, current_owner b k d)] None (Some i) now d = Inr (u1, d1)"
      and v: "invalidate_standard_mutations_in_order b [k] None now d1 = Inr (u2, d2)"
      and o: "upsert_destination_owner (destination_for_update b k d) b k (Some i) now d2 = Inr (g, d')"
    unfolding claim_primary_destination_def current_owner_def
    by (elim bindT_InrE) (simp add: getsT_apply)
  note c = cleared_ok [OF assms(2) s v, simplified]
  note claimed = upsert_owner_claims [OF o]
  have ok1: "ownership_ok d1" using keepsD [OF supersede_conflicts_preserves s] assms(2) unfolding preserves_def by blast
  have a2: "job_active d2 i"
    using job_active_conflicts [OF assms(2) s assms(3)] job_active_same [OF invalidate_jobs [OF ok1 v]] by blast
  then show "job_active d' i" using job_active_same [OF owner_claimedD(2) [OF claimed]] by blast
  have "keyed d'"
    using keepsD [OF claim_primary_advances assms(1)] ownership_ok_keyed(3) [OF assms(2)] unfolding advances_from_def by blast
  then show "ownership_ok d'"
    by (rule owner_claimed_ok [OF c(1) _ claimed a2]) (use c(2) [of k] in \<open>auto simp: in_region_def\<close>)
qed

lemma install_prefix_ok:
  assumes "install_prefix_claim i b p now d = Inr (g, d')" "ownership_ok d" "job_active d i"
  shows "ownership_ok d'"
proof -
  from assms(1) obtain u1 d1 u2 d2 ord
    where s: "supersede_conflicts_in_order b [] (Some p) (Some i) now d = Inr (u1, d1)"
      and v: "invalidate_standard_mutations_in_order b [] (Some p) now d1 = Inr (u2, d2)"
      and f: "(if prefix_claim_row i b p d2 = None
        then insert_prefix_claim \<lparr>pc_job_id = i, pc_bucket = b, pc_prefix = p, pc_claim_order = ord\<rparr> else returnT ()) d2 = Inr (g, d')"
    unfolding install_prefix_claim_def
    by (elim bindT_InrE) (simp add: getsT_apply)
  have ok1: "ownership_ok d1" using keepsD [OF supersede_conflicts_preserves s] assms(2) unfolding preserves_def by blast
  note c = cleared_ok [OF assms(2) s v, simplified]
  have a2: "job_active d2 i"
    using job_active_conflicts [OF assms(2) s assms(3)] job_active_same [OF invalidate_jobs [OF ok1 v]] by blast
  show ?thesis
  proof (cases "d' = d2")
    case True
    with c(1) show ?thesis by simp
  next
    case False
    let ?c = "\<lparr>pc_job_id = i, pc_bucket = b, pc_prefix = p, pc_claim_order = ord\<rparr>"
    from f False have t: "im_prefix_claims d' = im_prefix_claims d2 @ [?c]" "im_destinations d' = im_destinations d2" "im_jobs d' = im_jobs d2"
      by (auto simp: insert_prefix_claim_def split: if_splits)
    have grows: "covers d2 y b' k' \<or> y = Job_claim i \<and> b' = b \<and> in_region [] (Some p) k'" if "covers d' y b' k'" for y b' k'
      using that by (cases y) (auto simp: t in_region_def)
    have "exclusive d'"
      by (rule grow_exclusive [of d2 d' "Job_claim i" b "in_region [] (Some p)"])
        (use c grows in \<open>auto simp: ownership_ok_def\<close>)
    moreover have "backed d'" using c(1) a2 unfolding ownership_ok_def backed_def job_active_same [OF t(3)] t(1,2) by simp
    moreover have "keyed d'"
      using keepsD [OF install_prefix_advances assms(1)] ownership_ok_keyed(3) [OF assms(2)] unfolding advances_from_def by blast
    ultimately show ?thesis unfolding ownership_ok_def by blast
  qed
qed

lemma readers_preserve:
  "keeps preserves (lock_ownership b)" "keeps preserves (verify_active_claim c b clock)"
  "keeps preserves (verify_extraction_claim c b k clock)" "keeps preserves (verify_decompression_attempt c b clock)"
  "keeps preserves (verify_mutation_lease g clock)" "keeps preserves (verify_standard_mutation_guard g b k ks clock)"
  by (rule preserves.keeps_reader, simp)+

lemma modify_preserves:
  assumes "\<And>d. im_destinations (f d) = im_destinations d" "\<And>d. im_jobs (f d) = im_jobs d" "\<And>d. im_prefix_claims (f d) = im_prefix_claims d"
  shows "keeps preserves (modifyT f)"
proof (rule keepsI)
  fix d u d' assume "modifyT f d = Inr (u, d')"
  then have "d' = f d" by simp
  then show "preserves d d'" by (simp only: preserves_same [OF assms])
qed

lemma insert_target_preserves: "keeps preserves (insert_target i b k g kind)"
proof (rule keepsI)
  fix d u d' assume "insert_target i b k g kind d = Inr (u, d')"
  then have "im_destinations d' = im_destinations d" "im_jobs d' = im_jobs d" "im_prefix_claims d' = im_prefix_claims d"
    by (auto simp: insert_target_def split: if_splits)
  then show "preserves d d'" by (rule preserves_same)
qed

lemma insert_target_jobs: "insert_target i b k g kind d = Inr (u, d') \<Longrightarrow> im_jobs d' = im_jobs d"
  by (auto simp: insert_target_def split: if_splits)

lemma update_leases_preserves: "keeps preserves (update_mutation_leases P f)"
proof (rule keepsI)
  fix d u d' assume "update_mutation_leases P f d = Inr (u, d')"
  then have "im_destinations d' = im_destinations d" "im_jobs d' = im_jobs d" "im_prefix_claims d' = im_prefix_claims d"
    by (auto simp: update_mutation_leases_def)
  then show "preserves d d'" by (rule preserves_same)
qed

lemma insert_job_ok:
  assumes "insert_job_row r d = Inr (u, d')" "ownership_ok d" "unfinished (ij_state r)"
  shows "ownership_ok d'" "job_active d' (ij_id r)"
proof -
  have t: "im_jobs d' = im_jobs d @ [r]" "im_destinations d' = im_destinations d" "im_prefix_claims d' = im_prefix_claims d"
    using assms(1) by (auto simp: insert_job_row_def split: if_splits)
  show "job_active d' (ij_id r)" using assms(3) by (simp add: job_active_def t)
  have "preserves d d'"
  proof (rule preserves_shrinking)
    show "advances d d'" by (rule keepsD [OF insert_job_advances assms(1)])
    show "shrinks d d'" unfolding shrinks_def t using row_shrinks_refl by blast
  qed (auto simp: job_active_def t)
  with assms(2) show "ownership_ok d'" unfolding preserves_def by blast
qed

lemma load_one_payload:
  assumes "load_payloads row_bytes [i] d = Inr js" "js = j # rest"
  shows "ij_id j = i"
  using assms by (auto simp: load_payloads_def bindR_eq_Inr dest!: one_row_SomeD split: if_splits)

lemma insert_queued_ok:
  assumes "insert_queued_with_zip_intent jc row_bytes rq capture now d = Inr (job, d')" "ownership_ok d"
  shows "ownership_ok d'" "job_active d' (ij_id job)"
proof -
  from assms(1) obtain src mj tj cap u js where i: "insert_job_row (queued_job rq src mj tj cap now) d = Inr (u, d')"
    and l: "load_payloads row_bytes [nj_id rq] d' = Inr js" and j: "(case js of [] \<Rightarrow> None | r # _ \<Rightarrow> Some r) = Some job"
    unfolding insert_queued_with_zip_intent_def by (elim bindT_InrE) simp
  have q: "unfinished (ij_state (queued_job rq src mj tj cap now))" "ij_id (queued_job rq src mj tj cap now) = nj_id rq"
    by (simp_all add: queued_job_def unfinished_def)
  note ok = insert_job_ok [OF i assms(2) q(1)]
  show "ownership_ok d'" by (rule ok)
  from j have "ij_id job = nj_id rq" using load_one_payload [OF l] by (auto split: list.splits)
  with ok(2) q(2) show "job_active d' (ij_id job)" by simp
qed

lemma submit_preserves: "keeps preserves (submit_with_decision jc row_bytes rq capture intake now)"
proof (rule keepsI)
  fix d out d' assume "submit_with_decision jc row_bytes rq capture intake now d = Inr (out, d')"
  then have s: "submit_decided_in_transaction jc row_bytes rq capture intake now d = Inr (out, d')"
    unfolding submit_with_decision_def by (elim bindT_InrE) simp
  then obtain found d0 where q: "(case nj_client_token rq of
              None \<Rightarrow> returnT None
            | Some token \<Rightarrow> queryT (find_idempotent row_bytes (nj_bucket rq) (nj_key rq) token)) d = Inr (found, d0)"
    and body0: "(case found of
       Some existing \<Rightarrow>
         if ij_request_fingerprint existing = nj_request_fingerprint rq then returnT (Replayed existing)
         else throwT ImportIdempotencyConflict
     | None \<Rightarrow>
         bindT (insert_queued_with_zip_intent jc row_bytes rq capture now) (\<lambda>job.
         bindT (claim_primary_destination (ij_id job) (ij_bucket job) (ij_key job) now) (\<lambda>generation.
         bindT (insert_target (ij_id job) (ij_bucket job) (ij_key job) generation KIND_ARCHIVE) (\<lambda>_.
         bindT (case ij_decompress_prefix job of
                  None \<Rightarrow> returnT ()
                | Some p \<Rightarrow> install_prefix_claim (ij_id job) (ij_bucket job) p now) (\<lambda>_.
         bindT (liftT intake) (\<lambda>_.
         returnT (Created job))))))) d0 = Inr (out, d')"
    unfolding submit_decided_in_transaction_def by (rule bindT_InrE)
  have "d0 = d" using q by (auto split: option.splits)
  note body = body0 [unfolded this]
  show "preserves d d'"
    unfolding preserves_def
  proof
    assume ok: "ownership_ok d"
    show "ownership_ok d'"
    proof (cases found)
      case (Some j)
      with body ok show ?thesis by (simp split: if_splits)
    next
      case None
      from body obtain job d1 g d2 u d3 v where i: "insert_queued_with_zip_intent jc row_bytes rq capture now d = Inr (job, d1)"
        and c: "claim_primary_destination (ij_id job) (ij_bucket job) (ij_key job) now d1 = Inr (g, d2)"
        and t: "insert_target (ij_id job) (ij_bucket job) (ij_key job) g KIND_ARCHIVE d2 = Inr (u, d3)"
        and p: "(case ij_decompress_prefix job of None \<Rightarrow> returnT () | Some p \<Rightarrow> install_prefix_claim (ij_id job) (ij_bucket job) p now) d3 = Inr (v, d')"
        unfolding None option.case by (elim bindT_InrE) simp
      note 1 = insert_queued_ok [OF i ok]
      note 2 = claim_primary_ok [OF c 1]
      have 3: "ownership_ok d3" "job_active d3 (ij_id job)"
        using keepsD [OF insert_target_preserves t] 2 job_active_same [OF insert_target_jobs [OF t]] unfolding preserves_def by blast+
      show ?thesis
      proof (cases "ij_decompress_prefix job")
        case None
        with p 3(1) show ?thesis by simp
      next
        case (Some q)
        with p have "install_prefix_claim (ij_id job) (ij_bucket job) q now d3 = Inr (v, d')" by simp
        then show ?thesis by (rule install_prefix_ok [OF _ 3])
      qed
    qed
  qed
qed

lemma claim_live_active: "claim_live c b clock d \<Longrightarrow> job_active d (ic_job_id c)"
  by (auto simp: claim_live_def active_claim_filter_def active_guard_filter_def job_active_def unfinished_def)

lemma claim_extracted_preserves: "keeps preserves (claim_extracted_target c b k now clock)"
proof (rule keepsI)
  fix d n d' assume "claim_extracted_target c b k now clock d = Inr (n, d')"
  then have live: "claim_live c b clock d" and body: "(case target_row (ic_job_id c) b k d of
       Some t \<Rightarrow>
         bindT (getsT (destination_for_update b k)) (\<lambda>r.
         if jt_kind t = KIND_EXTRACTED \<and> owned_at (ic_job_id c) (jt_expected_generation t) r
         then returnT (jt_expected_generation t) else throwT StaleImportOwnership)
     | None \<Rightarrow>
         bindT (claim_primary_destination (ic_job_id c) b k now) (\<lambda>generation.
         bindT (insert_target (ic_job_id c) b k generation KIND_EXTRACTED) (\<lambda>_.
         returnT generation))) d = Inr (n, d')"
    unfolding claim_extracted_target_def by (elim bindT_InrE; simp add: extraction_live_def)+
  show "preserves d d'"
    unfolding preserves_def
  proof
    assume ok: "ownership_ok d"
    show "ownership_ok d'"
    proof (cases "target_row (ic_job_id c) b k d")
      case (Some t)
      with body ok show ?thesis by (simp add: bindT_def split: if_splits)
    next
      case None
      from body obtain g d1 u where c: "claim_primary_destination (ic_job_id c) b k now d = Inr (g, d1)"
        and t: "insert_target (ic_job_id c) b k g KIND_EXTRACTED d1 = Inr (u, d')"
        unfolding None option.case by (elim bindT_InrE) simp
      from claim_primary_ok(1) [OF c ok claim_live_active [OF live]] keepsD [OF insert_target_preserves t] show ?thesis
        unfolding preserves_def by blast
    qed
  qed
qed

lemma release_owned_preserves: "keeps preserves (release_owned_destination i b k g now)"
  unfolding release_owned_destination_def
  by (rule update_destinations_preserves) (simp_all add: row_advances_def same_token_def row_shrinks_def)

lemma release_extracted_preserves: "keeps preserves (release_extracted_target c b k g now clock)"
  unfolding release_extracted_target_def
  by (intro preserves.keeps_rules readers_preserve release_owned_preserves modify_preserves) simp_all

lemma reset_batch_preserves: "keeps preserves (reset_extracted_target_batch c b now clock commit_clock)"
  unfolding reset_extracted_target_batch_def reset_extracted_target_def Let_def
  by (intro preserves.keeps_rules readers_preserve release_owned_preserves modify_preserves) simp_all

lemma clear_mutation_preserves: "keeps preserves (clear_standard_mutation_in_transaction g now ra)"
proof (rule keepsI)
  fix d x d' assume c: "clear_standard_mutation_in_transaction g now ra d = Inr (x, d')"
  let ?Q = "case ra of None \<Rightarrow> (\<lambda>r. True) | Some clock \<Rightarrow> active_destination_lease clock d"
  from c have "d' = token_cleared_db g ?Q now d"
    by (simp add: clear_standard_mutation_eq Let_def)
  then show "preserves d d'"
    by (intro clears_preserve [of d' "\<lambda>r. holds_token g r \<and> ?Q r" now d]) (simp_all add: token_cleared_db_sel)
qed

lemma release_expired_preserves: "keeps preserves (release_expired now l)"
  unfolding release_expired_def release_standard_mutation_in_transaction_def
  by (intro preserves.keeps_rules clear_mutation_preserves)

lemma recover_preserves: "keeps preserves (recover_expired_mutations_in_transaction b clocks)"
  by (rule recover_keeps [OF preserves.tx_preorder_axioms release_expired_preserves])

lemma complete_mutation_preserves: "keeps preserves (complete_standard_mutation_in_transaction g now clock update_clock)"
  unfolding complete_standard_mutation_in_transaction_def
  by (intro preserves.keeps_rules readers_preserve clear_mutation_preserves)

lemma mutation_transactions_preserve:
  "keeps preserves (admit_content_mutations max_day b ks fresh None now lease_nows)"
  "keeps preserves (admit_prefix_mutation b p now)"
  "keeps preserves (admit_content_and_prefix_mutation max_day b k p m now lease_now)"
  "keeps preserves (admit_zip_outputs_without_source_in_transaction max_day b source ks mids now lease_nows)"
  "keeps preserves (admit_zip_v2_source_in_transaction max_day b source outputs m now lease_now)"
  "keeps preserves (renew_standard_mutation max_day g clock now update_clock)"
  "keeps preserves (release_standard_mutation g now)"
  "keeps preserves (renew_zip_output_guards_in_transaction max_day b source ks gs clocks nows update_clocks)"
  "keeps preserves (complete_zip_output_guards_in_transaction b source ks gs now clocks lease_clocks update_clocks)"
  unfolding admit_content_mutations_def admit_prefix_mutation_def admit_prefix_mutation_in_transaction_def
    admit_content_and_prefix_mutation_def
    admit_zip_outputs_without_source_in_transaction_def admit_zip_v2_source_in_transaction_def
    check_zip_outputs_do_not_revoke_source_def check_affected_job_def renew_standard_mutation_def
    renew_standard_mutation_in_transaction_def release_standard_mutation_def release_standard_mutation_in_transaction_def
    renew_zip_output_guards_in_transaction_def complete_zip_output_guards_in_transaction_def
    verify_zip_output_guards_in_transaction_def renew_output_guard_def
  by (intro preserves.keeps_rules readers_preserve supersede_conflicts_preserves invalidate_preserves admit_contents_preserves
      admit_content_and_prefix_preserves update_leases_preserves clear_mutation_preserves complete_mutation_preserves)+

lemma has_overlapping_from_iff:
  assumes "destinations_keyed d"
  shows "has_overlapping_prefix_from b k after d \<longleftrightarrow>
    (\<exists>r \<in> set (im_destinations d). with_token b r \<and> (\<exists>p. dst_mutation_prefix r = Some p \<and> starts_with k p) \<and> past after (dst_key r))"
  using assms
proof (induction b k after d rule: has_overlapping_prefix_from.induct)
  case (1 b k after d)
  let ?P = "\<lambda>r. with_token b r \<and> dst_mutation_prefix r \<noteq> None"
  let ?hit = "\<lambda>r. case dst_mutation_prefix r of None \<Rightarrow> False | Some p \<Rightarrow> starts_with k p"
  let ?page = "page_of dst_key ?P after (im_destinations d)"
  have hit: "?hit r \<longleftrightarrow> (\<exists>p. dst_mutation_prefix r = Some p \<and> starts_with k p)" for r by (simp split: option.splits)
  have inj: "distinct (map dst_key (filter ?P (im_destinations d)))"
    by (rule distinct_key_in_bucket [OF "1.prems", of ?P b]) (simp add: with_token_def)
  have rows: "r \<in> set (im_destinations d) \<and> ?P r \<and> past after (dst_key r)" if "r \<in> set ?page" for r
    using set_page_of [OF that] .
  show ?case
  proof (cases "?page = []")
    case True
    then have "\<not> (with_token b r \<and> ?hit r \<and> past after (dst_key r))" if "r \<in> set (im_destinations d)" for r
      using that by (auto simp: page_of_Nil hit)
    with True show ?thesis by (auto simp: has_overlapping_prefix_from.simps [of b k after d] hit)
  next
    case False
    note last = past_last [OF False inj]
    have lp: "past after (dst_key (last ?page))" using rows [of "last ?page"] False by simp
    show ?thesis
    proof (cases "list_ex ?hit ?page")
      case True
      then obtain r where "r \<in> set ?page" "?hit r" unfolding list_ex_iff by blast
      with rows [of r] hit [of r] have "\<exists>r \<in> set (im_destinations d). with_token b r \<and> (\<exists>p. dst_mutation_prefix r = Some p \<and> starts_with k p) \<and> past after (dst_key r)"
        by blast
      moreover have "has_overlapping_prefix_from b k after d"
        unfolding has_overlapping_prefix_from.simps [of b k after d] Let_def if_not_P [OF False] if_P [OF True] ..
      ultimately show ?thesis by blast
    next
      case no: False
      have "has_overlapping_prefix_from b k after d \<longleftrightarrow> has_overlapping_prefix_from b k (Some (dst_key (last ?page))) d"
        unfolding has_overlapping_prefix_from.simps [of b k after d] Let_def if_not_P [OF False] if_not_P [OF no] ..
      also have "\<dots> \<longleftrightarrow> (\<exists>r \<in> set (im_destinations d). with_token b r \<and> (\<exists>p. dst_mutation_prefix r = Some p \<and> starts_with k p) \<and>
          past (Some (dst_key (last ?page))) (dst_key r))"
        by (rule "1.IH" [OF refl False no "1.prems"])
      also have "\<dots> \<longleftrightarrow> (\<exists>r \<in> set (im_destinations d). with_token b r \<and> (\<exists>p. dst_mutation_prefix r = Some p \<and> starts_with k p) \<and> past after (dst_key r))"
      proof (intro bex_cong refl conj_cong)
        fix r assume r: "r \<in> set (im_destinations d)" "with_token b r" "\<exists>p. dst_mutation_prefix r = Some p \<and> starts_with k p"
        then have "?hit r" "?P r" using hit by auto
        moreover from this(1) no have "r \<notin> set ?page" unfolding list_ex_iff by blast
        ultimately show "past (Some (dst_key (last ?page))) (dst_key r) = past after (dst_key r)"
          using last [OF r(1)] past_weaken [OF lp] by blast
      qed
      finally show ?thesis .
    qed
  qed
qed

text \<open>What a lifecycle admission finds when it does not refuse.\<close>

definition lifecycle_free :: "string \<Rightarrow> string \<Rightarrow> import_db \<Rightarrow> bool" where
  "lifecycle_free b k d \<longleftrightarrow> \<not> (Option.bind (destination_for_update b k d) dst_owner_job_id \<noteq> None \<or>
     prefix_owner_jobs_for_key b k None None d \<noteq> [] \<or> has_overlapping_standard_prefix_mutation b k d)"

lemma identifiers_page_Nil: "identifiers_page None None ids = [] \<longleftrightarrow> ids = []"
  using batch_size_pos by (auto simp: identifiers_page_def dest: arg_cong [where f = set])

lemma lifecycle_free_region:
  assumes ok: "ownership_ok d" and free: "lifecycle_free b k d" and c: "covers d y b k"
  shows "y = Token_claim k"
proof (cases y)
  case (Job_claim i)
  have k: "in_region [k] None k" by (simp add: in_region_def)
  from job_in_region_overlaps(2) [OF ok refl k c [unfolded Job_claim]] have "job_active d i" .
  then have "\<not> (\<exists>c \<in> set (im_prefix_claims d). pc_job_id c = i \<and> pc_bucket c = b \<and> starts_with k (pc_prefix c))"
    using free by (auto simp: lifecycle_free_def prefix_owner_jobs_for_key_def identifiers_page_Nil prefix_owners_for_key_def filter_empty_conv)
  with c Job_claim obtain r where r: "r \<in> set (im_destinations d)" "destination_at b k r" "dst_owner_job_id r = Some i"
    by auto
  from current_owner_row [OF ownership_ok_keyed(1) [OF ok] r(1,2)] r(3) free show ?thesis
    by (simp add: lifecycle_free_def)
next
  case (Token_claim a)
  with c obtain r where r: "r \<in> set (im_destinations d)" "destination_at b a r" "dst_mutation_id r \<noteq> None" "token_covers k r"
    by auto
  have "\<not> (with_token b r \<and> (\<exists>p. dst_mutation_prefix r = Some p \<and> starts_with k p))"
    using free r(1) has_overlapping_from_iff [OF ownership_ok_keyed(1) [OF ok], of b k None]
    by (auto simp: lifecycle_free_def has_overlapping_standard_prefix_mutation_def)
  with r have "k = a"
    by (auto simp: token_covers_def with_token_def destination_at_def split: option.splits)
  with Token_claim show ?thesis by simp
qed

lemma try_admit_lifecycle_parts:
  assumes "try_admit_lifecycle_mutation max_day b k a e now clocks lease_now d = Inr (og, d')"
  obtains (unchanged) u where "recover_expired_mutations_in_transaction b clocks d = Inr (u, d')"
      "og = None \<and> (\<not> lifecycle_free b k d' \<or> (\<exists>r. destination_for_update b k d' = Some r \<and> dst_mutation_id r \<noteq> None)) \<or>
        lifecycle_free b k d' \<and> (\<exists>r. destination_for_update b k d' = Some r \<and> dst_mutation_id r = Some (lifecycle_token a e) \<and>
        dst_mutation_prefix r = None \<and> og = Some \<lparr>sg_bucket = b, sg_key = k, sg_mutation_id = lifecycle_token a e,
          sg_expected_generation = dst_generation r, sg_mutation_prefix = None\<rparr>)"
  | (admitted) u d1 g where "recover_expired_mutations_in_transaction b clocks d = Inr (u, d1)" "lifecycle_free b k d1" "og = Some g"
      "upsert_standard_mutation max_day (destination_for_update b k d1) b k (lifecycle_token a e) None now lease_now d1 = Inr (g, d')"
proof -
  let ?admit = "\<lambda>found. bindT (upsert_standard_mutation max_day found b k (lifecycle_token a e) None now lease_now) (\<lambda>g. returnT (Some g))"
  from assms obtain u d1 where rec: "recover_expired_mutations_in_transaction b clocks d = Inr (u, d1)"
    and body: "(if \<not> lifecycle_free b k d1 then returnT None
      else case destination_for_update b k d1 of
        None \<Rightarrow> ?admit (destination_for_update b k d1)
      | Some r \<Rightarrow>
          (case dst_mutation_id r of
             None \<Rightarrow> ?admit (destination_for_update b k d1)
           | Some active \<Rightarrow>
               if active = lifecycle_token a e then
                 (if dst_mutation_prefix r \<noteq> None then returnT None
                  else returnT (Some \<lparr>sg_bucket = b, sg_key = k, sg_mutation_id = lifecycle_token a e,
                         sg_expected_generation = dst_generation r, sg_mutation_prefix = None\<rparr>))
               else if \<not> older_same_action active a e \<or> dst_mutation_prefix r \<noteq> None then returnT None
               else ?admit (destination_for_update b k d1))) d1 = Inr (og, d')"
    unfolding try_admit_lifecycle_mutation_def try_admit_lifecycle_in_transaction_def Let_def lifecycle_free_def not_not
    by (elim bindT_InrE) (simp only: getsT_apply guardT_eq_Inr lock_ownership_Inr sum.inject prod.inject, elim conjE, hypsubst,
        drule meta_spec, drule meta_spec, drule meta_mp, rule conjI, rule refl, rule refl, drule meta_mp, assumption, assumption)
  have admit: thesis if f: "lifecycle_free b k d1" and a: "?admit (destination_for_update b k d1) d1 = Inr (og, d')"
  proof -
    from a obtain g where "upsert_standard_mutation max_day (destination_for_update b k d1) b k (lifecycle_token a e) None now lease_now d1 = Inr (g, d')"
      "og = Some g"
      by (elim bindT_InrE) simp
    with admitted [OF rec f] show thesis by blast
  qed
  show thesis
  proof (cases "lifecycle_free b k d1")
    case False
    with body rec unchanged show thesis by simp
  next
    case free: True
    show thesis
    proof (cases "destination_for_update b k d1")
      case None
      with body free admit show thesis by simp
    next
      case (Some r)
      show thesis
      proof (cases "dst_mutation_id r")
        case None
        with body free Some admit show thesis by simp
      next
        case tok: (Some active)
        show thesis
        proof (cases "active = lifecycle_token a e \<or> \<not> older_same_action active a e \<or> dst_mutation_prefix r \<noteq> None")
          case True
          with body free Some tok rec unchanged show thesis by (simp split: if_splits)
        next
          case False
          with body free Some tok admit show thesis by simp
        qed
      qed
    qed
  qed
qed

lemma lifecycle_preserves: "keeps preserves (try_admit_lifecycle_mutation max_day b k a e now clocks lease_now)"
proof (rule keepsI)
  fix d og d' assume t: "try_admit_lifecycle_mutation max_day b k a e now clocks lease_now d = Inr (og, d')"
  from t show "preserves d d'"
  proof (cases rule: try_admit_lifecycle_parts)
    case (unchanged u)
    from keepsD [OF recover_preserves unchanged(1)] show ?thesis .
  next
    case (admitted u d1 g)
    show ?thesis
      unfolding preserves_def
    proof
      assume "ownership_ok d"
      with keepsD [OF recover_preserves admitted(1)] have ok: "ownership_ok d1" unfolding preserves_def by blast
      show "ownership_ok d'"
        by (rule upsert_mutation_ok [OF admitted(4) ok]) (use lifecycle_free_region [OF ok admitted(2)] in \<open>simp add: in_region_def\<close>)
    qed
  qed
qed

lemma finish_job_preserves:
  assumes u: "update_jobs P f d = Inr (n, d1)" and r: "release_job_ownership i now d1 = Inr (v, d')"
    and ids: "\<And>j. ij_id (f j) = ij_id j" and P: "\<And>j. P j \<Longrightarrow> ij_id j = i"
  shows "preserves d d'"
proof (rule ok_preserves)
  assume ok: "ownership_ok d"
  have a: "advances d d1" by (rule keepsD [OF update_jobs_advances u]) (rule ids)
  then have k1: "destinations_keyed d1" using ownership_ok_keyed(3) [OF ok] unfolding advances_def keyed_def by blast
  have t: "im_jobs d1 = update_rows P f (im_jobs d)" "im_destinations d1 = im_destinations d" "im_prefix_claims d1 = im_prefix_claims d"
    using u by (auto simp: update_jobs_def)
  note c = release_job_closed [OF k1 r [unfolded release_job_ownership_def]]
  have t': "im_destinations d' = update_rows (owned_by i) (released None now) (im_destinations d)"
    "im_prefix_claims d' = delete_rows (\<lambda>c. pc_job_id c = i) (im_prefix_claims d)" "im_jobs d' = update_rows P f (im_jobs d)"
    by (simp_all add: c t)
  show "preserves d d'"
  proof (rule preserves_shrinking)
    from a keepsD [OF release_job_advances r] show "advances d d'" by (rule advances.transitive)
    show "shrinks d d'"
      by (rule shrinks_update [OF t'(1)]) (auto simp: t'(2) delete_rows_def row_shrinks_rules)
    fix j assume act: "job_active d j" and held: "(\<exists>r \<in> set (im_destinations d'). dst_owner_job_id r = Some j) \<or> (\<exists>c \<in> set (im_prefix_claims d'). pc_job_id c = j)"
    have "j \<noteq> i"
      using held unfolding t'(1,2) by (auto simp: set_update_rows owned_by_def released_def delete_rows_def split: if_splits)
    from act obtain x where x: "x \<in> set (im_jobs d)" "ij_id x = j" "unfinished (ij_state x)" unfolding job_active_def by blast
    with P [of x] \<open>j \<noteq> i\<close> have "x \<in> set (im_jobs d')" unfolding t'(3) by (intro update_rows_keep) auto
    with x show "job_active d' j" unfolding job_active_def by blast
  qed
qed

lemma end_of_job_preserves:
  "keeps preserves (complete_publication_in_transaction g cid sz now clock)"
  "keeps preserves (fail_claimed c b failure now clock update_clock)"
  "keeps preserves (supersede_job_in_transaction i now)"
proof -
  show "keeps preserves (complete_publication_in_transaction g cid sz now clock)"
  proof (rule keepsI)
    fix d u d' assume "complete_publication_in_transaction g cid sz now clock d = Inr (u, d')"
    then show "preserves d d'"
      unfolding complete_publication_in_transaction_def
      by (elim bindT_InrE) (simp only: guardT_eq_Inr, elim conjE, hypsubst, rule finish_job_preserves, assumption, assumption,
          simp_all add: active_guard_filter_def)
  qed
  show "keeps preserves (fail_claimed c b failure now clock update_clock)"
  proof (rule keepsI)
    fix d u d' assume "fail_claimed c b failure now clock update_clock d = Inr (u, d')"
    then show "preserves d d'"
      unfolding fail_claimed_def
      by (elim bindT_InrE) (simp only: guardT_eq_Inr lock_ownership_Inr verify_active_claim_Inr, elim conjE, hypsubst,
          rule finish_job_preserves, assumption, assumption, simp_all add: active_claim_filter_def active_guard_filter_def)
  qed
  show "keeps preserves (supersede_job_in_transaction i now)"
    unfolding supersede_job_in_transaction_def by (rule supersede_job_preserves)
qed

lemmas supersede_bucket_from_preserves = supersede_bucket_from_keeps [OF preserves.tx_preorder_axioms end_of_job_preserves(3)]

lemma claim_jobs_preserves: "keeps preserves (claim_jobs w now lease cs claimed)"
proof (induction cs arbitrary: claimed)
  case Nil
  show ?case unfolding claim_jobs.simps by (rule preserves.keeps_pure)
next
  case (Cons c cs)
  obtain rank i where c: "c = (rank, i)" by (cases c)
  from Cons show ?case
    unfolding c claim_jobs.simps claim_job_def
    by (intro preserves.keeps_rules update_jobs_preserves) (simp_all add: claimed_job_def Let_def unfinished_def)
qed

lemma job_transactions_preserve:
  "keeps preserves (claim_due_jobs row_bytes w now lease limit)"
  "keeps preserves (renew_job_claim i w e now lease clock)"
  "keeps preserves (update_phase i w e st phase now clock)"
  "keeps preserves (update_progress i w e att p now clock)"
  "keeps preserves (retry_job i w e att next failure now clock)"
proof -
  show "keeps preserves (update_phase i w e st phase now clock)"
  proof (cases "st = STATE_RUNNING")
    case True
    then show ?thesis
      unfolding update_phase_def by (intro preserves.keeps_rules update_jobs_preserves) (simp_all add: unfinished_def)
  next
    case False
    then show ?thesis by (intro keepsI) (auto simp: update_phase_def bindT_def guardT_def)
  qed
qed (unfold claim_due_jobs_def claim_due_jobs_in_transaction_def renew_job_claim_def update_progress_def retry_job_def,
    (intro preserves.keeps_rules claim_jobs_preserves update_jobs_preserves; simp add: unfinished_def)+)

lemma delete_terminal_preserves: "keeps preserves (delete_terminal_before cutoff)"
proof (rule keepsI)
  fix d n d' assume del: "delete_terminal_before cutoff d = Inr (n, d')"
  let ?P = "\<lambda>j. ij_state j \<in> {STATE_COMPLETED, STATE_FAILED, STATE_SUPERSEDED} \<and> (case ij_completed_at j of None \<Rightarrow> False | Some t \<Rightarrow> t < cutoff)"
  from del have d': "d' = delete_jobs ?P d" unfolding delete_terminal_before_def Let_def by simp
  let ?gone = "ij_id ` set (filter ?P (im_jobs d))"
  let ?Q = "\<lambda>r. case dst_owner_job_id r of None \<Rightarrow> False | Some i \<Rightarrow> i \<in> ?gone"
  have t: "im_destinations d' = update_rows ?Q (\<lambda>r. r\<lparr>dst_owner_job_id := None\<rparr>) (im_destinations d)"
    "im_jobs d' = delete_rows ?P (im_jobs d)" "im_prefix_claims d' = delete_rows (\<lambda>c. pc_job_id c \<in> ?gone) (im_prefix_claims d)"
    unfolding d' delete_jobs_def Let_def by simp_all
  show "preserves d d'"
  proof (rule preserves_shrinking)
    show "advances d d'" by (rule keepsD [OF delete_jobs_advances del])
    show "shrinks d d'"
      by (rule shrinks_update [OF t(1)]) (auto simp: t(3) delete_rows_def row_shrinks_def)
    fix i assume "job_active d i"
    then obtain j where j: "j \<in> set (im_jobs d)" "ij_id j = i" "unfinished (ij_state j)" unfolding job_active_def by blast
    have "\<not> ?P j" using j(3) unfolding unfinished_def
      by (auto simp: STATE_QUEUED_def STATE_RUNNING_def STATE_COMPLETED_def STATE_FAILED_def STATE_SUPERSEDED_def)
    with j show "job_active d' i" unfolding job_active_def t(2) delete_rows_def by auto
  qed
qed

section \<open>One writer per key\<close>

lemma clears_tokens_preserve: "clears_tokens (im_queue d) q \<Longrightarrow> preserves d (d\<lparr>im_queue := q\<rparr>)"
proof -
  assume "clears_tokens (im_queue d) q"
  then obtain P now where "qd_destinations q = update_rows P (cleared_token now) (im_destinations d)"
    unfolding clears_tokens_def by blast
  then show ?thesis
    by (intro clears_preserve [of _ P now d]) simp_all
qed

lemma bucket_delete_preserves:
  assumes "bucket_delete b now g = Inr (u, g')"
  shows "preserves (gw_import g) (gw_import g')"
proof (rule preserves_keyed_shrinking)
  note e = bucket_delete_effect [OF assms]
  show "keyed (gw_import g')" if "keyed (gw_import g)" by (rule bucket_delete_keyed [OF assms that])
  show "shrinks (gw_import g) (gw_import g')"
    using row_shrinks_refl by (auto simp: shrinks_def e(2,4) delete_rows_def)
  show "job_active (gw_import g') i" if "job_active (gw_import g) i" for i
    using that by (simp add: job_active_def e(3))
qed

lemma ownership_step_preserves: "ownership_step issued kept d d' \<Longrightarrow> preserves d d'"
proof (induction rule: ownership_step.cases)
  case lifecycle_clear
  then show ?case by (blast elim!: on_import_queue_Inr intro: clears_tokens_preserve lifecycle_clear_tokens)
next
  case lifecycle_renew
  then show ?case by (blast elim!: on_import_queue_Inr intro: clears_tokens_preserve lifecycle_renew_tokens)
next
  case supersede_bucket
  then show ?case unfolding supersede_bucket_def by (blast intro: supersede_bucket_from_preserves)
next
  case environment
  then show ?case by (simp add: preserves_same)
next
  case delete_bucket
  then show ?case using bucket_delete_preserves by blast
qed (blast intro: keepsD submit_preserves claim_extracted_preserves release_extracted_preserves reset_batch_preserves
    mutation_transactions_preserve complete_mutation_preserves lifecycle_preserves recover_preserves end_of_job_preserves
    job_transactions_preserve delete_terminal_preserves)+

lemma ownership_steps_ok: "ownership_steps d d' \<Longrightarrow> ownership_ok d \<Longrightarrow> ownership_ok d'"
  by (induction rule: rtranclp_induct) (use ownership_step_preserves in \<open>auto simp: preserves_def\<close>)

text \<open>An initial database has no rows of the protocol.\<close>

definition ownership_empty :: "import_db \<Rightarrow> bool" where
  "ownership_empty d \<longleftrightarrow> im_destinations d = [] \<and> im_mutation_leases d = [] \<and> im_jobs d = [] \<and> im_prefix_claims d = [] \<and> im_targets d = []"

lemma ownership_empty_ok: "ownership_empty d \<Longrightarrow> ownership_ok d"
proof -
  assume e: "ownership_empty d"
  have "\<not> covers d x b k" for x b k using e by (cases x) (simp_all add: ownership_empty_def)
  then show ?thesis
    using e by (simp add: ownership_ok_def keyed_def destinations_keyed_def jobs_keyed_def backed_def exclusive_def ownership_empty_def)
qed

end
