(* ===== verification/Ownership_Liveness.thy ===== *)
theory Ownership_Liveness
  imports Ownership_Exclusive
begin

text \<open>
  Transactions of the ownership protocol that return. Superseding, revoking and admitting are loops
  of compare-and-set updates, each of which may report an error; on a database that keeps the
  invariant, with rows that fit the bounds of the readers and generations below the maximum, none
  of them does.
\<close>

section \<open>Sweeps that return\<close>

locale total_sweep = row_sweep +
  fixes ready :: "import_destination_model \<Rightarrow> bool"
  assumes step_total: "destinations_keyed d \<Longrightarrow> r \<in> set (im_destinations d) \<Longrightarrow> sel r \<Longrightarrow> ready r \<Longrightarrow> \<exists>d'. sweep_step r d = Inr ((), d')"
begin

lemma rows_total:
  assumes "destinations_keyed d" "distinct (map dst_pk rs)" "\<forall>r \<in> set rs. r \<in> set (im_destinations d) \<and> sel r \<and> ready r"
  shows "\<exists>d'. for_each sweep_step rs d = Inr ((), d')"
  using assms
proof (induction rs arbitrary: d)
  case (Cons r rs)
  then obtain d1 where 1: "sweep_step r d = Inr ((), d1)" using step_total by force
  have d1: "d1 = with_destinations (update_rows (\<lambda>s. hit s \<and> dst_pk s = dst_pk r) upd (im_destinations d)) d"
    using step_closed [OF Cons.prems(1) _ _ 1] Cons.prems(3) by simp
  have "\<forall>s \<in> set rs. s \<in> set (im_destinations d1) \<and> sel s \<and> ready s"
  proof
    fix s assume s: "s \<in> set rs"
    then have "dst_pk s \<in> set (map dst_pk rs)" by force
    with Cons.prems(2) have "dst_pk s \<noteq> dst_pk r"
      by (metis (no_types, lifting) distinct.simps(2) list.simps(9))
    with s Cons.prems(3) show "s \<in> set (im_destinations d1) \<and> sel s \<and> ready s"
      unfolding d1 by (simp add: update_rows_keep)
  qed
  with Cons.IH [of d1] Cons.prems(1,2) keyed_update [OF Cons.prems(1)] show ?case by (simp add: bindT_def 1 d1)
qed simp

lemma page_total:
  fixes key :: "import_destination_model \<Rightarrow> 'k::linorder"
  assumes keyed: "destinations_keyed d" and inj: "distinct (map key (filter sel (im_destinations d)))"
    and ready: "\<And>r. r \<in> set (im_destinations d) \<Longrightarrow> sel r \<Longrightarrow> ready r"
  obtains d' P where "for_each sweep_step (page_of key sel after (im_destinations d)) d = Inr ((), d')"
    "d' = with_destinations (update_rows (\<lambda>s. hit s \<and> P s) upd (im_destinations d)) d"
proof -
  let ?page = "page_of key sel after (im_destinations d)"
  have sub: "\<forall>r \<in> set ?page. r \<in> set (im_destinations d) \<and> sel r \<and> ready r"
    using ready by (auto dest: set_page_of)
  have "distinct ?page"
    using inj unfolding page_of_def by (auto simp: distinct_map conj_commute intro!: distinct_take) (metis distinct_filter filter_filter)
  then have dist: "distinct (map dst_pk ?page)"
    using keyed sub unfolding distinct_map inj_on_def by (meson keyed_unique)
  from rows_total [OF keyed dist sub] obtain d' where r: "for_each sweep_step ?page d = Inr ((), d')" by blast
  have "d' = with_destinations (update_rows (\<lambda>s. hit s \<and> dst_pk s \<in> dst_pk ` set ?page) upd (im_destinations d)) d"
    by (rule rows_closed [OF keyed dist _ r]) (use sub in blast)
  from that [OF r this] show thesis .
qed

end

definition bumpable :: "import_destination_model \<Rightarrow> bool" where
  "bumpable r \<longleftrightarrow> 1 \<le> dst_generation r \<and> dst_generation r < i64_max"

lemma next_generation_bumpable: "bumpable r \<Longrightarrow> next_generation r = Inr (dst_generation r + 1)"
  by (simp add: bumpable_def next_generation_def checked_add_i64_def ok_or_def i64_min_def i64_max_def)

interpretation release_total: total_sweep "owned_by i" "owned_by i" "released iv now" "release_destination i iv now" bumpable for i iv now
  by unfold_locales
    (simp add: release_destination_def bindT_def next_generation_bumpable update_destinations_def liftT_def)

lemma keyed_count:
  assumes "destinations_keyed d" "r \<in> set (im_destinations d)" "P r" "\<And>s. P s \<Longrightarrow> dst_pk s = dst_pk r"
  shows "count_rows P (im_destinations d) = 1"
proof -
  have d: "distinct (im_destinations d)" using assms(1) unfolding destinations_keyed_def by (simp add: distinct_map)
  have "{s \<in> set (im_destinations d). P s} = {r}"
    using assms keyed_unique by blast
  then have "card (set (filter P (im_destinations d))) = 1" by simp
  then show ?thesis using distinct_card [OF distinct_filter [OF d], of P] unfolding count_rows_def by simp
qed

interpretation revoke_total: total_sweep "with_token b" "revoked_by b ks mp" "cleared_token now" "invalidate_destination b ks mp now" "\<lambda>r. True"
  for b ks mp now
proof (unfold_locales, goal_cases)
  case (1 d r)
  then obtain t where t: "dst_mutation_id r = Some t" "dst_bucket r = b" by (auto simp: with_token_def)
  have "count_rows (\<lambda>s. destination_at b (dst_key r) s \<and> dst_mutation_id s = Some t) (im_destinations d) = 1"
    by (rule keyed_count [OF 1(1,2)]) (use t in \<open>auto simp: destination_at_def\<close>)
  with t show ?case by (simp add: invalidate_destination_def bindT_def update_destinations_def liftT_def)
qed


section \<open>Superseding\<close>

definition job_fits :: "import_job_model \<Rightarrow> bool" where
  "job_fits j \<longleftrightarrow> fits_cell (ij_bucket j) \<and> fits_cell (ij_key j) \<and> fits_cell (ij_state j)"

text \<open>What the readers of a supersession rely on.\<close>

definition supersedable :: "import_db \<Rightarrow> bool" where
  "supersedable d \<longleftrightarrow> destinations_keyed d \<and> jobs_keyed d \<and> (\<forall>j \<in> set (im_jobs d). job_fits j) \<and>
     (\<forall>r \<in> set (im_destinations d). dst_owner_job_id r \<noteq> None \<longrightarrow> bumpable r)"

lemma release_destinations_total:
  assumes "destinations_keyed d" "\<forall>r \<in> set (im_destinations d). dst_owner_job_id r \<noteq> None \<longrightarrow> bumpable r"
  shows "\<exists>d'. release_destinations i iv now after d = Inr ((), d')"
  using assms
proof (induction i iv now after d rule: release_destinations.induct)
  case (1 i iv now after d)
  let ?page = "page_of dst_pk (\<lambda>r. dst_owner_job_id r = Some i) after (im_destinations d)"
  have inj: "distinct (map dst_pk (filter (owned_by i) (im_destinations d)))"
    using "1.prems"(1) unfolding destinations_keyed_def by (rule distinct_map_filter)
  have page: "page_of dst_pk (owned_by i) after (im_destinations d) = ?page" by (simp add: owned_by_def [abs_def])
  show ?case
  proof (cases "?page = []")
    case True
    then show ?thesis by (simp add: release_destinations.simps [of i iv now after d])
  next
    case False
    obtain d1 P where f: "for_each (release_destination i iv now) ?page d = Inr ((), d1)"
      and d1: "d1 = with_destinations (update_rows (\<lambda>s. owned_by i s \<and> P s) (released iv now) (im_destinations d)) d"
      by (rule release_total.page_total [OF "1.prems"(1) inj, where after = after and iv = iv and now = now])
        (use "1.prems"(2) in \<open>auto simp: page owned_by_def\<close>)
    have "destinations_keyed d1" unfolding d1 by (rule release.keyed_update [OF "1.prems"(1)])
    moreover have "\<forall>r \<in> set (im_destinations d1). dst_owner_job_id r \<noteq> None \<longrightarrow> bumpable r"
      using "1.prems"(2) unfolding d1 with_destinations_sel update_rows_ball by (simp add: released_def)
    ultimately show ?thesis
      using "1.IH" [OF refl False f refl]
      by (simp add: release_destinations.simps [of i iv now after d] Let_def False f)
  qed
qed

lemma superseded_supersedable:
  assumes "supersedable d"
  shows "supersedable (superseded_all A ivf now d)"
  using assms unfolding supersedable_def
  by (auto simp: set_update_rows job_fits_def superseded_job_def fits_cell_def MAX_CELL_BYTES_def STATE_SUPERSEDED_def)

lemma supersede_job_total:
  assumes s: "supersedable d" and i: "i \<in> set (map ij_id (im_jobs d))"
  shows "\<exists>d'. supersede_job_with_destination_invalidation i iv now d = Inr ((), d')"
proof -
  note p = s [unfolded supersedable_def]
  obtain j where j: "one_row (\<lambda>j. ij_id j = i) (im_jobs d) = Some j"
    using i one_row_Some_iff [of "\<lambda>j. ij_id j = i" "im_jobs d"] by auto
  then have jm: "j \<in> set (im_jobs d)" "ij_id j = i" by (auto dest: one_row_SomeD)
  have find: "find_job_for_update i d = Inr (Some \<lparr>js_bucket = ij_bucket j, js_key = ij_key j, js_state = ij_state j\<rparr>)"
    using p jm(1) by (simp add: find_job_for_update_def j job_fits_def)
  show ?thesis
  proof (cases "unfinished (ij_state j)")
    case False
    then show ?thesis by (simp add: supersede_job_eq find)
  next
    case True
    let ?d = "d\<lparr>im_jobs := update_rows (\<lambda>j. ij_id j = i \<and> unfinished (ij_state j)) (superseded_job now) (im_jobs d)\<rparr>"
    have dist: "distinct (im_jobs d)" using p by (simp add: jobs_keyed_def distinct_map)
    have "{k \<in> set (im_jobs d). ij_id k = i \<and> unfinished (ij_state k)} = {j}"
      using p jm True unfolding jobs_keyed_def distinct_map inj_on_def by auto
    then have count: "count_rows (\<lambda>k. ij_id k = i \<and> unfinished (ij_state k)) (im_jobs d) = 1"
      using distinct_card [OF distinct_filter [OF dist], of "\<lambda>k. ij_id k = i \<and> unfinished (ij_state k)"] by (simp add: count_rows_def)
    have "destinations_keyed ?d" "\<forall>r \<in> set (im_destinations ?d). dst_owner_job_id r \<noteq> None \<longrightarrow> bumpable r"
      using p by (simp_all add: destinations_keyed_def)
    from release_destinations_total [OF this, of i iv now None] obtain d1 where "release_destinations i iv now None ?d = Inr ((), d1)" by blast
    then show ?thesis by (simp add: supersede_job_eq find True count release_job_ownership_eq)
  qed
qed

lemma supersede_round_total:
  assumes "supersedable d" "set (map fst m) \<subseteq> set (map ij_id (im_jobs d))" "\<forall>(i, v) \<in> set m. v \<longrightarrow> mp \<noteq> None"
  shows "\<exists>d'. for_each (supersede_conflicting b mp now) m d = Inr ((), d') \<and> supersedable d' \<and>
    map ij_id (im_jobs d') = map ij_id (im_jobs d)"
  using assms
proof (induction m arbitrary: d)
  case (Cons c m)
  obtain i v where c: "c = (i, v)" by (cases c)
  from Cons.prems supersede_job_total [of d i "if v then map_option (Pair b) mp else None" now] obtain d1
    where s: "supersede_job_with_destination_invalidation i (if v then map_option (Pair b) mp else None) now d = Inr ((), d1)"
    by (auto simp: c)
  then have 1: "supersede_conflicting b mp now c d = Inr ((), d1)"
    using Cons.prems(3) by (cases v; cases mp) (simp_all add: c supersede_conflicting_def bindT_def liftT_def)
  have "supersedable d1"
    using supersede_job_closed [OF _ _ s] superseded_supersedable [OF Cons.prems(1)] Cons.prems(1) by (simp add: supersedable_def)
  moreover have "map ij_id (im_jobs d1) = map ij_id (im_jobs d)" by (rule supersede_job_ids [OF s])
  ultimately show ?case using Cons.IH [of d1] Cons.prems(2,3) by (simp add: bindT_def 1)
qed simp


lemma supersede_conflicts_from_total:
  assumes "supersedable d" "set (exact_owners ts) \<subseteq> set (map ij_id (im_jobs d))"
  shows "\<exists>d'. supersede_conflicts_from b ts mp ex now after d = Inr ((), d')"
  using assms
proof (induction b ts mp ex now after d rule: supersede_conflicts_from.induct)
  case (1 b ts mp ex now after d)
  let ?m = "conflicting_jobs b ts mp ex after d"
  show ?case
  proof (cases "?m = []")
    case True
    then show ?thesis by (simp add: supersede_conflicts_from.simps [of b ts mp ex now after d])
  next
    case False
    have "set (map fst ?m) \<subseteq> set (map ij_id (im_jobs d))"
      using set_conflicting_jobs [of b ts mp ex after d] overlapping_ids [of b ts mp d] "1.prems"(2)
      unfolding set_append by blast
    moreover have "\<forall>(i, v) \<in> set ?m. v \<longrightarrow> mp \<noteq> None"
      using marks_conflicting_jobs [of b ts mp ex after d] by (auto simp: marks_def invalidated_jobs_def split: option.splits)
    ultimately have "\<exists>d'. for_each (supersede_conflicting b mp now) ?m d = Inr ((), d') \<and> supersedable d' \<and>
        map ij_id (im_jobs d') = map ij_id (im_jobs d)"
      by (rule supersede_round_total [OF "1.prems"(1)])
    then obtain d1 where f: "for_each (supersede_conflicting b mp now) ?m d = Inr ((), d1)"
      and d1: "supersedable d1" "map ij_id (im_jobs d1) = map ij_id (im_jobs d)"
      by (elim exE conjE)
    have "set (exact_owners ts) \<subseteq> set (map ij_id (im_jobs d1))" using "1.prems"(2) d1(2) by simp
    from "1.IH" [OF refl False f refl d1(1) this] show ?thesis
      by (simp add: supersede_conflicts_from.simps [of b ts mp ex now after d] Let_def False f)
  qed
qed

section \<open>Revoking\<close>

lemma invalidate_from_total:
  assumes "destinations_keyed d"
  shows "\<exists>d'. invalidate_standard_mutations_from b ks mp now after d = Inr ((), d')"
  using assms
proof (induction b ks mp now after d rule: invalidate_standard_mutations_from.induct)
  case (1 b ks mp now after d)
  let ?page = "page_of dst_key (with_token b) after (im_destinations d)"
  show ?case
  proof (cases "?page = []")
    case True
    then show ?thesis by (simp add: invalidate_standard_mutations_from.simps [of b ks mp now after d])
  next
    case False
    obtain d1 P where f: "for_each (invalidate_destination b ks mp now) ?page d = Inr ((), d1)"
      and d1: "d1 = with_destinations (update_rows (\<lambda>s. revoked_by b ks mp s \<and> P s) (cleared_token now) (im_destinations d)) d"
      by (rule revoke_total.page_total [OF "1.prems" with_token_distinct [OF "1.prems"],
            where after = after and b = b and ks = ks and mp = mp and now = now]) simp_all
    have "destinations_keyed d1" unfolding d1 by (rule revoke.keyed_update [OF "1.prems"])
    from "1.IH" [OF refl False f refl this] show ?thesis
      by (simp add: invalidate_standard_mutations_from.simps [of b ks mp now after d] Let_def False f)
  qed
qed

section \<open>Admitting\<close>

definition lease_fits :: "int \<Rightarrow> datetime \<Rightarrow> bool" where
  "lease_fits max_day t \<longleftrightarrow> (t + STANDARD_MUTATION_LEASE_SECONDS * second_ns) div day_ns \<le> max_day"

lemma one_row_single: "one_row P [x] = (if P x then Some x else None)"
  by (simp add: one_row_def)

lemma token_row:
  assumes "set_token (destination_for_update b k d) b k m p now d = Inr (n, d')"
  obtains r where "destination_for_update b k d' = Some r" "dst_generation r = n" "dst_owner_job_id r = None"
    "dst_mutation_id r = Some m" "dst_mutation_prefix r = p"
proof (cases "destination_for_update b k d")
  case None
  with set_token_Inr [OF assms] show thesis
    by (intro that [of "\<lparr>dst_bucket = b, dst_key = k, dst_generation = n, dst_owner_job_id = None, dst_mutation_id = Some m,
      dst_mutation_prefix = p, dst_updated_at = now\<rparr>"])
      (simp_all add: destination_for_update_def find_destination_for_update_def one_row_append one_row_single)
next
  case (Some r)
  let ?P = "\<lambda>s. destination_at b k s \<and> dst_generation s = dst_generation r"
  from set_token_Inr [OF assms] Some
  have d': "d' = with_destinations (update_rows ?P (\<lambda>s. s\<lparr>dst_generation := n, dst_owner_job_id := None, dst_mutation_id := Some m,
      dst_mutation_prefix := p, dst_updated_at := now\<rparr>) (im_destinations d)) d" by simp
  have "?P r" using destination_for_update_at [OF Some] by simp
  with Some show thesis
    by (intro that [of "r\<lparr>dst_generation := n, dst_owner_job_id := None, dst_mutation_id := Some m,
      dst_mutation_prefix := p, dst_updated_at := now\<rparr>"])
      (simp_all add: d' destination_for_update_def find_destination_for_update_def one_row_update_rows)
qed

lemma token_row_frame:
  assumes "set_token existing b k m p now d = Inr (n, d')" "(b', k') \<noteq> (b, k)"
  shows "destination_for_update b' k' d' = destination_for_update b' k' d"
proof (cases existing)
  case None
  with set_token_Inr [OF assms(1)] assms(2) show ?thesis
    by (auto simp: destination_for_update_def find_destination_for_update_def one_row_append one_row_single split: option.split)
next
  case (Some r)
  let ?P = "\<lambda>s. destination_at b k s \<and> dst_generation s = dst_generation r"
  let ?f = "\<lambda>s. s\<lparr>dst_generation := n, dst_owner_job_id := None, dst_mutation_id := Some m, dst_mutation_prefix := p, dst_updated_at := now\<rparr>"
  from set_token_Inr [OF assms(1)] Some have d': "d' = with_destinations (update_rows ?P ?f (im_destinations d)) d" by simp
  have "destination_for_update b' k' d' = map_option (\<lambda>s. if ?P s then ?f s else s) (destination_for_update b' k' d)"
    by (simp add: d' destination_for_update_def find_destination_for_update_def one_row_update_rows)
  then show ?thesis
    using assms(2) by (cases "destination_for_update b' k' d") (auto dest!: destination_for_update_at simp: destination_at_def)
qed

lemma upsert_row_frame:
  assumes "upsert_standard_mutation max_day existing b k m p now lease_now d = Inr (g, d')" "(b', k') \<noteq> (b, k)"
  shows "destination_for_update b' k' d' = destination_for_update b' k' d"
proof -
  from assms(1) obtain d1 l n where t: "set_token existing b k m p now d = Inr (n, d1)" and u: "upsert_mutation_lease l d1 = Inr ((), d')"
    by (rule upsert_mutation_parts)
  have "destination_for_update b' k' d' = destination_for_update b' k' d1"
    by (simp add: destination_for_update_def find_destination_for_update_def upsert_lease_tables [OF u])
  with token_row_frame [OF t assms(2)] show ?thesis by simp
qed

lemma set_token_total:
  assumes keyed: "destinations_keyed d" and b: "b \<in> im_buckets d"
    and bump: "\<And>r. destination_for_update b k d = Some r \<Longrightarrow> bumpable r"
  shows "\<exists>n d'. set_token (destination_for_update b k d) b k m p now d = Inr (n, d')"
proof (cases "destination_for_update b k d")
  case None
  with b destination_for_update_None [OF None] show ?thesis
    by (simp add: set_token_def bindT_def insert_destination_def owner_exists_def)
next
  case (Some r)
  note row = destination_for_update_row [OF Some]
  have "count_rows (\<lambda>s. destination_at b k s \<and> dst_generation s = dst_generation r) (im_destinations d) = 1"
    by (rule keyed_count [OF keyed]) (use row in \<open>auto simp: destination_at_def\<close>)
  with Some next_generation_bumpable [OF bump [OF Some]] show ?thesis
    by (simp add: set_token_def bindT_def liftT_def update_destinations_def)
qed

lemma upsert_mutation_total:
  assumes "destinations_keyed d" "b \<in> im_buckets d" "\<And>r. destination_for_update b k d = Some r \<Longrightarrow> bumpable r" "lease_fits max_day lease_now"
  shows "\<exists>g d'. upsert_standard_mutation max_day (destination_for_update b k d) b k m p now lease_now d = Inr (g, d')"
proof -
  from set_token_total [OF assms(1-3)] obtain n d1 where t: "set_token (destination_for_update b k d) b k m p now d = Inr (n, d1)" by blast
  have "plus_or_panic max_day lease_now (STANDARD_MUTATION_LEASE_SECONDS * second_ns) =
      Inr (lease_now + STANDARD_MUTATION_LEASE_SECONDS * second_ns)"
    using assms(4) by (simp add: plus_or_panic_def ok_or_def checked_add_signed_def lease_fits_def)
  then show ?thesis
    unfolding upsert_standard_mutation_def set_token_def [symmetric] by (simp add: bindT_def t liftT_def upsert_mutation_lease_def)
qed

lemma upsert_buckets:
  assumes "upsert_standard_mutation max_day existing b k m p now lease_now d = Inr (g, d')"
  shows "im_buckets d' = im_buckets d"
proof -
  from assms obtain d1 l n where t: "set_token existing b k m p now d = Inr (n, d1)" and u: "upsert_mutation_lease l d1 = Inr ((), d')"
    by (rule upsert_mutation_parts)
  have "im_buckets d1 = im_buckets d" using set_token_Inr [OF t] by (auto simp: im_buckets_def split: option.splits)
  with u show ?thesis by (auto simp: upsert_mutation_lease_def im_buckets_def)
qed

lemma admit_keys_total:
  assumes "keyed d" "b \<in> im_buckets d" "distinct ks" "\<forall>k \<in> set ks. mids k \<noteq> None \<and> lease_fits max_day (lease_nows k)"
    "\<forall>k \<in> set ks. \<forall>r. destination_for_update b k d = Some r \<longrightarrow> bumpable r"
  shows "\<exists>gs d'. admit_keys max_day b mids now lease_nows ks d = Inr (gs, d')"
  using assms
proof (induction ks arbitrary: d)
  case (Cons k ks)
  from Cons.prems(4) obtain m where m: "mids k = Some m" by auto
  have dk: "destinations_keyed d" using Cons.prems(1) unfolding keyed_def by blast
  from upsert_mutation_total [OF dk Cons.prems(2), of k max_day "lease_nows k" m None now] Cons.prems(4,5) obtain g d1
    where u: "upsert_standard_mutation max_day (destination_for_update b k d) b k m None now (lease_nows k) d = Inr (g, d1)"
    by auto
  have "keyed d1" using keepsD [OF upsert_mutation_advances u] Cons.prems(1) unfolding advances_def by blast
  moreover have "destination_for_update b k' d1 = destination_for_update b k' d" if "k' \<in> set ks" for k'
    by (rule upsert_row_frame [OF u]) (use that Cons.prems(3) in auto)
  ultimately obtain gs d' where "admit_keys max_day b mids now lease_nows ks d1 = Inr (gs, d')"
    using Cons.IH [of d1] Cons.prems(2-5) upsert_buckets [OF u] by auto
  with u m show ?case by (simp add: bindT_def liftT_def ok_or_def)
qed simp

lemma exact_owners_known:
  assumes "ownership_ok d"
  shows "set (exact_owners (map (\<lambda>k. (k, current_owner b k d)) ks)) \<subseteq> set (map ij_id (im_jobs d))"
proof
  fix i assume "i \<in> set (exact_owners (map (\<lambda>k. (k, current_owner b k d)) ks))"
  then obtain k where "current_owner b k d = Some i" by (auto simp: in_exact_owners)
  then obtain r where "destination_for_update b k d = Some r" "dst_owner_job_id r = Some i"
    by (auto simp: current_owner_def bind_eq_Some_conv)
  with destination_for_update_row assms have "job_active d i" unfolding ownership_ok_def backed_def by blast
  then show "i \<in> set (map ij_id (im_jobs d))" by (rule job_active_id)
qed

lemma admit_contents_total:
  assumes ok: "ownership_ok d" and b: "b \<in> im_buckets d" and ks: "distinct ks" "\<forall>k \<in> set ks. mids k \<noteq> None \<and> lease_fits max_day (lease_nows k)"
    and fits: "\<forall>j \<in> set (im_jobs d). job_fits j" and bump: "\<forall>r \<in> set (im_destinations d). bumpable r"
  shows "\<exists>gs d'. admit_content_mutations_in_transaction max_day b ks mids None now lease_nows d = Inr (gs, d')"
proof -
  let ?ts = "map (\<lambda>k. (k, current_owner b k d)) ks"
  note keyed = ownership_ok_keyed [OF ok]
  have "supersedable d" using keyed fits bump by (simp add: supersedable_def)
  then obtain d1 where s: "supersede_conflicts_in_order b ?ts None None now d = Inr ((), d1)"
    unfolding supersede_conflicts_in_order_def using supersede_conflicts_from_total [OF _ exact_owners_known [OF ok]] by blast
  note d1 = supersede_conflicts_closed [OF keyed(1,2) s]
  have k1: "destinations_keyed d1" using keyed(1) by (simp add: d1)
  from invalidate_from_total [OF k1] obtain d2 where i: "invalidate_standard_mutations_in_order b ks None now d1 = Inr ((), d2)"
    unfolding invalidate_standard_mutations_in_order_def by blast
  note d2 = invalidate_in_order_closed [OF k1 i]
  have "keyed d2" by (rule ownership_ok_keyed(3) [OF cleared_ok(1) [OF ok s i refl]])
  moreover have "b \<in> im_buckets d2" using b by (simp add: im_buckets_def d2 d1)
  moreover have inv: "marked_invalidation b None (invalidated_jobs b None d) = (\<lambda>i. None)"
    by (rule ext) (simp add: marked_invalidation_def invalidated_jobs_def)
  have "\<forall>r \<in> set (im_destinations d2). bumpable r"
    using bump unfolding d2 d1 inv with_destinations_sel superseded_all_sel update_rows_ball
    by (auto simp: bumpable_def cleared_token_def freed_def released_def invalidated_by_def split: option.splits)
  then have "\<forall>k \<in> set ks. \<forall>r. destination_for_update b k d2 = Some r \<longrightarrow> bumpable r"
    using destination_for_update_row by blast
  ultimately obtain gs d' where "admit_keys max_day b mids now lease_nows ks d2 = Inr (gs, d')"
    using admit_keys_total ks by blast
  with s i show ?thesis by (simp add: admit_content_mutations_in_transaction_def bindT_def)
qed

end
