(* ===== verification/Ownership_Properties.thy ===== *)
theory Ownership_Properties
  imports Ownership_Liveness Lifecycle_Fencing
begin

text \<open>
  What the ownership protocol promises its clients, over the transactions of \<open>Import_Admission\<close>:
  one writer per key, guards that stay revoked, the effect of an admission, lifecycle admissions
  that yield to every other writer, publications backed by live ownership, and archive outputs
  that leave the source alone. The examples run the transactions on a small database.
\<close>

section \<open>A small database\<close>

definition empty_import :: import_db where
  "empty_import = \<lparr>im_queue = empty_queue, im_jobs = [], im_prefix_claims = [], im_targets = [], im_zip_requests = []\<rparr>"

definition sample_codec :: job_codec where
  "sample_codec = \<lparr>jc_cid = Some, jc_metadata = (\<lambda>m. ''{}''), jc_tags = (\<lambda>t. ''[]'')\<rparr>"

definition sample_request :: "string \<Rightarrow> string \<Rightarrow> string option \<Rightarrow> new_import_job" where
  "sample_request i k p = \<lparr>nj_id = i, nj_bucket = ''b'', nj_key = k, nj_source = SourceCid ''c'', nj_request_fingerprint = ''f'',
     nj_client_token = None, nj_object_content_type = None, nj_metadata = [], nj_tags = [], nj_decompress_prefix = p\<rparr>"

definition no_capture :: job_capture where
  "no_capture = \<lparr>cap_pin_decision_json = None, cap_zip_intent_json = None, cap_root_capture_json = None\<rparr>"

text \<open>A job \<open>j1\<close> that owns \<open>z\<close> and claims \<open>p/\<close>, then a mutation \<open>m1\<close> of \<open>p/x\<close>, then a mutation \<open>m2\<close> of it.\<close>

definition sample_submit :: "(import_db, submit_import_outcome) tx" where
  "sample_submit = submit_with_decision sample_codec (\<lambda>j. (1, 1)) (sample_request ''j1'' ''z'' (Some ''p/'')) (Inr no_capture) (Inr ()) 5"

definition sample_admit :: "string \<Rightarrow> datetime \<Rightarrow> (import_db, standard_mutation_guard list) tx" where
  "sample_admit m now = admit_content_mutations 100000 ''b'' [''p/x''] (\<lambda>k. m) None now (\<lambda>k. now)"

definition submitted_db :: import_db where
  "submitted_db = snd (projr (sample_submit empty_import))"

definition mutated_db :: import_db where
  "mutated_db = snd (projr (sample_admit ''m1'' 6 submitted_db))"

definition sample_guard :: "string \<Rightarrow> int \<Rightarrow> standard_mutation_guard" where
  "sample_guard m n = \<lparr>sg_bucket = ''b'', sg_key = ''p/x'', sg_mutation_id = m, sg_expected_generation = n, sg_mutation_prefix = None\<rparr>"

definition remutated_db :: import_db where
  "remutated_db = snd (projr (sample_admit ''m2'' 7 mutated_db))"

lemma Inr_snd_projr: "isl x = False \<Longrightarrow> x = Inr (fst (projr x), snd (projr x))"
  by (cases x) simp_all

lemma sample_runs:
  "isl (sample_submit empty_import) = False"
  "sample_admit ''m1'' 6 submitted_db = Inr ([sample_guard ''m1'' 1], mutated_db)"
  "sample_admit ''m2'' 7 mutated_db = Inr ([sample_guard ''m2'' 2], remutated_db)"
  by code_simp+

lemma sample_steps:
  "ownership_empty empty_import"
  "ownership_steps empty_import submitted_db"
  "ownership_steps submitted_db mutated_db"
  "ownership_steps mutated_db remutated_db"
proof -
  show "ownership_empty empty_import" by code_simp
  show "ownership_steps empty_import submitted_db"
    by (rule r_into_rtranclp, unfold submitted_db_def,
        rule ownership_step.submit [OF Inr_snd_projr [OF sample_runs(1), unfolded sample_submit_def], folded sample_submit_def])
  show "ownership_steps submitted_db mutated_db" "ownership_steps mutated_db remutated_db"
    by (rule r_into_rtranclp, rule ownership_step.admit_contents, rule sample_runs(2,3) [unfolded sample_admit_def], simp)+
qed

section \<open>One writer per key\<close>

text \<open>C2: In every database that the transactions of the ownership protocol reach from an empty one, in any order, no key of
  a bucket is covered by two claimants. A claimant is an import job, through a destination it owns or a prefix it claims, or
  the holder of a mutation token, through its key or its prefix. A job that covers a key is unfinished.\<close>

theorem single_writer:
  assumes "ownership_empty d0" "ownership_steps d0 d" "covers d x b k" "covers d y b k"
  shows "x = y \<and> (case x of Job_claim i \<Rightarrow> job_active d i | Token_claim a \<Rightarrow> True)"
proof -
  have ok: "ownership_ok d" by (rule ownership_steps_ok [OF assms(2) ownership_empty_ok [OF assms(1)]])
  have "in_region [k] None k" by (simp add: in_region_def)
  with job_in_region_overlaps(2) [OF ok refl] assms(3)
  have "case x of Job_claim i \<Rightarrow> job_active d i | Token_claim a \<Rightarrow> True"
    by (cases x) (auto simp del: covers.simps)
  moreover have "x = y" using ok assms(3,4) unfolding ownership_ok_def exclusive_def by blast
  ultimately show ?thesis by blast
qed

theorem single_writer_witness:
  "covers submitted_db (Job_claim ''j1'') ''b'' ''p/q'' \<and> job_active submitted_db ''j1''"
proof -
  have c: "covers submitted_db (Job_claim ''j1'') ''b'' ''p/q''" by code_simp
  with single_writer [OF sample_steps(1,2) c c] show ?thesis by simp
qed

section \<open>Revoked guards\<close>











section \<open>Reachable databases\<close>

definition generations_ok :: "import_db \<Rightarrow> bool" where
  "generations_ok d \<longleftrightarrow> (\<forall>r \<in> set (im_destinations d). 1 \<le> dst_generation r)"

lemma generations_advance: "keyed d \<Longrightarrow> advances d d' \<Longrightarrow> generations_ok d \<Longrightarrow> generations_ok d'"
  unfolding advances_def evolves_def generations_ok_def by (metis order_trans)

lemma generations_step:
  assumes "ownership_step issued kept d d'" "keyed d" "generations_ok d"
  shows "generations_ok d'"
  using assms(1)
proof (cases rule: ownership_step_advances)
  case deletion
  with assms(3) show ?thesis by (auto simp: generations_ok_def bucket_delete_effect(2) delete_rows_def)
next
  case advance
  with assms(2,3) show ?thesis
    unfolding advances_from_def evolves_from_def generations_ok_def by (metis order_trans)
qed

lemma generations_steps:
  assumes "ownership_steps d d'" "ownership_ok d" "generations_ok d"
  shows "generations_ok d'"
  using assms
proof (induction rule: rtranclp_induct)
  case (step d1 d2)
  have "keyed d1" by (rule ownership_ok_keyed(3) [OF ownership_steps_ok [OF step.hyps(1) step.prems(1)]])
  with step generations_step show ?case by blast
qed

lemma reached_ok:
  assumes "ownership_empty d0" "ownership_steps d0 d"
  shows "ownership_ok d" "generations_ok d"
proof -
  show "ownership_ok d" by (rule ownership_steps_ok [OF assms(2) ownership_empty_ok [OF assms(1)]])
  have "generations_ok d0" using assms(1) by (simp add: generations_ok_def ownership_empty_def)
  then show "generations_ok d" by (rule generations_steps [OF assms(2) ownership_empty_ok [OF assms(1)]])
qed

section \<open>Superseding in batches\<close>

text \<open>C9: Superseding conflicting jobs page by page, with bounded pages of candidates that are computed again after every batch, is
  one update of the database: it returns, exactly the unfinished jobs that overlap the keys or the prefix, the excluded one apart,
  become superseded, their prefix claims and targets are deleted, and their destinations lose the owner and, below the prefix of
  the mutation, take the next generation.\<close>

theorem batched_supersession:
  assumes "ownership_empty d0" "ownership_steps d0 d"
    and "\<forall>j \<in> set (im_jobs d). job_fits j" "\<forall>r \<in> set (im_destinations d). dst_generation r < i64_max"
    and ts: "ts = map (\<lambda>k. (k, current_owner b k d)) ks"
  shows "supersede_conflicts_in_order b ts mp excluding now d =
    Inr ((), superseded_all {i \<in> overlapping b ts mp d. excluding \<noteq> Some i \<and> job_active d i}
      (marked_invalidation b mp (invalidated_jobs b mp d)) now d)"
proof -
  note ok = reached_ok [OF assms(1,2)]
  have "supersedable d" using ownership_ok_keyed [OF ok(1)] ok(2) assms(3,4) by (simp add: supersedable_def generations_ok_def bumpable_def)
  then obtain d' where s: "supersede_conflicts_in_order b ts mp excluding now d = Inr ((), d')"
    unfolding supersede_conflicts_in_order_def ts using supersede_conflicts_from_total [OF _ exact_owners_known [OF ok(1)]] by blast
  from supersede_conflicts_closed [OF ownership_ok_keyed(1,2) [OF ok(1)] s] s show ?thesis by (simp only: conflicting_def)
qed

theorem batched_supersession_witness:
  "\<exists>d'. supersede_conflicts_in_order ''b'' [] (Some ''p'') None 6 submitted_db = Inr ((), d') \<and> \<not> job_active d' ''j1''"
proof -
  let ?A = "{i \<in> overlapping ''b'' [] (Some ''p'') submitted_db. None \<noteq> Some i \<and> job_active submitted_db i}"
  have f: "\<forall>j \<in> set (im_jobs submitted_db). job_fits j" "\<forall>r \<in> set (im_destinations submitted_db). dst_generation r < i64_max"
    and j: "''j1'' \<in> overlapping ''b'' [] (Some ''p'') submitted_db"
    by code_simp+
  from batched_supersession [OF sample_steps(1,2) f, of "[]" "''b''" "[]" "Some ''p''" None 6] j show ?thesis by simp
qed

section \<open>The effect of an admission\<close>

lemma upserted_lease:
  assumes "upsert_mutation_lease l d = Inr (u, d')"
  shows "\<exists>l' \<in> set (im_mutation_leases d'). l' = l"
    and "sml_bucket l' \<noteq> sml_bucket l \<or> sml_key l' \<noteq> sml_key l \<Longrightarrow> l' \<in> set (im_mutation_leases d') \<longleftrightarrow> l' \<in> set (im_mutation_leases d)"
  using assms by (auto simp: upsert_mutation_lease_def Let_def set_update_rows list_ex_iff image_iff split: if_splits)

lemma plus_or_panic_Inr: "plus_or_panic max_day t x = Inr u \<Longrightarrow> u = t + x"
  by (auto simp: plus_or_panic_def ok_or_def dest: checked_add_signed_Some split: option.splits)

lemma upsert_live:
  assumes "upsert_standard_mutation max_day (destination_for_update b k d) b k m p now lease_now d = Inr (g, d')"
    "keyed d" "generations_ok d" "clock < lease_now + STANDARD_MUTATION_LEASE_SECONDS * second_ns"
    "case p of Some q \<Rightarrow> list_all (\<lambda>e. starts_with e q) es | None \<Rightarrow> es = []"
  shows "guard_live g es clock d'" "sg_bucket g = b" "sg_key g = k"
proof -
  from assms(1) obtain d1 l n where t: "set_token (destination_for_update b k d) b k m p now d = Inr (n, d1)"
    and u: "upsert_mutation_lease l d1 = Inr ((), d')" and l: "sml_bucket l = b" "sml_key l = k" "sml_mutation_id l = m" "sml_generation l = n"
      "plus_or_panic max_day lease_now (STANDARD_MUTATION_LEASE_SECONDS * second_ns) = Inr (sml_lease_until l)"
    and g: "g = \<lparr>sg_bucket = b, sg_key = k, sg_mutation_id = m, sg_expected_generation = n, sg_mutation_prefix = p\<rparr>"
    by (rule upsert_mutation_parts)
  from t obtain r where "destination_for_update b k d1 = Some r" and r: "dst_generation r = n" "dst_owner_job_id r = None"
      "dst_mutation_id r = Some m" "dst_mutation_prefix r = p"
    by (rule token_row)
  then have r': "destination_for_update b k d' = Some r"
    by (simp add: destination_for_update_def find_destination_for_update_def upsert_lease_tables [OF u])
  have "generations_ok d'" by (rule generations_advance [OF assms(2) keepsD [OF upsert_mutation_advances assms(1)] assms(3)])
  then have n: "1 \<le> n" using destination_for_update_row [OF r'] r(1) by (auto simp: generations_ok_def)
  have "lease_live g clock d'"
    using upserted_lease(1) [OF u] l assms(4) plus_or_panic_Inr [OF l(5)]
    by (auto simp: lease_live_def mutation_lease_identity_def unexpired_def g)
  with n r r' destination_for_update_at [OF r'] assms(5) show "guard_live g es clock d'"
    by (simp add: guard_live_def holds_token_def g)
  show "sg_bucket g = b" "sg_key g = k" by (simp_all add: g)
qed

lemma upsert_live_frame:
  assumes "upsert_standard_mutation max_day existing b k m p now lease_now d = Inr (g, d')" "(sg_bucket g', sg_key g') \<noteq> (b, k)"
  shows "guard_live g' es clock d' \<longleftrightarrow> guard_live g' es clock d"
proof -
  from assms(1) obtain d1 l n where t: "set_token existing b k m p now d = Inr (n, d1)"
    and u: "upsert_mutation_lease l d1 = Inr ((), d')" and l: "sml_bucket l = b" "sml_key l = k"
    by (rule upsert_mutation_parts)
  have "destination_for_update (sg_bucket g') (sg_key g') d' = destination_for_update (sg_bucket g') (sg_key g') d1"
    by (simp add: destination_for_update_def find_destination_for_update_def upsert_lease_tables [OF u])
  moreover have "im_mutation_leases d1 = im_mutation_leases d"
    using set_token_Inr [OF t] by (auto split: option.splits)
  then have "l' \<in> set (im_mutation_leases d') \<longleftrightarrow> l' \<in> set (im_mutation_leases d)" if "mutation_lease_identity g' l'" for l'
    using upserted_lease(2) [OF u, of l'] that assms(2) l by (auto simp: mutation_lease_identity_def)
  then have "lease_live g' clock d' \<longleftrightarrow> lease_live g' clock d" unfolding lease_live_def by blast
  ultimately show ?thesis using token_row_frame [OF t assms(2)] by (simp add: guard_live_def)
qed

lemma admit_keys_frame:
  assumes "admit_keys max_day b mids now lease_nows ks d = Inr (gs, d')" "sg_key g \<notin> set ks"
  shows "guard_live g es clock d' \<longleftrightarrow> guard_live g es clock d"
  using assms
proof (induction ks arbitrary: d gs)
  case (Cons k ks)
  from Cons.prems(1) obtain m h gs' d1
    where u: "upsert_standard_mutation max_day (destination_for_update b k d) b k m None now (lease_nows k) d = Inr (h, d1)"
      and r: "admit_keys max_day b mids now lease_nows ks d1 = Inr (gs', d')"
    unfolding admit_keys.simps by (elim bindT_InrE) simp
  with Cons.IH [OF r] Cons.prems(2) upsert_live_frame [OF u, of g] show ?case by simp
qed simp

lemma admit_keys_live:
  assumes "admit_keys max_day b mids now lease_nows ks d = Inr (gs, d')" "distinct ks" "keyed d" "generations_ok d"
  shows "map sg_key gs = ks \<and> (\<forall>g \<in> set gs. sg_bucket g = b \<and>
    (\<forall>clock < lease_nows (sg_key g) + STANDARD_MUTATION_LEASE_SECONDS * second_ns. guard_live g [] clock d'))"
  using assms
proof (induction ks arbitrary: d gs)
  case (Cons k ks)
  from Cons.prems(1) obtain m g gs' d1
    where u: "upsert_standard_mutation max_day (destination_for_update b k d) b k m None now (lease_nows k) d = Inr (g, d1)"
      and r: "admit_keys max_day b mids now lease_nows ks d1 = Inr (gs', d')" and gs: "gs = g # gs'"
    unfolding admit_keys.simps by (elim bindT_InrE) simp
  have adv: "advances d d1" by (rule keepsD [OF upsert_mutation_advances u])
  have d1: "keyed d1" "generations_ok d1"
    using adv Cons.prems(3) generations_advance [OF Cons.prems(3) adv Cons.prems(4)] unfolding advances_def by blast+
  have g: "sg_bucket g = b" "sg_key g = k"
    using upsert_live(2,3) [OF u Cons.prems(3,4), of "lease_nows k"] by (simp_all add: STANDARD_MUTATION_LEASE_SECONDS_def second_ns_def)
  have "guard_live g [] clock d'" if "clock < lease_nows k + STANDARD_MUTATION_LEASE_SECONDS * second_ns" for clock
    using upsert_live(1) [OF u Cons.prems(3,4) that, of "[]"] admit_keys_frame [OF r, of g] g(2) Cons.prems(2) by simp
  with Cons.IH [OF r _ d1] Cons.prems(2) g gs show ?case by simp
qed simp

lemma admitted_jobs:
  assumes "admit_keys max_day b mids now lease_nows ks d = Inr (gs, d')"
  shows "im_jobs d' = im_jobs d"
  using assms
proof (induction ks arbitrary: d gs)
  case (Cons k ks)
  from Cons.prems obtain m g gs' d1
    where u: "upsert_standard_mutation max_day (destination_for_update b k d) b k m None now (lease_nows k) d = Inr (g, d1)"
      and r: "admit_keys max_day b mids now lease_nows ks d1 = Inr (gs', d')"
    unfolding admit_keys.simps by (elim bindT_InrE) simp
  from upsert_mutation_token_set [OF u] Cons.IH [OF r] show ?case by (simp add: token_set_def)
qed simp

lemma overlapping_covers:
  assumes "i \<in> overlapping b (map (\<lambda>k. (k, current_owner b k d)) ks) None d"
  shows "\<exists>k \<in> set ks. covers d (Job_claim i) b k"
proof -
  from assms obtain k where k: "k \<in> set ks" "i \<in> set (prefix_owners_for_key b k d) \<or> current_owner b k d = Some i"
    by (auto simp: overlapping_def)
  from k(2) have "covers d (Job_claim i) b k"
  proof
    assume "current_owner b k d = Some i"
    then obtain r where "destination_for_update b k d = Some r" "dst_owner_job_id r = Some i"
      by (auto simp: current_owner_def bind_eq_Some_conv)
    with destination_for_update_row show ?thesis by (force simp: destination_at_def)
  qed (auto simp: prefix_owners_for_key_def)
  with k(1) show ?thesis by blast
qed


lemma token_carried:
  assumes "keyed d" "advances d d'" "guard_held g d" "guard_held g d'" "covers d (Token_claim (sg_key g)) (sg_bucket g) k"
  shows "covers d' (Token_claim (sg_key g)) (sg_bucket g) k"
proof -
  let ?pk = "(sg_bucket g, sg_key g)"
  from assms(3) obtain r where r: "r \<in> set (im_destinations d)" "dst_pk r = ?pk" "dst_generation r = sg_expected_generation g"
    unfolding guard_held_def destination_at_pk by blast
  from assms(4) obtain r' where r': "r' \<in> set (im_destinations d')" "dst_pk r' = ?pk" "dst_generation r' = sg_expected_generation g"
      "dst_mutation_id r' = Some (sg_mutation_id g)"
    unfolding guard_held_def destination_at_pk by blast
  then have "carried (same_token r') (im_destinations d) r'"
    using assms(1,2) unfolding advances_def evolves_def by blast
  with r r' obtain s where s: "s \<in> set (im_destinations d)" "dst_pk s = ?pk" "same_token r' s"
    unfolding carried_def by (metis less_irrefl)
  from assms(5) obtain s' where s': "s' \<in> set (im_destinations d)" "destination_at (sg_bucket g) (sg_key g) s'" "token_covers k s'"
    by auto
  have "s' = s"
    using keyed_unique [of d s' s] assms(1) s s' unfolding keyed_def destination_at_pk by simp
  then have "token_covers k r'" using s s'(3) r'(2) by (simp add: token_covers_def same_token_def)
  with r' show ?thesis by (auto simp: destination_at_def)
qed

lemma admitted_parts:
  assumes "admit_content_mutations max_day b ks fresh None now lease_nows d = Inr (gs, d')" "ownership_ok d"
  obtains d2 where "advances d d2" "ownership_ok d2"
    "\<forall>k \<in> set ks. \<forall>x. \<not> covers d2 x b k"
    "\<forall>i. job_active d2 i \<longleftrightarrow> job_active d i \<and> \<not> (\<exists>k \<in> set ks. covers d (Job_claim i) b k)"
    "admit_keys max_day b (\<lambda>k. if k \<in> set ks then Some (fresh k) else None) now lease_nows (sort (remdups ks)) d2 = Inr (gs, d')"
proof -
  let ?ks = "sort (remdups ks)"
  let ?ts = "map (\<lambda>k. (k, current_owner b k d)) ?ks"
  from assms(1) obtain u d1 v d2 where s: "supersede_conflicts_in_order b ?ts None None now d = Inr (u, d1)"
    and i: "invalidate_standard_mutations_in_order b ?ks None now d1 = Inr (v, d2)"
    and k: "admit_keys max_day b (\<lambda>k. if k \<in> set ks then Some (fresh k) else None) now lease_nows ?ks d2 = Inr (gs, d')"
    unfolding admit_content_mutations_def admit_content_mutations_in_transaction_def by (elim bindT_InrE) simp
  note c = cleared_ok [OF assms(2) s i refl]
  have clear: "\<not> covers d2 x b k" if "k \<in> set ks" for k x
    using c(2) [of k x] that by (auto simp: in_region_def simp del: covers.simps)
  have "i \<in> conflicting b ?ts None None d \<longleftrightarrow> job_active d i \<and> (\<exists>k \<in> set ks. covers d (Job_claim i) b k)" for i
    using overlapping_covers [of i b d ?ks] job_in_region_overlaps [OF assms(2) refl, of ?ks None _ i b]
    by (auto simp: conflicting_def in_region_def simp del: covers.simps)
  then have "job_active d1 i \<longleftrightarrow> job_active d i \<and> \<not> (\<exists>k \<in> set ks. covers d (Job_claim i) b k)" for i
    unfolding supersede_conflicts_closed [OF ownership_ok_keyed(1,2) [OF assms(2)] s] by (auto simp del: covers.simps)
  moreover have "ownership_ok d1" using keepsD [OF supersede_conflicts_preserves s] assms(2) unfolding preserves_def by blast
  then have "im_jobs d2 = im_jobs d1" by (rule invalidate_jobs [OF _ i])
  ultimately have act: "job_active d2 i \<longleftrightarrow> job_active d i \<and> \<not> (\<exists>k \<in> set ks. covers d (Job_claim i) b k)" for i
    using job_active_same by blast
  have "advances d d2"
    by (rule advances.transitive [OF keepsD [OF supersede_conflicts_advances s] keepsD [OF invalidate_advances i]])
  with c(1) clear act k show thesis by (intro that) blast+
qed


lemma admit_keys_row_frame:
  assumes "admit_keys max_day b mids now lease_nows ks d = Inr (gs, d')" "b' \<noteq> b \<or> k' \<notin> set ks"
  shows "destination_for_update b' k' d' = destination_for_update b' k' d" "im_prefix_claims d' = im_prefix_claims d"
proof -
  have "destination_for_update b' k' d' = destination_for_update b' k' d \<and> im_prefix_claims d' = im_prefix_claims d"
    using assms
  proof (induction ks arbitrary: d gs)
    case (Cons k ks)
    from Cons.prems(1) obtain m h gs' d1
      where u: "upsert_standard_mutation max_day (destination_for_update b k d) b k m None now (lease_nows k) d = Inr (h, d1)"
        and r: "admit_keys max_day b mids now lease_nows ks d1 = Inr (gs', d')"
      unfolding admit_keys.simps by (elim bindT_InrE) simp
    have "(b', k') \<noteq> (b, k)" using Cons.prems(2) by auto
    with Cons.IH [OF r] Cons.prems(2) upsert_row_frame [OF u] token_setD(1) [OF upsert_mutation_token_set [OF u]] show ?case by simp
  qed simp
  then show "destination_for_update b' k' d' = destination_for_update b' k' d" "im_prefix_claims d' = im_prefix_claims d" by blast+
qed

lemma admitted_row:
  assumes "admit_keys max_day b mids now lease_nows ks d = Inr (gs, d')" "destinations_keyed d" "r \<in> set (im_destinations d)"
    "dst_bucket r \<noteq> b \<or> dst_key r \<notin> set ks"
  shows "r \<in> set (im_destinations d')"
proof -
  have "destination_for_update (dst_bucket r) (dst_key r) d = Some r"
    by (rule current_owner_row [OF assms(2,3)]) (simp add: destination_at_def)
  with admit_keys_row_frame(1) [OF assms(1,4)] destination_for_update_row show ?thesis by metis
qed

lemma admit_keys_grow:
  assumes "admit_keys max_day b mids now lease_nows ks d = Inr (gs, d')"
  shows "covers d' y b' k' \<Longrightarrow> covers d y b' k' \<or> b' = b \<and> k' \<in> set ks"
    and "sml_bucket l \<noteq> b \<or> sml_key l \<notin> set ks \<Longrightarrow> l \<in> set (im_mutation_leases d') \<longleftrightarrow> l \<in> set (im_mutation_leases d)"
proof -
  have "(covers d' y b' k' \<longrightarrow> covers d y b' k' \<or> b' = b \<and> k' \<in> set ks) \<and>
      (sml_bucket l \<noteq> b \<or> sml_key l \<notin> set ks \<longrightarrow> (l \<in> set (im_mutation_leases d') \<longleftrightarrow> l \<in> set (im_mutation_leases d)))"
    using assms
  proof (induction ks arbitrary: d gs)
    case (Cons k ks)
    from Cons.prems obtain m g gs' d1
      where u: "upsert_standard_mutation max_day (destination_for_update b k d) b k m None now (lease_nows k) d = Inr (g, d1)"
        and r: "admit_keys max_day b mids now lease_nows ks d1 = Inr (gs', d')"
      unfolding admit_keys.simps by (elim bindT_InrE) simp
    from u obtain d2 l' n where t: "set_token (destination_for_update b k d) b k m None now d = Inr (n, d2)"
      and lease: "upsert_mutation_lease l' d2 = Inr ((), d1)" and l': "sml_bucket l' = b" "sml_key l' = k"
      by (rule upsert_mutation_parts)
    have "im_mutation_leases d2 = im_mutation_leases d" using set_token_Inr [OF t] by (auto split: option.splits)
    then have "l \<in> set (im_mutation_leases d1) \<longleftrightarrow> l \<in> set (im_mutation_leases d)" if "sml_bucket l \<noteq> b \<or> sml_key l \<noteq> k"
      using upserted_lease(2) [OF lease, of l] that l' by simp
    moreover have "covers d y b' k' \<or> b' = b \<and> k' = k" if "covers d1 y b' k'"
      using token_set_covers [OF upsert_mutation_token_set [OF u] that] by (auto simp: in_region_def simp del: covers.simps)
    ultimately show ?case using Cons.IH [OF r] by (auto simp del: covers.simps)
  qed simp
  then show "covers d' y b' k' \<Longrightarrow> covers d y b' k' \<or> b' = b \<and> k' \<in> set ks"
    "sml_bucket l \<noteq> b \<or> sml_key l \<notin> set ks \<Longrightarrow> l \<in> set (im_mutation_leases d') \<longleftrightarrow> l \<in> set (im_mutation_leases d)" by blast+
qed

definition superseded_row :: "string set \<Rightarrow> datetime \<Rightarrow> import_destination_model \<Rightarrow> import_destination_model" where
  "superseded_row A now r = (if owned_in A r then freed (\<lambda>i. None) now r else r)"

definition revoked_row :: "string \<Rightarrow> string list \<Rightarrow> datetime \<Rightarrow> import_destination_model \<Rightarrow> import_destination_model" where
  "revoked_row b ks now r = (if revoked_by b ks None r then cleared_token now r else r)"

lemma superseded_row_sel [simp]:
  "dst_bucket (superseded_row A now r) = dst_bucket r" "dst_key (superseded_row A now r) = dst_key r"
  "dst_mutation_id (superseded_row A now r) = dst_mutation_id r" "dst_mutation_prefix (superseded_row A now r) = dst_mutation_prefix r"
  by (simp_all add: superseded_row_def)

lemma revoked_row_sel [simp]:
  "dst_bucket (revoked_row b ks now r) = dst_bucket r" "dst_key (revoked_row b ks now r) = dst_key r"
  "dst_owner_job_id (revoked_row b ks now r) = dst_owner_job_id r"
  by (simp_all add: revoked_row_def cleared_token_def)

lemma rows_admitted:
  assumes ok: "ownership_ok d" and a: "admit_content_mutations_in_transaction max_day b ks mids None now lease_nows d = Inr (gs, d')"
    and A: "A = conflicting b (map (\<lambda>k. (k, current_owner b k d)) ks) None None d"
  shows "im_prefix_claims d' = delete_rows (\<lambda>c. pc_job_id c \<in> A) (im_prefix_claims d)"
    and "r \<in> set (im_destinations d) \<Longrightarrow> dst_bucket r \<noteq> b \<or> dst_key r \<notin> set ks \<Longrightarrow>
      revoked_row b ks now (superseded_row A now r) \<in> set (im_destinations d')"
    and "covers d' y b' k' \<Longrightarrow> covers d y b' k' \<or> b' = b \<and> k' \<in> set ks"
    and "sml_bucket l \<noteq> b \<or> sml_key l \<notin> set ks \<Longrightarrow> l \<in> set (im_mutation_leases d') \<longleftrightarrow> l \<in> set (im_mutation_leases d)"
proof -
  from a obtain u d1 v d2 where s: "supersede_conflicts_in_order b (map (\<lambda>k. (k, current_owner b k d)) ks) None None now d = Inr (u, d1)"
    and i: "invalidate_standard_mutations_in_order b ks None now d1 = Inr (v, d2)"
    and k: "admit_keys max_day b mids now lease_nows ks d2 = Inr (gs, d')"
    unfolding admit_content_mutations_in_transaction_def by (elim bindT_InrE) simp
  have "marked_invalidation b None (invalidated_jobs b None d) = (\<lambda>i. None)"
    by (rule ext) (simp add: marked_invalidation_def invalidated_jobs_def)
  with supersede_conflicts_closed [OF ownership_ok_keyed(1,2) [OF ok] s] have d1: "d1 = superseded_all A (\<lambda>i. None) now d"
    unfolding A by simp
  have ok1: "ownership_ok d1" using keepsD [OF supersede_conflicts_preserves s] ok unfolding preserves_def by blast
  note d2 = invalidate_in_order_closed [OF ownership_ok_keyed(1) [OF ok1] i]
  show "im_prefix_claims d' = delete_rows (\<lambda>c. pc_job_id c \<in> A) (im_prefix_claims d)"
    using admit_keys_row_frame(2) [OF k, of "''x'' @ b"] by (simp add: d2 d1)
  show "sml_bucket l \<noteq> b \<or> sml_key l \<notin> set ks \<Longrightarrow> l \<in> set (im_mutation_leases d') \<longleftrightarrow> l \<in> set (im_mutation_leases d)"
    using admit_keys_grow(2) [OF k, of l] by (simp add: d2 d1)
  have "shrinks d d1"
    unfolding d1 by (rule shrinks_update [OF superseded_all_sel(1)]) (auto simp: delete_rows_def row_shrinks_rules(2))
  moreover have "shrinks d1 d2"
    by (rule shrinks_update [of d2 "revoked_by b ks None" "cleared_token now"]) (simp_all add: d2 row_shrinks_rules(3))
  ultimately show "covers d' y b' k' \<Longrightarrow> covers d y b' k' \<or> b' = b \<and> k' \<in> set ks"
    using admit_keys_grow(1) [OF k] shrinks_covers by blast
  assume r: "r \<in> set (im_destinations d)" "dst_bucket r \<noteq> b \<or> dst_key r \<notin> set ks"
  have "superseded_row A now r \<in> set (im_destinations d1)" using r(1) by (auto simp: d1 set_update_rows superseded_row_def)
  then have "revoked_row b ks now (superseded_row A now r) \<in> set (im_destinations d2)"
    unfolding d2 with_destinations_sel set_update_rows revoked_row_def by (rule imageI)
  then show "revoked_row b ks now (superseded_row A now r) \<in> set (im_destinations d')"
    using admitted_row [OF k ownership_ok_keyed(1) [OF cleared_ok(1) [OF ok s i refl]]] r(2) by simp
qed

lemma others_kept:
  assumes ok: "ownership_ok d" and a: "admit_content_mutations_in_transaction max_day b ks mids None now lease_nows d = Inr (gs, d')"
    and none: "\<forall>k \<in> set ks. \<not> covers d y b k" and c: "covers d y b' k'"
  shows "covers d' y b' k'"
proof (cases y)
  case (Job_claim j)
  let ?A = "conflicting b (map (\<lambda>k. (k, current_owner b k d)) ks) None None d"
  note rows = rows_admitted [OF ok a refl]
  have out: "j \<notin> ?A" using none overlapping_covers [of j b d ks] unfolding Job_claim conflicting_def by blast
  show ?thesis
  proof (cases "\<exists>r \<in> set (im_destinations d). destination_at b' k' r \<and> dst_owner_job_id r = Some j")
    case True
    then obtain r where r: "r \<in> set (im_destinations d)" "dst_bucket r = b'" "dst_key r = k'" "dst_owner_job_id r = Some j"
      by (auto simp: destination_at_def)
    have "b' \<noteq> b \<or> k' \<notin> set ks" using none c unfolding Job_claim by blast
    with rows(2) [OF r(1)] r have "revoked_row b ks now (superseded_row ?A now r) \<in> set (im_destinations d')" by simp
    moreover have "superseded_row ?A now r = r" using out r(4) by (auto simp: superseded_row_def owned_in_def)
    ultimately have "revoked_row b ks now r \<in> set (im_destinations d')" by simp
    moreover have "destination_at b' k' (revoked_row b ks now r)" "dst_owner_job_id (revoked_row b ks now r) = Some j"
      using r(2-4) by (simp_all add: destination_at_def)
    ultimately show ?thesis unfolding Job_claim covers.simps by blast
  next
    case False
    with c out show ?thesis unfolding Job_claim by (auto simp: rows(1) delete_rows_def)
  qed
next
  case (Token_claim t)
  let ?A = "conflicting b (map (\<lambda>k. (k, current_owner b k d)) ks) None None d"
  let ?r = "superseded_row ?A now"
  from c Token_claim obtain r where r: "r \<in> set (im_destinations d)" "destination_at b' t r" "dst_mutation_id r \<noteq> None" "token_covers k' r"
    by auto
  have apart: "\<not> (dst_bucket r = b \<and> (\<exists>k \<in> set ks. token_covers k r))"
    using none r(1-3) unfolding Token_claim covers.simps destination_at_def by blast
  then have "\<not> revoked_by b ks None (?r r)"
    by (auto simp: revoked_by_def with_token_def exact_overlap_def prefix_overlap_def list_ex_iff token_covers_def split: option.splits)
  then have "revoked_row b ks now (?r r) = ?r r" by (simp add: revoked_row_def)
  moreover have "dst_bucket r \<noteq> b \<or> dst_key r \<notin> set ks" using apart by (auto simp: token_covers_def)
  ultimately have "?r r \<in> set (im_destinations d')" using rows_admitted(2) [OF ok a refl r(1)] by simp
  moreover have "destination_at b' t (?r r)" "dst_mutation_id (?r r) \<noteq> None" "token_covers k' (?r r)"
    using r(2-4) unfolding destination_at_def token_covers_def superseded_row_sel by simp_all
  ultimately show ?thesis unfolding Token_claim covers.simps by blast
qed

text \<open>C5: A committed admission of content mutations hands every key over to the new writer. It returns one guard per distinct
  key, in order, and each guard passes verification until its lease of two minutes ends. The import jobs it finishes are exactly
  the unfinished ones that covered one of the keys. A guard of an earlier mutation whose key or prefix covered one of the keys
  fails verification in the new database and after any further transactions, as long as these do not delete the bucket or at
  least do not hand out the earlier token a second time. A claimant that covered none of the keys keeps all it covered.\<close>

theorem admission_hands_over:
  assumes "ownership_empty d0" "ownership_steps d0 d"
    and a: "admit_content_mutations max_day b ks fresh None now lease_nows d = Inr (gs, d')"
  shows "map sg_key gs = sort (remdups ks) \<and>
    (\<forall>g \<in> set gs. \<forall>clock < lease_nows (sg_key g) + STANDARD_MUTATION_LEASE_SECONDS * second_ns.
      verify_standard_mutation_guard g b (sg_key g) [] clock d' = Inr ((), d')) \<and>
    (\<forall>i. job_active d' i \<longleftrightarrow> job_active d i \<and> \<not> (\<exists>k \<in> set ks. covers d (Job_claim i) b k)) \<and>
    (\<forall>g k. guard_held g d \<longrightarrow> sg_bucket g = b \<longrightarrow> k \<in> set ks \<longrightarrow> covers d (Token_claim (sg_key g)) b k \<longrightarrow>
      (\<forall>issued kept d'' b' k' es clock. (ownership_step issued kept)\<^sup>*\<^sup>* d' d'' \<longrightarrow>
        sg_mutation_id g \<in> issued \<or> b \<in> kept \<longrightarrow> (\<exists>e. verify_standard_mutation_guard g b' k' es clock d'' = Inl e))) \<and>
    (\<forall>y b' k'. covers d y b' k' \<longrightarrow> (\<forall>k \<in> set ks. \<not> covers d y b k) \<longrightarrow> covers d' y b' k')"
proof -
  note ok = reached_ok [OF assms(1,2)]
  from a ok(1) obtain d2 where d2: "advances d d2" "ownership_ok d2" "\<forall>k \<in> set ks. \<forall>x. \<not> covers d2 x b k"
      "\<forall>i. job_active d2 i \<longleftrightarrow> job_active d i \<and> \<not> (\<exists>k \<in> set ks. covers d (Job_claim i) b k)"
    and k: "admit_keys max_day b (\<lambda>k. if k \<in> set ks then Some (fresh k) else None) now lease_nows (sort (remdups ks)) d2 = Inr (gs, d')"
    by (rule admitted_parts)
  note keyed = ownership_ok_keyed(3) [OF ok(1)] ownership_ok_keyed(3) [OF d2(2)]
  note live = admit_keys_live [OF k _ keyed(2) generations_advance [OF keyed(1) d2(1) ok(2)]]
  show ?thesis
  proof (intro conjI)
    show "map sg_key gs = sort (remdups ks)" using live by simp
    show "\<forall>g \<in> set gs. \<forall>clock < lease_nows (sg_key g) + STANDARD_MUTATION_LEASE_SECONDS * second_ns.
        verify_standard_mutation_guard g b (sg_key g) [] clock d' = Inr ((), d')" using live by simp
    show "\<forall>i. job_active d' i \<longleftrightarrow> job_active d i \<and> \<not> (\<exists>k \<in> set ks. covers d (Job_claim i) b k)"
      using d2(4) job_active_same [OF admitted_jobs [OF k]] by blast
    show "\<forall>g k. guard_held g d \<longrightarrow> sg_bucket g = b \<longrightarrow> k \<in> set ks \<longrightarrow> covers d (Token_claim (sg_key g)) b k \<longrightarrow>
        (\<forall>issued kept d'' b' k' es clock. (ownership_step issued kept)\<^sup>*\<^sup>* d' d'' \<longrightarrow>
          sg_mutation_id g \<in> issued \<or> b \<in> kept \<longrightarrow> (\<exists>e. verify_standard_mutation_guard g b' k' es clock d'' = Inl e))"
    proof (intro allI impI)
      fix g k' issued kept d'' b' k'' es clock
      assume g: "guard_held g d" "sg_bucket g = b" "k' \<in> set ks" "covers d (Token_claim (sg_key g)) b k'"
        and s: "(ownership_step issued kept)\<^sup>*\<^sup>* d' d''" and fresh: "sg_mutation_id g \<in> issued \<or> b \<in> kept"
      have was_issued: "guard_issued g d2" by (rule issued_advances [OF keyed(1) d2(1) held_issued [OF g(1)]])
      have revoked: "\<not> guard_held g d2"
        using token_carried [OF keyed(1) d2(1) g(1)] g(2,4) d2(3) g(3) by blast
      have adv: "advances d2 d'" by (rule keepsD [OF admit_keys_advances k])
      have "keyed d'" using adv keyed(2) unfolding advances_def by blast
      from revoked_steps [OF s this issued_advances [OF keyed(2) adv was_issued] revoked_advances [OF keyed(2) adv was_issued revoked]] fresh g(2)
      have "\<not> guard_held g d''" unfolding revoked_def by blast
      then show "\<exists>e. verify_standard_mutation_guard g b' k'' es clock d'' = Inl e" by (rule unheld_refused(1))
    qed
    from a have t: "admit_content_mutations_in_transaction max_day b (sort (remdups ks))
        (\<lambda>k. if k \<in> set ks then Some (fresh k) else None) None now lease_nows d = Inr (gs, d')"
      unfolding admit_content_mutations_def by (elim bindT_InrE) simp
    show "\<forall>y b' k'. covers d y b' k' \<longrightarrow> (\<forall>k \<in> set ks. \<not> covers d y b k) \<longrightarrow> covers d' y b' k'"
      using others_kept [OF ok(1) t] by (simp del: covers.simps)
  qed
qed


theorem admission_hands_over_witness:
  "verify_standard_mutation_guard (sample_guard ''m2'' 2) ''b'' ''p/x'' [] 100 remutated_db = Inr ((), remutated_db) \<and>
   (\<exists>e. verify_standard_mutation_guard (sample_guard ''m1'' 1) ''b'' ''p/x'' [] 8 remutated_db = Inl e)"
proof -
  have s: "ownership_steps empty_import mutated_db" using sample_steps(2,3) by (rule rtranclp_trans)
  note h = admission_hands_over [OF sample_steps(1) s sample_runs(3) [unfolded sample_admit_def]]
  have c: "(100::int) < 7 + STANDARD_MUTATION_LEASE_SECONDS * second_ns" by code_simp
  have g: "guard_held (sample_guard ''m1'' 1) mutated_db" "covers mutated_db (Token_claim ''p/x'') ''b'' ''p/x''" by code_simp+
  have sel: "sg_bucket (sample_guard m n) = ''b''" "sg_key (sample_guard m n) = ''p/x''" for m n by (simp_all add: sample_guard_def)
  have "verify_standard_mutation_guard (sample_guard ''m2'' 2) ''b'' ''p/x'' [] 100 remutated_db = Inr ((), remutated_db)"
    using h c by (simp add: sel del: verify_standard_mutation_guard_Inr)
  moreover have "\<exists>e. verify_standard_mutation_guard (sample_guard ''m1'' 1) ''b'' ''p/x'' [] 8 remutated_db = Inl e"
    using h g sel rtranclp.rtrancl_refl [of "ownership_step {} UNIV" remutated_db] by (metis UNIV_I list.set_intros(1))
  ultimately show ?thesis by blast
qed


text \<open>C6: A content admission on an existing bucket always commits. From every reachable database whose job rows fit the bounds of
  the readers and whose generations are below the maximum, and at clock readings whose leases are representable, the loops that
  supersede jobs, revoke tokens and write the new tokens end without an error, whatever the other claimants hold.\<close>

theorem content_admission_commits:
  assumes "ownership_empty d0" "ownership_steps d0 d" "bucket_locked b d"
    and "\<forall>j \<in> set (im_jobs d). job_fits j" "\<forall>r \<in> set (im_destinations d). dst_generation r < i64_max"
    and "\<forall>k \<in> set ks. lease_fits max_day (lease_nows k)"
  shows "\<exists>gs d'. admit_content_mutations max_day b ks fresh None now lease_nows d = Inr (gs, d')"
proof -
  note ok = reached_ok [OF assms(1,2)]
  have b: "b \<in> im_buckets d"
    using assms(3) count_rows_0 [of "\<lambda>r. bucket_name r = b" "buckets (qd_store (im_queue d))"] by (auto simp: bucket_locked_def im_buckets_def)
  have bump: "\<forall>r \<in> set (im_destinations d). bumpable r"
    using ok(2) assms(5) by (simp add: generations_ok_def bumpable_def)
  have ks: "\<forall>k \<in> set (sort (remdups ks)). (if k \<in> set ks then Some (fresh k) else None) \<noteq> None \<and> lease_fits max_day (lease_nows k)"
    using assms(6) by simp
  have "distinct (sort (remdups ks))" by simp
  from admit_contents_total [OF ok(1) b this ks assms(4) bump]
  obtain gs d' where "admit_content_mutations_in_transaction max_day b (sort (remdups ks))
      (\<lambda>k. if k \<in> set ks then Some (fresh k) else None) None now lease_nows d = Inr (gs, d')" by blast
  moreover have "lock_ownership b d = Inr ((), d)" using assms(3) by simp
  ultimately have "admit_content_mutations max_day b ks fresh None now lease_nows d = Inr (gs, d')"
    by (simp add: admit_content_mutations_def bindT_def del: lock_ownership_Inr)
  then show ?thesis by blast
qed

theorem content_admission_commits_witness:
  "\<exists>gs d'. admit_content_mutations 100000 ''b'' [''z'', ''p/x''] (\<lambda>k. ''m'') None 8 (\<lambda>k. 8) mutated_db = Inr (gs, d')"
proof (rule content_admission_commits [OF sample_steps(1)])
  show "ownership_steps empty_import mutated_db" using sample_steps(2,3) by (rule rtranclp_trans)
  show "bucket_locked ''b'' mutated_db" by code_simp
  show "\<forall>j \<in> set (im_jobs mutated_db). job_fits j" by code_simp
  show "\<forall>r \<in> set (im_destinations mutated_db). dst_generation r < i64_max" by code_simp
  show "\<forall>k \<in> set [''z'', ''p/x'']. lease_fits 100000 8" by code_simp
qed

section \<open>Lifecycle admissions\<close>

definition jobs_kept :: "import_db \<Rightarrow> import_db \<Rightarrow> bool" where
  "jobs_kept d d' \<longleftrightarrow> im_jobs d' = im_jobs d \<and> im_prefix_claims d' = im_prefix_claims d \<and> im_targets d' = im_targets d \<and>
     (\<forall>i b k. covers d' (Job_claim i) b k \<longleftrightarrow> covers d (Job_claim i) b k)"

interpretation jobs_kept: tx_preorder jobs_kept
  by unfold_locales (simp_all add: jobs_kept_def del: covers.simps)

lemma owner_rows_same:
  assumes "\<And>r. dst_owner_job_id (f r) = dst_owner_job_id r" "\<And>r. dst_pk (f r) = dst_pk r"
  shows "(\<exists>r \<in> set (update_rows P f t). destination_at b k r \<and> dst_owner_job_id r = Some i) \<longleftrightarrow>
    (\<exists>r \<in> set t. destination_at b k r \<and> dst_owner_job_id r = Some i)"
  using assms by (induction t) (auto simp: update_rows_def destination_at_pk)

lemma recover_jobs_kept: "keeps jobs_kept (recover_expired_mutations_in_transaction b clocks)"
proof (rule recover_keeps [OF jobs_kept.tx_preorder_axioms], rule keepsI)
  fix now l d u d' assume "release_expired now l d = Inr (u, d')"
  then have d': "d' = token_cleared_db (lease_guard l) (\<lambda>r. True) now d" by (simp add: release_expired_eq)
  show "jobs_kept d d'"
    unfolding d' jobs_kept_def covers.simps token_cleared_db_sel
    by (simp add: owner_rows_same cleared_token_def)
qed

lemma upsert_jobs_kept:
  assumes u: "upsert_standard_mutation max_day (destination_for_update b k d) b k m None now lease_now d = Inr (g, d')"
    and ok: "ownership_ok d" and free: "lifecycle_free b k d"
  shows "jobs_kept d d'"
proof -
  from u obtain d1 l n where t: "set_token (destination_for_update b k d) b k m None now d = Inr (n, d1)"
    and l: "upsert_mutation_lease l d1 = Inr ((), d')"
    by (rule upsert_mutation_parts)
  have targets: "im_targets d' = im_targets d"
    using set_token_Inr [OF t] upsert_lease_tables(4) [OF l] by (auto split: option.splits)
  note same = token_setD(1,2) [OF upsert_mutation_token_set [OF u]]
  have grown: "covers d (Job_claim i) b' k'" if "covers d' (Job_claim i) b' k'" for i b' k'
    using token_set_covers [OF upsert_mutation_token_set [OF u] that] by blast
  have kept: "covers d' (Job_claim i) b' k'" if c: "covers d (Job_claim i) b' k'" for i b' k'
  proof (cases "\<exists>r \<in> set (im_destinations d). destination_at b' k' r \<and> dst_owner_job_id r = Some i")
    case True
    then obtain r where r: "r \<in> set (im_destinations d)" "destination_at b' k' r" "dst_owner_job_id r = Some i" by blast
    have found: "destination_for_update b' k' d = Some r" by (rule current_owner_row [OF ownership_ok_keyed(1) [OF ok] r(1,2)])
    then have "(b', k') \<noteq> (b, k)" using free r(3) by (auto simp: lifecycle_free_def)
    with found have "destination_for_update b' k' d1 = Some r" using token_row_frame [OF t] by simp
    then have "r \<in> set (im_destinations d')" using destination_for_update_row upsert_lease_tables(1) [OF l] by metis
    with r show ?thesis by auto
  next
    case False
    with c show ?thesis by (simp add: same)
  qed
  show ?thesis unfolding jobs_kept_def using same targets grown kept by blast
qed

lemma token_row_covers:
  assumes "destination_for_update b k d = Some r" "dst_mutation_id r \<noteq> None"
  shows "covers d (Token_claim k) b k"
  using destination_for_update_row [OF assms(1)] assms(2) by (auto simp: destination_at_def token_covers_def)

lemma occupied_covers:
  assumes ok: "ownership_ok d" and "\<not> lifecycle_free b k d"
  shows "\<exists>y. covers d y b k"
proof -
  from assms(2) consider (owner) r i where "destination_for_update b k d = Some r" "dst_owner_job_id r = Some i"
    | (claim) i where "i \<in> set (prefix_owners_for_key b k d)" | (token) "has_overlapping_standard_prefix_mutation b k d"
    by (fastforce simp: lifecycle_free_def bind_eq_Some_conv prefix_owner_jobs_for_key_def identifiers_page_Nil neq_Nil_conv)
  then show ?thesis
  proof cases
    case owner
    with destination_for_update_row have "covers d (Job_claim i) b k" by (force simp: destination_at_def)
    then show ?thesis by blast
  next
    case claim
    then have "covers d (Job_claim i) b k" by (auto simp: prefix_owners_for_key_def)
    then show ?thesis by blast
  next
    case token
    then obtain r p where "r \<in> set (im_destinations d)" "with_token b r" "dst_mutation_prefix r = Some p" "starts_with k p"
      unfolding has_overlapping_standard_prefix_mutation_def has_overlapping_from_iff [OF ownership_ok_keyed(1) [OF ok]] by blast
    then have "covers d (Token_claim (dst_key r)) b k" by (auto simp: with_token_def destination_at_def token_covers_def)
    then show ?thesis by blast
  qed
qed


lemma lifecycle_outcome:
  assumes t: "try_admit_lifecycle_mutation max_day b k a e now clocks lease_now d = Inr (og, d')" and ok: "ownership_ok d"
  shows "jobs_kept d d'"
    and "og = None \<Longrightarrow> \<exists>y. covers d' y b k"
    and "og = Some g \<Longrightarrow> guard_held g d' \<and> sg_bucket g = b \<and> sg_key g = k \<and> sg_mutation_id g = lifecycle_token a e \<and> covers d' (Token_claim k) b k"
proof -
  have "jobs_kept d d' \<and> (og = None \<longrightarrow> (\<exists>y. covers d' y b k)) \<and> (og = Some g \<longrightarrow> guard_held g d' \<and> sg_bucket g = b \<and> sg_key g = k \<and>
      sg_mutation_id g = lifecycle_token a e \<and> covers d' (Token_claim k) b k)"
    using t
  proof (cases rule: try_admit_lifecycle_parts)
    case (unchanged u)
    have kept: "jobs_kept d d'" by (rule keepsD [OF recover_jobs_kept unchanged(1)])
    have ok': "ownership_ok d'" using keepsD [OF recover_preserves unchanged(1)] ok unfolding preserves_def by blast
    from unchanged(2) show ?thesis
    proof (elim disjE conjE exE)
      fix r assume r: "destination_for_update b k d' = Some r" "dst_mutation_id r \<noteq> None" "og = None"
      with kept token_row_covers [OF r(1,2)] show ?thesis by blast
    next
      fix r assume r: "destination_for_update b k d' = Some r" "dst_mutation_id r = Some (lifecycle_token a e)"
        and og: "og = Some \<lparr>sg_bucket = b, sg_key = k, sg_mutation_id = lifecycle_token a e,
          sg_expected_generation = dst_generation r, sg_mutation_prefix = None\<rparr>"
      have "covers d' (Token_claim k) b k" using token_row_covers [OF r(1)] r(2) by simp
      with kept r destination_for_update_row [OF r(1)] og show ?thesis
        by (auto simp: guard_held_def destination_at_def simp del: covers.simps)
    qed (use kept occupied_covers [OF ok'] in blast)
  next
    case (admitted u d1 g')
    have ok1: "ownership_ok d1" using keepsD [OF recover_preserves admitted(1)] ok unfolding preserves_def by blast
    have kept: "jobs_kept d d'"
      by (rule jobs_kept.transitive [OF keepsD [OF recover_jobs_kept admitted(1)] upsert_jobs_kept [OF admitted(4) ok1 admitted(2)]])
    from admitted(4) obtain d2 l n where s: "set_token (destination_for_update b k d1) b k (lifecycle_token a e) None now d1 = Inr (n, d2)"
      and l: "upsert_mutation_lease l d2 = Inr ((), d')"
      and g': "g' = \<lparr>sg_bucket = b, sg_key = k, sg_mutation_id = lifecycle_token a e, sg_expected_generation = n, sg_mutation_prefix = None\<rparr>"
      by (rule upsert_mutation_parts)
    from s obtain r where "destination_for_update b k d2 = Some r" and r: "dst_generation r = n" "dst_mutation_id r = Some (lifecycle_token a e)"
      by (rule token_row)
    then have found: "destination_for_update b k d' = Some r"
      by (simp add: destination_for_update_def find_destination_for_update_def upsert_lease_tables [OF l])
    have "covers d' (Token_claim k) b k" using token_row_covers [OF found] r(2) by simp
    with kept admitted(3) g' r destination_for_update_row [OF found] show ?thesis
      by (auto simp: guard_held_def destination_at_def simp del: covers.simps)
  qed
  then show "jobs_kept d d'" "og = None \<Longrightarrow> \<exists>y. covers d' y b k"
    "og = Some g \<Longrightarrow> guard_held g d' \<and> sg_bucket g = b \<and> sg_key g = k \<and> sg_mutation_id g = lifecycle_token a e \<and> covers d' (Token_claim k) b k"
    by blast+
qed

text \<open>C10: A lifecycle admission yields to every import. It leaves the jobs, their prefix claims, their targets and the keys each
  job covers as they are. When it grants a guard, the guard holds the key under the token of the action and claim epoch, and
  nothing else covers the key. When it refuses, some claimant covers the key.\<close>

theorem lifecycle_admission_yields:
  assumes "ownership_empty d0" "ownership_steps d0 d"
    and t: "try_admit_lifecycle_mutation max_day b k a e now clocks lease_now d = Inr (og, d')"
  shows "im_jobs d' = im_jobs d \<and> im_prefix_claims d' = im_prefix_claims d \<and> im_targets d' = im_targets d \<and>
    (\<forall>i b' k'. covers d' (Job_claim i) b' k' \<longleftrightarrow> covers d (Job_claim i) b' k') \<and>
    (case og of
       None \<Rightarrow> \<exists>y. covers d' y b k
     | Some g \<Rightarrow> guard_held g d' \<and> sg_bucket g = b \<and> sg_key g = k \<and> sg_mutation_id g = lifecycle_token a e \<and>
         (\<forall>y. covers d' y b k \<longleftrightarrow> y = Token_claim k))"
proof -
  note ok = reached_ok(1) [OF assms(1,2)]
  have ok': "exclusive d'"
    using ownership_step_preserves [OF ownership_step.admit_lifecycle [OF t, where issued = "{}"]] ok unfolding preserves_def ownership_ok_def by blast
  note out = lifecycle_outcome [OF t ok]
  have "case og of None \<Rightarrow> \<exists>y. covers d' y b k
      | Some g \<Rightarrow> guard_held g d' \<and> sg_bucket g = b \<and> sg_key g = k \<and> sg_mutation_id g = lifecycle_token a e \<and>
         (\<forall>y. covers d' y b k \<longleftrightarrow> y = Token_claim k)"
  proof (cases og)
    case None
    with out(2) show ?thesis by simp
  next
    case (Some g)
    have "\<forall>y. covers d' y b k \<longleftrightarrow> y = Token_claim k" using out(3) [OF Some] ok' unfolding exclusive_def by blast
    with out(3) [OF Some] Some show ?thesis by (simp del: covers.simps)
  qed
  with out(1) show ?thesis unfolding jobs_kept_def by blast
qed

definition granted_db :: import_db where
  "granted_db = snd (projr (try_admit_lifecycle_mutation 100000 ''b'' ''q'' ''a1'' 1 7 (\<lambda>n. (7, 7)) 7 submitted_db))"

theorem lifecycle_admission_yields_witness:
  "(\<forall>y. covers granted_db y ''b'' ''q'' \<longleftrightarrow> y = Token_claim ''q'') \<and> covers granted_db (Job_claim ''j1'') ''b'' ''z'' \<and>
   (\<exists>y. covers submitted_db y ''b'' ''p/q'')"
proof -
  have granted: "try_admit_lifecycle_mutation 100000 ''b'' ''q'' ''a1'' 1 7 (\<lambda>n. (7, 7)) 7 submitted_db =
      Inr (Some \<lparr>sg_bucket = ''b'', sg_key = ''q'', sg_mutation_id = ''lifecycle:a1:1'', sg_expected_generation = 1, sg_mutation_prefix = None\<rparr>,
        granted_db)"
    and refused: "try_admit_lifecycle_mutation 100000 ''b'' ''p/q'' ''a1'' 1 7 (\<lambda>n. (7, 7)) 7 submitted_db = Inr (None, submitted_db)"
    and z: "covers submitted_db (Job_claim ''j1'') ''b'' ''z''"
    by code_simp+
  from lifecycle_admission_yields [OF sample_steps(1,2) granted] lifecycle_admission_yields [OF sample_steps(1,2) refused] z
  show ?thesis by (simp del: covers.simps)
qed


section \<open>Publication\<close>

lemma btree_insert_keys: "fst ` set (btree_insert k v m) = insert k (fst ` set m)"
  by (induction k v m rule: btree_insert.induct) auto

lemma target_map_keys:
  "target_map b m ts = Inr m' \<Longrightarrow> fst ` set m' = fst ` set m \<union> (\<lambda>t. (et_bucket t, et_key t)) ` set ts \<and> (\<forall>t \<in> set ts. et_bucket t = b)"
proof (induction ts arbitrary: m)
  case (Cons t ts)
  let ?m = "btree_insert (et_bucket t, et_key t) (et_generation t) m"
  have "et_bucket t = b" "target_map b ?m ts = Inr m'"
    using Cons.prems by (simp_all split: if_splits option.splits)
  with Cons.IH [of ?m] show ?case by (simp add: btree_insert_keys)
qed simp

lemma durable_keys: "fst ` set (durable_targets i d) = (\<lambda>t. (jt_bucket t, jt_key t)) ` {t \<in> set (im_targets d). jt_job_id t = i}"
proof -
  have "fst ` set (fold (\<lambda>t. btree_insert (jt_bucket t, jt_key t) (jt_expected_generation t)) ts m) =
      fst ` set m \<union> (\<lambda>t. (jt_bucket t, jt_key t)) ` set ts" for ts :: "import_job_target_model list" and m
    by (induction ts arbitrary: m) (auto simp: btree_insert_keys)
  then show ?thesis by (simp add: durable_targets_def)
qed

lemma for_each_check_expected:
  "for_each (check_expected_target i) ts d = Inr (u, d') \<longleftrightarrow>
     (\<forall>t \<in> set ts. owned_at i (snd t) (destination_for_update (fst (fst t)) (snd (fst t)) d)) \<and> d' = d"
  by (induction ts) (auto simp: bindT_eq_Inr check_expected_target_def)

lemma publication_target_set_Inr: "publication_target_set ts b = Inr s \<longleftrightarrow> (\<forall>t \<in> set ts. fst t = b) \<and> s = set ts"
  by (auto simp: publication_target_set_def list_ex_iff)

lemma job_present_Inr: "job_present P b d = Inr (u, d') \<longleftrightarrow> (\<exists>j \<in> set (im_jobs d). P j \<and> ij_bucket j = b) \<and> d' = d"
  by (simp add: job_present_def bindT_eq_Inr one_row_Some_iff del: not_None_eq)

lemma publication_parts:
  assumes "verify_publication_guard g b targets clock d = Inr (u, d')"
  shows "d' = d"
    and "\<exists>j \<in> set (im_jobs d). active_guard_filter (pg_job_id g) (pg_worker_id g) (pg_claim_epoch g) clock j \<and> ij_bucket j = b"
    and "\<forall>t \<in> set targets. fst t = b"
    and "\<forall>t \<in> set targets. \<exists>n. owned_at (pg_job_id g) n (destination_for_update (fst t) (snd t) d)"
    and "set targets = (\<lambda>t. (jt_bucket t, jt_key t)) ` {t \<in> set (im_targets d). jt_job_id t = pg_job_id g}"
proof -
  have "\<exists>m. target_map b [] (pg_targets g) = Inr m \<and> set (map fst m) = set targets \<and> (\<forall>t \<in> set targets. fst t = b) \<and>
      (\<forall>t \<in> set m. owned_at (pg_job_id g) (snd t) (destination_for_update (fst (fst t)) (snd (fst t)) d)) \<and>
      (\<exists>j \<in> set (im_jobs d). active_guard_filter (pg_job_id g) (pg_worker_id g) (pg_claim_epoch g) clock j \<and> ij_bucket j = b) \<and>
      durable_targets (pg_job_id g) d = m \<and> d' = d"
    using assms unfolding verify_publication_guard_def bindT_eq_Inr getsT_apply guardT_eq_Inr for_each_check_expected job_present_Inr
      liftT_eq_Inr publication_target_set_Inr sum.inject prod.inject
    by (elim exE conjE) (intro exI conjI; simp only:)
  then obtain m where 1: "target_map b [] (pg_targets g) = Inr m" "set (map fst m) = set targets" "\<forall>t \<in> set targets. fst t = b"
    and 2: "\<forall>t \<in> set m. owned_at (pg_job_id g) (snd t) (destination_for_update (fst (fst t)) (snd (fst t)) d)"
    and 3: "\<exists>j \<in> set (im_jobs d). active_guard_filter (pg_job_id g) (pg_worker_id g) (pg_claim_epoch g) clock j \<and> ij_bucket j = b"
    and 4: "durable_targets (pg_job_id g) d = m" "d' = d"
    by (elim exE conjE)
  show "d' = d" by (rule 4(2))
  show "\<exists>j \<in> set (im_jobs d). active_guard_filter (pg_job_id g) (pg_worker_id g) (pg_claim_epoch g) clock j \<and> ij_bucket j = b" by (rule 3)
  show "\<forall>t \<in> set targets. fst t = b" by (rule 1(3))
  show "\<forall>t \<in> set targets. \<exists>n. owned_at (pg_job_id g) n (destination_for_update (fst t) (snd t) d)"
    unfolding 1(2) [symmetric] using 2 by auto
  show "set targets = (\<lambda>t. (jt_bucket t, jt_key t)) ` {t \<in> set (im_targets d). jt_job_id t = pg_job_id g}"
    using durable_keys [of "pg_job_id g" d] 1(2) 4(1) by simp
qed

text \<open>C11: When the publication guard of an import verifies, the job is running in the bucket under the guard's worker and claim
  epoch with an unexpired lease, the keys to publish are exactly the targets recorded for the job, and each of them is covered
  by the job and by nothing else. Verification changes nothing.\<close>

theorem verified_publication_owns_targets:
  assumes "ownership_empty d0" "ownership_steps d0 d"
    and v: "verify_publication_guard g b targets clock d = Inr (u, d')"
  shows "d' = d \<and>
    (\<exists>j \<in> set (im_jobs d). active_guard_filter (pg_job_id g) (pg_worker_id g) (pg_claim_epoch g) clock j \<and> ij_bucket j = b) \<and>
    set targets = {(jt_bucket t, jt_key t) |t. t \<in> set (im_targets d) \<and> jt_job_id t = pg_job_id g} \<and>
    (\<forall>(b', k) \<in> set targets. b' = b \<and> (\<forall>y. covers d y b k \<longleftrightarrow> y = Job_claim (pg_job_id g)))"
proof -
  note ok = reached_ok(1) [OF assms(1,2)]
  note p = publication_parts [OF v]
  have "b' = b \<and> (\<forall>y. covers d y b k \<longleftrightarrow> y = Job_claim (pg_job_id g))" if t: "(b', k) \<in> set targets" for b' k
  proof -
    have b: "b' = b" using p(3) t by auto
    from p(4) t b obtain r where r: "destination_for_update b k d = Some r" "dst_owner_job_id r = Some (pg_job_id g)"
      by (fastforce simp: owned_at_def split: option.splits)
    have "covers d (Job_claim (pg_job_id g)) b k"
      using destination_for_update_row [OF r(1)] r(2) by (auto simp: destination_at_def)
    with ok b show ?thesis unfolding ownership_ok_def exclusive_def by blast
  qed
  moreover have "set targets = {(jt_bucket t, jt_key t) |t. t \<in> set (im_targets d) \<and> jt_job_id t = pg_job_id g}"
    unfolding p(5) by blast
  ultimately show ?thesis using p(1,2) by blast
qed


definition running_db :: import_db where
  "running_db = snd (projr (claim_due_jobs (\<lambda>j. (1, 1)) ''w'' 6 100 1 submitted_db))"

theorem verified_publication_owns_targets_witness:
  "set [(''b'', ''z'')] = {(jt_bucket t, jt_key t) |t. t \<in> set (im_targets running_db) \<and> jt_job_id t = ''j1''} \<and>
   (\<forall>y. covers running_db y ''b'' ''z'' \<longleftrightarrow> y = Job_claim ''j1'')"
proof -
  let ?g = "\<lparr>pg_job_id = ''j1'', pg_worker_id = ''w'', pg_claim_epoch = 1,
    pg_targets = [\<lparr>et_bucket = ''b'', et_key = ''z'', et_generation = 1\<rparr>]\<rparr>"
  have claim: "isl (claim_due_jobs (\<lambda>j. (1, 1)) ''w'' 6 100 1 submitted_db) = False"
    and v: "verify_publication_guard ?g ''b'' [(''b'', ''z'')] 7 running_db = Inr ((), running_db)"
    by code_simp+
  have "ownership_step {} {} submitted_db running_db"
    unfolding running_db_def by (rule ownership_step.claim_jobs [OF Inr_snd_projr [OF claim]])
  then have "ownership_steps empty_import running_db" using sample_steps(2) by (rule rtranclp.rtrancl_into_rtrancl [rotated])
  from verified_publication_owns_targets [OF sample_steps(1) this v] show ?thesis by simp
qed

section \<open>Outputs of an archive\<close>

lemma set_all_prefix_owner_jobs:
  "set (all_prefix_owner_jobs b k after d) = set (prefix_owners_for_key b k d) \<inter> admissible after None"
proof (induction b k after d rule: all_prefix_owner_jobs.induct)
  case (1 b k after d)
  let ?ids = "prefix_owners_for_key b k d"
  let ?page = "identifiers_page after None ?ids"
  note rest = identifiers_page_rest [of _ ?ids after None]
  note sub = set_identifiers_page [of after None ?ids]
  show ?case
  proof (cases "?page = []")
    case True
    have "u \<notin> set ?ids \<inter> admissible after None" for u
    proof
      assume "u \<in> set ?ids \<inter> admissible after None"
      from rest(1) [OF this] True batch_size_pos show False by simp
    qed
    then have "set ?ids \<inter> admissible after None = {}" by blast
    with True show ?thesis by (simp add: all_prefix_owner_jobs.simps [of b k after d] prefix_owner_jobs_for_key_def)
  next
    case False
    then have l: "last ?page \<in> set ?page" by simp
    then have "past after (last ?page)" using sub unfolding admissible_def by blast
    then have "admissible (Some (last ?page)) None \<subseteq> admissible after None"
      unfolding admissible_def by (auto dest: past_weaken)
    moreover have "u \<in> admissible (Some (last ?page)) None" if "u \<in> set ?ids \<inter> admissible after None" "u \<notin> set ?page" for u
      using rest(2) [OF that] l unfolding admissible_def by simp
    ultimately have split: "set ?ids \<inter> admissible after None = set ?page \<union> set ?ids \<inter> admissible (Some (last ?page)) None"
      using sub by blast
    have "set (all_prefix_owner_jobs b k after d) = set ?page \<union> set (all_prefix_owner_jobs b k (Some (last ?page)) d)"
      unfolding all_prefix_owner_jobs.simps [of b k after d] prefix_owner_jobs_for_key_def Let_def if_not_P [OF False] by simp
    also note "1.IH" [unfolded prefix_owner_jobs_for_key_def, OF refl False]
    finally show ?thesis unfolding split .
  qed
qed

lemma source_token_free_iff:
  assumes "destinations_keyed d"
  shows "source_token_free b source ks after d \<longleftrightarrow>
    (\<forall>r \<in> set (im_destinations d). with_token b r \<longrightarrow> past after (dst_key r) \<longrightarrow> \<not> token_revokes_source source ks r)"
  using assms
proof (induction b source ks after d rule: source_token_free.induct)
  case (1 b source ks after d)
  let ?page = "page_of dst_key (with_token b) after (im_destinations d)"
  let ?bad = "token_revokes_source source ks"
  note rows = set_page_of [of _ dst_key "with_token b" after "im_destinations d"]
  show ?case
  proof (cases "?page = []")
    case True
    then show ?thesis by (auto simp: source_token_free.simps [of b source ks after d] page_of_Nil)
  next
    case False
    note last = past_last [OF False with_token_distinct [OF "1.prems"]]
    have lp: "past after (dst_key (last ?page))" using rows [of "last ?page"] False by simp
    show ?thesis
    proof (cases "list_ex ?bad ?page")
      case True
      then have "\<not> source_token_free b source ks after d"
        unfolding source_token_free.simps [of b source ks after d] Let_def if_not_P [OF False] if_P [OF True] by simp
      moreover from True obtain r where "r \<in> set ?page" "?bad r" unfolding list_ex_iff by blast
      ultimately show ?thesis using rows [of r] by blast
    next
      case no: False
      have "source_token_free b source ks after d \<longleftrightarrow> source_token_free b source ks (Some (dst_key (last ?page))) d"
        unfolding source_token_free.simps [of b source ks after d] Let_def if_not_P [OF False] if_not_P [OF no] ..
      also note "1.IH" [OF refl False no "1.prems"]
      also have "(\<forall>r \<in> set (im_destinations d). with_token b r \<longrightarrow> past (Some (dst_key (last ?page))) (dst_key r) \<longrightarrow> \<not> ?bad r) \<longleftrightarrow>
          (\<forall>r \<in> set (im_destinations d). with_token b r \<longrightarrow> past after (dst_key r) \<longrightarrow> \<not> ?bad r)"
        using last past_weaken [OF lp] no unfolding list_ex_iff by blast
      finally show ?thesis .
    qed
  qed
qed


lemma check_affected_Inr:
  assumes "check_affected_job b source owner i d = Inr (u, d')"
  shows "d' = d" "owner \<noteq> Some i" "\<forall>c \<in> set (im_prefix_claims d). pc_job_id c = i \<longrightarrow> pc_bucket c = b \<longrightarrow> \<not> starts_with source (pc_prefix c)"
  using assms unfolding check_affected_job_def bindT_eq_Inr by (auto simp: list_ex_iff)

lemma for_each_check_affected:
  assumes "for_each (check_affected_job b source owner) is d = Inr (u, d')"
  shows "d' = d" "i \<in> set is \<Longrightarrow> \<exists>u. check_affected_job b source owner i d = Inr (u, d)"
proof -
  have "d' = d \<and> (\<forall>i \<in> set is. \<exists>u. check_affected_job b source owner i d = Inr (u, d))"
    using assms
  proof (induction "is")
    case (Cons i "is")
    from Cons.prems obtain u1 d1 where 1: "check_affected_job b source owner i d = Inr (u1, d1)"
      and 2: "for_each (check_affected_job b source owner) is d1 = Inr (u, d')"
      by (rule for_each_ConsE)
    with check_affected_Inr(1) [OF 1] Cons.IH show ?case by auto
  qed simp
  then show "d' = d" "i \<in> set is \<Longrightarrow> \<exists>u. check_affected_job b source owner i d = Inr (u, d)" by blast+
qed

lemma source_apart:
  assumes ok: "ownership_ok d" and chk: "check_zip_outputs_do_not_revoke_source b source ks d = Inr (u, d')"
  shows "d' = d" "covers d y b source \<Longrightarrow> k \<in> set ks \<Longrightarrow> \<not> covers d y b k"
proof -
  from chk obtain d1 u1 where each: "for_each (check_affected_job b source (current_owner b source d)) (affected_jobs b ks d) d = Inr (u1, d1)"
    and free: "source_token_free b source ks None d1" and "d' = d1"
    unfolding check_zip_outputs_do_not_revoke_source_def bindT_eq_Inr by auto
  note all = for_each_check_affected [OF each]
  show "d' = d" using all(1) \<open>d' = d1\<close> by simp
  assume y: "covers d y b source" and k: "k \<in> set ks"
  show "\<not> covers d y b k"
  proof (cases y)
    case (Job_claim i)
    show ?thesis
    proof
      assume "covers d y b k"
      then have "i \<in> overlapping b [(k, current_owner b k d)] None d"
        using job_in_region_overlaps(1) [OF ok, of "[(k, current_owner b k d)]" b "[k]" None k i] Job_claim by (simp add: in_region_def)
      then have "i \<in> set (affected_jobs b ks d)"
        using k by (force simp: overlapping_def affected_jobs_def set_all_prefix_owner_jobs admissible_def split: option.splits)
      then obtain u where c: "check_affected_job b source (current_owner b source d) i d = Inr (u, d)" using all(2) by blast
      from y Job_claim check_affected_Inr(3) [OF c] obtain r
        where r: "r \<in> set (im_destinations d)" "destination_at b source r" "dst_owner_job_id r = Some i"
        by auto
      with current_owner_row [OF ownership_ok_keyed(1) [OF ok] r(1,2)] check_affected_Inr(2) [OF c] show False
        by (simp add: current_owner_def)
    qed
  next
    case (Token_claim a)
    have "\<not> (covers d (Token_claim a) b source \<and> covers d (Token_claim a) b k)"
    proof
      assume c: "covers d (Token_claim a) b source \<and> covers d (Token_claim a) b k"
      then obtain r s where r: "r \<in> set (im_destinations d)" "destination_at b a r" "dst_mutation_id r \<noteq> None" "token_covers source r"
        and s: "s \<in> set (im_destinations d)" "destination_at b a s" "token_covers k s"
        by auto
      have "s = r" using keyed_unique [OF ownership_ok_keyed(1) [OF ok] s(1) r(1)] r(2) s(2) by (simp add: destination_at_pk)
      then have "with_token b r" "token_revokes_source source ks r"
        using r s k by (auto simp: with_token_def destination_at_def token_revokes_source_def list_ex_iff)
      with free all(1) r(1) source_token_free_iff [OF ownership_ok_keyed(1) [OF ok], of b source ks None] show False by simp
    qed
    with y Token_claim show ?thesis by blast
  qed
qed


lemma guard_kept:
  assumes ok: "ownership_ok d" and a: "admit_content_mutations_in_transaction max_day b ks mids None now lease_nows d = Inr (gs, d')"
    and ok': "ownership_ok d'" and none: "\<forall>k \<in> set ks. \<not> covers d (Token_claim (sg_key g)) b k" and live: "guard_live g es clock d"
    and b: "sg_bucket g = b"
  shows "guard_live g es clock d'"
proof -
  let ?A = "conflicting b (map (\<lambda>k. (k, current_owner b k d)) ks) None None d"
  from live obtain r where r: "destination_for_update b (sg_key g) d = Some r" "holds_token g r" "dst_mutation_prefix r = sg_mutation_prefix g"
    by (auto simp: guard_live_def b split: option.splits)
  then have row: "r \<in> set (im_destinations d)" "dst_pk r = (b, sg_key g)" "dst_owner_job_id r = None" "dst_mutation_id r \<noteq> None"
    using destination_for_update_row [OF r(1)] by (simp_all add: holds_token_def)
  have apart: "\<forall>k \<in> set ks. \<not> token_covers k r" using none row unfolding covers.simps destination_at_pk by blast
  then have out: "sg_key g \<notin> set ks" using row(2) by (auto simp: token_covers_def)
  have "superseded_row ?A now r = r" using row(3) by (simp add: superseded_row_def owned_in_def)
  moreover have "\<not> revoked_by b ks None r"
    using apart by (auto simp: revoked_by_def exact_overlap_def prefix_overlap_def list_ex_iff token_covers_def split: option.splits)
  then have "revoked_row b ks now r = r" by (simp add: revoked_row_def)
  ultimately have "r \<in> set (im_destinations d')" using rows_admitted(2) [OF ok a refl row(1)] row(2) out by simp
  then have "destination_for_update b (sg_key g) d' = Some r"
    by (rule current_owner_row [OF ownership_ok_keyed(1) [OF ok']]) (simp add: destination_at_pk row(2))
  moreover have "lease_live g clock d'"
    using live rows_admitted(4) [OF ok a refl] out unfolding guard_live_def lease_live_def mutation_lease_identity_def by metis
  ultimately show ?thesis using live r by (simp add: guard_live_def b)
qed

text \<open>C12: Admitting the outputs of an archive leaves its source alone. When the transaction commits, the source is not one of the
  outputs, the claimants that cover the source are the same as before, and every guard that covered the source and verified before
  still verifies.\<close>

theorem zip_outputs_keep_source:
  assumes "ownership_empty d0" "ownership_steps d0 d"
    and z: "admit_zip_outputs_without_source_in_transaction max_day b source ks mutation_ids now lease_nows d = Inr (gs, d')"
  shows "source \<notin> set ks \<and> (\<forall>y. covers d' y b source \<longleftrightarrow> covers d y b source) \<and>
    (\<forall>g es clock. sg_bucket g = b \<longrightarrow> covers d (Token_claim (sg_key g)) b source \<longrightarrow>
      verify_standard_mutation_guard g b (sg_key g) es clock d = Inr ((), d) \<longrightarrow>
      verify_standard_mutation_guard g b (sg_key g) es clock d' = Inr ((), d'))"
proof -
  note ok = reached_ok(1) [OF assms(1,2)]
  have ok': "ownership_ok d'"
    using ownership_step_preserves [OF ownership_step.admit_zip_outputs [OF z, where issued = "{}"]] ok unfolding preserves_def by blast
  from z obtain u d1 where out: "source \<notin> set ks" and chk: "check_zip_outputs_do_not_revoke_source b source ks d = Inr (u, d1)"
    and a: "admit_content_mutations_in_transaction max_day b ks (map_of mutation_ids) None now lease_nows d1 = Inr (gs, d')"
    unfolding admit_zip_outputs_without_source_in_transaction_def by (elim bindT_InrE) simp
  note apart = source_apart [OF ok chk]
  note a = a [unfolded apart(1)]
  have same: "covers d' y b source \<longleftrightarrow> covers d y b source" for y
    using others_kept [OF ok a, of y b source] rows_admitted(3) [OF ok a refl, of y b source] apart(2) out by blast
  have guards: "guard_live g es clock d'" if "sg_bucket g = b" "covers d (Token_claim (sg_key g)) b source" "guard_live g es clock d" for g es clock
    using guard_kept [OF ok a ok' _ that(3,1)] apart(2) [OF that(2)] by blast
  show ?thesis using out same guards by (simp del: covers.simps)
qed


definition zip_db :: import_db where
  "zip_db = snd (projr (admit_zip_outputs_without_source_in_transaction 100000 ''b'' ''p/x'' [''q/1''] [(''q/1'', ''n'')] 8 (\<lambda>k. 8) mutated_db))"

theorem zip_outputs_keep_source_witness:
  "verify_standard_mutation_guard (sample_guard ''m1'' 1) ''b'' ''p/x'' [] 9 zip_db = Inr ((), zip_db) \<and>
   covers zip_db (Token_claim ''p/x'') ''b'' ''p/x''"
proof -
  have s: "ownership_steps empty_import mutated_db" using sample_steps(2,3) by (rule rtranclp_trans)
  have z: "isl (admit_zip_outputs_without_source_in_transaction 100000 ''b'' ''p/x'' [''q/1''] [(''q/1'', ''n'')] 8 (\<lambda>k. 8) mutated_db) = False"
    and c: "covers mutated_db (Token_claim ''p/x'') ''b'' ''p/x''"
    and v: "verify_standard_mutation_guard (sample_guard ''m1'' 1) ''b'' ''p/x'' [] 9 mutated_db = Inr ((), mutated_db)"
    by code_simp+
  have sel: "sg_bucket (sample_guard m n) = ''b''" "sg_key (sample_guard m n) = ''p/x''" for m n by (simp_all add: sample_guard_def)
  from zip_outputs_keep_source [OF sample_steps(1) s Inr_snd_projr [OF z], folded zip_db_def]
  have "covers zip_db (Token_claim ''p/x'') ''b'' ''p/x''"
    "verify_standard_mutation_guard (sample_guard ''m1'' 1) ''b'' ''p/x'' [] 9 zip_db = Inr ((), zip_db)"
    using c v sel [of "''m1''" 1] by metis+
  then show ?thesis by blast
qed

end
