(* ===== verification/Spec2Isabelle.thy ===== *)
theory Spec2Isabelle
  imports Prelude Chunk_Framing Version_Properties Version_Pages Lifecycle_Decisions Lifecycle_Fencing Lifecycle_Scans Ownership_Properties
begin

text \<open>
  A verification of the storage core of ipfS3, an S3 gateway in front of IPFS nodes. The program (paths
  are below src/src/) keeps buckets, objects and their versions in a relational database, stores
  content under its CID in a hot and optionally a cold IPFS tier, encrypts it in chunks, lists it to
  S3 clients, and expires or moves it by lifecycle rules that a background worker applies. Imports,
  writes of S3 clients and lifecycle actions compete for keys; an ownership protocol decides between
  them.

  \<^bold>\<open>Conventions\<close> (\<open>Prelude\<close>, \<open>Store_Schema\<close>). \<^verbatim>\<open>AppResult\<close> is \<open>app_error + 'a\<close>; every early
  return is an \<open>Inl\<close>. A database transaction is a function from the state to an error, which rolls
  back, or a value and a new state. A table is the list of its row records; queries, updates and
  deletions are list functions, and the constraints the migrations declare are checked by the
  insertions. Rows are locked by running transactions one after the other: interleavings are
  sequences of whole transactions. Times are integers of nanoseconds, integers are bounded where
  the code checks overflow, and what the code reads from outside, clock readings and fresh
  identifiers, is an argument of the operation.

  \<^bold>\<open>Parts and theories.\<close>

  \<^item> \<^emph>\<open>Object encryption\<close> (crypto/): \<open>Chunk_Framing\<close>. Framing of a byte stream into chunks, chunk
    encryption, key wrapping and SSE-C fingerprints. Framing ends and does not depend on packets;
    decryption inverts encryption for every delivery.
  \<^item> \<^emph>\<open>Versions\<close> (store/bucket.rs, store/object.rs, store/object_version.rs): \<open>Version_Types\<close>,
    \<open>Bucket_Store\<close>, \<open>Object_Store\<close> and \<open>Version_Store\<close> hold the operations, \<open>Version_Invariants\<close>
    and \<open>Version_Removal\<close> the invariant \<open>store_ok\<close> and its preservation, \<open>Version_Properties\<close> what
    clients see: reads after writes, replaced and kept versions, delete markers, promotion, frames,
    and the refinement of version lookups by a lookup in the history of a key.
  \<^item> \<^emph>\<open>Residency\<close> (residency/, store/residency/references.rs, kubo/): \<open>Residency_Store\<close>. Which tier
    serves a version, verification receipts, and the references that keep content alive.
  \<^item> \<^emph>\<open>Tags\<close> (pinning/tags.rs, store/pinning/tags.rs): \<open>Object_Tags\<close>.
  \<^item> \<^emph>\<open>Listings\<close> (s3/ops/object.rs, s3/ops/versioning.rs, s3/ops/storage_class.rs): \<open>Listing_Groups\<close>
    (common prefixes and URL encoding), \<open>Object_Listing\<close>, \<open>Version_Listing\<close>, \<open>Version_Pages\<close>,
    \<open>Storage_Class\<close> and \<open>Class_Lookup\<close>. Pages are the first groups of the requested rows, clients
    that follow the markers see each row once, and the class lookup is sound and, on stores whose
    objects have one content version and whose cold copies carry valid receipts, total.
  \<^item> \<^emph>\<open>Lifecycle rules\<close> (lifecycle/config.rs, lifecycle/filter.rs, lifecycle/model.rs,
    lifecycle/evaluator.rs): \<open>Lifecycle_Config\<close>, \<open>Lifecycle_Roundtrip\<close>, \<open>Lifecycle_Evaluator\<close> and
    \<open>Lifecycle_Decisions\<close>. Accepted configurations survive storage and reading; the evaluator
    returns an action exactly when a rule makes one eligible, in a fixed order of preference, and
    fails exactly when an expiration is due beyond the calendar.
  \<^item> \<^emph>\<open>Lifecycle queue\<close> (store/lifecycle_action.rs, the mutation fence of store/import/ownership.rs):
    \<open>Lifecycle_Queue\<close>, \<open>Lifecycle_Claims\<close> and \<open>Lifecycle_Fencing\<close>. Actions are inserted once,
    claimed under a lease and an epoch, and finished, parked or retried; \<open>queue_step\<close> is the
    relation of these transactions. A claim is refused for ever once the action is claimed again.
  \<^item> \<^emph>\<open>Lifecycle scan\<close> (store/lifecycle_scan.rs, its page_facts.rs, store/lifecycle_config.rs,
    lifecycle/worker.rs): \<open>Lifecycle_Scan\<close> pages over a bucket and schedules a page,
    \<open>Lifecycle_Facts\<close> shows that batched facts are those of single reads, \<open>Lifecycle_Cycle\<close> that a
    cycle visits every row once, \<open>Lifecycle_Store\<close> holds the stored configurations, the scan
    claims and the worker's scan step, and \<open>Lifecycle_Scans\<close> their fencing and the resumption
    of a scan.
  \<^item> \<^emph>\<open>Bucket deletion\<close> (\<open>delete\<close> of store/bucket.rs, \<open>delete_settled_in_transaction\<close> of
    store/lifecycle_transition.rs): \<open>Bucket_Deletion\<close>, on \<open>gateway_db\<close>, all tables of the model. It
    refuses a bucket in use and cascades to every table, and it is a step of \<open>queue_step\<close>,
    \<open>lifecycle_step\<close> and \<open>ownership_step\<close>. The generations of keys and the revisions of configurations
    start over in a bucket of the same name; what this means for guards and scan claims is part of
    the theorems about them.
  \<^item> \<^emph>\<open>Import jobs\<close> (store/import/jobs.rs, import/model.rs): \<open>Import_Jobs\<close>. Insertion, idempotent
    lookup, claiming, renewing, retrying and retention of jobs on \<open>import_db\<close>, the state of the
    queue with the tables of jobs, destinations, prefix claims, targets and mutation leases.
  \<^item> \<^emph>\<open>Ownership of keys\<close> (store/import/ownership.rs, its mutation_lease.rs and job_queries.rs):
    \<open>Import_Ownership\<close> holds guards, the paged loops that release, supersede and revoke, and the
    mutation leases; \<open>Import_Admission\<close> holds the transactions: submission of an import, extracted
    targets, admission of content, prefix, lifecycle and archive mutations, publication, failure and
    supersession. \<open>Ownership_Batches\<close> shows that the paged loops are set-based updates,
    \<open>Ownership_Fencing\<close> gives \<open>ownership_step\<close>, one step for every transaction, and shows that
    generations only grow while their bucket exists and that revoked tokens stay revoked, \<open>Ownership_Exclusive\<close> that every step
    keeps the invariant of one claimant per key, \<open>Ownership_Liveness\<close> that admissions return, and
    \<open>Ownership_Properties\<close> states what clients of the protocol get.

  This theory connects the scan, the evaluator and the queue: an action that was scheduled decodes to the
  row it was scheduled for.

  \<^bold>\<open>Interfaces.\<close> \<open>stream_framer\<close> is what encryption needs of framing, \<open>keyed_table\<close> what lookups by a
  primary key promise, \<open>claim_operation\<close> what the operations with a claim on an action share,
  \<open>ordered_source\<close> what a source of scan pages promises to its cursors, \<open>row_sweep\<close> what the paged
  loops over destinations need of their step and \<open>total_sweep\<close>, which extends it, what they need to
  return, and \<open>tx_preorder\<close> what a relation between states needs to be kept by composed transactions.
  Each is interpreted on the definitions of the model.

  \<^bold>\<open>Parameters.\<close> Ciphers, HMAC, SHA-256, hex, base64, JSON, time formatting, UUID parsing, S3
  timestamps, CID parsing, the byte sizes of rows, the SQL pattern match of prefixes and the Kubo
  nodes are not part of the sources.
  They are arguments, and a theorem that needs their documented behaviour assumes it by name.

  \<^bold>\<open>Bounds and fuel.\<close> \<open>frame_stream\<close> and the listing loops are total functions or partial functions
  proved to return. \<open>scan_cycle\<close> follows pages with fuel; one more than the number of rows is
  proved to be enough. \<open>is_blank\<close> decodes its string with the string's length as fuel. \<open>max_day\<close> is the
  last calendar date that can be represented.

  \<^bold>\<open>Not modelled.\<close> The execution of lifecycle actions and transition sagas (lifecycle/actions.rs,
  lifecycle/transition.rs, store/lifecycle_transition.rs), of which only the deletion of a settled
  transition and the diagnostic of a cancelled one are; in the ownership protocol the second generation of archive sources
  (capturing, verifying and renewing a source guard with its direct group) and the background task
  that renews a mutation lease; the import worker, its sources and extraction (import/), where the
  pin decision and the archive capture of a submission are arguments given as their JSON; pin
  leases, jobs and remote providers (pinning/, store/pinning/); multipart uploads except their rows;
  CORS, and the HTTP handlers. Network and process code (kubo/, main.rs, auth.rs, telemetry) is I/O
  around these parts. SQLite's retries on contention and row locks have no effect when transactions
  run one after the other; \<open>ownership_step\<close> lets everything outside the protocol change its own
  tables at any time.
\<close>

section \<open>From a scanned row to an executable action\<close>

text \<open>What a scan and the evaluator guarantee about the identity of a candidate and its action.\<close>

definition well_named :: "uuid_parser \<Rightarrow> lifecycle_candidate \<Rightarrow> bool" where
  "well_named up candidate =
     (case candidate of
        VersionCandidate c \<Rightarrow>
          parse_s3 up (as_s3_str (vt_public_version_id (vc_target c))) = Inr (vt_public_version_id (vc_target c))
      | MultipartCandidate _ \<Rightarrow> True)"

definition candidate_target :: "lifecycle_candidate \<Rightarrow> lifecycle_target_identity" where
  "candidate_target candidate =
     (case candidate of VersionCandidate c \<Rightarrow> VersionTarget (vc_target c) | MultipartCandidate t \<Rightarrow> MultipartTarget t)"

definition kind_fits :: "lifecycle_action_kind \<Rightarrow> lifecycle_target_identity \<Rightarrow> bool" where
  "kind_fits kind target =
     (case target of
        VersionTarget t \<Rightarrow>
          (case kind of
             ExpireNoncurrent \<Rightarrow> True
           | DeleteExpiredMarker \<Rightarrow> vt_kind t = DeleteMarkerKind
           | AbortIncompleteMultipartUpload \<Rightarrow> False
           | _ \<Rightarrow> vt_kind t = ObjectKind)
      | MultipartTarget _ \<Rightarrow> kind = AbortIncompleteMultipartUpload)"

lemma public_version_id_named: "public_version_id_of up r = Inr p \<Longrightarrow> parse_s3 up (as_s3_str p) = Inr p"
  by (auto simp: public_version_id_of_def parse_s3_def bindR_eq_Inr split: option.splits sum.splits if_splits)

lemma candidate_from_row_named: "candidate_from_row up facts st row = Inr c \<Longrightarrow> well_named up c"
  unfolding candidate_from_row_def by (cases row) (auto simp: bindR_eq_Inr well_named_def public_version_id_named split: prod.splits)

lemma source_page_named:
  assumes "source_page up b source cursor n cached d = Inr (page, cached')"
  shows "list_all (well_named up) page"
proof -
  have "list_all (well_named up) cs" if "traverse_list (candidate_from_row up facts st) rows = Inr cs" for facts st rows cs
    using that candidate_from_row_named unfolding traverse_list_eq_Inr list_all_length list_all2_conv_all_nth by metis
  then show ?thesis
    using assms
    by (auto simp: source_page_def version_page_def bindR_eq_Inr Let_def well_named_def upload_candidate_def list_all_iff
        simp del: traverse_list.simps split: lifecycle_scan_source.splits list.splits)
qed

lemma scan_sources_named:
  "scan_sources up b cursor limit d s sources = Inr s' \<Longrightarrow> list_all (well_named up) (ss_candidates s) \<Longrightarrow>
   list_all (well_named up) (ss_candidates s')"
proof (induction sources arbitrary: s)
  case (Cons x xs)
  then show ?case
    by (auto simp: Let_def bindR_eq_Inr dest!: source_page_named split: if_splits intro: Cons.IH)
qed simp

lemma scan_page_named: "scan_candidate_page up b cursor limit d = Inr page \<Longrightarrow> list_all (well_named up) (cp_candidates page)"
  by (auto simp: scan_candidate_page_def bindR_eq_Inr dest!: scan_sources_named split: if_splits)

definition action_fits :: "int \<Rightarrow> lifecycle_target_identity \<Rightarrow> new_lifecycle_action \<Rightarrow> bool" where
  "action_fits revision target a \<longleftrightarrow>
     la_target a = target \<and> la_config_revision a = revision \<and> kind_fits (la_action_kind a) target"

lemma rule_allows_fits: "rule_allows max_day facts c rule kind due \<Longrightarrow> kind_fits kind (VersionTarget (vc_target c))"
  by (cases kind) (auto simp: kind_fits_def)

lemma evaluated_version_fits:
  assumes "ec_candidate facts = VersionCandidate c" "evaluate_candidate max_day facts = Inr (Some a)"
  shows "action_fits (ec_config_revision facts) (VersionTarget (vc_target c)) a"
proof -
  obtain ps where ps: "Some a = map_option lp_action (select_winner ps)" "set ps = competing max_day facts c"
    by (rule evaluate_versionD [OF assms])
  obtain p where p: "select_winner ps = Some p" "a = lp_action p" using ps(1) by (cases "select_winner ps") simp_all
  have "p \<in> competing max_day facts c"
    using p(1) first_of_sort_key [where f = proposal_sort_key and xs = ps, folded select_winner_def] ps(2) by auto
  then show ?thesis
    unfolding competing_def rule_proposals_def p(2)
    by (auto simp: proposal_def action_fits_def eligible_def rule_allows_fits split: sum.splits)
qed

lemma multipart_rules_fit:
  assumes "multipart_rules max_day ps facts target ordinal rules = Inr qs"
    and "list_all (\<lambda>p. action_fits (ec_config_revision facts) (MultipartTarget target) (lp_action p)) ps"
  shows "list_all (\<lambda>p. action_fits (ec_config_revision facts) (MultipartTarget target) (lp_action p)) qs"
  using assms
proof (induction rules arbitrary: ps ordinal)
  case (Cons rule rules)
  let ?fits = "\<lambda>p. action_fits (ec_config_revision facts) (MultipartTarget target) (lp_action p)"
  obtain ps' where ps': "multipart_rule max_day ps facts target ordinal rule = Inr ps'"
    "multipart_rules max_day ps' facts target (Suc ordinal) rules = Inr qs"
    using Cons.prems(1) by (auto simp: bindR_eq_Inr)
  have "?fits (multipart_proposal facts target rid sid due)" for rid sid due
    by (simp add: multipart_proposal_def action_fits_def kind_fits_def)
  then have "list_all ?fits ps'"
    using ps'(1) Cons.prems(2)
    by (auto simp: multipart_rule_def bindR_eq_Inr split: if_splits option.splits sum.splits)
  then show ?case by (rule Cons.IH [OF ps'(2)])
qed simp

lemma evaluated_upload_fits:
  assumes "ec_candidate facts = MultipartCandidate t" "evaluate_candidate max_day facts = Inr (Some a)"
  shows "action_fits (ec_config_revision facts) (MultipartTarget t) a"
proof -
  let ?key = "\<lambda>p. (la_due_at (lp_action p), lp_stable_rule_identity p)"
  obtain ps where ps: "multipart_rules max_day [] facts t 0 (clc_rules (ec_configuration facts)) = Inr ps"
    "Some a = map_option lp_action (first_of (sort_key ?key ps))"
    using assms by (auto simp: evaluate_candidate_def evaluate_multipart_def bindR_eq_Inr split: if_splits)
  obtain p where p: "first_of (sort_key ?key ps) = Some p" "a = lp_action p"
    using ps(2) by (cases "first_of (sort_key ?key ps)") simp_all
  then have "p \<in> set ps" using first_of_sort_key [where f = ?key and xs = ps] by simp
  then show ?thesis using multipart_rules_fit [OF ps(1)] p(2) by (simp add: list_all_iff)
qed

lemma action_kind_roundtrip: "action_kind_from_db (persisted_action_kind kind) = Inr kind"
  by (cases kind) (simp_all add: action_kind_from_db_def)

text \<open>The stored row of a valid action decodes to the action's target.\<close>

lemma version_row_decodes:
  assumes valid: "validate_action ic a = Inr v" and target: "la_target a = VersionTarget t"
    and kind: "kind_fits (la_action_kind a) (la_target a)"
    and named: "parse_s3 up (as_s3_str (vt_public_version_id t)) = Inr (vt_public_version_id t)"
  shows "target_from_action up (action_row v a i now) = Inr (la_target a)"
proof -
  have checks: "la_bucket a \<noteq> []" "0 < la_config_revision a" "vt_bucket t = la_bucket a" "vt_key t \<noteq> []"
    "vt_version_row_id t \<noteq> []" "0 \<le> vt_sequence t" "validate_target t = Inr ()" "as_s3_str (vt_public_version_id t) \<noteq> []"
    and k: "va_action_kind v = persisted_action_kind (la_action_kind a)"
    using valid target by (auto simp: validate_action_def bindR_eq_Inr validate_action_identity_def split: if_splits)
  have shape: "vt_kind t = ObjectKind \<longleftrightarrow> vt_object_id t \<noteq> None"
    using checks(7) by (cases "vt_kind t"; cases "vt_object_id t") (simp_all add: validate_target_def split: if_splits)
  have vkind: "(case la_action_kind a of DeleteExpiredMarker \<Rightarrow> DeleteMarkerKind
      | ExpireNoncurrent \<Rightarrow> if vt_object_id t \<noteq> None then ObjectKind else DeleteMarkerKind | _ \<Rightarrow> ObjectKind) = vt_kind t"
    using kind shape unfolding kind_fits_def target
    by (cases "la_action_kind a"; cases "vt_kind t") simp_all
  have other: "la_action_kind a \<noteq> AbortIncompleteMultipartUpload" using kind by (auto simp: kind_fits_def target)
  have sel: "act_bucket (action_row v a i now) = vt_bucket t" "act_object_key (action_row v a i now) = vt_key t"
    "act_config_revision (action_row v a i now) = la_config_revision a"
    "act_action_kind (action_row v a i now) = persisted_action_kind (la_action_kind a)"
    "act_target_type (action_row v a i now) = ''version''" "act_target_upload_id (action_row v a i now) = None"
    "act_target_upload_created_at (action_row v a i now) = None"
    "act_target_version_row_id (action_row v a i now) = Some (vt_version_row_id t)"
    "act_target_public_version_id (action_row v a i now) = Some (as_s3_str (vt_public_version_id t))"
    "act_target_object_id (action_row v a i now) = vt_object_id t" "act_target_sequence (action_row v a i now) = Some (vt_sequence t)"
    by (simp_all add: action_row_def target k checks(3))
  have "target_from_action up (action_row v a i now) = Inr (VersionTarget \<lparr>vt_bucket = vt_bucket t, vt_key = vt_key t,
      vt_version_row_id = vt_version_row_id t, vt_public_version_id = vt_public_version_id t, vt_kind = vt_kind t,
      vt_object_id = vt_object_id t, vt_sequence = vt_sequence t\<rparr>)"
    unfolding target_from_action_def sel action_kind_roundtrip bindR.simps Let_def vkind
    using checks other shape named by (simp add: nonempty_def)
  then show ?thesis by (simp add: target)
qed

lemma upload_row_decodes:
  assumes valid: "validate_action ic a = Inr v" and target: "la_target a = MultipartTarget t"
  shows "target_from_action up (action_row v a i now) = Inr (la_target a)"
  using assms
  by (auto simp: validate_action_def bindR_eq_Inr validate_action_identity_def target_from_action_def action_row_def
      action_kind_from_db_def nonempty_def split: if_splits)

definition names_candidate :: "uuid_parser \<Rightarrow> int \<Rightarrow> lifecycle_candidate \<Rightarrow> lifecycle_action_model \<Rightarrow> bool" where
  "names_candidate up revision candidate r \<longleftrightarrow>
     target_from_action up r = Inr (candidate_target candidate) \<and> act_config_revision r = revision \<and> act_state r = STATE_PENDING"

lemma evaluated_fits:
  assumes "evaluate_candidate max_day (candidate_context claim config d candidate) = Inr (Some a)"
  shows "action_fits (cs_config_revision claim) (candidate_target candidate) a"
proof (cases candidate)
  case (VersionCandidate c)
  then show ?thesis
    using evaluated_version_fits [OF _ assms, of c] by (simp add: candidate_target_def candidate_context_def Let_def)
next
  case (MultipartCandidate t)
  then show ?thesis
    using evaluated_upload_fits [OF _ assms, of t] by (simp add: candidate_target_def candidate_context_def Let_def)
qed

lemma inserted_names_candidate:
  assumes fits: "action_fits revision (candidate_target candidate) a" and named: "well_named up candidate"
    and insert: "insert_idempotent ic (a\<lparr>la_idempotency_key := key\<rparr>) uuid now d = Inr (x, d')"
    and r: "r \<in> set (qd_actions d')" "r \<notin> set (qd_actions d)"
  shows "names_candidate up revision candidate r"
proof -
  let ?a = "a\<lparr>la_idempotency_key := key\<rparr>"
  obtain v where v: "validate_action ic ?a = Inr v" "r = action_row v ?a uuid now"
    using insert r by (auto simp: insert_idempotent_def bindT_eq_Inr insert_action_row_def split: if_splits)
  have a: "la_target ?a = candidate_target candidate" "la_config_revision ?a = revision"
    "kind_fits (la_action_kind ?a) (la_target ?a)"
    using fits by (simp_all add: action_fits_def)
  have "target_from_action up r = Inr (la_target ?a)"
  proof (cases candidate)
    case (VersionCandidate c)
    then have t: "la_target ?a = VersionTarget (vc_target c)" using a(1) by (simp add: candidate_target_def)
    show ?thesis unfolding v(2)
      by (rule version_row_decodes [OF v(1) t a(3)]) (use named VersionCandidate in \<open>simp add: well_named_def\<close>)
  next
    case (MultipartCandidate t)
    then have t: "la_target ?a = MultipartTarget t" using a(1) by (simp add: candidate_target_def)
    show ?thesis unfolding v(2) by (rule upload_row_decodes [OF v(1) t])
  qed
  moreover have "act_config_revision r = revision" "act_state r = STATE_PENDING"
    using a(2) v(2) by (simp_all add: action_row_def)
  ultimately show ?thesis using a(1) by (simp add: names_candidate_def)
qed

lemma schedule_candidate_names:
  assumes named: "well_named up candidate" and s: "schedule_candidate max_day ic claim config uuid candidate d = Inr (x, d')"
    and r: "r \<in> set (qd_actions d')" "r \<notin> set (qd_actions d)"
  shows "names_candidate up (cs_config_revision claim) candidate r"
proof -
  obtain result where e: "evaluate_candidate max_day (candidate_context claim config d candidate) = Inr result"
    using s by (auto simp: schedule_candidate_def bindT_eq_Inr)
  show ?thesis
  proof (cases result)
    case None
    then have "d' = d" using s e by (auto simp: schedule_candidate_def bindT_eq_Inr)
    with r show ?thesis by simp
  next
    case (Some a)
    then obtain key y where "insert_idempotent ic (a\<lparr>la_idempotency_key := key\<rparr>) uuid (cs_database_now claim) d = Inr (y, d')"
      using s e r by (auto simp: schedule_candidate_def bindT_eq_Inr split: if_splits)
    then show ?thesis using inserted_names_candidate [OF evaluated_fits named _ r] e Some by blast
  qed
qed

lemma schedule_candidates_names:
  assumes "schedule_candidates max_day ic claim config uuids candidates d = Inr (x, d')" "list_all (well_named up) candidates"
    and "r \<in> set (qd_actions d')" "r \<notin> set (qd_actions d)"
  shows "list_ex (\<lambda>candidate. names_candidate up (cs_config_revision claim) candidate r) candidates"
  using assms
proof (induction candidates arbitrary: d uuids)
  case (Cons c cs)
  then obtain y d1 where s: "schedule_candidate max_day ic claim config (uuids 0) c d = Inr (y, d1)"
    "schedule_candidates max_day ic claim config (\<lambda>n. uuids (Suc n)) cs d1 = Inr (x, d')"
    by (auto simp: bindT_eq_Inr)
  show ?case
  proof (cases "r \<in> set (qd_actions d1)")
    case True
    then show ?thesis using schedule_candidate_names [OF _ s(1) True Cons.prems(4)] Cons.prems(2) by simp
  next
    case False
    then show ?thesis using Cons.IH [OF s(2) _ Cons.prems(3) False] Cons.prems(2) by simp
  qed
qed simp

text \<open>C32: Every action that a scan page schedules can be executed on the row it was scheduled for. A row
  that the page added to the queue is pending, carries the revision of the claimed configuration, and
  decodes, the way the executing worker decodes it, to exactly the version or upload of one of the
  page's candidates, down to its kind, object and public version ID.\<close>

theorem scheduled_actions_decode:
  assumes page: "schedule_claimed_scan_page max_day up ic of_json claim limit uuids d = Inr (page, d')"
    and r: "r \<in> set (qd_actions d')" "r \<notin> set (qd_actions d)"
  shows "list_ex (\<lambda>candidate. target_from_action up r = Inr (candidate_target candidate) \<and>
    act_config_revision r = cs_config_revision claim \<and> act_state r = STATE_PENDING) (cp_candidates page)"
proof -
  obtain config x where s: "scan_candidate_page up (cs_bucket claim) (cs_cursor claim) limit d = Inr page"
    "schedule_candidates max_day ic claim config uuids (cp_candidates page) d = Inr (x, d')"
    using page by (auto simp: schedule_claimed_scan_page_def bindT_eq_Inr)
  show ?thesis
    using schedule_candidates_names [OF s(2) scan_page_named [OF s(1)] r] unfolding names_candidate_def .
qed

theorem scheduled_actions_decode_witness:
  "schedule_claimed_scan_page (su_max_day sample_setup) Some (su_identity sample_setup) (su_config_of_json sample_setup)
     early_scan (su_scan_page_size sample_setup) (\<lambda>_. ''a1'') (ld_queue scanning) = Inr (fst sample_page, snd sample_page) \<and>
   qd_actions (ld_queue scanning) = [] \<and> qd_actions (snd sample_page) \<noteq> [] \<and>
   list_ex (\<lambda>candidate. target_from_action Some (hd (qd_actions (snd sample_page))) = Inr (candidate_target candidate) \<and>
     act_config_revision (hd (qd_actions (snd sample_page))) = cs_config_revision early_scan \<and>
     act_state (hd (qd_actions (snd sample_page))) = STATE_PENDING) (cp_candidates (fst sample_page))"
proof -
  have up: "su_uuid_parser sample_setup = Some" by (simp add: sample_setup_def)
  have rows: "qd_actions (ld_queue scanning) = []" "qd_actions (snd sample_page) \<noteq> []" by code_simp+
  note page = sample_pages(2) [unfolded up]
  have "hd (qd_actions (snd sample_page)) \<notin> set (qd_actions (ld_queue scanning))" using rows(1) by simp
  from scheduled_actions_decode [OF page hd_in_set [OF rows(2)] this] page rows show ?thesis by blast
qed

end
